(* ===== verification/Prelude.thy ===== *)
theory Prelude
  imports Main "HOL-Library.Word" "HOL-Library.Multiset"
begin

text \<open>
  What every component shares: the outcomes of a Rust call (a returned value, a panic, or no
  return at all), the index operations of \<^verbatim>\<open>Vec\<close>/\<^verbatim>\<open>VecDeque\<close> the code
  uses (\<^verbatim>\<open>iter().position\<close>, \<^verbatim>\<open>remove(i)\<close>, \<^verbatim>\<open>insert(i, x)\<close>,
  \<^verbatim>\<open>swap\<close>), and the two contracts several components fulfil: a state machine with an
  invariant, and a monotone allocator of fresh identifiers.
\<close>

section \<open>Outcomes\<close>

text \<open>
  \<^verbatim>\<open>Some (Inr x)\<close>: the call returns \<open>x\<close>. \<^verbatim>\<open>Some (Inl p)\<close>: it panics.
  \<^verbatim>\<open>None\<close>: it does not return (only loops defined by
  \<^theory_text>\<open>partial_function (option)\<close> can produce it).
\<close>

datatype panic = IndexOutOfBounds | SliceOutOfRange

type_synonym 'a outcome = "(panic + 'a) option"

type_synonym u64 = "64 word"
type_synonym u16 = "16 word"

definition returns :: "'a outcome \<Rightarrow> 'a \<Rightarrow> bool" where
  "returns r x \<longleftrightarrow> r = Some (Inr x)"

definition and_then :: "'a outcome \<Rightarrow> ('a \<Rightarrow> 'b outcome) \<Rightarrow> 'b outcome" where
  "and_then r f =
     (case r of None \<Rightarrow> None | Some (Inl p) \<Rightarrow> Some (Inl p) | Some (Inr x) \<Rightarrow> f x)"

lemma and_then_simps [simp]:
  "and_then None f = None" "and_then (Some (Inl p)) f = Some (Inl p)" "and_then (Some (Inr x)) f = f x"
  by (simp_all add: and_then_def)

lemma and_then_Some_Inr:
  "and_then r f = Some (Inr y) \<longleftrightarrow> (\<exists>x. r = Some (Inr x) \<and> f x = Some (Inr y))"
  by (auto simp: and_then_def split: option.split sum.split)

section \<open>Vector operations\<close>

fun position :: "('a \<Rightarrow> bool) \<Rightarrow> 'a list \<Rightarrow> nat option" where
  "position P [] = None"
| "position P (x # xs) = (if P x then Some 0 else map_option Suc (position P xs))"

definition remove_nth :: "nat \<Rightarrow> 'a list \<Rightarrow> 'a list" where
  "remove_nth i xs = take i xs @ drop (Suc i) xs"

definition insert_nth :: "nat \<Rightarrow> 'a \<Rightarrow> 'a list \<Rightarrow> 'a list" where
  "insert_nth i x xs = take i xs @ x # drop i xs"

definition swap_nth :: "nat \<Rightarrow> nat \<Rightarrow> 'a list \<Rightarrow> 'a list" where
  "swap_nth i j xs = xs[i := xs ! j, j := xs ! i]"

text \<open>\<^verbatim>\<open>iter_mut().find(|x| P x)\<close> with an update of what was found.\<close>

fun update_first :: "('a \<Rightarrow> bool) \<Rightarrow> ('a \<Rightarrow> 'a) \<Rightarrow> 'a list \<Rightarrow> 'a list" where
  "update_first P f [] = []"
| "update_first P f (x # xs) = (if P x then f x # xs else x # update_first P f xs)"

named_theorems vec_simps \<open>facts about the index operations of vectors\<close>

lemma position_SomeD:
  "position P xs = Some i \<Longrightarrow> i < length xs \<and> P (xs ! i) \<and> (\<forall>j<i. \<not> P (xs ! j))"
proof (induction xs arbitrary: i)
  case (Cons x xs)
  then show ?case
    by (cases i) (auto split: if_splits simp: less_Suc_eq_0_disj)
qed simp

lemma position_None_iff [simp]: "position P xs = None \<longleftrightarrow> (\<forall>x\<in>set xs. \<not> P x)"
  by (induction xs) auto

lemma position_Some_ex: "x \<in> set xs \<Longrightarrow> P x \<Longrightarrow> \<exists>i. position P xs = Some i"
  by (cases "position P xs") auto

lemma position_less [vec_simps]: "position P xs = Some i \<Longrightarrow> i < length xs"
  by (drule position_SomeD) blast

lemma position_eqI:
  "i < length xs \<Longrightarrow> P (xs ! i) \<Longrightarrow> (\<And>j. j < i \<Longrightarrow> \<not> P (xs ! j)) \<Longrightarrow> position P xs = Some i"
proof (induction xs arbitrary: i)
  case (Cons x xs)
  show ?case
  proof (cases i)
    case 0
    with Cons.prems show ?thesis by simp
  next
    case (Suc k)
    have "position P xs = Some k"
    proof (rule Cons.IH)
      fix j assume "j < k"
      with Suc Cons.prems(3) [of "Suc j"] show "\<not> P (xs ! j)" by simp
    qed (use Cons.prems Suc in simp_all)
    with Suc Cons.prems(3) [of 0] show ?thesis by simp
  qed
qed simp

lemma position_key_nth:
  "distinct (map k xs) \<Longrightarrow> i < length xs \<Longrightarrow> position (\<lambda>x. k x = k (xs ! i)) xs = Some i"
  by (rule position_eqI) (auto simp: distinct_conv_nth)

lemma find_position:
  "find P xs = (case position P xs of None \<Rightarrow> None | Some i \<Rightarrow> Some (xs ! i))"
  by (induction xs) (auto split: option.splits simp del: position_None_iff)

lemma find_None_iff_ball: "find P xs = None \<longleftrightarrow> (\<forall>x\<in>set xs. \<not> P x)"
  by (auto simp: find_None_iff)

lemma find_SomeD: "find P xs = Some x \<Longrightarrow> x \<in> set xs \<and> P x"
  by (auto simp: find_Some_iff)

lemma find_key: "distinct (map k xs) \<Longrightarrow> x \<in> set xs \<Longrightarrow> find (\<lambda>y. k y = k x) xs = Some x"
  by (induction xs) auto

lemma length_remove_nth [vec_simps]: "i < length xs \<Longrightarrow> length (remove_nth i xs) = length xs - 1"
  by (simp add: remove_nth_def)

lemma set_remove_nth_subset: "set (remove_nth i xs) \<subseteq> set xs"
  by (auto simp: remove_nth_def dest: in_set_takeD in_set_dropD)

lemma mset_remove_nth:
  assumes "i < length xs"
  shows "add_mset (xs ! i) (mset (remove_nth i xs)) = mset xs"
proof -
  have "xs = take i xs @ xs ! i # drop (Suc i) xs"
    using assms by (rule id_take_nth_drop)
  then have "mset xs = mset (take i xs @ xs ! i # drop (Suc i) xs)" by simp
  then show ?thesis by (simp add: remove_nth_def)
qed

lemma mset_insert_nth [vec_simps]: "mset (insert_nth i x xs) = add_mset x (mset xs)"
proof -
  have "mset (take i xs) + mset (drop i xs) = mset xs"
    by (metis append_take_drop_id mset_append)
  then show ?thesis by (simp add: insert_nth_def)
qed

lemma insert_remove_nth [vec_simps]: "i < length xs \<Longrightarrow> insert_nth i (xs ! i) (remove_nth i xs) = xs"
  by (simp add: insert_nth_def remove_nth_def id_take_nth_drop [symmetric])

lemma map_remove_nth: "map f (remove_nth i xs) = remove_nth i (map f xs)"
  by (simp add: remove_nth_def take_map drop_map)

lemma distinct_remove_nth: "distinct xs \<Longrightarrow> distinct (remove_nth i xs)"
  by (auto simp: remove_nth_def set_take_disj_set_drop_if_distinct)

lemma set_remove_nth_distinct:
  assumes "distinct xs" and "i < length xs"
  shows "set (remove_nth i xs) = set xs - {xs ! i}"
proof -
  have m: "add_mset (xs ! i) (mset (remove_nth i xs)) = mset xs"
    using assms(2) by (rule mset_remove_nth)
  then have "distinct (xs ! i # remove_nth i xs)"
    using assms(1) by (metis mset.simps(2) mset_eq_imp_distinct_iff)
  moreover have "insert (xs ! i) (set (remove_nth i xs)) = set xs"
    using m by (metis set_mset_add_mset_insert set_mset_mset)
  ultimately show ?thesis by auto
qed

lemma mset_swap_nth:
  "i < length xs \<Longrightarrow> j < length xs \<Longrightarrow> mset (swap_nth i j xs) = mset xs"
  by (simp add: swap_nth_def mset_swap)

lemma length_swap_nth [simp]: "length (swap_nth i j xs) = length xs"
  by (simp add: swap_nth_def)

lemma set_map_filter_find:
  "set (List.map_filter (\<lambda>u. find (\<lambda>i. k i = u) xs) us) \<subseteq> set xs"
  by (auto simp: List.map_filter_def dest: find_SomeD)

lemma length_update_first [simp]: "length (update_first P f xs) = length xs"
  by (induction xs) auto

lemma map_update_first [simp]: "(\<And>x. k (f x) = k x) \<Longrightarrow> map k (update_first P f xs) = map k xs"
  by (induction xs) auto

lemma update_first_key:
  "distinct (map k xs) \<Longrightarrow> update_first (\<lambda>x. k x = i) f xs = map (\<lambda>x. if k x = i then f x else x) xs"
proof (induction xs)
  case (Cons x xs)
  have "k x \<notin> k ` set xs" using Cons.prems by simp
  then have "k y \<noteq> k x" if "y \<in> set xs" for y using that by (metis imageI)
  then have "map (\<lambda>x. if k x = i then f x else x) xs = xs" if "k x = i"
    using that by (intro map_idI) auto
  with Cons show ?case by simp
qed simp

lemma set_update_first_key:
  "distinct (map k xs) \<Longrightarrow>
   set (update_first (\<lambda>x. k x = i) f xs) = (\<lambda>x. if k x = i then f x else x) ` set xs"
  by (simp add: update_first_key)

lemma key_unique: "distinct (map k xs) \<Longrightarrow> x \<in> set xs \<Longrightarrow> y \<in> set xs \<Longrightarrow> k x = k y \<Longrightarrow> x = y"
  by (auto simp: distinct_map inj_on_def)

section \<open>Shared contracts\<close>

text \<open>
  A component with state promises an invariant: it holds initially and every step keeps it.
  What its clients get is that the invariant holds in every reachable state.
\<close>

locale machine =
  fixes start :: "'s \<Rightarrow> bool"
    and step :: "'s \<Rightarrow> 's \<Rightarrow> bool"
    and inv :: "'s \<Rightarrow> bool"
  assumes start_inv: "start s \<Longrightarrow> inv s"
    and step_inv: "inv s \<Longrightarrow> step s t \<Longrightarrow> inv t"
begin

lemma steps_inv: "step\<^sup>*\<^sup>* s t \<Longrightarrow> inv s \<Longrightarrow> inv t"
  by (induction rule: rtranclp_induct) (auto intro: step_inv)

lemma reachable_inv: "start s \<Longrightarrow> step\<^sup>*\<^sup>* s t \<Longrightarrow> inv t"
  by (blast intro: start_inv steps_inv)

end

text \<open>
  Several components hand out identifiers from a counter that only grows. The contract: every
  identifier in use is below the counter, and the counter never goes back. Its clients get that
  the next identifier is fresh and that an identifier is never handed out twice.
\<close>

locale id_allocator = machine start step inv
  for start :: "'s \<Rightarrow> bool" and step :: "'s \<Rightarrow> 's \<Rightarrow> bool" and inv :: "'s \<Rightarrow> bool" +
  fixes used :: "'s \<Rightarrow> nat set"
    and counter :: "'s \<Rightarrow> nat"
  assumes used_below: "inv s \<Longrightarrow> i \<in> used s \<Longrightarrow> i < counter s"
    and counter_mono: "inv s \<Longrightarrow> step s t \<Longrightarrow> counter s \<le> counter t"
begin

lemma next_is_fresh: "inv s \<Longrightarrow> counter s \<notin> used s"
  using used_below by blast

lemma counter_mono_steps: "step\<^sup>*\<^sup>* s t \<Longrightarrow> inv s \<Longrightarrow> counter s \<le> counter t"
proof (induction rule: rtranclp_induct)
  case (step t u)
  then show ?case using steps_inv counter_mono by (meson le_trans)
qed simp

lemma never_reissued: "inv s \<Longrightarrow> i \<in> used s \<Longrightarrow> step\<^sup>*\<^sup>* s t \<Longrightarrow> counter t \<noteq> i"
  using counter_mono_steps used_below by fastforce

end

end
