(* ===== verification/Source_Types.thy ===== *)
theory Source_Types
  imports Prelude "HOL-Library.List_Lexorder"
begin

text \<open>
  The value types of \<^verbatim>\<open>crates/modplayer-audio-source\<close>: identifiers, track
  metadata, repeat and intent, source health, and the commands and contexts that cross the
  seam between the host and a source. A Rust \<^verbatim>\<open>String\<close> is a list of Unicode
  scalar values (\<open>ustring\<close>); its derived order is the lexicographic one. Times
  (\<^verbatim>\<open>Instant\<close>, \<^verbatim>\<open>Duration\<close>) are nanoseconds as \<open>nat\<close>, so
  \<^verbatim>\<open>saturating_duration_since\<close> is the subtraction of \<open>nat\<close>.
\<close>

section \<open>Text\<close>

type_synonym ustring = "nat list"

definition utf :: "string \<Rightarrow> ustring" where
  "utf s = map of_char s"

text \<open>Unicode's White-Space property, which Rust's \<^verbatim>\<open>char::is_whitespace\<close> tests.\<close>

definition is_whitespace :: "nat \<Rightarrow> bool" where
  "is_whitespace c \<longleftrightarrow>
     (9 \<le> c \<and> c \<le> 13) \<or> c = 32 \<or> c = 133 \<or> c = 160 \<or> c = 5760 \<or>
     (8192 \<le> c \<and> c \<le> 8202) \<or> c = 8232 \<or> c = 8233 \<or> c = 8239 \<or> c = 8287 \<or> c = 12288"

definition trim :: "ustring \<Rightarrow> ustring" where
  "trim s = rev (dropWhile is_whitespace (rev (dropWhile is_whitespace s)))"

lemma length_trim_le: "length (trim s) \<le> length s"
proof -
  have le: "length (dropWhile P xs) \<le> length xs" for P and xs :: ustring
    by (induction xs) auto
  have "length (trim s) \<le> length (rev (dropWhile is_whitespace s))"
    unfolding trim_def by (subst length_rev) (rule le)
  also have "\<dots> \<le> length s" by (simp add: le)
  finally show ?thesis .
qed

section \<open>Identifiers\<close>

datatype track_id = TrackId (track_uri: ustring)

instantiation track_id :: linorder
begin

definition less_eq_track_id :: "track_id \<Rightarrow> track_id \<Rightarrow> bool" where
  "a \<le> b \<longleftrightarrow> track_uri a \<le> track_uri b"

definition less_track_id :: "track_id \<Rightarrow> track_id \<Rightarrow> bool" where
  "a < b \<longleftrightarrow> track_uri a < track_uri b"

instance
  by standard (auto simp: less_eq_track_id_def less_track_id_def track_id.expand)

end

text \<open>\<^verbatim>\<open>TrackId::new\<close>: \<open>None\<close> is \<^verbatim>\<open>Err(TrackIdError::Invalid)\<close>.
  The length test counts UTF-8 bytes; on the ASCII texts it accepts that is the number of
  scalar values.\<close>

definition is_ascii :: "ustring \<Rightarrow> bool" where
  "is_ascii s \<longleftrightarrow> list_all (\<lambda>c. c < 128) s"

definition track_id_new :: "ustring \<Rightarrow> track_id option" where
  "track_id_new uri =
     (if uri = [] \<or> length uri > 64 \<or> \<not> is_ascii uri then None else Some (TrackId uri))"

datatype album_id = AlbumId ustring
datatype artist_id = ArtistId ustring

section \<open>Enumerations\<close>

datatype availability = Available | UnavailableRegion | Removed_Track
datatype repeat = RepeatOff | RepeatOne | RepeatAll
datatype intent = Stopped | Playing | Paused

section \<open>Track metadata\<close>

record release_date =
  rd_year :: nat
  rd_month :: "nat option"
  rd_day :: "nat option"

record track_ref =
  tr_id :: track_id
  tr_title :: ustring
  tr_artists :: "ustring list"
  tr_artist_ids :: "artist_id list"
  tr_album :: "ustring option"
  tr_album_id :: "album_id option"
  tr_artwork_url :: "ustring option"
  tr_duration_ms :: nat
  tr_explicit :: bool
  tr_release_date :: "release_date option"
  tr_availability :: availability

definition track_ref_new ::
  "track_id \<Rightarrow> ustring \<Rightarrow> ustring list \<Rightarrow> ustring option \<Rightarrow> ustring option \<Rightarrow> nat \<Rightarrow> availability \<Rightarrow> track_ref"
where
  "track_ref_new i title artists album artwork_url duration_ms availability =
     \<lparr>tr_id = i,
      tr_title = (if trim title = [] then utf ''Unknown title'' else title),
      tr_artists = artists, tr_artist_ids = [], tr_album = album, tr_album_id = None,
      tr_artwork_url = artwork_url, tr_duration_ms = duration_ms, tr_explicit = False,
      tr_release_date = None, tr_availability = availability\<rparr>"

section \<open>Volume, health and the host-source messages\<close>

definition volume_percent_new :: "nat \<Rightarrow> nat" where
  "volume_percent_new pct = min pct 100"

datatype source_health =
    HealthOk
  | Transient nat nat  \<comment> \<open>since, next retry in\<close>
  | Unavailable bool   \<comment> \<open>client update required\<close>

record transfer_context =
  tc_current :: track_ref
  tc_position_ms :: nat
  tc_playing :: bool
  tc_shuffle :: "bool option"
  tc_repeat :: "repeat option"

datatype remote_command =
    RemotePlay
  | RemotePause
  | RemoteSkipNext
  | RemoteSkipPrev
  | RemoteSeek nat
  | RemoteVolume nat
  | RemoteShuffle bool
  | RemoteRepeat repeat

record program =
  pg_order :: "track_id list"
  pg_cursor_index :: nat
  pg_position_ms :: nat
  pg_start_playing :: bool
  pg_repeat_all :: bool
  pg_repeat_one :: bool
  pg_generation :: nat

text \<open>The commands to the source and to the engine that the modelled components send.\<close>

datatype source_command =
    SrcDeregister
  | SrcLoadProgram program
  | SrcPlay
  | SrcPause
  | SrcStop
  | SrcSeek nat
  | SrcRequestTransferHere

datatype engine_command =
    EngPlay
  | EngPause
  | EngStop
  | EngSeek nat
  | EngLoopDisarm

section \<open>Catalog request identifiers\<close>

datatype search_kind = KindTrack | KindAlbum | KindArtist | KindPlaylist

fun search_kind_code :: "search_kind \<Rightarrow> u64" where
  "search_kind_code KindTrack = 0"
| "search_kind_code KindAlbum = 1"
| "search_kind_code KindArtist = 2"
| "search_kind_code KindPlaylist = 3"

unbundle bit_operations_syntax

definition pack_request_id :: "u64 \<Rightarrow> search_kind \<Rightarrow> u64" where
  "pack_request_id generation kind = push_bit 8 generation OR search_kind_code kind"

definition unpack_request_id :: "u64 \<Rightarrow> u64 \<times> u64" where
  "unpack_request_id request_id = (drop_bit 8 request_id, request_id AND 255)"

text \<open>The kind byte comes back exactly; of the generation, the low 56 bits do.\<close>

lemma search_kind_code_lt: "search_kind_code k < 256"
  by (cases k) simp_all

lemma byte_eq_take_bit: "c < 256 \<Longrightarrow> (c::u64) = take_bit 8 c"
  by (simp add: take_bit_eq_mod word_less_nat_alt word_unat_eq_iff unat_mod)

lemma drop_bit_packed:
  assumes "(c::u64) < 256"
  shows "drop_bit 8 (push_bit 8 g OR c) = take_bit 56 g"
proof -
  have "\<not> bit c n" if "n \<ge> 8" for n
    using that byte_eq_take_bit [OF assms] by (metis bit_take_bit_iff not_less)
  then show ?thesis
    by (intro bit_word_eqI)
      (auto simp: bit_drop_bit_eq bit_or_iff bit_push_bit_iff bit_take_bit_iff
        dest: bit_imp_le_length)
qed

lemma low_byte_packed:
  assumes "(c::u64) < 256"
  shows "(push_bit 8 g OR c) AND 255 = c"
proof -
  have "(push_bit 8 g OR c) AND mask 8 = take_bit 8 c"
    by (rule bit_word_eqI)
      (auto simp: bit_and_iff bit_mask_iff bit_or_iff bit_push_bit_iff bit_take_bit_iff
        dest: bit_imp_le_length)
  then show ?thesis
    using byte_eq_take_bit [OF assms] by (simp add: mask_eq_exp_minus_1)
qed

end
