(* ===== verification/Play_Queue.thy ===== *)
theory Play_Queue
  imports Source_Types
begin

text \<open>
  The play queue of \<^verbatim>\<open>crates/modplayer-core/src/queue.rs\<close>: the context list with
  its cursor, the play-next block, shuffle, repeat and the bounded history, and every mutating
  operation. A random generator is a parameter \<open>next :: 'r \<Rightarrow> u64 \<times> 'r\<close> (the trait
  \<^verbatim>\<open>QueueRng\<close>) with its state threaded through. Item identifiers are \<open>nat\<close>:
  the code's \<^verbatim>\<open>u64\<close> counter grows by one per added item.
\<close>

section \<open>Data\<close>

datatype origin = OriginContext | OriginPlayNext | OriginRevealed

record queue_item =
  qi_uid :: nat
  qi_track :: track_ref
  qi_origin :: origin
  qi_unavailable :: bool

datatype queue_mode = HostDriven | SourceDriven

datatype advance_reason = TrackEnd | Skip | Removed | SeekPastEnd

datatype playback_change =
    NoChange
  | Restart
  | MoveTo nat
  | EndOfQueue
  | Empty
  | Skipped nat

record queue_change =
  qc_order_changed :: bool
  qc_cursor_changed :: bool
  qc_playback :: playback_change

definition change :: "bool \<Rightarrow> bool \<Rightarrow> playback_change \<Rightarrow> queue_change" where
  "change order cursor pb =
     \<lparr>qc_order_changed = order, qc_cursor_changed = cursor, qc_playback = pb\<rparr>"

definition change_none :: queue_change where
  "change_none = change False False NoChange"

definition HISTORY_LIMIT :: nat where
  "HISTORY_LIMIT = 100"

record play_queue =
  q_context :: "queue_item list"
  q_play_next :: "queue_item list"
  q_current :: "queue_item option"
  q_context_pos :: "nat option"
  q_shuffle_order :: "nat list option"
  q_repeat :: repeat
  q_history :: "nat list"
  q_mode :: queue_mode
  q_next_uid :: nat

section \<open>Randomness\<close>

definition xorshift_from_seed :: "u64 \<Rightarrow> u64" where
  "xorshift_from_seed seed = (if seed = 0 then 0x9E3779B97F4A7C15 else seed)"

definition xorshift_next :: "u64 \<Rightarrow> u64 \<times> u64" where
  "xorshift_next s =
     (let x = s;
          x = x XOR push_bit 13 x;
          x = x XOR drop_bit 7 x;
          x = x XOR push_bit 17 x
      in (x, x))"

text \<open>
  \<^verbatim>\<open>for i in (1..items.len()).rev()\<close>: \<open>shuffle_down next i\<close> runs the rounds
  \<open>i, i - 1, \<dots>, 1\<close>.
\<close>

fun shuffle_down :: "('r \<Rightarrow> u64 \<times> 'r) \<Rightarrow> nat \<Rightarrow> 'a list \<Rightarrow> 'r \<Rightarrow> 'a list \<times> 'r" where
  "shuffle_down next 0 items rng = (items, rng)"
| "shuffle_down next (Suc k) items rng =
     (let i = Suc k;
          (v, rng') = next rng;
          j = unat v mod (i + 1)
      in shuffle_down next k (swap_nth i j items) rng')"

definition shuffle_in_place :: "('r \<Rightarrow> u64 \<times> 'r) \<Rightarrow> 'a list \<Rightarrow> 'r \<Rightarrow> 'a list \<times> 'r" where
  "shuffle_in_place next items rng = shuffle_down next (length items - 1) items rng"

section \<open>Construction and reads\<close>

definition queue_new :: play_queue where
  "queue_new =
     \<lparr>q_context = [], q_play_next = [], q_current = None, q_context_pos = None,
      q_shuffle_order = None, q_repeat = RepeatOff, q_history = [], q_mode = HostDriven,
      q_next_uid = 0\<rparr>"

definition alloc_uid :: "play_queue \<Rightarrow> nat \<times> play_queue" where
  "alloc_uid q = (q_next_uid q, q\<lparr>q_next_uid := q_next_uid q + 1\<rparr>)"

definition queue_is_empty :: "play_queue \<Rightarrow> bool" where
  "queue_is_empty q \<longleftrightarrow> q_current q = None \<and> q_context q = [] \<and> q_play_next q = []"

definition shuffle_enabled :: "play_queue \<Rightarrow> bool" where
  "shuffle_enabled q \<longleftrightarrow> q_shuffle_order q \<noteq> None"

definition with_uid :: "nat \<Rightarrow> queue_item \<Rightarrow> bool" where
  "with_uid u i \<longleftrightarrow> qi_uid i = u"

definition current_is :: "play_queue \<Rightarrow> nat \<Rightarrow> bool" where
  "current_is q u \<longleftrightarrow> (case q_current q of None \<Rightarrow> False | Some c \<Rightarrow> qi_uid c = u)"

definition queue_item_by_uid :: "play_queue \<Rightarrow> nat \<Rightarrow> queue_item option" where
  "queue_item_by_uid q u =
     (if current_is q u then q_current q
      else case find (with_uid u) (q_play_next q) of
             Some i \<Rightarrow> Some i
           | None \<Rightarrow> find (with_uid u) (q_context q))"

definition track_title :: "play_queue \<Rightarrow> track_id \<Rightarrow> ustring option" where
  "track_title q t =
     (case q_current q of
        Some c \<Rightarrow>
          if tr_id (qi_track c) = t then Some (tr_title (qi_track c))
          else map_option (\<lambda>i. tr_title (qi_track i))
                 (find (\<lambda>i. tr_id (qi_track i) = t) (q_play_next q @ q_context q))
      | None \<Rightarrow> map_option (\<lambda>i. tr_title (qi_track i))
                 (find (\<lambda>i. tr_id (qi_track i) = t) (q_play_next q @ q_context q)))"

text \<open>\<^verbatim>\<open>self.context_pos.map_or(0, |p| p + 1)\<close>\<close>

definition context_start :: "play_queue \<Rightarrow> nat" where
  "context_start q = (case q_context_pos q of None \<Rightarrow> 0 | Some p \<Rightarrow> p + 1)"

definition upcoming_context_items :: "play_queue \<Rightarrow> queue_item list" where
  "upcoming_context_items q =
     (case q_shuffle_order q of
        Some shuffle \<Rightarrow> List.map_filter (\<lambda>u. find (with_uid u) (q_context q)) shuffle
      | None \<Rightarrow> drop (context_start q) (q_context q))"

definition effective_order :: "play_queue \<Rightarrow> queue_item list" where
  "effective_order q =
     (case q_current q of None \<Rightarrow> [] | Some c \<Rightarrow> [c]) @ q_play_next q @
     upcoming_context_items q"

definition find_context_index :: "play_queue \<Rightarrow> nat \<Rightarrow> nat option" where
  "find_context_index q u = position (with_uid u) (q_context q)"

section \<open>History and the current item\<close>

text \<open>\<^verbatim>\<open>while self.history.len() > HISTORY_LIMIT { self.history.pop_front(); }\<close>\<close>

fun trim_history :: "nat list \<Rightarrow> nat list" where
  "trim_history [] = []"
| "trim_history (u # us) =
     (if HISTORY_LIMIT < length (u # us) then trim_history us else u # us)"

definition push_history :: "nat \<Rightarrow> play_queue \<Rightarrow> play_queue" where
  "push_history u q = q\<lparr>q_history := trim_history (q_history q @ [u])\<rparr>"

definition set_current :: "queue_item \<Rightarrow> play_queue \<Rightarrow> play_queue" where
  "set_current i q = (push_history (qi_uid i) q)\<lparr>q_current := Some i\<rparr>"

definition ensure_host_driven :: "play_queue \<Rightarrow> play_queue" where
  "ensure_host_driven q = q\<lparr>q_mode := HostDriven\<rparr>"

section \<open>Loading the context\<close>

definition mk_item :: "nat \<Rightarrow> origin \<Rightarrow> track_ref \<Rightarrow> queue_item" where
  "mk_item u src t =
     \<lparr>qi_uid = u, qi_track = t, qi_origin = src, qi_unavailable = False\<rparr>"

fun push_context :: "origin \<Rightarrow> track_ref list \<Rightarrow> play_queue \<Rightarrow> play_queue" where
  "push_context src [] q = q"
| "push_context src (t # ts) q =
     (let (u, q') = alloc_uid q
      in push_context src ts (q'\<lparr>q_context := q_context q' @ [mk_item u src t]\<rparr>))"

definition cleared :: "queue_mode \<Rightarrow> play_queue \<Rightarrow> play_queue" where
  "cleared m q =
     q\<lparr>q_context := [], q_play_next := [], q_shuffle_order := None, q_context_pos := None,
       q_current := None, q_mode := m\<rparr>"

definition replace_context :: "track_ref list \<Rightarrow> play_queue \<Rightarrow> play_queue \<times> queue_change" where
  "replace_context tracks q =
     (let q' = push_context OriginContext tracks (cleared HostDriven q)
      in case q_context q' of
           [] \<Rightarrow> (q', change True True Empty)
         | first # _ \<Rightarrow>
             (set_current first (q'\<lparr>q_context_pos := Some 0\<rparr>), change True True Restart))"

definition replace_context_at ::
  "track_ref list \<Rightarrow> nat \<Rightarrow> play_queue \<Rightarrow> play_queue \<times> queue_change"
where
  "replace_context_at tracks cursor q =
     (let (q', ch) = replace_context tracks q
      in if q_context q' = [] then (q', ch)
         else let index = min cursor (length (q_context q') - 1);
                  q'' = (if index \<noteq> 0
                         then let item = q_context q' ! index
                              in push_history (qi_uid item)
                                   (q'\<lparr>q_context_pos := Some index, q_current := Some item,
                                       q_history := butlast (q_history q')\<rparr>)
                         else q')
              in (q'', change True True Restart))"

definition add_context :: "track_ref list \<Rightarrow> play_queue \<Rightarrow> play_queue \<times> queue_change" where
  "add_context tracks q =
     (if tracks = [] then (q, change_none)
      else let auto_start = q_current q = None;
               insertion_start = length (q_context q);
               q' = push_context OriginContext tracks q;
               new_uids = map qi_uid (drop insertion_start (q_context q'));
               q'' = q'\<lparr>q_shuffle_order := map_option (\<lambda>s. s @ new_uids) (q_shuffle_order q')\<rparr>
           in if auto_start
              then (set_current (q_context q'' ! insertion_start)
                      (q''\<lparr>q_context_pos := Some insertion_start\<rparr>),
                    change True True Restart)
              else (q'', change True False NoChange))"

definition adopt_transfer_context :: "track_ref \<Rightarrow> play_queue \<Rightarrow> play_queue \<times> queue_change" where
  "adopt_transfer_context track q =
     (let (u, q') = alloc_uid (cleared SourceDriven q);
          item = mk_item u OriginRevealed track;
          q'' = q'\<lparr>q_context := q_context q' @ [item], q_context_pos := Some 0\<rparr>
      in (set_current item q'', change True True (MoveTo u)))"

definition reveal :: "track_ref \<Rightarrow> play_queue \<Rightarrow> nat \<times> play_queue" where
  "reveal track q =
     (let (u, q') = alloc_uid q
      in (u, q'\<lparr>q_context := q_context q' @ [mk_item u OriginRevealed track],
               q_shuffle_order := map_option (\<lambda>s. s @ [u]) (q_shuffle_order q')\<rparr>))"

definition retain_shuffle :: "nat \<Rightarrow> play_queue \<Rightarrow> play_queue" where
  "retain_shuffle u q =
     q\<lparr>q_shuffle_order := map_option (filter (\<lambda>i. i \<noteq> u)) (q_shuffle_order q)\<rparr>"

definition move_current_to :: "nat \<Rightarrow> play_queue \<Rightarrow> play_queue \<times> queue_change" where
  "move_current_to u q =
     (case find_context_index q u of
        None \<Rightarrow> (q, change_none)
      | Some index \<Rightarrow>
          (set_current (q_context q ! index)
             (retain_shuffle u (q\<lparr>q_context_pos := Some index\<rparr>)),
           change False True (MoveTo u)))"

section \<open>Advancing\<close>

definition next_context_uid :: "play_queue \<Rightarrow> nat option" where
  "next_context_uid q =
     (case q_shuffle_order q of
        Some shuffle \<Rightarrow> (case shuffle of [] \<Rightarrow> None | u # _ \<Rightarrow> Some u)
      | None \<Rightarrow>
          (let next_index = context_start q
           in if next_index < length (q_context q)
              then Some (qi_uid (q_context q ! next_index)) else None))"

text \<open>The slice \<^verbatim>\<open>self.context[start..]\<close> panics when \<open>start\<close> is past the end.\<close>

definition build_shuffle_order ::
  "('r \<Rightarrow> u64 \<times> 'r) \<Rightarrow> play_queue \<Rightarrow> 'r \<Rightarrow> panic + nat list \<times> 'r"
where
  "build_shuffle_order next q rng =
     (let start = context_start q
      in if start \<le> length (q_context q)
         then Inr (shuffle_in_place next (map qi_uid (drop start (q_context q))) rng)
         else Inl SliceOutOfRange)"

text \<open>
  The body of the \<^verbatim>\<open>loop\<close> of \<^verbatim>\<open>advance_internal\<close>; the last
  alternative is its \<^verbatim>\<open>continue\<close>, taken after a wrap under \<open>RepeatAll\<close>.
\<close>

definition advance_context :: "nat \<Rightarrow> play_queue \<Rightarrow> panic + play_queue \<times> queue_change" where
  "advance_context u q =
     (let index = (case find_context_index q u of Some i \<Rightarrow> i | None \<Rightarrow> context_start q);
          q' = retain_shuffle u (q\<lparr>q_context_pos := Some index\<rparr>)
      in if index < length (q_context q)
         then let item = q_context q ! index
              in if qi_unavailable item
                 then Inr (q', change False True (Skipped u))
                 else Inr (set_current item q', change False True (MoveTo u))
         else Inl IndexOutOfBounds)"

partial_function (option) advance_loop ::
  "('r \<Rightarrow> u64 \<times> 'r) \<Rightarrow> play_queue \<Rightarrow> 'r \<Rightarrow> (play_queue \<times> queue_change \<times> 'r) outcome"
where
  "advance_loop next q rng =
     (case q_play_next q of
        item # rest \<Rightarrow>
          (let q' = q\<lparr>q_play_next := rest\<rparr>
           in if qi_unavailable item
              then Some (Inr (q', change True False (Skipped (qi_uid item)), rng))
              else Some (Inr (set_current item q', change True True (MoveTo (qi_uid item)), rng)))
      | [] \<Rightarrow>
          (case next_context_uid q of
             Some u \<Rightarrow>
               (case advance_context u q of
                  Inl p \<Rightarrow> Some (Inl p)
                | Inr (q', ch) \<Rightarrow> Some (Inr (q', ch, rng)))
           | None \<Rightarrow>
               if q_repeat q = RepeatAll \<and> q_context q \<noteq> []
               then let q' = q\<lparr>q_context_pos := None\<rparr>
                    in if shuffle_enabled q'
                       then (case build_shuffle_order next q' rng of
                               Inl p \<Rightarrow> Some (Inl p)
                             | Inr (s, rng') \<Rightarrow>
                                 advance_loop next (q'\<lparr>q_shuffle_order := Some s\<rparr>) rng')
                       else advance_loop next q' rng
               else Some (Inr (q\<lparr>q_current := None\<rparr>,
                      change False (q_current q \<noteq> None)
                        (if q_current q \<noteq> None then EndOfQueue else Empty), rng))))"

declare advance_loop.simps [code]

definition advance_internal ::
  "('r \<Rightarrow> u64 \<times> 'r) \<Rightarrow> advance_reason \<Rightarrow> play_queue \<Rightarrow> 'r \<Rightarrow>
   (play_queue \<times> queue_change \<times> 'r) outcome"
where
  "advance_internal next reason q rng =
     (case (q_repeat q = RepeatOne \<and> (reason = TrackEnd \<or> reason = SeekPastEnd), q_current q) of
        (True, Some c) \<Rightarrow>
          Some (Inr (push_history (qi_uid c) q, change False False Restart, rng))
      | _ \<Rightarrow> advance_loop next q rng)"

text \<open>A call with the local generator \<^verbatim>\<open>XorShiftRng::from_seed(1)\<close>, dropped afterwards.\<close>

definition advance_seeded :: "advance_reason \<Rightarrow> play_queue \<Rightarrow> (play_queue \<times> queue_change) outcome" where
  "advance_seeded reason q =
     map_option (map_sum id (\<lambda>(q', ch, _). (q', ch)))
       (advance_internal xorshift_next reason q (xorshift_from_seed 1))"

section \<open>The play-next block and reordering\<close>

definition play_next :: "nat \<Rightarrow> play_queue \<Rightarrow> play_queue \<times> queue_change" where
  "play_next u q =
     (case position (with_uid u) (q_play_next q) of
        Some index \<Rightarrow>
          (q\<lparr>q_play_next := remove_nth index (q_play_next q) @ [q_play_next q ! index]\<rparr>,
           change True False NoChange)
      | None \<Rightarrow>
          (case find_context_index q u of
             Some index \<Rightarrow>
               (let item = (q_context q ! index)\<lparr>qi_origin := OriginPlayNext\<rparr>;
                    pos = (case q_context_pos q of
                             None \<Rightarrow> None
                           | Some p \<Rightarrow> Some (if index \<le> p then p - 1 else p));
                    q' = retain_shuffle u
                           (q\<lparr>q_context := remove_nth index (q_context q), q_context_pos := pos\<rparr>)
                in (q'\<lparr>q_play_next := q_play_next q' @ [item]\<rparr>, change True False NoChange))
           | None \<Rightarrow> (q, change_none)))"

definition play_next_track :: "track_ref \<Rightarrow> play_queue \<Rightarrow> (play_queue \<times> queue_change) outcome" where
  "play_next_track track q =
     (let (u, q') = alloc_uid q;
          auto_start = q_current q' = None;
          q'' = q'\<lparr>q_play_next := q_play_next q' @ [mk_item u OriginPlayNext track]\<rparr>
      in if auto_start then advance_seeded Skip q''
         else Some (Inr (q'', change True False NoChange)))"

definition merge_change :: "queue_change \<Rightarrow> queue_change \<Rightarrow> queue_change" where
  "merge_change acc c =
     change (qc_order_changed acc \<or> qc_order_changed c)
            (qc_cursor_changed acc \<or> qc_cursor_changed c)
            (if qc_playback acc = NoChange then qc_playback c else qc_playback acc)"

fun play_next_tracks_from ::
  "track_ref list \<Rightarrow> queue_change \<Rightarrow> play_queue \<Rightarrow> (play_queue \<times> queue_change) outcome"
where
  "play_next_tracks_from [] acc q = Some (Inr (q, acc))"
| "play_next_tracks_from (t # ts) acc q =
     (case play_next_track t q of
        Some (Inr (q', c)) \<Rightarrow> play_next_tracks_from ts (merge_change acc c) q'
      | r \<Rightarrow> r)"

definition play_next_tracks :: "track_ref list \<Rightarrow> play_queue \<Rightarrow> (play_queue \<times> queue_change) outcome" where
  "play_next_tracks tracks q = play_next_tracks_from tracks change_none q"

text \<open>\<^verbatim>\<open>apply_tail\<close>: the first \<open>play_next.len()\<close> items become the play-next
  block, the rest the upcoming context; shuffle is turned off.\<close>

definition as_context :: "queue_item \<Rightarrow> queue_item" where
  "as_context i = (if qi_origin i = OriginPlayNext then i\<lparr>qi_origin := OriginContext\<rparr> else i)"

definition apply_tail :: "queue_item list \<Rightarrow> play_queue \<Rightarrow> play_queue" where
  "apply_tail tail q =
     (let split = min (length (q_play_next q)) (length tail)
      in q\<lparr>q_play_next := map (\<lambda>i. i\<lparr>qi_origin := OriginPlayNext\<rparr>) (take split tail),
           q_context := take (context_start q) (q_context q) @ map as_context (drop split tail),
           q_shuffle_order := None\<rparr>)"

definition upcoming :: "play_queue \<Rightarrow> queue_item list" where
  "upcoming q = q_play_next q @ upcoming_context_items q"

definition reorder_tail ::
  "nat \<Rightarrow> (nat \<Rightarrow> nat option) \<Rightarrow> play_queue \<Rightarrow> play_queue \<times> queue_change"
where
  "reorder_tail u target q =
     (if current_is q u then (q, change_none)
      else let tail = upcoming q
           in case position (with_uid u) tail of
                None \<Rightarrow> (q, change_none)
              | Some from \<Rightarrow>
                  (case target from of
                     None \<Rightarrow> (q, change_none)
                   | Some to0 \<Rightarrow>
                       (let to = min to0 (length tail - 1)
                        in if to = from then (q, change_none)
                           else (apply_tail (insert_nth to (tail ! from) (remove_nth from tail)) q,
                                 change True False NoChange))))"

definition move_up :: "nat \<Rightarrow> play_queue \<Rightarrow> play_queue \<times> queue_change" where
  "move_up u q = reorder_tail u (\<lambda>pos. if pos = 0 then None else Some (pos - 1)) q"

definition move_down :: "nat \<Rightarrow> play_queue \<Rightarrow> play_queue \<times> queue_change" where
  "move_down u q = reorder_tail u (\<lambda>pos. Some (pos + 1)) q"

definition reorder :: "nat \<Rightarrow> nat \<Rightarrow> play_queue \<Rightarrow> play_queue \<times> queue_change" where
  "reorder u to_effective_index q = reorder_tail u (\<lambda>_. Some (to_effective_index - 1)) q"

section \<open>Removal, shuffle, repeat, skip back, unavailability\<close>

definition remove :: "nat \<Rightarrow> play_queue \<Rightarrow> (play_queue \<times> queue_change) outcome" where
  "remove u q =
     (if current_is q u then advance_seeded Removed q
      else case position (with_uid u) (q_play_next q) of
             Some index \<Rightarrow>
               Some (Inr (q\<lparr>q_play_next := remove_nth index (q_play_next q)\<rparr>,
                          change True False NoChange))
           | None \<Rightarrow>
               (case find_context_index q u of
                  Some index \<Rightarrow>
                    (let pos = (case q_context_pos q of
                                  None \<Rightarrow> None
                                | Some p \<Rightarrow> Some (if index < p then p - 1
                                                else if index = p then p - 1 else p))
                     in Some (Inr (retain_shuffle u
                               (q\<lparr>q_context := remove_nth index (q_context q),
                                  q_context_pos := pos\<rparr>),
                             change True False NoChange)))
                | None \<Rightarrow> Some (Inr (q, change_none))))"

definition set_shuffle ::
  "('r \<Rightarrow> u64 \<times> 'r) \<Rightarrow> bool \<Rightarrow> play_queue \<Rightarrow> 'r \<Rightarrow> (play_queue \<times> queue_change \<times> 'r) outcome"
where
  "set_shuffle next on q rng =
     (if on = shuffle_enabled q then Some (Inr (q, change_none, rng))
      else if on
      then (case build_shuffle_order next q rng of
              Inl p \<Rightarrow> Some (Inl p)
            | Inr (s, rng') \<Rightarrow>
                Some (Inr (q\<lparr>q_shuffle_order := Some s\<rparr>, change True False NoChange, rng')))
      else Some (Inr (q\<lparr>q_shuffle_order := None\<rparr>, change True False NoChange, rng)))"

definition set_repeat :: "repeat \<Rightarrow> play_queue \<Rightarrow> play_queue \<times> queue_change" where
  "set_repeat mode q =
     (if q_repeat q = mode then (q, change_none)
      else (q\<lparr>q_repeat := mode\<rparr>, change True False NoChange))"

definition next_prefetch_target :: "play_queue \<Rightarrow> track_id option" where
  "next_prefetch_target q =
     (case q_play_next q of
        item # _ \<Rightarrow> Some (tr_id (qi_track item))
      | [] \<Rightarrow>
          (case next_context_uid q of
             Some u \<Rightarrow> map_option (\<lambda>i. tr_id (qi_track i)) (find (with_uid u) (q_context q))
           | None \<Rightarrow>
               if q_repeat q = RepeatAll
               then (case q_context q of [] \<Rightarrow> None | i # _ \<Rightarrow> Some (tr_id (qi_track i)))
               else None))"

definition skip_back :: "nat \<Rightarrow> play_queue \<Rightarrow> play_queue \<times> queue_change" where
  "skip_back position_ms q =
     (if position_ms > 3000 then (q, change False False Restart)
      else let h = q_history q;
               h' = (if h \<noteq> [] \<and> current_is q (last h) then butlast h else h)
           in if h' = [] then (q\<lparr>q_history := h'\<rparr>, change False False Restart)
              else let u = last h';
                       q' = q\<lparr>q_history := butlast h'\<rparr>
                   in case find_context_index q' u of
                        Some index \<Rightarrow>
                          (push_history u
                             (q'\<lparr>q_context_pos := Some index,
                                 q_current := Some (q_context q' ! index)\<rparr>),
                           change False True (MoveTo u))
                      | None \<Rightarrow> (q', change False False Restart))"

definition has_track :: "track_id \<Rightarrow> queue_item \<Rightarrow> bool" where
  "has_track t i \<longleftrightarrow> tr_id (qi_track i) = t"

definition flag_track :: "track_id \<Rightarrow> queue_item \<Rightarrow> queue_item" where
  "flag_track t i = (if has_track t i then i\<lparr>qi_unavailable := True\<rparr> else i)"

definition mark_unavailable ::
  "('r \<Rightarrow> u64 \<times> 'r) \<Rightarrow> track_id \<Rightarrow> play_queue \<Rightarrow> 'r \<Rightarrow> (play_queue \<times> queue_change \<times> 'r) outcome"
where
  "mark_unavailable next t q rng =
     (let q' = q\<lparr>q_context := map (flag_track t) (q_context q),
                 q_play_next := map (flag_track t) (q_play_next q)\<rparr>
      in if \<not> list_ex (has_track t) (q_context q @ q_play_next q)
         then Some (Inr (q', change_none, rng))
         else case q_current q' of
                Some c \<Rightarrow>
                  if has_track t c then advance_internal next Removed q' rng
                  else Some (Inr (q', change False False NoChange, rng))
              | None \<Rightarrow> Some (Inr (q', change False False NoChange, rng)))"

definition wrap_preview ::
  "('r \<Rightarrow> u64 \<times> 'r) \<Rightarrow> play_queue \<Rightarrow> 'r \<Rightarrow> track_id list option \<times> 'r"
where
  "wrap_preview next q rng =
     (if q_repeat q \<noteq> RepeatAll \<or> length (q_context q) < 2 then (None, rng)
      else if q_play_next q \<noteq> [] \<or> upcoming_context_items q \<noteq> [] then (None, rng)
      else case q_current q of
             None \<Rightarrow> (None, rng)
           | Some c \<Rightarrow>
               (let rest = map (\<lambda>i. tr_id (qi_track i))
                             (filter (\<lambda>i. qi_uid i \<noteq> qi_uid c) (q_context q));
                    (rest', rng') = (if shuffle_enabled q
                                     then shuffle_in_place next rest rng else (rest, rng))
                in (Some (tr_id (qi_track c) # rest'), rng')))"

record queue_program =
  qp_order :: "track_id list"
  qp_cursor_index :: nat

definition program_of_queue :: "play_queue \<Rightarrow> queue_program option" where
  "program_of_queue q =
     (case q_current q of
        None \<Rightarrow> None
      | Some _ \<Rightarrow> Some \<lparr>qp_order = map (\<lambda>i. tr_id (qi_track i)) (effective_order q),
                        qp_cursor_index = 0\<rparr>)"

text \<open>\<^verbatim>\<open>QueueProgram::into_program\<close>\<close>

definition into_program ::
  "queue_program \<Rightarrow> nat \<Rightarrow> bool \<Rightarrow> bool \<Rightarrow> bool \<Rightarrow> nat \<Rightarrow> program"
where
  "into_program p position_ms start_playing repeat_all repeat_one generation =
     \<lparr>pg_order = qp_order p, pg_cursor_index = qp_cursor_index p, pg_position_ms = position_ms,
      pg_start_playing = start_playing, pg_repeat_all = repeat_all, pg_repeat_one = repeat_one,
      pg_generation = generation\<rparr>"

section \<open>The operations the transport requests\<close>

datatype queue_op =
    OpAdvance advance_reason
  | OpSkipBack nat
  | OpReveal track_ref
  | OpMarkUnavailable track_id
  | OpAdoptTransferContext track_ref "bool option" "repeat option"

end
