(* ===== verification/Queue_Invariants.thy ===== *)
theory Queue_Invariants
  imports Play_Queue
begin

section \<open>The invariant of every reachable queue\<close>

definition item_uids :: "play_queue \<Rightarrow> nat set" where
  "item_uids q =
     qi_uid ` set (q_context q) \<union> qi_uid ` set (q_play_next q) \<union>
     qi_uid ` set_option (q_current q) \<union> set (q_history q)"

definition pos_ok :: "play_queue \<Rightarrow> bool" where
  "pos_ok q \<longleftrightarrow> (\<forall>p. q_context_pos q = Some p \<longrightarrow> p < length (q_context q) \<or> p = 0)"

definition shuffle_ok :: "play_queue \<Rightarrow> bool" where
  "shuffle_ok q \<longleftrightarrow> (\<forall>s. q_shuffle_order q = Some s \<longrightarrow> set s \<subseteq> qi_uid ` set (q_context q))"

definition origins_ok :: "play_queue \<Rightarrow> bool" where
  "origins_ok q \<longleftrightarrow>
     (\<forall>i\<in>set (q_play_next q). qi_origin i = OriginPlayNext) \<and>
     (\<forall>i\<in>set (q_context q). qi_origin i \<noteq> OriginPlayNext)"

definition queue_inv :: "play_queue \<Rightarrow> bool" where
  "queue_inv q \<longleftrightarrow>
     length (q_history q) \<le> HISTORY_LIMIT \<and> (\<forall>u\<in>item_uids q. u < q_next_uid q) \<and>
     pos_ok q \<and> shuffle_ok q \<and> origins_ok q"

lemma pos_ok_code [code]:
  "pos_ok q \<longleftrightarrow>
     (case q_context_pos q of None \<Rightarrow> True | Some p \<Rightarrow> p < length (q_context q) \<or> p = 0)"
  by (simp add: pos_ok_def split: option.split)

lemma shuffle_ok_code [code]:
  "shuffle_ok q \<longleftrightarrow>
     (case q_shuffle_order q of None \<Rightarrow> True
      | Some s \<Rightarrow> list_all (\<lambda>u. list_ex (with_uid u) (q_context q)) s)"
  by (auto simp: shuffle_ok_def list_all_iff list_ex_iff with_uid_def split: option.split)

named_theorems queue_defs \<open>definitions of the queue invariant\<close>

lemmas queue_inv_parts [queue_defs] =
  queue_inv_def item_uids_def pos_ok_def shuffle_ok_def origins_ok_def

text \<open>History and the current item.\<close>

lemma length_trim_history: "length (trim_history h) \<le> HISTORY_LIMIT"
  by (induction h) auto

lemma trim_history_suffix: "\<exists>n. trim_history h = drop n h"
  by (induction h) (auto intro: exI [of _ 0] exI [of _ "Suc _"])

lemma set_trim_history: "set (trim_history h) \<subseteq> set h"
  using trim_history_suffix [of h] by (auto dest: in_set_dropD)

lemma push_history_simps [simp]:
  "q_context (push_history u q) = q_context q"
  "q_play_next (push_history u q) = q_play_next q"
  "q_current (push_history u q) = q_current q"
  "q_context_pos (push_history u q) = q_context_pos q"
  "q_shuffle_order (push_history u q) = q_shuffle_order q"
  "q_repeat (push_history u q) = q_repeat q"
  "q_mode (push_history u q) = q_mode q"
  "q_next_uid (push_history u q) = q_next_uid q"
  by (simp_all add: push_history_def)

lemma set_current_simps [simp]:
  "q_context (set_current i q) = q_context q"
  "q_play_next (set_current i q) = q_play_next q"
  "q_current (set_current i q) = Some i"
  "q_context_pos (set_current i q) = q_context_pos q"
  "q_shuffle_order (set_current i q) = q_shuffle_order q"
  "q_repeat (set_current i q) = q_repeat q"
  "q_mode (set_current i q) = q_mode q"
  "q_next_uid (set_current i q) = q_next_uid q"
  by (simp_all add: set_current_def)

lemma retain_shuffle_simps [simp]:
  "q_context (retain_shuffle u q) = q_context q"
  "q_play_next (retain_shuffle u q) = q_play_next q"
  "q_current (retain_shuffle u q) = q_current q"
  "q_context_pos (retain_shuffle u q) = q_context_pos q"
  "q_repeat (retain_shuffle u q) = q_repeat q"
  "q_history (retain_shuffle u q) = q_history q"
  "q_mode (retain_shuffle u q) = q_mode q"
  "q_next_uid (retain_shuffle u q) = q_next_uid q"
  by (simp_all add: retain_shuffle_def)

lemma history_push: "length (q_history (push_history u q)) \<le> HISTORY_LIMIT"
  by (simp add: push_history_def length_trim_history)

lemma set_history_push: "set (q_history (push_history u q)) \<subseteq> insert u (set (q_history q))"
  using set_trim_history [of "q_history q @ [u]"] by (simp add: push_history_def)

lemma push_history_inv: "queue_inv q \<Longrightarrow> u < q_next_uid q \<Longrightarrow> queue_inv (push_history u q)"
  using history_push [of u q] set_history_push [of u q] by (auto simp: queue_defs)

lemma push_history_any:
  assumes "queue_inv (q\<lparr>q_history := []\<rparr>)" and "u < q_next_uid q"
    and "\<forall>v\<in>set (q_history q). v < q_next_uid q"
  shows "queue_inv (push_history u q)"
  using assms history_push [of u q] set_history_push [of u q] by (auto simp: queue_defs)

lemma set_current_inv:
  "queue_inv q \<Longrightarrow> qi_uid i < q_next_uid q \<Longrightarrow> queue_inv (set_current i q)"
  using history_push [of "qi_uid i" q] set_history_push [of "qi_uid i" q]
  by (auto simp: queue_defs set_current_def)

lemma queue_inv_new: "queue_inv queue_new"
  by (simp add: queue_defs queue_new_def)

lemma cleared_inv: "queue_inv q \<Longrightarrow> queue_inv (cleared m q)"
  by (auto simp: queue_defs cleared_def)

text \<open>Appending to the context.\<close>

fun mk_items :: "nat \<Rightarrow> origin \<Rightarrow> track_ref list \<Rightarrow> queue_item list" where
  "mk_items n src [] = []"
| "mk_items n src (t # ts) = mk_item n src t # mk_items (Suc n) src ts"

lemma map_uid_mk_items: "map qi_uid (mk_items n src ts) = [n..<n + length ts]"
  by (induction ts arbitrary: n) (simp_all add: mk_item_def upt_conv_Cons del: upt_Suc)

lemma length_mk_items [simp]: "length (mk_items n src ts) = length ts"
  by (induction ts arbitrary: n) auto

lemma mk_items_origin: "i \<in> set (mk_items n src ts) \<Longrightarrow> qi_origin i = src"
  by (induction ts arbitrary: n) (auto simp: mk_item_def)

lemma mk_items_uid: "i \<in> set (mk_items n src ts) \<Longrightarrow> n \<le> qi_uid i \<and> qi_uid i < n + length ts"
  using map_uid_mk_items [of n src ts] by (metis atLeastLessThan_iff atLeastLessThan_upt
      image_eqI list.set_map)

lemma push_context_eq:
  "push_context src ts q =
     q\<lparr>q_context := q_context q @ mk_items (q_next_uid q) src ts,
       q_next_uid := q_next_uid q + length ts\<rparr>"
  by (induction ts arbitrary: q) (auto simp: alloc_uid_def)

lemma push_context_inv:
  "queue_inv q \<Longrightarrow> src \<noteq> OriginPlayNext \<Longrightarrow> queue_inv (push_context src ts q)"
  by (auto simp: queue_defs push_context_eq image_Un
      dest: mk_items_origin mk_items_uid trans_less_add1)

lemma replace_context_inv: "queue_inv q \<Longrightarrow> queue_inv (fst (replace_context ts q))"
proof -
  assume "queue_inv q"
  then have inv: "queue_inv (push_context OriginContext ts (cleared HostDriven q))" (is "queue_inv ?q")
    by (intro push_context_inv cleared_inv) simp_all
  show ?thesis
  proof (cases "q_context ?q")
    case Nil
    with inv show ?thesis by (simp add: replace_context_def Let_def)
  next
    case (Cons i rest)
    have "queue_inv (set_current i (?q\<lparr>q_context_pos := Some 0\<rparr>))"
      using inv Cons by (intro set_current_inv) (auto simp: queue_defs)
    with Cons show ?thesis by (simp add: replace_context_def Let_def)
  qed
qed

lemma replace_context_at_inv: "queue_inv q \<Longrightarrow> queue_inv (fst (replace_context_at ts c q))"
proof -
  assume "queue_inv q"
  then have inv: "queue_inv (fst (replace_context ts q))" (is "queue_inv ?q")
    by (rule replace_context_inv)
  let ?i = "min c (length (q_context ?q) - 1)"
  have "queue_inv (push_history (qi_uid (q_context ?q ! ?i))
      (?q\<lparr>q_context_pos := Some ?i, q_current := Some (q_context ?q ! ?i),
          q_history := butlast (q_history ?q)\<rparr>))" if "q_context ?q \<noteq> []"
  proof (rule push_history_inv)
    have lt: "?i < length (q_context ?q)" using that by (cases "q_context ?q") auto
    then have mem: "q_context ?q ! ?i \<in> set (q_context ?q)" by simp
    show "queue_inv (?q\<lparr>q_context_pos := Some ?i, q_current := Some (q_context ?q ! ?i),
          q_history := butlast (q_history ?q)\<rparr>)"
      using inv lt mem by (auto simp: queue_defs dest: in_set_butlastD)
    show "qi_uid (q_context ?q ! ?i) < q_next_uid (?q\<lparr>q_context_pos := Some ?i,
        q_current := Some (q_context ?q ! ?i), q_history := butlast (q_history ?q)\<rparr>)"
      using inv mem by (auto simp: queue_defs)
  qed
  with inv show ?thesis
    by (auto simp: replace_context_at_def Let_def split: prod.splits)
qed

lemma add_context_inv: "queue_inv q \<Longrightarrow> queue_inv (fst (add_context ts q))"
proof -
  assume inv: "queue_inv q"
  let ?q' = "push_context OriginContext ts q"
  let ?us = "map qi_uid (drop (length (q_context q)) (q_context ?q'))"
  let ?q = "?q'\<lparr>q_shuffle_order := map_option (\<lambda>s. s @ ?us) (q_shuffle_order ?q')\<rparr>"
  let ?n = "length (q_context q)"
  have "queue_inv ?q'" using inv by (intro push_context_inv) simp_all
  then have inv': "queue_inv ?q" by (auto simp: queue_defs push_context_eq)
  have "queue_inv (set_current (q_context ?q ! ?n) (?q\<lparr>q_context_pos := Some ?n\<rparr>))"
    if "ts \<noteq> []"
  proof (rule set_current_inv)
    have lt: "?n < length (q_context ?q)" using that by (simp add: push_context_eq)
    then show "queue_inv (?q\<lparr>q_context_pos := Some ?n\<rparr>)"
      using inv' by (auto simp: queue_defs)
    have "q_context ?q ! ?n \<in> set (q_context ?q)" using lt by (rule nth_mem)
    then show "qi_uid (q_context ?q ! ?n) < q_next_uid (?q\<lparr>q_context_pos := Some ?n\<rparr>)"
      using inv' by (auto simp: queue_defs)
  qed
  with inv inv' show ?thesis by (simp add: add_context_def Let_def)
qed

lemma adopt_transfer_context_inv: "queue_inv q \<Longrightarrow> queue_inv (fst (adopt_transfer_context t q))"
proof -
  assume "queue_inv q"
  then have "queue_inv (cleared SourceDriven q)" by (rule cleared_inv)
  then show ?thesis
    unfolding adopt_transfer_context_def Let_def alloc_uid_def prod.case fst_conv
    by (intro set_current_inv) (auto simp: queue_defs mk_item_def cleared_def)
qed

lemma reveal_inv: "queue_inv q \<Longrightarrow> queue_inv (snd (reveal t q))"
  by (auto simp: reveal_def alloc_uid_def mk_item_def queue_defs Let_def intro: less_SucI)

lemma retain_shuffle_inv: "queue_inv q \<Longrightarrow> queue_inv (retain_shuffle u q)"
  by (auto simp: queue_defs retain_shuffle_def)

lemma find_context_index_SomeD:
  "find_context_index q u = Some i \<Longrightarrow> i < length (q_context q) \<and> qi_uid (q_context q ! i) = u"
  by (auto simp: find_context_index_def with_uid_def dest: position_SomeD)

lemma context_uid_less: "queue_inv q \<Longrightarrow> i < length (q_context q) \<Longrightarrow> qi_uid (q_context q ! i) < q_next_uid q"
  by (auto simp: queue_defs)

lemma set_pos_inv: "queue_inv q \<Longrightarrow> i < length (q_context q) \<Longrightarrow> queue_inv (q\<lparr>q_context_pos := Some i\<rparr>)"
  by (auto simp: queue_defs)

lemma move_current_to_inv: "queue_inv q \<Longrightarrow> queue_inv (fst (move_current_to u q))"
  by (auto simp: move_current_to_def context_uid_less split: option.splits
      dest!: find_context_index_SomeD intro!: set_current_inv retain_shuffle_inv set_pos_inv)


section \<open>Advancing keeps the invariant, returns, and never panics\<close>

lemma shuffle_down_perm:
  "i < length xs \<or> xs = [] \<and> i = 0 \<Longrightarrow> mset (fst (shuffle_down nx i xs r)) = mset xs"
proof (induction i arbitrary: xs r)
  case (Suc k)
  obtain v r' where n: "nx r = (v, r')" by fastforce
  have "unat v mod (Suc k + 1) < Suc k + 1" by (rule mod_less_divisor) simp
  moreover have "Suc k < length xs" using Suc.prems by simp
  ultimately have j: "unat v mod (Suc k + 1) < length xs" by linarith
  have k: "k < length xs" using Suc.prems by auto
  show ?case
    using Suc.IH [of "swap_nth (Suc k) (unat v mod (Suc k + 1)) xs" r'] j k Suc.prems
    by (simp add: n Let_def mset_swap_nth)
qed simp

lemma shuffle_perm: "mset (fst (shuffle_in_place nx xs r)) = mset xs"
  unfolding shuffle_in_place_def by (rule shuffle_down_perm) (cases xs; simp)

lemma set_shuffle_in_place: "set (fst (shuffle_in_place nx xs r)) = set xs"
  using shuffle_perm by (metis set_mset_mset)

lemma build_shuffle_order_cases:
  "build_shuffle_order nx q r =
     (if context_start q \<le> length (q_context q)
      then Inr (shuffle_in_place nx (map qi_uid (drop (context_start q) (q_context q))) r)
      else Inl SliceOutOfRange)"
  by (simp add: build_shuffle_order_def Let_def)

lemma next_context_uid_found:
  assumes "shuffle_ok q" and "next_context_uid q = Some u"
  shows "\<exists>i. find_context_index q u = Some i"
proof -
  have "u \<in> qi_uid ` set (q_context q)"
    using assms
    by (force simp: next_context_uid_def shuffle_ok_def Let_def split: option.splits list.splits if_splits)
  then show ?thesis
    unfolding find_context_index_def by (auto simp: with_uid_def intro: position_Some_ex)
qed

lemma advance_context_result:
  assumes "queue_inv q" and "next_context_uid q = Some u"
  obtains i where "find_context_index q u = Some i" and "i < length (q_context q)"
    and "qi_uid (q_context q ! i) = u"
    and "advance_context u q =
      (let q' = retain_shuffle u (q\<lparr>q_context_pos := Some i\<rparr>); item = q_context q ! i
       in if qi_unavailable item then Inr (q', change False True (Skipped u))
          else Inr (set_current item q', change False True (MoveTo u)))"
proof -
  obtain i where i: "find_context_index q u = Some i"
    using next_context_uid_found [OF _ assms(2)] assms(1) by (auto simp: queue_inv_def)
  with that show thesis
    using find_context_index_SomeD [OF i] by (simp add: advance_context_def Let_def)
qed

lemma advance_context_inv:
  assumes "queue_inv q" and "next_context_uid q = Some u"
  shows "\<exists>q' ch. advance_context u q = Inr (q', ch) \<and> queue_inv q' \<and> q_next_uid q' = q_next_uid q"
proof -
  from assms obtain i where "i < length (q_context q)"
    "advance_context u q =
      (let q' = retain_shuffle u (q\<lparr>q_context_pos := Some i\<rparr>); item = q_context q ! i
       in if qi_unavailable item then Inr (q', change False True (Skipped u))
          else Inr (set_current item q', change False True (MoveTo u)))"
    by (rule advance_context_result)
  then show ?thesis
    using assms(1) by (auto simp: Let_def context_uid_less intro!: set_current_inv retain_shuffle_inv set_pos_inv)
qed

text \<open>What the loop does when nothing wraps, and that a wrap makes the next round take an item.\<close>

definition wraps :: "play_queue \<Rightarrow> bool" where
  "wraps q \<longleftrightarrow> q_play_next q = [] \<and> next_context_uid q = None \<and> q_repeat q = RepeatAll \<and> q_context q \<noteq> []"

definition rewound :: "('r \<Rightarrow> u64 \<times> 'r) \<Rightarrow> play_queue \<Rightarrow> 'r \<Rightarrow> play_queue \<times> 'r" where
  "rewound nx q rng =
     (if shuffle_enabled q
      then let (s, rng') = shuffle_in_place nx (map qi_uid (q_context q)) rng
           in (q\<lparr>q_context_pos := None, q_shuffle_order := Some s\<rparr>, rng')
      else (q\<lparr>q_context_pos := None\<rparr>, rng))"

lemma advance_loop_wraps:
  "wraps q \<Longrightarrow> advance_loop nx q rng = (let (q', r') = rewound nx q rng in advance_loop nx q' r')"
  by (subst advance_loop.simps)
    (simp add: wraps_def rewound_def Let_def build_shuffle_order_cases context_start_def
      shuffle_enabled_def split: prod.splits)

lemma rewound_inv: "queue_inv q \<Longrightarrow> queue_inv (fst (rewound nx q rng))"
  using set_shuffle_in_place [of nx "map qi_uid (q_context q)" rng]
  by (auto simp: rewound_def queue_defs Let_def split: prod.splits)

lemma rewound_next:
  assumes "q_context q \<noteq> []"
  shows "next_context_uid (fst (rewound nx q rng)) \<noteq> None"
proof -
  have "fst (shuffle_in_place nx (map qi_uid (q_context q)) rng) \<noteq> []"
    using set_shuffle_in_place [of nx "map qi_uid (q_context q)" rng] assms
    by (metis list.map_disc_iff set_empty)
  with assms show ?thesis
    by (auto simp: rewound_def next_context_uid_def context_start_def shuffle_enabled_def Let_def
        split: prod.splits list.splits option.splits)
qed


text \<open>One call of the loop, the wrap unrolled: it returns a queue that satisfies the invariant.\<close>

lemma advance_loop_play_next:
  "q_play_next q = item # rest \<Longrightarrow>
   advance_loop nx q r =
     (if qi_unavailable item
      then Some (Inr (q\<lparr>q_play_next := rest\<rparr>, change True False (Skipped (qi_uid item)), r))
      else Some (Inr (set_current item (q\<lparr>q_play_next := rest\<rparr>),
             change True True (MoveTo (qi_uid item)), r)))"
  by (subst advance_loop.simps) (simp add: Let_def)

lemma advance_loop_context:
  "q_play_next q = [] \<Longrightarrow> next_context_uid q = Some u \<Longrightarrow>
   advance_loop nx q r =
     (case advance_context u q of Inl p \<Rightarrow> Some (Inl p) | Inr (q', ch) \<Rightarrow> Some (Inr (q', ch, r)))"
  by (subst advance_loop.simps) simp

lemma advance_loop_end:
  "q_play_next q = [] \<Longrightarrow> next_context_uid q = None \<Longrightarrow> \<not> wraps q \<Longrightarrow>
   advance_loop nx q r =
     Some (Inr (q\<lparr>q_current := None\<rparr>, change False (q_current q \<noteq> None)
        (if q_current q \<noteq> None then EndOfQueue else Empty), r))"
  by (subst advance_loop.simps) (auto simp: wraps_def)

lemma pop_play_next_inv:
  "queue_inv q \<Longrightarrow> q_play_next q = item # rest \<Longrightarrow>
   queue_inv (q\<lparr>q_play_next := rest\<rparr>) \<and> qi_uid item < q_next_uid q"
  by (auto simp: queue_defs)

lemma advance_loop_no_wrap:
  assumes "queue_inv q" and "\<not> wraps q"
  shows "\<exists>q' ch r'. advance_loop nx q r = Some (Inr (q', ch, r')) \<and> queue_inv q' \<and>
    q_next_uid q' = q_next_uid q"
proof (cases "q_play_next q")
  case (Cons item rest)
  with pop_play_next_inv [OF assms(1) Cons] show ?thesis
    by (auto simp: advance_loop_play_next intro!: set_current_inv)
next
  case Nil
  show ?thesis
  proof (cases "next_context_uid q")
    case (Some u)
    with advance_context_inv [OF assms(1) Some] Nil show ?thesis
      by (auto simp: advance_loop_context)
  next
    case None
    have "queue_inv (q\<lparr>q_current := None\<rparr>)" using assms(1) by (auto simp: queue_defs)
    with None Nil assms(2) show ?thesis by (auto simp: advance_loop_end)
  qed
qed

lemma rewound_fields [simp]:
  "q_context (fst (rewound nx q r)) = q_context q"
  "q_play_next (fst (rewound nx q r)) = q_play_next q"
  "q_current (fst (rewound nx q r)) = q_current q"
  "q_repeat (fst (rewound nx q r)) = q_repeat q"
  "q_history (fst (rewound nx q r)) = q_history q"
  "q_next_uid (fst (rewound nx q r)) = q_next_uid q"
  "q_context_pos (fst (rewound nx q r)) = None"
  by (simp_all add: rewound_def Let_def split: prod.splits)

lemma rewound_not_wraps: "wraps q \<Longrightarrow> \<not> wraps (fst (rewound nx q r))"
  using rewound_next [of q nx r] by (simp add: wraps_def)

lemma advance_loop_total:
  assumes "queue_inv q"
  shows "\<exists>q' ch r'. advance_loop nx q r = Some (Inr (q', ch, r')) \<and> queue_inv q' \<and>
    q_next_uid q' = q_next_uid q"
proof (cases "wraps q")
  case True
  obtain q1 r1 where rw: "rewound nx q r = (q1, r1)" by fastforce
  have "queue_inv q1" "\<not> wraps q1" "q_next_uid q1 = q_next_uid q"
    using rewound_inv [OF assms, of nx r] rewound_not_wraps [OF True, of nx r]
      rewound_fields(6) [of nx q r] by (simp_all add: rw)
  then show ?thesis
    using advance_loop_no_wrap [of q1 nx r1] by (simp add: advance_loop_wraps [OF True] rw)
next
  case False
  with assms show ?thesis by (rule advance_loop_no_wrap)
qed

lemma current_uid_less: "queue_inv q \<Longrightarrow> q_current q = Some c \<Longrightarrow> qi_uid c < q_next_uid q"
  by (simp add: queue_defs)

lemma advance_internal_total:
  assumes "queue_inv q"
  shows "\<exists>q' ch r'. advance_internal nx reason q r = Some (Inr (q', ch, r')) \<and> queue_inv q' \<and>
    q_next_uid q' = q_next_uid q"
  using advance_loop_total [OF assms, of nx r] assms
  by (auto simp: advance_internal_def current_uid_less intro!: push_history_inv
      split: bool.splits option.splits)

lemma advance_seeded_total:
  assumes "queue_inv q"
  shows "\<exists>q' ch. advance_seeded reason q = Some (Inr (q', ch)) \<and> queue_inv q' \<and>
    q_next_uid q' = q_next_uid q"
  using advance_internal_total [OF assms, of xorshift_next reason "xorshift_from_seed 1"]
  by (auto simp: advance_seeded_def)

section \<open>The other operations keep the invariant\<close>

lemma remove_nth_mem: "x \<in> set (remove_nth i xs) \<Longrightarrow> x \<in> set xs"
  using set_remove_nth_subset by fastforce

lemma play_next_from_context_inv:
  assumes inv: "queue_inv q" and i: "find_context_index q u = Some i"
    and pos: "pos = (case q_context_pos q of None \<Rightarrow> None | Some p \<Rightarrow> Some (if i \<le> p then p - 1 else p))"
  shows "queue_inv (retain_shuffle u (q\<lparr>q_context := remove_nth i (q_context q), q_context_pos := pos\<rparr>))"
    (is "queue_inv ?q")
proof -
  have lt: "i < length (q_context q)" and u: "qi_uid (q_context q ! i) = u"
    using find_context_index_SomeD [OF i] by auto
  have len: "length (remove_nth i (q_context q)) = length (q_context q) - 1"
    using lt by (rule length_remove_nth)
  have "add_mset (q_context q ! i) (mset (remove_nth i (q_context q))) = mset (q_context q)"
    using lt by (rule mset_remove_nth)
  then have "set (q_context q) = insert (q_context q ! i) (set (remove_nth i (q_context q)))"
    by (metis set_mset_add_mset_insert set_mset_mset)
  then have ids: "qi_uid ` set (q_context q) = insert u (qi_uid ` set (remove_nth i (q_context q)))"
    using u by auto
  have "pos_ok ?q"
    using inv lt len by (auto simp: queue_defs pos split: option.splits)
  moreover have "shuffle_ok ?q"
    using inv ids by (auto simp: queue_inv_def shuffle_ok_def retain_shuffle_def)
  moreover have "origins_ok ?q"
    using inv by (auto simp: queue_inv_def origins_ok_def dest: remove_nth_mem)
  moreover have "\<forall>v\<in>item_uids ?q. v < q_next_uid ?q"
    using inv by (auto simp: queue_inv_def item_uids_def dest: remove_nth_mem)
  ultimately show ?thesis using inv by (simp add: queue_inv_def)
qed

lemma append_play_next_inv:
  "queue_inv q \<Longrightarrow> qi_uid i < q_next_uid q \<Longrightarrow> qi_origin i = OriginPlayNext \<Longrightarrow>
   queue_inv (q\<lparr>q_play_next := q_play_next q @ [i]\<rparr>)"
  by (auto simp: queue_defs)

lemma remove_play_next_inv:
  "queue_inv q \<Longrightarrow> queue_inv (q\<lparr>q_play_next := remove_nth i (q_play_next q)\<rparr>)"
  by (auto simp: queue_defs dest: remove_nth_mem)

lemma play_next_inv: "queue_inv q \<Longrightarrow> queue_inv (fst (play_next u q))"
proof -
  assume inv: "queue_inv q"
  have "queue_inv (q\<lparr>q_play_next := remove_nth i (q_play_next q) @ [q_play_next q ! i]\<rparr>)"
    if "position (with_uid u) (q_play_next q) = Some i" for i
  proof -
    have "q_play_next q ! i \<in> set (q_play_next q)" using position_less [OF that] by simp
    with inv show ?thesis
      using append_play_next_inv [OF remove_play_next_inv [OF inv, of i], of "q_play_next q ! i"]
      by (auto simp: queue_defs)
  qed
  moreover have "queue_inv (fst (play_next u q))" if "find_context_index q u = Some i"
    "position (with_uid u) (q_play_next q) = None" for i
  proof -
    have lt: "i < length (q_context q)" using find_context_index_SomeD [OF that(1)] by simp
    show ?thesis
      using append_play_next_inv [OF play_next_from_context_inv [OF inv that(1) refl]]
        context_uid_less [OF inv lt] that
      by (simp add: play_next_def Let_def del: position_None_iff)
  qed
  ultimately show ?thesis
    using inv by (auto simp: play_next_def Let_def split: option.splits simp del: position_None_iff)
qed

lemma alloc_uid_inv:
  "queue_inv q \<Longrightarrow> queue_inv (snd (alloc_uid q)) \<and> q_next_uid (snd (alloc_uid q)) = Suc (q_next_uid q)"
  by (auto simp: alloc_uid_def queue_defs intro: less_SucI)

lemma play_next_track_total:
  assumes "queue_inv q"
  shows "\<exists>q' ch. play_next_track t q = Some (Inr (q', ch)) \<and> queue_inv q' \<and>
    q_next_uid q' = Suc (q_next_uid q)"
proof -
  let ?q = "(snd (alloc_uid q))\<lparr>q_play_next := q_play_next (snd (alloc_uid q)) @
    [mk_item (q_next_uid q) OriginPlayNext t]\<rparr>"
  have "queue_inv ?q"
    using alloc_uid_inv [OF assms] by (intro append_play_next_inv) (simp_all add: mk_item_def)
  moreover have "q_next_uid ?q = Suc (q_next_uid q)" by (simp add: alloc_uid_def)
  ultimately show ?thesis
    using advance_seeded_total [of ?q Skip]
    by (auto simp: play_next_track_def Let_def alloc_uid_def)
qed

lemma play_next_tracks_from_total:
  "queue_inv q \<Longrightarrow> \<exists>q' ch. play_next_tracks_from ts acc q = Some (Inr (q', ch)) \<and> queue_inv q' \<and>
     q_next_uid q' = q_next_uid q + length ts"
proof (induction ts arbitrary: acc q)
  case (Cons t ts)
  obtain q1 c where "play_next_track t q = Some (Inr (q1, c))" "queue_inv q1"
    "q_next_uid q1 = Suc (q_next_uid q)"
    using play_next_track_total [OF Cons.prems] by blast
  with Cons.IH [of q1 "merge_change acc c"] show ?case by simp
qed simp


lemma play_next_tracks_total:
  "queue_inv q \<Longrightarrow> \<exists>q' ch. play_next_tracks ts q = Some (Inr (q', ch)) \<and> queue_inv q' \<and>
     q_next_uid q' = q_next_uid q + length ts"
  unfolding play_next_tracks_def by (rule play_next_tracks_from_total)

lemma upcoming_context_items_subset: "set (upcoming_context_items q) \<subseteq> set (q_context q)"
  using set_map_filter_find [of qi_uid "q_context q"]
  by (auto simp: upcoming_context_items_def with_uid_def [abs_def] dest: in_set_dropD split: option.splits)

lemma upcoming_subset: "set (upcoming q) \<subseteq> set (q_play_next q) \<union> set (q_context q)"
  using upcoming_context_items_subset by (auto simp: upcoming_def)

lemma as_context_simps [simp]:
  "qi_uid (as_context i) = qi_uid i"
  "qi_track (as_context i) = qi_track i"
  "qi_unavailable (as_context i) = qi_unavailable i"
  "qi_origin (as_context i) \<noteq> OriginPlayNext"
  by (auto simp: as_context_def)

lemma apply_tail_inv:
  assumes inv: "queue_inv q" and sub: "set tail \<subseteq> set (q_play_next q) \<union> set (q_context q)"
  shows "queue_inv (apply_tail tail q)"
proof -
  let ?q = "apply_tail tail q"
  have ids: "\<forall>i\<in>set tail. qi_uid i < q_next_uid q"
    using inv sub by (auto simp: queue_inv_def item_uids_def)
  have "\<forall>v\<in>item_uids ?q. v < q_next_uid ?q"
    using inv ids by (auto simp: queue_inv_def item_uids_def apply_tail_def Let_def
        dest: in_set_takeD in_set_dropD)
  moreover have "origins_ok ?q"
    using inv by (auto simp: queue_inv_def origins_ok_def apply_tail_def Let_def dest: in_set_takeD)
  moreover have "pos_ok ?q"
    using inv by (auto simp: queue_inv_def pos_ok_def apply_tail_def Let_def context_start_def)
  moreover have "shuffle_ok ?q" "q_history ?q = q_history q"
    by (simp_all add: shuffle_ok_def apply_tail_def Let_def)
  ultimately show ?thesis using inv by (simp add: queue_inv_def)
qed

lemma set_insert_remove_nth:
  "i < length xs \<Longrightarrow> set (insert_nth j (xs ! i) (remove_nth i xs)) = set xs"
  using mset_insert_nth [of j "xs ! i" "remove_nth i xs"] mset_remove_nth [of i xs]
  by (metis set_mset_mset)

lemma reorder_tail_inv: "queue_inv q \<Longrightarrow> queue_inv (fst (reorder_tail u target q))"
proof -
  assume inv: "queue_inv q"
  have "queue_inv (apply_tail (insert_nth k (upcoming q ! i) (remove_nth i (upcoming q))) q)"
    if "position (with_uid u) (upcoming q) = Some i" for i k
    using position_less [OF that] upcoming_subset by (intro apply_tail_inv [OF inv])
      (simp add: set_insert_remove_nth)
  then show ?thesis
    using inv by (auto simp: reorder_tail_def Let_def split: option.splits simp del: position_None_iff)
qed

lemma remove_total:
  assumes "queue_inv q"
  shows "\<exists>q' ch. remove u q = Some (Inr (q', ch)) \<and> queue_inv q' \<and> q_next_uid q' = q_next_uid q"
proof -
  have "queue_inv (retain_shuffle u (q\<lparr>q_context := remove_nth i (q_context q), q_context_pos := pos\<rparr>))"
    if i: "find_context_index q u = Some i"
      and "pos = (case q_context_pos q of None \<Rightarrow> None | Some p \<Rightarrow> Some (if i < p then p - 1
        else if i = p then p - 1 else p))" for i pos
    using that(2) by (intro play_next_from_context_inv [OF assms i])
      (auto split: option.splits)
  then show ?thesis
    using advance_seeded_total [OF assms, of Removed] assms
    by (auto simp: remove_def intro: remove_play_next_inv split: option.splits simp del: position_None_iff)
qed

lemma set_repeat_inv: "queue_inv q \<Longrightarrow> queue_inv (fst (set_repeat m q))"
  by (auto simp: set_repeat_def queue_defs)

lemma history_shrink_inv:
  "queue_inv q \<Longrightarrow> set h \<subseteq> set (q_history q) \<Longrightarrow> length h \<le> length (q_history q) \<Longrightarrow>
   queue_inv (q\<lparr>q_history := h\<rparr>)"
  by (auto simp: queue_defs)

lemma skip_back_inv: "queue_inv q \<Longrightarrow> queue_inv (fst (skip_back ms q))"
proof -
  assume inv: "queue_inv q"
  define h where "h = (if q_history q \<noteq> [] \<and> current_is q (last (q_history q))
    then butlast (q_history q) else q_history q)"
  have h: "set h \<subseteq> set (q_history q)" "length h \<le> length (q_history q)"
    by (auto simp: h_def dest: in_set_butlastD)
  let ?q = "q\<lparr>q_history := butlast h\<rparr>"
  have inv': "queue_inv ?q" "queue_inv (q\<lparr>q_history := h\<rparr>)"
    using h by (auto intro!: history_shrink_inv [OF inv] dest: in_set_butlastD)
  have "queue_inv (push_history (last h)
      (?q\<lparr>q_context_pos := Some i, q_current := Some (q_context q ! i)\<rparr>))"
    if "find_context_index ?q (last h) = Some i" for i
  proof (rule push_history_inv)
    have lt: "i < length (q_context q)" "qi_uid (q_context q ! i) = last h"
      using find_context_index_SomeD [OF that] by auto
    then show "queue_inv (?q\<lparr>q_context_pos := Some i, q_current := Some (q_context q ! i)\<rparr>)"
      using inv' context_uid_less [OF inv lt(1)] by (auto simp: queue_defs)
    show "last h < q_next_uid (?q\<lparr>q_context_pos := Some i, q_current := Some (q_context q ! i)\<rparr>)"
      using lt context_uid_less [OF inv lt(1)] by simp
  qed
  with inv inv' show ?thesis
    by (cases "h = []") (simp_all add: skip_back_def Let_def flip: h_def split: option.split)
qed

lemma flag_track_simps [simp]:
  "qi_uid (flag_track t i) = qi_uid i" "qi_track (flag_track t i) = qi_track i"
  "qi_origin (flag_track t i) = qi_origin i"
  by (simp_all add: flag_track_def)

lemma flagged_inv:
  "queue_inv q \<Longrightarrow>
   queue_inv (q\<lparr>q_context := map (flag_track t) (q_context q),
               q_play_next := map (flag_track t) (q_play_next q)\<rparr>)"
  by (auto simp: queue_defs image_image)

lemma mark_unavailable_total:
  assumes "queue_inv q"
  shows "\<exists>q' ch r'. mark_unavailable nx t q r = Some (Inr (q', ch, r')) \<and> queue_inv q' \<and>
    q_next_uid q' = q_next_uid q"
  using flagged_inv [OF assms, of t] advance_internal_total [OF flagged_inv [OF assms, of t], of nx Removed r]
  by (auto simp: mark_unavailable_def Let_def split: option.splits)

end
