(* ===== verification/Queue_Machine.thy ===== *)
theory Queue_Machine
  imports Queue_Invariants
begin

text \<open>
  The public mutators of \<^verbatim>\<open>PlayQueue\<close> as one labelled step relation, the
  interpretation of the machine and identifier contracts on it, and the totality and panic
  behaviour of every call.
\<close>

section \<open>Calls\<close>

datatype queue_call =
    ReplaceContext "track_ref list"
  | ReplaceContextAt "track_ref list" nat
  | AddContext "track_ref list"
  | AdoptTransfer track_ref
  | Reveal track_ref
  | MoveCurrentTo nat
  | Advance advance_reason
  | PlayNext nat
  | PlayNextTracks "track_ref list"
  | MoveUp nat
  | MoveDown nat
  | Reorder nat nat
  | Remove nat
  | SetShuffle bool
  | SetRepeat repeat
  | SkipBack nat
  | MarkUnavailable track_id
  | EnsureHostDriven

definition keep_rng :: "'r \<Rightarrow> play_queue \<times> 'c \<Rightarrow> (play_queue \<times> 'r) outcome" where
  "keep_rng rng r = Some (Inr (fst r, rng))"

definition keep_rng_of :: "'r \<Rightarrow> (play_queue \<times> 'c) outcome \<Rightarrow> (play_queue \<times> 'r) outcome" where
  "keep_rng_of rng r = map_option (map_sum id (\<lambda>(q, _). (q, rng))) r"

definition drop_change :: "(play_queue \<times> 'c \<times> 'r) outcome \<Rightarrow> (play_queue \<times> 'r) outcome" where
  "drop_change r = map_option (map_sum id (\<lambda>(q, _, rng). (q, rng))) r"

fun run_call ::
  "('r \<Rightarrow> u64 \<times> 'r) \<Rightarrow> queue_call \<Rightarrow> play_queue \<Rightarrow> 'r \<Rightarrow> (play_queue \<times> 'r) outcome"
where
  "run_call nx (ReplaceContext ts) q r = keep_rng r (replace_context ts q)"
| "run_call nx (ReplaceContextAt ts c) q r = keep_rng r (replace_context_at ts c q)"
| "run_call nx (AddContext ts) q r = keep_rng r (add_context ts q)"
| "run_call nx (AdoptTransfer t) q r = keep_rng r (adopt_transfer_context t q)"
| "run_call nx (Reveal t) q r = Some (Inr (snd (reveal t q), r))"
| "run_call nx (MoveCurrentTo u) q r = keep_rng r (move_current_to u q)"
| "run_call nx (Advance reason) q r = drop_change (advance_internal nx reason q r)"
| "run_call nx (PlayNext u) q r = keep_rng r (play_next u q)"
| "run_call nx (PlayNextTracks ts) q r = keep_rng_of r (play_next_tracks ts q)"
| "run_call nx (MoveUp u) q r = keep_rng r (move_up u q)"
| "run_call nx (MoveDown u) q r = keep_rng r (move_down u q)"
| "run_call nx (Reorder u k) q r = keep_rng r (reorder u k q)"
| "run_call nx (Remove u) q r = keep_rng_of r (remove u q)"
| "run_call nx (SetShuffle b) q r = drop_change (set_shuffle nx b q r)"
| "run_call nx (SetRepeat m) q r = keep_rng r (set_repeat m q)"
| "run_call nx (SkipBack ms) q r = keep_rng r (skip_back ms q)"
| "run_call nx (MarkUnavailable t) q r = drop_change (mark_unavailable nx t q r)"
| "run_call nx EnsureHostDriven q r = Some (Inr (ensure_host_driven q, r))"

definition queue_step :: "('r \<Rightarrow> u64 \<times> 'r) \<Rightarrow> play_queue \<Rightarrow> play_queue \<Rightarrow> bool" where
  "queue_step nx q q' \<longleftrightarrow> (\<exists>c r r'. run_call nx c q r = Some (Inr (q', r')))"

text \<open>The one panicking call: shuffle on, over an empty context with the cursor still at 0.\<close>

fun slice_panics :: "queue_call \<Rightarrow> play_queue \<Rightarrow> bool" where
  "slice_panics (SetShuffle b) q \<longleftrightarrow>
     b \<and> \<not> shuffle_enabled q \<and> q_context_pos q = Some 0 \<and> q_context q = []"
| "slice_panics _ q \<longleftrightarrow> False"

definition call_ok :: "play_queue \<Rightarrow> (play_queue \<times> 'r) outcome \<Rightarrow> bool" where
  "call_ok q res \<longleftrightarrow>
     (\<exists>q' r'. res = Some (Inr (q', r')) \<and> queue_inv q' \<and> q_next_uid q \<le> q_next_uid q')"

lemma keep_rng_ok:
  "queue_inv (fst x) \<Longrightarrow> q_next_uid q \<le> q_next_uid (fst x) \<Longrightarrow> call_ok q (keep_rng r x)"
  by (simp add: call_ok_def keep_rng_def)

lemma keep_rng_of_ok:
  "\<exists>q' c. res = Some (Inr (q', c)) \<and> queue_inv q' \<and> q_next_uid q \<le> q_next_uid q' \<Longrightarrow>
   call_ok q (keep_rng_of r res)"
  by (auto simp: call_ok_def keep_rng_of_def)

lemma drop_change_ok:
  "\<exists>q' c r'. res = Some (Inr (q', c, r')) \<and> queue_inv q' \<and> q_next_uid q' = q_next_uid q \<Longrightarrow>
   call_ok q (drop_change res)"
  by (auto simp: call_ok_def drop_change_def)

text \<open>The counter never goes back.\<close>

lemma replace_context_counter: "q_next_uid q \<le> q_next_uid (fst (replace_context ts q))"
  by (auto simp: replace_context_def Let_def push_context_eq cleared_def split: list.split)

lemma replace_context_at_counter: "q_next_uid q \<le> q_next_uid (fst (replace_context_at ts c q))"
  using replace_context_counter [of q ts]
  by (auto simp: replace_context_at_def Let_def split: prod.split)

lemma add_context_counter: "q_next_uid q \<le> q_next_uid (fst (add_context ts q))"
  by (auto simp: add_context_def Let_def push_context_eq)

lemma other_counters:
  "q_next_uid (fst (adopt_transfer_context t q)) = Suc (q_next_uid q)"
  "q_next_uid (snd (reveal t q)) = Suc (q_next_uid q)"
  "q_next_uid (fst (move_current_to u q)) = q_next_uid q"
  "q_next_uid (fst (play_next u q)) = q_next_uid q"
  "q_next_uid (fst (reorder_tail u f q)) = q_next_uid q"
  "q_next_uid (fst (set_repeat m q)) = q_next_uid q"
  "q_next_uid (fst (skip_back ms q)) = q_next_uid q"
  by (auto simp: adopt_transfer_context_def reveal_def alloc_uid_def cleared_def move_current_to_def
      play_next_def reorder_tail_def apply_tail_def set_repeat_def skip_back_def Let_def
      split: option.split simp del: position_None_iff)

lemma set_shuffle_total:
  assumes "queue_inv q" and "\<not> slice_panics (SetShuffle b) q"
  shows "\<exists>q' c r'. set_shuffle nx b q r = Some (Inr (q', c, r')) \<and> queue_inv q' \<and>
    q_next_uid q' = q_next_uid q"
proof -
  let ?us = "map qi_uid (drop (context_start q) (q_context q))"
  have off: "queue_inv (q\<lparr>q_shuffle_order := None\<rparr>)"
    using assms(1) by (auto simp: queue_defs)
  have "set ?us \<subseteq> qi_uid ` set (q_context q)" by (auto dest: in_set_dropD)
  then have on: "queue_inv (q\<lparr>q_shuffle_order := Some (fst (shuffle_in_place nx ?us r))\<rparr>)"
    using assms(1) set_shuffle_in_place [of nx ?us r]
    by (auto simp: queue_inv_def pos_ok_def shuffle_ok_def origins_ok_def item_uids_def)
  have "context_start q \<le> length (q_context q)" if "b" "\<not> shuffle_enabled q"
    using assms that
    by (auto simp: context_start_def queue_inv_def pos_ok_def Suc_le_eq split: option.splits)
  then show ?thesis
    using assms(1) off on
    by (auto simp: set_shuffle_def build_shuffle_order_cases split: prod.splits)
qed

lemma run_call_ok:
  assumes "queue_inv q" and "\<not> slice_panics c q"
  shows "call_ok q (run_call nx c q r)"
proof (cases c)
  case (ReplaceContext ts)
  with assms(1) show ?thesis
    by (simp add: keep_rng_ok replace_context_inv replace_context_counter)
next
  case (ReplaceContextAt ts k)
  with assms(1) show ?thesis
    by (simp add: keep_rng_ok replace_context_at_inv replace_context_at_counter)
next
  case (AddContext ts)
  with assms(1) show ?thesis by (simp add: keep_rng_ok add_context_inv add_context_counter)
next
  case (AdoptTransfer t)
  with assms(1) show ?thesis by (simp add: keep_rng_ok adopt_transfer_context_inv other_counters)
next
  case (Reveal t)
  with assms(1) show ?thesis by (simp add: call_ok_def reveal_inv other_counters)
next
  case (MoveCurrentTo u)
  with assms(1) show ?thesis by (simp add: keep_rng_ok move_current_to_inv other_counters)
next
  case (Advance reason)
  show ?thesis unfolding Advance run_call.simps
    by (rule drop_change_ok, use advance_internal_total [OF assms(1), of nx reason r] in blast)
next
  case (PlayNext u)
  with assms(1) show ?thesis by (simp add: keep_rng_ok play_next_inv other_counters)
next
  case (PlayNextTracks ts)
  with play_next_tracks_total [OF assms(1), of ts] show ?thesis
    by (auto intro!: keep_rng_of_ok)
next
  case (Remove u)
  with remove_total [OF assms(1), of u] show ?thesis by (auto intro!: keep_rng_of_ok)
next
  case (SetShuffle b)
  show ?thesis unfolding SetShuffle run_call.simps
    by (rule drop_change_ok, use set_shuffle_total [OF assms(1), of b nx r] assms(2) SetShuffle in blast)
next
  case (MarkUnavailable t)
  show ?thesis unfolding MarkUnavailable run_call.simps
    by (rule drop_change_ok, use mark_unavailable_total [OF assms(1), of nx t r] in blast)
next
  case EnsureHostDriven
  with assms(1) show ?thesis by (auto simp: call_ok_def ensure_host_driven_def queue_defs)
qed (use assms(1) in \<open>simp_all add: keep_rng_ok move_up_def move_down_def reorder_def reorder_tail_inv
  set_repeat_inv skip_back_inv other_counters\<close>)

lemma set_shuffle_panics:
  "slice_panics (SetShuffle b) q \<Longrightarrow> set_shuffle nx b q r = Some (Inl SliceOutOfRange)"
  by (simp add: set_shuffle_def build_shuffle_order_cases context_start_def)

lemma slice_panics_cases:
  "slice_panics c q \<Longrightarrow> run_call nx c q r = Some (Inl SliceOutOfRange)"
  by (cases c) (simp_all add: set_shuffle_panics drop_change_def del: slice_panics.simps(1)
     split: if_splits)

section \<open>The contracts\<close>

interpretation queue: id_allocator
  "\<lambda>q. q = queue_new" "queue_step nx" queue_inv item_uids q_next_uid
  for nx :: "'r \<Rightarrow> u64 \<times> 'r"
proof unfold_locales
  fix s t assume "queue_inv s" and "queue_step nx s t"
  then obtain c r r' where call: "run_call nx c s r = Some (Inr (t, r'))"
    by (auto simp: queue_step_def)
  then have "\<not> slice_panics c s" by (auto dest: slice_panics_cases [of c s nx r])
  with \<open>queue_inv s\<close> call run_call_ok [of s c nx r]
  show "queue_inv t" and "q_next_uid s \<le> q_next_uid t" by (auto simp: call_ok_def)
qed (simp add: queue_inv_new, simp add: queue_inv_def)

end
