(* ===== verification/Queue_Order.thy ===== *)
theory Queue_Order
  imports Queue_Machine
begin

text \<open>
  The order of playback. The abstract queue is the current item and the list \<open>upcoming\<close>
  still to play; advancing takes its head. The identifiers are pairwise distinct in every queue
  whose items were not reordered while shuffle was on, and under that condition the detailed
  advance refines the abstract one.
\<close>

section \<open>Distinct identifiers\<close>

definition uids_distinct :: "play_queue \<Rightarrow> bool" where
  "uids_distinct q \<longleftrightarrow>
     distinct (map qi_uid (q_context q @ q_play_next q)) \<and>
     (\<forall>s. q_shuffle_order q = Some s \<longrightarrow> distinct s)"

lemma uids_distinct_code [code]:
  "uids_distinct q \<longleftrightarrow>
     distinct (map qi_uid (q_context q @ q_play_next q)) \<and>
     (case q_shuffle_order q of None \<Rightarrow> True | Some s \<Rightarrow> distinct s)"
  by (simp add: uids_distinct_def split: option.split)

definition order_inv :: "play_queue \<Rightarrow> bool" where
  "order_inv q \<longleftrightarrow> queue_inv q \<and> uids_distinct q"

text \<open>A reordering while shuffle is on is excluded: it is the one call that breaks distinctness.\<close>

fun reorders :: "queue_call \<Rightarrow> bool" where
  "reorders (MoveUp _) \<longleftrightarrow> True"
| "reorders (MoveDown _) \<longleftrightarrow> True"
| "reorders (Reorder _ _) \<longleftrightarrow> True"
| "reorders _ \<longleftrightarrow> False"

definition ordered_step :: "('r \<Rightarrow> u64 \<times> 'r) \<Rightarrow> play_queue \<Rightarrow> play_queue \<Rightarrow> bool" where
  "ordered_step nx q q' \<longleftrightarrow>
     (\<exists>c r r'. run_call nx c q r = Some (Inr (q', r')) \<and> \<not> (reorders c \<and> shuffle_enabled q))"

lemma position_uid_nth:
  assumes "distinct (map qi_uid xs)" and "i < length xs"
  shows "position (with_uid (qi_uid (xs ! i))) xs = Some i"
  using position_key_nth [OF assms] by (simp add: with_uid_def [abs_def])

lemma find_uid: "distinct (map qi_uid xs) \<Longrightarrow> x \<in> set xs \<Longrightarrow> find (with_uid (qi_uid x)) xs = Some x"
  using find_key [of qi_uid xs x] by (simp add: with_uid_def [abs_def])

lemma distinct_context: "uids_distinct q \<Longrightarrow> distinct (map qi_uid (q_context q))"
  by (simp add: uids_distinct_def)

section \<open>What one advance does to the upcoming list\<close>

lemma upcoming_context_shuffled:
  "q_shuffle_order q = Some s \<Longrightarrow>
   upcoming_context_items q = List.map_filter (\<lambda>u. find (with_uid u) (q_context q)) s"
  by (simp add: upcoming_context_items_def)

lemma upcoming_context_plain:
  "q_shuffle_order q = None \<Longrightarrow> upcoming_context_items q = drop (context_start q) (q_context q)"
  by (simp add: upcoming_context_items_def)

lemma retain_shuffle_upcoming:
  assumes "q_shuffle_order q = Some (u # s)" and "distinct (u # s)"
  shows "q_shuffle_order (retain_shuffle u q) = Some s"
proof -
  have "filter (\<lambda>i. i \<noteq> u) s = s" using assms(2) by (auto intro: filter_True)
  with assms(1) show ?thesis by (simp add: retain_shuffle_def)
qed

lemma shuffled_head_found:
  assumes "shuffle_ok q" and "q_shuffle_order q = Some (u # s)"
  obtains x where "find (with_uid u) (q_context q) = Some x" and "qi_uid x = u"
    and "upcoming_context_items q = x # List.map_filter (\<lambda>u. find (with_uid u) (q_context q)) s"
proof -
  have "\<exists>x\<in>set (q_context q). with_uid u x"
    using assms by (auto simp: shuffle_ok_def with_uid_def)
  then obtain x where x: "find (with_uid u) (q_context q) = Some x"
    by (metis find_None_iff_ball option.exhaust)
  moreover have "qi_uid x = u" using find_SomeD [OF x] by (simp add: with_uid_def)
  ultimately show thesis
    using that assms(2) by (simp add: upcoming_context_shuffled List.map_filter_simps)
qed

lemma next_context_uid_hd:
  assumes "order_inv q"
  shows "next_context_uid q = (case upcoming_context_items q of [] \<Rightarrow> None | x # _ \<Rightarrow> Some (qi_uid x))"
proof (cases "q_shuffle_order q")
  case None
  then show ?thesis
    by (cases "context_start q < length (q_context q)")
      (simp_all add: next_context_uid_def upcoming_context_plain Cons_nth_drop_Suc [symmetric])
next
  case (Some s)
  show ?thesis
  proof (cases s)
    case Nil
    with Some show ?thesis by (simp add: next_context_uid_def upcoming_context_shuffled List.map_filter_simps)
  next
    case (Cons u us)
    have "shuffle_ok q" using assms by (simp add: order_inv_def queue_inv_def)
    then obtain x where "qi_uid x = u"
      "upcoming_context_items q = x # List.map_filter (\<lambda>u. find (with_uid u) (q_context q)) us"
      using Some Cons by (auto elim: shuffled_head_found)
    with Some Cons show ?thesis by (simp add: next_context_uid_def)
  qed
qed

lemma advance_context_upcoming:
  assumes inv: "order_inv q" and up: "upcoming_context_items q = x # xs"
  shows "\<exists>q'. advance_context (qi_uid x) q =
      Inr (if qi_unavailable x then (q', change False True (Skipped (qi_uid x)))
           else (set_current x q', change False True (MoveTo (qi_uid x)))) \<and>
    upcoming_context_items q' = xs \<and> q_play_next q' = q_play_next q \<and> q_context q' = q_context q \<and>
    q_current q' = q_current q \<and> q_repeat q' = q_repeat q \<and> uids_distinct q'"
proof -
  have d: "distinct (map qi_uid (q_context q))" using inv by (simp add: order_inv_def uids_distinct_def)
  have x: "x \<in> set (q_context q)" using upcoming_context_items_subset [of q] up by auto
  then obtain i where i: "i < length (q_context q)" "q_context q ! i = x"
    by (auto simp: in_set_conv_nth)
  then have idx: "find_context_index q (qi_uid x) = Some i"
    using position_uid_nth [OF d i(1)] by (simp add: find_context_index_def)
  let ?q' = "retain_shuffle (qi_uid x) (q\<lparr>q_context_pos := Some i\<rparr>)"
  have "upcoming_context_items ?q' = xs"
  proof (cases "q_shuffle_order q")
    case None
    have lt: "context_start q < length (q_context q)"
      using up None by (cases "context_start q < length (q_context q)") (simp_all add: upcoming_context_plain)
    then have e: "q_context q ! context_start q = x" "drop (Suc (context_start q)) (q_context q) = xs"
      using up None by (simp_all add: upcoming_context_plain Cons_nth_drop_Suc [symmetric])
    have "position (with_uid (qi_uid x)) (q_context q) = Some (context_start q)"
      using position_uid_nth [OF d lt] e by simp
    with idx have "i = context_start q" by (simp add: find_context_index_def)
    with None e show ?thesis
      by (simp add: upcoming_context_items_def retain_shuffle_def context_start_def)
  next
    case (Some s)
    obtain u us where s: "s = u # us" using up Some by (cases s) (simp_all add: upcoming_context_shuffled List.map_filter_simps)
    have sh: "q_shuffle_order q = Some (u # us)" using Some s by simp
    have "shuffle_ok q" using inv by (simp add: order_inv_def queue_inv_def)
    from shuffled_head_found [OF this sh] up have u: "u = qi_uid x"
      and xs: "xs = List.map_filter (\<lambda>u. find (with_uid u) (q_context q)) us"
      by auto
    have "distinct (u # us)" using inv sh by (simp add: order_inv_def uids_distinct_def)
    then have "q_shuffle_order ?q' = Some us"
      using retain_shuffle_upcoming [of "q\<lparr>q_context_pos := Some i\<rparr>" u us] sh u by simp
    with xs show ?thesis by (simp add: upcoming_context_shuffled)
  qed
  moreover have "uids_distinct ?q'"
    using inv by (auto simp: order_inv_def uids_distinct_def retain_shuffle_def)
  ultimately show ?thesis
    using idx i by (intro exI [of _ ?q']) (simp add: advance_context_def Let_def)
qed


definition landed :: "queue_item \<Rightarrow> playback_change" where
  "landed x = (if qi_unavailable x then Skipped (qi_uid x) else MoveTo (qi_uid x))"

lemma context_fields_upcoming:
  "q_context q' = q_context q \<Longrightarrow> q_shuffle_order q' = q_shuffle_order q \<Longrightarrow>
   q_context_pos q' = q_context_pos q \<Longrightarrow> upcoming_context_items q' = upcoming_context_items q"
  by (simp add: upcoming_context_items_def context_start_def split: option.split)

lemma upcoming_current [simp]: "upcoming (q\<lparr>q_current := c\<rparr>) = upcoming q"
proof -
  have "upcoming_context_items (q\<lparr>q_current := c\<rparr>) = upcoming_context_items q"
    by (rule context_fields_upcoming) simp_all
  then show ?thesis by (simp add: upcoming_def)
qed

lemma uids_distinct_cong:
  "q_context q' = q_context q \<Longrightarrow> q_play_next q' = q_play_next q \<Longrightarrow>
   q_shuffle_order q' = q_shuffle_order q \<Longrightarrow> uids_distinct q' = uids_distinct q"
  by (simp add: uids_distinct_def)

lemma uids_distinct_set_current [simp]: "uids_distinct (set_current x q) = uids_distinct q"
  by (rule uids_distinct_cong) simp_all

lemma uids_distinct_push_history [simp]: "uids_distinct (push_history u q) = uids_distinct q"
  by (rule uids_distinct_cong) simp_all

lemma upcoming_set_current [simp]: "upcoming_context_items (set_current x q) = upcoming_context_items q"
  by (rule context_fields_upcoming) simp_all

lemma advance_loop_pops:
  assumes inv: "order_inv q" and up: "upcoming q = x # xs"
  shows "\<exists>q' ch. advance_loop nx q r = Some (Inr (q', ch, r)) \<and> order_inv q' \<and>
    upcoming q' = xs \<and> q_current q' = (if qi_unavailable x then q_current q else Some x) \<and>
    qc_playback ch = landed x \<and> q_repeat q' = q_repeat q \<and> q_context q' = q_context q"
proof (cases "q_play_next q")
  case (Cons item rest)
  with up have x: "item = x" and xs: "xs = rest @ upcoming_context_items q"
    by (simp_all add: upcoming_def)
  let ?q = "q\<lparr>q_play_next := rest\<rparr>"
  have "upcoming_context_items ?q = upcoming_context_items q" by (rule context_fields_upcoming) simp_all
  moreover have "uids_distinct ?q" using inv Cons by (auto simp: order_inv_def uids_distinct_def)
  moreover have "queue_inv ?q" "qi_uid item < q_next_uid q"
    using pop_play_next_inv [OF _ Cons] inv by (auto simp: order_inv_def)
  ultimately show ?thesis
    by (simp add: advance_loop_play_next [OF Cons] x xs upcoming_def landed_def change_def
        order_inv_def set_current_inv)
next
  case Nil
  with up have uc: "upcoming_context_items q = x # xs" by (simp add: upcoming_def)
  have n: "next_context_uid q = Some (qi_uid x)" using next_context_uid_hd [OF inv] uc by simp
  obtain q' where q': "advance_context (qi_uid x) q =
      Inr (if qi_unavailable x then (q', change False True (Skipped (qi_uid x)))
           else (set_current x q', change False True (MoveTo (qi_uid x))))"
    "upcoming_context_items q' = xs" "q_play_next q' = q_play_next q" "q_context q' = q_context q"
    "q_current q' = q_current q" "q_repeat q' = q_repeat q" "uids_distinct q'"
    using advance_context_upcoming [OF inv uc] by blast
  obtain q2 ch where q2: "advance_context (qi_uid x) q = Inr (q2, ch)" "queue_inv q2"
    using advance_context_inv [OF _ n] inv by (auto simp: order_inv_def)
  have "q2 = (if qi_unavailable x then q' else set_current x q')"
    "ch = change False True (landed x)"
    using q2(1) q'(1) by (auto simp: landed_def split: if_splits)
  with q2 q' show ?thesis
    by (simp add: advance_loop_context [OF Nil n] upcoming_def Nil change_def order_inv_def)
qed

lemma advance_loop_ends:
  assumes inv: "order_inv q" and up: "upcoming q = []" and rep: "q_repeat q \<noteq> RepeatAll \<or> q_context q = []"
  shows "advance_loop nx q r =
    Some (Inr (q\<lparr>q_current := None\<rparr>, change False (q_current q \<noteq> None)
      (if q_current q \<noteq> None then EndOfQueue else Empty), r))"
proof (rule advance_loop_end)
  show "q_play_next q = []" using up by (simp add: upcoming_def)
  show "next_context_uid q = None"
    using up next_context_uid_hd [OF inv] by (simp add: upcoming_def)
  show "\<not> wraps q" using rep by (auto simp: wraps_def)
qed

text \<open>A wrap under \<open>RepeatAll\<close>: the whole context is upcoming again, in some order.\<close>

lemma map_filter_find_uids:
  assumes d: "distinct (map qi_uid xs)" and m: "mset us = mset (map qi_uid xs)"
  shows "mset (List.map_filter (\<lambda>u. find (with_uid u) xs) us) = mset xs"
proof -
  define look where "look u = the (find (with_uid u) xs)" for u
  have found: "find (with_uid (qi_uid x)) xs = Some x" if "x \<in> set xs" for x
    using find_uid [OF d that] .
  have "set us = qi_uid ` set xs" using m by (metis set_mset_mset list.set_map)
  then have "\<forall>u\<in>set us. find (with_uid u) xs = Some (look u)"
    using found by (auto simp: look_def)
  then have "List.map_filter (\<lambda>u. find (with_uid u) xs) us = map look us"
    by (induction us) (auto simp: List.map_filter_simps)
  moreover have "mset (map look us) = image_mset look (mset (map qi_uid xs))" by (simp add: m)
  moreover have "\<dots> = mset (map (look \<circ> qi_uid) xs)" by (simp add: image_mset.compositionality)
  moreover have "map (look \<circ> qi_uid) xs = xs"
    using found by (auto simp: look_def intro: map_idI)
  ultimately show ?thesis by simp
qed

lemma rewound_upcoming:
  assumes d: "uids_distinct q" and pn: "q_play_next q = []"
  shows "mset (upcoming (fst (rewound nx q r))) = mset (q_context q) \<and>
    (\<not> shuffle_enabled q \<longrightarrow> upcoming (fst (rewound nx q r)) = q_context q) \<and>
    uids_distinct (fst (rewound nx q r))"
proof (cases "shuffle_enabled q")
  case True
  let ?s = "fst (shuffle_in_place nx (map qi_uid (q_context q)) r)"
  have fields: "q_shuffle_order (fst (rewound nx q r)) = Some ?s"
    using True by (simp add: rewound_def Let_def split: prod.splits)
  have m: "mset ?s = mset (map qi_uid (q_context q))" by (rule shuffle_perm)
  then have "distinct ?s" using distinct_context [OF d] mset_eq_imp_distinct_iff by blast
  then show ?thesis
    using True fields map_filter_find_uids [OF distinct_context [OF d] m] d pn
    by (simp add: upcoming_def upcoming_context_shuffled uids_distinct_def)
next
  case False
  then have "q_shuffle_order (fst (rewound nx q r)) = None"
    by (simp add: rewound_def shuffle_enabled_def)
  with False d pn show ?thesis
    by (simp add: upcoming_def upcoming_context_plain context_start_def uids_distinct_def)
qed

lemma advance_loop_wraps_pops:
  assumes inv: "order_inv q" and up: "upcoming q = []" and rep: "q_repeat q = RepeatAll"
    and ne: "q_context q \<noteq> []"
  shows "\<exists>x xs q' ch r'. advance_loop nx q r = Some (Inr (q', ch, r')) \<and> order_inv q' \<and>
    upcoming q' = xs \<and> mset (x # xs) = mset (q_context q) \<and>
    (\<not> shuffle_enabled q \<longrightarrow> x # xs = q_context q) \<and>
    q_current q' = (if qi_unavailable x then q_current q else Some x) \<and> qc_playback ch = landed x \<and>
    q_context q' = q_context q \<and> q_repeat q' = q_repeat q"
proof -
  obtain q1 r1 where rw: "rewound nx q r = (q1, r1)" by fastforce
  have pn: "q_play_next q = []" using up by (simp add: upcoming_def)
  have w: "wraps q"
    using up rep ne pn next_context_uid_hd [OF inv] by (simp add: wraps_def upcoming_def)
  have up1: "mset (upcoming q1) = mset (q_context q)" "\<not> shuffle_enabled q \<longrightarrow> upcoming q1 = q_context q"
    and d1: "uids_distinct q1"
    using rewound_upcoming [OF _ pn, of nx r] inv by (auto simp: rw order_inv_def)
  have inv1: "order_inv q1"
    using rewound_inv [of q nx r] inv d1 by (simp add: rw order_inv_def)
  have same: "q_context q1 = q_context q" "q_current q1 = q_current q" "q_repeat q1 = q_repeat q"
    using rewound_fields(1,3,4) [of nx q r] by (simp_all add: rw)
  obtain x xs where x: "upcoming q1 = x # xs" using up1(1) ne by (cases "upcoming q1") auto
  from advance_loop_pops [OF inv1 x, of nx r1] same up1 x show ?thesis
    by (auto simp: advance_loop_wraps [OF w] rw)
qed

section \<open>Playing the queue out\<close>

text \<open>
  The playback changes of \<open>n\<close> skips in a row, as the host loop of the controller would see them,
  \<open>None\<close> when a call does not return or panics.
\<close>

definition after ::
  "playback_change list \<Rightarrow> (playback_change list \<times> play_queue) option \<Rightarrow> (playback_change list \<times> play_queue) option"
where
  "after cs r = (case r of None \<Rightarrow> None | Some (ds, q) \<Rightarrow> Some (cs @ ds, q))"

lemma after_simps [simp]:
  "after [] r = r" "after cs (after ds r) = after (cs @ ds) r"
  "after cs (Some (ds, q)) = Some (cs @ ds, q)" "after cs None = None"
  by (auto simp: after_def split: option.split)

fun skips :: "('r \<Rightarrow> u64 \<times> 'r) \<Rightarrow> nat \<Rightarrow> play_queue \<Rightarrow> 'r \<Rightarrow> (playback_change list \<times> play_queue) option" where
  "skips nx 0 q r = Some ([], q)"
| "skips nx (Suc n) q r =
     (case advance_internal nx Skip q r of
        Some (Inr (q', ch, r')) \<Rightarrow> after [qc_playback ch] (skips nx n q' r')
      | _ \<Rightarrow> None)"

lemma advance_skip: "advance_internal nx Skip q r = advance_loop nx q r"
  by (simp add: advance_internal_def)

fun last_available :: "queue_item option \<Rightarrow> queue_item list \<Rightarrow> queue_item option" where
  "last_available c [] = c"
| "last_available c (x # xs) = last_available (if qi_unavailable x then c else Some x) xs"

definition drained ::
  "('r \<Rightarrow> u64 \<times> 'r) \<Rightarrow> 'r \<Rightarrow> queue_item list \<Rightarrow> play_queue \<Rightarrow> play_queue \<Rightarrow> bool"
where
  "drained nx r xs q q' \<longleftrightarrow>
     (\<forall>m. skips nx (length xs + m) q r = after (map landed xs) (skips nx m q' r)) \<and>
     upcoming q' = [] \<and> order_inv q' \<and> q_current q' = last_available (q_current q) xs \<and>
     q_repeat q' = q_repeat q \<and> q_context q' = q_context q"

lemma drained_Nil: "order_inv q \<Longrightarrow> upcoming q = [] \<Longrightarrow> drained nx r [] q q"
  by (simp add: drained_def)

lemma drained_Cons:
  assumes "advance_loop nx q r = Some (Inr (q1, ch, r))" and "qc_playback ch = landed x"
    and "q_current q1 = (if qi_unavailable x then q_current q else Some x)"
    and "q_repeat q1 = q_repeat q" and "q_context q1 = q_context q" and "drained nx r xs q1 q'"
  shows "drained nx r (x # xs) q q'"
  using assms by (simp add: drained_def advance_skip)

lemma skips_upcoming:
  "order_inv q \<Longrightarrow> upcoming q = xs \<Longrightarrow> \<exists>q'. drained nx r xs q q'"
proof (induction xs arbitrary: q)
  case Nil
  then show ?case using drained_Nil [of q nx r] by blast
next
  case (Cons x xs)
  obtain q1 ch where q1: "advance_loop nx q r = Some (Inr (q1, ch, r))" "order_inv q1"
    "upcoming q1 = xs" "q_current q1 = (if qi_unavailable x then q_current q else Some x)"
    "qc_playback ch = landed x" "q_repeat q1 = q_repeat q" "q_context q1 = q_context q"
    using advance_loop_pops [OF Cons.prems, of nx r] by blast
  obtain q' where "drained nx r xs q1 q'" using Cons.IH [OF q1(2,3)] by blast
  then show ?case using drained_Cons [OF q1(1,5,4,6,7)] by blast
qed

lemma skips_play_out:
  assumes "order_inv q" and "q_repeat q \<noteq> RepeatAll"
  shows "\<exists>q'. skips nx (length (upcoming q) + 1) q r =
      Some (map landed (upcoming q) @
        [if last_available (q_current q) (upcoming q) = None then Empty else EndOfQueue], q') \<and>
    q_current q' = None \<and> upcoming q' = []"
proof -
  obtain q1 where "drained nx r (upcoming q) q q1"
    using skips_upcoming [OF assms(1) refl, of nx r] by blast
  then have q1: "skips nx (length (upcoming q) + m) q r = after (map landed (upcoming q)) (skips nx m q1 r)"
    "upcoming q1 = []" "order_inv q1" "q_current q1 = last_available (q_current q) (upcoming q)"
    "q_repeat q1 = q_repeat q" for m
    by (simp_all add: drained_def)
  have "skips nx 1 q1 r = Some ([if q_current q1 = None then Empty else EndOfQueue],
      q1\<lparr>q_current := None\<rparr>)"
    using q1(2,3,5) assms(2) advance_loop_ends [of q1 nx r] by (simp add: advance_skip change_def)
  then have "skips nx (length (upcoming q) + 1) q r = Some (map landed (upcoming q) @
      [if q_current q1 = None then Empty else EndOfQueue], q1\<lparr>q_current := None\<rparr>)"
    unfolding q1(1) by simp
  then show ?thesis using q1(2,4) by (intro exI [of _ "q1\<lparr>q_current := None\<rparr>"]) simp
qed

section \<open>Which calls keep the identifiers distinct\<close>

lemma distinct_uids_remove_context:
  fixes i :: nat
  shows "uids_distinct q \<Longrightarrow>
   uids_distinct (retain_shuffle u (q\<lparr>q_context := remove_nth i (q_context q), q_context_pos := p\<rparr>))"
proof -
  assume d: "uids_distinct q"
  then have "distinct (map qi_uid (remove_nth i (q_context q)))"
    by (simp add: uids_distinct_def map_remove_nth distinct_remove_nth)
  moreover have "qi_uid ` set (remove_nth i (q_context q)) \<subseteq> qi_uid ` set (q_context q)"
    using set_remove_nth_subset by (rule image_mono)
  ultimately show ?thesis
    using d by (auto simp: uids_distinct_def retain_shuffle_def)
qed

lemma push_context_distinct:
  assumes "order_inv q"
  shows "uids_distinct (push_context src ts q)"
proof -
  have "\<forall>i\<in>set (q_context q) \<union> set (q_play_next q). qi_uid i < q_next_uid q"
    using assms by (auto simp: order_inv_def queue_inv_def item_uids_def)
  moreover have "\<forall>j\<in>set (mk_items (q_next_uid q) src ts). q_next_uid q \<le> qi_uid j"
    using mk_items_uid by blast
  ultimately have "\<forall>i\<in>set (q_context q) \<union> set (q_play_next q). \<forall>j\<in>set (mk_items (q_next_uid q) src ts). qi_uid i \<noteq> qi_uid j"
    by (metis leD)
  moreover have "distinct (map qi_uid (mk_items (q_next_uid q) src ts))"
    by (simp add: map_uid_mk_items)
  ultimately show ?thesis
    using assms by (fastforce simp: order_inv_def uids_distinct_def push_context_eq)
qed

lemma uids_distinct_pos [simp]: "uids_distinct (q\<lparr>q_context_pos := p\<rparr>) = uids_distinct q"
  by (rule uids_distinct_cong) simp_all

lemma uids_distinct_history [simp]: "uids_distinct (q\<lparr>q_history := h\<rparr>) = uids_distinct q"
  by (rule uids_distinct_cong) simp_all

lemma uids_distinct_current [simp]: "uids_distinct (q\<lparr>q_current := c\<rparr>) = uids_distinct q"
  by (rule uids_distinct_cong) simp_all

lemma cleared_distinct: "uids_distinct (cleared m q)"
  by (simp add: uids_distinct_def cleared_def)

lemma replace_context_distinct: "queue_inv q \<Longrightarrow> uids_distinct (fst (replace_context ts q))"
  using push_context_distinct [of "cleared HostDriven q" OriginContext ts]
  by (simp add: replace_context_def Let_def order_inv_def cleared_inv cleared_distinct split: list.split)

lemma replace_context_at_distinct: "queue_inv q \<Longrightarrow> uids_distinct (fst (replace_context_at ts c q))"
  using replace_context_distinct [of q ts]
  by (auto simp: replace_context_at_def Let_def split: prod.split)


lemma shuffle_uids_less:
  "queue_inv q \<Longrightarrow> q_shuffle_order q = Some s \<Longrightarrow> u \<in> set s \<Longrightarrow> u < q_next_uid q"
  by (fastforce simp: queue_inv_def shuffle_ok_def item_uids_def)

lemma extend_shuffle_distinct:
  assumes "uids_distinct q" and "\<And>s. q_shuffle_order q = Some s \<Longrightarrow> distinct (s @ us)"
  shows "uids_distinct (q\<lparr>q_shuffle_order := map_option (\<lambda>s. s @ us) (q_shuffle_order q)\<rparr>)"
  using assms by (cases "q_shuffle_order q") (simp_all add: uids_distinct_def)

lemma push_context_extended_distinct:
  assumes inv: "order_inv q"
  shows "uids_distinct ((push_context src ts q)\<lparr>q_shuffle_order :=
    map_option (\<lambda>s. s @ [q_next_uid q..<q_next_uid q + length ts]) (q_shuffle_order (push_context src ts q))\<rparr>)"
proof (rule extend_shuffle_distinct [OF push_context_distinct [OF inv]])
  fix s assume "q_shuffle_order (push_context src ts q) = Some s"
  then have s: "q_shuffle_order q = Some s" by (simp add: push_context_eq)
  then have "\<forall>u\<in>set s. u < q_next_uid q" and "distinct s"
    using inv shuffle_uids_less by (auto simp: order_inv_def uids_distinct_def)
  then show "distinct (s @ [q_next_uid q..<q_next_uid q + length ts])"
    unfolding distinct_append set_upt by auto
qed

lemma add_context_distinct: "order_inv q \<Longrightarrow> uids_distinct (fst (add_context ts q))"
proof -
  assume inv: "order_inv q"
  let ?q' = "push_context OriginContext ts q"
  have us: "map qi_uid (drop (length (q_context q)) (q_context ?q')) = [q_next_uid q..<q_next_uid q + length ts]"
    by (simp add: push_context_eq map_uid_mk_items)
  show ?thesis
    using inv push_context_extended_distinct [OF inv, of ts OriginContext]
    by (simp add: add_context_def Let_def order_inv_def us)
qed

lemma reveal_distinct: "order_inv q \<Longrightarrow> uids_distinct (snd (reveal t q))"
  using push_context_extended_distinct [of q "[t]" OriginRevealed]
  by (simp add: reveal_def alloc_uid_def Let_def)

lemma adopt_transfer_context_distinct: "uids_distinct (fst (adopt_transfer_context t q))"
  by (simp add: adopt_transfer_context_def alloc_uid_def Let_def cleared_def)
    (simp add: uids_distinct_def)

lemma uids_distinct_retain: "uids_distinct q \<Longrightarrow> uids_distinct (retain_shuffle u q)"
  by (auto simp: uids_distinct_def retain_shuffle_def)

lemma move_current_to_distinct: "uids_distinct q \<Longrightarrow> uids_distinct (fst (move_current_to u q))"
  by (simp add: move_current_to_def uids_distinct_retain split: option.split)

lemma advance_loop_distinct:
  assumes inv: "order_inv q" and r: "advance_loop nx q r = Some (Inr (q', ch, r'))"
  shows "order_inv q'"
proof (cases "upcoming q")
  case (Cons x xs)
  with advance_loop_pops [OF inv Cons, of nx r] r show ?thesis by auto
next
  case Nil
  show ?thesis
  proof (cases "q_repeat q = RepeatAll \<and> q_context q \<noteq> []")
    case True
    with advance_loop_wraps_pops [OF inv Nil, of nx r] r show ?thesis by auto
  next
    case False
    with advance_loop_ends [OF inv Nil, of nx r] r have "q' = q\<lparr>q_current := None\<rparr>" by auto
    with inv show ?thesis by (auto simp: order_inv_def queue_defs)
  qed
qed

lemma advance_internal_distinct:
  assumes inv: "order_inv q" and r: "advance_internal nx reason q r = Some (Inr (q', ch, r'))"
  shows "uids_distinct q'"
  using assms advance_loop_distinct [OF inv, of nx r q' ch r']
  by (auto simp: advance_internal_def order_inv_def split: bool.splits option.splits)

lemma advance_seeded_distinct:
  "order_inv q \<Longrightarrow> advance_seeded reason q = Some (Inr (q', ch)) \<Longrightarrow> uids_distinct q'"
  using advance_internal_total [of q xorshift_next reason "xorshift_from_seed 1"]
    advance_internal_distinct [of q xorshift_next reason "xorshift_from_seed 1"]
  by (auto simp: advance_seeded_def order_inv_def)

lemma uids_distinct_mset:
  assumes m: "mset (map qi_uid (q_context q' @ q_play_next q')) = mset (map qi_uid (q_context q @ q_play_next q))"
    and s: "q_shuffle_order q' = q_shuffle_order q \<or> q_shuffle_order q' = None"
    and d: "uids_distinct q"
  shows "uids_distinct q'"
proof -
  have "distinct (map qi_uid (q_context q' @ q_play_next q'))"
    using mset_eq_imp_distinct_iff [OF m] d unfolding uids_distinct_def by blast
  with s d show ?thesis unfolding uids_distinct_def by auto
qed

lemma append_play_next_distinct:
  "uids_distinct q \<Longrightarrow> qi_uid i \<notin> qi_uid ` set (q_context q) \<Longrightarrow>
   qi_uid i \<notin> qi_uid ` set (q_play_next q) \<Longrightarrow>
   uids_distinct (q\<lparr>q_play_next := q_play_next q @ [i]\<rparr>)"
  by (auto simp: uids_distinct_def)

lemma play_next_distinct: "order_inv q \<Longrightarrow> uids_distinct (fst (play_next u q))"
proof -
  assume inv: "order_inv q"
  have "uids_distinct (q\<lparr>q_play_next := remove_nth i (q_play_next q) @ [q_play_next q ! i]\<rparr>)"
    if "position (with_uid u) (q_play_next q) = Some i" for i
  proof -
    let ?q = "q\<lparr>q_play_next := remove_nth i (q_play_next q) @ [q_play_next q ! i]\<rparr>"
    have "mset (remove_nth i (q_play_next q) @ [q_play_next q ! i]) = mset (q_play_next q)"
      using mset_remove_nth [OF position_less [OF that]] by simp
    then have "mset (map qi_uid (remove_nth i (q_play_next q) @ [q_play_next q ! i])) =
        mset (map qi_uid (q_play_next q))" by (simp only: mset_map)
    then have "mset (map qi_uid (q_context ?q @ q_play_next ?q)) =
        mset (map qi_uid (q_context q @ q_play_next q))"
      unfolding map_append mset_append by simp
    then show ?thesis by (rule uids_distinct_mset) (use inv in \<open>auto simp: order_inv_def\<close>)
  qed
  moreover have "uids_distinct (fst (play_next u q))" if i: "find_context_index q u = Some i"
    and n: "position (with_uid u) (q_play_next q) = None" for i
  proof -
    have lt: "i < length (q_context q)" "qi_uid (q_context q ! i) = u"
      using find_context_index_SomeD [OF i] by auto
    have d: "distinct (map qi_uid (q_context q))" using inv by (simp add: order_inv_def uids_distinct_def)
    have "u \<notin> set (map qi_uid (remove_nth i (q_context q)))"
      using set_remove_nth_distinct [OF d, of i] lt by (simp add: map_remove_nth)
    moreover have "u \<notin> qi_uid ` set (q_play_next q)" using n by (auto simp: with_uid_def)
    ultimately show ?thesis
      using append_play_next_distinct [OF distinct_uids_remove_context [where u = u and i = i]]
        inv n i lt(2)
      by (simp add: play_next_def Let_def order_inv_def image_image del: position_None_iff)
  qed
  ultimately show ?thesis
    using inv by (auto simp: play_next_def order_inv_def Let_def split: option.splits simp del: position_None_iff)
qed

lemma play_next_track_distinct:
  assumes inv: "order_inv q" and r: "play_next_track t q = Some (Inr (q', ch))"
  shows "order_inv q'"
proof -
  let ?q = "q\<lparr>q_next_uid := Suc (q_next_uid q),
    q_play_next := q_play_next q @ [mk_item (q_next_uid q) OriginPlayNext t]\<rparr>"
  have "\<forall>i\<in>set (q_context q) \<union> set (q_play_next q). qi_uid i < q_next_uid q"
    using inv by (auto simp: order_inv_def queue_inv_def item_uids_def)
  then have "uids_distinct ?q"
    using inv by (fastforce simp: order_inv_def uids_distinct_def mk_item_def)
  moreover have "queue_inv (q\<lparr>q_next_uid := Suc (q_next_uid q)\<rparr>)"
    using inv alloc_uid_inv [of q] by (simp add: order_inv_def alloc_uid_def)
  then have "queue_inv ?q"
    using append_play_next_inv [of "q\<lparr>q_next_uid := Suc (q_next_uid q)\<rparr>"
        "mk_item (q_next_uid q) OriginPlayNext t"] by (simp add: mk_item_def)
  ultimately have "order_inv ?q" by (simp add: order_inv_def)
  moreover have "queue_inv q'"
    using play_next_track_total [of q t] inv r by (auto simp: order_inv_def)
  ultimately show ?thesis
    using r advance_seeded_distinct [of ?q Skip q' ch]
    by (cases "q_current q = None") (auto simp: play_next_track_def alloc_uid_def Let_def order_inv_def)
qed

lemma play_next_tracks_from_distinct:
  "order_inv q \<Longrightarrow> play_next_tracks_from ts acc q = Some (Inr (q', ch)) \<Longrightarrow> order_inv q'"
proof (induction ts arbitrary: acc q)
  case (Cons t ts)
  obtain q1 c where "play_next_track t q = Some (Inr (q1, c))"
    using play_next_track_total [of q t] Cons.prems(1) by (auto simp: order_inv_def)
  with Cons play_next_track_distinct [OF Cons.prems(1), of t q1 c] show ?case by auto
qed simp

lemma apply_tail_distinct:
  assumes inv: "uids_distinct q" and off: "\<not> shuffle_enabled q" and m: "mset tail = mset (upcoming q)"
  shows "uids_distinct (apply_tail tail q)"
proof -
  let ?k = "min (length (q_play_next q)) (length tail)"
  have n: "q_shuffle_order q = None" using off by (simp add: shuffle_enabled_def)
  have "mset (map qi_uid (q_context (apply_tail tail q) @ q_play_next (apply_tail tail q))) =
      mset (map qi_uid (take (context_start q) (q_context q))) + mset (map qi_uid (drop ?k tail)) +
      mset (map qi_uid (take ?k tail))" (is "_ = ?A + _ + _")
    by (simp add: apply_tail_def Let_def comp_def image_mset.compositionality)
  also have "\<dots> = ?A + mset (map qi_uid (take ?k tail @ drop ?k tail))"
    unfolding map_append mset_append by (simp only: ac_simps)
  also have "\<dots> = mset (map qi_uid (take (context_start q) (q_context q))) + image_mset qi_uid (mset (upcoming q))"
    by (simp only: append_take_drop_id mset_map m)
  also have "\<dots> = mset (map qi_uid (take (context_start q) (q_context q) @ drop (context_start q) (q_context q))) +
      mset (map qi_uid (q_play_next q))"
    unfolding map_append mset_append by (simp add: upcoming_def upcoming_context_plain [OF n])
  also have "\<dots> = mset (map qi_uid (q_context q @ q_play_next q))" by simp
  finally show ?thesis
    by (rule uids_distinct_mset) (use inv in \<open>simp_all add: apply_tail_def Let_def\<close>)
qed

lemma reorder_tail_distinct:
  assumes "uids_distinct q" and "\<not> shuffle_enabled q"
  shows "uids_distinct (fst (reorder_tail u f q))"
proof -
  have "mset (insert_nth k (upcoming q ! i) (remove_nth i (upcoming q))) = mset (upcoming q)"
    if "position (with_uid u) (upcoming q) = Some i" for i k
    using mset_remove_nth [OF position_less [OF that]] by (simp add: mset_insert_nth)
  with assms show ?thesis
    by (auto simp: reorder_tail_def Let_def apply_tail_distinct split: option.splits simp del: position_None_iff)
qed


lemma mark_unavailable_distinct:
  assumes inv: "order_inv q" and r: "mark_unavailable nx t q r = Some (Inr (q', ch, r'))"
  shows "uids_distinct q'"
proof -
  let ?q = "q\<lparr>q_context := map (flag_track t) (q_context q),
    q_play_next := map (flag_track t) (q_play_next q)\<rparr>"
  have "uids_distinct ?q"
    using inv by (simp add: order_inv_def uids_distinct_def comp_def image_image)
  then have "order_inv ?q" using inv flagged_inv [of q t] by (simp add: order_inv_def)
  then show ?thesis
    using r advance_internal_distinct [of ?q nx Removed r q' ch r']
    by (auto simp: mark_unavailable_def Let_def order_inv_def split: option.splits if_splits)
qed

lemma remove_play_next_distinct:
  assumes "uids_distinct q"
  shows "uids_distinct (q\<lparr>q_play_next := remove_nth i (q_play_next q)\<rparr>)"
proof -
  have "distinct (map qi_uid (remove_nth i (q_play_next q)))"
    using assms by (simp add: uids_distinct_def map_remove_nth distinct_remove_nth)
  moreover have "qi_uid ` set (remove_nth i (q_play_next q)) \<subseteq> qi_uid ` set (q_play_next q)"
    using set_remove_nth_subset by (rule image_mono)
  ultimately show ?thesis using assms by (auto simp: uids_distinct_def)
qed

lemma remove_distinct:
  assumes inv: "order_inv q" and r: "remove u q = Some (Inr (q', ch))"
  shows "uids_distinct q'"
proof -
  have "uids_distinct (q\<lparr>q_play_next := remove_nth i (q_play_next q)\<rparr>)" for i
    by (rule remove_play_next_distinct) (use inv in \<open>simp add: order_inv_def\<close>)
  then show ?thesis
    using r inv advance_seeded_distinct [OF inv]
    by (auto simp: remove_def order_inv_def distinct_uids_remove_context
        split: if_splits option.splits simp del: position_None_iff)
qed

lemma set_shuffle_distinct:
  assumes inv: "order_inv q" and r: "set_shuffle nx b q r = Some (Inr (q', ch, r'))"
  shows "uids_distinct q'"
proof -
  let ?us = "map qi_uid (drop (context_start q) (q_context q))"
  have "distinct ?us" using inv by (simp add: order_inv_def uids_distinct_def drop_map [symmetric])
  then have "distinct (fst (shuffle_in_place nx ?us r))"
    by (simp add: mset_eq_imp_distinct_iff [OF shuffle_perm])
  then show ?thesis
    using r inv by (auto simp: set_shuffle_def build_shuffle_order_cases order_inv_def uids_distinct_def
        split: if_splits prod.splits simp del: distinct_append map_append)
qed

lemma skip_back_distinct: "uids_distinct q \<Longrightarrow> uids_distinct (fst (skip_back ms q))"
  by (simp add: skip_back_def Let_def split: option.split)

lemma drop_change_SomeD:
  "drop_change res = Some (Inr (q, r)) \<Longrightarrow> \<exists>ch. res = Some (Inr (q, ch, r))"
  by (cases res rule: option.exhaust; cases "the res") (auto simp: drop_change_def)

lemma keep_rng_of_SomeD:
  "keep_rng_of r0 res = Some (Inr (q, r)) \<Longrightarrow> \<exists>ch. res = Some (Inr (q, ch))"
  by (cases res rule: option.exhaust; cases "the res") (auto simp: keep_rng_of_def)

lemma run_call_distinct:
  assumes inv: "order_inv q" and r: "run_call nx c q r = Some (Inr (q', r'))"
    and ok: "\<not> (reorders c \<and> shuffle_enabled q)"
  shows "uids_distinct q'"
proof (cases c)
  case (ReplaceContext ts)
  with r inv replace_context_distinct [of q ts] show ?thesis by (auto simp: keep_rng_def order_inv_def)
next
  case (ReplaceContextAt ts k)
  with r inv replace_context_at_distinct [of q ts k] show ?thesis by (auto simp: keep_rng_def order_inv_def)
next
  case (AddContext ts)
  with r add_context_distinct [OF inv, of ts] show ?thesis by (auto simp: keep_rng_def)
next
  case (AdoptTransfer t)
  with r adopt_transfer_context_distinct [of t q] show ?thesis by (auto simp: keep_rng_def)
next
  case (Reveal t)
  with r reveal_distinct [OF inv, of t] show ?thesis by auto
next
  case (MoveCurrentTo u)
  with r inv move_current_to_distinct [of q u] show ?thesis by (auto simp: keep_rng_def order_inv_def)
next
  case (Advance reason)
  with r advance_internal_distinct [OF inv, of nx reason r] show ?thesis
    by (auto dest: drop_change_SomeD)
next
  case (PlayNext u)
  with r play_next_distinct [OF inv, of u] show ?thesis by (auto simp: keep_rng_def)
next
  case (PlayNextTracks ts)
  with r play_next_tracks_from_distinct [OF inv, of ts change_none] show ?thesis
    by (auto simp: play_next_tracks_def order_inv_def dest: keep_rng_of_SomeD)
next
  case (Remove u)
  with r remove_distinct [OF inv, of u] show ?thesis
    by (auto dest: keep_rng_of_SomeD)
next
  case (SetShuffle b)
  with r set_shuffle_distinct [OF inv, of nx b r] show ?thesis
    by (auto dest: drop_change_SomeD)
next
  case (SetRepeat m)
  with r inv show ?thesis
    by (auto simp: keep_rng_def set_repeat_def order_inv_def uids_distinct_def
        split: if_splits simp del: distinct_append map_append)
next
  case (SkipBack ms)
  with r inv skip_back_distinct [of q ms] show ?thesis by (auto simp: keep_rng_def order_inv_def)
next
  case (MarkUnavailable t)
  with r mark_unavailable_distinct [OF inv, of nx t r] show ?thesis
    by (auto dest: drop_change_SomeD)
next
  case EnsureHostDriven
  with r inv show ?thesis
    by (auto simp: ensure_host_driven_def order_inv_def uids_distinct_def
        simp del: distinct_append map_append)
qed (use r ok inv in \<open>auto simp: keep_rng_def order_inv_def move_up_def move_down_def reorder_def
  intro!: reorder_tail_distinct\<close>)

lemma ordered_step_is_step: "ordered_step nx q q' \<Longrightarrow> queue_step nx q q'"
  by (auto simp: ordered_step_def queue_step_def)

interpretation ordered: machine "\<lambda>q. q = queue_new" "ordered_step nx" order_inv
  for nx :: "'r \<Rightarrow> u64 \<times> 'r"
proof unfold_locales
  fix s t assume inv: "order_inv s" and st: "ordered_step nx s t"
  have "queue_inv t"
    using queue.step_inv [of s nx t] inv ordered_step_is_step [OF st] by (simp add: order_inv_def)
  moreover have "uids_distinct t"
    using st run_call_distinct [OF inv, of nx] unfolding ordered_step_def by blast
  ultimately show "order_inv t" by (simp add: order_inv_def)
qed (simp add: order_inv_def queue_inv_new, simp add: uids_distinct_def queue_new_def)

section \<open>Reordering\<close>

text \<open>
  Whatever the mode, a reorder leaves the upcoming list exactly as it was shown, with the one item
  moved; the tail is only refused when the item is current or unknown, or already there.
\<close>

lemma upcoming_apply_tail:
  assumes "context_start q \<le> length (q_context q)" and "length tail = length (upcoming q)"
  shows "map qi_uid (upcoming (apply_tail tail q)) = map qi_uid tail"
proof -
  let ?k = "min (length (q_play_next q)) (length tail)"
  have "map qi_uid (upcoming (apply_tail tail q)) =
      map qi_uid (take ?k tail) @ map qi_uid (drop ?k tail)"
    using assms by (simp add: upcoming_def upcoming_context_items_def apply_tail_def Let_def
        context_start_def comp_def)
  also have "\<dots> = map qi_uid tail" by (metis append_take_drop_id map_append)
  finally show ?thesis .
qed

end
