(* ===== verification/Queue_Walk.thy ===== *)
theory Queue_Walk
  imports Queue_Order
begin

text \<open>
  \<^verbatim>\<open>Controller::apply_queue_op\<close> of \<^verbatim>\<open>crates/modplayer-core/src/controller.rs\<close>: a queue
  operation requested by the transport reducer, followed by the loop that advances past every
  unavailable item. The notifications it raises are returned in order.
\<close>

section \<open>The operation and its loop\<close>

text \<open>
  Both notices carry the title they show: the one of the track when it is queued
  (\<^verbatim>\<open>notify_track_unavailable\<close>), the one of the item when its identifier is still found
  (\<^verbatim>\<open>notify_queue_item_skipped\<close>), the empty text otherwise.
\<close>

datatype queue_notice = NoticeTrackUnavailable track_id ustring | NoticeItemSkipped nat ustring

definition notify_track_unavailable :: "play_queue \<Rightarrow> track_id \<Rightarrow> queue_notice" where
  "notify_track_unavailable q t =
     NoticeTrackUnavailable t (case track_title q t of None \<Rightarrow> [] | Some title \<Rightarrow> title)"

definition notify_queue_item_skipped :: "play_queue \<Rightarrow> nat \<Rightarrow> queue_notice" where
  "notify_queue_item_skipped q u =
     NoticeItemSkipped u
       (case queue_item_by_uid q u of None \<Rightarrow> [] | Some i \<Rightarrow> tr_title (qi_track i))"

text \<open>The \<^verbatim>\<open>match op\<close>; the generator is the controller's \<^verbatim>\<open>queue_rng\<close>.\<close>

fun perform_op ::
  "('r \<Rightarrow> u64 \<times> 'r) \<Rightarrow> queue_op \<Rightarrow> play_queue \<Rightarrow> 'r \<Rightarrow>
   (play_queue \<times> queue_change \<times> queue_notice list \<times> 'r) outcome"
where
  "perform_op nx (OpAdvance reason) q r =
     map_option (map_sum id (\<lambda>(q', ch, r'). (q', ch, [], r'))) (advance_internal nx reason q r)"
| "perform_op nx (OpSkipBack ms) q r = (case skip_back ms q of (q', ch) \<Rightarrow> Some (Inr (q', ch, [], r)))"
| "perform_op nx (OpReveal t) q r =
     (let (u, q') = reveal t q; (q'', ch) = move_current_to u q' in Some (Inr (q'', ch, [], r)))"
| "perform_op nx (OpMarkUnavailable t) q r =
     map_option (map_sum id (\<lambda>(q', ch, r'). (q', ch, [notify_track_unavailable q t], r')))
       (mark_unavailable nx t q r)"
| "perform_op nx (OpAdoptTransferContext t shuffle rep) q r =
     (let (q', ch) = adopt_transfer_context t q;
          set_rep = (\<lambda>q. case rep of None \<Rightarrow> q | Some m \<Rightarrow> fst (set_repeat m q))
      in case shuffle of
           None \<Rightarrow> Some (Inr (set_rep q', ch, [], r))
         | Some on \<Rightarrow>
             (case set_shuffle nx on q' r of
                None \<Rightarrow> None
              | Some (Inl p) \<Rightarrow> Some (Inl p)
              | Some (Inr (q'', _, r')) \<Rightarrow> Some (Inr (set_rep q'', ch, [], r'))))"

text \<open>\<^verbatim>\<open>while let PlaybackChange::Skipped(uid) = change.playback\<close>\<close>

partial_function (option) walk_skipped ::
  "('r \<Rightarrow> u64 \<times> 'r) \<Rightarrow> play_queue \<Rightarrow> queue_change \<Rightarrow> queue_notice list \<Rightarrow> 'r \<Rightarrow>
   (play_queue \<times> queue_change \<times> queue_notice list \<times> 'r) outcome"
where
  "walk_skipped nx q ch ns r =
     (case qc_playback ch of
        Skipped u \<Rightarrow>
          (case advance_internal nx Removed q r of
             None \<Rightarrow> None
           | Some (Inl p) \<Rightarrow> Some (Inl p)
           | Some (Inr (q', ch', r')) \<Rightarrow> walk_skipped nx q' ch' (ns @ [notify_queue_item_skipped q u]) r')
      | _ \<Rightarrow> Some (Inr (q, ch, ns, r)))"

declare walk_skipped.simps [code]

definition apply_queue_op ::
  "('r \<Rightarrow> u64 \<times> 'r) \<Rightarrow> queue_op \<Rightarrow> play_queue \<Rightarrow> 'r \<Rightarrow>
   (play_queue \<times> queue_change \<times> queue_notice list \<times> nat option \<times> 'r) outcome"
where
  "apply_queue_op nx op q r =
     (case perform_op nx op q r of
        None \<Rightarrow> None
      | Some (Inl p) \<Rightarrow> Some (Inl p)
      | Some (Inr (q', ch, ns, r')) \<Rightarrow>
          (case walk_skipped nx q' ch ns r' of
             None \<Rightarrow> None
           | Some (Inl p) \<Rightarrow> Some (Inl p)
           | Some (Inr (q'', ch', ns', r'')) \<Rightarrow>
               Some (Inr (q'', ch', ns',
                 map_option (\<lambda>i. tr_duration_ms (qi_track i)) (q_current q''), r''))))"

section \<open>The loop lands on the first available item\<close>

lemma advance_removed: "advance_internal nx Removed q r = advance_loop nx q r"
  by (simp add: advance_internal_def)

lemma walk_stops:
  "(\<And>u. qc_playback ch \<noteq> Skipped u) \<Longrightarrow> walk_skipped nx q ch ns r = Some (Inr (q, ch, ns, r))"
  by (subst walk_skipped.simps) (auto split: playback_change.split)

lemma walk_continues:
  "qc_playback ch = Skipped u \<Longrightarrow> advance_loop nx q r = Some (Inr (q', ch', r')) \<Longrightarrow>
   walk_skipped nx q ch ns r = walk_skipped nx q' ch' (ns @ [notify_queue_item_skipped q u]) r'"
  by (subst walk_skipped.simps) (simp add: advance_removed)

fun skipped_uids :: "queue_notice list \<Rightarrow> nat list" where
  "skipped_uids [] = []"
| "skipped_uids (NoticeItemSkipped u _ # ns) = u # skipped_uids ns"
| "skipped_uids (NoticeTrackUnavailable _ _ # ns) = skipped_uids ns"

lemma skipped_uids_append [simp]: "skipped_uids (ms @ ns) = skipped_uids ms @ skipped_uids ns"
  by (induction ms rule: skipped_uids.induct) auto

lemma skipped_uids_notify [simp]: "skipped_uids [notify_queue_item_skipped q u] = [u]"
  by (simp add: notify_queue_item_skipped_def)

lemma walk_lands:
  "order_inv q \<Longrightarrow> upcoming q = us @ x # xs \<Longrightarrow> \<forall>i\<in>set us. qi_unavailable i \<Longrightarrow>
   \<not> qi_unavailable x \<Longrightarrow> qc_playback ch = Skipped u \<Longrightarrow>
   \<exists>q' ch' ns'. walk_skipped nx q ch ns r = Some (Inr (q', ch', ns', r)) \<and>
     skipped_uids ns' = skipped_uids ns @ u # map qi_uid us \<and>
     order_inv q' \<and> q_current q' = Some x \<and> upcoming q' = xs \<and> qc_playback ch' = MoveTo (qi_uid x)"
proof (induction us arbitrary: q ch u ns)
  case Nil
  obtain q1 ch1 where q1: "advance_loop nx q r = Some (Inr (q1, ch1, r))" "order_inv q1" "upcoming q1 = xs"
    "q_current q1 = Some x" "qc_playback ch1 = MoveTo (qi_uid x)"
    using advance_loop_pops [OF Nil.prems(1), of x xs nx r] Nil.prems(2,4) by (auto simp: landed_def)
  then have "walk_skipped nx q ch ns r = Some (Inr (q1, ch1, ns @ [notify_queue_item_skipped q u], r))"
    by (simp add: walk_continues [OF Nil.prems(5) q1(1)] walk_stops)
  with q1 show ?case by simp
next
  case (Cons y us)
  have up: "upcoming q = y # us @ x # xs" using Cons.prems(2) by simp
  have y: "qi_unavailable y" using Cons.prems(3) by simp
  obtain q1 ch1 where q1: "advance_loop nx q r = Some (Inr (q1, ch1, r))" "order_inv q1"
    "upcoming q1 = us @ x # xs" "qc_playback ch1 = Skipped (qi_uid y)"
    using advance_loop_pops [OF Cons.prems(1) up, of nx r] y by (auto simp: landed_def)
  have "\<forall>i\<in>set us. qi_unavailable i" using Cons.prems(3) by simp
  from Cons.IH [OF q1(2,3) this Cons.prems(4) q1(4), of "ns @ [notify_queue_item_skipped q u]"]
  show ?case unfolding walk_continues [OF Cons.prems(5) q1(1), of ns] by simp
qed

text \<open>With nothing available upcoming the loop drains the list; it then ends, or wraps.\<close>

lemma walk_drains:
  "order_inv q \<Longrightarrow> upcoming q = us \<Longrightarrow> \<forall>i\<in>set us. qi_unavailable i \<Longrightarrow> qc_playback ch = Skipped u \<Longrightarrow>
   \<exists>q' ch' ns' u'. walk_skipped nx q ch ns r = walk_skipped nx q' ch' ns' r \<and>
     skipped_uids ns' @ [u'] = skipped_uids ns @ u # map qi_uid us \<and>
     order_inv q' \<and> upcoming q' = [] \<and> qc_playback ch' = Skipped u' \<and>
     q_current q' = q_current q \<and> q_repeat q' = q_repeat q \<and> q_context q' = q_context q"
proof (induction us arbitrary: q ch u ns)
  case Nil
  then show ?case by (intro exI [of _ q] exI [of _ ch] exI [of _ ns] exI [of _ u]) simp
next
  case (Cons y us)
  have y: "qi_unavailable y" using Cons.prems(3) by simp
  obtain q1 ch1 where q1: "advance_loop nx q r = Some (Inr (q1, ch1, r))" "order_inv q1"
    "upcoming q1 = us" "qc_playback ch1 = Skipped (qi_uid y)" and same:
    "q_current q1 = q_current q" "q_repeat q1 = q_repeat q" "q_context q1 = q_context q"
    using advance_loop_pops [OF Cons.prems(1,2), of nx r] y by (auto simp: landed_def)
  have "\<forall>i\<in>set us. qi_unavailable i" using Cons.prems(3) by simp
  from Cons.IH [OF q1(2,3) this q1(4), of "ns @ [notify_queue_item_skipped q u]"] same
  show ?case unfolding walk_continues [OF Cons.prems(4) q1(1), of ns] by simp
qed

lemma walk_ends:
  assumes inv: "order_inv q" and un: "\<forall>i\<in>set (upcoming q). qi_unavailable i"
    and sk: "qc_playback ch = Skipped u" and rep: "q_repeat q \<noteq> RepeatAll \<or> q_context q = []"
  shows "\<exists>q' ch' ns'. walk_skipped nx q ch ns r = Some (Inr (q', ch', ns', r)) \<and>
    skipped_uids ns' = skipped_uids ns @ u # map qi_uid (upcoming q) \<and>
    q_current q' = None \<and> upcoming q' = [] \<and>
    qc_playback ch' = (if q_current q = None then Empty else EndOfQueue)"
proof -
  obtain q1 ch1 ns1 u1 where d: "walk_skipped nx q ch ns r = walk_skipped nx q1 ch1 ns1 r"
    and q1: "order_inv q1" "upcoming q1 = []" "qc_playback ch1 = Skipped u1"
    "q_current q1 = q_current q" "q_repeat q1 = q_repeat q" "q_context q1 = q_context q"
    and ns1: "skipped_uids ns1 @ [u1] = skipped_uids ns @ u # map qi_uid (upcoming q)"
    using walk_drains [OF inv refl un sk, of nx ns r] by blast
  define e where "e = (if q_current q1 \<noteq> None then EndOfQueue else Empty)"
  have "advance_loop nx q1 r = Some (Inr (q1\<lparr>q_current := None\<rparr>, change False (q_current q1 \<noteq> None) e, r))"
    unfolding e_def by (rule advance_loop_ends [OF q1(1,2)]) (use rep q1(5,6) in simp)
  from walk_continues [OF q1(3) this, of ns1]
  have w: "walk_skipped nx q ch ns r = Some (Inr (q1\<lparr>q_current := None\<rparr>,
      change False (q_current q1 \<noteq> None) e, ns1 @ [notify_queue_item_skipped q1 u1], r))"
    unfolding d by (simp add: walk_stops change_def e_def)
  then show ?thesis
    using w q1(2,4) ns1 by (simp add: change_def e_def)
qed

lemma walk_wraps:
  assumes inv: "order_inv q" and un: "\<forall>i\<in>set (upcoming q). qi_unavailable i"
    and sk: "qc_playback ch = Skipped u" and rep: "q_repeat q = RepeatAll"
    and av: "\<exists>i\<in>set (q_context q). \<not> qi_unavailable i"
  shows "\<exists>q' ch' ns' r' x. walk_skipped nx q ch ns r = Some (Inr (q', ch', ns', r')) \<and> order_inv q' \<and>
    x \<in> set (q_context q) \<and> \<not> qi_unavailable x \<and> q_current q' = Some x \<and> qc_playback ch' = MoveTo (qi_uid x)"
proof -
  obtain q1 ch1 ns1 u1 where d: "walk_skipped nx q ch ns r = walk_skipped nx q1 ch1 ns1 r"
    and q1: "order_inv q1" "upcoming q1 = []" "qc_playback ch1 = Skipped u1"
    "q_repeat q1 = q_repeat q" "q_context q1 = q_context q"
    using walk_drains [OF inv refl un sk, of nx ns r] by blast
  have ne: "q_context q1 \<noteq> []" and rep1: "q_repeat q1 = RepeatAll" using av rep q1(4,5) by auto
  obtain x xs q2 ch2 r2 where q2: "advance_loop nx q1 r = Some (Inr (q2, ch2, r2))" "order_inv q2"
    "upcoming q2 = xs" "mset (x # xs) = mset (q_context q1)"
    "q_current q2 = (if qi_unavailable x then q_current q1 else Some x)" "qc_playback ch2 = landed x"
    using advance_loop_wraps_pops [OF q1(1,2) rep1 ne, of nx r] by blast
  have mem: "set (x # xs) = set (q_context q)" using q2(4) q1(5) by (metis set_mset_mset)
  note w = walk_continues [OF q1(3) q2(1), of ns1]
  show ?thesis
  proof (cases "qi_unavailable x")
    case False
    then have "walk_skipped nx q ch ns r = Some (Inr (q2, ch2, ns1 @ [notify_queue_item_skipped q1 u1], r2))"
      unfolding d w using q2(6) by (simp add: walk_stops landed_def)
    then show ?thesis using False q2 mem by (auto simp: landed_def)
  next
    case True
    then have "\<exists>i\<in>set xs. \<not> qi_unavailable i" using av mem by auto
    then obtain us y vs where xs: "xs = us @ y # vs" "\<not> qi_unavailable y" "\<forall>i\<in>set us. qi_unavailable i"
      using split_list_first_prop [of xs "\<lambda>i. \<not> qi_unavailable i"] by auto
    have "upcoming q2 = us @ y # vs" using q2(3) xs(1) by simp
    from walk_lands [OF q2(2) this xs(3,2), of ch2 "qi_uid x" nx _ r2] True q2(6)
    show ?thesis unfolding d w using mem xs(1,2) by (fastforce simp: landed_def)
  qed
qed

section \<open>The loop that never ends\<close>

definition dead :: "play_queue \<Rightarrow> bool" where
  "dead q \<longleftrightarrow> q_repeat q = RepeatAll \<and> q_context q \<noteq> [] \<and>
     (\<forall>i\<in>set (upcoming q) \<union> set (q_context q). qi_unavailable i)"

lemma dead_step:
  assumes inv: "order_inv q" and dead: "dead q"
  shows "\<exists>q' ch u r'. advance_loop nx q r = Some (Inr (q', ch, r')) \<and> order_inv q' \<and> dead q' \<and>
    qc_playback ch = Skipped u"
proof (cases "upcoming q")
  case (Cons x xs)
  then have "qi_unavailable x" using dead by (simp add: dead_def)
  then show ?thesis
    using advance_loop_pops [OF inv Cons, of nx r] dead Cons by (fastforce simp: dead_def landed_def)
next
  case Nil
  have rep: "q_repeat q = RepeatAll" "q_context q \<noteq> []" using dead by (simp_all add: dead_def)
  obtain x xs q2 ch2 r2 where q2: "advance_loop nx q r = Some (Inr (q2, ch2, r2))" "order_inv q2"
    "upcoming q2 = xs" "mset (x # xs) = mset (q_context q)" "qc_playback ch2 = landed x"
    "q_context q2 = q_context q" "q_repeat q2 = q_repeat q"
    using advance_loop_wraps_pops [OF inv Nil rep, of nx r] by blast
  have "set (x # xs) = set (q_context q)" using q2(4) by (metis set_mset_mset)
  then have "\<forall>i\<in>set (x # xs). qi_unavailable i" using dead by (simp add: dead_def)
  with q2 dead show ?thesis by (auto simp: dead_def landed_def)
qed

lemma walk_dead_aux:
  "walk_skipped nx q ch ns r = Some y \<Longrightarrow> order_inv q \<and> dead q \<longrightarrow> (\<forall>u. qc_playback ch \<noteq> Skipped u)"
proof (induction rule: walk_skipped.raw_induct [rotated, consumes 1, case_names step])
  case (step walk nx q ch ns r y)
  show ?case
  proof (intro impI allI notI)
    fix u assume q: "order_inv q \<and> dead q" and u: "qc_playback ch = Skipped u"
    obtain q' ch' u' r' where n: "advance_loop nx q r = Some (Inr (q', ch', r'))" "order_inv q'" "dead q'"
      "qc_playback ch' = Skipped u'"
      using dead_step [of q nx r] q by blast
    have "walk nx q' ch' (ns @ [notify_queue_item_skipped q u]) r' = Some y"
      using step(2) u n(1) by (simp add: advance_removed)
    from step(1) [OF this] n show False by blast
  qed
qed

lemma walk_dead:
  assumes "order_inv q" and "dead q" and "qc_playback ch = Skipped u"
  shows "walk_skipped nx q ch ns r = None"
  using walk_dead_aux [of nx q ch ns r] assms by (cases "walk_skipped nx q ch ns r") auto

text \<open>Whether the loop returns depends on the items alone.\<close>

lemma walk_returns_iff:
  assumes inv: "order_inv q" and sk: "qc_playback ch = Skipped u"
  shows "(\<exists>q' ch' ns' r'. walk_skipped nx q ch ns r = Some (Inr (q', ch', ns', r')) \<and>
      (\<forall>v. qc_playback ch' \<noteq> Skipped v)) \<longleftrightarrow> \<not> dead q" (is "?L = _")
proof (cases "\<exists>i\<in>set (upcoming q). \<not> qi_unavailable i")
  case True
  then obtain us x xs where xs: "upcoming q = us @ x # xs" "\<not> qi_unavailable x" "\<forall>i\<in>set us. qi_unavailable i"
    using split_list_first_prop [of "upcoming q" "\<lambda>i. \<not> qi_unavailable i"] by auto
  then have "\<not> dead q" by (auto simp: dead_def)
  moreover from walk_lands [OF inv xs(1,3,2) sk, of nx ns r] have ?L
    by force
  ultimately show ?thesis by blast
next
  case False
  then have un: "\<forall>i\<in>set (upcoming q). qi_unavailable i" by blast
  show ?thesis
  proof (cases "dead q")
    case True
    with walk_dead [OF inv True sk, of nx ns r] show ?thesis by simp
  next
    case nd: False
    have ?L
    proof (cases "q_repeat q = RepeatAll \<and> q_context q \<noteq> []")
      case True
      then have "\<exists>i\<in>set (q_context q). \<not> qi_unavailable i" using nd un by (auto simp: dead_def)
      from walk_wraps [OF inv un sk _ this, of nx ns r] True show ?thesis
        by force
    next
      case False
      from walk_ends [OF inv un sk, of nx ns r] False show ?thesis
        by (force split: if_splits)
    qed
    with nd show ?thesis by blast
  qed
qed

text \<open>A skip through the controller lands on the first available upcoming item.\<close>

lemma apply_advance_lands:
  assumes inv: "order_inv q" and "upcoming q = us @ x # xs"
    and "\<forall>i\<in>set us. qi_unavailable i" and "\<not> qi_unavailable x"
  shows "\<exists>q' ch ns. apply_queue_op nx (OpAdvance Skip) q r =
      Some (Inr (q', ch, ns, Some (tr_duration_ms (qi_track x)), r)) \<and>
    skipped_uids ns = map qi_uid us \<and> q_current q' = Some x \<and> upcoming q' = xs \<and>
    qc_playback ch = MoveTo (qi_uid x)"
proof -
  show ?thesis
  proof (cases us)
    case Nil
    then obtain q1 ch1 where "advance_loop nx q r = Some (Inr (q1, ch1, r))" "upcoming q1 = xs"
      "q_current q1 = Some x" "qc_playback ch1 = MoveTo (qi_uid x)"
      using advance_loop_pops [OF inv, of x xs nx r] assms(2,4) by (auto simp: landed_def)
    with Nil show ?thesis by (simp add: apply_queue_op_def advance_skip walk_stops)
  next
    case (Cons y ys)
    have up: "upcoming q = y # ys @ x # xs" using assms(2) Cons by simp
    obtain q1 ch1 where q1: "advance_loop nx q r = Some (Inr (q1, ch1, r))" "order_inv q1"
      "upcoming q1 = ys @ x # xs" "qc_playback ch1 = Skipped (qi_uid y)"
      using advance_loop_pops [OF inv up, of nx r] assms(3) Cons by (auto simp: landed_def)
    have "\<forall>i\<in>set ys. qi_unavailable i" using assms(3) Cons by simp
    from walk_lands [OF q1(2,3) this assms(4) q1(4), of nx "[]" r] Cons q1(1) show ?thesis
      by (auto simp: apply_queue_op_def advance_skip)
  qed
qed

end
