(* ===== verification/Queue_Theorems.thy ===== *)
theory Queue_Theorems
  imports Queue_Walk
begin

text \<open>
  The properties of the play queue, each with a concrete instance. The instances use a queue of
  five tracks, and the generator that always answers zero.
\<close>

section \<open>Concrete queues\<close>

definition demo_track :: "nat \<Rightarrow> track_ref" where
  "demo_track n = \<lparr>tr_id = TrackId [n], tr_title = [n], tr_artists = [], tr_artist_ids = [],
     tr_album = None, tr_album_id = None, tr_artwork_url = None, tr_duration_ms = n,
     tr_explicit = False, tr_release_date = None, tr_availability = Available\<rparr>"

definition zeros :: "unit \<Rightarrow> u64 \<times> unit" where
  "zeros r = (0, r)"

definition demo_queue :: play_queue where
  "demo_queue = fst (add_context (map demo_track [1, 2, 3, 4, 5]) queue_new)"

definition queue_of :: "(play_queue \<times> 'c) outcome \<Rightarrow> play_queue" where
  "queue_of r = (case r of Some (Inr (q, _)) \<Rightarrow> q | _ \<Rightarrow> queue_new)"

text \<open>Shuffled while the first track plays, then skipped to the next one.\<close>

definition demo_shuffled :: play_queue where
  "demo_shuffled =
     queue_of (advance_internal zeros Skip (queue_of (set_shuffle zeros True demo_queue ())) ())"

text \<open>One track queued and played, then sent to the play-next block: the context is empty.\<close>

definition demo_emptied :: play_queue where
  "demo_emptied = fst (play_next 0 (fst (add_context [demo_track 1] queue_new)))"

lemma demo_step: "ordered_step zeros queue_new demo_queue"
  unfolding ordered_step_def
  by (rule exI [of _ "AddContext (map demo_track [1, 2, 3, 4, 5])"])
    (simp add: demo_queue_def keep_rng_def)

lemma demo_emptied_steps: "(queue_step zeros)\<^sup>*\<^sup>* queue_new demo_emptied"
proof -
  have "queue_step zeros queue_new (fst (add_context [demo_track 1] queue_new))"
    unfolding queue_step_def
    by (rule exI [of _ "AddContext [demo_track 1]"]) (simp add: keep_rng_def)
  moreover have "queue_step zeros (fst (add_context [demo_track 1] queue_new)) demo_emptied"
    unfolding queue_step_def demo_emptied_def
    by (rule exI [of _ "PlayNext 0"]) (simp add: keep_rng_def)
  ultimately show ?thesis by (meson rtranclp.intros)
qed

section \<open>Every reachable queue\<close>

text \<open>
  Whatever sequence of public calls is made on a fresh queue, with any random generator, the
  queue stays well formed: the history holds at most 100 entries, every identifier in use is below
  the counter, the cursor points into the context (or is 0), the shuffle order only names context
  items, the play-next block holds exactly the items marked as play-next.
\<close>

lemma queue_reachable_invariant:
  assumes "(queue_step nx)\<^sup>*\<^sup>* queue_new q"
  shows "queue_inv q"
  using assms by (rule queue.reachable_inv [OF refl])

theorem queue_reachable_invariant_witness:
  "(queue_step zeros)\<^sup>*\<^sup>* queue_new demo_emptied \<and> queue_inv demo_emptied"
  using demo_emptied_steps queue_reachable_invariant [OF demo_emptied_steps] by blast

text \<open>
  C19. In every reachable queue every public call returns, and it returns a well-formed queue,
  with one exception: turning shuffle on over an empty context whose cursor is still at 0 slices
  past the end and panics. Such a queue is reachable: play the only track, then send it to the
  play-next block.
\<close>

theorem queue_call_outcome:
  assumes "(queue_step nx)\<^sup>*\<^sup>* queue_new q"
  shows "(slice_panics c q \<longrightarrow> run_call nx c q r = Some (Inl SliceOutOfRange)) \<and>
    (\<not> slice_panics c q \<longrightarrow> (\<exists>q' r'. run_call nx c q r = Some (Inr (q', r')) \<and> queue_inv q'))"
proof -
  have "queue_inv q" using queue.reachable_inv [OF refl assms] .
  then show ?thesis
    using run_call_ok [of q c nx r] slice_panics_cases [of c q nx r] by (auto simp: call_ok_def)
qed

theorem queue_call_outcome_witness:
  "slice_panics (SetShuffle True) demo_emptied \<and>
   run_call zeros (SetShuffle True) demo_emptied () = Some (Inl SliceOutOfRange)"
proof -
  have "slice_panics (SetShuffle True) demo_emptied" by code_simp
  then show ?thesis
    using queue_call_outcome [OF demo_emptied_steps, of "SetShuffle True" "()"] by blast
qed

text \<open>
  The identifier handed out next is never in use (not as a context, play-next or current item,
  nor in the history), and an identifier once in use is never handed out again.
\<close>

lemma queue_uids_never_reissued:
  assumes "(queue_step nx)\<^sup>*\<^sup>* queue_new q" and "(queue_step nx)\<^sup>*\<^sup>* q q'" and "u \<in> item_uids q"
  shows "q_next_uid q' \<notin> item_uids q' \<and> q_next_uid q' \<noteq> u"
proof -
  have inv: "queue_inv q" using queue.reachable_inv [OF refl assms(1)] .
  have "queue_inv q'" using queue.steps_inv [OF assms(2) inv] .
  then show ?thesis
    using queue.next_is_fresh queue.never_reissued [OF inv assms(3,2)] by blast
qed

theorem queue_uids_never_reissued_witness:
  "0 \<in> item_uids demo_emptied \<and> q_next_uid demo_emptied \<notin> item_uids demo_emptied"
proof -
  have "0 \<in> item_uids demo_emptied" by code_simp
  then show ?thesis
    using queue_uids_never_reissued [OF demo_emptied_steps rtranclp.rtrancl_refl] by blast
qed

section \<open>The order of playback\<close>

text \<open>
  C1. Refinement: in every queue reached without reordering or moving an item while shuffle is on
  (such a call can duplicate items, see \<open>shuffled_reorder_duplicates\<close>), an advance, by a skip or, unless
  repeat-one restarts the current item, at the end of a track, takes exactly the head of the upcoming
  list shown to the user: the rest stays upcoming in the same order, the head becomes current and is
  reported as the item to move to, and an unavailable head is reported as skipped and leaves the
  current item alone.
\<close>

theorem advance_takes_head:
  assumes "(ordered_step nx)\<^sup>*\<^sup>* queue_new q" and "upcoming q = x # xs" and "q_repeat q \<noteq> RepeatOne \<or> reason = Skip"
  shows "\<exists>q' ch. advance_internal nx reason q r = Some (Inr (q', ch, r)) \<and> upcoming q' = xs \<and>
    q_current q' = (if qi_unavailable x then q_current q else Some x) \<and>
    qc_playback ch = (if qi_unavailable x then Skipped (qi_uid x) else MoveTo (qi_uid x))"
proof -
  have "order_inv q" using ordered.reachable_inv [OF refl assms(1)] .
  from advance_loop_pops [OF this assms(2), of nx r] have
    "\<exists>q' ch. advance_loop nx q r = Some (Inr (q', ch, r)) \<and> upcoming q' = xs \<and>
      q_current q' = (if qi_unavailable x then q_current q else Some x) \<and> qc_playback ch = landed x"
    by blast
  moreover have "advance_internal nx reason q r = advance_loop nx q r"
    using assms(3) by (auto simp: advance_internal_def)
  ultimately show ?thesis by (simp add: landed_def)
qed

theorem advance_takes_head_witness:
  "\<exists>q' ch. advance_internal zeros Skip demo_queue () = Some (Inr (q', ch, ())) \<and>
     map qi_uid (upcoming q') = [2, 3, 4] \<and> qc_playback ch = MoveTo 1"
proof -
  have r: "(ordered_step zeros)\<^sup>*\<^sup>* queue_new demo_queue" using demo_step by blast
  have u: "upcoming demo_queue = hd (upcoming demo_queue) # tl (upcoming demo_queue)"
    "qi_uid (hd (upcoming demo_queue)) = 1" "\<not> qi_unavailable (hd (upcoming demo_queue))"
    "map qi_uid (tl (upcoming demo_queue)) = [2, 3, 4]"
    by code_simp+
  from advance_takes_head [OF r u(1), of Skip "()"] u show ?thesis by auto
qed

text \<open>
  C26. Liveness: in every queue reached without reordering or moving an item while shuffle is on, with
  repeat off or on one, skipping through the queue visits every upcoming item once, in the order shown, reports the unavailable ones as skipped, and one more skip reports the
  end of the queue (or that it was empty, when nothing was ever current); nothing is current then.
\<close>

theorem queue_plays_out:
  assumes "(ordered_step nx)\<^sup>*\<^sup>* queue_new q" and "q_repeat q \<noteq> RepeatAll"
  shows "\<exists>q'. skips nx (length (upcoming q) + 1) q r =
      Some (map landed (upcoming q) @
        [if last_available (q_current q) (upcoming q) = None then Empty else EndOfQueue], q') \<and>
    q_current q' = None \<and> upcoming q' = []"
  using skips_play_out [OF ordered.reachable_inv [OF refl assms(1)] assms(2)] .

theorem queue_plays_out_witness:
  "map_option fst (skips zeros 5 demo_queue ()) =
     Some [MoveTo 1, MoveTo 2, MoveTo 3, MoveTo 4, EndOfQueue]"
proof -
  have r: "(ordered_step zeros)\<^sup>*\<^sup>* queue_new demo_queue" using demo_step by blast
  have v: "q_repeat demo_queue \<noteq> RepeatAll" "length (upcoming demo_queue) + 1 = 5"
    "map landed (upcoming demo_queue) @
      [if last_available (q_current demo_queue) (upcoming demo_queue) = None then Empty else EndOfQueue]
     = [MoveTo 1, MoveTo 2, MoveTo 3, MoveTo 4, EndOfQueue]"
    by code_simp+
  from queue_plays_out [OF r v(1), of "()"] show ?thesis unfolding v(2,3) by auto
qed

section \<open>Reordering, shuffling, prefetching, skipping back\<close>

lemma context_start_le:
  "queue_inv q \<Longrightarrow> q_context q \<noteq> [] \<or> q_context_pos q = None \<Longrightarrow> context_start q \<le> length (q_context q)"
  by (auto simp: queue_inv_def pos_ok_def context_start_def Suc_le_eq split: option.split)

lemma map_insert_remove:
  "map f (insert_nth k x (remove_nth i xs)) = insert_nth k (f x) (remove_nth i (map f xs))"
  by (simp add: insert_nth_def remove_nth_def take_map drop_map)

lemma length_insert_remove:
  "i < length xs \<Longrightarrow> length (insert_nth k (xs ! i) (remove_nth i xs)) = length xs"
  using mset_insert_nth [of k "xs ! i" "remove_nth i xs"] mset_remove_nth [of i xs]
  by (metis size_mset)

text \<open>
  A drag in the upcoming list does what it shows: \<open>reorder u k\<close> of a queue with a context takes
  the item out of its place and puts it at the given place of the effective order (the current
  item is place 0, and a place past the end is the last one); nothing else changes its order.
\<close>

lemma reorder_moves_one:
  assumes "(queue_step nx)\<^sup>*\<^sup>* queue_new q" and "\<not> current_is q u"
    and "position (with_uid u) (upcoming q) = Some i" and "q_context q \<noteq> [] \<or> q_context_pos q = None"
  shows "map qi_uid (upcoming (fst (reorder u k q))) =
    insert_nth (min (k - 1) (length (upcoming q) - 1)) u (remove_nth i (map qi_uid (upcoming q)))"
proof -
  let ?t = "min (k - 1) (length (upcoming q) - 1)"
  let ?tail = "insert_nth ?t (upcoming q ! i) (remove_nth i (upcoming q))"
  have i: "i < length (upcoming q)" "qi_uid (upcoming q ! i) = u"
    using position_SomeD [OF assms(3)] by (auto simp: with_uid_def)
  have "queue_inv q" using queue.reachable_inv [OF refl assms(1)] .
  then have "map qi_uid (upcoming (apply_tail ?tail q)) = map qi_uid ?tail"
    using context_start_le assms(4) length_insert_remove [OF i(1)] by (intro upcoming_apply_tail) auto
  moreover have "insert_nth i u (remove_nth i (map qi_uid (upcoming q))) = map qi_uid (upcoming q)"
    using insert_remove_nth [of i "map qi_uid (upcoming q)"] i by simp
  ultimately show ?thesis
    using assms(2,3) i
    by (auto simp: reorder_def reorder_tail_def Let_def map_insert_remove simp del: position_None_iff)
qed

theorem reorder_moves_one_witness:
  "map qi_uid (upcoming (fst (reorder 4 1 demo_queue))) = [4, 1, 2, 3]"
proof -
  have r: "(queue_step zeros)\<^sup>*\<^sup>* queue_new demo_queue"
    using ordered_step_is_step [OF demo_step] by blast
  have v: "\<not> current_is demo_queue 4" "position (with_uid 4) (upcoming demo_queue) = Some 3"
    "q_context demo_queue \<noteq> [] \<or> q_context_pos demo_queue = None"
    "insert_nth (min (1 - 1) (length (upcoming demo_queue) - 1)) 4
       (remove_nth 3 (map qi_uid (upcoming demo_queue))) = [4, 1, 2, 3]"
    by code_simp+
  show ?thesis using reorder_moves_one [OF r v(1-3), of 1] unfolding v(4) .
qed

text \<open>
  Turning shuffle on permutes what is upcoming and nothing else: no item is lost, repeated or
  added, the play-next block keeps its place and order, the current item and the context stay.
\<close>

lemma shuffle_on_permutes_upcoming:
  assumes "(ordered_step nx)\<^sup>*\<^sup>* queue_new q" and "set_shuffle nx True q r = Some (Inr (q', ch, r'))"
    and "\<not> shuffle_enabled q"
  shows "mset (upcoming q') = mset (upcoming q) \<and> q_play_next q' = q_play_next q \<and>
    q_current q' = q_current q \<and> q_context q' = q_context q \<and> shuffle_enabled q'"
proof -
  let ?rest = "drop (context_start q) (q_context q)"
  let ?s = "fst (shuffle_in_place nx (map qi_uid ?rest) r)"
  have inv: "order_inv q" using ordered.reachable_inv [OF refl assms(1)] .
  have off: "q_shuffle_order q = None" using assms(3) by (simp add: shuffle_enabled_def)
  have q': "q' = q\<lparr>q_shuffle_order := Some ?s\<rparr>"
    using assms(2) off by (auto simp: set_shuffle_def shuffle_enabled_def build_shuffle_order_cases
        split: if_splits prod.splits)
  have d: "distinct (map qi_uid (q_context q))" using inv by (simp add: order_inv_def uids_distinct_def)
  have look: "find (with_uid u) (q_context q) = find (with_uid u) ?rest" if "u \<in> set ?s" for u
  proof -
    have "u \<in> set (map qi_uid ?rest)" using that set_shuffle_in_place [of nx "map qi_uid ?rest" r] by blast
    then obtain x where x: "x \<in> set ?rest" "qi_uid x = u" by auto
    have "find (with_uid u) (q_context q) = Some x"
      using find_uid [OF d in_set_dropD [OF x(1)]] x(2) by simp
    moreover have "distinct (map qi_uid ?rest)" using d by (simp add: drop_map [symmetric])
    then have "find (with_uid u) ?rest = Some x" using find_uid [OF _ x(1)] x(2) by simp
    ultimately show ?thesis by simp
  qed
  have "List.map_filter (\<lambda>u. find (with_uid u) (q_context q)) ?s =
      List.map_filter (\<lambda>u. find (with_uid u) ?rest) ?s"
    using look by (simp add: List.map_filter_def cong: filter_cong map_cong)
  moreover have "mset (List.map_filter (\<lambda>u. find (with_uid u) ?rest) ?s) = mset ?rest"
    by (rule map_filter_find_uids) (use d in \<open>simp_all add: drop_map [symmetric] shuffle_perm\<close>)
  ultimately show ?thesis
    using off by (simp add: q' upcoming_def upcoming_context_items_def shuffle_enabled_def)
qed

theorem shuffle_on_permutes_upcoming_witness:
  "\<exists>q' ch. set_shuffle zeros True demo_queue () = Some (Inr (q', ch, ())) \<and>
     map qi_uid (upcoming q') = [2, 3, 4, 1] \<and> mset (upcoming q') = mset (upcoming demo_queue)"
proof -
  have r: "(ordered_step zeros)\<^sup>*\<^sup>* queue_new demo_queue" using demo_step by blast
  define q' where "q' = queue_of (set_shuffle zeros True demo_queue ())"
  have v: "set_shuffle zeros True demo_queue () = Some (Inr (q', change True False NoChange, ()))"
    "\<not> shuffle_enabled demo_queue" "map qi_uid (upcoming q') = [2, 3, 4, 1]"
    unfolding q'_def by code_simp+
  have "mset (upcoming q') = mset (upcoming demo_queue)"
    using shuffle_on_permutes_upcoming [OF r v(1,2)] by simp
  with v(1,3) show ?thesis by (intro exI [of _ q'] exI [of _ "change True False NoChange"]) simp
qed

text \<open>
  The prefetch target is the track an advance moves to: the first upcoming item, nothing when
  the queue is about to end, and without shuffle the first context item when repeat-all is about
  to wrap.
\<close>

lemma prefetch_is_next:
  assumes "(ordered_step nx)\<^sup>*\<^sup>* queue_new q" and "upcoming q \<noteq> [] \<or> \<not> shuffle_enabled q \<or> q_repeat q \<noteq> RepeatAll"
    and "advance_internal nx Skip q r = Some (Inr (q', ch, r'))"
  shows "next_prefetch_target q = None \<and> qc_playback ch \<in> {EndOfQueue, Empty} \<or>
    (\<exists>x\<in>set (q_play_next q @ q_context q). next_prefetch_target q = Some (tr_id (qi_track x)) \<and>
       qc_playback ch = (if qi_unavailable x then Skipped (qi_uid x) else MoveTo (qi_uid x)))"
proof -
  have inv: "order_inv q" using ordered.reachable_inv [OF refl assms(1)] .
  have d: "distinct (map qi_uid (q_context q))" using inv by (simp add: order_inv_def uids_distinct_def)
  have adv: "advance_loop nx q r = Some (Inr (q', ch, r'))" using assms(3) by (simp add: advance_skip)
  show ?thesis
  proof (cases "upcoming q")
    case (Cons x xs)
    have "next_prefetch_target q = Some (tr_id (qi_track x))"
    proof (cases "q_play_next q")
      case Nil
      then have uc: "upcoming_context_items q = x # xs" using Cons by (simp add: upcoming_def)
      then have "x \<in> set (q_context q)" using upcoming_context_items_subset [of q] by auto
      from find_uid [OF d this] show ?thesis
        using Nil next_context_uid_hd [OF inv] uc by (simp add: next_prefetch_target_def)
    qed (use Cons in \<open>simp add: next_prefetch_target_def upcoming_def\<close>)
    moreover have "x \<in> set (q_play_next q @ q_context q)" using upcoming_subset [of q] Cons by auto
    ultimately show ?thesis
      using advance_loop_pops [OF inv Cons, of nx r] adv unfolding landed_def by force
  next
    case Nil
    then have n: "q_play_next q = []" "next_context_uid q = None"
      using next_context_uid_hd [OF inv] by (simp_all add: upcoming_def)
    show ?thesis
    proof (cases "q_repeat q = RepeatAll \<and> q_context q \<noteq> []")
      case True
      then have sh: "\<not> shuffle_enabled q" using assms(2) Nil by blast
      obtain y ys where y: "q_context q = y # ys" using True by (cases "q_context q") auto
      have "next_prefetch_target q = Some (tr_id (qi_track y))"
        using True n y by (simp add: next_prefetch_target_def)
      moreover have "qc_playback ch = landed y"
        using True sh adv y advance_loop_wraps_pops [OF inv Nil, of nx r] by auto
      ultimately show ?thesis using y by (simp add: landed_def)
    next
      case False
      then show ?thesis
        using n adv advance_loop_ends [OF inv Nil, of nx r]
        by (auto simp: next_prefetch_target_def change_def split: if_splits)
    qed
  qed
qed

theorem prefetch_is_next_witness:
  "next_prefetch_target demo_queue = Some (TrackId [2])"
proof -
  have r: "(ordered_step zeros)\<^sup>*\<^sup>* queue_new demo_queue" using demo_step by blast
  have u: "upcoming demo_queue \<noteq> [] \<or> \<not> shuffle_enabled demo_queue \<or> q_repeat demo_queue \<noteq> RepeatAll"
    by code_simp
  define q' where "q' = queue_of (advance_internal zeros Skip demo_queue ())"
  have a: "advance_internal zeros Skip demo_queue () = Some (Inr (q', change False True (MoveTo 1), ()))"
    unfolding q'_def by code_simp
  have "\<forall>x\<in>set (q_play_next demo_queue @ q_context demo_queue).
      qi_uid x = 1 \<longrightarrow> tr_id (qi_track x) = TrackId [2]"
    by code_simp
  with prefetch_is_next [OF r u a] show ?thesis by (auto simp: change_def split: if_splits)
qed

text \<open>
  Skipping back within the first three seconds returns to the previously played item when it is
  still in the context, and drops the abandoned one from the history.
\<close>

lemma skip_back_returns_to_previous:
  assumes "queue_inv q" and "position_ms \<le> 3000" and "q_history q = h @ [p, qi_uid c]"
    and "q_current q = Some c" and "find_context_index q p = Some i"
  shows "\<exists>q' ch. skip_back position_ms q = (q', ch) \<and> qc_playback ch = MoveTo p \<and>
    q_current q' = Some (q_context q ! i) \<and> qi_uid (q_context q ! i) = p \<and>
    q_context_pos q' = Some i \<and> q_history q' = h @ [p]"
proof -
  have "length (h @ [p]) \<le> HISTORY_LIMIT" using assms(1,3) by (simp add: queue_inv_def)
  then have t: "trim_history (h @ [p]) = h @ [p]" by (cases "h @ [p]") auto
  have i: "find_context_index (q\<lparr>q_history := h\<rparr>) p = Some i"
    using assms(5) by (simp add: find_context_index_def)
  show ?thesis
    using assms(2-4) i find_context_index_SomeD [OF assms(5)] t
    by (simp add: skip_back_def current_is_def Let_def butlast_append change_def push_history_def)
qed

theorem skip_back_returns_to_previous_witness:
  "\<exists>q' ch. skip_back 0 (queue_of (advance_internal zeros Skip demo_queue ())) = (q', ch) \<and>
     qc_playback ch = MoveTo 0 \<and> q_history q' = [0]"
proof -
  define q where "q = queue_of (advance_internal zeros Skip demo_queue ())"
  define c where "c = q_context q ! 1"
  have v: "queue_inv q" "(0::nat) \<le> 3000" "q_history q = [] @ [0, qi_uid c]" "q_current q = Some c"
    "find_context_index q 0 = Some 0"
    unfolding q_def c_def by code_simp+
  show ?thesis using skip_back_returns_to_previous [OF v] unfolding q_def by auto
qed

lemma xor_zeroD: "(x :: 'a::len word) XOR y = 0 \<Longrightarrow> x = y"
proof (rule bit_eqI)
  fix n assume "x XOR y = 0"
  then have "\<not> bit (x XOR y) n" by simp
  then show "bit x n = bit y n" by (simp add: bit_xor_iff)
qed

lemma xor_shl_zero:
  assumes "(x :: 'a::len word) XOR push_bit m x = 0" and "0 < m"
  shows "x = 0"
proof -
  have eq: "x = push_bit m x" using assms(1) by (rule xor_zeroD)
  have "\<not> bit x k" for k
  proof (induction k rule: less_induct)
    case (less k)
    have "bit x k \<longleftrightarrow> bit (push_bit m x) k" using eq by simp
    also have "\<dots> \<longleftrightarrow> m \<le> k \<and> bit x (k - m) \<and> k < LENGTH('a)" by (auto simp: bit_push_bit_iff)
    finally show ?case using less [of "k - m"] assms(2) by auto
  qed
  then show "x = 0" by (simp add: bit_eq_iff)
qed

lemma xor_shr_zero:
  assumes "(x :: 'a::len word) XOR drop_bit m x = 0" and "0 < m"
  shows "x = 0"
proof -
  have eq: "x = drop_bit m x" using assms(1) by (rule xor_zeroD)
  have "\<not> bit x j" for j
  proof (induction j rule: measure_induct_rule [where f = "\<lambda>j. LENGTH('a) - j"])
    case (less j)
    have "bit x j \<longleftrightarrow> bit x (m + j)" using eq by (metis bit_drop_bit_eq comp_apply)
    moreover have "\<not> bit x (m + j)" if "j < LENGTH('a)" using less [of "m + j"] that assms(2) by simp
    ultimately show ?case using bit_imp_le_length by blast
  qed
  then show "x = 0" by (simp add: bit_eq_iff)
qed

fun draws :: "nat \<Rightarrow> u64 \<Rightarrow> u64 list" where
  "draws 0 s = []"
| "draws (Suc n) s = (let (v, s') = xorshift_next s in v # draws n s')"

lemma xorshift_nonzero: "s \<noteq> 0 \<Longrightarrow> fst (xorshift_next s) \<noteq> 0 \<and> snd (xorshift_next s) \<noteq> 0"
  using xor_shl_zero [of s 13] xor_shr_zero [of "s XOR push_bit 13 s" 7]
    xor_shl_zero [of "(s XOR push_bit 13 s) XOR drop_bit 7 (s XOR push_bit 13 s)" 17]
  unfolding xorshift_next_def Let_def by auto

lemma draws_nonzero: "s \<noteq> 0 \<Longrightarrow> 0 \<notin> set (draws n s)"
proof (induction n arbitrary: s)
  case (Suc n)
  then show ?case
    using xorshift_nonzero [OF Suc.prems] by (auto simp: case_prod_beta Let_def)
qed simp

text \<open>
  The random generator of the shuffle never gets stuck at zero: its seeding never gives zero, and
  all the numbers drawn from any seed are nonzero, however many are drawn.
\<close>

lemma xorshift_never_sticks: "0 \<notin> set (draws n (xorshift_from_seed seed))"
  by (rule draws_nonzero) (simp add: xorshift_from_seed_def)

section \<open>The controller's loop over unavailable items\<close>

definition demo_dead :: play_queue where
  "demo_dead = fst (set_repeat RepeatAll
     (demo_queue\<lparr>q_context := map (\<lambda>i. i\<lparr>qi_unavailable := True\<rparr>) (q_context demo_queue)\<rparr>))"

lemma advance_skipped_dead:
  assumes inv: "order_inv q" and a: "advance_loop nx q r = Some (Inr (q', ch, r'))"
    and sk: "qc_playback ch = Skipped u"
  shows "dead q' \<longleftrightarrow> dead q"
proof (cases "upcoming q")
  case (Cons x xs)
  from advance_loop_pops [OF inv Cons, of nx r] a
  have q': "upcoming q' = xs" "q_context q' = q_context q" "q_repeat q' = q_repeat q"
    "qc_playback ch = landed x" by auto
  then have "qi_unavailable x" using sk by (auto simp: landed_def split: if_splits)
  with q' Cons show ?thesis by (auto simp: dead_def)
next
  case Nil
  show ?thesis
  proof (cases "q_repeat q = RepeatAll \<and> q_context q \<noteq> []")
    case True
    with advance_loop_wraps_pops [OF inv Nil, of nx r] a
    obtain x xs where q': "upcoming q' = xs" "mset (x # xs) = mset (q_context q)"
      "q_context q' = q_context q" "q_repeat q' = q_repeat q" by auto
    have "set (x # xs) = set (q_context q)" using q'(2) by (metis set_mset_mset)
    with q' Nil show ?thesis by (auto simp: dead_def)
  next
    case False
    with advance_loop_ends [OF inv Nil, of nx r] a sk show ?thesis
      by (auto simp: change_def split: if_splits)
  qed
qed

lemma advance_dead_skips:
  "order_inv q \<Longrightarrow> dead q \<Longrightarrow> advance_internal nx reason q r = Some (Inr (q', ch, r')) \<Longrightarrow>
   \<exists>u. qc_playback ch = Skipped u"
  using dead_step [of q nx r] by (auto simp: advance_internal_def dead_def)

lemma advance_internal_cases:
  "advance_internal nx reason q r = advance_loop nx q r \<or>
   (\<exists>q'. advance_internal nx reason q r = Some (Inr (q', change False False Restart, r)))"
  unfolding advance_internal_def by (auto split: option.split bool.split)

text \<open>
  C24. Termination: in every queue reached without reordering or moving an item while shuffle is on,
  the controller's loop over skipped items returns, with a result that is not another skip, exactly
  when the queue is not dead. A queue is dead when it repeats all, has a non-empty context, and every
  context and upcoming item is unavailable: there the loop wraps for ever. (With items that such a
  reordering duplicated the loop can run for ever also without repeat-all.)
\<close>

theorem controller_advance_returns_iff:
  assumes "(ordered_step nx)\<^sup>*\<^sup>* queue_new q"
  shows "(\<exists>q' ch ns len r'. apply_queue_op nx (OpAdvance reason) q r = Some (Inr (q', ch, ns, len, r')) \<and>
      (\<forall>u. qc_playback ch \<noteq> Skipped u)) \<longleftrightarrow>
    \<not> (q_repeat q = RepeatAll \<and> q_context q \<noteq> [] \<and>
       (\<forall>i\<in>set (upcoming q) \<union> set (q_context q). qi_unavailable i))"
proof -
  have inv: "order_inv q" using ordered.reachable_inv [OF refl assms] .
  obtain q1 ch1 r1 where a: "advance_internal nx reason q r = Some (Inr (q1, ch1, r1))"
    using advance_internal_total [of q nx reason r] inv by (auto simp: order_inv_def)
  have inv1: "order_inv q1"
    using advance_internal_distinct [OF inv a] advance_internal_total [of q nx reason r] inv a
    by (auto simp: order_inv_def)
  have op: "perform_op nx (OpAdvance reason) q r = Some (Inr (q1, ch1, [], r1))" using a by simp
  have "(\<exists>q' ch ns len r'. apply_queue_op nx (OpAdvance reason) q r = Some (Inr (q', ch, ns, len, r')) \<and>
      (\<forall>u. qc_playback ch \<noteq> Skipped u)) \<longleftrightarrow>
    (\<exists>q' ch ns r'. walk_skipped nx q1 ch1 [] r1 = Some (Inr (q', ch, ns, r')) \<and>
      (\<forall>u. qc_playback ch \<noteq> Skipped u))" (is "?L \<longleftrightarrow> ?W")
    unfolding apply_queue_op_def op by (auto split: option.splits sum.splits)
  also have "?W \<longleftrightarrow> \<not> dead q"
  proof (cases "\<exists>u. qc_playback ch1 = Skipped u")
    case True
    then obtain u where u: "qc_playback ch1 = Skipped u" by blast
    then have "advance_internal nx reason q r = advance_loop nx q r"
      using advance_internal_cases [of nx reason q r] a by (auto simp: change_def)
    then show ?thesis
      using walk_returns_iff [OF inv1 u, of nx "[]" r1] advance_skipped_dead [OF inv _ u, of nx r q1 r1] a
      by auto
  next
    case False
    then show ?thesis using advance_dead_skips [OF inv _ a] by (auto simp: walk_stops)
  qed
  finally show ?thesis unfolding dead_def .
qed

theorem controller_advance_returns_iff_witness:
  "\<exists>q' ch ns len r'. apply_queue_op zeros (OpAdvance TrackEnd) demo_queue () = Some (Inr (q', ch, ns, len, r'))"
proof -
  have r: "(ordered_step zeros)\<^sup>*\<^sup>* queue_new demo_queue" using demo_step by blast
  have "q_repeat demo_queue \<noteq> RepeatAll" by code_simp
  then show ?thesis using controller_advance_returns_iff [OF r, of TrackEnd "()"] by blast
qed

text \<open>
  C25. In every queue reached without reordering or moving an item while shuffle is on, a skip of the
  controller lands on the first upcoming item that is available: it becomes current, what comes after
  it stays upcoming, the items passed over are the unavailable ones before it, each
  announced once and in order, and the transport learns the length of the track landed on.
\<close>

theorem controller_advance_lands:
  assumes "(ordered_step nx)\<^sup>*\<^sup>* queue_new q" and "upcoming q = us @ x # xs"
    and "\<forall>i\<in>set us. qi_unavailable i" and "\<not> qi_unavailable x"
  shows "\<exists>q' ch ns. apply_queue_op nx (OpAdvance Skip) q r =
      Some (Inr (q', ch, ns, Some (tr_duration_ms (qi_track x)), r)) \<and>
    skipped_uids ns = map qi_uid us \<and> q_current q' = Some x \<and> upcoming q' = xs \<and>
    qc_playback ch = MoveTo (qi_uid x)"
  using apply_advance_lands [OF ordered.reachable_inv [OF refl assms(1)] assms(2-4)] .

theorem controller_advance_lands_witness:
  "\<exists>q' ch ns. apply_queue_op zeros (OpAdvance Skip) demo_queue () = Some (Inr (q', ch, ns, Some 2, ())) \<and>
     map qi_uid (upcoming q') = [2, 3, 4] \<and> skipped_uids ns = []"
proof -
  have r: "(ordered_step zeros)\<^sup>*\<^sup>* queue_new demo_queue" using demo_step by blast
  define x xs where "x = hd (upcoming demo_queue)" and "xs = tl (upcoming demo_queue)"
  have v: "upcoming demo_queue = [] @ x # xs" "\<not> qi_unavailable x" "map qi_uid xs = [2, 3, 4]"
    "tr_duration_ms (qi_track x) = 2"
    unfolding x_def xs_def by code_simp+
  from controller_advance_lands [OF r v(1) _ v(2), of "()"] v(3,4) show ?thesis by auto
qed

section \<open>What the code gets wrong\<close>


lemma reorder_tail_applies:
  assumes "reorder_tail u target q = (q', ch)" and "qc_order_changed ch"
  obtains tail where "mset tail = mset (upcoming q)" "q' = apply_tail tail q"
proof -
  have n: "reorder_tail u target q \<noteq> (q', change_none)" using assms by (auto simp: change_none_def change_def)
  have "\<exists>i k. position (with_uid u) (upcoming q) = Some i \<and>
      q' = apply_tail (insert_nth k (upcoming q ! i) (remove_nth i (upcoming q))) q"
  proof (cases "position (with_uid u) (upcoming q)")
    case None
    then show ?thesis using assms n by (simp add: reorder_tail_def Let_def split: if_splits del: position_None_iff)
  next
    case (Some i)
    then show ?thesis using assms(1) n
      by (cases "target i") (simp_all add: reorder_tail_def Let_def split: if_splits, blast)
  qed
  then obtain i k where p: "position (with_uid u) (upcoming q) = Some i"
    and q: "q' = apply_tail (insert_nth k (upcoming q ! i) (remove_nth i (upcoming q))) q" by blast
  have "mset (insert_nth k (upcoming q ! i) (remove_nth i (upcoming q))) = mset (upcoming q)"
    using mset_remove_nth [OF position_less [OF p]] by (simp add: mset_insert_nth)
  then show thesis using q by (rule that)
qed

lemma apply_tail_upcoming:
  assumes "queue_inv q" and "mset tail = mset (upcoming q)"
  shows "map qi_uid (upcoming (apply_tail tail q)) = map qi_uid tail"
proof -
  have len: "length tail = length (upcoming q)" using assms(2) by (metis size_mset)
  have "context_start q \<le> length (q_context q) \<or> q_context q = []"
    using assms(1) by (cases "q_context_pos q"; cases "q_context q")
      (auto simp: queue_inv_def pos_ok_def context_start_def)
  then consider "context_start q \<le> length (q_context q)" | "q_context q = []" by blast
  then show ?thesis
  proof cases
    case 1
    then show ?thesis using len by (rule upcoming_apply_tail)
  next
    case 2
    then have "upcoming_context_items q = []" using upcoming_context_items_subset [of q] by simp
    then have "length tail = length (q_play_next q)" using len by (simp add: upcoming_def)
    then show ?thesis using 2
      by (simp add: upcoming_def upcoming_context_items_def apply_tail_def Let_def comp_def)
  qed
qed

lemma upcoming_context_uids_distinct:
  assumes "uids_distinct q"
  shows "distinct (map qi_uid (upcoming_context_items q))"
proof (cases "q_shuffle_order q")
  case None
  then show ?thesis using assms by (simp add: upcoming_context_plain uids_distinct_def drop_map [symmetric] distinct_drop)
next
  case (Some s)
  have "map qi_uid (List.map_filter (\<lambda>u. find (with_uid u) xs) s) = filter (\<lambda>u. find (with_uid u) xs \<noteq> None) s" for xs
    by (induction s) (auto simp: List.map_filter_simps with_uid_def dest: find_Some_iff [THEN iffD1] split: option.split)
  then show ?thesis using assms Some by (simp add: upcoming_context_shuffled uids_distinct_def)
qed

lemma apply_tail_uids:
  assumes "mset tail = mset (upcoming q)"
  shows "uids_distinct (apply_tail tail q) \<longleftrightarrow>
    distinct (map qi_uid (take (context_start q) (q_context q)) @ map qi_uid (upcoming q))"
proof -
  let ?k = "min (length (q_play_next q)) (length tail)" and ?old = "take (context_start q) (q_context q)"
  have "mset (map qi_uid (q_context (apply_tail tail q) @ q_play_next (apply_tail tail q))) =
      mset (map qi_uid ?old) + mset (map qi_uid (drop ?k tail)) + mset (map qi_uid (take ?k tail))"
    by (simp add: apply_tail_def Let_def comp_def image_mset.compositionality)
  also have "\<dots> = mset (map qi_uid ?old) + mset (map qi_uid (take ?k tail @ drop ?k tail))"
    unfolding map_append mset_append by (simp only: ac_simps)
  also have "\<dots> = mset (map qi_uid ?old @ map qi_uid (upcoming q))"
    by (simp only: append_take_drop_id mset_map mset_append assms)
  finally have "distinct (map qi_uid (q_context (apply_tail tail q) @ q_play_next (apply_tail tail q))) \<longleftrightarrow>
      distinct (map qi_uid ?old @ map qi_uid (upcoming q))"
    by (rule mset_eq_imp_distinct_iff)
  moreover have "q_shuffle_order (apply_tail tail q) = None" by (simp add: apply_tail_def Let_def)
  ultimately show ?thesis by (simp add: uids_distinct_def)
qed

lemma apply_tail_distinct_iff:
  assumes "uids_distinct q" and "mset tail = mset (upcoming q)"
  shows "uids_distinct (apply_tail tail q) \<longleftrightarrow>
    set (upcoming_context_items q) \<inter> set (take (context_start q) (q_context q)) = {}"
proof -
  let ?old = "take (context_start q) (q_context q)" and ?up = "upcoming_context_items q"
  have old: "set ?old \<subseteq> set (q_context q)" by (rule set_take_subset)
  have inj: "inj_on qi_uid (set (q_context q))" and disj: "qi_uid ` set (q_context q) \<inter> qi_uid ` set (q_play_next q) = {}"
    and d: "distinct (map qi_uid (q_play_next q))" "distinct (map qi_uid (q_context q))"
    using assms(1) by (simp_all add: uids_distinct_def distinct_map)
  have 1: "distinct (map qi_uid ?old)" using d(2) by (simp add: take_map [symmetric] distinct_take)
  have 2: "distinct (map qi_uid ?up)" by (rule upcoming_context_uids_distinct) (rule assms(1))
  have 3: "qi_uid ` set ?old \<inter> qi_uid ` set (q_play_next q) = {}" using disj old by blast
  have 4: "qi_uid ` set ?up \<inter> qi_uid ` set (q_play_next q) = {}"
    using disj upcoming_context_items_subset [of q] by blast
  have "qi_uid ` set ?old \<inter> qi_uid ` set ?up = qi_uid ` (set ?old \<inter> set ?up)"
    using inj_on_image_Int [OF inj old upcoming_context_items_subset] by simp
  then have 5: "qi_uid ` set ?old \<inter> qi_uid ` set ?up = {} \<longleftrightarrow> set ?up \<inter> set ?old = {}" by blast
  have "distinct (map qi_uid ?old @ map qi_uid (upcoming q)) \<longleftrightarrow> qi_uid ` set ?old \<inter> qi_uid ` set ?up = {}"
    unfolding upcoming_def map_append distinct_append set_append set_map using 1 2 3 4 d(1) by blast
  then show ?thesis unfolding apply_tail_uids [OF assms(2)] 5 .
qed

text \<open>
  Moving or reordering an upcoming item (\<^verbatim>\<open>move_up\<close>, \<^verbatim>\<open>move_down\<close> and
  \<^verbatim>\<open>reorder\<close> are the instances of \<open>reorder_tail\<close>) of a queue whose items are distinct keeps
  the items that are upcoming and turns shuffle off, and the items of the queue are distinct afterwards
  exactly when no upcoming item stands in the part of the context that counts as played. Under shuffle
  such items are common, and each of them is in the queue twice from then on.
\<close>

lemma reorder_duplicates_iff:
  assumes inv: "order_inv q" and call: "reorder_tail u target q = (q', ch)" and moved: "qc_order_changed ch"
  shows "mset (map qi_uid (upcoming q')) = mset (map qi_uid (upcoming q)) \<and> q_shuffle_order q' = None \<and>
    (uids_distinct q' \<longleftrightarrow> set (upcoming_context_items q) \<inter> set (take (context_start q) (q_context q)) = {})"
proof -
  obtain tail where t: "mset tail = mset (upcoming q)" "q' = apply_tail tail q"
    using reorder_tail_applies [OF call moved] by blast
  show ?thesis unfolding t(2) using apply_tail_upcoming [OF _ t(1)] apply_tail_distinct_iff [OF _ t(1)] inv t(1)
    by (simp add: order_inv_def apply_tail_def Let_def mset_map)
qed

lemma reorder_duplicates_iff_witness: "\<not> uids_distinct (fst (move_down 3 demo_shuffled))"
proof -
  obtain q' ch where m: "move_down 3 demo_shuffled = (q', ch)" by fastforce
  have v: "order_inv demo_shuffled" "qc_order_changed (snd (move_down 3 demo_shuffled))"
    "set (upcoming_context_items demo_shuffled) \<inter>
       set (take (context_start demo_shuffled) (q_context demo_shuffled)) \<noteq> {}"
    by code_simp+
  show ?thesis using reorder_duplicates_iff [OF v(1) m [unfolded move_down_def]] v(2,3) m by simp
qed

text \<open>Playback of the queue so reordered, with repeat off: the skips go round.\<close>

lemma shuffled_reorder_duplicates:
  "order_inv demo_shuffled \<and> map qi_uid (upcoming demo_shuffled) = [3, 4, 1] \<and>
   map qi_uid (upcoming (fst (move_down 3 demo_shuffled))) = [4, 3, 1] \<and>
   map qi_uid (q_context (fst (move_down 3 demo_shuffled))) = [0, 1, 2, 4, 3, 1] \<and>
   \<not> uids_distinct (fst (move_down 3 demo_shuffled)) \<and>
   map_option fst (skips zeros 8 (fst (move_down 3 demo_shuffled)) ()) =
     Some [MoveTo 4, MoveTo 3, MoveTo 1, MoveTo 2, MoveTo 4, MoveTo 3, MoveTo 1, MoveTo 2]"
  by (intro conjI; code_simp)

text \<open>
  The title in the notice of a skipped play-next item is lost: the item has left the queue
  when its title is looked up, so the notice names no track.
\<close>

lemma skipped_play_next_notice_untitled:
  assumes "order_inv q" and "q_play_next q = x # ps" and "qi_unavailable x" and "\<not> current_is q (qi_uid x)"
  shows "\<exists>q' ch. perform_op nx (OpAdvance Skip) q r = Some (Inr (q', ch, [], r)) \<and>
    qc_playback ch = Skipped (qi_uid x) \<and>
    notify_queue_item_skipped q' (qi_uid x) = NoticeItemSkipped (qi_uid x) []"
proof -
  let ?q = "q\<lparr>q_play_next := ps\<rparr>"
  have d: "distinct (map qi_uid (q_context q @ q_play_next q))"
    using assms(1) by (simp add: order_inv_def uids_distinct_def)
  then have "qi_uid x \<notin> qi_uid ` set ps" "qi_uid x \<notin> qi_uid ` set (q_context q)"
    using assms(2) by simp_all
  then have "find (with_uid (qi_uid x)) ps = None" "find (with_uid (qi_uid x)) (q_context q) = None"
    unfolding find_None_iff_ball with_uid_def by (metis imageI)+
  moreover have "\<not> current_is ?q (qi_uid x)" using assms(4) by (simp add: current_is_def)
  ultimately have "notify_queue_item_skipped ?q (qi_uid x) = NoticeItemSkipped (qi_uid x) []"
    by (simp add: notify_queue_item_skipped_def queue_item_by_uid_def)
  then show ?thesis
    using assms(3) by (simp add: advance_skip advance_loop_play_next [OF assms(2)] change_def)
qed

definition demo_untitled :: play_queue where
  "demo_untitled = demo_queue\<lparr>q_next_uid := 6, q_play_next :=
     [(mk_item 5 OriginPlayNext (demo_track 9))\<lparr>qi_unavailable := True\<rparr>]\<rparr>"

theorem skipped_play_next_notice_untitled_witness:
  "\<exists>q' ch. perform_op zeros (OpAdvance Skip) demo_untitled () = Some (Inr (q', ch, [], ())) \<and>
    notify_queue_item_skipped q' 5 = NoticeItemSkipped 5 []"
proof -
  define x where "x = hd (q_play_next demo_untitled)"
  have v: "order_inv demo_untitled" "q_play_next demo_untitled = x # []" "qi_unavailable x"
    "\<not> current_is demo_untitled (qi_uid x)" "qi_uid x = 5"
    unfolding x_def by code_simp+
  from skipped_play_next_notice_untitled [OF v(1-4), of zeros "()"] v(5) show ?thesis by auto
qed

end
