(* ===== verification/Notifications.thy ===== *)
theory Notifications
  imports Source_Types
begin

text \<open>
  The notification centre (\<^verbatim>\<open>crates/modplayer-core/src/notifications.rs\<close>): raised
  newest first, dismissed by hand, by key or, for \<open>Info\<close>, by age. \<^verbatim>\<open>Instant::now()\<close>
  is an argument; times are milliseconds.
\<close>

section \<open>Notifications\<close>

datatype severity = Critical | Warning | Info

datatype notification_action =
  SignIn | OpenStatusPage | RetrySource | OpenUpgradePage | RestartPlugin u16 | DisablePlugin u16

record plugin_attribution =
  pa_id :: u16
  pa_name :: ustring

record notification =
  nt_id :: nat
  nt_severity :: severity
  nt_key :: ustring
  nt_args :: "(ustring \<times> ustring) list"
  nt_action :: "notification_action option"
  nt_actions :: "notification_action list"
  nt_created_at :: nat
  nt_dismissed :: bool
  nt_dedupe_key :: "ustring option"
  nt_attribution :: "plugin_attribution option"
  nt_detail :: "ustring option"
  nt_auto_dismiss_from :: nat
  nt_held :: bool

definition INFO_AUTO_DISMISS :: nat where "INFO_AUTO_DISMISS = 10000"
definition MAX_NOTIFICATION_ACTIONS :: nat where "MAX_NOTIFICATION_ACTIONS = 2"

record notification_center =
  nc_items :: "notification list"
  nc_next_id :: nat

definition notification_center_new :: notification_center where
  "notification_center_new = \<lparr>nc_items = [], nc_next_id = 0\<rparr>"

section \<open>Raising\<close>

definition raise_full_detailed ::
  "nat \<Rightarrow> severity \<Rightarrow> ustring \<Rightarrow> (ustring \<times> ustring) list \<Rightarrow> notification_action list \<Rightarrow> ustring option \<Rightarrow>
   plugin_attribution option \<Rightarrow> ustring option \<Rightarrow> notification_center \<Rightarrow> notification_center \<times> nat"
where
  "raise_full_detailed now sev key args actions dedupe attribution detail c =
     (\<lparr>nc_items =
         \<lparr>nt_id = nc_next_id c, nt_severity = sev, nt_key = key, nt_args = args,
          nt_action = (case actions of [] \<Rightarrow> None | a # _ \<Rightarrow> Some a), nt_actions = actions,
          nt_created_at = now, nt_dismissed = False, nt_dedupe_key = dedupe, nt_attribution = attribution,
          nt_detail = detail, nt_auto_dismiss_from = now, nt_held = False\<rparr> # nc_items c,
       nc_next_id = nc_next_id c + 1\<rparr>, nc_next_id c)"

definition raise_full_keyed ::
  "nat \<Rightarrow> severity \<Rightarrow> ustring \<Rightarrow> (ustring \<times> ustring) list \<Rightarrow> notification_action list \<Rightarrow> ustring option \<Rightarrow>
   plugin_attribution option \<Rightarrow> notification_center \<Rightarrow> notification_center \<times> nat"
where
  "raise_full_keyed now sev key args actions dedupe attribution c =
     raise_full_detailed now sev key args actions dedupe attribution None c"

definition raise_full ::
  "nat \<Rightarrow> severity \<Rightarrow> ustring \<Rightarrow> (ustring \<times> ustring) list \<Rightarrow> notification_action list \<Rightarrow>
   notification_center \<Rightarrow> notification_center \<times> nat"
where
  "raise_full now sev key args actions c = raise_full_keyed now sev key args actions None None c"

definition raise_with_args ::
  "nat \<Rightarrow> severity \<Rightarrow> ustring \<Rightarrow> (ustring \<times> ustring) list \<Rightarrow> notification_center \<Rightarrow> notification_center \<times> nat"
where
  "raise_with_args now sev key args c = raise_full now sev key args [] c"

definition raise_notice :: "nat \<Rightarrow> severity \<Rightarrow> ustring \<Rightarrow> notification_center \<Rightarrow> notification_center \<times> nat" where
  "raise_notice now sev key c = raise_with_args now sev key [] c"

definition raise_with_action ::
  "nat \<Rightarrow> severity \<Rightarrow> ustring \<Rightarrow> notification_action \<Rightarrow> notification_center \<Rightarrow> notification_center \<times> nat"
where
  "raise_with_action now sev key action c = raise_full now sev key [] [action] c"

definition raise_with_args_and_action ::
  "nat \<Rightarrow> severity \<Rightarrow> ustring \<Rightarrow> (ustring \<times> ustring) list \<Rightarrow> notification_action \<Rightarrow>
   notification_center \<Rightarrow> notification_center \<times> nat"
where
  "raise_with_args_and_action now sev key args action c = raise_full now sev key args [action] c"

definition raise_with_actions ::
  "nat \<Rightarrow> severity \<Rightarrow> ustring \<Rightarrow> (ustring \<times> ustring) list \<Rightarrow> notification_action list \<Rightarrow>
   notification_center \<Rightarrow> notification_center \<times> nat"
where
  "raise_with_actions now sev key args actions c =
     raise_full now sev key args (take MAX_NOTIFICATION_ACTIONS actions) c"

text \<open>\<^verbatim>\<open>(!detail.is_empty()).then_some(detail)\<close>: what a release build does.\<close>

definition then_some :: "ustring \<Rightarrow> ustring option" where
  "then_some detail = (if detail = [] then None else Some detail)"

definition raise_with_detail ::
  "nat \<Rightarrow> severity \<Rightarrow> ustring \<Rightarrow> (ustring \<times> ustring) list \<Rightarrow> ustring \<Rightarrow>
   notification_center \<Rightarrow> notification_center \<times> nat"
where
  "raise_with_detail now sev key args detail c =
     raise_full_detailed now sev key args [] None None (then_some detail) c"

definition raise_with_actions_and_detail ::
  "nat \<Rightarrow> severity \<Rightarrow> ustring \<Rightarrow> (ustring \<times> ustring) list \<Rightarrow> notification_action list \<Rightarrow> ustring \<Rightarrow>
   notification_center \<Rightarrow> notification_center \<times> nat"
where
  "raise_with_actions_and_detail now sev key args actions detail c =
     raise_full_detailed now sev key args (take MAX_NOTIFICATION_ACTIONS actions) None None (then_some detail) c"

definition raise_attributed ::
  "nat \<Rightarrow> severity \<Rightarrow> ustring \<Rightarrow> (ustring \<times> ustring) list \<Rightarrow> plugin_attribution \<Rightarrow>
   notification_center \<Rightarrow> notification_center \<times> nat"
where
  "raise_attributed now sev key args attribution c =
     raise_full_keyed now sev key args [] None (Some attribution) c"

section \<open>Dismissing\<close>

text \<open>\<^verbatim>\<open>for item in items.iter_mut().filter(|n| !n.dismissed)\<close>, dismissing those with \<open>P\<close>.\<close>

definition dismiss_where :: "(notification \<Rightarrow> bool) \<Rightarrow> notification_center \<Rightarrow> notification_center" where
  "dismiss_where P c =
     c\<lparr>nc_items := map (\<lambda>n. if \<not> nt_dismissed n \<and> P n then n\<lparr>nt_dismissed := True\<rparr> else n) (nc_items c)\<rparr>"

definition dismiss_by_dedupe :: "ustring \<Rightarrow> notification_center \<Rightarrow> notification_center" where
  "dismiss_by_dedupe key = dismiss_where (\<lambda>n. nt_dedupe_key n = Some key)"

definition dismiss_by_key :: "ustring \<Rightarrow> notification_center \<Rightarrow> notification_center" where
  "dismiss_by_key key = dismiss_where (\<lambda>n. nt_key n = key)"

definition notification_tick :: "nat \<Rightarrow> notification_center \<Rightarrow> notification_center" where
  "notification_tick now =
     dismiss_where (\<lambda>n. nt_severity n = Info \<and> \<not> nt_held n \<and> INFO_AUTO_DISMISS \<le> now - nt_auto_dismiss_from n)"

definition raise_keyed ::
  "nat \<Rightarrow> severity \<Rightarrow> ustring \<Rightarrow> (ustring \<times> ustring) list \<Rightarrow> notification_action list \<Rightarrow> ustring \<Rightarrow>
   notification_center \<Rightarrow> notification_center \<times> nat"
where
  "raise_keyed now sev key args actions dedupe c =
     raise_full_keyed now sev key args actions (Some dedupe) None (dismiss_by_dedupe dedupe c)"

definition dismiss :: "nat \<Rightarrow> notification_center \<Rightarrow> notification_center" where
  "dismiss i c = c\<lparr>nc_items := update_first (\<lambda>n. nt_id n = i) (\<lambda>n. n\<lparr>nt_dismissed := True\<rparr>) (nc_items c)\<rparr>"

definition hold_auto_dismiss :: "nat \<Rightarrow> notification_center \<Rightarrow> notification_center" where
  "hold_auto_dismiss i c =
     c\<lparr>nc_items := update_first (\<lambda>n. nt_id n = i \<and> \<not> nt_dismissed n) (\<lambda>n. n\<lparr>nt_held := True\<rparr>) (nc_items c)\<rparr>"

definition release_auto_dismiss :: "nat \<Rightarrow> nat \<Rightarrow> notification_center \<Rightarrow> notification_center" where
  "release_auto_dismiss i now c =
     c\<lparr>nc_items := update_first (\<lambda>n. nt_id n = i \<and> \<not> nt_dismissed n \<and> nt_held n)
                     (\<lambda>n. n\<lparr>nt_held := False, nt_auto_dismiss_from := now\<rparr>) (nc_items c)\<rparr>"

definition visible :: "notification_center \<Rightarrow> notification list" where
  "visible c = filter (\<lambda>n. \<not> nt_dismissed n) (nc_items c)"

section \<open>The invariant\<close>

text \<open>
  Newest first, with identifiers below the counter; the button is the first action; at most one
  visible notification per deduplication key; no empty detail.
\<close>

definition center_ok :: "notification_center \<Rightarrow> bool" where
  "center_ok c \<longleftrightarrow>
     sorted_wrt (>) (map nt_id (nc_items c)) \<and>
     (\<forall>n\<in>set (nc_items c). nt_id n < nc_next_id c \<and>
        nt_action n = (case nt_actions n of [] \<Rightarrow> None | a # _ \<Rightarrow> Some a) \<and> nt_detail n \<noteq> Some []) \<and>
     (\<forall>k. length (filter (\<lambda>n. \<not> nt_dismissed n \<and> nt_dedupe_key n = Some k) (nc_items c)) \<le> 1)"

definition item_ok :: "nat \<Rightarrow> notification \<Rightarrow> bool" where
  "item_ok next n \<longleftrightarrow> nt_id n < next \<and>
     nt_action n = (case nt_actions n of [] \<Rightarrow> None | a # _ \<Rightarrow> Some a) \<and> nt_detail n \<noteq> Some []"

definition shown_with :: "ustring \<Rightarrow> notification list \<Rightarrow> nat" where
  "shown_with k ns = length (filter (\<lambda>n. \<not> nt_dismissed n \<and> nt_dedupe_key n = Some k) ns)"

lemma center_ok_alt:
  "center_ok c \<longleftrightarrow> sorted_wrt (>) (map nt_id (nc_items c)) \<and> (\<forall>n\<in>set (nc_items c). item_ok (nc_next_id c) n) \<and>
     (\<forall>k. shown_with k (nc_items c) \<le> 1)"
  by (simp add: center_ok_def item_ok_def shown_with_def)

lemma raise_ok:
  assumes "center_ok c" and "detail \<noteq> Some []"
    and "\<And>k. dedupe = Some k \<Longrightarrow> shown_with k (nc_items c) = 0"
  shows "center_ok (fst (raise_full_detailed now sev key args actions dedupe attribution detail c))"
  using assms
  by (fastforce simp: center_ok_alt raise_full_detailed_def item_ok_def shown_with_def)

text \<open>An update that keeps identifiers, actions, details and keys, and makes nothing visible again.\<close>

definition tame :: "(notification \<Rightarrow> notification) \<Rightarrow> bool" where
  "tame f \<longleftrightarrow> (\<forall>n. nt_id (f n) = nt_id n \<and> nt_action (f n) = nt_action n \<and> nt_actions (f n) = nt_actions n \<and>
     nt_detail (f n) = nt_detail n \<and> nt_dedupe_key (f n) = nt_dedupe_key n \<and> (nt_dismissed n \<longrightarrow> nt_dismissed (f n)))"

lemma center_ok_transfer:
  assumes "center_ok c" and "map nt_id ns = map nt_id (nc_items c)"
    and "\<And>k. shown_with k ns \<le> shown_with k (nc_items c)" and "\<forall>n\<in>set ns. item_ok (nc_next_id c) n"
  shows "center_ok (c\<lparr>nc_items := ns\<rparr>)"
proof -
  have "shown_with k ns \<le> 1" for k
    using assms(1,3) le_trans unfolding center_ok_alt by blast
  then show ?thesis using assms by (simp add: center_ok_alt)
qed

lemma tame_item: "tame f \<Longrightarrow> item_ok i (f n) = item_ok i n"
  by (simp add: item_ok_def tame_def)

lemma tame_map_ok:
  assumes "center_ok c" and "tame f"
  shows "center_ok (c\<lparr>nc_items := map f (nc_items c)\<rparr>)"
proof (rule center_ok_transfer [OF assms(1)])
  have "shown_with k (map f ns) \<le> shown_with k ns" for k ns
    using assms(2) by (induction ns) (auto simp: shown_with_def tame_def)
  then show "shown_with k (map f (nc_items c)) \<le> shown_with k (nc_items c)" for k .
  show "map nt_id (map f (nc_items c)) = map nt_id (nc_items c)" using assms(2) by (simp add: tame_def)
  show "\<forall>n\<in>set (map f (nc_items c)). item_ok (nc_next_id c) n"
    using assms(1) by (simp add: center_ok_alt tame_item [OF assms(2)])
qed

lemma tame_ok:
  assumes "center_ok c" and "tame f"
  shows "center_ok (c\<lparr>nc_items := update_first P f (nc_items c)\<rparr>)"
proof (rule center_ok_transfer [OF assms(1)])
  have "shown_with k (update_first P f ns) \<le> shown_with k ns" for k ns
    using assms(2) by (induction ns) (auto simp: shown_with_def tame_def)
  then show "shown_with k (update_first P f (nc_items c)) \<le> shown_with k (nc_items c)" for k .
  show "map nt_id (update_first P f (nc_items c)) = map nt_id (nc_items c)"
    using assms(2) by (intro map_update_first) (simp add: tame_def)
  have "\<forall>n\<in>set (update_first P f ns). item_ok i n" if "\<forall>n\<in>set ns. item_ok i n" for i ns
    using that by (induction ns) (auto simp: tame_item [OF assms(2)])
  then show "\<forall>n\<in>set (update_first P f (nc_items c)). item_ok (nc_next_id c) n"
    using assms(1) unfolding center_ok_alt by blast
qed

lemma dismiss_where_ok: "center_ok c \<Longrightarrow> center_ok (dismiss_where P c)"
  unfolding dismiss_where_def by (rule tame_map_ok) (simp_all add: tame_def)

lemma dismiss_by_dedupe_clears: "shown_with k (nc_items (dismiss_by_dedupe k c)) = 0"
  by (auto simp: dismiss_by_dedupe_def dismiss_where_def shown_with_def filter_empty_conv)

section \<open>Reachable centres\<close>

datatype center_call =
    CallRaise nat severity ustring "(ustring \<times> ustring) list" "notification_action list"
  | CallRaiseDetail nat severity ustring "(ustring \<times> ustring) list" "notification_action list" ustring
  | CallRaiseAttributed nat severity ustring "(ustring \<times> ustring) list" plugin_attribution
  | CallRaiseKeyed nat severity ustring "(ustring \<times> ustring) list" "notification_action list" ustring
  | CallDismiss nat
  | CallDismissByKey ustring
  | CallDismissByDedupe ustring
  | CallNotificationTick nat
  | CallHold nat
  | CallRelease nat nat

text \<open>
  \<open>raise\<close>, \<open>raise_with_args\<close>, \<open>raise_with_action\<close>, \<open>raise_with_args_and_action\<close> and \<open>raise_with_actions\<close>
  are \<open>CallRaise\<close> with the actions each of them passes.
\<close>

fun center_apply :: "center_call \<Rightarrow> notification_center \<Rightarrow> notification_center" where
  "center_apply (CallRaise now sev key args actions) c = fst (raise_full now sev key args actions c)"
| "center_apply (CallRaiseDetail now sev key args actions detail) c =
     fst (raise_with_actions_and_detail now sev key args actions detail c)"
| "center_apply (CallRaiseAttributed now sev key args who) c = fst (raise_attributed now sev key args who c)"
| "center_apply (CallRaiseKeyed now sev key args actions dedupe) c = fst (raise_keyed now sev key args actions dedupe c)"
| "center_apply (CallDismiss i) c = dismiss i c"
| "center_apply (CallDismissByKey key) c = dismiss_by_key key c"
| "center_apply (CallDismissByDedupe key) c = dismiss_by_dedupe key c"
| "center_apply (CallNotificationTick now) c = notification_tick now c"
| "center_apply (CallHold i) c = hold_auto_dismiss i c"
| "center_apply (CallRelease i now) c = release_auto_dismiss i now c"

lemma raise_calls:
  "raise_notice now sev key c = raise_full now sev key [] [] c"
  "raise_with_args now sev key args c = raise_full now sev key args [] c"
  "raise_with_action now sev key a c = raise_full now sev key [] [a] c"
  "raise_with_args_and_action now sev key args a c = raise_full now sev key args [a] c"
  "raise_with_actions now sev key args acts c = raise_full now sev key args (take MAX_NOTIFICATION_ACTIONS acts) c"
  "raise_with_detail now sev key args detail c = raise_with_actions_and_detail now sev key args [] detail c"
  by (simp_all add: raise_notice_def raise_with_args_def raise_with_action_def raise_with_args_and_action_def
      raise_with_actions_def raise_with_detail_def raise_with_actions_and_detail_def)

definition center_step :: "notification_center \<Rightarrow> notification_center \<Rightarrow> bool" where
  "center_step c c' \<longleftrightarrow> (\<exists>call. c' = center_apply call c)"

lemma center_apply_ok: "center_ok c \<Longrightarrow> center_ok (center_apply call c)"
proof -
  assume ok: "center_ok c"
  show ?thesis
  proof (cases call)
    case (CallRaiseKeyed now sev key args actions dedupe)
    have "center_ok (dismiss_by_dedupe dedupe c)" using ok by (simp add: dismiss_by_dedupe_def dismiss_where_ok)
    then have "center_ok (fst (raise_full_detailed now sev key args actions (Some dedupe) None None (dismiss_by_dedupe dedupe c)))"
      by (rule raise_ok) (simp_all add: dismiss_by_dedupe_clears)
    then show ?thesis by (simp add: CallRaiseKeyed raise_keyed_def raise_full_keyed_def)
  next
    case (CallRaise now sev key args actions)
    then show ?thesis using raise_ok [OF ok, of None None] by (simp add: raise_full_def raise_full_keyed_def)
  next
    case (CallRaiseDetail now sev key args actions detail)
    then show ?thesis using raise_ok [OF ok, of "then_some detail" None]
      by (simp add: raise_with_actions_and_detail_def) (simp add: then_some_def)
  next
    case (CallRaiseAttributed now sev key args who)
    then show ?thesis using raise_ok [OF ok, of None None] by (simp add: raise_attributed_def raise_full_keyed_def)
  next
    case (CallDismiss i)
    then show ?thesis using tame_ok [OF ok] by (simp add: dismiss_def tame_def)
  next
    case (CallHold i)
    then show ?thesis using tame_ok [OF ok] by (simp add: hold_auto_dismiss_def tame_def)
  next
    case (CallRelease i now)
    then show ?thesis using tame_ok [OF ok] by (simp add: release_auto_dismiss_def tame_def)
  qed (simp_all add: ok dismiss_by_key_def dismiss_by_dedupe_def notification_tick_def dismiss_where_ok)
qed

lemma center_apply_counter: "nc_next_id c \<le> nc_next_id (center_apply call c)"
  by (cases call)
    (simp_all add: raise_full_def raise_full_keyed_def raise_full_detailed_def raise_with_actions_and_detail_def
      raise_attributed_def raise_keyed_def dismiss_by_dedupe_def dismiss_where_def dismiss_def dismiss_by_key_def
      notification_tick_def hold_auto_dismiss_def release_auto_dismiss_def)

interpretation center: id_allocator "\<lambda>c. c = notification_center_new" center_step center_ok
  "\<lambda>c. nt_id ` set (nc_items c)" nc_next_id
proof unfold_locales
  show "center_ok c" if "c = notification_center_new" for c
    by (simp add: that center_ok_def notification_center_new_def)
  show "i < nc_next_id c" if "center_ok c" "i \<in> nt_id ` set (nc_items c)" for c i
    using that by (auto simp: center_ok_def)
qed (auto simp: center_step_def center_apply_ok center_apply_counter)

end
