(* ===== verification/Transport.thy ===== *)
theory Transport
  imports Play_Queue Notifications
begin

text \<open>
  The transport reducer of \<^verbatim>\<open>crates/modplayer-core/src/transport.rs\<close>: a pure function from a
  state and an input to the next state and the effects the controller must perform. Each rule of
  the reducer (T1 to T23 of its comments) is a definition of its own; \<open>reduce\<close> dispatches to them
  behind the gate of T17. Milliseconds and generations are \<open>nat\<close>: the reducer only compares them.
\<close>

section \<open>State, inputs and effects\<close>

datatype not_registered_reason = ReasonUnknown | PremiumRequired | SubscriptionNotVerified | SignedOut

datatype pending_transfer_command =
    PendingPlay
  | PendingSkipForward
  | PendingSkipBack
  | PendingSeek nat
  | PendingPlayHere

datatype active_state =
    NotRegistered not_registered_reason
  | Inactive "ustring option"
  | ActiveDevice
  | TransferRequested "pending_transfer_command option"

record transport_state =
  ts_intent :: intent
  ts_buffering :: bool
  ts_track_len_ms :: "nat option"
  ts_active :: active_state
  ts_health :: source_health
  ts_reconnect_warning_raised :: bool
  ts_current_generation :: nat
  ts_downgrade_pending :: bool

definition transport_default :: transport_state where
  "transport_default =
     \<lparr>ts_intent = Stopped, ts_buffering = False, ts_track_len_ms = None,
      ts_active = NotRegistered ReasonUnknown, ts_health = HealthOk,
      ts_reconnect_warning_raised = False, ts_current_generation = 0,
      ts_downgrade_pending = False\<rparr>"

datatype timer_kind = TransferTimer | ReconnectTimer
datatype timer_command = TimerStart timer_kind | TimerCancel timer_kind

datatype notice_key =
    TransferRequestFailed
  | StreamReconnectWarning
  | StreamSourceUnavailable
  | StreamSourceUpdateRequired
  | SubscriptionDowngraded

datatype effect =
    EngineEffect engine_command
  | SourceEffect source_command
  | SeekTo nat "u64 option"
  | LoadCurrentProgram nat bool
  | QueueEffect queue_op
  | Notify notice_key severity "notification_action list"
  | DismissNotify notice_key
  | TimerEffect timer_command
  | ApplyPendingTransferCommand pending_transfer_command
  | MirrorVolume nat
  | RemoteSetShuffle bool
  | RemoteSetRepeat repeat

datatype queue_change_origin =
    UserSkipForward
  | UserSkipBack
  | UserSeek
  | UnavailableMirror
  | EndOfTrackMirror

datatype input =
    InPlay bool bool bool  \<comment> \<open>has current, track loaded in source, buffer ready\<close>
  | InPause
  | InStop
  | InSeek nat "u64 option" bool
  | InSkipForward
  | InSkipBack nat
  | InQueueChanged queue_change queue_change_origin
  | InTrackStarted nat nat bool nat  \<comment> \<open>generation, position, playing, length\<close>
  | InTrackRevealed track_ref
  | InEndOfTrack
  | InRegistered
  | InDeregistered
  | InTierRejected
  | InHealth source_health
  | InLoading
  | InPlaying
  | InUnavailable track_id
  | InPlayHere
  | InBecameInactive
  | InBecameActive "transfer_context option"
  | InTransferTimedOut
  | InReconnectTimedOut
  | InRemoteCommand remote_command

section \<open>The rules\<close>

type_synonym reduction = "transport_state \<times> effect list"

fun pending_command_for :: "input \<Rightarrow> pending_transfer_command option" where
  "pending_command_for (InPlay _ _ _) = Some PendingPlay"
| "pending_command_for InSkipForward = Some PendingSkipForward"
| "pending_command_for (InSkipBack _) = Some PendingSkipBack"
| "pending_command_for (InSeek ms _ _) = Some (PendingSeek ms)"
| "pending_command_for InPlayHere = Some PendingPlayHere"
| "pending_command_for _ = None"

definition is_pause_or_stop :: "input \<Rightarrow> bool" where
  "is_pause_or_stop i \<longleftrightarrow> i = InPause \<or> i = InStop"

text \<open>T17/T19: what a device that is not the active one does with a playback command.\<close>

definition gate :: "transport_state \<Rightarrow> input \<Rightarrow> reduction option" where
  "gate s i =
     (case ts_active s of
        Inactive _ \<Rightarrow>
          (case pending_command_for i of
             Some p \<Rightarrow>
               Some (s\<lparr>ts_active := TransferRequested (Some p)\<rparr>,
                 [SourceEffect SrcRequestTransferHere, TimerEffect (TimerStart TransferTimer)])
           | None \<Rightarrow> if is_pause_or_stop i then Some (s, []) else None)
      | TransferRequested _ \<Rightarrow>
          if pending_command_for i \<noteq> None \<or> is_pause_or_stop i then Some (s, []) else None
      | _ \<Rightarrow> None)"

definition finish_downgrade :: "transport_state \<Rightarrow> reduction" where
  "finish_downgrade s =
     (s\<lparr>ts_downgrade_pending := False, ts_intent := Stopped, ts_buffering := False,
        ts_active := NotRegistered PremiumRequired\<rparr>,
      [EngineEffect EngStop, SourceEffect SrcDeregister,
       Notify SubscriptionDowngraded Warning [OpenUpgradePage]])"

definition rule_play :: "bool \<Rightarrow> bool \<Rightarrow> bool \<Rightarrow> transport_state \<Rightarrow> reduction" where
  "rule_play has_current loaded ready s =
     (if \<not> has_current then (s, [])
      else case ts_intent s of
             Stopped \<Rightarrow>
               (s\<lparr>ts_intent := Playing, ts_buffering := \<not> ready\<rparr>,
                [if loaded then SourceEffect SrcPlay else LoadCurrentProgram 0 True,
                 EngineEffect EngPlay])
           | Paused \<Rightarrow>
               (s\<lparr>ts_intent := Playing, ts_buffering := \<not> ready\<rparr>,
                [SourceEffect SrcPlay, EngineEffect EngPlay])
           | Playing \<Rightarrow> (s, []))"

definition rule_pause :: "transport_state \<Rightarrow> reduction" where
  "rule_pause s =
     (if ts_intent s = Playing
      then (s\<lparr>ts_intent := Paused, ts_buffering := False\<rparr>,
            [SourceEffect SrcPause, EngineEffect EngPause])
      else (s, []))"

definition rule_stop :: "transport_state \<Rightarrow> reduction" where
  "rule_stop s =
     (s\<lparr>ts_intent := Stopped, ts_buffering := False\<rparr>, [EngineEffect EngStop, SourceEffect SrcStop])"

definition rule_seek :: "nat \<Rightarrow> u64 option \<Rightarrow> bool \<Rightarrow> transport_state \<Rightarrow> reduction" where
  "rule_seek ms frames ready s =
     (if (case ts_track_len_ms s of None \<Rightarrow> False | Some len \<Rightarrow> ms \<ge> len)
      then (s, [QueueEffect (OpAdvance SeekPastEnd)])
      else if ts_intent s = Stopped
      then (s\<lparr>ts_intent := Paused, ts_buffering := False\<rparr>, [SeekTo ms frames])
      else (if ts_intent s = Playing then s\<lparr>ts_buffering := \<not> ready\<rparr> else s, [SeekTo ms frames]))"

definition user_initiated :: "queue_change_origin \<Rightarrow> bool" where
  "user_initiated org \<longleftrightarrow> org \<in> {UserSkipForward, UserSkipBack, UserSeek, UnavailableMirror}"

definition rule_queue_changed ::
  "playback_change \<Rightarrow> queue_change_origin \<Rightarrow> transport_state \<Rightarrow> reduction"
where
  "rule_queue_changed pb org s =
     (case pb of
        MoveTo _ \<Rightarrow>
          (s, if user_initiated org then [LoadCurrentProgram 0 (ts_intent s = Playing)] else [])
      | Restart \<Rightarrow> (s, [SeekTo 0 None])
      | EndOfQueue \<Rightarrow>
          (s\<lparr>ts_intent := Stopped, ts_buffering := False\<rparr>,
           [EngineEffect EngStop, SourceEffect SrcStop])
      | Empty \<Rightarrow> (s\<lparr>ts_intent := Stopped, ts_buffering := False\<rparr>, [])
      | Skipped _ \<Rightarrow> (s, [])
      | NoChange \<Rightarrow> (s, []))"

definition is_transient :: "source_health \<Rightarrow> bool" where
  "is_transient h \<longleftrightarrow> (case h of Transient _ _ \<Rightarrow> True | _ \<Rightarrow> False)"

definition is_unavailable :: "source_health \<Rightarrow> bool" where
  "is_unavailable h \<longleftrightarrow> (case h of Unavailable _ \<Rightarrow> True | _ \<Rightarrow> False)"

definition rule_health :: "source_health \<Rightarrow> transport_state \<Rightarrow> reduction" where
  "rule_health h s =
     (let was_transient = is_transient (ts_health s); now_transient = is_transient h;
          was_unavailable = is_unavailable (ts_health s); now_unavailable = is_unavailable h;
          timer =
            (if now_transient \<and> \<not> was_transient then [TimerEffect (TimerStart ReconnectTimer)]
             else if \<not> now_transient \<and> was_transient then [TimerEffect (TimerCancel ReconnectTimer)]
             else []);
          clear = (\<not> now_transient \<and> ts_reconnect_warning_raised s);
          warning = (if clear then [DismissNotify StreamReconnectWarning] else []);
          notice =
            (if now_unavailable \<and> \<not> was_unavailable
             then [if h = Unavailable True
                   then Notify StreamSourceUpdateRequired Critical [OpenStatusPage]
                   else Notify StreamSourceUnavailable Critical [OpenStatusPage, RetrySource]]
             else if \<not> now_unavailable \<and> was_unavailable
             then [DismissNotify StreamSourceUnavailable, DismissNotify StreamSourceUpdateRequired]
             else [])
      in (s\<lparr>ts_reconnect_warning_raised := ts_reconnect_warning_raised s \<and> \<not> clear, ts_health := h\<rparr>,
          timer @ warning @ notice))"

definition rule_became_active :: "transfer_context option \<Rightarrow> transport_state \<Rightarrow> reduction" where
  "rule_became_active context s =
     (case context of
        None \<Rightarrow>
          (s\<lparr>ts_active := ActiveDevice\<rparr>,
           case ts_active s of
             TransferRequested (Some p) \<Rightarrow> [ApplyPendingTransferCommand p]
           | _ \<Rightarrow> [])
      | Some ctx \<Rightarrow>
          (s\<lparr>ts_active := ActiveDevice, ts_intent := (if tc_playing ctx then Playing else Paused),
             ts_buffering := False, ts_track_len_ms := Some (tr_duration_ms (tc_current ctx))\<rparr>,
           [QueueEffect (OpAdoptTransferContext (tc_current ctx) (tc_shuffle ctx) (tc_repeat ctx)),
            EngineEffect (if tc_playing ctx then EngPlay else EngPause)]))"

definition rule_remote :: "remote_command \<Rightarrow> transport_state \<Rightarrow> reduction" where
  "rule_remote c s =
     (case c of
        RemotePlay \<Rightarrow> (s\<lparr>ts_intent := Playing, ts_buffering := False\<rparr>, [])
      | RemotePause \<Rightarrow> (s\<lparr>ts_intent := Paused, ts_buffering := False\<rparr>, [])
      | RemoteVolume pct \<Rightarrow> (s, [MirrorVolume pct])
      | RemoteShuffle on \<Rightarrow> (s, [RemoteSetShuffle on])
      | RemoteRepeat m \<Rightarrow> (s, [RemoteSetRepeat m])
      | RemoteSeek _ \<Rightarrow> (s, [])
      | RemoteSkipNext \<Rightarrow> (s, [])
      | RemoteSkipPrev \<Rightarrow> (s, []))"

text \<open>The \<^verbatim>\<open>match input\<close> behind the gate.\<close>

fun rules :: "input \<Rightarrow> transport_state \<Rightarrow> reduction" where
  "rules (InPlay has_current loaded ready) s = rule_play has_current loaded ready s"
| "rules InPause s = rule_pause s"
| "rules InStop s = rule_stop s"
| "rules (InSeek ms frames ready) s = rule_seek ms frames ready s"
| "rules InSkipForward s = (s, [QueueEffect (OpAdvance Skip)])"
| "rules (InSkipBack ms) s = (s, [QueueEffect (OpSkipBack ms)])"
| "rules (InQueueChanged ch org) s = rule_queue_changed (qc_playback ch) org s"
| "rules (InTrackStarted generation _ _ len) s =
     (if generation = ts_current_generation s then s\<lparr>ts_track_len_ms := Some len\<rparr> else s, [])"
| "rules (InTrackRevealed t) s = (s, [QueueEffect (OpReveal t)])"
| "rules InEndOfTrack s =
     (if ts_downgrade_pending s then finish_downgrade s
      else (s, [QueueEffect (OpAdvance TrackEnd)]))"
| "rules InRegistered s =
     (case ts_active s of NotRegistered _ \<Rightarrow> s\<lparr>ts_active := ActiveDevice\<rparr> | _ \<Rightarrow> s,
      [DismissNotify SubscriptionDowngraded])"
| "rules InDeregistered s =
     (s\<lparr>ts_active := (case ts_active s of NotRegistered reason \<Rightarrow> NotRegistered reason
                      | _ \<Rightarrow> NotRegistered ReasonUnknown)\<rparr>, [])"
| "rules InTierRejected s =
     (let s' = s\<lparr>ts_downgrade_pending := True\<rparr>
      in if ts_intent s' \<noteq> Playing then finish_downgrade s' else (s', []))"
| "rules (InHealth h) s = rule_health h s"
| "rules InLoading s = (if ts_intent s = Playing then s\<lparr>ts_buffering := True\<rparr> else s, [])"
| "rules InPlaying s = (if ts_intent s = Playing then s\<lparr>ts_buffering := False\<rparr> else s, [])"
| "rules (InUnavailable t) s = (s, [QueueEffect (OpMarkUnavailable t)])"
| "rules InPlayHere s = (s, [])"
| "rules InBecameInactive s =
     (s\<lparr>ts_intent := Paused, ts_buffering := False, ts_active := Inactive None\<rparr>,
      [EngineEffect EngPause])"
| "rules (InBecameActive context) s = rule_became_active context s"
| "rules InTransferTimedOut s =
     (case ts_active s of
        TransferRequested _ \<Rightarrow>
          (s\<lparr>ts_active := Inactive None\<rparr>, [Notify TransferRequestFailed Warning []])
      | _ \<Rightarrow> (s, []))"
| "rules InReconnectTimedOut s =
     (if is_transient (ts_health s) \<and> \<not> ts_reconnect_warning_raised s
      then (s\<lparr>ts_reconnect_warning_raised := True\<rparr>, [Notify StreamReconnectWarning Warning []])
      else (s, []))"
| "rules (InRemoteCommand c) s = rule_remote c s"

definition reduce :: "transport_state \<Rightarrow> input \<Rightarrow> reduction" where
  "reduce s i = (case gate s i of Some r \<Rightarrow> r | None \<Rightarrow> rules i s)"

end
