(* ===== verification/Link.thy ===== *)
theory Link
  imports Transport
begin

text \<open>
  The connection side of the controller around the reducer
  (\<^verbatim>\<open>crates/modplayer-core/src/controller.rs\<close>): the two deadlines that \<^verbatim>\<open>apply_effects\<close>
  sets and clears and \<^verbatim>\<open>tick\<close> polls, the stream notices that are up, and the places that
  write the transport state without the reducer (playback not permitted, sign-out, the last output
  device lost). Time is in milliseconds; queue effects do not touch any of this.
\<close>

definition TRANSFER_TIMEOUT :: nat where "TRANSFER_TIMEOUT = 5000"
definition RECONNECT_WARNING_TIMEOUT :: nat where "RECONNECT_WARNING_TIMEOUT = 30000"

record link =
  lk_state :: transport_state
  lk_transfer_deadline :: "nat option"
  lk_reconnect_deadline :: "nat option"
  lk_notices :: "notice_key set"

definition link_new :: link where
  "link_new = \<lparr>lk_state = transport_default, lk_transfer_deadline = None,
     lk_reconnect_deadline = None, lk_notices = {}\<rparr>"

text \<open>The arms of \<^verbatim>\<open>apply_effects\<close> that touch the deadlines and the notices.\<close>

fun link_effect :: "nat \<Rightarrow> effect \<Rightarrow> link \<Rightarrow> link" where
  "link_effect now (TimerEffect (TimerStart TransferTimer)) l =
     l\<lparr>lk_transfer_deadline := Some (now + TRANSFER_TIMEOUT)\<rparr>"
| "link_effect now (TimerEffect (TimerCancel TransferTimer)) l = l\<lparr>lk_transfer_deadline := None\<rparr>"
| "link_effect now (TimerEffect (TimerStart ReconnectTimer)) l =
     l\<lparr>lk_reconnect_deadline := Some (now + RECONNECT_WARNING_TIMEOUT)\<rparr>"
| "link_effect now (TimerEffect (TimerCancel ReconnectTimer)) l = l\<lparr>lk_reconnect_deadline := None\<rparr>"
| "link_effect now (Notify k _ _) l = l\<lparr>lk_notices := insert k (lk_notices l)\<rparr>"
| "link_effect now (DismissNotify k) l = l\<lparr>lk_notices := lk_notices l - {k}\<rparr>"
| "link_effect now _ l = l"

definition link_dispatch :: "nat \<Rightarrow> input \<Rightarrow> link \<Rightarrow> link" where
  "link_dispatch now i l =
     (let (s, effects) = reduce (lk_state l) i
      in fold (link_effect now) effects (l\<lparr>lk_state := s\<rparr>))"

definition is_transfer_requested :: "active_state \<Rightarrow> bool" where
  "is_transfer_requested a \<longleftrightarrow> (case a of TransferRequested _ \<Rightarrow> True | _ \<Rightarrow> False)"

definition flush_transfer_timer :: "nat \<Rightarrow> link \<Rightarrow> link" where
  "flush_transfer_timer now l =
     (case lk_transfer_deadline l of
        None \<Rightarrow> l
      | Some deadline \<Rightarrow>
          if \<not> is_transfer_requested (ts_active (lk_state l)) then l\<lparr>lk_transfer_deadline := None\<rparr>
          else if now \<ge> deadline
          then link_dispatch now InTransferTimedOut (l\<lparr>lk_transfer_deadline := None\<rparr>)
          else l)"

definition flush_reconnect_timer :: "nat \<Rightarrow> link \<Rightarrow> link" where
  "flush_reconnect_timer now l =
     (case lk_reconnect_deadline l of
        None \<Rightarrow> l
      | Some deadline \<Rightarrow>
          if \<not> is_transient (ts_health (lk_state l)) then l\<lparr>lk_reconnect_deadline := None\<rparr>
          else if now \<ge> deadline
          then link_dispatch now InReconnectTimedOut (l\<lparr>lk_reconnect_deadline := None\<rparr>)
          else l)"

text \<open>\<^verbatim>\<open>set_playback_permitted(false, reason)\<close>\<close>

definition playback_not_permitted :: "not_registered_reason option \<Rightarrow> link \<Rightarrow> link" where
  "playback_not_permitted reason l =
     l\<lparr>lk_state := (lk_state l)\<lparr>ts_active :=
         NotRegistered (case reason of None \<Rightarrow> ReasonUnknown | Some r \<Rightarrow> r)\<rparr>\<rparr>"

text \<open>\<^verbatim>\<open>clear_for_sign_out\<close>: stop, then unregistered.\<close>

definition sign_out :: "nat \<Rightarrow> link \<Rightarrow> link" where
  "sign_out now l =
     (let l' = link_dispatch now InStop l
      in l'\<lparr>lk_state := (lk_state l')\<lparr>ts_active := NotRegistered SignedOut\<rparr>\<rparr>)"

text \<open>The \<^verbatim>\<open>NoDeviceRemains\<close> outcome of a lost device.\<close>

definition no_device_remains :: "link \<Rightarrow> link" where
  "no_device_remains l = l\<lparr>lk_state := (lk_state l)\<lparr>ts_intent := Paused\<rparr>\<rparr>"

text \<open>The two timer inputs only ever come from the polls.\<close>

definition is_timer_input :: "input \<Rightarrow> bool" where
  "is_timer_input i \<longleftrightarrow> i = InTransferTimedOut \<or> i = InReconnectTimedOut"

inductive link_step :: "link \<Rightarrow> link \<Rightarrow> bool" where
  dispatched: "\<not> is_timer_input i \<Longrightarrow> link_step l (link_dispatch now i l)"
| transfer_polled: "link_step l (flush_transfer_timer now l)"
| reconnect_polled: "link_step l (flush_reconnect_timer now l)"
| not_permitted: "link_step l (playback_not_permitted reason l)"
| signed_out: "link_step l (sign_out now l)"
| device_gone: "link_step l (no_device_remains l)"

inductive_cases link_stepE: "link_step l l'"

section \<open>Invariants of the reducer\<close>

definition transport_inv :: "transport_state \<Rightarrow> bool" where
  "transport_inv s \<longleftrightarrow>
     (ts_buffering s \<longrightarrow> ts_intent s = Playing) \<and>
     (ts_reconnect_warning_raised s \<longrightarrow> is_transient (ts_health s))"

lemmas rule_defs =
  rule_play_def rule_pause_def rule_stop_def rule_seek_def rule_queue_changed_def
  rule_became_active_def rule_remote_def finish_downgrade_def

lemma gate_cases:
  "gate s i = Some r \<Longrightarrow>
   r = (s, []) \<or>
   (\<exists>p. pending_command_for i = Some p \<and> (\<exists>d. ts_active s = Inactive d) \<and>
      r = (s\<lparr>ts_active := TransferRequested (Some p)\<rparr>,
        [SourceEffect SrcRequestTransferHere, TimerEffect (TimerStart TransferTimer)]))"
  by (auto simp: gate_def split: active_state.splits option.splits if_splits)

lemma rules_inv: "transport_inv s \<Longrightarrow> transport_inv (fst (rules i s))"
  by (cases i) (auto simp: transport_inv_def rule_defs rule_health_def Let_def
      split: intent.split playback_change.split option.split remote_command.split active_state.split)

lemma reduce_inv: "transport_inv s \<Longrightarrow> transport_inv (fst (reduce s i))"
proof (cases "gate s i")
  case None
  then show "transport_inv s \<Longrightarrow> ?thesis" by (simp add: reduce_def rules_inv)
next
  case (Some r)
  then show "transport_inv s \<Longrightarrow> ?thesis"
    using gate_cases [OF Some] by (auto simp: reduce_def transport_inv_def)
qed

interpretation transport: machine
  "\<lambda>s. s = transport_default" "\<lambda>s s'. \<exists>i. s' = fst (reduce s i)" transport_inv
  by unfold_locales (simp add: transport_inv_def transport_default_def, blast intro: reduce_inv)

section \<open>Invariants of the link\<close>

text \<open>
  What each input does to health, warning, activity and the effects that matter here. Only
  \<open>InHealth\<close> changes the health; every other input keeps it and emits no stream notice.
\<close>

definition link_inv :: "link \<Rightarrow> bool" where
  "link_inv l \<longleftrightarrow>
     (let s = lk_state l; warned = ts_reconnect_warning_raised s
      in (is_transient (ts_health s) \<longrightarrow> (lk_reconnect_deadline l \<noteq> None) \<noteq> warned) \<and>
         (\<not> is_transient (ts_health s) \<longrightarrow> lk_reconnect_deadline l = None \<and> \<not> warned) \<and>
         (StreamReconnectWarning \<in> lk_notices l \<longleftrightarrow> warned) \<and>
         (is_unavailable (ts_health s) \<longleftrightarrow>
            StreamSourceUnavailable \<in> lk_notices l \<or> StreamSourceUpdateRequired \<in> lk_notices l) \<and>
         (is_transfer_requested (ts_active s) \<longrightarrow> lk_transfer_deadline l \<noteq> None))"

definition quiet :: "effect \<Rightarrow> bool" where
  "quiet e \<longleftrightarrow> (case e of TimerEffect (TimerStart TransferTimer) \<Rightarrow> True | TimerEffect _ \<Rightarrow> False
     | Notify k _ _ \<Rightarrow> k \<in> {TransferRequestFailed, SubscriptionDowngraded}
     | DismissNotify k \<Rightarrow> k = SubscriptionDowngraded | _ \<Rightarrow> True)"

lemma quiet_effect:
  "quiet e \<Longrightarrow> lk_state (link_effect now e l) = lk_state l \<and>
   lk_reconnect_deadline (link_effect now e l) = lk_reconnect_deadline l \<and>
   (lk_transfer_deadline l \<noteq> None \<longrightarrow> lk_transfer_deadline (link_effect now e l) \<noteq> None) \<and>
   (\<forall>k\<in>{StreamReconnectWarning, StreamSourceUnavailable, StreamSourceUpdateRequired}.
      k \<in> lk_notices (link_effect now e l) \<longleftrightarrow> k \<in> lk_notices l)"
  by (induction now e l rule: link_effect.induct) (auto simp: quiet_def)

lemma quiet_fold:
  "list_all quiet es \<Longrightarrow> lk_state (fold (link_effect now) es l) = lk_state l \<and>
   lk_reconnect_deadline (fold (link_effect now) es l) = lk_reconnect_deadline l \<and>
   (lk_transfer_deadline l \<noteq> None \<longrightarrow> lk_transfer_deadline (fold (link_effect now) es l) \<noteq> None) \<and>
   (\<forall>k\<in>{StreamReconnectWarning, StreamSourceUnavailable, StreamSourceUpdateRequired}.
      k \<in> lk_notices (fold (link_effect now) es l) \<longleftrightarrow> k \<in> lk_notices l)"
proof (induction es arbitrary: l)
  case (Cons e es)
  then show ?case using quiet_effect [of e now l] by simp
qed simp

text \<open>Every input but a health report and the reconnect timeout is quiet and keeps the health.\<close>

lemma rules_quiet:
  assumes "\<forall>h. i \<noteq> InHealth h" and "i \<noteq> InReconnectTimedOut"
  shows "list_all quiet (snd (rules i s)) \<and> ts_health (fst (rules i s)) = ts_health s \<and>
    ts_reconnect_warning_raised (fst (rules i s)) = ts_reconnect_warning_raised s \<and>
    (is_transfer_requested (ts_active (fst (rules i s))) \<longrightarrow> ts_active (fst (rules i s)) = ts_active s)"
  using assms by (cases i) (auto simp: rule_defs quiet_def Let_def is_transfer_requested_def
      split: intent.split playback_change.split option.split remote_command.split active_state.splits)


lemma link_inv_congI:
  assumes "link_inv l" and "ts_health (lk_state m) = ts_health (lk_state l)"
    and "ts_reconnect_warning_raised (lk_state m) = ts_reconnect_warning_raised (lk_state l)"
    and "lk_reconnect_deadline m = lk_reconnect_deadline l"
    and "\<forall>k\<in>{StreamReconnectWarning, StreamSourceUnavailable, StreamSourceUpdateRequired}.
      k \<in> lk_notices m \<longleftrightarrow> k \<in> lk_notices l"
    and "is_transfer_requested (ts_active (lk_state m)) \<longrightarrow> lk_transfer_deadline m \<noteq> None"
  shows "link_inv m"
  using assms unfolding link_inv_def Let_def by simp

lemma fold_link_state [simp]: "lk_state (fold (link_effect now) es l) = lk_state l"
proof (induction es arbitrary: l)
  case (Cons e es)
  have "lk_state (link_effect now e l) = lk_state l"
    by (induction now e l rule: link_effect.induct) auto
  with Cons show ?case by simp
qed simp

lemma quiet_dispatch_inv:
  assumes inv: "link_inv l" and i: "\<forall>h. i \<noteq> InHealth h" "i \<noteq> InReconnectTimedOut"
  shows "link_inv (link_dispatch now i l)"
proof (cases "gate (lk_state l) i")
  case None
  let ?r = "rules i (lk_state l)"
  have q: "list_all quiet (snd ?r)" "ts_health (fst ?r) = ts_health (lk_state l)"
    "ts_reconnect_warning_raised (fst ?r) = ts_reconnect_warning_raised (lk_state l)"
    "is_transfer_requested (ts_active (fst ?r)) \<longrightarrow> ts_active (fst ?r) = ts_active (lk_state l)"
    using rules_quiet [OF i, of "lk_state l"] by auto
  have d: "link_dispatch now i l = fold (link_effect now) (snd ?r) (l\<lparr>lk_state := fst ?r\<rparr>)"
    using None by (simp add: link_dispatch_def reduce_def case_prod_beta)
  show ?thesis unfolding d
    using q quiet_fold [OF q(1), of now "l\<lparr>lk_state := fst ?r\<rparr>"] inv
    by (intro link_inv_congI [OF inv]) (auto simp: link_inv_def Let_def)
next
  case (Some r)
  from gate_cases [OF Some] show ?thesis
  proof
    assume "r = (lk_state l, [])"
    then show ?thesis using Some inv by (simp add: link_dispatch_def reduce_def)
  next
    assume "\<exists>p. pending_command_for i = Some p \<and> (\<exists>d. ts_active (lk_state l) = Inactive d) \<and>
      r = ((lk_state l)\<lparr>ts_active := TransferRequested (Some p)\<rparr>,
        [SourceEffect SrcRequestTransferHere, TimerEffect (TimerStart TransferTimer)])"
    then show ?thesis using Some
      by (intro link_inv_congI [OF inv]) (auto simp: link_dispatch_def reduce_def)
  qed
qed

lemma health_dispatch_inv:
  assumes inv: "link_inv l"
  shows "link_inv (link_dispatch now (InHealth h) l)"
proof -
  have "gate (lk_state l) (InHealth h) = None"
    by (simp add: gate_def is_pause_or_stop_def split: active_state.split)
  then show ?thesis
    using inv by (cases h; cases "ts_health (lk_state l)")
      (auto simp: link_dispatch_def reduce_def rule_health_def Let_def link_inv_def is_transient_def
        is_unavailable_def)
qed

lemma timeout_dispatch_inv:
  assumes inv: "link_inv l" and t: "is_transient (ts_health (lk_state l))"
    and d: "lk_reconnect_deadline l \<noteq> None"
  shows "link_inv (link_dispatch now InReconnectTimedOut (l\<lparr>lk_reconnect_deadline := None\<rparr>))"
proof -
  have "gate (lk_state l) InReconnectTimedOut = None"
    by (simp add: gate_def is_pause_or_stop_def split: active_state.split)
  then show ?thesis
    using inv t d by (auto simp: link_dispatch_def reduce_def link_inv_def Let_def is_unavailable_def
        is_transient_def split: source_health.splits)
qed

lemma transfer_poll_inv:
  assumes inv: "link_inv l"
  shows "link_inv (flush_transfer_timer now l)"
proof -
  have "link_inv (link_dispatch now InTransferTimedOut (l\<lparr>lk_transfer_deadline := None\<rparr>))"
    if t: "is_transfer_requested (ts_active (lk_state l))"
  proof -
    have "gate (lk_state l) InTransferTimedOut = None"
      by (simp add: gate_def is_pause_or_stop_def split: active_state.split)
    then show ?thesis using inv t
      by (auto simp: link_dispatch_def reduce_def link_inv_def Let_def is_transfer_requested_def
          split: active_state.splits)
  qed
  moreover have "link_inv (l\<lparr>lk_transfer_deadline := None\<rparr>)"
    if "\<not> is_transfer_requested (ts_active (lk_state l))"
    using inv that by (simp add: link_inv_def Let_def)
  ultimately show ?thesis
    using inv by (simp add: flush_transfer_timer_def split: option.split)
qed

lemma reconnect_poll_inv:
  assumes inv: "link_inv l"
  shows "link_inv (flush_reconnect_timer now l)"
proof (cases "lk_reconnect_deadline l")
  case (Some deadline)
  moreover have "is_transient (ts_health (lk_state l))"
    using inv Some by (auto simp: link_inv_def Let_def)
  ultimately show ?thesis
    using inv timeout_dispatch_inv [OF inv, of now] by (simp add: flush_reconnect_timer_def)
qed (use inv in \<open>simp add: flush_reconnect_timer_def\<close>)

lemma link_step_inv: "link_inv l \<Longrightarrow> link_step l l' \<Longrightarrow> link_inv l'"
proof (erule link_stepE)
  fix i now assume inv: "link_inv l" and i: "l' = link_dispatch now i l" "\<not> is_timer_input i"
  show "link_inv l'"
  proof (cases "\<exists>h. i = InHealth h")
    case True
    then show ?thesis using health_dispatch_inv [OF inv] i(1) by auto
  next
    case False
    then show ?thesis using quiet_dispatch_inv [OF inv] i by (auto simp: is_timer_input_def)
  qed
next
  fix now assume inv: "link_inv l" and l': "l' = sign_out now l"
  have "link_inv (link_dispatch now InStop l)" by (rule quiet_dispatch_inv [OF inv]) simp_all
  then show "link_inv l'" unfolding l' sign_out_def Let_def
    by (rule link_inv_congI) (auto simp: is_transfer_requested_def)
next
  fix reason assume inv: "link_inv l" and l': "l' = playback_not_permitted reason l"
  show "link_inv l'" unfolding l' playback_not_permitted_def
    by (rule link_inv_congI [OF inv]) (auto simp: is_transfer_requested_def)
next
  assume inv: "link_inv l" and l': "l' = no_device_remains l"
  show "link_inv l'" unfolding l' no_device_remains_def
    by (rule link_inv_congI [OF inv]) (use inv in \<open>auto simp: link_inv_def Let_def\<close>)
qed (auto intro: transfer_poll_inv reconnect_poll_inv)

interpretation link: machine "\<lambda>l. l = link_new" link_step link_inv
  by unfold_locales (simp add: link_inv_def link_new_def transport_default_def is_transient_def
      is_unavailable_def is_transfer_requested_def, blast intro: link_step_inv)

end
