(* ===== verification/Link_Theorems.thy ===== *)
theory Link_Theorems
  imports Link
begin

text \<open>The properties of the transport reducer and of the controller's connection state.\<close>

section \<open>Reachable states\<close>

definition demo_transient :: link where
  "demo_transient = link_dispatch 10 (InHealth (Transient 10 5)) link_new"

definition demo_requested :: link where
  "demo_requested = link_dispatch 10 InSkipForward (link_dispatch 5 InBecameInactive link_new)"

lemma demo_transient_steps: "link_step\<^sup>*\<^sup>* link_new demo_transient"
  unfolding demo_transient_def
  by (rule r_into_rtranclp, rule link_step.dispatched) (simp add: is_timer_input_def)

lemma demo_requested_steps: "link_step\<^sup>*\<^sup>* link_new demo_requested"
proof -
  have "link_step link_new (link_dispatch 5 InBecameInactive link_new)"
    by (rule link_step.dispatched) (simp add: is_timer_input_def)
  moreover have "link_step (link_dispatch 5 InBecameInactive link_new) demo_requested"
    unfolding demo_requested_def by (rule link_step.dispatched) (simp add: is_timer_input_def)
  ultimately show ?thesis by (meson rtranclp.intros)
qed

lemmas link_run = link_dispatch_def reduce_def gate_def rule_defs rule_health_def Let_def
  link_new_def transport_default_def

lemma demo_requested_state: "ts_active (lk_state demo_requested) = TransferRequested (Some PendingSkipForward)"
  by (simp add: demo_requested_def link_run is_pause_or_stop_def)

lemma demo_transient_state: "ts_health (lk_state demo_transient) = Transient 10 5"
  "\<not> ts_reconnect_warning_raised (lk_state demo_transient)"
  by (simp_all add: demo_transient_def link_run is_pause_or_stop_def is_transient_def is_unavailable_def)

text \<open>
  Whatever inputs the reducer is fed from its default state, buffering is only ever set while
  playing, and the reconnect warning is only up while the source is in transient trouble.
\<close>

lemma transport_state_consistent:
  "(\<lambda>s s'. \<exists>i. s' = fst (reduce s i))\<^sup>*\<^sup>* transport_default s \<Longrightarrow>
   (ts_buffering s \<longrightarrow> ts_intent s = Playing) \<and>
   (ts_reconnect_warning_raised s \<longrightarrow> is_transient (ts_health s))"
  using transport.reachable_inv [OF refl] unfolding transport_inv_def by blast

theorem transport_state_consistent_witness:
  "ts_buffering (fst (reduce transport_default (InPlay True False False))) \<and>
   ts_intent (fst (reduce transport_default (InPlay True False False))) = Playing"
proof -
  let ?s = "fst (reduce transport_default (InPlay True False False))"
  have "(\<lambda>s s'. \<exists>i. s' = fst (reduce s i))\<^sup>*\<^sup>* transport_default ?s" by (rule r_into_rtranclp) blast
  moreover have "ts_buffering ?s" by code_simp
  ultimately show ?thesis using transport_state_consistent by blast
qed

text \<open>
  C18. Over every interleaving of inputs, timer polls, sign-outs, lost permissions and lost devices:
  while the source is transient, either the 30 s timer runs or its warning has been raised, never
  both and never neither; otherwise neither; the warning notice is up exactly while the warning
  stands; a source-unavailable notice is up exactly while the source is unavailable; and a pending
  transfer request always has its timer.
\<close>

theorem link_reachable_invariant:
  assumes "link_step\<^sup>*\<^sup>* link_new l" and "s = lk_state l"
  shows "(is_transient (ts_health s) \<longleftrightarrow> (lk_reconnect_deadline l \<noteq> None) \<noteq> ts_reconnect_warning_raised s) \<and>
    \<not> (lk_reconnect_deadline l \<noteq> None \<and> ts_reconnect_warning_raised s) \<and>
    (StreamReconnectWarning \<in> lk_notices l \<longleftrightarrow> ts_reconnect_warning_raised s) \<and>
    (is_unavailable (ts_health s) \<longleftrightarrow>
       StreamSourceUnavailable \<in> lk_notices l \<or> StreamSourceUpdateRequired \<in> lk_notices l) \<and>
    (is_transfer_requested (ts_active s) \<longrightarrow> lk_transfer_deadline l \<noteq> None)"
  using link.reachable_inv [OF refl assms(1)] assms(2) by (auto simp: link_inv_def Let_def)

theorem link_reachable_invariant_witness:
  "is_transient (ts_health (lk_state demo_transient)) \<and> lk_reconnect_deadline demo_transient \<noteq> None \<and>
   StreamReconnectWarning \<notin> lk_notices demo_transient"
proof -
  have "is_transient (ts_health (lk_state demo_transient))" "\<not> ts_reconnect_warning_raised (lk_state demo_transient)"
    by (simp_all add: demo_transient_state is_transient_def)
  then show ?thesis using link_reachable_invariant [OF demo_transient_steps refl] by blast
qed

text \<open>
  A transfer request never hangs: whenever one is pending there is a deadline, and a poll at or
  after it gives up, makes the device inactive again and shows the failure notice; before it, a
  poll changes nothing.
\<close>

lemma transfer_request_times_out:
  assumes "link_step\<^sup>*\<^sup>* link_new l" and "is_transfer_requested (ts_active (lk_state l))"
  shows "\<exists>deadline. lk_transfer_deadline l = Some deadline \<and>
    (\<forall>now. now < deadline \<longrightarrow> flush_transfer_timer now l = l) \<and>
    (\<forall>now \<ge> deadline. let l' = flush_transfer_timer now l in
       ts_active (lk_state l') = Inactive None \<and> TransferRequestFailed \<in> lk_notices l' \<and>
       lk_transfer_deadline l' = None \<and> ts_intent (lk_state l') = ts_intent (lk_state l))"
proof -
  obtain deadline where d: "lk_transfer_deadline l = Some deadline"
    using link.reachable_inv [OF refl assms(1)] assms(2) by (auto simp: link_inv_def Let_def)
  have "gate (lk_state l) InTransferTimedOut = None"
    by (simp add: gate_def is_pause_or_stop_def split: active_state.split)
  with d assms(2) show ?thesis
    by (auto simp: flush_transfer_timer_def link_dispatch_def reduce_def Let_def
        is_transfer_requested_def split: active_state.splits)
qed

theorem transfer_request_times_out_witness:
  "is_transfer_requested (ts_active (lk_state demo_requested)) \<and>
   (\<exists>now. ts_active (lk_state (flush_transfer_timer now demo_requested)) = Inactive None)"
proof -
  have r: "is_transfer_requested (ts_active (lk_state demo_requested))"
    by (simp add: demo_requested_state is_transfer_requested_def)
  with transfer_request_times_out [OF demo_requested_steps r] show ?thesis
    unfolding Let_def by blast
qed

section \<open>The gate\<close>

definition is_playback_effect :: "effect \<Rightarrow> bool" where
  "is_playback_effect e \<longleftrightarrow> (case e of
     EngineEffect _ \<Rightarrow> True | SourceEffect c \<Rightarrow> c \<noteq> SrcRequestTransferHere | SeekTo _ _ \<Rightarrow> True
   | LoadCurrentProgram _ _ \<Rightarrow> True | QueueEffect _ \<Rightarrow> True | _ \<Rightarrow> False)"

lemma set_same_active: "ts_active s = a \<Longrightarrow> s\<lparr>ts_active := a\<rparr> = s"
  by (cases s) simp

text \<open>
  While another device is active, a playback command of the user never plays, seeks, loads or
  moves the queue here: it requests the transfer and remembers the command, or, when pausing,
  stopping or already waiting, does nothing at all. Intent, buffering and health are untouched.
\<close>

lemma gate_blocks_playback:
  assumes "(\<exists>d. ts_active s = Inactive d) \<or> is_transfer_requested (ts_active s)"
    and "pending_command_for i \<noteq> None \<or> is_pause_or_stop i" and "reduce s i = (s', effects)"
  shows "(\<forall>e\<in>set effects. \<not> is_playback_effect e) \<and> s'\<lparr>ts_active := ts_active s\<rparr> = s \<and>
    (effects \<noteq> [] \<longrightarrow> ts_active s' = TransferRequested (pending_command_for i)) \<and>
    (effects = [] \<longrightarrow> s' = s)"
proof -
  have "gate s i \<noteq> None"
    using assms(1,2) by (auto simp: gate_def is_transfer_requested_def split: active_state.splits option.splits)
  then obtain r where r: "gate s i = Some r" by blast
  have "r = (s', effects)" using assms(3) r by (simp add: reduce_def)
  with gate_cases [OF r] show ?thesis
    by (auto simp: is_playback_effect_def set_same_active)
qed

theorem gate_blocks_playback_witness:
  "list_all (\<lambda>e. \<not> is_playback_effect e) (snd (reduce (lk_state demo_requested) (InSeek 5 None True)))"
proof -
  have a: "(\<exists>d. ts_active (lk_state demo_requested) = Inactive d) \<or>
      is_transfer_requested (ts_active (lk_state demo_requested))"
    by (simp add: demo_requested_state is_transfer_requested_def)
  have "pending_command_for (InSeek 5 None True) \<noteq> None \<or> is_pause_or_stop (InSeek 5 None True)"
    by simp
  from gate_blocks_playback [OF a this prod.collapse [symmetric]] show ?thesis
    unfolding list_all_iff by (rule conjunct1)
qed

text \<open>
  A transfer that succeeds applies exactly the command that requested it, once: the device
  becomes active and the one effect of becoming active is that command; a second report of
  becoming active applies nothing.
\<close>

lemma transfer_applies_pending_command:
  assumes "ts_active s = Inactive d" and "pending_command_for i = Some p"
  shows "let (s1, _) = reduce s i; (s2, effects2) = reduce s1 (InBecameActive None);
      (s3, effects3) = reduce s2 (InBecameActive None)
    in effects2 = [ApplyPendingTransferCommand p] \<and> ts_active s2 = ActiveDevice \<and>
       effects3 = [] \<and> s3 = s2"
  using assms by (simp add: reduce_def gate_def rule_became_active_def is_pause_or_stop_def)

theorem transfer_applies_pending_command_witness:
  "let s1 = fst (reduce (transport_default\<lparr>ts_active := Inactive None\<rparr>) InSkipForward)
   in snd (reduce s1 (InBecameActive None)) = [ApplyPendingTransferCommand PendingSkipForward]"
  using transfer_applies_pending_command
    [of "transport_default\<lparr>ts_active := Inactive None\<rparr>" None InSkipForward PendingSkipForward]
  by (simp add: Let_def case_prod_beta)

section \<open>Downgrade\<close>

text \<open>
  A pending downgrade is never forgotten by the reducer: the only way out of it is to finish it,
  which stops, deregisters, disables with the premium reason and warns; in particular the end of a
  track finishes it and does not advance the queue.
\<close>

lemma downgrade_only_finishes:
  assumes "ts_downgrade_pending s" and "reduce s i = (s', effects)"
  shows "(ts_downgrade_pending s' \<or>
      (ts_intent s' = Stopped \<and> ts_active s' = NotRegistered PremiumRequired \<and>
       SourceEffect SrcDeregister \<in> set effects \<and>
       Notify SubscriptionDowngraded Warning [OpenUpgradePage] \<in> set effects)) \<and>
    (i = InEndOfTrack \<longrightarrow> \<not> ts_downgrade_pending s' \<and> (\<forall>op. QueueEffect op \<notin> set effects))"
proof (cases "gate s i")
  case (Some r)
  then have "i \<noteq> InEndOfTrack"
    by (auto simp: gate_def is_pause_or_stop_def split: active_state.splits)
  with Some gate_cases [OF Some] assms show ?thesis by (auto simp: reduce_def)
next
  case None
  with assms show ?thesis
    by (cases i) (auto simp: reduce_def rule_defs rule_health_def Let_def
        split: intent.splits playback_change.splits option.splits remote_command.splits
          active_state.splits if_splits)
qed

theorem downgrade_only_finishes_witness:
  "let s = fst (reduce (transport_default\<lparr>ts_intent := Playing\<rparr>) InTierRejected)
   in ts_downgrade_pending s \<and> \<not> ts_downgrade_pending (fst (reduce s InEndOfTrack))"
proof -
  define s where "s = fst (reduce (transport_default\<lparr>ts_intent := Playing\<rparr>) InTierRejected)"
  have "ts_downgrade_pending s" unfolding s_def by code_simp
  with downgrade_only_finishes [of s InEndOfTrack] show ?thesis
    unfolding s_def Let_def by (metis prod.collapse)
qed

text \<open>
  The pending downgrade survives a sign-out: when one account is rejected while playing and then
  signs out, the next account that registers and plays is stopped, deregistered and shown the
  downgrade warning at the end of its first track.
\<close>

lemma downgrade_survives_sign_out:
  assumes "ts_intent (lk_state l) = Playing" and "ts_active (lk_state l) = ActiveDevice"
    and "l1 = sign_out t2 (link_dispatch t1 InTierRejected l)"
    and "l2 = link_dispatch t4 (InPlay True False True) (link_dispatch t3 InRegistered l1)"
    and "l3 = link_dispatch t5 InEndOfTrack l2"
  shows "ts_active (lk_state l1) = NotRegistered SignedOut \<and>
    ts_active (lk_state l2) = ActiveDevice \<and> ts_intent (lk_state l2) = Playing \<and>
    ts_active (lk_state l3) = NotRegistered PremiumRequired \<and> ts_intent (lk_state l3) = Stopped \<and>
    SubscriptionDowngraded \<in> lk_notices l3"
  using assms by (simp add: sign_out_def link_dispatch_def reduce_def gate_def Let_def rule_defs)

definition demo_playing :: link where
  "demo_playing = link_dispatch 2 (InPlay True False True) (link_dispatch 1 InRegistered link_new)"

theorem downgrade_survives_sign_out_witness:
  "ts_active (lk_state (link_dispatch 9 InEndOfTrack (link_dispatch 6 (InPlay True False True)
      (link_dispatch 5 InRegistered (sign_out 4 (link_dispatch 3 InTierRejected demo_playing)))))) =
    NotRegistered PremiumRequired"
proof -
  have "ts_intent (lk_state demo_playing) = Playing" "ts_active (lk_state demo_playing) = ActiveDevice"
    by code_simp+
  from downgrade_survives_sign_out [OF this refl refl refl] show ?thesis by simp
qed

end
