(* ===== verification/Markers.thy ===== *)
theory Markers
  imports Source_Types "HOL-Library.Product_Lexorder"
begin

text \<open>
  The markers, cue points and loop regions of a track:
  \<^verbatim>\<open>crates/modplayer-core/src/markers/model.rs\<close>. Identifiers and positions (frames) are
  \<open>nat\<close>: the code only compares, clamps and increments them. The default name of a point comes
  from the translations and is a parameter \<open>point_name\<close> of the operations that use it
  (\<^verbatim>\<open>i18n::tr_args("marker-default-name", n)\<close>). An operation returns the new state and
  its result, errors included, since some of them change the state before they fail.
\<close>

section \<open>Data\<close>

definition MAX_MARKERS :: nat where "MAX_MARKERS = 64"
definition MAX_NAME_CHARS :: nat where "MAX_NAME_CHARS = 64"
definition DEFAULT_CROSSFADE_MS :: nat where "DEFAULT_CROSSFADE_MS = 5"

definition min_region_frames :: "nat \<Rightarrow> nat" where
  "min_region_frames rate = max (rate div 1000) 1"

type_synonym marker_id = nat
type_synonym region_id = nat

datatype cue_slot = CueSlot nat

definition cue_slot_new :: "nat \<Rightarrow> cue_slot option" where
  "cue_slot_new slot = (if 1 \<le> slot \<and> slot \<le> 8 then Some (CueSlot slot) else None)"

definition palette_new :: "nat \<Rightarrow> nat" where
  "palette_new index = min index 7"

definition palette_next :: "nat \<Rightarrow> nat" where
  "palette_next c = (c + 1) mod 8"

datatype repeat_count = Infinite | Times nat

definition times_clamped :: "nat \<Rightarrow> repeat_count" where
  "times_clamped v = Times (max 1 (min v 1000))"

datatype owner = OwnerHost | OwnerPlugin nat

datatype marker_kind = Point | RegionStart region_id | RegionEnd region_id | Cue cue_slot

record marker =
  mk_id :: marker_id
  mk_kind :: marker_kind
  mk_position :: nat
  mk_name :: ustring
  mk_color :: nat
  mk_owner :: owner
  mk_transient :: bool
  mk_visible :: bool
  mk_clamped :: bool

record loop_region =
  lr_id :: region_id
  lr_a :: "marker_id option"
  lr_b :: "marker_id option"
  lr_crossfade_ms :: nat
  lr_repeat :: repeat_count
  lr_armed :: bool
  lr_wraps :: nat

datatype marker_error = LimitReached | RegionTooShort | RegionIncomplete | NotFound | NotOwner

record track_markers =
  tm_track :: track_id
  tm_len_frames :: nat
  tm_sample_rate :: nat
  tm_markers :: "marker list"
  tm_regions :: "loop_region list"
  tm_current_region :: "region_id option"
  tm_next_marker_id :: nat
  tm_next_region_id :: nat
  tm_dirty :: bool
  tm_revision :: nat

type_synonym 'a marker_result = "track_markers \<times> (marker_error + 'a)"

definition track_markers_new :: "track_id \<Rightarrow> nat \<Rightarrow> nat \<Rightarrow> track_markers" where
  "track_markers_new track sample_rate len_frames =
     \<lparr>tm_track = track, tm_len_frames = len_frames, tm_sample_rate = sample_rate,
      tm_markers = [], tm_regions = [], tm_current_region = None, tm_next_marker_id = 1,
      tm_next_region_id = 1, tm_dirty = False, tm_revision = 0\<rparr>"

section \<open>Queries\<close>

definition marker_order :: "marker \<Rightarrow> nat \<times> nat" where
  "marker_order m = (mk_position m, mk_id m)"

definition marker_by_id :: "track_markers \<Rightarrow> marker_id \<Rightarrow> marker option" where
  "marker_by_id t i = find (\<lambda>m. mk_id m = i) (tm_markers t)"

definition region_by_id :: "track_markers \<Rightarrow> region_id \<Rightarrow> loop_region option" where
  "region_by_id t g = find (\<lambda>r. lr_id r = g) (tm_regions t)"

definition position_of :: "track_markers \<Rightarrow> marker_id \<Rightarrow> nat option" where
  "position_of t i = map_option mk_position (marker_by_id t i)"

definition owner_of :: "track_markers \<Rightarrow> marker_id \<Rightarrow> owner option" where
  "owner_of t i = map_option mk_owner (marker_by_id t i)"

definition cue_marker :: "track_markers \<Rightarrow> cue_slot \<Rightarrow> marker option" where
  "cue_marker t slot = find (\<lambda>m. mk_kind m = Cue slot) (tm_markers t)"

definition armed_region :: "track_markers \<Rightarrow> loop_region option" where
  "armed_region t = find lr_armed (tm_regions t)"

definition armed_region_owner :: "track_markers \<Rightarrow> owner option" where
  "armed_region_owner t =
     (case armed_region t of None \<Rightarrow> None
      | Some r \<Rightarrow> (case lr_a r of None \<Rightarrow> None | Some i \<Rightarrow> owner_of t i))"

definition is_complete :: "loop_region \<Rightarrow> bool" where
  "is_complete r \<longleftrightarrow> lr_a r \<noteq> None \<and> lr_b r \<noteq> None"

definition region_span :: "track_markers \<Rightarrow> loop_region \<Rightarrow> (nat \<times> nat) option" where
  "region_span t r =
     (case (lr_a r, lr_b r) of
        (Some a, Some b) \<Rightarrow>
          (case (position_of t a, position_of t b) of
             (Some pa, Some pb) \<Rightarrow> Some (pa, pb) | _ \<Rightarrow> None)
      | _ \<Rightarrow> None)"

definition length_frames :: "track_markers \<Rightarrow> loop_region \<Rightarrow> nat option" where
  "length_frames t r = map_option (\<lambda>(a, b). b - a) (region_span t r)"

definition is_armable :: "track_markers \<Rightarrow> nat \<Rightarrow> loop_region \<Rightarrow> bool" where
  "is_armable t rate r =
     (case region_span t r of Some (a, b) \<Rightarrow> min_region_frames rate \<le> b - a | None \<Rightarrow> False)"

section \<open>Internal helpers\<close>

definition touched :: "track_markers \<Rightarrow> track_markers" where
  "touched t = t\<lparr>tm_dirty := True, tm_revision := tm_revision t + 1\<rparr>"

definition resort :: "track_markers \<Rightarrow> track_markers" where
  "resort t = t\<lparr>tm_markers := sort_key marker_order (tm_markers t)\<rparr>"

definition from_parts ::
  "track_id \<Rightarrow> nat \<Rightarrow> nat \<Rightarrow> marker list \<Rightarrow> loop_region list \<Rightarrow> region_id option \<Rightarrow> nat \<Rightarrow> nat \<Rightarrow>
   track_markers"
where
  "from_parts track sample_rate len_frames ms rs current next_marker next_region =
     \<lparr>tm_track = track, tm_len_frames = len_frames, tm_sample_rate = sample_rate,
      tm_markers = sort_key marker_order ms, tm_regions = rs, tm_current_region = current,
      tm_next_marker_id = next_marker, tm_next_region_id = next_region, tm_dirty = False,
      tm_revision = 0\<rparr>"

definition update_marker :: "marker_id \<Rightarrow> (marker \<Rightarrow> marker) \<Rightarrow> track_markers \<Rightarrow> track_markers" where
  "update_marker i f t = t\<lparr>tm_markers := update_first (\<lambda>m. mk_id m = i) f (tm_markers t)\<rparr>"

definition update_region :: "region_id \<Rightarrow> (loop_region \<Rightarrow> loop_region) \<Rightarrow> track_markers \<Rightarrow> track_markers" where
  "update_region g f t = t\<lparr>tm_regions := update_first (\<lambda>r. lr_id r = g) f (tm_regions t)\<rparr>"

definition push_marker :: "marker \<Rightarrow> track_markers \<Rightarrow> track_markers" where
  "push_marker m t = t\<lparr>tm_markers := tm_markers t @ [m]\<rparr>"

definition push_region :: "loop_region \<Rightarrow> track_markers \<Rightarrow> track_markers" where
  "push_region r t = t\<lparr>tm_regions := tm_regions t @ [r]\<rparr>"

definition alloc_marker_id :: "track_markers \<Rightarrow> marker_id \<times> track_markers" where
  "alloc_marker_id t = (tm_next_marker_id t, t\<lparr>tm_next_marker_id := tm_next_marker_id t + 1\<rparr>)"

definition alloc_region_id :: "track_markers \<Rightarrow> region_id \<times> track_markers" where
  "alloc_region_id t = (tm_next_region_id t, t\<lparr>tm_next_region_id := tm_next_region_id t + 1\<rparr>)"

definition default_name_for :: "(nat \<Rightarrow> ustring) \<Rightarrow> marker_kind \<Rightarrow> track_markers \<Rightarrow> ustring" where
  "default_name_for point_name k t =
     (case k of
        Point \<Rightarrow> point_name (length (filter (\<lambda>m. mk_kind m = Point) (tm_markers t)) + 1)
      | _ \<Rightarrow> [])"

definition new_marker ::
  "marker_id \<Rightarrow> marker_kind \<Rightarrow> nat \<Rightarrow> ustring \<Rightarrow> nat \<Rightarrow> owner \<Rightarrow> bool \<Rightarrow> marker"
where
  "new_marker i k pos name color who transient =
     \<lparr>mk_id = i, mk_kind = k, mk_position = pos, mk_name = name, mk_color = color,
      mk_owner = who, mk_transient = transient, mk_visible = True, mk_clamped = False\<rparr>"

definition empty_region :: "region_id \<Rightarrow> loop_region" where
  "empty_region g = \<lparr>lr_id = g, lr_a = None, lr_b = None, lr_crossfade_ms = DEFAULT_CROSSFADE_MS,
     lr_repeat = Infinite, lr_armed = False, lr_wraps = 0\<rparr>"

definition maybe_swap_region_endpoints :: "region_id \<Rightarrow> track_markers \<Rightarrow> track_markers" where
  "maybe_swap_region_endpoints g t =
     (case region_by_id t g of
        None \<Rightarrow> t
      | Some r \<Rightarrow>
          (case (lr_a r, lr_b r) of
             (Some a, Some b) \<Rightarrow>
               (case (position_of t a, position_of t b) of
                  (Some pa, Some pb) \<Rightarrow>
                    if pa \<le> pb then t
                    else update_region g (\<lambda>r. r\<lparr>lr_a := Some b, lr_b := Some a\<rparr>)
                           (update_marker b (\<lambda>m. m\<lparr>mk_kind := RegionStart g\<rparr>)
                             (update_marker a (\<lambda>m. m\<lparr>mk_kind := RegionEnd g\<rparr>) t))
                | _ \<Rightarrow> t)
           | _ \<Rightarrow> t))"

section \<open>Operations\<close>

definition add_point_owned ::
  "(nat \<Rightarrow> ustring) \<Rightarrow> nat \<Rightarrow> owner \<Rightarrow> bool \<Rightarrow> track_markers \<Rightarrow> marker_id marker_result"
where
  "add_point_owned point_name pos who transient t =
     (if MAX_MARKERS \<le> length (tm_markers t) then (t, Inl LimitReached)
      else let p = min pos (tm_len_frames t);
               (i, t1) = alloc_marker_id t;
               name = default_name_for point_name Point t1
           in (touched (resort (push_marker (new_marker i Point p name (palette_new 1) who transient) t1)),
               Inr i))"

definition add_point :: "(nat \<Rightarrow> ustring) \<Rightarrow> nat \<Rightarrow> track_markers \<Rightarrow> marker_id marker_result" where
  "add_point point_name pos t = add_point_owned point_name pos OwnerHost False t"

definition new_loop_region_owned ::
  "nat \<Rightarrow> nat \<Rightarrow> owner \<Rightarrow> bool \<Rightarrow> track_markers \<Rightarrow> region_id marker_result"
where
  "new_loop_region_owned a_ms b_ms who transient t =
     (if MAX_MARKERS < length (tm_markers t) + 2 then (t, Inl LimitReached)
      else let (g, t1) = alloc_region_id t;
               t2 = push_region (empty_region g) t1;
               (a, t3) = alloc_marker_id t2;
               t4 = push_marker (new_marker a (RegionStart g) (min a_ms (tm_len_frames t)) []
                      (palette_new 0) who transient) t3;
               (b, t5) = alloc_marker_id t4;
               t6 = push_marker (new_marker b (RegionEnd g) (min b_ms (tm_len_frames t)) []
                      (palette_new 0) who transient) t5;
               t7 = update_region g (\<lambda>r. r\<lparr>lr_a := Some a, lr_b := Some b\<rparr>) t6
           in (touched (resort (maybe_swap_region_endpoints g (t7\<lparr>tm_current_region := Some g\<rparr>))),
               Inr g))"

definition move_cue :: "cue_slot \<Rightarrow> marker \<Rightarrow> nat \<Rightarrow> track_markers \<Rightarrow> marker_id marker_result" where
  "move_cue slot m pos t =
     (touched (resort (t\<lparr>tm_markers := update_first (\<lambda>m. mk_kind m = Cue slot)
        (\<lambda>m. m\<lparr>mk_position := pos, mk_clamped := False\<rparr>) (tm_markers t)\<rparr>)), Inr (mk_id m))"

definition create_cue :: "cue_slot \<Rightarrow> nat \<Rightarrow> owner \<Rightarrow> track_markers \<Rightarrow> marker_id marker_result" where
  "create_cue slot pos who t =
     (if MAX_MARKERS \<le> length (tm_markers t) then (t, Inl LimitReached)
      else let (i, t1) = alloc_marker_id t
           in (touched (resort (push_marker (new_marker i (Cue slot) pos [] (palette_new 2) who False) t1)),
               Inr i))"

definition set_cue_owned :: "cue_slot \<Rightarrow> nat \<Rightarrow> owner \<Rightarrow> track_markers \<Rightarrow> marker_id marker_result" where
  "set_cue_owned slot pos who t =
     (let p = min pos (tm_len_frames t)
      in case cue_marker t slot of
           Some m \<Rightarrow> if mk_owner m \<noteq> who then (t, Inl NotOwner) else move_cue slot m p t
         | None \<Rightarrow> create_cue slot p who t)"

definition set_cue :: "cue_slot \<Rightarrow> nat \<Rightarrow> track_markers \<Rightarrow> marker_id marker_result" where
  "set_cue slot pos t =
     (let p = min pos (tm_len_frames t)
      in case cue_marker t slot of
           Some m \<Rightarrow> move_cue slot m p t
         | None \<Rightarrow> create_cue slot p OwnerHost t)"

definition new_loop_region :: "track_markers \<Rightarrow> track_markers \<times> region_id" where
  "new_loop_region t =
     (let (g, t1) = alloc_region_id t
      in (touched ((push_region (empty_region g) t1)\<lparr>tm_current_region := Some g\<rparr>), g))"

definition endpoint_kind :: "bool \<Rightarrow> region_id \<Rightarrow> marker_kind" where
  "endpoint_kind which_a g = (if which_a then RegionStart g else RegionEnd g)"

definition place_endpoint ::
  "region_id \<Rightarrow> bool \<Rightarrow> nat \<Rightarrow> owner \<Rightarrow> track_markers \<Rightarrow> (region_id \<times> marker_id) marker_result"
where
  "place_endpoint g which_a pos who t =
     (let existing = (case region_by_id t g of None \<Rightarrow> None
                      | Some r \<Rightarrow> if which_a then lr_a r else lr_b r);
          finish = (\<lambda>t i. (touched (resort (maybe_swap_region_endpoints g
                             (t\<lparr>tm_current_region := Some g\<rparr>))), Inr (g, i)))
      in case existing of
           Some i \<Rightarrow> finish (update_marker i (\<lambda>m. m\<lparr>mk_position := pos, mk_clamped := False\<rparr>) t) i
         | None \<Rightarrow>
             if MAX_MARKERS \<le> length (tm_markers t) then (t, Inl LimitReached)
             else let (i, t1) = alloc_marker_id t;
                      t2 = push_marker (new_marker i (endpoint_kind which_a g) pos [] (palette_new 0)
                             who False) t1
                  in finish (update_region g
                       (\<lambda>r. if which_a then r\<lparr>lr_a := Some i\<rparr> else r\<lparr>lr_b := Some i\<rparr>) t2) i)"

definition set_loop_endpoint_owned ::
  "region_id option \<Rightarrow> bool \<Rightarrow> nat \<Rightarrow> owner \<Rightarrow> track_markers \<Rightarrow> (region_id \<times> marker_id) marker_result"
where
  "set_loop_endpoint_owned region which_a pos who t =
     (let p = min pos (tm_len_frames t)
      in case region of
           Some g \<Rightarrow> if region_by_id t g = None then (t, Inl NotFound)
                     else place_endpoint g which_a p who t
         | None \<Rightarrow> (let (t1, g) = new_loop_region t in place_endpoint g which_a p who t1))"

definition set_loop_a :: "nat \<Rightarrow> track_markers \<Rightarrow> (region_id \<times> marker_id) marker_result" where
  "set_loop_a pos t = set_loop_endpoint_owned (tm_current_region t) True pos OwnerHost t"

definition set_loop_b :: "nat \<Rightarrow> track_markers \<Rightarrow> (region_id \<times> marker_id) marker_result" where
  "set_loop_b pos t = set_loop_endpoint_owned (tm_current_region t) False pos OwnerHost t"

fun region_of_kind :: "marker_kind \<Rightarrow> region_id option" where
  "region_of_kind (RegionStart g) = Some g"
| "region_of_kind (RegionEnd g) = Some g"
| "region_of_kind _ = None"

definition move_marker :: "marker_id \<Rightarrow> nat \<Rightarrow> track_markers \<Rightarrow> unit marker_result" where
  "move_marker i pos t =
     (let p = min pos (tm_len_frames t)
      in case marker_by_id t i of
           None \<Rightarrow> (t, Inl NotFound)
         | Some m \<Rightarrow>
             (let t1 = update_marker i (\<lambda>m. m\<lparr>mk_position := p, mk_clamped := False\<rparr>) t;
                  t2 = (case region_of_kind (mk_kind m) of
                          Some g \<Rightarrow> maybe_swap_region_endpoints g t1 | None \<Rightarrow> t1)
              in (touched (resort t2), Inr ())))"

definition change_marker :: "marker_id \<Rightarrow> (marker \<Rightarrow> marker) \<Rightarrow> track_markers \<Rightarrow> unit marker_result" where
  "change_marker i f t =
     (case marker_by_id t i of
        None \<Rightarrow> (t, Inl NotFound)
      | Some _ \<Rightarrow> (touched (update_marker i f t), Inr ()))"

definition rename :: "marker_id \<Rightarrow> ustring \<Rightarrow> track_markers \<Rightarrow> unit marker_result" where
  "rename i name t =
     (let trimmed = trim name
      in change_marker i (\<lambda>m. if trimmed = [] then (if mk_kind m \<noteq> Point then m\<lparr>mk_name := []\<rparr> else m)
                              else m\<lparr>mk_name := take MAX_NAME_CHARS trimmed\<rparr>) t)"

definition recolor :: "marker_id \<Rightarrow> nat \<Rightarrow> track_markers \<Rightarrow> unit marker_result" where
  "recolor i color t = change_marker i (\<lambda>m. m\<lparr>mk_color := color\<rparr>) t"

definition cycle_color :: "marker_id \<Rightarrow> track_markers \<Rightarrow> unit marker_result" where
  "cycle_color i t = change_marker i (\<lambda>m. m\<lparr>mk_color := palette_next (mk_color m)\<rparr>) t"

definition max_region_id :: "loop_region list \<Rightarrow> region_id option" where
  "max_region_id rs = (case rs of [] \<Rightarrow> None | r # rest \<Rightarrow> Some (fold max (map lr_id rest) (lr_id r)))"

definition detach_endpoint :: "marker_kind \<Rightarrow> region_id \<Rightarrow> track_markers \<Rightarrow> track_markers" where
  "detach_endpoint k g t =
     (let t1 = update_region g
            (\<lambda>r. (if k = RegionStart g then r\<lparr>lr_a := None\<rparr> else r\<lparr>lr_b := None\<rparr>)\<lparr>lr_armed := False\<rparr>) t
      in case region_by_id t1 g of
           None \<Rightarrow> t1
         | Some r \<Rightarrow>
             if lr_a r = None \<and> lr_b r = None
             then let t2 = t1\<lparr>tm_regions := filter (\<lambda>r. lr_id r \<noteq> g) (tm_regions t1)\<rparr>
                  in if tm_current_region t2 = Some g
                     then t2\<lparr>tm_current_region := max_region_id (tm_regions t2)\<rparr> else t2
             else t1)"

definition delete :: "marker_id \<Rightarrow> track_markers \<Rightarrow> unit marker_result" where
  "delete i t =
     (case position (\<lambda>m. mk_id m = i) (tm_markers t) of
        None \<Rightarrow> (t, Inl NotFound)
      | Some index \<Rightarrow>
          (let k = mk_kind (tm_markers t ! index);
               t1 = t\<lparr>tm_markers := remove_nth index (tm_markers t)\<rparr>;
               t2 = (case region_of_kind k of Some g \<Rightarrow> detach_endpoint k g t1 | None \<Rightarrow> t1)
           in (touched t2, Inr ())))"

definition select_marker :: "marker_id \<Rightarrow> track_markers \<Rightarrow> unit marker_result" where
  "select_marker i t =
     (case marker_by_id t i of
        None \<Rightarrow> (t, Inl NotFound)
      | Some m \<Rightarrow>
          (touched (case region_of_kind (mk_kind m) of
                      Some g \<Rightarrow> t\<lparr>tm_current_region := Some g\<rparr> | None \<Rightarrow> t), Inr ()))"

definition arm :: "region_id \<Rightarrow> track_markers \<Rightarrow> unit marker_result" where
  "arm g t =
     (case region_by_id t g of
        None \<Rightarrow> (t, Inl NotFound)
      | Some r \<Rightarrow>
          (case (lr_a r, lr_b r) of
             (Some a, Some b) \<Rightarrow>
               (case (position_of t a, position_of t b) of
                  (Some pa, Some pb) \<Rightarrow>
                    if pb - pa < min_region_frames (tm_sample_rate t) then (t, Inl RegionTooShort)
                    else (touched (t\<lparr>tm_regions := map (\<lambda>r. if lr_id r = g
                              then r\<lparr>lr_armed := True, lr_wraps := 0\<rparr>
                              else r\<lparr>lr_armed := False\<rparr>) (tm_regions t),
                            tm_current_region := Some g\<rparr>), Inr ())
                | _ \<Rightarrow> (t, Inl NotFound))
           | _ \<Rightarrow> (t, Inl RegionIncomplete)))"

definition disarm :: "track_markers \<Rightarrow> track_markers" where
  "disarm t = touched (t\<lparr>tm_regions := map (\<lambda>r. r\<lparr>lr_armed := False\<rparr>) (tm_regions t)\<rparr>)"

definition disarm_if_owned_by :: "owner \<Rightarrow> track_markers \<Rightarrow> track_markers \<times> bool" where
  "disarm_if_owned_by who t =
     (if armed_region_owner t = Some who then (disarm t, True) else (t, False))"

definition toggle_current :: "track_markers \<Rightarrow> unit marker_result" where
  "toggle_current t =
     (case tm_current_region t of
        None \<Rightarrow> (t, Inl RegionIncomplete)
      | Some g \<Rightarrow>
          if (case region_by_id t g of None \<Rightarrow> False | Some r \<Rightarrow> lr_armed r)
          then (disarm t, Inr ()) else arm g t)"

definition change_region :: "region_id \<Rightarrow> (loop_region \<Rightarrow> loop_region) \<Rightarrow> track_markers \<Rightarrow> unit marker_result" where
  "change_region g f t =
     (case region_by_id t g of
        None \<Rightarrow> (t, Inl NotFound)
      | Some _ \<Rightarrow> (touched (update_region g f t), Inr ()))"

definition set_crossfade_ms :: "region_id \<Rightarrow> nat \<Rightarrow> track_markers \<Rightarrow> unit marker_result" where
  "set_crossfade_ms g ms t = change_region g (\<lambda>r. r\<lparr>lr_crossfade_ms := min ms 50\<rparr>) t"

definition set_region_repeat :: "region_id \<Rightarrow> repeat_count \<Rightarrow> track_markers \<Rightarrow> unit marker_result" where
  "set_region_repeat g rep t =
     change_region g
       (\<lambda>r. r\<lparr>lr_repeat := (case rep of Infinite \<Rightarrow> Infinite | Times n \<Rightarrow> times_clamped n)\<rparr>) t"

definition clear_all :: "track_markers \<Rightarrow> track_markers" where
  "clear_all t = touched (t\<lparr>tm_markers := [], tm_regions := [], tm_current_region := None\<rparr>)"

definition clamp_marker :: "nat \<Rightarrow> marker \<Rightarrow> marker" where
  "clamp_marker len m =
     (if len < mk_position m then m\<lparr>mk_position := len, mk_clamped := True\<rparr> else m)"

definition set_len_frames :: "nat \<Rightarrow> track_markers \<Rightarrow> track_markers" where
  "set_len_frames len t =
     touched (t\<lparr>tm_len_frames := len, tm_markers := map (clamp_marker len) (tm_markers t)\<rparr>)"

definition mark_clean :: "track_markers \<Rightarrow> track_markers" where
  "mark_clean t = t\<lparr>tm_dirty := False\<rparr>"

definition remove_transient_owned_by :: "owner \<Rightarrow> track_markers \<Rightarrow> track_markers \<times> nat" where
  "remove_transient_owned_by who t =
     (let ids = map mk_id (filter (\<lambda>m. mk_transient m \<and> mk_owner m = who) (tm_markers t))
      in (fold (\<lambda>i t. fst (delete i t)) ids t, length ids))"

end
