(* ===== verification/Markers_Invariants.thy ===== *)
theory Markers_Invariants
  imports Markers
begin

text \<open>
  The invariant of the marker model: unique identifiers below the counters, positions inside the
  track, the two-way link between regions and their endpoint markers, at most one armed region and
  that one complete, the current region known, one marker per cue slot, the size limit; endpoints in
  order; and the list sorted by position and identifier.
\<close>

section \<open>The invariant\<close>

text \<open>What a marker is for: its identifier with its kind.\<close>

type_synonym roles = "(marker_id \<times> marker_kind) set"

definition role :: "marker \<Rightarrow> marker_id \<times> marker_kind" where
  "role m = (mk_id m, mk_kind m)"

definition roles_of :: "track_markers \<Rightarrow> roles" where
  "roles_of t = role ` set (tm_markers t)"

definition region_linked :: "roles \<Rightarrow> loop_region \<Rightarrow> bool" where
  "region_linked P r \<longleftrightarrow>
     (\<forall>i. lr_a r = Some i \<longleftrightarrow> (i, RegionStart (lr_id r)) \<in> P) \<and>
     (\<forall>i. lr_b r = Some i \<longleftrightarrow> (i, RegionEnd (lr_id r)) \<in> P)"

definition linked :: "roles \<Rightarrow> loop_region set \<Rightarrow> bool" where
  "linked P R \<longleftrightarrow>
     (\<forall>r\<in>R. region_linked P r) \<and>
     (\<forall>i k g. (i, k) \<in> P \<longrightarrow> region_of_kind k = Some g \<longrightarrow> g \<in> lr_id ` R)"

definition ids_ok :: "track_markers \<Rightarrow> bool" where
  "ids_ok t \<longleftrightarrow>
     distinct (map mk_id (tm_markers t)) \<and> (\<forall>m\<in>set (tm_markers t). mk_id m < tm_next_marker_id t) \<and>
     distinct (map lr_id (tm_regions t)) \<and> (\<forall>r\<in>set (tm_regions t). lr_id r < tm_next_region_id t)"

definition armed_ok :: "loop_region list \<Rightarrow> bool" where
  "armed_ok rs \<longleftrightarrow>
     (\<forall>r\<in>set rs. lr_armed r \<longrightarrow> is_complete r) \<and>
     (\<forall>r\<in>set rs. \<forall>r'\<in>set rs. lr_armed r \<and> lr_armed r' \<longrightarrow> lr_id r = lr_id r')"

definition cues_ok :: "roles \<Rightarrow> bool" where
  "cues_ok P \<longleftrightarrow> (\<forall>i j s. (i, Cue s) \<in> P \<longrightarrow> (j, Cue s) \<in> P \<longrightarrow> i = j)"

definition markers_core :: "track_markers \<Rightarrow> bool" where
  "markers_core t \<longleftrightarrow>
     ids_ok t \<and> (\<forall>m\<in>set (tm_markers t). mk_position m \<le> tm_len_frames t) \<and>
     linked (roles_of t) (set (tm_regions t)) \<and>
     (\<forall>g. tm_current_region t = Some g \<longrightarrow> g \<in> lr_id ` set (tm_regions t)) \<and>
     armed_ok (tm_regions t) \<and> cues_ok (roles_of t) \<and> length (tm_markers t) \<le> MAX_MARKERS"

definition endpoints_ordered :: "marker set \<Rightarrow> region_id \<Rightarrow> bool" where
  "endpoints_ordered M g \<longleftrightarrow>
     (\<forall>x\<in>M. \<forall>y\<in>M. mk_kind x = RegionStart g \<and> mk_kind y = RegionEnd g \<longrightarrow>
        mk_position x \<le> mk_position y)"

definition markers_inv :: "track_markers \<Rightarrow> bool" where
  "markers_inv t \<longleftrightarrow> markers_core t \<and> (\<forall>g. endpoints_ordered (set (tm_markers t)) g)"

definition markers_sorted :: "track_markers \<Rightarrow> bool" where
  "markers_sorted t \<longleftrightarrow> sorted (map marker_order (tm_markers t))"

section \<open>Bookkeeping\<close>

lemma touched_simps [simp]:
  "tm_markers (touched t) = tm_markers t" "tm_regions (touched t) = tm_regions t"
  "tm_len_frames (touched t) = tm_len_frames t" "tm_current_region (touched t) = tm_current_region t"
  "tm_next_marker_id (touched t) = tm_next_marker_id t"
  "tm_next_region_id (touched t) = tm_next_region_id t" "tm_sample_rate (touched t) = tm_sample_rate t"
  by (simp_all add: touched_def)

lemma resort_simps [simp]:
  "set (tm_markers (resort t)) = set (tm_markers t)" "tm_regions (resort t) = tm_regions t"
  "tm_len_frames (resort t) = tm_len_frames t" "tm_current_region (resort t) = tm_current_region t"
  "tm_next_marker_id (resort t) = tm_next_marker_id t"
  "tm_next_region_id (resort t) = tm_next_region_id t"
  "length (tm_markers (resort t)) = length (tm_markers t)"
  by (simp_all add: resort_def)

lemma resort_distinct [simp]:
  "distinct (map mk_id (tm_markers (resort t))) = distinct (map mk_id (tm_markers t))"
proof -
  have "mset (map mk_id (tm_markers (resort t))) = mset (map mk_id (tm_markers t))"
    by (simp add: resort_def)
  then show ?thesis by (rule mset_eq_imp_distinct_iff)
qed

lemma inv_touched [simp]: "markers_core (touched t) = markers_core t" "markers_inv (touched t) = markers_inv t"
  by (simp_all add: markers_inv_def markers_core_def ids_ok_def roles_of_def)

lemma inv_resort [simp]: "markers_core (resort t) = markers_core t" "markers_inv (resort t) = markers_inv t"
  by (simp_all add: markers_inv_def markers_core_def ids_ok_def roles_of_def)

lemma sorted_resort: "markers_sorted (touched (resort t))"
  by (simp add: markers_sorted_def resort_def)

lemma core_ids: "markers_core t \<Longrightarrow> distinct (map mk_id (tm_markers t))"
  "markers_core t \<Longrightarrow> distinct (map lr_id (tm_regions t))"
  by (simp_all add: markers_core_def ids_ok_def)

lemma core_fresh_marker: "markers_core t \<Longrightarrow> m \<in> set (tm_markers t) \<Longrightarrow> mk_id m < tm_next_marker_id t"
  by (simp add: markers_core_def ids_ok_def)

lemma core_fresh_region: "markers_core t \<Longrightarrow> r \<in> set (tm_regions t) \<Longrightarrow> lr_id r < tm_next_region_id t"
  by (simp add: markers_core_def ids_ok_def)

lemma markers_coreI:
  assumes "ids_ok t" and "\<And>m. m \<in> set (tm_markers t) \<Longrightarrow> mk_position m \<le> tm_len_frames t"
    and "linked (roles_of t) (set (tm_regions t))"
    and "\<And>g. tm_current_region t = Some g \<Longrightarrow> g \<in> lr_id ` set (tm_regions t)"
    and "armed_ok (tm_regions t)" and "cues_ok (roles_of t)" and "length (tm_markers t) \<le> MAX_MARKERS"
  shows "markers_core t"
  using assms by (simp add: markers_core_def)

lemma core_parts:
  "markers_core t \<Longrightarrow> ids_ok t"
  "markers_core t \<Longrightarrow> m \<in> set (tm_markers t) \<Longrightarrow> mk_position m \<le> tm_len_frames t"
  "markers_core t \<Longrightarrow> tm_current_region t = Some g \<Longrightarrow> g \<in> lr_id ` set (tm_regions t)"
  "markers_core t \<Longrightarrow> armed_ok (tm_regions t)"
  "markers_core t \<Longrightarrow> cues_ok (roles_of t)"
  "markers_core t \<Longrightarrow> length (tm_markers t) \<le> MAX_MARKERS"
  by (simp_all add: markers_core_def)

lemma cues_insertI:
  "cues_ok P \<Longrightarrow> (\<And>s i. k = Cue s \<Longrightarrow> (i, Cue s) \<notin> P) \<Longrightarrow> cues_ok (insert (j, k) P)"
  unfolding cues_ok_def by blast

lemma core_linked: "markers_core t \<Longrightarrow> linked (roles_of t) (set (tm_regions t))"
  by (simp add: markers_core_def)

lemma linked_region: "linked P R \<Longrightarrow> r \<in> R \<Longrightarrow> region_linked P r"
  by (simp add: linked_def)

lemma linked_kind: "linked P R \<Longrightarrow> (i, k) \<in> P \<Longrightarrow> region_of_kind k = Some g \<Longrightarrow> g \<in> lr_id ` R"
  by (simp add: linked_def)

lemma linked_insertI: "linked P R \<Longrightarrow> region_linked P r \<Longrightarrow> linked P (insert r R)"
  unfolding linked_def by blast

text \<open>Only roles that belong to the region matter to its link.\<close>

lemma region_linked_cong:
  assumes "\<And>i. (i, RegionStart (lr_id r)) \<in> Q \<longleftrightarrow> (i, RegionStart (lr_id r)) \<in> P"
    and "\<And>i. (i, RegionEnd (lr_id r)) \<in> Q \<longleftrightarrow> (i, RegionEnd (lr_id r)) \<in> P"
  shows "region_linked Q r = region_linked P r"
  using assms by (simp add: region_linked_def)

lemma role_in: "m \<in> set (tm_markers t) \<Longrightarrow> (mk_id m, mk_kind m) \<in> roles_of t"
  by (force simp: roles_of_def role_def)

lemma roles_ofE:
  assumes "(i, k) \<in> roles_of t"
  obtains m where "m \<in> set (tm_markers t)" and "mk_id m = i" and "mk_kind m = k"
  using assms by (auto simp: roles_of_def role_def)

text \<open>Looking up by identifier.\<close>

lemma marker_by_idD: "marker_by_id t i = Some m \<Longrightarrow> m \<in> set (tm_markers t) \<and> mk_id m = i"
  by (auto simp: marker_by_id_def dest: find_SomeD)

lemma marker_by_id_eq:
  "markers_core t \<Longrightarrow> m \<in> set (tm_markers t) \<Longrightarrow> marker_by_id t (mk_id m) = Some m"
  unfolding marker_by_id_def by (rule find_key [OF core_ids(1)])

lemma region_by_idD: "region_by_id t g = Some r \<Longrightarrow> r \<in> set (tm_regions t) \<and> lr_id r = g"
  by (auto simp: region_by_id_def dest: find_SomeD)

lemma region_by_id_eq:
  "markers_core t \<Longrightarrow> r \<in> set (tm_regions t) \<Longrightarrow> region_by_id t (lr_id r) = Some r"
  unfolding region_by_id_def by (rule find_key [OF core_ids(2)])

lemma position_of_eq: "markers_core t \<Longrightarrow> m \<in> set (tm_markers t) \<Longrightarrow> position_of t (mk_id m) = Some (mk_position m)"
  by (simp add: position_of_def marker_by_id_eq)

lemma markers_update:
  "markers_core t \<Longrightarrow>
   set (tm_markers (update_marker i f t)) = (\<lambda>m. if mk_id m = i then f m else m) ` set (tm_markers t)"
  unfolding update_marker_def by (simp add: set_update_first_key core_ids)

lemma regions_update:
  "markers_core t \<Longrightarrow>
   set (tm_regions (update_region g f t)) = (\<lambda>r. if lr_id r = g then f r else r) ` set (tm_regions t)"
  unfolding update_region_def by (simp add: set_update_first_key core_ids)


section \<open>Elementary changes\<close>

text \<open>A new marker of no region.\<close>

lemma push_free_marker:
  assumes core: "markers_core t" and lim: "length (tm_markers t) < MAX_MARKERS"
    and m: "mk_id m = tm_next_marker_id t" "region_of_kind (mk_kind m) = None" "mk_position m \<le> tm_len_frames t"
    and cue: "\<And>s. mk_kind m = Cue s \<Longrightarrow> cue_marker t s = None"
  shows "markers_core (push_marker m (snd (alloc_marker_id t)))" (is "markers_core ?t")
proof -
  have ms: "tm_markers ?t = tm_markers t @ [m]" "tm_regions ?t = tm_regions t"
    "tm_next_marker_id ?t = Suc (tm_next_marker_id t)" "tm_next_region_id ?t = tm_next_region_id t"
    "tm_len_frames ?t = tm_len_frames t" "tm_current_region ?t = tm_current_region t"
    by (simp_all add: push_marker_def alloc_marker_id_def)
  have rs: "roles_of ?t = insert (mk_id m, mk_kind m) (roles_of t)" by (simp add: roles_of_def ms role_def)
  have "mk_id m \<notin> mk_id ` set (tm_markers t)" using core_fresh_marker [OF core] m(1) by fastforce
  then have ids: "ids_ok ?t"
    using core m(1) unfolding markers_core_def ids_ok_def ms by (auto intro: less_SucI)
  have k: "mk_kind m \<noteq> RegionStart g" "mk_kind m \<noteq> RegionEnd g" for g using m(2) by auto
  have "region_linked (roles_of ?t) r = region_linked (roles_of t) r" for r
    by (rule region_linked_cong) (simp_all add: rs not_sym [OF k(1)] not_sym [OF k(2)])
  then have link: "linked (roles_of ?t) (set (tm_regions ?t))"
    using core_linked [OF core] m(2) unfolding linked_def ms rs by auto
  have "(i, mk_kind m) \<notin> roles_of t" if "mk_kind m = Cue s" for s i
    using cue [OF that] that by (auto simp: cue_marker_def find_None_iff_ball elim: roles_ofE)
  then have cues: "cues_ok (roles_of ?t)"
    unfolding rs using core_parts(5) [OF core] by (intro cues_insertI) auto
  show ?thesis
    by (rule markers_coreI [OF ids _ link _ _ cues])
      (use core_parts [OF core] lim m(3) in \<open>auto simp: ms\<close>)
qed

lemma push_free_marker_ordered:
  "region_of_kind (mk_kind m) = None \<Longrightarrow> endpoints_ordered (set (tm_markers t)) g \<Longrightarrow>
   endpoints_ordered (set (tm_markers (push_marker m (snd (alloc_marker_id t))))) g"
  by (auto simp: endpoints_ordered_def push_marker_def alloc_marker_id_def)

lemma armed_ok_snoc: "armed_ok rs \<Longrightarrow> \<not> lr_armed r \<Longrightarrow> armed_ok (rs @ [r])"
  unfolding armed_ok_def set_append list.set by blast

text \<open>A new empty region, made current.\<close>

lemma new_region_core:
  assumes core: "markers_core t"
  shows "markers_core ((push_region (empty_region (tm_next_region_id t)) (snd (alloc_region_id t)))
    \<lparr>tm_current_region := Some (tm_next_region_id t)\<rparr>)" (is "markers_core ?t")
proof -
  let ?g = "tm_next_region_id t"
  have ms: "tm_markers ?t = tm_markers t" "tm_regions ?t = tm_regions t @ [empty_region ?g]"
    "tm_next_marker_id ?t = tm_next_marker_id t" "tm_next_region_id ?t = Suc ?g"
    "tm_len_frames ?t = tm_len_frames t" "tm_current_region ?t = Some ?g"
    by (simp_all add: push_region_def alloc_region_id_def)
  have er: "lr_id (empty_region ?g) = ?g" "lr_a (empty_region ?g) = None" "lr_b (empty_region ?g) = None"
    "\<not> lr_armed (empty_region ?g)" by (simp_all add: empty_region_def)
  have fresh: "?g \<notin> lr_id ` set (tm_regions t)" using core_fresh_region [OF core] by fastforce
  then have ids: "ids_ok ?t"
    using core er unfolding markers_core_def ids_ok_def ms by (auto intro: less_SucI)
  have rs: "roles_of ?t = roles_of t" by (simp add: roles_of_def ms)
  have none: "(i, RegionStart ?g) \<notin> roles_of t" "(i, RegionEnd ?g) \<notin> roles_of t" for i
    using linked_kind [OF core_linked [OF core]] fresh by fastforce+
  have "region_linked (roles_of t) (empty_region ?g)" using none by (simp add: region_linked_def er)
  then have "linked (roles_of t) (insert (empty_region ?g) (set (tm_regions t)))"
    by (rule linked_insertI [OF core_linked [OF core]])
  then have link: "linked (roles_of ?t) (set (tm_regions ?t))" by (simp add: rs ms)
  have armed: "armed_ok (tm_regions ?t)"
    unfolding ms using core_parts(4) [OF core] er(4) by (rule armed_ok_snoc)
  have cues: "cues_ok (roles_of ?t)" using core_parts(5) [OF core] by (simp add: rs)
  show ?thesis
    by (rule markers_coreI [OF ids _ link _ armed cues])
      (simp_all add: push_region_def alloc_region_id_def er core_parts(2,6) [OF core])
qed

text \<open>A marker moved, within the track.\<close>

definition moved_to :: "nat \<Rightarrow> marker \<Rightarrow> marker" where
  "moved_to p m = m\<lparr>mk_position := p, mk_clamped := False\<rparr>"

lemma moved_to_simps [simp]:
  "mk_id (moved_to p m) = mk_id m" "mk_kind (moved_to p m) = mk_kind m"
  "mk_position (moved_to p m) = p"
  by (simp_all add: moved_to_def)

lemma update_marker_core:
  assumes core: "markers_core t"
    and f: "\<And>m. mk_id (f m) = mk_id m" "\<And>m. mk_kind (f m) = mk_kind m"
      "\<And>m. mk_position m \<le> tm_len_frames t \<Longrightarrow> mk_position (f m) \<le> tm_len_frames t"
  shows "markers_core (update_marker i f t)"
proof -
  let ?h = "\<lambda>m. if mk_id m = i then f m else m"
  have ms: "set (tm_markers (update_marker i f t)) = ?h ` set (tm_markers t)" using markers_update [OF core] .
  have same: "mk_id (?h m) = mk_id m" "mk_kind (?h m) = mk_kind m" for m using f by simp_all
  have rest: "tm_regions (update_marker i f t) = tm_regions t"
    "tm_len_frames (update_marker i f t) = tm_len_frames t"
    "tm_current_region (update_marker i f t) = tm_current_region t"
    "tm_next_marker_id (update_marker i f t) = tm_next_marker_id t"
    "tm_next_region_id (update_marker i f t) = tm_next_region_id t"
    "map mk_id (tm_markers (update_marker i f t)) = map mk_id (tm_markers t)"
    "length (tm_markers (update_marker i f t)) = length (tm_markers t)"
    by (simp_all add: update_marker_def f)
  have rs: "roles_of (update_marker i f t) = roles_of t"
    unfolding roles_of_def ms image_image role_def same ..
  have "\<forall>m\<in>?h ` set (tm_markers t). mk_position m \<le> tm_len_frames t"
    using core f(3) by (auto simp: markers_core_def)
  then show ?thesis
    using core unfolding markers_core_def ids_ok_def rs ms rest by (auto simp: f)
qed


section \<open>Changes of regions\<close>

lemma region_linked_fields:
  "lr_id r' = lr_id r \<Longrightarrow> lr_a r' = lr_a r \<Longrightarrow> lr_b r' = lr_b r \<Longrightarrow> region_linked P r' = region_linked P r"
  by (simp add: region_linked_def)

lemma linked_mapI:
  assumes "\<And>x. x \<in> R \<Longrightarrow> region_linked Q (h x)" and h: "\<And>x. lr_id (h x) = lr_id x"
    and "\<And>i k g. (i, k) \<in> Q \<Longrightarrow> region_of_kind k = Some g \<Longrightarrow> g \<in> lr_id ` R"
  shows "linked Q (h ` R)"
  unfolding linked_def image_image h using assms(1,3) by blast

lemma armed_ok_map:
  assumes "armed_ok rs" and "\<And>r. lr_id (h r) = lr_id r"
    and "\<And>r. r \<in> set rs \<Longrightarrow> lr_armed (h r) \<Longrightarrow> lr_armed r \<and> (is_complete r \<longrightarrow> is_complete (h r))"
  shows "armed_ok (map h rs)"
  unfolding armed_ok_def set_map
proof (intro conjI ballI impI)
  fix r assume "r \<in> h ` set rs" and a: "lr_armed r"
  then obtain r0 where "r0 \<in> set rs" "r = h r0" by blast
  with assms(1,3) a show "is_complete r" unfolding armed_ok_def by blast
next
  fix r r' assume "r \<in> h ` set rs" "r' \<in> h ` set rs" and a: "lr_armed r \<and> lr_armed r'"
  then obtain r0 r1 where r: "r0 \<in> set rs" "r = h r0" "r1 \<in> set rs" "r' = h r1" by blast
  then have "lr_armed r0" "lr_armed r1" using assms(3) a by blast+
  with assms(1) r show "lr_id r = lr_id r'" unfolding armed_ok_def assms(2) r by blast
qed

lemma update_region_eq:
  "markers_core t \<Longrightarrow>
   update_region g f t = t\<lparr>tm_regions := map (\<lambda>r. if lr_id r = g then f r else r) (tm_regions t)\<rparr>"
  unfolding update_region_def by (simp add: update_first_key core_ids)

text \<open>Regions rewritten one by one, with their endpoints kept.\<close>

lemma map_regions_core:
  assumes core: "markers_core t"
    and h: "\<And>r. lr_id (h r) = lr_id r" "\<And>r. lr_a (h r) = lr_a r" "\<And>r. lr_b (h r) = lr_b r"
    and armed: "armed_ok (map h (tm_regions t))"
  shows "markers_core (t\<lparr>tm_regions := map h (tm_regions t)\<rparr>)" (is "markers_core ?t")
proof (rule markers_coreI)
  have "region_linked (roles_of t) (h r) = region_linked (roles_of t) r" for r
    by (rule region_linked_fields) (simp_all add: h)
  moreover have "lr_id ` h ` R = lr_id ` R" for R unfolding image_image h ..
  ultimately show "linked (roles_of ?t) (set (tm_regions ?t))"
    using core_linked [OF core] by (simp add: linked_def roles_of_def)
  show "ids_ok ?t"
    using core_parts(1) [OF core] by (simp add: ids_ok_def comp_def h)
  show "\<And>g. tm_current_region ?t = Some g \<Longrightarrow> g \<in> lr_id ` set (tm_regions ?t)"
    using core_parts(3) [OF core] by (simp add: image_image h)
  show "cues_ok (roles_of ?t)" using core_parts(5) [OF core] by (simp add: roles_of_def)
qed (use armed core_parts(2,6) [OF core] in simp_all)

section \<open>Endpoints\<close>

text \<open>A missing endpoint attached.\<close>

definition set_endpoint :: "bool \<Rightarrow> marker_id \<Rightarrow> loop_region \<Rightarrow> loop_region" where
  "set_endpoint which_a i r = (if which_a then r\<lparr>lr_a := Some i\<rparr> else r\<lparr>lr_b := Some i\<rparr>)"

lemma set_endpoint_simps [simp]:
  "lr_id (set_endpoint w i r) = lr_id r" "lr_armed (set_endpoint w i r) = lr_armed r"
  "lr_a (set_endpoint w i r) = (if w then Some i else lr_a r)"
  "lr_b (set_endpoint w i r) = (if w then lr_b r else Some i)"
  by (simp_all add: set_endpoint_def)

definition attached :: "region_id \<Rightarrow> bool \<Rightarrow> marker \<Rightarrow> track_markers \<Rightarrow> track_markers" where
  "attached g w m t = update_region g (set_endpoint w (mk_id m)) (push_marker m (snd (alloc_marker_id t)))"

lemma attached_core:
  assumes core: "markers_core t" and lim: "length (tm_markers t) < MAX_MARKERS"
    and m: "mk_id m = tm_next_marker_id t" "mk_kind m = endpoint_kind w g" "mk_position m \<le> tm_len_frames t"
    and r: "r \<in> set (tm_regions t)" "lr_id r = g" "(if w then lr_a r else lr_b r) = None"
  shows "markers_core (attached g w m t)" (is "markers_core ?t")
proof -
  let ?h = "\<lambda>r. if lr_id r = g then set_endpoint w (mk_id m) r else r"
  have rs0: "update_first (\<lambda>r. lr_id r = g) f (tm_regions t) =
      map (\<lambda>r. if lr_id r = g then f r else r) (tm_regions t)" for f
    by (rule update_first_key [OF core_ids(2) [OF core]])
  have ms: "tm_markers ?t = tm_markers t @ [m]" "tm_regions ?t = map ?h (tm_regions t)"
    "tm_next_marker_id ?t = Suc (tm_next_marker_id t)" "tm_next_region_id ?t = tm_next_region_id t"
    "tm_len_frames ?t = tm_len_frames t" "tm_current_region ?t = tm_current_region t"
    by (simp_all add: attached_def update_region_def rs0 push_marker_def alloc_marker_id_def)
  have roles: "roles_of ?t = insert (mk_id m, endpoint_kind w g) (roles_of t)"
    by (simp add: roles_of_def ms role_def m(2))
  have hid: "lr_id (?h x) = lr_id x" for x by simp
  have ids: "ids_ok ?t"
  proof -
    have "mk_id m \<notin> mk_id ` set (tm_markers t)" using core_fresh_marker [OF core] m(1) by fastforce
    then show ?thesis
      using core_parts(1) [OF core] m(1) unfolding ids_ok_def ms
      by (auto simp: comp_def hid intro: less_SucI)
  qed
  have uniq: "x = r" if "x \<in> set (tm_regions t)" "lr_id x = g" for x
    using key_unique [OF core_ids(2) [OF core] that(1) r(1)] that(2) r(2) by simp
  have linkr: "region_linked (roles_of t) x" if "x \<in> set (tm_regions t)" for x
    using linked_region [OF core_linked [OF core] that] .
  have "region_linked (roles_of ?t) (?h x)" if x: "x \<in> set (tm_regions t)" for x
  proof (cases "lr_id x = g")
    case True
    then have "x = r" using uniq x by blast
    with linkr [OF r(1)] r(2,3) show ?thesis
      unfolding roles by (cases w) (auto simp: region_linked_def endpoint_kind_def)
  next
    case False
    then have "region_linked (roles_of ?t) x = region_linked (roles_of t) x"
      by (intro region_linked_cong) (auto simp: roles endpoint_kind_def)
    with linkr [OF x] False show ?thesis by simp
  qed
  moreover have "g' \<in> lr_id ` set (tm_regions t)" if "(i, k) \<in> roles_of ?t" "region_of_kind k = Some g'" for i k g'
  proof (cases "(i, k) \<in> roles_of t")
    case True
    then show ?thesis using linked_kind [OF core_linked [OF core]] that(2) by blast
  next
    case False
    then have "k = endpoint_kind w g" using that(1) by (simp add: roles)
    then have "g' = g" using that(2) by (simp add: endpoint_kind_def split: if_splits)
    then show ?thesis using r(1,2) by blast
  qed
  ultimately have link: "linked (roles_of ?t) (set (tm_regions ?t))"
    unfolding ms(2) set_map by (intro linked_mapI hid)
  have armed: "armed_ok (tm_regions ?t)"
    unfolding ms by (rule armed_ok_map [OF core_parts(4) [OF core]]) (auto simp: is_complete_def split: if_splits)
  have cues: "cues_ok (roles_of ?t)"
    unfolding roles using core_parts(5) [OF core]
    by (rule cues_insertI) (simp add: endpoint_kind_def split: if_splits)
  have "lr_id ` set (tm_regions ?t) = lr_id ` set (tm_regions t)"
    unfolding ms(2) set_map image_image hid ..
  then have cur: "g' \<in> lr_id ` set (tm_regions ?t)" if "tm_current_region ?t = Some g'" for g'
    using core_parts(3) [OF core] that ms by simp
  show ?thesis
    by (rule markers_coreI [OF ids _ link cur armed cues])
      (use core_parts(2,6) [OF core] lim m(3) in \<open>auto simp: ms(1,3-6)\<close>)
qed

lemma attached_ordered_other:
  "endpoints_ordered (set (tm_markers t)) g' \<Longrightarrow> g' \<noteq> g \<Longrightarrow> mk_kind m = endpoint_kind w g \<Longrightarrow>
   endpoints_ordered (set (tm_markers (attached g w m t))) g'"
  by (auto simp: endpoints_ordered_def attached_def update_region_def push_marker_def
      alloc_marker_id_def endpoint_kind_def split: if_splits)


text \<open>Two endpoints swapped.\<close>

definition swapped :: "region_id \<Rightarrow> marker_id \<Rightarrow> marker_id \<Rightarrow> track_markers \<Rightarrow> track_markers" where
  "swapped g a b t =
     update_region g (\<lambda>r. r\<lparr>lr_a := Some b, lr_b := Some a\<rparr>)
       (update_marker b (\<lambda>m. m\<lparr>mk_kind := RegionStart g\<rparr>)
         (update_marker a (\<lambda>m. m\<lparr>mk_kind := RegionEnd g\<rparr>) t))"

definition swap_kind :: "region_id \<Rightarrow> marker_id \<Rightarrow> marker_id \<Rightarrow> marker \<Rightarrow> marker" where
  "swap_kind g a b m =
     (if mk_id m = a then m\<lparr>mk_kind := RegionEnd g\<rparr>
      else if mk_id m = b then m\<lparr>mk_kind := RegionStart g\<rparr> else m)"

lemma swap_kind_simps [simp]:
  "mk_id (swap_kind g a b m) = mk_id m" "mk_position (swap_kind g a b m) = mk_position m"
  by (simp_all add: swap_kind_def)

lemma swapped_fields:
  assumes core: "markers_core t" and "a \<noteq> b"
  shows "tm_markers (swapped g a b t) = map (swap_kind g a b) (tm_markers t)"
    and "tm_regions (swapped g a b t) =
      map (\<lambda>r. if lr_id r = g then r\<lparr>lr_a := Some b, lr_b := Some a\<rparr> else r) (tm_regions t)"
    and "tm_len_frames (swapped g a b t) = tm_len_frames t"
    and "tm_current_region (swapped g a b t) = tm_current_region t"
    and "tm_next_marker_id (swapped g a b t) = tm_next_marker_id t"
    and "tm_next_region_id (swapped g a b t) = tm_next_region_id t"
proof -
  have d: "distinct (map mk_id (tm_markers t))" using core_ids(1) [OF core] .
  have e: "update_first (\<lambda>m. mk_id m = a) (\<lambda>m. m\<lparr>mk_kind := RegionEnd g\<rparr>) (tm_markers t) =
      map (\<lambda>m. if mk_id m = a then m\<lparr>mk_kind := RegionEnd g\<rparr> else m) (tm_markers t)"
    by (rule update_first_key [OF d])
  have "distinct (map mk_id (map (\<lambda>m. if mk_id m = a then m\<lparr>mk_kind := RegionEnd g\<rparr> else m) (tm_markers t)))"
    using d by (simp add: comp_def if_distrib [of mk_id] cong: if_cong)
  then have "update_first (\<lambda>m. mk_id m = b) (\<lambda>m. m\<lparr>mk_kind := RegionStart g\<rparr>)
      (map (\<lambda>m. if mk_id m = a then m\<lparr>mk_kind := RegionEnd g\<rparr> else m) (tm_markers t)) =
      map (swap_kind g a b) (tm_markers t)"
    using assms(2) by (simp add: update_first_key swap_kind_def)
  then show "tm_markers (swapped g a b t) = map (swap_kind g a b) (tm_markers t)"
    by (simp add: swapped_def update_region_def update_marker_def e)
  show "tm_regions (swapped g a b t) =
      map (\<lambda>r. if lr_id r = g then r\<lparr>lr_a := Some b, lr_b := Some a\<rparr> else r) (tm_regions t)"
    by (simp add: swapped_def update_region_def update_marker_def update_first_key [OF core_ids(2) [OF core]])
qed (simp_all add: swapped_def update_region_def update_marker_def)

lemma swapped_core:
  assumes core: "markers_core t" and r: "r \<in> set (tm_regions t)" "lr_id r = g"
    and ab: "lr_a r = Some a" "lr_b r = Some b"
  shows "markers_core (swapped g a b t)" (is "markers_core ?t")
proof -
  have rl: "region_linked (roles_of t) r" using linked_region [OF core_linked [OF core] r(1)] .
  have ra: "(i, RegionStart g) \<in> roles_of t \<longleftrightarrow> i = a" and rb: "(i, RegionEnd g) \<in> roles_of t \<longleftrightarrow> i = b" for i
    using rl ab r(2) by (auto simp: region_linked_def)
  have fun_role: "k = k'" if "(i, k) \<in> roles_of t" "(i, k') \<in> roles_of t" for i k k'
    using that key_unique [OF core_ids(1) [OF core]] by (metis roles_ofE)
  have ne: "a \<noteq> b" using fun_role [of a "RegionStart g" "RegionEnd g"] ra rb by auto
  note ms = swapped_fields [OF core ne, of g]
  have roles: "(i, k) \<in> roles_of ?t \<longleftrightarrow>
      (if i = a then k = RegionEnd g else if i = b then k = RegionStart g else (i, k) \<in> roles_of t)" for i k
  proof -
    have "a \<in> mk_id ` set (tm_markers t)" "b \<in> mk_id ` set (tm_markers t)"
      using ra rb by (auto simp: roles_of_def role_def)
    then show ?thesis
      unfolding roles_of_def ms(1) set_map image_image role_def
      by (auto simp: swap_kind_def ne image_iff)
  qed
  have ids: "ids_ok ?t"
    using core_parts(1) [OF core] unfolding ids_ok_def ms by (auto simp: comp_def if_distrib [of lr_id] cong: if_cong)
  let ?h = "\<lambda>r. if lr_id r = g then r\<lparr>lr_a := Some b, lr_b := Some a\<rparr> else r"
  have hid: "lr_id (?h x) = lr_id x" for x by simp
  have other: "k \<noteq> RegionStart g" "k \<noteq> RegionEnd g" if "(i, k) \<in> roles_of t" "i \<noteq> a" "i \<noteq> b" for i k
    using that ra rb by blast+
  have mine: "k = RegionStart g" if "(a, k) \<in> roles_of t" for k using fun_role [OF that] ra by blast
  have mine': "k = RegionEnd g" if "(b, k) \<in> roles_of t" for k using fun_role [OF that] rb by blast
  have "region_linked (roles_of ?t) (?h x)" if x: "x \<in> set (tm_regions t)" for x
  proof (cases "lr_id x = g")
    case True
    then show ?thesis using ne ra rb by (auto simp: region_linked_def roles)
  next
    case False
    then have "region_linked (roles_of ?t) x = region_linked (roles_of t) x"
      by (intro region_linked_cong) (auto simp: roles dest: mine mine')
    with linked_region [OF core_linked [OF core] x] False show ?thesis by simp
  qed
  moreover have "g' \<in> lr_id ` set (tm_regions t)" if "(i, k) \<in> roles_of ?t" "region_of_kind k = Some g'" for i k g'
  proof (cases "i = a \<or> i = b")
    case True
    then have "g' = g" using that by (auto simp: roles split: if_splits)
    then show ?thesis using r by blast
  next
    case False
    then show ?thesis using that linked_kind [OF core_linked [OF core]] by (auto simp: roles)
  qed
  ultimately have link: "linked (roles_of ?t) (set (tm_regions ?t))"
    unfolding ms(2) set_map by (intro linked_mapI hid)
  have armed: "armed_ok (tm_regions ?t)"
    unfolding ms by (rule armed_ok_map [OF core_parts(4) [OF core]]) (auto simp: is_complete_def split: if_splits)
  have cues: "cues_ok (roles_of ?t)"
    using core_parts(5) [OF core] unfolding cues_ok_def roles by (metis marker_kind.distinct)
  have "lr_id ` set (tm_regions ?t) = lr_id ` set (tm_regions t)"
    unfolding ms(2) set_map image_image hid ..
  then have cur: "g' \<in> lr_id ` set (tm_regions ?t)" if "tm_current_region ?t = Some g'" for g'
    using core_parts(3) [OF core] that ms by simp
  show ?thesis
    by (rule markers_coreI [OF ids _ link cur armed cues])
      (use core_parts(2,6) [OF core] in \<open>auto simp: ms(1,3-6)\<close>)
qed


lemma swapped_ordered:
  assumes core: "markers_core t" and r: "r \<in> set (tm_regions t)" "lr_id r = g"
    and ab: "lr_a r = Some a" "lr_b r = Some b"
    and pos: "position_of t a = Some pa" "position_of t b = Some pb" "pb \<le> pa"
    and other: "\<And>g'. g' \<noteq> g \<Longrightarrow> endpoints_ordered (set (tm_markers t)) g'"
  shows "endpoints_ordered (set (tm_markers (swapped g a b t))) g'"
proof -
  have rl: "region_linked (roles_of t) r" using linked_region [OF core_linked [OF core] r(1)] .
  have ra: "(i, RegionStart g) \<in> roles_of t \<longleftrightarrow> i = a" and rb: "(i, RegionEnd g) \<in> roles_of t \<longleftrightarrow> i = b" for i
    using rl ab r(2) by (auto simp: region_linked_def)
  have ne: "a \<noteq> b"
  proof
    assume "a = b"
    then obtain x y where "x \<in> set (tm_markers t)" "mk_id x = a" "mk_kind x = RegionStart g"
      "y \<in> set (tm_markers t)" "mk_id y = a" "mk_kind y = RegionEnd g"
      using ra rb by (metis roles_ofE)
    then show False using key_unique [OF core_ids(1) [OF core], of x y] by simp
  qed
  have p: "mk_position m = pa" if "m \<in> set (tm_markers t)" "mk_id m = a" for m
    using position_of_eq [OF core that(1)] that(2) pos(1) by simp
  have p': "mk_position m = pb" if "m \<in> set (tm_markers t)" "mk_id m = b" for m
    using position_of_eq [OF core that(1)] that(2) pos(2) by simp
  have k: "mk_id m = a" if "m \<in> set (tm_markers t)" "mk_kind m = RegionStart g" for m
    using role_in [OF that(1)] that(2) ra by simp
  have k': "mk_id m = b" if "m \<in> set (tm_markers t)" "mk_kind m = RegionEnd g" for m
    using role_in [OF that(1)] that(2) rb by simp
  show ?thesis
  proof (cases "g' = g")
    case True
    have "mk_position x \<le> mk_position y"
      if "x \<in> set (tm_markers t)" "y \<in> set (tm_markers t)"
        "mk_kind (swap_kind g a b x) = RegionStart g" "mk_kind (swap_kind g a b y) = RegionEnd g" for x y
    proof -
      have "mk_id x = b" using that(1,3) ne k by (auto simp: swap_kind_def split: if_splits)
      moreover have "mk_id y = a" using that(2,4) ne k' by (auto simp: swap_kind_def split: if_splits)
      ultimately show ?thesis using p p' pos(3) that by simp
    qed
    with True show ?thesis
      unfolding endpoints_ordered_def swapped_fields [OF core ne] set_map by auto
  next
    case False
    then have same: "mk_kind (swap_kind g a b x) = k \<Longrightarrow> region_of_kind k = Some g' \<Longrightarrow> mk_kind x = k" for x k
      by (auto simp: swap_kind_def split: if_splits)
    show ?thesis
      using other [OF False] same unfolding endpoints_ordered_def swapped_fields [OF core ne] set_map
      by fastforce
  qed
qed

text \<open>The conditional swap restores the invariant of its region.\<close>

lemma maybe_swap_inv:
  assumes core: "markers_core t" and other: "\<And>g'. g' \<noteq> g \<Longrightarrow> endpoints_ordered (set (tm_markers t)) g'"
    and g: "g \<in> lr_id ` set (tm_regions t)"
  shows "markers_inv (maybe_swap_region_endpoints g t)"
proof -
  obtain r where r: "r \<in> set (tm_regions t)" "lr_id r = g" "region_by_id t g = Some r"
    using g region_by_id_eq [OF core] by auto
  have rl: "region_linked (roles_of t) r" using linked_region [OF core_linked [OF core] r(1)] .
  have trivial: "markers_inv t" if "endpoints_ordered (set (tm_markers t)) g"
    unfolding markers_inv_def using core other that by metis
  show ?thesis
  proof (cases "\<exists>a b. lr_a r = Some a \<and> lr_b r = Some b")
    case False
    then have "endpoints_ordered (set (tm_markers t)) g"
      using rl r(2) role_in unfolding endpoints_ordered_def region_linked_def by metis
    with False trivial show ?thesis
      by (auto simp: maybe_swap_region_endpoints_def r(3) split: option.splits)
  next
    case True
    then obtain a b where ab: "lr_a r = Some a" "lr_b r = Some b" by blast
    have "(a, RegionStart g) \<in> roles_of t" "(b, RegionEnd g) \<in> roles_of t"
      using rl ab r(2) by (auto simp: region_linked_def)
    then obtain x y where xy: "x \<in> set (tm_markers t)" "mk_id x = a" "y \<in> set (tm_markers t)" "mk_id y = b"
      by (metis roles_ofE)
    have pos: "position_of t a = Some (mk_position x)" "position_of t b = Some (mk_position y)"
      using position_of_eq [OF core] xy by auto
    have only: "m = x" if "m \<in> set (tm_markers t)" "mk_kind m = RegionStart g" for m
    proof -
      have "mk_id m = a"
        using role_in [OF that(1)] that(2) rl ab(1) r(2) unfolding region_linked_def by (metis option.inject)
      then show ?thesis using key_unique [OF core_ids(1) [OF core] that(1) xy(1)] xy(2) by simp
    qed
    have only': "m = y" if "m \<in> set (tm_markers t)" "mk_kind m = RegionEnd g" for m
    proof -
      have "mk_id m = b"
        using role_in [OF that(1)] that(2) rl ab(2) r(2) unfolding region_linked_def by (metis option.inject)
      then show ?thesis using key_unique [OF core_ids(1) [OF core] that(1) xy(3)] xy(4) by simp
    qed
    show ?thesis
    proof (cases "mk_position x \<le> mk_position y")
      case True
      then have "endpoints_ordered (set (tm_markers t)) g"
        unfolding endpoints_ordered_def using only only' by blast
      with True trivial pos show ?thesis by (simp add: maybe_swap_region_endpoints_def r(3) ab)
    next
      case False
      then have "maybe_swap_region_endpoints g t = swapped g a b t"
        using pos by (simp add: maybe_swap_region_endpoints_def r(3) ab swapped_def)
      moreover have "markers_core (swapped g a b t)" by (rule swapped_core [OF core r(1,2) ab])
      moreover have "endpoints_ordered (set (tm_markers (swapped g a b t))) g'" for g'
        by (rule swapped_ordered [OF core r(1,2) ab pos]) (use False other in auto)
      ultimately show ?thesis by (simp add: markers_inv_def)
    qed
  qed
qed


text \<open>An endpoint detached: the marker is gone, its region forgets it and disarms, or goes too.\<close>

lemma max_region_id_mem: "max_region_id rs = Some g \<Longrightarrow> g \<in> lr_id ` set rs"
proof -
  have "fold max xs x \<in> insert x (set xs)" for xs and x :: nat
    by (induction xs arbitrary: x) (auto simp: max_def)
  then show "max_region_id rs = Some g \<Longrightarrow> ?thesis"
    by (fastforce simp: max_region_id_def split: list.splits)
qed

definition forget_endpoint :: "marker_kind \<Rightarrow> region_id \<Rightarrow> loop_region \<Rightarrow> loop_region" where
  "forget_endpoint k g r =
     (if k = RegionStart g then r\<lparr>lr_a := None\<rparr> else r\<lparr>lr_b := None\<rparr>)\<lparr>lr_armed := False\<rparr>"

lemma forget_endpoint_simps [simp]:
  "lr_id (forget_endpoint k g r) = lr_id r" "\<not> lr_armed (forget_endpoint k g r)"
  "lr_a (forget_endpoint k g r) = (if k = RegionStart g then None else lr_a r)"
  "lr_b (forget_endpoint k g r) = (if k = RegionStart g then lr_b r else None)"
  by (simp_all add: forget_endpoint_def)

lemma armed_ok_subset: "armed_ok rs \<Longrightarrow> set rs' \<subseteq> set rs \<Longrightarrow> armed_ok rs'"
  unfolding armed_ok_def by blast

lemma delete_parts:
  assumes core: "markers_core t" and idx: "position (\<lambda>m. mk_id m = i) (tm_markers t) = Some n"
  shows "set (remove_nth n (tm_markers t)) = {m \<in> set (tm_markers t). mk_id m \<noteq> i}"
    and "distinct (map mk_id (remove_nth n (tm_markers t)))"
    and "length (remove_nth n (tm_markers t)) \<le> length (tm_markers t)"
    and "tm_markers t ! n \<in> set (tm_markers t)" and "mk_id (tm_markers t ! n) = i"
proof -
  have n: "n < length (tm_markers t)" "mk_id (tm_markers t ! n) = i" using position_SomeD [OF idx] by auto
  have d: "distinct (map mk_id (tm_markers t))" using core_ids(1) [OF core] .
  then have dm: "distinct (tm_markers t)" by (simp add: distinct_map)
  have mem: "tm_markers t ! n \<in> set (tm_markers t)" using n by simp
  have "m = tm_markers t ! n \<longleftrightarrow> mk_id m = i" if "m \<in> set (tm_markers t)" for m
    using key_unique [OF d that mem] n(2) by auto
  then show "set (remove_nth n (tm_markers t)) = {m \<in> set (tm_markers t). mk_id m \<noteq> i}"
    using set_remove_nth_distinct [OF dm n(1)] by auto
  show "distinct (map mk_id (remove_nth n (tm_markers t)))"
    using d by (simp add: map_remove_nth distinct_remove_nth)
  show "length (remove_nth n (tm_markers t)) \<le> length (tm_markers t)"
    using length_remove_nth [OF n(1)] by simp
qed (use position_SomeD [OF idx] in auto)

text \<open>Any marker removed, the regions rewritten so that they no longer name it.\<close>

lemma removed_core:
  assumes core: "markers_core t"
    and ms: "set (tm_markers u) = {m \<in> set (tm_markers t). mk_id m \<noteq> i}"
      "distinct (map mk_id (tm_markers u))" "length (tm_markers u) \<le> length (tm_markers t)"
    and rs: "set (tm_regions u) \<subseteq> h ` set (tm_regions t)" "distinct (map lr_id (tm_regions u))"
      "\<And>r. lr_id (h r) = lr_id r" "armed_ok (tm_regions u)"
      "\<And>r. r \<in> set (tm_regions t) \<Longrightarrow> region_linked (roles_of u) (h r)"
      "\<And>j k g. (j, k) \<in> roles_of u \<Longrightarrow> region_of_kind k = Some g \<Longrightarrow> g \<in> lr_id ` set (tm_regions u)"
    and cur: "\<And>g. tm_current_region u = Some g \<Longrightarrow> g \<in> lr_id ` set (tm_regions u)"
    and same: "tm_len_frames u = tm_len_frames t" "tm_next_marker_id u = tm_next_marker_id t"
      "tm_next_region_id u = tm_next_region_id t"
  shows "markers_core u"
proof (rule markers_coreI)
  have "\<forall>r\<in>h ` set (tm_regions t). lr_id r < tm_next_region_id t"
    using core_fresh_region [OF core] by (auto simp: rs(3))
  then show "ids_ok u"
    using core_fresh_marker [OF core] ms(1,2) rs(1,2) same by (auto simp: ids_ok_def)
  show "linked (roles_of u) (set (tm_regions u))"
    using rs(1,5,6) unfolding linked_def by blast
  have "roles_of u \<subseteq> roles_of t" using ms(1) by (auto simp: roles_of_def)
  then show "cues_ok (roles_of u)" using core_parts(5) [OF core] unfolding cues_ok_def by blast
  show "mk_position m \<le> tm_len_frames u" if "m \<in> set (tm_markers u)" for m
    using core_parts(2) [OF core, of m] ms(1) same(1) that by auto
  show "length (tm_markers u) \<le> MAX_MARKERS" using core_parts(6) [OF core] ms(3) by simp
qed (use rs(4) cur in auto)

lemma delete_core:
  assumes core: "markers_core t"
  shows "markers_core (fst (delete i t))"
proof (cases "position (\<lambda>m. mk_id m = i) (tm_markers t)")
  case None
  with core show ?thesis by (simp add: delete_def del: position_None_iff)
next
  case (Some n)
  note d = delete_parts [OF core Some]
  let ?m = "tm_markers t ! n"
  let ?t1 = "t\<lparr>tm_markers := remove_nth n (tm_markers t)\<rparr>"
  have roles1: "roles_of ?t1 = {p \<in> roles_of t. fst p \<noteq> i}"
  proof -
    have "roles_of ?t1 = role ` {m \<in> set (tm_markers t). mk_id m \<noteq> i}"
      by (simp add: roles_of_def d(1))
    then show ?thesis by (auto simp: roles_of_def role_def)
  qed
  have mrole: "(i, k) \<in> roles_of t \<longleftrightarrow> k = mk_kind ?m" for k
  proof
    assume "(i, k) \<in> roles_of t"
    then obtain x where "x \<in> set (tm_markers t)" "mk_id x = i" "mk_kind x = k" by (rule roles_ofE)
    with key_unique [OF core_ids(1) [OF core], of x ?m] d(4,5) show "k = mk_kind ?m" by simp
  qed (use role_in [OF d(4)] d(5) in simp)
  have rl: "region_linked (roles_of t) r" if "r \<in> set (tm_regions t)" for r
    using linked_region [OF core_linked [OF core] that] .
  show ?thesis
  proof (cases "region_of_kind (mk_kind ?m)")
    case None
    have keep: "(j, k) \<in> roles_of ?t1 \<longleftrightarrow> (j, k) \<in> roles_of t" if "region_of_kind k \<noteq> None" for j k
      using that None mrole [of k] by (auto simp: roles1)
    have "markers_core ?t1"
    proof (rule removed_core [where h = id and t = t and i = i])
      fix r assume "r \<in> set (tm_regions t)"
      then show "region_linked (roles_of ?t1) (id r)"
        using rl keep by (simp add: region_linked_def)
    qed (use d core core_parts(1,3,4) [OF core] linked_kind [OF core_linked [OF core]] in
        \<open>auto simp: ids_ok_def roles1\<close>)
    then show ?thesis using Some None by (simp add: delete_def Let_def)
  next
    case g: (Some g)
    let ?k = "mk_kind ?m"
    have k: "?k = RegionStart g \<or> ?k = RegionEnd g" using g by (cases ?k) auto
    let ?h = "\<lambda>r. if lr_id r = g then forget_endpoint ?k g r else r"
    have hid: "lr_id (?h r) = lr_id r" for r by simp
    have gmem: "g \<in> lr_id ` set (tm_regions t)"
      using linked_kind [OF core_linked [OF core], of i ?k g] mrole g by simp
    have upd: "update_region g (forget_endpoint ?k g) ?t1 =
        ?t1\<lparr>tm_regions := map ?h (tm_regions t)\<rparr>"
      unfolding update_region_def by (simp add: update_first_key [OF core_ids(2) [OF core]])
    let ?t2 = "?t1\<lparr>tm_regions := map ?h (tm_regions t)\<rparr>"
    have roles2: "roles_of ?t2 = roles_of ?t1" by (simp add: roles_of_def)
    have link: "region_linked (roles_of ?t1) (?h r)" if r: "r \<in> set (tm_regions t)" for r
    proof (cases "lr_id r = g")
      case True
      have a: "lr_a r = Some j \<longleftrightarrow> (j, RegionStart g) \<in> roles_of t" for j
        using rl [OF r] True by (simp add: region_linked_def)
      have b: "lr_b r = Some j \<longleftrightarrow> (j, RegionEnd g) \<in> roles_of t" for j
        using rl [OF r] True by (simp add: region_linked_def)
      from k show ?thesis
      proof
        assume k: "?k = RegionStart g"
        then have "lr_a r = Some i" using a mrole by simp
        then have "j = i" if "(j, RegionStart g) \<in> roles_of t" for j using a [of j] that by simp
        then have "(j, RegionStart g) \<notin> roles_of ?t1" for j by (auto simp: roles1)
        moreover have "(i, RegionEnd g) \<notin> roles_of t" using mrole k by simp
        ultimately show ?thesis using True k b by (auto simp: region_linked_def roles1)
      next
        assume k: "?k = RegionEnd g"
        then have "lr_b r = Some i" using b mrole by simp
        then have "j = i" if "(j, RegionEnd g) \<in> roles_of t" for j using b [of j] that by simp
        then have "(j, RegionEnd g) \<notin> roles_of ?t1" for j by (auto simp: roles1)
        moreover have "(i, RegionStart g) \<notin> roles_of t" using mrole k by simp
        ultimately show ?thesis using True k a by (auto simp: region_linked_def roles1)
      qed
    next
      case False
      then have "region_linked (roles_of ?t1) r = region_linked (roles_of t) r"
        using mrole k by (intro region_linked_cong) (auto simp: roles1)
      with rl [OF r] False show ?thesis by simp
    qed
    have armed: "armed_ok (map ?h (tm_regions t))"
      by (rule armed_ok_map [OF core_parts(4) [OF core]]) (auto split: if_splits)
    have dist: "distinct (map lr_id (map ?h (tm_regions t)))"
      using core_ids(2) [OF core] by (simp add: comp_def if_distrib [of lr_id] cong: if_cong)
    have ids: "lr_id ` set (map ?h (tm_regions t)) = lr_id ` set (tm_regions t)"
      unfolding set_map image_image hid ..
    obtain r where r: "r \<in> set (tm_regions t)" "lr_id r = g" using gmem by blast
    have "?h r \<in> set (tm_regions ?t2)" "lr_id (?h r) = g" using r by auto
    then have reg: "region_by_id ?t2 g = Some (?h r)"
      using find_key [OF dist, of "?h r"] unfolding region_by_id_def by simp
    have fk: "forget_endpoint ?k g = (\<lambda>r. (if ?k = RegionStart g then r\<lparr>lr_a := None\<rparr>
        else r\<lparr>lr_b := None\<rparr>)\<lparr>lr_armed := False\<rparr>)"
      by (rule ext) (simp add: forget_endpoint_def)
    have kinds: "g' \<in> lr_id ` set (tm_regions t)"
      if "(j, k') \<in> roles_of ?t1" "region_of_kind k' = Some g'" for j k' g'
      using that linked_kind [OF core_linked [OF core]] by (auto simp: roles1)
    show ?thesis
    proof (cases "lr_a (?h r) = None \<and> lr_b (?h r) = None")
      case False
      have "detach_endpoint ?k g ?t1 = ?t2"
        unfolding detach_endpoint_def fk [symmetric] upd Let_def reg option.case if_not_P [OF False] ..
      moreover have "markers_core ?t2"
        by (rule removed_core [where h = ?h and t = t and i = i])
          (use d core dist armed link kinds core_parts(3) [OF core] ids hid in \<open>simp_all add: roles2\<close>)
      ultimately show ?thesis using Some g by (simp add: delete_def Let_def)
    next
      case True
      let ?rest = "filter (\<lambda>r. lr_id r \<noteq> g) (map ?h (tm_regions t))"
      let ?t3 = "?t2\<lparr>tm_regions := ?rest\<rparr>"
      define u where "u = (if tm_current_region ?t3 = Some g
        then ?t3\<lparr>tm_current_region := max_region_id ?rest\<rparr> else ?t3)"
      have "detach_endpoint ?k g ?t1 = u"
        unfolding detach_endpoint_def fk [symmetric] upd Let_def reg option.case if_P [OF True] u_def
        by (simp del: forget_endpoint_simps)
      moreover have "markers_core u"
      proof (rule removed_core [where h = ?h and t = t and i = i, OF core])
        have f: "tm_markers u = remove_nth n (tm_markers t)" "tm_regions u = ?rest"
          "tm_len_frames u = tm_len_frames t" "tm_next_marker_id u = tm_next_marker_id t"
          "tm_next_region_id u = tm_next_region_id t" by (simp_all add: u_def)
        then show "set (tm_markers u) = {m \<in> set (tm_markers t). mk_id m \<noteq> i}"
          "distinct (map mk_id (tm_markers u))" "length (tm_markers u) \<le> length (tm_markers t)"
          "tm_len_frames u = tm_len_frames t" "tm_next_marker_id u = tm_next_marker_id t"
          "tm_next_region_id u = tm_next_region_id t"
          using d by simp_all
        show "set (tm_regions u) \<subseteq> ?h ` set (tm_regions t)" unfolding f by auto
        show "distinct (map lr_id (tm_regions u))" unfolding f
          using dist by (rule distinct_map_filter)
        show "armed_ok (tm_regions u)" unfolding f by (rule armed_ok_subset [OF armed]) auto
        have ru: "roles_of u = roles_of ?t1" by (simp add: roles_of_def f)
        show "region_linked (roles_of u) (?h r)" if "r \<in> set (tm_regions t)" for r
          unfolding ru using link [OF that] .
        have rest: "lr_id ` set ?rest = lr_id ` set (tm_regions t) - {g}" using ids by auto
        have none: "(j, RegionStart g) \<notin> roles_of ?t1" "(j, RegionEnd g) \<notin> roles_of ?t1" for j
          using link [OF r(1)] True r(2) unfolding region_linked_def hid by simp_all
        show "g' \<in> lr_id ` set (tm_regions u)" if "(j, k') \<in> roles_of u" "region_of_kind k' = Some g'" for j k' g'
        proof -
          have "g' \<noteq> g" using none that unfolding ru by (cases k') auto
          with kinds that show ?thesis unfolding ru f rest by blast
        qed
        show "g' \<in> lr_id ` set (tm_regions u)" if "tm_current_region u = Some g'" for g'
        proof (cases "tm_current_region t = Some g")
          case True
          then have "max_region_id ?rest = Some g'" using that by (simp add: u_def)
          then show ?thesis unfolding f by (rule max_region_id_mem)
        next
          case False
          then have "tm_current_region t = Some g'" "g' \<noteq> g" using that by (auto simp: u_def)
          then show ?thesis unfolding f rest using core_parts(3) [OF core] by blast
        qed
      qed (rule hid)
      ultimately show ?thesis using Some g by (simp add: delete_def Let_def)
    qed
  qed
qed

end
