(* ===== verification/Markers_Machine.thy ===== *)
theory Markers_Machine
  imports Markers_Invariants
begin

text \<open>
  Every operation of the marker model keeps its invariant; all but the change of the track's
  length keep the list sorted. The operations as one step relation, and its contracts.
\<close>

section \<open>Order of the endpoints under elementary changes\<close>

lemma markers_invI: "markers_core t \<Longrightarrow> (\<And>g. endpoints_ordered (set (tm_markers t)) g) \<Longrightarrow> markers_inv t"
  by (simp add: markers_inv_def)

lemma inv_core: "markers_inv t \<Longrightarrow> markers_core t"
  by (simp add: markers_inv_def)

lemma inv_ordered: "markers_inv t \<Longrightarrow> endpoints_ordered (set (tm_markers t)) g"
  by (simp add: markers_inv_def)

lemma endpoints_ordered_subset: "endpoints_ordered M g \<Longrightarrow> N \<subseteq> M \<Longrightarrow> endpoints_ordered N g"
  unfolding endpoints_ordered_def by blast

lemma endpoints_ordered_image:
  assumes "endpoints_ordered M g" and k: "\<And>m. m \<in> M \<Longrightarrow> mk_kind (h m) = mk_kind m"
    and p: "\<And>x y. x \<in> M \<Longrightarrow> y \<in> M \<Longrightarrow> mk_kind x = RegionStart g \<Longrightarrow> mk_kind y = RegionEnd g \<Longrightarrow>
      mk_position x \<le> mk_position y \<Longrightarrow> mk_position (h x) \<le> mk_position (h y)"
  shows "endpoints_ordered (h ` M) g"
  unfolding endpoints_ordered_def
proof (intro ballI impI)
  fix x y assume xy: "x \<in> h ` M" "y \<in> h ` M" "mk_kind x = RegionStart g \<and> mk_kind y = RegionEnd g"
  then obtain x0 y0 where "x0 \<in> M" "x = h x0" "y0 \<in> M" "y = h y0" by blast
  moreover from this have "mk_position x0 \<le> mk_position y0"
    using assms(1) k xy(3) unfolding endpoints_ordered_def by metis
  ultimately show "mk_position x \<le> mk_position y" using p k xy(3) by metis
qed

lemma update_marker_inv:
  assumes inv: "markers_inv t"
    and f: "\<And>m. mk_id (f m) = mk_id m" "\<And>m. mk_kind (f m) = mk_kind m"
      "\<And>m. mk_position (f m) = mk_position m"
  shows "markers_inv (update_marker i f t)"
proof (rule markers_invI)
  show "markers_core (update_marker i f t)"
    by (rule update_marker_core [OF inv_core [OF inv]]) (simp_all add: f)
  show "endpoints_ordered (set (tm_markers (update_marker i f t))) g" for g
    unfolding markers_update [OF inv_core [OF inv]]
    by (rule endpoints_ordered_image [OF inv_ordered [OF inv]]) (simp_all add: f)
qed

lemma moved_core:
  "markers_core t \<Longrightarrow> p \<le> tm_len_frames t \<Longrightarrow> markers_core (update_marker i (moved_to p) t)"
  by (rule update_marker_core) simp_all

text \<open>Moving a marker concerns at most the region it belongs to.\<close>

lemma moved_ordered_other:
  assumes inv: "markers_inv t" and m: "m \<in> set (tm_markers t)" "mk_id m = i"
    and "region_of_kind (mk_kind m) \<noteq> Some g"
  shows "endpoints_ordered (set (tm_markers (update_marker i (moved_to p) t))) g"
proof -
  have stay: "mk_position (if mk_id x = i then moved_to p x else x) = mk_position x"
    if "x \<in> set (tm_markers t)" "region_of_kind (mk_kind x) = Some g" for x
    using key_unique [OF core_ids(1) [OF inv_core [OF inv]] that(1) m(1)] m(2) assms(4) that(2) by auto
  show ?thesis
    unfolding markers_update [OF inv_core [OF inv]]
    by (rule endpoints_ordered_image [OF inv_ordered [OF inv]]) (simp, simp add: stay)
qed

lemma set_current_core:
  "markers_core t \<Longrightarrow> g \<in> lr_id ` set (tm_regions t) \<Longrightarrow> markers_core (t\<lparr>tm_current_region := Some g\<rparr>)"
  by (simp add: markers_core_def ids_ok_def roles_of_def)

lemma select_region_inv:
  "markers_inv t \<Longrightarrow> g \<in> lr_id ` set (tm_regions t) \<Longrightarrow> markers_inv (t\<lparr>tm_current_region := Some g\<rparr>)"
  by (simp add: markers_inv_def set_current_core)

lemma kind_region_known:
  "markers_core t \<Longrightarrow> m \<in> set (tm_markers t) \<Longrightarrow> region_of_kind (mk_kind m) = Some g \<Longrightarrow>
   g \<in> lr_id ` set (tm_regions t)"
  using linked_kind [OF core_linked role_in] .

section \<open>Points and cues\<close>

lemma push_free_inv:
  assumes "markers_inv t" "length (tm_markers t) < MAX_MARKERS" "mk_id m = tm_next_marker_id t"
    "region_of_kind (mk_kind m) = None" "mk_position m \<le> tm_len_frames t"
    "\<And>s. mk_kind m = Cue s \<Longrightarrow> cue_marker t s = None"
  shows "markers_inv (push_marker m (snd (alloc_marker_id t)))"
  using assms push_free_marker [of t m] push_free_marker_ordered [of m t] by (simp add: markers_inv_def)

lemma new_marker_simps [simp]:
  "mk_id (new_marker i k p nm c who tr) = i" "mk_kind (new_marker i k p nm c who tr) = k"
  "mk_position (new_marker i k p nm c who tr) = p" "mk_owner (new_marker i k p nm c who tr) = who"
  by (simp_all add: new_marker_def)

lemma add_point_owned_inv:
  "markers_inv t \<Longrightarrow> markers_inv (fst (add_point_owned pn pos who tr t))"
  using push_free_inv [of t "new_marker (tm_next_marker_id t) Point (min pos (tm_len_frames t))
    (default_name_for pn Point (snd (alloc_marker_id t))) (palette_new 1) who tr"]
  by (simp add: add_point_owned_def Let_def alloc_marker_id_def)

lemma create_cue_inv:
  "markers_inv t \<Longrightarrow> p \<le> tm_len_frames t \<Longrightarrow> cue_marker t s = None \<Longrightarrow>
   markers_inv (fst (create_cue s p who t))"
  using push_free_inv [of t "new_marker (tm_next_marker_id t) (Cue s) p [] (palette_new 2) who False"]
  by (simp add: create_cue_def Let_def alloc_marker_id_def)

lemma update_first_cong:
  "(\<And>x. x \<in> set xs \<Longrightarrow> P x = Q x) \<Longrightarrow> update_first P f xs = update_first Q f xs"
  by (induction xs) auto

lemma move_cue_eq:
  assumes core: "markers_core t" and m: "cue_marker t s = Some m"
  shows "move_cue s m p t = (touched (resort (update_marker (mk_id m) (moved_to p) t)), Inr (mk_id m))"
proof -
  have mem: "m \<in> set (tm_markers t)" "mk_kind m = Cue s"
    using m by (auto simp: cue_marker_def dest: find_SomeD)
  have "mk_kind x = Cue s \<longleftrightarrow> mk_id x = mk_id m" if "x \<in> set (tm_markers t)" for x
  proof
    assume "mk_kind x = Cue s"
    then show "mk_id x = mk_id m"
      using role_in [OF that] role_in [OF mem(1)] mem(2) core_parts(5) [OF core]
      unfolding cues_ok_def by metis
  next
    assume "mk_id x = mk_id m"
    then show "mk_kind x = Cue s" using key_unique [OF core_ids(1) [OF core] that mem(1)] mem(2) by simp
  qed
  then have "update_first (\<lambda>m. mk_kind m = Cue s) (moved_to p) (tm_markers t) =
      update_first (\<lambda>x. mk_id x = mk_id m) (moved_to p) (tm_markers t)"
    by (rule update_first_cong)
  moreover have "moved_to p = (\<lambda>m. m\<lparr>mk_position := p, mk_clamped := False\<rparr>)"
    by (rule ext) (simp add: moved_to_def)
  ultimately show ?thesis by (simp add: move_cue_def update_marker_def)
qed

lemma move_cue_inv:
  assumes inv: "markers_inv t" and m: "cue_marker t s = Some m" and p: "p \<le> tm_len_frames t"
  shows "markers_inv (fst (move_cue s m p t))"
proof -
  have mem: "m \<in> set (tm_markers t)" "mk_kind m = Cue s"
    using m by (auto simp: cue_marker_def dest: find_SomeD)
  have "markers_inv (update_marker (mk_id m) (moved_to p) t)"
    by (rule markers_invI [OF moved_core [OF inv_core [OF inv] p]
          moved_ordered_other [OF inv mem(1) refl]]) (simp add: mem(2))
  then show ?thesis by (simp add: move_cue_eq [OF inv_core [OF inv] m])
qed

lemma set_cue_owned_inv: "markers_inv t \<Longrightarrow> markers_inv (fst (set_cue_owned s pos who t))"
  by (auto simp: set_cue_owned_def Let_def move_cue_inv create_cue_inv split: option.split)

lemma set_cue_inv: "markers_inv t \<Longrightarrow> markers_inv (fst (set_cue s pos t))"
  by (auto simp: set_cue_def Let_def move_cue_inv create_cue_inv split: option.split)


section \<open>Regions and their endpoints\<close>

abbreviation fresh_region :: "track_markers \<Rightarrow> track_markers" where
  "fresh_region t \<equiv> (push_region (empty_region (tm_next_region_id t)) (snd (alloc_region_id t)))
     \<lparr>tm_current_region := Some (tm_next_region_id t)\<rparr>"

lemma fresh_region_simps:
  "tm_markers (fresh_region t) = tm_markers t" "tm_len_frames (fresh_region t) = tm_len_frames t"
  "tm_next_marker_id (fresh_region t) = tm_next_marker_id t"
  "tm_regions (fresh_region t) = tm_regions t @ [empty_region (tm_next_region_id t)]"
  by (simp_all add: push_region_def alloc_region_id_def)

lemma fresh_region_inv: "markers_inv t \<Longrightarrow> markers_inv (fresh_region t)"
  by (rule markers_invI [OF new_region_core [OF inv_core]])
    (simp_all add: fresh_region_simps inv_ordered del: push_region_def alloc_region_id_def)

lemma new_loop_region_eq: "new_loop_region t = (touched (fresh_region t), tm_next_region_id t)"
  by (simp add: new_loop_region_def alloc_region_id_def)

lemma new_loop_region_inv: "markers_inv t \<Longrightarrow> markers_inv (fst (new_loop_region t))"
  by (simp only: new_loop_region_eq fst_conv inv_touched fresh_region_inv)

lemma maybe_swap_frame:
  "set (map mk_id (tm_markers (maybe_swap_region_endpoints g t))) = set (map mk_id (tm_markers t))"
  "tm_len_frames (maybe_swap_region_endpoints g t) = tm_len_frames t"
  by (simp_all add: maybe_swap_region_endpoints_def update_region_def update_marker_def
      del: set_map split: option.split)

text \<open>What ends every placement: the region current, its endpoints in order.\<close>

lemma finish_inv:
  assumes core: "markers_core t" and g: "g \<in> lr_id ` set (tm_regions t)"
    and other: "\<And>g'. g' \<noteq> g \<Longrightarrow> endpoints_ordered (set (tm_markers t)) g'"
  shows "markers_inv (touched (resort (maybe_swap_region_endpoints g (t\<lparr>tm_current_region := Some g\<rparr>))))"
proof -
  have "markers_inv (maybe_swap_region_endpoints g (t\<lparr>tm_current_region := Some g\<rparr>))"
    by (rule maybe_swap_inv [OF set_current_core [OF core g]]) (use g other in simp_all)
  then show ?thesis by simp
qed

lemma attached_eq:
  "update_region g (\<lambda>r. if w then r\<lparr>lr_a := Some (mk_id m)\<rparr> else r\<lparr>lr_b := Some (mk_id m)\<rparr>)
     (push_marker m (t\<lparr>tm_next_marker_id := tm_next_marker_id t + 1\<rparr>)) = attached g w m t"
proof -
  have "set_endpoint w (mk_id m) =
      (\<lambda>r. if w then r\<lparr>lr_a := Some (mk_id m)\<rparr> else r\<lparr>lr_b := Some (mk_id m)\<rparr>)"
    by (rule ext) (simp add: set_endpoint_def)
  then show ?thesis by (simp add: attached_def alloc_marker_id_def)
qed

lemma attached_regions: "lr_id ` set (tm_regions (attached g w m t)) = lr_id ` set (tm_regions t)"
proof -
  have "map lr_id (tm_regions (attached g w m t)) = map lr_id (tm_regions t)"
    by (simp add: attached_def update_region_def push_marker_def alloc_marker_id_def)
  then show ?thesis by (metis set_map)
qed

lemma endpoint_marker:
  assumes core: "markers_core t" and r: "region_by_id t g = Some r"
    and i: "(if w then lr_a r else lr_b r) = Some i"
  obtains m where "m \<in> set (tm_markers t)" and "mk_id m = i" and "mk_kind m = endpoint_kind w g"
proof -
  have "(i, endpoint_kind w g) \<in> roles_of t"
    using linked_region [OF core_linked [OF core]] region_by_idD [OF r] i
    by (cases w) (auto simp: region_linked_def endpoint_kind_def)
  then show ?thesis using that by (rule roles_ofE)
qed

lemma place_endpoint_inv:
  assumes inv: "markers_inv t" and g: "g \<in> lr_id ` set (tm_regions t)" and p: "p \<le> tm_len_frames t"
  shows "markers_inv (fst (place_endpoint g w p who t))"
proof -
  note core = inv_core [OF inv]
  obtain r where r: "r \<in> set (tm_regions t)" "lr_id r = g" "region_by_id t g = Some r"
    using g region_by_id_eq [OF core] by auto
  show ?thesis
  proof (cases "if w then lr_a r else lr_b r")
    case (Some i)
    obtain m where m: "m \<in> set (tm_markers t)" "mk_id m = i" "mk_kind m = endpoint_kind w g"
      using endpoint_marker [OF core r(3) Some] .
    have "tm_regions (update_marker i (moved_to p) t) = tm_regions t" by (simp add: update_marker_def)
    then have "markers_inv (touched (resort (maybe_swap_region_endpoints g
        ((update_marker i (moved_to p) t)\<lparr>tm_current_region := Some g\<rparr>))))"
      using g moved_ordered_other [OF inv m(1,2), of _ p] m(3)
      by (intro finish_inv moved_core [OF core p]) (auto simp: endpoint_kind_def)
    moreover have "moved_to p = (\<lambda>m. m\<lparr>mk_position := p, mk_clamped := False\<rparr>)"
      by (rule ext) (simp add: moved_to_def)
    ultimately show ?thesis by (simp add: place_endpoint_def r(3) Some)
  next
    case None
    show ?thesis
    proof (cases "MAX_MARKERS \<le> length (tm_markers t)")
      case True
      with inv None show ?thesis by (simp add: place_endpoint_def r(3) Let_def)
    next
      case False
      let ?m = "new_marker (tm_next_marker_id t) (endpoint_kind w g) p [] (palette_new 0) who False"
      have "markers_inv (touched (resort (maybe_swap_region_endpoints g
          ((attached g w ?m t)\<lparr>tm_current_region := Some g\<rparr>))))"
      proof (rule finish_inv)
        show "markers_core (attached g w ?m t)"
          by (rule attached_core [OF core _ _ _ _ r(1,2) None]) (use False p in simp_all)
        show "g \<in> lr_id ` set (tm_regions (attached g w ?m t))" using g by (simp add: attached_regions)
        show "endpoints_ordered (set (tm_markers (attached g w ?m t))) g'" if "g' \<noteq> g" for g'
          by (rule attached_ordered_other [OF inv_ordered [OF inv] that]) simp
      qed
      moreover have "update_region g (\<lambda>r. if w then r\<lparr>lr_a := Some (tm_next_marker_id t)\<rparr>
            else r\<lparr>lr_b := Some (tm_next_marker_id t)\<rparr>)
          (push_marker ?m (t\<lparr>tm_next_marker_id := tm_next_marker_id t + 1\<rparr>)) = attached g w ?m t"
        using attached_eq [of g w ?m t] unfolding new_marker_simps .
      ultimately show ?thesis
        using False None by (simp add: place_endpoint_def r(3) alloc_marker_id_def)
    qed
  qed
qed


lemma set_loop_endpoint_owned_inv:
  assumes inv: "markers_inv t"
  shows "markers_inv (fst (set_loop_endpoint_owned reg w pos who t))"
proof (cases reg)
  case None
  have "tm_next_region_id t \<in> lr_id ` set (tm_regions (touched (fresh_region t)))"
    by (simp only: touched_simps fresh_region_simps) (simp add: empty_region_def)
  moreover have "min pos (tm_len_frames t) \<le> tm_len_frames (touched (fresh_region t))"
    by (simp only: touched_simps fresh_region_simps min.cobounded2)
  ultimately have "markers_inv (fst (place_endpoint (tm_next_region_id t) w (min pos (tm_len_frames t)) who
      (touched (fresh_region t))))"
    using fresh_region_inv [OF inv] by (intro place_endpoint_inv; simp)
  then show ?thesis
    unfolding set_loop_endpoint_owned_def Let_def None new_loop_region_eq by simp
next
  case (Some g)
  show ?thesis
  proof (cases "region_by_id t g")
    case None
    with inv Some show ?thesis by (simp add: set_loop_endpoint_owned_def)
  next
    case r: (Some r)
    have "g \<in> lr_id ` set (tm_regions t)" using region_by_idD [OF r] by blast
    with r Some show ?thesis
      by (simp add: set_loop_endpoint_owned_def place_endpoint_inv [OF inv])
  qed
qed

lemma update_first_twice:
  "(\<And>x. P (f x) = P x) \<Longrightarrow> update_first P g (update_first P f xs) = update_first P (g \<circ> f) xs"
  by (induction xs) auto

lemma two_endpoints:
  "set_endpoint False b \<circ> set_endpoint True a = (\<lambda>r. r\<lparr>lr_a := Some a, lr_b := Some b\<rparr>)"
  by (rule ext) (simp add: set_endpoint_def)

lemma attached_region:
  "markers_core t \<Longrightarrow> r \<in> set (tm_regions t) \<Longrightarrow> lr_id r = g \<Longrightarrow>
   set_endpoint w (mk_id m) r \<in> set (tm_regions (attached g w m t))"
  by (force simp: attached_def update_region_def push_marker_def alloc_marker_id_def
      update_first_key core_ids)

lemma new_loop_region_owned_inv:
  assumes inv: "markers_inv t"
  shows "markers_inv (fst (new_loop_region_owned pa pb who tr t))"
proof (cases "MAX_MARKERS < length (tm_markers t) + 2")
  case True
  with inv show ?thesis by (simp add: new_loop_region_owned_def)
next
  case False
  let ?g = "tm_next_region_id t" and ?i = "tm_next_marker_id t" and ?len = "tm_len_frames t"
  define m1 where "m1 = new_marker ?i (RegionStart ?g) (min pa ?len) [] (palette_new 0) who tr"
  define m2 where "m2 = new_marker (Suc ?i) (RegionEnd ?g) (min pb ?len) [] (palette_new 0) who tr"
  define t0 where "t0 = fresh_region t"
  define t1 where "t1 = attached ?g True m1 t0"
  define t2 where "t2 = attached ?g False m2 t1"
  note f0 = fresh_region_simps [of t, folded t0_def]
  have core0: "markers_core t0" unfolding t0_def using inv_core [OF fresh_region_inv [OF inv]] .
  have r0: "empty_region ?g \<in> set (tm_regions t0)" "lr_id (empty_region ?g) = ?g"
    "lr_a (empty_region ?g) = None" "lr_b (empty_region ?g) = None"
    by (simp_all add: f0 empty_region_def)
  have core1: "markers_core t1" unfolding t1_def
    by (rule attached_core [OF core0 _ _ _ _ r0(1,2)])
      (use False r0(3) in \<open>simp_all add: m1_def f0 endpoint_kind_def\<close>)
  have f1: "tm_markers t1 = tm_markers t @ [m1]" "tm_next_marker_id t1 = Suc ?i" "tm_len_frames t1 = ?len"
    by (simp_all add: t1_def attached_def update_region_def push_marker_def alloc_marker_id_def f0)
  have core2: "markers_core t2" unfolding t2_def
    by (rule attached_core [OF core1 _ _ _ _ attached_region [OF core0 r0(1,2), of True m1, folded t1_def]])
      (use False r0 in \<open>simp_all add: m2_def f1 endpoint_kind_def\<close>)
  have known: "?g \<in> lr_id ` set (tm_regions t2)"
    unfolding t2_def t1_def attached_regions using r0(1,2) by force
  have other: "endpoints_ordered (set (tm_markers t2)) g'" if "g' \<noteq> ?g" for g'
    unfolding t2_def t1_def
  proof (intro attached_ordered_other that)
    show "endpoints_ordered (set (tm_markers t0)) g'" unfolding f0 by (rule inv_ordered [OF inv])
  qed (simp_all add: m1_def m2_def endpoint_kind_def)
  have "update_region ?g (\<lambda>r. r\<lparr>lr_a := Some ?i, lr_b := Some (Suc ?i)\<rparr>)
     (push_marker m2 (push_marker m1 (push_region (empty_region ?g)
       (t\<lparr>tm_next_region_id := Suc ?g\<rparr>) \<lparr>tm_next_marker_id := Suc ?i\<rparr>) \<lparr>tm_next_marker_id := Suc (Suc ?i)\<rparr>))
     \<lparr>tm_current_region := Some ?g\<rparr> = t2\<lparr>tm_current_region := Some ?g\<rparr>"
    by (simp add: t2_def t1_def t0_def attached_def update_region_def push_marker_def push_region_def
        alloc_marker_id_def alloc_region_id_def m1_def m2_def update_first_twice two_endpoints)
  then have "fst (new_loop_region_owned pa pb who tr t) =
      touched (resort (maybe_swap_region_endpoints ?g (t2\<lparr>tm_current_region := Some ?g\<rparr>)))"
    using False by (simp add: new_loop_region_owned_def alloc_marker_id_def alloc_region_id_def
        push_region_def push_marker_def m1_def m2_def)
  then show ?thesis using finish_inv [OF core2 known other] by simp
qed


section \<open>The other operations\<close>

lemma move_marker_inv:
  assumes inv: "markers_inv t"
  shows "markers_inv (fst (move_marker i pos t))"
proof (cases "marker_by_id t i")
  case None
  with inv show ?thesis by (simp add: move_marker_def)
next
  case (Some m)
  let ?p = "min pos (tm_len_frames t)"
  note core = inv_core [OF inv]
  have m: "m \<in> set (tm_markers t)" "mk_id m = i" using marker_by_idD [OF Some] by auto
  have mv: "moved_to ?p = (\<lambda>m. m\<lparr>mk_position := ?p, mk_clamped := False\<rparr>)"
    by (rule ext) (simp add: moved_to_def)
  have moved: "markers_core (update_marker i (moved_to ?p) t)" by (rule moved_core [OF core]) simp
  have same: "tm_regions (update_marker i (moved_to ?p) t) = tm_regions t" by (simp add: update_marker_def)
  show ?thesis
  proof (cases "region_of_kind (mk_kind m)")
    case None
    have "markers_inv (update_marker i (moved_to ?p) t)"
      by (rule markers_invI [OF moved moved_ordered_other [OF inv m]]) (simp add: None)
    with Some None show ?thesis by (simp add: move_marker_def mv)
  next
    case (Some g)
    have "markers_inv (maybe_swap_region_endpoints g (update_marker i (moved_to ?p) t))"
      using kind_region_known [OF core m(1) Some] moved_ordered_other [OF inv m] Some
      by (intro maybe_swap_inv moved) (simp_all add: same)
    with \<open>marker_by_id t i = Some m\<close> Some show ?thesis by (simp add: move_marker_def mv)
  qed
qed

lemma change_marker_inv:
  "markers_inv t \<Longrightarrow> (\<And>m. mk_id (f m) = mk_id m) \<Longrightarrow> (\<And>m. mk_kind (f m) = mk_kind m) \<Longrightarrow>
   (\<And>m. mk_position (f m) = mk_position m) \<Longrightarrow> markers_inv (fst (change_marker i f t))"
  by (simp add: change_marker_def update_marker_inv split: option.split)

lemma rename_inv: "markers_inv t \<Longrightarrow> markers_inv (fst (rename i name t))"
  unfolding rename_def Let_def by (rule change_marker_inv) auto

lemma recolor_inv: "markers_inv t \<Longrightarrow> markers_inv (fst (recolor i c t))"
  unfolding recolor_def by (rule change_marker_inv) simp_all

lemma cycle_color_inv: "markers_inv t \<Longrightarrow> markers_inv (fst (cycle_color i t))"
  unfolding cycle_color_def by (rule change_marker_inv) simp_all

lemma detach_markers [simp]: "tm_markers (detach_endpoint k g t) = tm_markers t"
  by (simp add: detach_endpoint_def Let_def update_region_def split: option.split)

lemma delete_markers:
  "tm_markers (fst (delete i t)) =
     (case position (\<lambda>m. mk_id m = i) (tm_markers t) of
        None \<Rightarrow> tm_markers t | Some n \<Rightarrow> remove_nth n (tm_markers t))"
  by (simp add: delete_def Let_def split: option.split del: position_None_iff)

lemma delete_inv:
  assumes "markers_inv t" shows "markers_inv (fst (delete i t))"
proof (rule markers_invI)
  show "markers_core (fst (delete i t))" by (rule delete_core [OF inv_core [OF assms]])
  have "set (tm_markers (fst (delete i t))) \<subseteq> set (tm_markers t)"
    by (auto simp: delete_markers split: option.splits dest: set_remove_nth_subset [THEN subsetD]
        simp del: position_None_iff)
  then show "endpoints_ordered (set (tm_markers (fst (delete i t)))) g" for g
    by (rule endpoints_ordered_subset [OF inv_ordered [OF assms]])
qed

lemma select_marker_inv:
  assumes "markers_inv t" shows "markers_inv (fst (select_marker i t))"
proof (cases "marker_by_id t i")
  case None
  with assms show ?thesis by (simp add: select_marker_def)
next
  case (Some m)
  have "region_of_kind (mk_kind m) = Some g \<Longrightarrow> markers_inv (t\<lparr>tm_current_region := Some g\<rparr>)" for g
    using select_region_inv [OF assms] kind_region_known [OF inv_core [OF assms]] marker_by_idD [OF Some] by blast
  with Some assms show ?thesis by (simp add: select_marker_def split: option.split)
qed

lemma regions_inv:
  assumes inv: "markers_inv t" and h: "\<And>r. lr_id (h r) = lr_id r" "\<And>r. lr_a (h r) = lr_a r" "\<And>r. lr_b (h r) = lr_b r"
    and armed: "armed_ok (map h (tm_regions t))"
  shows "markers_inv (t\<lparr>tm_regions := map h (tm_regions t)\<rparr>)"
  by (rule markers_invI [OF map_regions_core [OF inv_core [OF inv] h armed]]) (simp add: inv_ordered [OF inv])

definition arm_region :: "region_id \<Rightarrow> loop_region \<Rightarrow> loop_region" where
  "arm_region g r = (if lr_id r = g then r\<lparr>lr_armed := True, lr_wraps := 0\<rparr> else r\<lparr>lr_armed := False\<rparr>)"

lemma arm_region_simps [simp]:
  "lr_id (arm_region g r) = lr_id r" "lr_a (arm_region g r) = lr_a r" "lr_b (arm_region g r) = lr_b r"
  "lr_armed (arm_region g r) \<longleftrightarrow> lr_id r = g"
  by (simp_all add: arm_region_def)

lemma arm_cases:
  assumes core: "markers_core t"
  obtains (missing) "g \<notin> lr_id ` set (tm_regions t)" "arm g t = (t, Inl NotFound)"
    | (incomplete) r where "region_by_id t g = Some r" "\<not> is_complete r" "arm g t = (t, Inl RegionIncomplete)"
    | (short) r a b where "region_by_id t g = Some r" "region_span t r = Some (a, b)"
        "\<not> is_armable t (tm_sample_rate t) r" "arm g t = (t, Inl RegionTooShort)"
    | (armed) r a b where "region_by_id t g = Some r" "region_span t r = Some (a, b)"
        "is_armable t (tm_sample_rate t) r" "is_complete r"
        "arm g t = (touched (t\<lparr>tm_regions := map (arm_region g) (tm_regions t),
           tm_current_region := Some g\<rparr>), Inr ())"
proof (cases "region_by_id t g")
  case None
  then have "g \<notin> lr_id ` set (tm_regions t)" using region_by_id_eq [OF core] by force
  with None missing show thesis by (simp add: arm_def)
next
  case (Some r)
  note r = region_by_idD [OF Some]
  have ar: "arm_region g = (\<lambda>r. if lr_id r = g then r\<lparr>lr_armed := True, lr_wraps := 0\<rparr> else r\<lparr>lr_armed := False\<rparr>)"
    by (rule ext) (simp add: arm_region_def)
  show thesis
  proof (cases "is_complete r")
    case False
    with Some incomplete show thesis by (auto simp: arm_def is_complete_def split: option.splits)
  next
    case True
    then obtain i j where ij: "lr_a r = Some i" "lr_b r = Some j" by (auto simp: is_complete_def)
    obtain x where x: "x \<in> set (tm_markers t)" "mk_id x = i"
      using endpoint_marker [OF core Some, of True i] ij by auto
    obtain y where y: "y \<in> set (tm_markers t)" "mk_id y = j"
      using endpoint_marker [OF core Some, of False j] ij by auto
    have pos: "position_of t i = Some (mk_position x)" "position_of t j = Some (mk_position y)"
      using position_of_eq [OF core] x y by auto
    have sp: "region_span t r = Some (mk_position x, mk_position y)"
      by (simp add: region_span_def ij pos)
    show thesis
    proof (cases "is_armable t (tm_sample_rate t) r")
      case a: True
      then have "\<not> mk_position y - mk_position x < min_region_frames (tm_sample_rate t)"
        by (simp add: is_armable_def sp)
      then have "arm g t = (touched (t\<lparr>tm_regions := map (arm_region g) (tm_regions t),
           tm_current_region := Some g\<rparr>), Inr ())"
        by (simp add: arm_def Some ij pos ar)
      then show thesis using armed [OF Some sp a True] by blast
    next
      case False
      then have "mk_position y - mk_position x < min_region_frames (tm_sample_rate t)"
        by (simp add: is_armable_def sp)
      then have "arm g t = (t, Inl RegionTooShort)" by (simp add: arm_def Some ij pos)
      then show thesis using short [OF Some sp False] by blast
    qed
  qed
qed


lemma arm_inv:
  assumes inv: "markers_inv t"
  shows "markers_inv (fst (arm g t))"
  using inv_core [OF inv]
proof (cases rule: arm_cases [of t g])
  case (armed r a b)
  note r = region_by_idD [OF armed(1)]
  have uniq: "x = r" if "x \<in> set (tm_regions t)" "lr_id x = g" for x
    using key_unique [OF core_ids(2) [OF inv_core [OF inv]] that(1)] r that(2) by blast
  have "is_complete (arm_region g r)" using armed(4) by (simp add: is_complete_def)
  then have "armed_ok (map (arm_region g) (tm_regions t))"
    unfolding armed_ok_def set_map
  proof (intro conjI ballI impI)
    fix y assume "y \<in> arm_region g ` set (tm_regions t)" "lr_armed y"
    then obtain x where "x \<in> set (tm_regions t)" "y = arm_region g x" "lr_id x = g" by auto
    with uniq \<open>is_complete (arm_region g r)\<close> show "is_complete y" by blast
  next
    fix y z assume "y \<in> arm_region g ` set (tm_regions t)" "z \<in> arm_region g ` set (tm_regions t)"
      "lr_armed y \<and> lr_armed z"
    then have "lr_id y = g" "lr_id z = g" by auto
    then show "lr_id y = lr_id z" by (rule trans [OF _ sym])
  qed
  then have "markers_inv (t\<lparr>tm_regions := map (arm_region g) (tm_regions t)\<rparr>)"
    by (intro regions_inv [OF inv]) simp_all
  moreover have "g \<in> lr_id ` set (tm_regions (t\<lparr>tm_regions := map (arm_region g) (tm_regions t)\<rparr>))"
    using r by (auto simp: image_image)
  ultimately have "markers_inv (t\<lparr>tm_regions := map (arm_region g) (tm_regions t), tm_current_region := Some g\<rparr>)"
    using select_region_inv by fastforce
  then show ?thesis by (simp add: armed(5))
qed (use inv in simp_all)

lemma disarm_inv: "markers_inv t \<Longrightarrow> markers_inv (disarm t)"
proof -
  assume inv: "markers_inv t"
  have "armed_ok (map (\<lambda>r. r\<lparr>lr_armed := False\<rparr>) (tm_regions t))" by (simp add: armed_ok_def)
  then have "markers_inv (t\<lparr>tm_regions := map (\<lambda>r. r\<lparr>lr_armed := False\<rparr>) (tm_regions t)\<rparr>)"
    by (intro regions_inv [OF inv]) simp_all
  then show ?thesis by (simp add: disarm_def)
qed

lemma disarm_if_owned_by_inv: "markers_inv t \<Longrightarrow> markers_inv (fst (disarm_if_owned_by who t))"
  by (simp add: disarm_if_owned_by_def disarm_inv)

lemma toggle_current_inv: "markers_inv t \<Longrightarrow> markers_inv (fst (toggle_current t))"
  by (simp add: toggle_current_def disarm_inv arm_inv split: option.split)

lemma change_region_inv:
  assumes inv: "markers_inv t"
    and f: "\<And>r. lr_id (f r) = lr_id r" "\<And>r. lr_a (f r) = lr_a r" "\<And>r. lr_b (f r) = lr_b r"
      "\<And>r. lr_armed (f r) = lr_armed r"
  shows "markers_inv (fst (change_region g f t))"
proof -
  have "armed_ok (map (\<lambda>r. if lr_id r = g then f r else r) (tm_regions t))"
    by (rule armed_ok_map [OF core_parts(4) [OF inv_core [OF inv]]])
      (auto simp: f is_complete_def split: if_splits)
  then have "markers_inv (t\<lparr>tm_regions := map (\<lambda>r. if lr_id r = g then f r else r) (tm_regions t)\<rparr>)"
    by (intro regions_inv [OF inv]) (simp_all add: f)
  then have "markers_inv (update_region g f t)" by (simp add: update_region_eq [OF inv_core [OF inv]])
  with inv show ?thesis by (simp add: change_region_def split: option.split)
qed

lemma set_crossfade_ms_inv: "markers_inv t \<Longrightarrow> markers_inv (fst (set_crossfade_ms g ms t))"
  unfolding set_crossfade_ms_def by (rule change_region_inv) simp_all

lemma set_region_repeat_inv: "markers_inv t \<Longrightarrow> markers_inv (fst (set_region_repeat g rep t))"
  unfolding set_region_repeat_def by (rule change_region_inv) simp_all

lemma clear_all_inv: "markers_inv (clear_all t)"
  by (simp add: clear_all_def markers_inv_def markers_core_def ids_ok_def linked_def roles_of_def
      armed_ok_def cues_ok_def endpoints_ordered_def)

lemma clamp_marker_simps [simp]:
  "mk_id (clamp_marker len m) = mk_id m" "mk_kind (clamp_marker len m) = mk_kind m"
  "mk_position (clamp_marker len m) = min (mk_position m) len"
  by (simp_all add: clamp_marker_def)

lemma set_len_frames_inv:
  assumes inv: "markers_inv t"
  shows "markers_inv (set_len_frames len t)"
proof -
  let ?t = "t\<lparr>tm_len_frames := len, tm_markers := map (clamp_marker len) (tm_markers t)\<rparr>"
  have roles: "roles_of ?t = roles_of t" by (simp add: roles_of_def image_image role_def)
  have "markers_inv ?t"
  proof (rule markers_invI)
    show "markers_core ?t"
      using inv_core [OF inv] unfolding markers_core_def ids_ok_def roles by (simp add: comp_def)
    show "endpoints_ordered (set (tm_markers ?t)) g" for g
      using endpoints_ordered_image [OF inv_ordered [OF inv, of g], of "clamp_marker len"]
      by (simp add: min.coboundedI1 min_def)
  qed
  then show ?thesis by (simp add: set_len_frames_def)
qed

lemma delete_all_inv: "markers_inv t \<Longrightarrow> markers_inv (fold (\<lambda>i t. fst (delete i t)) ids t)"
  by (induction ids arbitrary: t) (simp_all add: delete_inv)

lemma remove_transient_inv: "markers_inv t \<Longrightarrow> markers_inv (fst (remove_transient_owned_by who t))"
  by (simp add: remove_transient_owned_by_def Let_def delete_all_inv)

lemma mark_clean_inv: "markers_inv t \<Longrightarrow> markers_inv (mark_clean t)"
  by (simp add: mark_clean_def markers_inv_def markers_core_def ids_ok_def roles_of_def)

section \<open>Sorting\<close>

lemma sorted_same: "tm_markers t' = tm_markers t \<Longrightarrow> markers_sorted t \<Longrightarrow> markers_sorted t'"
  by (simp add: markers_sorted_def)

lemma sorted_remove_nth: "sorted xs \<Longrightarrow> sorted (remove_nth n xs)"
proof -
  assume s: "sorted xs"
  have "sorted (take n xs)" "sorted (drop (Suc n) xs)" using s by simp_all
  moreover have "x \<le> y" if "x \<in> set (take n xs)" "y \<in> set (drop (Suc n) xs)" for x y
  proof -
    have "sorted (take n xs @ drop n xs)" using s by simp
    moreover have "y \<in> set (drop n xs)"
      using that(2) set_drop_subset_set_drop [of n "Suc n" xs] by auto
    ultimately show ?thesis using that(1) unfolding sorted_append by blast
  qed
  ultimately show ?thesis by (simp add: remove_nth_def sorted_append)
qed

lemma delete_sorted: "markers_sorted t \<Longrightarrow> markers_sorted (fst (delete i t))"
  unfolding markers_sorted_def delete_markers
  by (simp split: option.split del: position_None_iff add: map_remove_nth sorted_remove_nth)

lemma change_marker_sorted:
  assumes "markers_sorted t" "\<And>m. mk_id (f m) = mk_id m" "\<And>m. mk_position (f m) = mk_position m"
  shows "markers_sorted (fst (change_marker i f t))"
proof -
  have "map marker_order (update_first P f xs) = map marker_order xs" for P xs
    by (rule map_update_first) (simp add: marker_order_def assms(2,3))
  then show ?thesis
    using assms(1) by (simp add: markers_sorted_def change_marker_def update_marker_def split: option.split)
qed


section \<open>Calls\<close>

datatype marker_call =
    AddPoint nat owner bool
  | NewLoopRegionOwned nat nat owner bool
  | NewLoopRegion
  | SetCue cue_slot nat
  | SetCueOwned cue_slot nat owner
  | SetLoopEndpoint "region_id option" bool nat owner
  | MoveMarker marker_id nat
  | Rename marker_id ustring
  | Recolor marker_id nat
  | CycleColor marker_id
  | Delete marker_id
  | SelectMarker marker_id
  | Arm region_id
  | Disarm
  | DisarmIfOwnedBy owner
  | ToggleCurrent
  | SetCrossfade region_id nat
  | SetRegionRepeat region_id repeat_count
  | ClearAll
  | SetLenFrames nat
  | RemoveTransient owner
  | MarkClean

fun call_marker :: "(nat \<Rightarrow> ustring) \<Rightarrow> marker_call \<Rightarrow> track_markers \<Rightarrow> track_markers" where
  "call_marker pn (AddPoint pos who tr) t = fst (add_point_owned pn pos who tr t)"
| "call_marker pn (NewLoopRegionOwned a b who tr) t = fst (new_loop_region_owned a b who tr t)"
| "call_marker pn NewLoopRegion t = fst (new_loop_region t)"
| "call_marker pn (SetCue s pos) t = fst (set_cue s pos t)"
| "call_marker pn (SetCueOwned s pos who) t = fst (set_cue_owned s pos who t)"
| "call_marker pn (SetLoopEndpoint reg w pos who) t = fst (set_loop_endpoint_owned reg w pos who t)"
| "call_marker pn (MoveMarker i pos) t = fst (move_marker i pos t)"
| "call_marker pn (Rename i name) t = fst (rename i name t)"
| "call_marker pn (Recolor i c) t = fst (recolor i c t)"
| "call_marker pn (CycleColor i) t = fst (cycle_color i t)"
| "call_marker pn (Delete i) t = fst (delete i t)"
| "call_marker pn (SelectMarker i) t = fst (select_marker i t)"
| "call_marker pn (Arm g) t = fst (arm g t)"
| "call_marker pn Disarm t = disarm t"
| "call_marker pn (DisarmIfOwnedBy who) t = fst (disarm_if_owned_by who t)"
| "call_marker pn ToggleCurrent t = fst (toggle_current t)"
| "call_marker pn (SetCrossfade g ms) t = fst (set_crossfade_ms g ms t)"
| "call_marker pn (SetRegionRepeat g rep) t = fst (set_region_repeat g rep t)"
| "call_marker pn ClearAll t = clear_all t"
| "call_marker pn (SetLenFrames len) t = set_len_frames len t"
| "call_marker pn (RemoveTransient who) t = fst (remove_transient_owned_by who t)"
| "call_marker pn MarkClean t = mark_clean t"

definition marker_step :: "(nat \<Rightarrow> ustring) \<Rightarrow> track_markers \<Rightarrow> track_markers \<Rightarrow> bool" where
  "marker_step pn t t' \<longleftrightarrow> (\<exists>c. t' = call_marker pn c t)"

definition markers_new :: "track_markers \<Rightarrow> bool" where
  "markers_new t \<longleftrightarrow> (\<exists>track rate len. t = track_markers_new track rate len)"

lemmas marker_op_invs =
  add_point_owned_inv new_loop_region_owned_inv new_loop_region_inv set_cue_inv set_cue_owned_inv
  set_loop_endpoint_owned_inv move_marker_inv rename_inv recolor_inv cycle_color_inv delete_inv
  select_marker_inv arm_inv disarm_inv disarm_if_owned_by_inv toggle_current_inv set_crossfade_ms_inv
  set_region_repeat_inv clear_all_inv set_len_frames_inv remove_transient_inv mark_clean_inv

lemma call_marker_inv: "markers_inv t \<Longrightarrow> markers_inv (call_marker pn c t)"
  by (cases c) (simp_all only: call_marker.simps marker_op_invs)

lemma new_inv: "markers_inv (track_markers_new track rate len)"
  by (simp add: track_markers_new_def markers_inv_def markers_core_def ids_ok_def linked_def roles_of_def
      armed_ok_def cues_ok_def endpoints_ordered_def)

lemma arm_sorted: "markers_sorted t \<Longrightarrow> markers_sorted (fst (arm g t))"
  by (erule sorted_same [rotated]) (simp add: arm_def split: option.split)

lemma place_endpoint_sorted: "markers_sorted t \<Longrightarrow> markers_sorted (fst (place_endpoint g w p who t))"
  by (simp add: place_endpoint_def Let_def alloc_marker_id_def sorted_resort split: option.split)

lemma new_loop_region_sorted: "markers_sorted t \<Longrightarrow> markers_sorted (fst (new_loop_region t))"
  by (erule sorted_same [rotated]) (simp add: new_loop_region_def alloc_region_id_def push_region_def)

lemma delete_all_sorted: "markers_sorted t \<Longrightarrow> markers_sorted (fold (\<lambda>i t. fst (delete i t)) ids t)"
  by (induction ids arbitrary: t) (simp_all add: delete_sorted)

lemma touched_sorted [simp]: "markers_sorted (touched t) = markers_sorted t"
  by (simp add: markers_sorted_def)

lemma resort_sorted [simp]: "markers_sorted (resort t)"
  by (simp add: markers_sorted_def resort_def)

lemma disarm_sorted: "markers_sorted t \<Longrightarrow> markers_sorted (disarm t)"
  by (simp add: markers_sorted_def disarm_def)

lemma mark_clean_sorted: "markers_sorted t \<Longrightarrow> markers_sorted (mark_clean t)"
  by (simp add: markers_sorted_def mark_clean_def)

lemma clear_all_sorted: "markers_sorted (clear_all t)"
  by (simp add: markers_sorted_def clear_all_def)

lemma call_marker_sorted:
  assumes s: "markers_sorted t" and c: "\<And>len. c \<noteq> SetLenFrames len"
  shows "markers_sorted (call_marker pn c t)"
proof (cases c)
  case (SetLoopEndpoint reg w pos who)
  show ?thesis
    using place_endpoint_sorted [OF s] place_endpoint_sorted [OF new_loop_region_sorted [OF s]] s
    by (simp add: SetLoopEndpoint set_loop_endpoint_owned_def Let_def split: option.split prod.split)
      (metis fst_conv)
next
  case (Rename i name)
  show ?thesis unfolding Rename call_marker.simps rename_def Let_def
    by (rule change_marker_sorted [OF s]) auto
next
  case (RemoveTransient who)
  show ?thesis by (simp add: RemoveTransient remove_transient_owned_by_def Let_def delete_all_sorted s)
next
  case ToggleCurrent
  show ?thesis using disarm_sorted [OF s] arm_sorted [OF s] s by (simp add: ToggleCurrent toggle_current_def split: option.split)
next
  case (SetCrossfade g ms)
  show ?thesis using s
    by (simp add: SetCrossfade set_crossfade_ms_def change_region_def update_region_def markers_sorted_def
        split: option.split)
next
  case (SetRegionRepeat g rep)
  show ?thesis using s
    by (simp add: SetRegionRepeat set_region_repeat_def change_region_def update_region_def
        markers_sorted_def split: option.split)
next
  case (SelectMarker i)
  show ?thesis using s by (simp add: SelectMarker select_marker_def markers_sorted_def split: option.split)
next
  case (SetCue sl pos)
  show ?thesis using s
    by (simp add: SetCue set_cue_def move_cue_def create_cue_def alloc_marker_id_def Let_def
        split: option.split)
next
  case (SetCueOwned sl pos who)
  show ?thesis using s
    by (simp add: SetCueOwned set_cue_owned_def move_cue_def create_cue_def alloc_marker_id_def Let_def
        split: option.split)
qed (use s c change_marker_sorted [OF s] in
    \<open>simp_all add: add_point_owned_def new_loop_region_owned_def alloc_marker_id_def alloc_region_id_def
      Let_def new_loop_region_sorted move_marker_def recolor_def cycle_color_def delete_sorted
      arm_sorted disarm_if_owned_by_def disarm_sorted clear_all_sorted mark_clean_sorted
      split: option.split\<close>)


section \<open>The current region\<close>

text \<open>There is a current region as soon as there is a region at all.\<close>

definition current_ok :: "track_markers \<Rightarrow> bool" where
  "current_ok t \<longleftrightarrow> (tm_current_region t = None \<longrightarrow> tm_regions t = [])"

lemma current_ok_cong:
  "tm_current_region t' = tm_current_region t \<Longrightarrow> length (tm_regions t') = length (tm_regions t) \<Longrightarrow>
   current_ok t' = current_ok t"
  unfolding current_ok_def by (metis length_0_conv)

lemma current_ok_Some [simp]: "tm_current_region t = Some g \<Longrightarrow> current_ok t"
  by (simp add: current_ok_def)

lemma current_ok_frames [simp]:
  "current_ok (touched t) = current_ok t" "current_ok (resort t) = current_ok t"
  "current_ok (maybe_swap_region_endpoints g t) = current_ok t"
  "current_ok (update_marker i f t) = current_ok t" "current_ok (update_region g k t) = current_ok t"
  "current_ok (push_marker m t) = current_ok t" "current_ok (t\<lparr>tm_next_marker_id := n\<rparr>) = current_ok t"
  "current_ok (t\<lparr>tm_current_region := Some g\<rparr>)" "current_ok (t\<lparr>tm_markers := ms\<rparr>) = current_ok t"
  by (simp_all add: current_ok_cong touched_def resort_def maybe_swap_region_endpoints_def
      update_region_def update_marker_def push_marker_def current_ok_def split: option.split)
    (metis length_0_conv length_update_first)+

lemma max_region_id_None: "max_region_id rs = None \<Longrightarrow> rs = []"
  by (simp add: max_region_id_def split: list.splits)

lemma detach_current_ok:
  assumes "current_ok t" shows "current_ok (detach_endpoint k g t)"
proof -
  have u: "current_ok (update_region g f t)" for f using assms by simp
  show ?thesis
    unfolding detach_endpoint_def Let_def
    using u by (auto simp: current_ok_def max_region_id_None split: option.split)
qed

lemma delete_current_ok: "current_ok t \<Longrightarrow> current_ok (fst (delete i t))"
  by (simp add: delete_def Let_def detach_current_ok split: option.split del: position_None_iff)

lemma delete_all_current_ok: "current_ok t \<Longrightarrow> current_ok (fold (\<lambda>i t. fst (delete i t)) ids t)"
  by (induction ids arbitrary: t) (simp_all add: delete_current_ok)

lemma place_endpoint_current_ok: "current_ok t \<Longrightarrow> current_ok (fst (place_endpoint g w p who t))"
  by (simp add: place_endpoint_def Let_def alloc_marker_id_def split: option.split)

lemma new_loop_region_current_ok: "current_ok (fst (new_loop_region t))"
  by (simp add: new_loop_region_def alloc_region_id_def)

lemma arm_current_ok: "current_ok t \<Longrightarrow> current_ok (fst (arm g t))"
  by (simp add: arm_def split: option.split)

lemma disarm_current_ok: "current_ok t \<Longrightarrow> current_ok (disarm t)"
  by (simp add: disarm_def current_ok_def)

lemma call_marker_current_ok: "current_ok t \<Longrightarrow> current_ok (call_marker pn c t)"
proof (cases c)
  case (SetLoopEndpoint reg w pos who)
  assume "current_ok t"
  then show ?thesis
    using place_endpoint_current_ok [of t] place_endpoint_current_ok [OF new_loop_region_current_ok [of t]]
    by (simp add: SetLoopEndpoint set_loop_endpoint_owned_def Let_def split: option.split prod.split)
      (metis fst_conv)
next
  case ClearAll
  then show ?thesis by (simp add: clear_all_def current_ok_def)
qed (simp_all add: add_point_owned_def new_loop_region_owned_def alloc_marker_id_def alloc_region_id_def
      Let_def new_loop_region_current_ok move_marker_def recolor_def cycle_color_def rename_def
      change_marker_def delete_current_ok arm_current_ok disarm_if_owned_by_def disarm_current_ok
      toggle_current_def mark_clean_def set_cue_def set_cue_owned_def move_cue_def create_cue_def
      select_marker_def set_crossfade_ms_def set_region_repeat_def change_region_def set_len_frames_def
      remove_transient_owned_by_def delete_all_current_ok
      current_ok_cong [of "t\<lparr>tm_dirty := False\<rparr>" t] current_ok_cong [of "t\<lparr>tm_len_frames := n\<rparr>" t for n]
      split: option.split)

section \<open>Counters\<close>

definition counters_grow :: "track_markers \<Rightarrow> track_markers \<Rightarrow> bool" where
  "counters_grow t t' \<longleftrightarrow>
     tm_next_marker_id t \<le> tm_next_marker_id t' \<and> tm_next_region_id t \<le> tm_next_region_id t'"

lemma counters_trans: "counters_grow t u \<Longrightarrow> counters_grow u v \<Longrightarrow> counters_grow t v"
  by (simp add: counters_grow_def)

lemma counter_frames [simp]:
  "tm_next_marker_id (update_marker i f t) = tm_next_marker_id t"
  "tm_next_region_id (update_marker i f t) = tm_next_region_id t"
  "tm_next_marker_id (update_region g k t) = tm_next_marker_id t"
  "tm_next_region_id (update_region g k t) = tm_next_region_id t"
  "tm_next_marker_id (push_marker m t) = tm_next_marker_id t"
  "tm_next_region_id (push_marker m t) = tm_next_region_id t"
  "tm_next_marker_id (push_region r t) = tm_next_marker_id t"
  "tm_next_region_id (push_region r t) = tm_next_region_id t"
  by (simp_all add: update_marker_def update_region_def push_marker_def push_region_def)

lemma counter_swap [simp]:
  "tm_next_marker_id (maybe_swap_region_endpoints g t) = tm_next_marker_id t"
  "tm_next_region_id (maybe_swap_region_endpoints g t) = tm_next_region_id t"
  by (simp_all add: maybe_swap_region_endpoints_def split: option.split)

lemma detach_counters [simp]:
  "tm_next_marker_id (detach_endpoint k g t) = tm_next_marker_id t"
  "tm_next_region_id (detach_endpoint k g t) = tm_next_region_id t"
  by (simp_all add: detach_endpoint_def Let_def split: option.split)

lemma delete_counters [simp]:
  "tm_next_marker_id (fst (delete i t)) = tm_next_marker_id t"
  "tm_next_region_id (fst (delete i t)) = tm_next_region_id t"
  by (simp_all add: delete_def Let_def split: option.split del: position_None_iff)

lemma delete_all_counters: "counters_grow t (fold (\<lambda>i t. fst (delete i t)) ids t)"
proof (induction ids arbitrary: t)
  case (Cons i ids)
  show ?case using counters_trans [OF _ Cons.IH [of "fst (delete i t)"], of t] by (simp add: counters_grow_def)
qed (simp add: counters_grow_def)

lemma place_endpoint_counters: "counters_grow t (fst (place_endpoint g w p who t))"
  by (simp add: counters_grow_def place_endpoint_def Let_def alloc_marker_id_def split: option.split)

lemma new_loop_region_counters: "counters_grow t (fst (new_loop_region t))"
  by (simp add: counters_grow_def new_loop_region_def alloc_region_id_def)

lemma arm_counters: "counters_grow t (fst (arm g t))"
  by (simp add: counters_grow_def arm_def split: option.split)

lemma disarm_counters: "counters_grow t (disarm t)"
  by (simp add: counters_grow_def disarm_def)

lemma counters_refl: "counters_grow t t"
  by (simp add: counters_grow_def)

lemma call_marker_counters: "counters_grow t (call_marker pn c t)"
proof (cases c)
  case (SetLoopEndpoint reg w pos who)
  then show ?thesis
    using place_endpoint_counters [of t] counters_refl [of t]
      counters_trans [OF new_loop_region_counters [of t] place_endpoint_counters]
    by (simp add: set_loop_endpoint_owned_def Let_def split: option.split prod.split) (metis fst_conv)
next
  case (RemoveTransient who)
  then show ?thesis by (simp add: remove_transient_owned_by_def Let_def delete_all_counters)
next
  case ToggleCurrent
  then show ?thesis
    by (simp add: toggle_current_def disarm_counters arm_counters counters_refl split: option.split)
next
  case (DisarmIfOwnedBy who)
  then show ?thesis by (simp add: disarm_if_owned_by_def disarm_counters counters_refl)
qed (simp_all add: new_loop_region_counters arm_counters disarm_counters,
    simp_all add: counters_grow_def add_point_owned_def new_loop_region_owned_def alloc_marker_id_def
      alloc_region_id_def Let_def move_marker_def recolor_def cycle_color_def rename_def
      change_marker_def mark_clean_def set_cue_def set_cue_owned_def move_cue_def create_cue_def
      select_marker_def set_crossfade_ms_def set_region_repeat_def change_region_def set_len_frames_def
      clear_all_def split: option.split)

section \<open>The contracts\<close>

definition markers_good :: "track_markers \<Rightarrow> bool" where
  "markers_good t \<longleftrightarrow> markers_inv t \<and> current_ok t"

interpretation markers: id_allocator markers_new "marker_step pn" markers_good
  "\<lambda>t. mk_id ` set (tm_markers t)" tm_next_marker_id for pn
  using core_fresh_marker [OF inv_core] call_marker_counters
  by unfold_locales
    (auto simp: markers_new_def marker_step_def markers_good_def new_inv call_marker_inv
      call_marker_current_ok counters_grow_def, simp add: current_ok_def track_markers_new_def)

interpretation regions: id_allocator markers_new "marker_step pn" markers_good
  "\<lambda>t. lr_id ` set (tm_regions t)" tm_next_region_id for pn
  using core_fresh_region [OF inv_core] call_marker_counters
  by unfold_locales (auto simp: marker_step_def markers_good_def counters_grow_def)

end
