(* ===== verification/Marker_Store.thy ===== *)
theory Marker_Store
  imports Markers_Machine
begin

text \<open>
  The track-state files of the markers:
  \<^verbatim>\<open>crates/modplayer-core/src/markers/store.rs\<close>, with the plugin identifiers and their
  table they are written with (\<^verbatim>\<open>capability-gateway/src/manifest.rs\<close>,
  \<^verbatim>\<open>core/src/plugins/mod.rs\<close>). The JSON text itself is the business of
  \<^verbatim>\<open>serde_json\<close>: the model stops at the records it serialises (\<open>track_state_file\<close>), and
  reading a file takes the parser as a parameter.
\<close>

section \<open>Plugin identifiers\<close>

fun split_on :: "nat \<Rightarrow> ustring \<Rightarrow> ustring list" where
  "split_on c [] = [[]]"
| "split_on c (x # xs) =
     (if x = c then [] # split_on c xs
      else case split_on c xs of [] \<Rightarrow> [[x]] | w # ws \<Rightarrow> (x # w) # ws)"

definition label_ok :: "ustring \<Rightarrow> bool" where
  "label_ok l \<longleftrightarrow> l \<noteq> [] \<and>
     list_all (\<lambda>b. (97 \<le> b \<and> b \<le> 122) \<or> (48 \<le> b \<and> b \<le> 57) \<or> b = 45) l"

text \<open>The length test counts bytes; what the labels then allow is ASCII.\<close>

definition plugin_identifier_parse :: "ustring \<Rightarrow> ustring option" where
  "plugin_identifier_parse s =
     (if length s > 128 \<or> s = [] then None
      else let labels = split_on 46 s
           in if length labels < 2 then None
              else if list_all label_ok labels then Some s else None)"

record id_table =
  it_by_identifier :: "(ustring \<times> nat) list"
  it_by_id :: "ustring list"

definition intern :: "ustring \<Rightarrow> id_table \<Rightarrow> nat \<times> id_table" where
  "intern s tab =
     (case map_of (it_by_identifier tab) s of
        Some i \<Rightarrow> (i, tab)
      | None \<Rightarrow>
          (let i = min (length (it_by_id tab)) 65535
           in (i, \<lparr>it_by_identifier = (s, i) # it_by_identifier tab, it_by_id = it_by_id tab @ [s]\<rparr>)))"

definition identifier_of :: "id_table \<Rightarrow> nat \<Rightarrow> ustring option" where
  "identifier_of tab i = (if i < length (it_by_id tab) then Some (it_by_id tab ! i) else None)"

section \<open>Track identifiers as file names\<close>

definition hex_digit :: "nat \<Rightarrow> nat" where
  "hex_digit d = (if d < 10 then 48 + d else 87 + d)"

definition encode_track_id :: "track_id \<Rightarrow> ustring" where
  "encode_track_id i = concat (map (\<lambda>b. [hex_digit (b div 16), hex_digit (b mod 16)]) (track_uri i))"

definition to_hex_digit :: "nat \<Rightarrow> nat option" where
  "to_hex_digit c =
     (if 48 \<le> c \<and> c \<le> 57 then Some (c - 48)
      else if 97 \<le> c \<and> c \<le> 102 then Some (c - 87)
      else if 65 \<le> c \<and> c \<le> 70 then Some (c - 55)
      else None)"

text \<open>The number of bytes of a text, which is what \<^verbatim>\<open>str::len\<close> counts.\<close>

definition utf8_bytes :: "ustring \<Rightarrow> nat" where
  "utf8_bytes s = sum_list (map (\<lambda>c. if c < 128 then 1 else if c < 2048 then 2 else if c < 65536 then 3 else 4) s)"

text \<open>\<^verbatim>\<open>chunks_exact(2)\<close>: a last odd character is left out.\<close>

fun decode_pairs :: "ustring \<Rightarrow> nat list option" where
  "decode_pairs (h # l # rest) =
     (case (to_hex_digit h, to_hex_digit l) of
        (Some a, Some b) \<Rightarrow> map_option (\<lambda>bs. (16 * a + b) # bs) (decode_pairs rest)
      | _ \<Rightarrow> None)"
| "decode_pairs _ = Some []"

text \<open>
  \<^verbatim>\<open>String::from_utf8\<close> and \<^verbatim>\<open>TrackId::new\<close>: bytes that are all ASCII are their
  own text, and any other bytes are refused by one or the other.
\<close>

definition decode_track_id :: "ustring \<Rightarrow> track_id option" where
  "decode_track_id name =
     (if utf8_bytes name mod 2 \<noteq> 0 then None
      else case decode_pairs name of None \<Rightarrow> None | Some bytes \<Rightarrow> track_id_new bytes)"

section \<open>The file records\<close>

datatype kind_dto = DtoPoint | DtoRegionStart nat | DtoRegionEnd nat | DtoCue nat

record marker_dto =
  md_id :: nat
  md_kind :: kind_dto
  md_position :: nat
  md_name :: ustring
  md_color :: nat
  md_owner :: ustring
  md_transient :: bool
  md_visible :: bool

record region_dto =
  rd_id :: nat
  rd_a :: "nat option"
  rd_b :: "nat option"
  rd_crossfade_ms :: nat
  rd_repeat :: "nat option"

record track_state_file =
  sf_schema_version :: nat
  sf_track_id :: ustring
  sf_sample_rate :: nat
  sf_len_frames :: nat
  sf_next_marker_id :: nat
  sf_next_region_id :: nat
  sf_current_region :: "nat option"
  sf_markers :: "marker_dto list"
  sf_regions :: "region_dto list"

definition SCHEMA_VERSION :: nat where "SCHEMA_VERSION = 1"
definition MAX_FILE_BYTES :: nat where "MAX_FILE_BYTES = 65536"

definition host_name :: ustring where
  "host_name = utf ''host''"

definition owner_to_dto :: "owner \<Rightarrow> id_table \<Rightarrow> ustring" where
  "owner_to_dto who tab =
     (case who of OwnerHost \<Rightarrow> host_name
      | OwnerPlugin i \<Rightarrow> (case identifier_of tab i of Some s \<Rightarrow> s | None \<Rightarrow> host_name))"

definition owner_from_dto :: "ustring \<Rightarrow> id_table \<Rightarrow> owner \<times> id_table" where
  "owner_from_dto s tab =
     (if s = [] \<or> s = host_name then (OwnerHost, tab)
      else case plugin_identifier_parse s of
             Some p \<Rightarrow> (let (i, tab') = intern p tab in (OwnerPlugin i, tab'))
           | None \<Rightarrow> (OwnerHost, tab))"

fun slot_number :: "cue_slot \<Rightarrow> nat" where
  "slot_number (CueSlot n) = n"

fun kind_to_dto :: "marker_kind \<Rightarrow> kind_dto" where
  "kind_to_dto Point = DtoPoint"
| "kind_to_dto (RegionStart g) = DtoRegionStart g"
| "kind_to_dto (RegionEnd g) = DtoRegionEnd g"
| "kind_to_dto (Cue slot) = DtoCue (slot_number slot)"

definition marker_to_dto :: "id_table \<Rightarrow> marker \<Rightarrow> marker_dto" where
  "marker_to_dto tab m =
     \<lparr>md_id = mk_id m, md_kind = kind_to_dto (mk_kind m), md_position = mk_position m,
      md_name = mk_name m, md_color = mk_color m, md_owner = owner_to_dto (mk_owner m) tab,
      md_transient = mk_transient m, md_visible = mk_visible m\<rparr>"

definition region_to_dto :: "loop_region \<Rightarrow> region_dto" where
  "region_to_dto r =
     \<lparr>rd_id = lr_id r, rd_a = lr_a r, rd_b = lr_b r, rd_crossfade_ms = lr_crossfade_ms r,
      rd_repeat = (case lr_repeat r of Infinite \<Rightarrow> None | Times n \<Rightarrow> Some n)\<rparr>"

definition to_file :: "id_table \<Rightarrow> track_markers \<Rightarrow> track_state_file" where
  "to_file tab t =
     (let ms = filter (\<lambda>m. \<not> mk_transient m) (tm_markers t);
          retained = map mk_id ms;
          kept = (\<lambda>e. case e of None \<Rightarrow> False | Some i \<Rightarrow> i \<in> set retained);
          rs = filter (\<lambda>r. \<not> (lr_a r \<noteq> None \<or> lr_b r \<noteq> None) \<or> kept (lr_a r) \<or> kept (lr_b r))
                 (tm_regions t)
      in \<lparr>sf_schema_version = SCHEMA_VERSION, sf_track_id = track_uri (tm_track t),
          sf_sample_rate = tm_sample_rate t, sf_len_frames = tm_len_frames t,
          sf_next_marker_id = tm_next_marker_id t, sf_next_region_id = tm_next_region_id t,
          sf_current_region =
            (case tm_current_region t of None \<Rightarrow> None
             | Some g \<Rightarrow> if g \<in> set (map lr_id rs) then Some g else None),
          sf_markers = map (marker_to_dto tab) ms, sf_regions = map region_to_dto rs\<rparr>)"

section \<open>Loading\<close>

definition rescale :: "nat \<Rightarrow> nat \<Rightarrow> nat \<Rightarrow> nat" where
  "rescale pos file_rate rate =
     (if file_rate = 0 \<or> file_rate = rate then pos
      else min (pos * rate div file_rate) (2 ^ 64 - 1))"

text \<open>The kind a stored marker gets: \<open>None\<close> drops it.\<close>

definition kind_from_dto :: "nat set \<Rightarrow> cue_slot set \<Rightarrow> kind_dto \<Rightarrow> marker_kind option" where
  "kind_from_dto region_ids seen k =
     (case k of
        DtoPoint \<Rightarrow> Some Point
      | DtoRegionStart g \<Rightarrow> Some (if g \<in> region_ids then RegionStart g else Point)
      | DtoRegionEnd g \<Rightarrow> Some (if g \<in> region_ids then RegionEnd g else Point)
      | DtoCue n \<Rightarrow>
          (case cue_slot_new n of
             Some slot \<Rightarrow> if slot \<in> seen then None else Some (Cue slot)
           | None \<Rightarrow> None))"

definition marker_from_dto :: "nat \<Rightarrow> nat \<Rightarrow> nat \<Rightarrow> marker_kind \<Rightarrow> owner \<Rightarrow> marker_dto \<Rightarrow> marker" where
  "marker_from_dto file_rate rate len k who d =
     (let rescaled = rescale (md_position d) file_rate rate
      in \<lparr>mk_id = md_id d, mk_kind = k, mk_position = min rescaled len, mk_name = md_name d,
          mk_color = palette_new (min (md_color d) 255), mk_owner = who,
          mk_transient = md_transient d, mk_visible = md_visible d, mk_clamped = (len < rescaled)\<rparr>)"

fun load_markers ::
  "nat set \<Rightarrow> nat \<Rightarrow> nat \<Rightarrow> nat \<Rightarrow> marker_dto list \<Rightarrow> marker list \<Rightarrow> cue_slot set \<Rightarrow> id_table \<Rightarrow>
   marker list \<times> id_table"
where
  "load_markers region_ids file_rate rate len [] acc seen tab = (acc, tab)"
| "load_markers region_ids file_rate rate len (d # ds) acc seen tab =
     (if MAX_MARKERS \<le> length acc then (acc, tab)
      else case kind_from_dto region_ids seen (md_kind d) of
             None \<Rightarrow> load_markers region_ids file_rate rate len ds acc seen tab
           | Some k \<Rightarrow>
               (let (who, tab') = owner_from_dto (md_owner d) tab;
                    seen' = (case k of Cue slot \<Rightarrow> insert slot seen | _ \<Rightarrow> seen)
                in load_markers region_ids file_rate rate len ds
                     (acc @ [marker_from_dto file_rate rate len k who d]) seen' tab'))"

definition region_from_dto :: "marker list \<Rightarrow> region_dto \<Rightarrow> loop_region" where
  "region_from_dto ms d =
     (let kinds = map_of (rev (map (\<lambda>m. (mk_id m, mk_kind m)) ms));
          valid = (\<lambda>k e. case e of None \<Rightarrow> None
                   | Some i \<Rightarrow> if kinds i = Some k then Some i else None)
      in \<lparr>lr_id = rd_id d, lr_a = valid (RegionStart (rd_id d)) (rd_a d),
          lr_b = valid (RegionEnd (rd_id d)) (rd_b d), lr_crossfade_ms = min (rd_crossfade_ms d) 50,
          lr_repeat = (case rd_repeat d of None \<Rightarrow> Infinite | Some n \<Rightarrow> times_clamped (min n 65535)),
          lr_armed = False, lr_wraps = 0\<rparr>)"

definition from_file ::
  "track_state_file \<Rightarrow> track_id \<Rightarrow> nat \<Rightarrow> nat \<Rightarrow> id_table \<Rightarrow> track_markers \<times> id_table"
where
  "from_file file i rate len tab =
     (let region_ids = set (map rd_id (sf_regions file));
          (ms, tab') = load_markers region_ids (sf_sample_rate file) rate len (sf_markers file) [] {} tab;
          rs = map (region_from_dto ms) (sf_regions file);
          current = (case sf_current_region file of
                       Some g \<Rightarrow> if g \<in> set (map lr_id rs) then Some g else max_region_id rs
                     | None \<Rightarrow> max_region_id rs);
          top_marker = fold max (map mk_id ms) 0;
          top_region = fold max (map lr_id rs) 0
      in (from_parts i rate len ms rs current (max (sf_next_marker_id file) (top_marker + 1))
            (max (sf_next_region_id file) (top_region + 1)), tab'))"

datatype load_warning = Unreadable | NewerSchema

record load_outcome =
  lo_state :: track_markers
  lo_warning :: "load_warning option"
  lo_rewrite_allowed :: bool

text \<open>
  What reading the file gives: nothing there, an I/O error, or its bytes, of which the JSON parser
  makes a value (\<open>parse\<close>), with a version field (\<open>schema\<close>) and the file record (\<open>decode\<close>).
\<close>

datatype file_read = FileMissing | FileError | FileBytes "nat list"

definition load_track_state ::
  "(nat list \<Rightarrow> 'v option) \<Rightarrow> ('v \<Rightarrow> nat option) \<Rightarrow> ('v \<Rightarrow> track_state_file option) \<Rightarrow> file_read \<Rightarrow>
   track_id \<Rightarrow> nat \<Rightarrow> nat \<Rightarrow> id_table \<Rightarrow> load_outcome \<times> id_table"
where
  "load_track_state parse schema decode r i rate len tab =
     (let empty = (\<lambda>w rewrite. (\<lparr>lo_state = track_markers_new i rate len, lo_warning = w,
                                lo_rewrite_allowed = rewrite\<rparr>, tab))
      in case r of
           FileMissing \<Rightarrow> empty None True
         | FileError \<Rightarrow> empty (Some Unreadable) True
         | FileBytes bs \<Rightarrow>
             if length bs > MAX_FILE_BYTES then empty (Some Unreadable) True
             else case parse bs of
                    None \<Rightarrow> empty (Some Unreadable) True
                  | Some v \<Rightarrow>
                      if (case schema v of None \<Rightarrow> SCHEMA_VERSION | Some n \<Rightarrow> n) > SCHEMA_VERSION
                      then empty (Some NewerSchema) False
                      else case decode v of
                             None \<Rightarrow> empty (Some Unreadable) True
                           | Some file \<Rightarrow>
                               (let (t, tab') = from_file file i rate len tab
                                in (\<lparr>lo_state = t, lo_warning = None, lo_rewrite_allowed = True\<rparr>, tab')))"

end
