(* ===== verification/Search.thy ===== *)
theory Search
  imports Source_Types
begin

text \<open>
  Free-text catalog search (\<^verbatim>\<open>crates/modplayer-core/src/search.rs\<close>): a debounced query,
  one combined request for the four groups, "Show more" pages, and retries of what was rate
  limited after \<open>backoff_delay\<close> (\<^verbatim>\<open>src/backoff.rs\<close>). Arrays of four indexed by
  \<^verbatim>\<open>kind_index\<close> are functions of the kind; times are milliseconds; the generation
  is a 64-bit number, of which a request identifier keeps 56 bits.
\<close>

section \<open>What the catalog answers\<close>

datatype playlist_id = PlaylistId ustring

record album_ref =
  al_id :: album_id
  al_name :: ustring
  al_artists :: "ustring list"
  al_artwork_url :: "ustring option"
  al_release_date :: "release_date option"
  al_track_count :: nat

record artist_ref =
  at_id :: artist_id
  at_name :: ustring
  at_artwork_url :: "ustring option"

record playlist_ref =
  pl_id :: playlist_id
  pl_name :: ustring
  pl_owner_name :: ustring
  pl_editable :: bool
  pl_artwork_url :: "ustring option"
  pl_track_count :: nat
  pl_revision :: "ustring option"

datatype search_hit =
  HitTrack track_ref | HitAlbum album_ref | HitArtist artist_ref | HitPlaylist playlist_ref

record search_group_page =
  gp_kind :: search_kind
  gp_items :: "search_hit list"
  gp_next_offset :: "nat option"

record search_page =
  sp_groups :: "search_group_page list"
  sp_unsupported :: "search_kind list"

datatype catalog_error =
  CatalogOffline | CatalogRateLimited "nat option" | CatalogNotFound | CatalogUnsupported | CatalogUnavailable ustring

text \<open>\<^verbatim>\<open>SourceCommand::SearchCatalog\<close>.\<close>

record search_command =
  sc_request_id :: u64
  sc_query :: ustring
  sc_kinds :: "search_kind list"
  sc_offset :: nat
  sc_limit :: nat

section \<open>Backoff\<close>

definition SYNC_BACKOFF_BASE :: nat where "SYNC_BACKOFF_BASE = 15000"
definition SYNC_BACKOFF_MAX :: nat where "SYNC_BACKOFF_MAX = 240000"

definition backoff_delay :: "nat \<Rightarrow> nat option \<Rightarrow> nat" where
  "backoff_delay attempt retry_after =
     (case retry_after of
        Some ms \<Rightarrow> min ms SYNC_BACKOFF_MAX
      | None \<Rightarrow> min (SYNC_BACKOFF_BASE * 2 ^ min attempt 10) SYNC_BACKOFF_MAX)"

section \<open>The session\<close>

definition SEARCH_DEBOUNCE :: nat where "SEARCH_DEBOUNCE = 150"
definition SEARCH_PAGE :: nat where "SEARCH_PAGE = 20"

definition GROUP_ORDER :: "search_kind list" where
  "GROUP_ORDER = [KindTrack, KindAlbum, KindArtist, KindPlaylist]"

definition kind_from_byte :: "u64 \<Rightarrow> search_kind option" where
  "kind_from_byte b = find (\<lambda>k. search_kind_code k = b) GROUP_ORDER"

datatype group_state =
    GroupIdle
  | GroupPending
  | GroupLoaded "search_hit list" "nat option" bool  \<comment> \<open>items, next offset, loading more\<close>
  | GroupEmpty
  | GroupUnsupported
  | GroupRateLimited "search_hit list option" "nat option"  \<comment> \<open>stale, resume offset\<close>

record retry =
  rt_due :: nat
  rt_attempt :: nat
  rt_issued :: bool

definition group_items :: "group_state \<Rightarrow> search_hit list" where
  "group_items g =
     (case g of GroupLoaded items _ _ \<Rightarrow> items | GroupRateLimited (Some items) _ \<Rightarrow> items | _ \<Rightarrow> [])"

record search_session =
  ss_raw_query :: ustring
  ss_query :: ustring
  ss_debounce :: "nat option"
  ss_generation :: u64
  ss_groups :: "search_kind \<Rightarrow> group_state"
  ss_offline :: bool
  ss_pending :: "u64 option"
  ss_more_ids :: "search_kind \<Rightarrow> u64 option"
  ss_combined_retry :: "retry option"
  ss_more_retries :: "search_kind \<Rightarrow> retry option"

definition search_session_new :: search_session where
  "search_session_new =
     \<lparr>ss_raw_query = [], ss_query = [], ss_debounce = None, ss_generation = 0,
      ss_groups = (\<lambda>_. GroupIdle), ss_offline = False, ss_pending = None,
      ss_more_ids = (\<lambda>_. None), ss_combined_retry = None, ss_more_retries = (\<lambda>_. None)\<rparr>"

definition in_flight :: "search_session \<Rightarrow> bool" where
  "in_flight s \<longleftrightarrow> ss_debounce s \<noteq> None \<or> (ss_pending s \<noteq> None \<and> ss_combined_retry s = None)"

definition retry_scheduled :: "search_session \<Rightarrow> bool" where
  "retry_scheduled s \<longleftrightarrow>
     ss_combined_retry s \<noteq> None \<or> list_ex (\<lambda>k. ss_more_retries s k \<noteq> None) GROUP_ORDER"

definition is_rate_limited :: "group_state \<Rightarrow> bool" where
  "is_rate_limited g = (case g of GroupRateLimited _ _ \<Rightarrow> True | _ \<Rightarrow> False)"

definition refreshing :: "search_session \<Rightarrow> bool" where
  "refreshing s \<longleftrightarrow> list_ex (\<lambda>k. is_rate_limited (ss_groups s k)) GROUP_ORDER"

definition is_no_results :: "search_session \<Rightarrow> bool" where
  "is_no_results s \<longleftrightarrow> ss_query s \<noteq> [] \<and> list_all (\<lambda>k. ss_groups s k = GroupEmpty) GROUP_ORDER"

definition clear_retries :: "search_session \<Rightarrow> search_session" where
  "clear_retries s = s\<lparr>ss_combined_retry := None, ss_more_retries := (\<lambda>_. None)\<rparr>"

definition issued :: "retry option \<Rightarrow> bool" where
  "issued r = (case r of Some r \<Rightarrow> rt_issued r | None \<Rightarrow> False)"

definition cancel_retries :: "search_session \<Rightarrow> search_session" where
  "cancel_retries s =
     clear_retries (s\<lparr>ss_pending := (if issued (ss_combined_retry s) then None else ss_pending s),
       ss_more_ids := (\<lambda>k. if issued (ss_more_retries s k) then None else ss_more_ids s k)\<rparr>)"

definition reset_to_idle :: "search_session \<Rightarrow> search_session" where
  "reset_to_idle s =
     (clear_retries s)\<lparr>ss_generation := ss_generation s + 1, ss_debounce := None, ss_pending := None,
       ss_more_ids := (\<lambda>_. None), ss_groups := (\<lambda>_. GroupIdle)\<rparr>"

definition set_query :: "ustring \<Rightarrow> nat \<Rightarrow> search_session \<Rightarrow> search_session" where
  "set_query raw now s =
     (let s = s\<lparr>ss_raw_query := raw\<rparr>; trimmed = trim raw
      in if trimmed = [] then reset_to_idle (s\<lparr>ss_query := trimmed\<rparr>)
         else if trimmed = ss_query s then s
         else (cancel_retries (s\<lparr>ss_query := trimmed\<rparr>))\<lparr>ss_debounce := Some (now + SEARCH_DEBOUNCE)\<rparr>)"

text \<open>Going offline: what is rate limited with a retry collapses to a state without one.\<close>

definition collapse_combined :: "search_session \<Rightarrow> search_session" where
  "collapse_combined s =
     (case ss_combined_retry s of
        None \<Rightarrow> s
      | Some r \<Rightarrow>
          s\<lparr>ss_groups := (\<lambda>k. case ss_groups s k of GroupRateLimited None _ \<Rightarrow> GroupIdle | g \<Rightarrow> g),
            ss_pending := None, ss_debounce := Some (rt_due r)\<rparr>)"

definition collapse_more :: "search_session \<Rightarrow> search_session" where
  "collapse_more s =
     s\<lparr>ss_more_ids := (\<lambda>k. if ss_more_retries s k = None then ss_more_ids s k else None),
       ss_groups := (\<lambda>k. if ss_more_retries s k = None then ss_groups s k
         else case ss_groups s k of
                GroupRateLimited (Some items) resume \<Rightarrow> GroupLoaded items resume False
              | _ \<Rightarrow> GroupIdle)\<rparr>"

definition set_offline :: "bool \<Rightarrow> search_session \<Rightarrow> search_session" where
  "set_offline offline s =
     (let s = s\<lparr>ss_offline := offline\<rparr>
      in if \<not> offline \<or> \<not> retry_scheduled s then s
         else clear_retries (collapse_more (collapse_combined s)))"

definition combined_command :: "search_session \<Rightarrow> search_command" where
  "combined_command s =
     \<lparr>sc_request_id = pack_request_id (ss_generation s) KindTrack, sc_query = ss_query s,
      sc_kinds = GROUP_ORDER, sc_offset = 0, sc_limit = SEARCH_PAGE\<rparr>"

definition more_command :: "search_kind \<Rightarrow> nat \<Rightarrow> search_session \<Rightarrow> search_command" where
  "more_command k offset s =
     \<lparr>sc_request_id = pack_request_id (ss_generation s) k, sc_query = ss_query s,
      sc_kinds = [k], sc_offset = offset, sc_limit = SEARCH_PAGE\<rparr>"

definition due_combined :: "nat \<Rightarrow> search_session \<Rightarrow> search_session \<times> search_command list" where
  "due_combined now s =
     (case ss_combined_retry s of
        Some r \<Rightarrow>
          if \<not> rt_issued r \<and> rt_due r \<le> now
          then (s\<lparr>ss_combined_retry := Some (r\<lparr>rt_issued := True\<rparr>),
                  ss_pending := Some (pack_request_id (ss_generation s) KindTrack)\<rparr>,
                [combined_command s])
          else (s, [])
      | None \<Rightarrow> (s, []))"

definition due_more :: "nat \<Rightarrow> search_kind \<Rightarrow> search_session \<Rightarrow> search_session \<times> search_command list" where
  "due_more now k s =
     (case ss_more_retries s k of
        Some r \<Rightarrow>
          if rt_issued r \<or> now < rt_due r then (s, [])
          else (case ss_groups s k of
                  GroupRateLimited _ (Some offset) \<Rightarrow>
                    (s\<lparr>ss_more_retries := (ss_more_retries s)(k := Some (r\<lparr>rt_issued := True\<rparr>)),
                       ss_more_ids := (ss_more_ids s)(k := Some (pack_request_id (ss_generation s) k))\<rparr>,
                     [more_command k offset s])
                | _ \<Rightarrow> (s, []))
      | None \<Rightarrow> (s, []))"

fun due_mores ::
  "nat \<Rightarrow> search_kind list \<Rightarrow> search_session \<times> search_command list \<Rightarrow> search_session \<times> search_command list"
where
  "due_mores now [] sc = sc"
| "due_mores now (k # ks) (s, cmds) = (case due_more now k s of (s', cs) \<Rightarrow> due_mores now ks (s', cmds @ cs))"

definition due_retries :: "nat \<Rightarrow> search_session \<Rightarrow> search_session \<times> search_command list" where
  "due_retries now s = due_mores now GROUP_ORDER (due_combined now s)"

definition search_tick :: "nat \<Rightarrow> search_session \<Rightarrow> search_session \<times> search_command list" where
  "search_tick now s =
     (if ss_offline s then (s, [])
      else case ss_debounce s of
             None \<Rightarrow> due_retries now s
           | Some deadline \<Rightarrow>
               if now < deadline then (s, [])
               else (let s = s\<lparr>ss_debounce := None\<rparr>
                     in if ss_query s = [] then (s, [])
                        else (let s = (clear_retries (s\<lparr>ss_generation := ss_generation s + 1,
                                         ss_groups := (\<lambda>_. GroupPending), ss_more_ids := (\<lambda>_. None)\<rparr>))
                                       \<lparr>ss_pending := Some (pack_request_id (ss_generation s + 1) KindTrack)\<rparr>
                              in (s, [combined_command s]))))"

definition show_more :: "search_kind \<Rightarrow> search_session \<Rightarrow> search_session \<times> search_command option" where
  "show_more k s =
     (case ss_groups s k of
        GroupLoaded items (Some offset) False \<Rightarrow>
          (s\<lparr>ss_groups := (ss_groups s)(k := GroupLoaded items (Some offset) True),
             ss_more_ids := (ss_more_ids s)(k := Some (pack_request_id (ss_generation s) k))\<rparr>,
           Some (more_command k offset s))
      | _ \<Rightarrow> (s, None))"

section \<open>Replies\<close>

definition apply_group_page :: "search_group_page \<Rightarrow> (search_kind \<Rightarrow> group_state) \<Rightarrow> search_kind \<Rightarrow> group_state" where
  "apply_group_page p gs =
     gs(gp_kind p :=
          (case gs (gp_kind p) of
             GroupLoaded items _ True \<Rightarrow> GroupLoaded (items @ gp_items p) (gp_next_offset p) False
           | _ \<Rightarrow> if gp_items p = [] then GroupEmpty else GroupLoaded (gp_items p) (gp_next_offset p) False))"

definition apply_page :: "search_page \<Rightarrow> (search_kind \<Rightarrow> group_state) \<Rightarrow> search_kind \<Rightarrow> group_state" where
  "apply_page p gs = fold (\<lambda>k gs. gs(k := GroupUnsupported)) (sp_unsupported p) (fold apply_group_page (sp_groups p) gs)"

definition next_attempt :: "retry option \<Rightarrow> nat" where
  "next_attempt previous = (case previous of None \<Rightarrow> 0 | Some r \<Rightarrow> min (rt_attempt r + 1) 255)"

definition retry_at :: "nat \<Rightarrow> retry option \<Rightarrow> nat option \<Rightarrow> retry" where
  "retry_at now previous retry_after =
     \<lparr>rt_due = now + backoff_delay (next_attempt previous) retry_after,
      rt_attempt = next_attempt previous, rt_issued = False\<rparr>"

text \<open>\<^verbatim>\<open>if matches!(state, Pending) { *state = g }\<close>, for each group.\<close>

definition settle_pending :: "group_state \<Rightarrow> (search_kind \<Rightarrow> group_state) \<Rightarrow> search_kind \<Rightarrow> group_state" where
  "settle_pending g gs k = (if gs k = GroupPending then g else gs k)"

definition apply_combined_reply ::
  "(catalog_error + search_page) \<Rightarrow> nat \<Rightarrow> search_session \<Rightarrow> search_session"
where
  "apply_combined_reply result now s =
     (let previous = ss_combined_retry s;
          gs = (if previous = None then ss_groups s
                else (\<lambda>k. case ss_groups s k of GroupRateLimited None _ \<Rightarrow> GroupPending | g \<Rightarrow> g));
          s = s\<lparr>ss_pending := None, ss_combined_retry := None\<rparr>
      in case result of
           Inr page \<Rightarrow> s\<lparr>ss_groups := settle_pending GroupEmpty (apply_page page gs)\<rparr>
         | Inl (CatalogRateLimited retry_after) \<Rightarrow>
             s\<lparr>ss_groups := settle_pending (GroupRateLimited None None) gs,
               ss_combined_retry := Some (retry_at now previous retry_after)\<rparr>
         | Inl _ \<Rightarrow> s\<lparr>ss_groups := settle_pending GroupEmpty gs\<rparr>)"

definition apply_more_reply ::
  "search_kind \<Rightarrow> (catalog_error + search_page) \<Rightarrow> nat \<Rightarrow> search_session \<Rightarrow> search_session"
where
  "apply_more_reply k result now s =
     (let previous = ss_more_retries s k;
          gs = (if previous = None then ss_groups s
                else case ss_groups s k of
                       GroupRateLimited (Some items) resume \<Rightarrow>
                         (ss_groups s)(k := GroupLoaded items resume True)
                     | _ \<Rightarrow> ss_groups s);
          s = s\<lparr>ss_more_ids := (ss_more_ids s)(k := None),
                ss_more_retries := (ss_more_retries s)(k := None), ss_groups := gs\<rparr>
      in case result of
           Inr page \<Rightarrow> s\<lparr>ss_groups := apply_page page gs\<rparr>
         | Inl (CatalogRateLimited retry_after) \<Rightarrow>
             (case gs k of
                GroupLoaded items next_offset _ \<Rightarrow>
                  s\<lparr>ss_groups := gs(k := GroupRateLimited (Some items) next_offset),
                    ss_more_retries := (ss_more_retries s)(k := Some (retry_at now previous retry_after))\<rparr>
              | _ \<Rightarrow> s)
         | Inl _ \<Rightarrow>
             (case gs k of
                GroupLoaded items next_offset _ \<Rightarrow>
                  s\<lparr>ss_groups := gs(k := GroupLoaded items next_offset False)\<rparr>
              | _ \<Rightarrow> s))"

definition apply_reply ::
  "u64 \<Rightarrow> (catalog_error + search_page) \<Rightarrow> nat \<Rightarrow> search_session \<Rightarrow> search_session"
where
  "apply_reply request_id result now s =
     (if ss_offline s then s
      else case unpack_request_id request_id of (generation, kind_byte) \<Rightarrow>
        if generation \<noteq> ss_generation s then s
        else if ss_pending s = Some request_id then apply_combined_reply result now s
        else case kind_from_byte kind_byte of
               None \<Rightarrow> s
             | Some k \<Rightarrow> if ss_more_ids s k \<noteq> Some request_id then s else apply_more_reply k result now s)"

end
