(* ===== verification/Library_Index.thy ===== *)
theory Library_Index
  imports Search "HOL-Library.AList"
begin

text \<open>
  The mirror of the account's library (\<^verbatim>\<open>crates/modplayer-core/src/library/index.rs\<close>)
  with the catalog types it is fed (\<^verbatim>\<open>crates/modplayer-audio-source/src/catalog.rs\<close>).
  A \<^verbatim>\<open>HashMap\<close> that the program iterates over is an association list with distinct
  keys: its order stands for the unspecified order of the iteration, and the theorems hold for every
  order. Maps that are only looked up are functions, hash sets are sets.
\<close>

section \<open>Identifiers and pages\<close>

type_synonym ('k, 'v) hash_map = "('k \<times> 'v) list"

abbreviation put :: "'k \<Rightarrow> 'v \<Rightarrow> ('k, 'v) hash_map \<Rightarrow> ('k, 'v) hash_map" where
  "put \<equiv> AList.update"

lemma map_of_put [simp]: "map_of (put k v m) = (map_of m)(k \<mapsto> v)"
  by (rule update_conv')

lemma put_keys [simp]: "set (map fst (put k v m)) = insert k (set (map fst m))"
  using dom_update [of k v m] by auto

lemma put_distinct [simp, intro]: "distinct (map fst m) \<Longrightarrow> distinct (map fst (put k v m))"
  by (rule distinct_update)

lemma set_put: "set (put k v m) \<subseteq> insert (k, v) (set m)"
  by (induction m) auto

text \<open>The macro \<^verbatim>\<open>id_newtype!\<close> gives each identifier the same test as track identifiers.\<close>

definition uri_ok :: "ustring \<Rightarrow> bool" where
  "uri_ok uri \<longleftrightarrow> uri \<noteq> [] \<and> length uri \<le> 64 \<and> is_ascii uri"

definition album_id_new :: "ustring \<Rightarrow> album_id option" where
  "album_id_new uri = (if uri_ok uri then Some (AlbumId uri) else None)"

definition artist_id_new :: "ustring \<Rightarrow> artist_id option" where
  "artist_id_new uri = (if uri_ok uri then Some (ArtistId uri) else None)"

definition playlist_id_new :: "ustring \<Rightarrow> playlist_id option" where
  "playlist_id_new uri = (if uri_ok uri then Some (PlaylistId uri) else None)"

datatype library_set = SavedTracks | SavedAlbums | FollowedArtists | Playlists

datatype track_list_source =
    ListOfAlbum album_id
  | ListOfPlaylist playlist_id
  | ListOfArtistTop artist_id

datatype library_item =
    ItemTrack track_ref "nat option"  \<comment> \<open>added at\<close>
  | ItemAlbum album_ref "nat option"
  | ItemArtist artist_ref
  | ItemPlaylist playlist_ref

record library_page =
  lp_set :: library_set
  lp_items :: "library_item list"
  lp_next_page :: "ustring option"
  lp_sync_token :: "ustring option"

record track_list_reply =
  tl_source :: track_list_source
  tl_tracks :: "track_ref list"

section \<open>The index\<close>

record 'i saved_entry =
  sv_id :: 'i
  sv_added_at :: "nat option"

datatype sync_outcome = SyncNever | SyncOk | SyncPartial | SyncRateLimited | SyncFailed

record sync_meta =
  sy_last_synced_at :: "nat option"
  sy_last_outcome :: sync_outcome
  sy_sync_tokens :: "(library_set, ustring) hash_map"

definition first_sync_failed :: "sync_meta \<Rightarrow> bool" where
  "first_sync_failed m \<longleftrightarrow> sy_last_outcome m = SyncFailed \<and> sy_last_synced_at m = None"

datatype hydration_target = TargetTrack track_id | TargetAlbum album_id | TargetArtist artist_id

record hydrate_batch =
  hb_tracks :: "track_id list"
  hb_albums :: "album_id list"
  hb_artists :: "artist_id list"

definition batch_empty :: hydrate_batch where
  "batch_empty = \<lparr>hb_tracks = [], hb_albums = [], hb_artists = []\<rparr>"

definition batch_is_empty :: "hydrate_batch \<Rightarrow> bool" where
  "batch_is_empty b \<longleftrightarrow> hb_tracks b = [] \<and> hb_albums b = [] \<and> hb_artists b = []"

record library_index =
  li_saved_tracks :: "track_id saved_entry list"
  li_saved_albums :: "album_id saved_entry list"
  li_followed_artists :: "artist_id list"
  li_playlists :: "playlist_id list"
  li_tracks :: "(track_id, track_ref) hash_map"
  li_albums :: "(album_id, album_ref) hash_map"
  li_artists :: "(artist_id, artist_ref) hash_map"
  li_playlist_refs :: "(playlist_id, playlist_ref) hash_map"
  li_track_lists :: "(track_list_source, track_id list) hash_map"
  li_meta :: sync_meta
  li_queue :: "hydration_target list"
  li_pending :: "hydration_target set"
  li_track_positions :: "track_id \<rightharpoonup> nat"
  li_album_positions :: "album_id \<rightharpoonup> nat"
  li_artist_set :: "artist_id set"
  li_playlist_set :: "playlist_id set"

text \<open>\<^verbatim>\<open>enumerate().map(|(i, e)| (e.id, i)).collect()\<close>: a later index replaces an earlier one.\<close>

definition positions_of :: "'i saved_entry list \<Rightarrow> 'i \<rightharpoonup> nat" where
  "positions_of es = map_of (rev (zip (map sv_id es) [0..<length es]))"

definition index_from_parts ::
  "track_id saved_entry list \<Rightarrow> album_id saved_entry list \<Rightarrow> artist_id list \<Rightarrow> playlist_id list
    \<Rightarrow> (track_id, track_ref) hash_map \<Rightarrow> (album_id, album_ref) hash_map \<Rightarrow> (artist_id, artist_ref) hash_map
    \<Rightarrow> (playlist_id, playlist_ref) hash_map \<Rightarrow> (track_list_source, track_id list) hash_map \<Rightarrow> sync_meta
    \<Rightarrow> library_index"
where
  "index_from_parts saved_tracks saved_albums followed_artists pls tracks albums artists refs cached meta =
     \<lparr>li_saved_tracks = saved_tracks, li_saved_albums = saved_albums,
      li_followed_artists = followed_artists, li_playlists = pls,
      li_tracks = tracks, li_albums = albums, li_artists = artists, li_playlist_refs = refs,
      li_track_lists = cached, li_meta = meta, li_queue = [], li_pending = {},
      li_track_positions = positions_of saved_tracks, li_album_positions = positions_of saved_albums,
      li_artist_set = set followed_artists, li_playlist_set = set pls\<rparr>"

definition sync_meta_default :: sync_meta where
  "sync_meta_default = \<lparr>sy_last_synced_at = None, sy_last_outcome = SyncNever, sy_sync_tokens = []\<rparr>"

definition index_new :: library_index where
  "index_new =
     \<lparr>li_saved_tracks = [], li_saved_albums = [], li_followed_artists = [], li_playlists = [],
      li_tracks = [], li_albums = [], li_artists = [], li_playlist_refs = [], li_track_lists = [],
      li_meta = sync_meta_default, li_queue = [], li_pending = {},
      li_track_positions = Map.empty, li_album_positions = Map.empty,
      li_artist_set = {}, li_playlist_set = {}\<rparr>"

definition index_track_list :: "track_list_source \<Rightarrow> library_index \<Rightarrow> track_ref list option" where
  "index_track_list src ix =
     map_option (List.map_filter (map_of (li_tracks ix))) (map_of (li_track_lists ix) src)"

definition has_any_snapshot :: "library_index \<Rightarrow> bool" where
  "has_any_snapshot ix \<longleftrightarrow>
     li_saved_tracks ix \<noteq> [] \<or> li_saved_albums ix \<noteq> [] \<or> li_followed_artists ix \<noteq> [] \<or> li_playlists ix \<noteq> []"

definition is_hydrated :: "hydration_target \<Rightarrow> library_index \<Rightarrow> bool" where
  "is_hydrated t ix =
     (case t of
        TargetTrack i \<Rightarrow> map_of (li_tracks ix) i \<noteq> None
      | TargetAlbum i \<Rightarrow> map_of (li_albums ix) i \<noteq> None
      | TargetArtist i \<Rightarrow> map_of (li_artists ix) i \<noteq> None)"

definition enqueue_hydration :: "hydration_target \<Rightarrow> library_index \<Rightarrow> library_index" where
  "enqueue_hydration t ix =
     (if is_hydrated t ix \<or> t \<in> li_pending ix then ix
      else ix\<lparr>li_pending := insert t (li_pending ix), li_queue := li_queue ix @ [t]\<rparr>)"

text \<open>The arm of \<^verbatim>\<open>merge_page\<close> for tracks, which the one for albums repeats.\<close>

definition merge_saved ::
  "'i \<Rightarrow> nat option \<Rightarrow> ('i \<rightharpoonup> nat) \<times> 'i saved_entry list \<Rightarrow> ('i \<rightharpoonup> nat) \<times> 'i saved_entry list"
where
  "merge_saved i added = (\<lambda>(pos, es).
     case pos i of
       Some p \<Rightarrow> (pos, es[p := (es ! p)\<lparr>sv_added_at := (if added = None then sv_added_at (es ! p) else added)\<rparr>])
     | None \<Rightarrow> (pos(i \<mapsto> length es), es @ [\<lparr>sv_id = i, sv_added_at = added\<rparr>]))"

fun merge_item :: "library_item \<Rightarrow> library_index \<Rightarrow> library_index" where
  "merge_item (ItemTrack t added) ix =
     (let (pos, es) = merge_saved (tr_id t) added (li_track_positions ix, li_saved_tracks ix)
      in enqueue_hydration (TargetTrack (tr_id t)) (ix\<lparr>li_track_positions := pos, li_saved_tracks := es\<rparr>))"
| "merge_item (ItemAlbum a added) ix =
     (let (pos, es) = merge_saved (al_id a) added (li_album_positions ix, li_saved_albums ix)
      in enqueue_hydration (TargetAlbum (al_id a)) (ix\<lparr>li_album_positions := pos, li_saved_albums := es\<rparr>))"
| "merge_item (ItemArtist a) ix =
     enqueue_hydration (TargetArtist (at_id a))
       (if at_id a \<in> li_artist_set ix then ix
        else ix\<lparr>li_artist_set := insert (at_id a) (li_artist_set ix),
                li_followed_artists := li_followed_artists ix @ [at_id a]\<rparr>)"
| "merge_item (ItemPlaylist p) ix =
     (let ix1 = (if pl_id p \<in> li_playlist_set ix then ix
                 else ix\<lparr>li_playlist_set := insert (pl_id p) (li_playlist_set ix),
                         li_playlists := li_playlists ix @ [pl_id p]\<rparr>)
      in ix1\<lparr>li_playlist_refs := put (pl_id p) p (li_playlist_refs ix1)\<rparr>)"

definition merge_page :: "library_page \<Rightarrow> library_index \<Rightarrow> library_index" where
  "merge_page page ix =
     (let ix1 = fold merge_item (lp_items page) ix
      in case lp_sync_token page of
           None \<Rightarrow> ix1
         | Some token \<Rightarrow>
             ix1\<lparr>li_meta := (li_meta ix1)\<lparr>sy_sync_tokens :=
               put (lp_set page) token (sy_sync_tokens (li_meta ix1))\<rparr>\<rparr>)"

definition prioritize_one :: "track_id \<Rightarrow> library_index \<Rightarrow> library_index" where
  "prioritize_one i ix =
     (let t = TargetTrack i in
      if is_hydrated t ix then ix
      else case position (\<lambda>u. u = t) (li_queue ix) of
        Some p \<Rightarrow> ix\<lparr>li_queue := t # remove_nth p (li_queue ix)\<rparr>
      | None \<Rightarrow>
          if t \<in> li_pending ix then ix
          else ix\<lparr>li_pending := insert t (li_pending ix), li_queue := t # li_queue ix\<rparr>)"

definition prioritize_hydration :: "track_id list \<Rightarrow> library_index \<Rightarrow> library_index" where
  "prioritize_hydration ids ix = fold prioritize_one ids ix"

definition batch_push :: "hydration_target \<Rightarrow> hydrate_batch \<Rightarrow> hydrate_batch" where
  "batch_push t b =
     (case t of
        TargetTrack i \<Rightarrow> b\<lparr>hb_tracks := hb_tracks b @ [i]\<rparr>
      | TargetAlbum i \<Rightarrow> b\<lparr>hb_albums := hb_albums b @ [i]\<rparr>
      | TargetArtist i \<Rightarrow> b\<lparr>hb_artists := hb_artists b @ [i]\<rparr>)"

text \<open>The loop pops until the batch is full; its first argument is what the batch still takes.\<close>

fun drain_batch :: "nat \<Rightarrow> hydration_target list \<Rightarrow> hydrate_batch \<Rightarrow> hydrate_batch \<times> hydration_target list" where
  "drain_batch 0 q b = (b, q)"
| "drain_batch (Suc n) [] b = (b, [])"
| "drain_batch (Suc n) (t # q) b = drain_batch n q (batch_push t b)"

definition drain_hydration_batch :: "nat \<Rightarrow> library_index \<Rightarrow> hydrate_batch \<times> library_index" where
  "drain_hydration_batch limit ix =
     (let (b, q) = drain_batch limit (li_queue ix) batch_empty in (b, ix\<lparr>li_queue := q\<rparr>))"

definition has_pending_hydration :: "library_index \<Rightarrow> bool" where
  "has_pending_hydration ix \<longleftrightarrow> li_pending ix \<noteq> {}"

definition hydrate_track :: "track_ref \<Rightarrow> library_index \<Rightarrow> library_index" where
  "hydrate_track t ix =
     ix\<lparr>li_pending := li_pending ix - {TargetTrack (tr_id t)}, li_tracks := put (tr_id t) t (li_tracks ix)\<rparr>"

definition hydrate_album :: "album_ref \<Rightarrow> library_index \<Rightarrow> library_index" where
  "hydrate_album a ix =
     ix\<lparr>li_pending := li_pending ix - {TargetAlbum (al_id a)}, li_albums := put (al_id a) a (li_albums ix)\<rparr>"

definition hydrate_artist :: "artist_ref \<Rightarrow> library_index \<Rightarrow> library_index" where
  "hydrate_artist a ix =
     ix\<lparr>li_pending := li_pending ix - {TargetArtist (at_id a)}, li_artists := put (at_id a) a (li_artists ix)\<rparr>"

definition removed_track :: "track_id \<Rightarrow> track_ref" where
  "removed_track i = track_ref_new i [] [] None None 0 Removed_Track"

text \<open>A missing uri that no pending track has is tried as an album, and only if that fails as an artist.\<close>

definition clear_missing :: "ustring \<Rightarrow> library_index \<Rightarrow> library_index" where
  "clear_missing uri ix =
     (case album_id_new uri of
        Some a \<Rightarrow> ix\<lparr>li_pending := li_pending ix - {TargetAlbum a}\<rparr>
      | None \<Rightarrow>
          (case artist_id_new uri of
             Some a \<Rightarrow> ix\<lparr>li_pending := li_pending ix - {TargetArtist a}\<rparr>
           | None \<Rightarrow> ix))"

definition resolve_missing :: "ustring \<Rightarrow> library_index \<Rightarrow> library_index" where
  "resolve_missing uri ix =
     (case track_id_new uri of
        Some i \<Rightarrow>
          if TargetTrack i \<in> li_pending ix then
            ix\<lparr>li_pending := li_pending ix - {TargetTrack i}, li_tracks := put i (removed_track i) (li_tracks ix)\<rparr>
          else clear_missing uri ix
      | None \<Rightarrow> clear_missing uri ix)"

definition apply_hydrated ::
  "track_ref list \<Rightarrow> album_ref list \<Rightarrow> artist_ref list \<Rightarrow> ustring list \<Rightarrow> library_index \<Rightarrow> library_index"
where
  "apply_hydrated tracks albums artists missing ix =
     fold resolve_missing missing (fold hydrate_artist artists (fold hydrate_album albums (fold hydrate_track tracks ix)))"

definition merge_track_list :: "track_list_reply \<Rightarrow> library_index \<Rightarrow> library_index" where
  "merge_track_list l ix =
     (let ix1 = fold hydrate_track (tl_tracks l) ix
      in ix1\<lparr>li_track_lists := put (tl_source l) (map tr_id (tl_tracks l)) (li_track_lists ix1)\<rparr>)"

end
