(* ===== verification/Play_Log.thy ===== *)
theory Play_Log
  imports Library_Index "HOL-Library.Product_Lexorder"
begin

text \<open>
  Recently played tracks (\<^verbatim>\<open>library/play_log.rs\<close>): when each track was played last and first
  and how often, and the references of the hundred most recent ones. What is shown is sorted anew each
  time, by the last play, the newest first, equal times by identifier.
\<close>

definition RECENT_WINDOW :: nat where "RECENT_WINDOW = 100"

record play_log =
  py_last_played :: "(track_id, nat) hash_map"
  py_play_count :: "(track_id, nat) hash_map"
  py_first_played :: "(track_id, nat) hash_map"
  py_refs :: "(track_id, track_ref) hash_map"
  py_dirty :: bool

definition play_log_new :: play_log where
  "play_log_new = \<lparr>py_last_played = [], py_play_count = [], py_first_played = [], py_refs = [], py_dirty = False\<rparr>"

text \<open>
  \<^verbatim>\<open>sort_by(|a, b| b.1.cmp(a.1).then_with(|| a.0.cmp(b.0)))\<close>: descending times, then ascending
  identifiers. The order is linear, so every sorting method gives the same list.
\<close>

definition before :: "track_id \<times> nat \<Rightarrow> track_id \<times> nat \<Rightarrow> bool" where
  "before a b \<longleftrightarrow> snd b < snd a \<or> snd a = snd b \<and> fst a \<le> fst b"

fun insort_before :: "track_id \<times> nat \<Rightarrow> (track_id \<times> nat) list \<Rightarrow> (track_id \<times> nat) list" where
  "insort_before x [] = [x]"
| "insort_before x (y # ys) = (if before x y then x # y # ys else y # insort_before x ys)"

definition by_recency :: "(track_id \<times> nat) list \<Rightarrow> (track_id \<times> nat) list" where
  "by_recency es = foldr insort_before es []"

definition recent :: "play_log \<Rightarrow> track_id list" where
  "recent l = map fst (take RECENT_WINDOW (by_recency (py_last_played l)))"

definition trim_refs_to_window :: "play_log \<Rightarrow> play_log" where
  "trim_refs_to_window l = l\<lparr>py_refs := filter (\<lambda>(i, _). i \<in> set (recent l)) (py_refs l)\<rparr>"

definition play_count :: "track_id \<Rightarrow> play_log \<Rightarrow> nat" where
  "play_count i l = (case map_of (py_play_count l) i of None \<Rightarrow> 0 | Some n \<Rightarrow> n)"

definition record_play :: "track_ref \<Rightarrow> nat \<Rightarrow> play_log \<Rightarrow> play_log" where
  "record_play t now_ms l =
     (let i = tr_id t;
          l1 = l\<lparr>py_last_played := put i now_ms (py_last_played l),
                 py_play_count := put i (play_count i l + 1) (py_play_count l),
                 py_first_played := (if map_of (py_first_played l) i = None then put i now_ms (py_first_played l)
                                     else py_first_played l),
                 py_refs := put i t (py_refs l)\<rparr>
      in (trim_refs_to_window l1)\<lparr>py_dirty := True\<rparr>)"

definition recent_tracks :: "play_log \<Rightarrow> track_ref list" where
  "recent_tracks l = List.map_filter (map_of (py_refs l)) (recent l)"

definition play_log_from_parts ::
  "(track_id, nat) hash_map \<Rightarrow> (track_id, nat) hash_map \<Rightarrow> (track_id, nat) hash_map \<Rightarrow> (track_id, track_ref) hash_map \<Rightarrow> play_log"
where
  "play_log_from_parts last_played counts first_played refs =
     trim_refs_to_window \<lparr>py_last_played = last_played, py_play_count = counts,
       py_first_played = first_played, py_refs = refs, py_dirty = False\<rparr>"

section \<open>The order\<close>

lemma before_total: "before a b \<or> before b a"
  by (auto simp: before_def)

lemma before_trans: "before a b \<Longrightarrow> before b c \<Longrightarrow> before a c"
  by (auto simp: before_def)

lemma mset_insort_before [simp]: "mset (insort_before x ys) = add_mset x (mset ys)"
  by (induction ys) auto

lemma mset_by_recency [simp]: "mset (by_recency es) = mset es"
  by (induction es) (auto simp: by_recency_def)

lemma set_by_recency [simp]: "set (by_recency es) = set es"
  using mset_by_recency mset_eq_setD by blast

lemma length_by_recency [simp]: "length (by_recency es) = length es"
  using mset_by_recency mset_eq_length by blast

lemma set_insort_before [simp]: "set (insort_before x ys) = insert x (set ys)"
  by (induction ys) auto

lemma sorted_insort_before: "sorted_wrt before ys \<Longrightarrow> sorted_wrt before (insort_before x ys)"
proof (induction ys)
  case (Cons y ys)
  show ?case
  proof (cases "before x y")
    case True
    then show ?thesis using Cons.prems by (auto intro: before_trans)
  next
    case False
    then have "before y x" using before_total by blast
    then show ?thesis using False Cons by simp
  qed
qed simp

lemma sorted_by_recency: "sorted_wrt before (by_recency es)"
  by (induction es) (auto simp: by_recency_def sorted_insort_before)

lemma distinct_keys_by_recency: "distinct (map fst es) \<Longrightarrow> distinct (map fst (by_recency es))"
proof -
  have "mset (map fst (by_recency es)) = mset (map fst es)" by (simp only: mset_map mset_by_recency)
  then show "distinct (map fst es) \<Longrightarrow> ?thesis" using mset_eq_imp_distinct_iff by metis
qed

lemma take_sorted_later:
  assumes "sorted_wrt R xs" "x \<in> set (take n xs)" "y \<in> set xs" "y \<notin> set (take n xs)"
  shows "R x y"
proof -
  have "sorted_wrt R (take n xs @ drop n xs)" using assms(1) by simp
  moreover have "y \<in> set (drop n xs)" using assms(3,4) by (metis append_take_drop_id in_set_conv_decomp_first set_append Un_iff)
  ultimately show ?thesis using assms(2) unfolding sorted_wrt_append by blast
qed

lemma before_antisym: "before a b \<Longrightarrow> before b a \<Longrightarrow> a = b"
  by (cases a; cases b) (auto simp: before_def)

lemma sorted_before_unique:
  "sorted_wrt before xs \<Longrightarrow> sorted_wrt before ys \<Longrightarrow> mset xs = mset ys \<Longrightarrow> xs = ys"
proof (induction xs arbitrary: ys)
  case (Cons x xs)
  then obtain y ys' where ys: "ys = y # ys'" by (cases ys) auto
  have "x \<in> set ys" "y \<in> set (x # xs)" using Cons.prems(3) ys by (metis list.set_intros(1) mset_eq_setD)+
  then have "x = y" using Cons.prems(1,2) ys before_antisym [of x y] by (metis set_ConsD sorted_wrt.simps(2))
  then show ?case using Cons ys by simp
qed simp

section \<open>Plays move tracks to the front\<close>

text \<open>The specification: a list of tracks in which a play moves its track to the front.\<close>

definition move_to_front :: "track_ref \<Rightarrow> track_ref list \<Rightarrow> track_ref list" where
  "move_to_front t ts = t # filter (\<lambda>u. tr_id u \<noteq> tr_id t) ts"

definition plays :: "(track_ref \<times> nat) list \<Rightarrow> play_log \<Rightarrow> play_log" where
  "plays ps l = fold (\<lambda>(t, now) l. record_play t now l) ps l"

definition in_order :: "track_ref list \<Rightarrow> play_log \<Rightarrow> bool" where
  "in_order ts l \<longleftrightarrow> distinct (map tr_id ts) \<and> distinct (map fst (py_last_played l)) \<and>
     map fst (by_recency (py_last_played l)) = map tr_id ts \<and>
     list_all (\<lambda>t. map_of (py_refs l) (tr_id t) = Some t) (take RECENT_WINDOW ts)"

lemma put_filter:
  "distinct (map fst m) \<Longrightarrow> mset (put k v m) = add_mset (k, v) (mset (filter (\<lambda>e. fst e \<noteq> k) m))"
proof (induction m)
  case (Cons e m)
  show ?case
  proof (cases "fst e = k")
    case True
    then have "fst u \<noteq> k" if "u \<in> set m" for u using that Cons.prems by (metis distinct.simps(2) image_eqI list.set_map list.simps(9))
    then have "filter (\<lambda>e. fst e \<noteq> k) m = m" by (simp add: filter_id_conv)
    then show ?thesis using True by simp
  qed (use Cons in auto)
qed simp

lemma by_recency_put:
  assumes "distinct (map fst m)" and "\<forall>e\<in>set m. snd e < now"
  shows "by_recency (put k now m) = (k, now) # filter (\<lambda>e. fst e \<noteq> k) (by_recency m)"
proof (rule sorted_before_unique)
  show "sorted_wrt before (by_recency (put k now m))" by (rule sorted_by_recency)
  have "sorted_wrt before (filter (\<lambda>e. fst e \<noteq> k) (by_recency m))"
    by (rule sorted_wrt_filter) (rule sorted_by_recency)
  then show "sorted_wrt before ((k, now) # filter (\<lambda>e. fst e \<noteq> k) (by_recency m))"
    using assms(2) by (auto simp: before_def)
  show "mset (by_recency (put k now m)) = mset ((k, now) # filter (\<lambda>e. fst e \<noteq> k) (by_recency m))"
    using put_filter [OF assms(1), of k now] by simp
qed

lemma map_fst_filter: "map fst (filter (\<lambda>e. fst e \<noteq> k) xs) = filter (\<lambda>i. i \<noteq> k) (map fst xs)"
  by (induction xs) auto

lemma map_key_filter: "map f (filter (\<lambda>u. f u \<noteq> k) xs) = filter (\<lambda>i. i \<noteq> k) (map f xs)"
  by (induction xs) auto

text \<open>Taking one element out shifts the first elements by at most one place.\<close>

lemma take_filter_key:
  "distinct (map f xs) \<Longrightarrow> set (take n (filter (\<lambda>u. f u \<noteq> k) xs)) \<subseteq> set (take (Suc n) xs)"
proof (induction xs arbitrary: n)
  case (Cons x xs)
  show ?case
  proof (cases "f x = k")
    case True
    then have "f u \<noteq> k" if "u \<in> set xs" for u using that Cons.prems by (metis distinct.simps(2) image_eqI list.set_map list.simps(9))
    then have "filter (\<lambda>u. f u \<noteq> k) xs = xs" by (auto simp: filter_id_conv)
    then show ?thesis using True by auto
  next
    case False
    then show ?thesis using Cons by (cases n) auto
  qed
qed simp

lemma map_of_filter_keys: "map_of (filter (\<lambda>(i, _). P i) m) i = (if P i then map_of m i else None)"
  by (induction m) auto

lemma record_play_fields:
  "py_last_played (record_play t now l) = put (tr_id t) now (py_last_played l)"
  "py_play_count (record_play t now l) = put (tr_id t) (play_count (tr_id t) l + 1) (py_play_count l)"
  "py_dirty (record_play t now l)"
  by (simp_all add: record_play_def Let_def trim_refs_to_window_def)

lemma record_play_ref:
  "map_of (py_refs (record_play t now l)) i =
     (if i \<in> set (recent (record_play t now l)) then ((map_of (py_refs l))(tr_id t \<mapsto> t)) i else None)"
  by (simp add: record_play_def Let_def trim_refs_to_window_def recent_def map_of_filter_keys)

lemma record_play_in_order:
  assumes io: "in_order ts l" and new: "\<forall>e\<in>set (py_last_played l). snd e < now"
  shows "in_order (move_to_front t ts) (record_play t now l)"
proof -
  let ?l = "record_play t now l" and ?ts = "move_to_front t ts"
  have d: "distinct (map tr_id ts)" "distinct (map fst (py_last_played l))" using io by (simp_all add: in_order_def)
  have ids: "map fst (by_recency (py_last_played ?l)) = map tr_id ?ts"
    using by_recency_put [OF d(2) new, of "tr_id t"] io
    by (simp add: record_play_fields move_to_front_def in_order_def map_fst_filter map_key_filter)
  have rec: "set (recent ?l) = tr_id ` set (take RECENT_WINDOW ?ts)"
    unfolding recent_def using ids by (metis list.set_map take_map)
  have "map_of (py_refs ?l) (tr_id u) = Some u" if u: "u \<in> set (take RECENT_WINDOW ?ts)" for u
  proof -
    have "((map_of (py_refs l))(tr_id t \<mapsto> t)) (tr_id u) = Some u"
    proof (cases "u = t")
      case False
      then have "u \<in> set (take (RECENT_WINDOW - 1) (filter (\<lambda>u. tr_id u \<noteq> tr_id t) ts))"
        using u by (auto simp: move_to_front_def RECENT_WINDOW_def)
      moreover from this have "tr_id u \<noteq> tr_id t" by (auto dest: in_set_takeD)
      ultimately have "u \<in> set (take RECENT_WINDOW ts)"
        using take_filter_key [OF d(1), of "RECENT_WINDOW - 1" "tr_id t"] by (auto simp: RECENT_WINDOW_def)
      then show ?thesis using io \<open>tr_id u \<noteq> tr_id t\<close> by (simp add: in_order_def list_all_iff)
    qed simp
    then show ?thesis using u rec by (simp add: record_play_ref)
  qed
  moreover have "distinct (map tr_id ?ts)" using d(1) by (auto simp: move_to_front_def distinct_map inj_on_def)
  ultimately show ?thesis using ids d(2) by (simp add: in_order_def list_all_iff record_play_fields)
qed

lemma plays_times: "\<forall>e\<in>set (py_last_played (plays ps l)). snd e \<in> snd ` set ps \<or> e \<in> set (py_last_played l)"
proof (induction ps rule: rev_induct)
  case Nil
  then show ?case by (simp add: plays_def)
next
  case (snoc p ps)
  have "set (py_last_played (plays (ps @ [p]) l)) \<subseteq> insert (tr_id (fst p), snd p) (set (py_last_played (plays ps l)))"
    using set_put [of "tr_id (fst p)" "snd p" "py_last_played (plays ps l)"]
    by (simp add: plays_def split_def record_play_fields)
  then show ?case using snoc by fastforce
qed

lemma plays_in_order:
  "sorted_wrt (<) (map snd ps) \<Longrightarrow> in_order (fold move_to_front (map fst ps) []) (plays ps play_log_new)"
proof (induction ps rule: rev_induct)
  case Nil
  then show ?case by (simp add: plays_def in_order_def play_log_new_def by_recency_def)
next
  case (snoc p ps)
  have "\<forall>e\<in>set (py_last_played (plays ps play_log_new)). snd e < snd p"
  proof
    fix e assume "e \<in> set (py_last_played (plays ps play_log_new))"
    then have "snd e \<in> snd ` set ps" using plays_times [of ps play_log_new] by (auto simp: play_log_new_def)
    then show "snd e < snd p" using snoc.prems by (auto simp: sorted_wrt_append)
  qed
  then have "in_order (move_to_front (fst p) (fold move_to_front (map fst ps) []))
      (record_play (fst p) (snd p) (plays ps play_log_new))"
    using snoc by (intro record_play_in_order) (auto simp: sorted_wrt_append)
  then show ?case by (simp add: plays_def split_def)
qed

lemma map_filter_all_Some: "list_all (\<lambda>t. g (f t) = Some t) ts \<Longrightarrow> List.map_filter g (map f ts) = ts"
  by (induction ts) (auto simp: List.map_filter_simps)

lemma in_order_recent:
  assumes "in_order ts l"
  shows "recent l = map tr_id (take RECENT_WINDOW ts)" and "recent_tracks l = take RECENT_WINDOW ts"
proof -
  show r: "recent l = map tr_id (take RECENT_WINDOW ts)"
    using assms by (simp add: recent_def in_order_def take_map [symmetric])
  show "recent_tracks l = take RECENT_WINDOW ts"
    using assms by (simp add: recent_tracks_def r in_order_def map_filter_all_Some)
qed

lemma play_count_record:
  "play_count i (record_play t now l) = (if i = tr_id t then play_count i l + 1 else play_count i l)"
  by (simp add: play_count_def record_play_fields)

lemma play_count_plays: "play_count i (plays ps play_log_new) = length (filter (\<lambda>p. tr_id (fst p) = i) ps)"
proof (induction ps rule: rev_induct)
  case Nil
  then show ?case by (simp add: plays_def play_count_def play_log_new_def)
next
  case (snoc p ps)
  have "plays (ps @ [p]) play_log_new = record_play (fst p) (snd p) (plays ps play_log_new)"
    by (simp add: plays_def split_def)
  then show ?case using snoc by (auto simp: play_count_record)
qed

end
