(* ===== verification/Gateway.thy ===== *)
theory Gateway
  imports Prelude
begin

text \<open>
  The capability gateway of the plugins (\<^verbatim>\<open>crates/modplayer-capability-gateway/src\<close>): the
  rate limiter, the grants, the focus token and \<open>admit\<close>, the one path of every request. Permissions
  and request kinds are generated by the build from \<^verbatim>\<open>api/v1.toml\<close>: they are the types
  \<open>'p\<close> and \<open>'k\<close>, and what the code asks of them is the record \<open>api\<close>. Times are milliseconds.
\<close>

section \<open>The rate limiter\<close>

datatype rate_category =
  CatTransport | CatMarkers | CatEffects | CatState | CatTimers | CatUi | CatNotify

definition RATE_LIMIT :: nat where "RATE_LIMIT = 100"
definition RATE_WINDOW :: nat where "RATE_WINDOW = 1000"
definition NOTIFY_LIMIT :: nat where "NOTIFY_LIMIT = 6"
definition NOTIFY_WINDOW :: nat where "NOTIFY_WINDOW = 60000"
definition UI_LIMIT :: nat where "UI_LIMIT = 100"
definition UI_WINDOW :: nat where "UI_WINDOW = 1000"

definition category_limit :: "rate_category \<Rightarrow> nat" where
  "category_limit c = (case c of CatNotify \<Rightarrow> NOTIFY_LIMIT | CatUi \<Rightarrow> UI_LIMIT | _ \<Rightarrow> RATE_LIMIT)"

definition category_window :: "rate_category \<Rightarrow> nat" where
  "category_window c = (case c of CatNotify \<Rightarrow> NOTIFY_WINDOW | CatUi \<Rightarrow> UI_WINDOW | _ \<Rightarrow> RATE_WINDOW)"

text \<open>The array of seven buckets, one per category, as a function.\<close>

type_synonym rate_limiter = "rate_category \<Rightarrow> nat list"

definition rate_limiter_new :: rate_limiter where
  "rate_limiter_new = (\<lambda>c. [])"

definition evict :: "rate_category \<Rightarrow> nat \<Rightarrow> rate_limiter \<Rightarrow> rate_limiter" where
  "evict c now l = l(c := dropWhile (\<lambda>t. category_window c \<le> now - t) (l c))"

definition all_categories :: "rate_category list" where
  "all_categories = [CatTransport, CatMarkers, CatEffects, CatState, CatTimers, CatUi, CatNotify]"

definition evict_all :: "nat \<Rightarrow> rate_limiter \<Rightarrow> rate_limiter" where
  "evict_all now l = fold (\<lambda>c. evict c now) all_categories l"

datatype refusal_code = PermissionDenied | NoFocus | InvalidState | RefusedNotFound | RateLimited | BudgetExceeded

definition limiter_admit :: "rate_category \<Rightarrow> nat \<Rightarrow> rate_limiter \<Rightarrow> rate_limiter \<times> (refusal_code + unit)" where
  "limiter_admit c now l =
     (let l' = evict c now l
      in if category_limit c \<le> length (l' c) then (l', Inl RateLimited)
         else (l'(c := l' c @ [now]), Inr ()))"

section \<open>Grants\<close>

datatype grant_state = Granted | Denied | NotRequested

record ('p, 'k) api =
  api_permissions :: "'p list"
  api_requires :: "'k \<Rightarrow> 'p option"
  api_needs_focus :: "'k \<Rightarrow> bool"
  api_category :: "'k \<Rightarrow> rate_category"

definition permission_index :: "('p, 'k) api \<Rightarrow> 'p \<Rightarrow> nat" where
  "permission_index a p =
     (case position (\<lambda>q. q = p) (api_permissions a) of Some i \<Rightarrow> i | None \<Rightarrow> 0)"

type_synonym grants = "grant_state list"

definition grants_none :: grants where
  "grants_none = replicate 25 NotRequested"

text \<open>\<open>required\<close> and \<open>optional\<close>: the permissions the manifest asks for.\<close>

definition grants_from_bundled :: "('p, 'k) api \<Rightarrow> 'p list \<Rightarrow> 'p list \<Rightarrow> grants" where
  "grants_from_bundled a required optional =
     fold (\<lambda>p g. g[permission_index a p := Granted]) (required @ optional) grants_none"

definition grants_holds :: "('p, 'k) api \<Rightarrow> grants \<Rightarrow> 'p \<Rightarrow> bool" where
  "grants_holds a g p \<longleftrightarrow> g ! permission_index a p = Granted"

definition granted_permissions :: "('p, 'k) api \<Rightarrow> grants \<Rightarrow> 'p list" where
  "granted_permissions a g = filter (grants_holds a g) (api_permissions a)"

section \<open>The focus token\<close>

text \<open>The atomic of the token: 0 is the host, \<open>n\<close> the plugin \<open>n - 1\<close>; 16 bits, wrapping.\<close>

type_synonym focus_token = u16

definition focus_token_new :: focus_token where "focus_token_new = 0"

definition token_holder :: "focus_token \<Rightarrow> u16 option" where
  "token_holder n = (if n = 0 then None else Some (n - 1))"

definition set_holder :: "u16 option \<Rightarrow> focus_token" where
  "set_holder h = (case h of None \<Rightarrow> 0 | Some i \<Rightarrow> i + 1)"

section \<open>The gateway\<close>

record gateway =
  gw_plugin :: u16
  gw_grants :: grants
  gw_limiter :: rate_limiter

definition gateway_new :: "u16 \<Rightarrow> grants \<Rightarrow> gateway" where
  "gateway_new i g = \<lparr>gw_plugin = i, gw_grants = g, gw_limiter = rate_limiter_new\<rparr>"

definition admit ::
  "('p, 'k) api \<Rightarrow> focus_token \<Rightarrow> 'k \<Rightarrow> nat \<Rightarrow> gateway \<Rightarrow> gateway \<times> (refusal_code + unit)"
where
  "admit a token k now gw =
     (if (case api_requires a k of Some p \<Rightarrow> \<not> grants_holds a (gw_grants gw) p | None \<Rightarrow> False)
      then (gw, Inl PermissionDenied)
      else if api_needs_focus a k \<and> token_holder token \<noteq> Some (gw_plugin gw)
      then (gw, Inl NoFocus)
      else let (l, res) = limiter_admit (api_category a k) now (gw_limiter gw)
           in (gw\<lparr>gw_limiter := l\<rparr>, res))"

section \<open>Rolling windows\<close>

text \<open>
  The contract of a limiter over a rolling window: what is still held is dropped from the front
  once it is \<open>window\<close> old, and a call is admitted, and recorded, exactly when fewer than \<open>limit\<close>
  are left. What it promises its clients, on calls in the order of their times: a call is admitted
  exactly when fewer than \<open>limit\<close> calls were admitted within the window before it, and no window
  anywhere holds more than \<open>limit\<close> of them.
\<close>

fun run_calls :: "(nat \<Rightarrow> 'b \<Rightarrow> 'b \<times> bool) \<Rightarrow> nat list \<Rightarrow> 'b \<Rightarrow> nat list \<Rightarrow> nat list" where
  "run_calls f [] b done = done"
| "run_calls f (now # ts) b done =
     (case f now b of (b', ok) \<Rightarrow> run_calls f ts b' (if ok then done @ [now] else done))"

definition within :: "nat \<Rightarrow> nat \<Rightarrow> nat list \<Rightarrow> nat list" where
  "within window now ts = filter (\<lambda>t. t \<le> now \<and> now - t < window) ts"

locale rolling_window =
  fixes call :: "nat \<Rightarrow> 'b \<Rightarrow> 'b \<times> bool"
    and held :: "'b \<Rightarrow> nat list"
    and limit window :: nat
  assumes call_ok: "snd (call now b) \<longleftrightarrow> length (dropWhile (\<lambda>t. window \<le> now - t) (held b)) < limit"
    and call_held: "held (fst (call now b)) =
      dropWhile (\<lambda>t. window \<le> now - t) (held b) @ (if snd (call now b) then [now] else [])"
begin

text \<open>What is held is what was admitted, less a prefix that is out of the window.\<close>

definition tracks :: "nat \<Rightarrow> nat list \<Rightarrow> 'b \<Rightarrow> bool" where
  "tracks now admitted b \<longleftrightarrow> sorted admitted \<and> (\<forall>t\<in>set admitted. t \<le> now) \<and>
     (\<exists>old. admitted = old @ held b \<and> (\<forall>t\<in>set old. window \<le> now - t))"

lemma dropWhile_sorted:
  "sorted ts \<Longrightarrow> \<forall>t\<in>set ts. t \<le> now \<Longrightarrow> dropWhile (\<lambda>t. window \<le> now - t) ts = within window now ts"
proof (induction ts)
  case (Cons t ts)
  show ?case
  proof (cases "window \<le> now - t")
    case False
    then have "\<forall>x\<in>set (t # ts). x \<le> now \<and> now - x < window" using Cons.prems by fastforce
    then have "within window now (t # ts) = t # ts" unfolding within_def by (rule filter_True)
    with False show ?thesis by simp
  qed (use Cons in \<open>simp add: within_def\<close>)
qed (simp add: within_def)

lemma kept_within:
  assumes "tracks now admitted b" and "now \<le> now'"
  shows "dropWhile (\<lambda>t. window \<le> now' - t) (held b) = within window now' admitted"
proof -
  obtain old where old: "admitted = old @ held b" "\<forall>t\<in>set old. window \<le> now - t"
    using assms(1) by (auto simp: tracks_def)
  have "within window now' old = []" using old(2) assms(2) by (fastforce simp: within_def filter_empty_conv)
  moreover have "dropWhile (\<lambda>t. window \<le> now' - t) (held b) = within window now' (held b)"
  proof (rule dropWhile_sorted)
    show "sorted (held b)" using assms(1) old(1) by (simp add: tracks_def sorted_append)
    have "t \<le> now" if "t \<in> set (held b)" for t using assms(1) old(1) that by (simp add: tracks_def)
    then show "\<forall>t\<in>set (held b). t \<le> now'" using assms(2) le_trans by blast
  qed
  ultimately show ?thesis by (simp add: old(1) within_def)
qed

lemma call_tracks:
  assumes tr: "tracks now admitted b" and "now \<le> now'"
  shows "tracks now' (if snd (call now' b) then admitted @ [now'] else admitted) (fst (call now' b))"
    and "snd (call now' b) \<longleftrightarrow> length (within window now' admitted) < limit"
proof -
  let ?drop = "\<lambda>t. window \<le> now' - t"
  obtain old where old: "admitted = old @ held b" "\<forall>t\<in>set old. window \<le> now - t"
    using tr by (auto simp: tracks_def)
  let ?old = "old @ takeWhile ?drop (held b)"
  have "\<forall>t\<in>set ?old. ?drop t" using old(2) assms(2) by (auto dest: set_takeWhileD)
  moreover have "admitted = ?old @ dropWhile ?drop (held b)" by (simp add: old(1))
  moreover have "sorted admitted" "\<forall>t\<in>set admitted. t \<le> now" using tr by (auto simp: tracks_def)
  moreover from this have "\<forall>t\<in>set admitted. t \<le> now'" using assms(2) by fastforce
  ultimately show "tracks now' (if snd (call now' b) then admitted @ [now'] else admitted) (fst (call now' b))"
    unfolding tracks_def call_held by (cases "snd (call now' b)") (auto simp: sorted_append intro!: exI [of _ ?old])
  show "snd (call now' b) \<longleftrightarrow> length (within window now' admitted) < limit"
    unfolding call_ok kept_within [OF assms] ..
qed

lemma tracks_later: "tracks now admitted b \<Longrightarrow> now \<le> now' \<Longrightarrow> tracks now' admitted b"
proof -
  assume tr: "tracks now admitted b" and le: "now \<le> now'"
  then obtain old where old: "admitted = old @ held b" "\<forall>t\<in>set old. window \<le> now - t"
    by (auto simp: tracks_def)
  have "\<forall>t\<in>set old. window \<le> now' - t" using old(2) le by fastforce
  moreover have "sorted admitted" "\<forall>t\<in>set admitted. t \<le> now'" using tr le by (fastforce simp: tracks_def)+
  ultimately show ?thesis using old(1) unfolding tracks_def by blast
qed

lemma tracks_cong: "tracks now admitted b \<Longrightarrow> held b' = held b \<Longrightarrow> tracks now admitted b'"
  by (simp add: tracks_def)

lemma window_bound_step:
  assumes bound: "\<And>T. length (within window T admitted) \<le> limit" and le: "\<forall>t\<in>set admitted. t \<le> now"
    and room: "length (within window now admitted) < limit"
  shows "length (within window T (admitted @ [now])) \<le> limit"
proof (cases "now \<le> T \<and> T - now < window")
  case False
  then have "within window T (admitted @ [now]) = within window T admitted" by (auto simp: within_def)
  then show ?thesis using bound by simp
next
  case True
  have "within window T admitted = filter (\<lambda>t. t \<le> T \<and> T - t < window) (within window now admitted)"
    unfolding within_def filter_filter using le True by (intro filter_cong) auto
  then have "length (within window T admitted) \<le> length (within window now admitted)" by simp
  moreover have "within window T [now] = [now]" using True by (simp add: within_def)
  ultimately show ?thesis using room by (simp add: within_def)
qed

end

definition limiter_call :: "rate_category \<Rightarrow> nat \<Rightarrow> rate_limiter \<Rightarrow> rate_limiter \<times> bool" where
  "limiter_call c now l = (case limiter_admit c now l of (l', r) \<Rightarrow> (l', r = Inr ()))"

interpretation limiter: rolling_window "limiter_call c" "\<lambda>l. l c" "category_limit c" "category_window c" for c
  by unfold_locales (simp_all add: limiter_call_def limiter_admit_def evict_def Let_def not_le)

section \<open>Sequences of requests\<close>

text \<open>A request: the focus token it sees, its kind, its time. The log keeps what was admitted.\<close>

type_synonym 'k timed_request = "focus_token \<times> 'k \<times> nat"
type_synonym 'k admission_log = "('k \<times> nat) list"

fun run_requests ::
  "('p, 'k) api \<Rightarrow> 'k timed_request list \<Rightarrow> gateway \<times> 'k admission_log \<Rightarrow> gateway \<times> 'k admission_log"
where
  "run_requests a [] s = s"
| "run_requests a ((token, k, now) # rs) (gw, log) =
     (case admit a token k now gw of
        (gw', Inr _) \<Rightarrow> run_requests a rs (gw', log @ [(k, now)])
      | (gw', Inl _) \<Rightarrow> run_requests a rs (gw', log))"

definition times_of :: "('p, 'k) api \<Rightarrow> rate_category \<Rightarrow> 'k admission_log \<Rightarrow> nat list" where
  "times_of a c log = map snd (filter (\<lambda>(k, _). api_category a k = c) log)"

definition request_time :: "'k timed_request \<Rightarrow> nat" where
  "request_time r = snd (snd r)"

lemma request_time_simp [simp]: "request_time (token, k, now) = now"
  by (simp add: request_time_def)

text \<open>What a gateway promises after a run: every bucket tracks its part of the log, within its limit.\<close>

definition limited :: "('p, 'k) api \<Rightarrow> nat \<Rightarrow> gateway \<times> 'k admission_log \<Rightarrow> bool" where
  "limited a now s \<longleftrightarrow>
     (\<forall>c. limiter.tracks c now (times_of a c (snd s)) (gw_limiter (fst s)) \<and>
          (\<forall>T. length (within (category_window c) T (times_of a c (snd s))) \<le> category_limit c))"

lemma limiter_other: "c \<noteq> d \<Longrightarrow> fst (limiter_admit d now l) c = l c"
  by (simp add: limiter_admit_def evict_def Let_def)

lemma limited_step:
  assumes lim: "limited a now (gw, log)" and le: "now \<le> now'"
    and adm: "admit a token k now' gw = (gw', r)"
  shows "limited a now' (gw', if r = Inr () then log @ [(k, now')] else log)"
proof (cases "gw' = gw \<and> r \<noteq> Inr ()")
  case True
  with lim le show ?thesis by (auto simp: limited_def intro: limiter.tracks_later)
next
  case False
  let ?d = "api_category a k"
  from adm False have gw': "gw_limiter gw' = fst (limiter_admit ?d now' (gw_limiter gw))"
    and r: "r = snd (limiter_admit ?d now' (gw_limiter gw))"
    by (auto simp: admit_def split: if_splits prod.splits)
  have call: "limiter_call ?d now' (gw_limiter gw) = (gw_limiter gw', r = Inr ())"
    by (simp add: limiter_call_def gw' r split: prod.split)
  show ?thesis
    unfolding limited_def
  proof (intro allI conjI)
    fix c
    let ?log' = "if r = Inr () then log @ [(k, now')] else log"
    have tr: "limiter.tracks c now (times_of a c log) (gw_limiter gw)"
      and bound: "length (within (category_window c) T (times_of a c log)) \<le> category_limit c" for T
      using lim by (simp_all add: limited_def)
    have log': "times_of a c ?log' = (if r = Inr () \<and> c = ?d then times_of a c log @ [now'] else times_of a c log)"
      by (simp add: times_of_def)
    show "limiter.tracks c now' (times_of a c (snd (gw', ?log'))) (gw_limiter (fst (gw', ?log')))"
    proof (cases "c = ?d")
      case True
      with limiter.call_tracks(1) [OF tr le] call log' show ?thesis by auto
    next
      case False
      then have "gw_limiter gw' c = gw_limiter gw c" by (simp add: gw' limiter_other)
      with False log' show ?thesis
        using limiter.tracks_cong [OF limiter.tracks_later [OF tr le]] by auto
    qed
    fix T
    show "length (within (category_window c) T (times_of a c (snd (gw', ?log')))) \<le> category_limit c"
    proof (cases "r = Inr () \<and> c = ?d")
      case True
      have "\<forall>t\<in>set (times_of a c log). t \<le> now'"
        using tr le unfolding limiter.tracks_def by fastforce
      moreover have "length (within (category_window c) now' (times_of a c log)) < category_limit c"
        using limiter.call_tracks(2) [OF tr le] call True by auto
      ultimately show ?thesis using limiter.window_bound_step [OF bound] True log' by simp
    next
      case False
      with bound log' show ?thesis by auto
    qed
  qed
qed

lemma run_requests_limited:
  "limited a now s \<Longrightarrow> sorted (now # map request_time rs) \<Longrightarrow>
   limited a (last (now # map request_time rs)) (run_requests a rs s)"
proof (induction rs arbitrary: now s)
  case (Cons q rs)
  obtain token k now' where q: "q = (token, k, now')" by (cases q)
  obtain gw log where s: "s = (gw, log)" by (cases s)
  obtain gw' r where adm: "admit a token k now' gw = (gw', r)" by fastforce
  let ?s = "(gw', if r = Inr () then log @ [(k, now')] else log)"
  have le: "now \<le> now'" and sorted: "sorted (now' # map request_time rs)"
    using Cons.prems(2) by (simp_all add: q)
  have "limited a now' ?s" using limited_step [OF _ le adm] Cons.prems(1) by (simp only: s)
  then have "limited a (last (now' # map request_time rs)) (run_requests a rs ?s)"
    by (rule Cons.IH [OF _ sorted])
  moreover have "run_requests a (q # rs) s = run_requests a rs ?s"
    by (cases r) (simp_all add: q s adm)
  moreover have "last (now # map request_time (q # rs)) = last (now' # map request_time rs)"
    by (simp add: q)
  ultimately show ?case by simp
qed simp

lemma gateway_new_limited: "limited a now (gateway_new i g, [])"
  by (simp add: limited_def limiter.tracks_def times_of_def gateway_new_def rate_limiter_new_def within_def)

end
