(* ===== verification/Focus.thy ===== *)
theory Focus
  imports Gateway
begin

text \<open>
  Transport focus: the arbiter (\<^verbatim>\<open>crates/modplayer-core/src/plugins/focus.rs\<close>) decides who
  holds it, \<^verbatim>\<open>PluginHost::apply_focus_changes\<close> (\<^verbatim>\<open>plugins/host.rs\<close>) publishes
  the holder in the token the gateways read and tells the plugins. A plugin's identifier in the core
  is a 16-bit number; the gateway's is one more, and the token stores one more again.
\<close>

section \<open>The arbiter\<close>

datatype focus_policy = Manual | AutoOnInteraction | FirstRequestWins
datatype focus_holder = HostHolds | PluginHolds u16
datatype vacancy = Voluntary | Fault
datatype focus_change = Revoked u16 focus_holder | FocusGranted u16
datatype request_origin = OriginApi | OriginUserInteraction

definition policy_wire_name :: "focus_policy \<Rightarrow> string" where
  "policy_wire_name p = (case p of Manual \<Rightarrow> ''manual'' | AutoOnInteraction \<Rightarrow> ''auto_on_interaction''
     | FirstRequestWins \<Rightarrow> ''first_request_wins'')"

definition policy_parse :: "string \<Rightarrow> focus_policy option" where
  "policy_parse s =
     (if s = ''manual'' then Some Manual
      else if s = ''auto_on_interaction'' then Some AutoOnInteraction
      else if s = ''first_request_wins'' then Some FirstRequestWins
      else None)"

record arbiter =
  ar_policy :: focus_policy
  ar_holder :: focus_holder
  ar_pending :: "u16 list"
  ar_locked :: bool

definition arbiter_new :: arbiter where
  "arbiter_new = \<lparr>ar_policy = AutoOnInteraction, ar_holder = HostHolds, ar_pending = [], ar_locked = False\<rparr>"

type_synonym arbitration = "arbiter \<times> focus_change list"

definition request_order :: "arbiter \<Rightarrow> u16 \<Rightarrow> nat option" where
  "request_order a p = map_option Suc (position (\<lambda>x. x = p) (ar_pending a))"

definition withdraw :: "u16 \<Rightarrow> arbiter \<Rightarrow> arbiter" where
  "withdraw p a = a\<lparr>ar_pending := filter (\<lambda>x. x \<noteq> p) (ar_pending a)\<rparr>"

definition set_policy :: "focus_policy \<Rightarrow> arbiter \<Rightarrow> arbiter" where
  "set_policy pol a = a\<lparr>ar_policy := pol\<rparr>"

definition give :: "u16 \<Rightarrow> arbiter \<Rightarrow> arbitration" where
  "give p a =
     (if ar_holder a = PluginHolds p then (a, [])
      else (let a' = withdraw p (a\<lparr>ar_holder := PluginHolds p\<rparr>)
            in (if ar_policy a = FirstRequestWins then a'\<lparr>ar_locked := False\<rparr> else a',
                (case ar_holder a of PluginHolds old \<Rightarrow> [Revoked old (PluginHolds p)] | HostHolds \<Rightarrow> []) @
                [FocusGranted p])))"

definition vacate :: "u16 \<Rightarrow> vacancy \<Rightarrow> arbiter \<Rightarrow> arbitration" where
  "vacate p v a =
     (let a1 = withdraw p a;
          held = (ar_holder a1 = PluginHolds p);
          a2 = (if held then a1\<lparr>ar_holder := HostHolds\<rparr> else a1);
          revoked = (if held \<and> v = Voluntary then [Revoked p HostHolds] else [])
      in if ar_policy a2 = FirstRequestWins \<and> \<not> ar_locked a2 \<and> ar_holder a2 = HostHolds
         then (case ar_pending a2 of
                 [] \<Rightarrow> (a2, revoked)
               | nx # rest \<Rightarrow>
                   (a2\<lparr>ar_holder := PluginHolds nx, ar_pending := rest\<rparr>, revoked @ [FocusGranted nx]))
         else (a2, revoked))"

definition request :: "u16 \<Rightarrow> bool \<Rightarrow> request_origin \<Rightarrow> arbiter \<Rightarrow> arbitration" where
  "request p running origin a =
     (if \<not> running then (withdraw p a, [])
      else if ar_holder a = PluginHolds p then (a, [])
      else if origin = OriginUserInteraction \<and> ar_policy a = AutoOnInteraction then give p a
      else if p \<in> set (ar_pending a) then (a, [])
      else if ar_policy a = FirstRequestWins \<and> ar_holder a = HostHolds \<and> \<not> ar_locked a \<and> ar_pending a = []
      then (a\<lparr>ar_holder := PluginHolds p\<rparr>, [FocusGranted p])
      else (a\<lparr>ar_pending := ar_pending a @ [p]\<rparr>, []))"

definition release :: "u16 \<Rightarrow> arbiter \<Rightarrow> arbitration" where
  "release p a = (if ar_holder a = PluginHolds p then vacate p Voluntary a else (withdraw p a, []))"

definition take_back :: "arbiter \<Rightarrow> arbitration" where
  "take_back a =
     (case ar_holder a of
        HostHolds \<Rightarrow> (a, [])
      | PluginHolds old \<Rightarrow>
          (let a' = a\<lparr>ar_holder := HostHolds\<rparr>
           in (if ar_policy a = FirstRequestWins then a'\<lparr>ar_locked := True\<rparr> else a',
               [Revoked old HostHolds])))"

definition local_host_action :: "arbiter \<Rightarrow> arbitration" where
  "local_host_action a =
     (if ar_policy a \<noteq> AutoOnInteraction then (a, [])
      else case ar_holder a of
             HostHolds \<Rightarrow> (a, [])
           | PluginHolds old \<Rightarrow> (a\<lparr>ar_holder := HostHolds\<rparr>, [Revoked old HostHolds]))"

definition on_track_changed :: "arbiter \<Rightarrow> arbitration" where
  "on_track_changed a =
     (if ar_policy a \<noteq> FirstRequestWins then (a, [])
      else (a\<lparr>ar_holder := HostHolds, ar_pending := [], ar_locked := False\<rparr>,
            case ar_holder a of PluginHolds old \<Rightarrow> [Revoked old HostHolds] | HostHolds \<Rightarrow> []))"

definition remove_plugin :: "u16 \<Rightarrow> arbiter \<Rightarrow> arbitration" where
  "remove_plugin p a = vacate p Fault a"

section \<open>Publishing the holder\<close>

definition to_gateway_id :: "u16 \<Rightarrow> u16" where
  "to_gateway_id i = i + 1"

definition from_gateway_id :: "u16 \<Rightarrow> u16" where
  "from_gateway_id i = (if i = 0 then 0 else i - 1)"

definition holder_token :: "focus_holder \<Rightarrow> focus_token" where
  "holder_token h = set_holder (case h of HostHolds \<Rightarrow> None | PluginHolds i \<Rightarrow> Some (to_gateway_id i))"

definition published_token :: "arbiter \<Rightarrow> focus_token" where
  "published_token a = holder_token (ar_holder a)"

text \<open>
  The desk: the arbiter; the token the gateways read, with the holder it was written for; the plugins
  that have a handle (a thread); the changes of the last decision that are still to be sent; and what the
  plugins know: \<open>told\<close> are those whose thread was last told that it holds the focus, \<open>missed\<close> those whose
  last event did not arrive, or whose thread is new or gone. The two sets are of no use to the code: they
  say what its plugins have heard.
\<close>

record desk =
  dk_arbiter :: arbiter
  dk_token :: focus_token
  dk_announced :: focus_holder
  dk_handles :: "u16 set"
  dk_outbox :: "focus_change list"
  dk_told :: "u16 set"
  dk_missed :: "u16 set"

definition desk_new :: desk where
  "desk_new = \<lparr>dk_arbiter = arbiter_new, dk_token = focus_token_new, dk_announced = HostHolds, dk_handles = {},
     dk_outbox = [], dk_told = {}, dk_missed = {}\<rparr>"

datatype focus_call =
    FocusRequest u16 bool request_origin
  | FocusRelease u16
  | FocusGive u16
  | FocusTakeBack
  | LocalHostAction
  | FocusTrackChanged
  | PluginStopped u16
  | SetPolicy focus_policy

fun arbitrate :: "focus_call \<Rightarrow> arbiter \<Rightarrow> arbitration" where
  "arbitrate (FocusRequest p running origin) a = request p running origin a"
| "arbitrate (FocusRelease p) a = release p a"
| "arbitrate (FocusGive p) a = give p a"
| "arbitrate FocusTakeBack a = take_back a"
| "arbitrate LocalHostAction a = local_host_action a"
| "arbitrate FocusTrackChanged a = on_track_changed a"
| "arbitrate (PluginStopped p) a = vacate p Fault a"
| "arbitrate (SetPolicy pol) a = (set_policy pol a, [])"

definition gone :: "focus_call \<Rightarrow> u16 set" where
  "gone c = (case c of PluginStopped p \<Rightarrow> {p} | _ \<Rightarrow> {})"

text \<open>The arbiter decides: the changes are still to be applied, the token still has the holder before.\<close>

definition decide :: "focus_call \<Rightarrow> desk \<Rightarrow> desk" where
  "decide c d =
     (let (a, changes) = arbitrate c (dk_arbiter d)
      in d\<lparr>dk_arbiter := a, dk_outbox := changes, dk_told := dk_told d - gone c, dk_missed := dk_missed d \<union> gone c\<rparr>)"

text \<open>\<^verbatim>\<open>apply_focus_changes\<close> first writes the token, for the holder after all changes.\<close>

definition publish :: "desk \<Rightarrow> desk" where
  "publish d = d\<lparr>dk_token := published_token (dk_arbiter d), dk_announced := ar_holder (dk_arbiter d)\<rparr>"

text \<open>
  Then it sends the changes one by one. An event of a plugin without a handle is skipped; \<open>accepted\<close> is
  what \<^verbatim>\<open>try_send\<close> answers, and a full inbox drops the event: the answer is not looked at.
\<close>

fun target :: "focus_change \<Rightarrow> u16" where
  "target (Revoked p _) = p"
| "target (FocusGranted p) = p"

fun hear :: "focus_change \<Rightarrow> u16 set \<Rightarrow> u16 set" where
  "hear (Revoked p _) told = told - {p}"
| "hear (FocusGranted p) told = insert p told"

definition deliver :: "bool \<Rightarrow> focus_change \<Rightarrow> desk \<Rightarrow> desk" where
  "deliver accepted change d =
     (if target change \<in> dk_handles d \<and> accepted
      then d\<lparr>dk_told := hear change (dk_told d), dk_missed := dk_missed d - {target change}\<rparr>
      else d\<lparr>dk_missed := insert (target change) (dk_missed d)\<rparr>)"

definition send_next :: "bool \<Rightarrow> desk \<Rightarrow> desk" where
  "send_next accepted d =
     (case dk_outbox d of [] \<Rightarrow> d | change # rest \<Rightarrow> deliver accepted change (d\<lparr>dk_outbox := rest\<rparr>))"

definition apply_focus_changes :: "bool list \<Rightarrow> desk \<Rightarrow> desk" where
  "apply_focus_changes accepts d = fold send_next accepts (publish d)"

definition focus_call_step :: "focus_call \<Rightarrow> bool list \<Rightarrow> desk \<Rightarrow> desk" where
  "focus_call_step c accepts d = apply_focus_changes accepts (decide c d)"

text \<open>A thread is started for a plugin (\<^verbatim>\<open>spawn\<close>) or has ended (\<^verbatim>\<open>reap_plugin_threads\<close>).\<close>

definition spawn_handle :: "u16 \<Rightarrow> desk \<Rightarrow> desk" where
  "spawn_handle p d =
     (if p \<in> dk_handles d then d
      else d\<lparr>dk_handles := insert p (dk_handles d), dk_told := dk_told d - {p}, dk_missed := insert p (dk_missed d)\<rparr>)"

definition reap_handle :: "u16 \<Rightarrow> desk \<Rightarrow> desk" where
  "reap_handle p d =
     d\<lparr>dk_handles := dk_handles d - {p}, dk_told := dk_told d - {p}, dk_missed := insert p (dk_missed d)\<rparr>"

text \<open>
  The threads of the plugins run beside the controller, so each of its steps is one of the desk: the
  decision, the write of the token, each event. The controller finishes one call before the next one.
\<close>

definition settled :: "desk \<Rightarrow> bool" where
  "settled d \<longleftrightarrow> dk_outbox d = [] \<and> dk_announced d = ar_holder (dk_arbiter d)"

inductive focus_step :: "desk \<Rightarrow> desk \<Rightarrow> bool" where
  decided: "settled d \<Longrightarrow> focus_step d (decide c d)"
| published: "focus_step d (publish d)"
| sent: "dk_announced d = ar_holder (dk_arbiter d) \<Longrightarrow> focus_step d (send_next accepted d)"
| spawned: "settled d \<Longrightarrow> focus_step d (spawn_handle p d)"
| reaped: "settled d \<Longrightarrow> focus_step d (reap_handle p d)"

section \<open>The invariant\<close>

definition arbiter_ok :: "arbiter \<Rightarrow> bool" where
  "arbiter_ok a \<longleftrightarrow> distinct (ar_pending a) \<and> (\<forall>p. ar_holder a = PluginHolds p \<longrightarrow> p \<notin> set (ar_pending a))"

fun holders :: "focus_holder \<Rightarrow> u16 set" where
  "holders HostHolds = {}"
| "holders (PluginHolds p) = {p}"

lemma holders_single: "\<exists>p. holders h \<subseteq> {p}"
  by (cases h) auto

text \<open>Who still thinks to hold the focus while these changes are to be sent: nobody before a grant.\<close>

fun believers :: "focus_change list \<Rightarrow> focus_holder \<Rightarrow> u16 set" where
  "believers [] h = holders h"
| "believers (Revoked p _ # _) h = {p}"
| "believers (FocusGranted _ # _) h = {}"

fun outbox_ok :: "focus_change list \<Rightarrow> focus_holder \<Rightarrow> bool" where
  "outbox_ok [] h \<longleftrightarrow> True"
| "outbox_ok [Revoked _ n] h \<longleftrightarrow> h = HostHolds \<and> n = h"
| "outbox_ok [FocusGranted q] h \<longleftrightarrow> h = PluginHolds q"
| "outbox_ok [Revoked p _, FocusGranted q] h \<longleftrightarrow> h = PluginHolds q \<and> p \<noteq> q"
| "outbox_ok _ h \<longleftrightarrow> False"

definition desk_ok :: "desk \<Rightarrow> bool" where
  "desk_ok d \<longleftrightarrow> arbiter_ok (dk_arbiter d) \<and> dk_token d = holder_token (dk_announced d) \<and>
     outbox_ok (dk_outbox d) (ar_holder (dk_arbiter d)) \<and>
     dk_told d - dk_missed d = believers (dk_outbox d) (ar_holder (dk_arbiter d)) - dk_missed d"

lemmas arbiter_ops = request_def release_def give_def take_back_def local_host_action_def
  on_track_changed_def vacate_def withdraw_def set_policy_def Let_def

lemma filter_head: "filter P xs = y # ys \<Longrightarrow> distinct xs \<Longrightarrow> distinct ys \<and> y \<notin> set ys"
  by (metis distinct.simps(2) distinct_filter)

lemma filter_head_in: "filter P xs = y # ys \<Longrightarrow> P y"
  by (auto dest: Cons_eq_filterD [OF sym])

lemma arbitrate_ok: "arbiter_ok a \<Longrightarrow> arbiter_ok (fst (arbitrate c a))"
  by (cases c)
    (auto simp: arbiter_ok_def arbiter_ops dest: filter_head split: list.splits focus_holder.splits)

lemma arbitrate_outbox:
  "outbox_ok (snd (arbitrate c a)) (ar_holder (fst (arbitrate c a))) \<and>
   believers (snd (arbitrate c a)) (ar_holder (fst (arbitrate c a))) - gone c = holders (ar_holder a) - gone c"
  by (cases c; cases "ar_holder a") (auto simp: arbiter_ops gone_def dest: filter_head_in split: list.splits)

lemma decide_ok: "desk_ok d \<Longrightarrow> settled d \<Longrightarrow> desk_ok (decide c d)"
  using arbitrate_outbox [of c "dk_arbiter d"] arbitrate_ok [of "dk_arbiter d" c]
  by (auto simp: desk_ok_def settled_def decide_def Let_def split_def)

lemma outbox_cases:
  assumes "outbox_ok (change # rest) h"
  obtains p n where "change = Revoked p n" "rest = []" "h = HostHolds"
  | q where "change = FocusGranted q" "rest = []" "h = PluginHolds q"
  | p n q where "change = Revoked p n" "rest = [FocusGranted q]" "h = PluginHolds q" "p \<noteq> q"
  using assms by (cases "(change # rest, h)" rule: outbox_ok.cases) auto

lemma send_next_ok: "desk_ok d \<Longrightarrow> desk_ok (send_next accepted d)"
proof (cases "dk_outbox d")
  case (Cons change rest)
  assume ok: "desk_ok d"
  then have "outbox_ok (change # rest) (ar_holder (dk_arbiter d))" using Cons by (simp add: desk_ok_def)
  then show ?thesis
    by (cases rule: outbox_cases) (use ok Cons in \<open>auto simp: desk_ok_def send_next_def deliver_def\<close>)
qed (simp add: send_next_def)

interpretation focus: machine "\<lambda>d. d = desk_new" focus_step desk_ok
proof unfold_locales
  show "desk_ok d" if "d = desk_new" for d
    by (simp add: that desk_ok_def desk_new_def arbiter_ok_def arbiter_new_def holder_token_def
        focus_token_new_def set_holder_def)
next
  fix d d'
  assume ok: "desk_ok d" and step: "focus_step d d'"
  from step show "desk_ok d'"
  proof (cases rule: focus_step.cases)
    case published
    then show ?thesis using ok by (simp add: desk_ok_def publish_def published_token_def)
  next
    case (spawned p)
    then show ?thesis using ok by (auto simp: desk_ok_def spawn_handle_def)
  next
    case (reaped p)
    then show ?thesis using ok by (auto simp: desk_ok_def reap_handle_def)
  qed (use ok in \<open>simp_all add: decide_ok send_next_ok\<close>)
qed

text \<open>A whole call of the controller is a run of these steps.\<close>

lemma send_next_frame [simp]:
  "dk_arbiter (send_next x d) = dk_arbiter d" "dk_announced (send_next x d) = dk_announced d"
  by (simp_all add: send_next_def deliver_def split: list.split)

lemma sends_steps: "dk_announced d = ar_holder (dk_arbiter d) \<Longrightarrow> focus_step\<^sup>*\<^sup>* d (fold send_next accepts d)"
proof (induction accepts arbitrary: d)
  case (Cons x accepts)
  have "focus_step d (send_next x d)" using Cons.prems by (rule focus_step.sent)
  moreover have "focus_step\<^sup>*\<^sup>* (send_next x d) (fold send_next accepts (send_next x d))"
    by (rule Cons.IH) (use Cons.prems in simp)
  ultimately show ?case by (simp add: converse_rtranclp_into_rtranclp)
qed simp

lemma focus_call_steps:
  assumes "settled d"
  shows "focus_step\<^sup>*\<^sup>* d (focus_call_step c accepts d)"
proof -
  have "focus_step d (decide c d)" "focus_step (decide c d) (publish (decide c d))"
    using assms by (rule focus_step.decided, intro focus_step.published)
  moreover have "focus_step\<^sup>*\<^sup>* (publish (decide c d)) (fold send_next accepts (publish (decide c d)))"
    by (rule sends_steps) (simp add: publish_def)
  ultimately show ?thesis
    unfolding focus_call_step_def apply_focus_changes_def by (meson converse_rtranclp_into_rtranclp)
qed

text \<open>Every revocation comes before any grant.\<close>

fun revokes_first :: "focus_change list \<Rightarrow> bool" where
  "revokes_first [] = True"
| "revokes_first (Revoked _ _ # cs) = revokes_first cs"
| "revokes_first (FocusGranted _ # cs) = list_all (\<lambda>c. case c of FocusGranted _ \<Rightarrow> True | _ \<Rightarrow> False) cs"

lemma outbox_order: "outbox_ok cs h \<Longrightarrow> revokes_first cs"
  by (induction cs h rule: outbox_ok.induct) auto

text \<open>The controller looks again when it applies a request that needs the focus.\<close>

definition require_focus :: "u16 \<Rightarrow> desk \<Rightarrow> refusal_code + unit" where
  "require_focus p d = (if ar_holder (dk_arbiter d) = PluginHolds p then Inr () else Inl NoFocus)"

text \<open>The token names the holder, for every plugin whose number is not one of the two last ones.\<close>

lemma published_holder:
  assumes "\<And>p. h = PluginHolds p \<Longrightarrow> unat p < 65534"
  shows "token_holder (holder_token h) =
    (case h of HostHolds \<Rightarrow> None | PluginHolds p \<Rightarrow> Some (to_gateway_id p))"
proof (cases h)
  case (PluginHolds p)
  then have "unat p < 65534" using assms by blast
  then have "unat (p + 2) = unat p + 2" by (subst unat_word_ariths) (simp add: unat_of_nat)
  then have "p + 2 \<noteq> 0" by (metis add_is_0 unat_0 zero_neq_numeral)
  then show ?thesis
    by (simp add: PluginHolds holder_token_def set_holder_def token_holder_def to_gateway_id_def add.assoc)
qed (simp add: holder_token_def set_holder_def token_holder_def)

lemma to_gateway_id_inj: "to_gateway_id p = to_gateway_id q \<longleftrightarrow> p = q"
  by (simp add: to_gateway_id_def)

end
