(* ===== verification/Session.thy ===== *)
theory Session
  imports Link Queue_Walk Marker_Store Play_Log Focus
begin

text \<open>
  The playback part of \<^verbatim>\<open>PlaybackController\<close>
  (\<^verbatim>\<open>crates/modplayer-core/src/controller.rs\<close>): the queue, the transport state and the
  programs sent to the source. \<open>dispatch\<close> runs an input through the reducer and applies the
  effects, which may dispatch again, and then brings what hangs on the current track up to date: the play
  log, the analysis, the markers and the focus; \<open>sync_program\<close> and \<open>flush_pending_program\<close> send the debounced
  programs of the queue panel. What the controller reads from outside (clock, playback position,
  readiness of the source buffer, sample rate, stored markers) is a record passed in; what it sends is recorded, in
  order, in \<open>se_sent\<close> and \<open>se_engine\<close>.
\<close>

section \<open>State\<close>

record surroundings =
  env_now :: nat
  env_position_ms :: nat
  env_buffer_ready :: bool
  env_sample_rate :: nat
  env_unix_ms :: nat
  env_local_user :: bool
  env_accepts :: "bool list"
  env_has_state_dir :: bool
  env_load :: "track_id \<Rightarrow> nat \<Rightarrow> nat \<Rightarrow> load_outcome"

text \<open>
  \<open>env_local_user\<close>: the call comes from the user at this machine, not from a plugin or a remote device;
  \<open>env_accepts\<close>: which inboxes of plugins take the events sent to them; \<open>env_load\<close>: what loading the
  markers of a track gives for a rate and a length, see \<open>load_track_state\<close>.
\<close>

datatype analysis_call = AnalysisDetach | AnalysisAttach track_id nat nat

text \<open>What the controller keeps for the current track beside the queue and the transport.\<close>

record track_parts =
  pb_focus :: desk
  pb_plugin_track :: "track_id option"
  pb_play_log :: play_log
  pb_last_play :: "track_id option"
  pb_analysis :: "analysis_call list"
  pb_analysis_track :: "track_id option"
  pb_markers :: "track_markers option"
  pb_marker_track :: "track_id option"
  pb_awaiting_start :: bool
  pb_saves :: "track_markers list"
  pb_warnings :: "load_warning list"
  pb_last_flush :: "nat option"

text \<open>\<open>pb_saves\<close> are the states handed to the writer thread, whose bytes are those of \<open>to_file\<close>.\<close>

definition track_parts_new :: track_parts where
  "track_parts_new =
     \<lparr>pb_focus = desk_new, pb_plugin_track = None, pb_play_log = play_log_new, pb_last_play = None,
      pb_analysis = [], pb_analysis_track = None, pb_markers = None, pb_marker_track = None,
      pb_awaiting_start = False, pb_saves = [], pb_warnings = [], pb_last_flush = None\<rparr>"

record pending_program =
  pp_order :: "track_id list"
  pp_cursor_index :: nat
  pp_position_ms :: nat
  pp_start_playing :: bool
  pp_repeat_all :: bool
  pp_repeat_one :: bool

type_synonym program_key = "track_id list \<times> nat \<times> bool \<times> bool"

record 'r session =
  se_queue :: play_queue
  se_link :: link
  se_rng :: 'r
  se_generation :: nat
  se_last_key :: "program_key option"
  se_pending :: "pending_program option"
  se_last_sent_at :: "nat option"
  se_sent :: "source_command list"
  se_engine :: "engine_command list"
  se_skip_notices :: "queue_notice list"
  se_volume :: nat
  se_parts :: track_parts

definition session_new :: "'r \<Rightarrow> 'r session" where
  "session_new rng =
     \<lparr>se_queue = queue_new, se_link = link_new, se_rng = rng, se_generation = 0,
      se_last_key = None, se_pending = None, se_last_sent_at = None, se_sent = [],
      se_engine = [], se_skip_notices = [], se_volume = 100,
      se_parts = track_parts_new\<rparr>"

definition PROGRAM_SEND_DEBOUNCE :: nat where "PROGRAM_SEND_DEBOUNCE = 250"

definition se_transport :: "('r, 'b) session_scheme \<Rightarrow> transport_state" where
  "se_transport se = lk_state (se_link se)"

definition set_transport :: "(transport_state \<Rightarrow> transport_state) \<Rightarrow> 'r session \<Rightarrow> 'r session" where
  "set_transport f se = se\<lparr>se_link := (se_link se)\<lparr>lk_state := f (se_transport se)\<rparr>\<rparr>"

definition send :: "source_command \<Rightarrow> 'r session \<Rightarrow> 'r session" where
  "send c se = se\<lparr>se_sent := se_sent se @ [c]\<rparr>"

definition engine :: "engine_command \<Rightarrow> 'r session \<Rightarrow> 'r session" where
  "engine c se = se\<lparr>se_engine := se_engine se @ [c]\<rparr>"

text \<open>\<^verbatim>\<open>position()\<close>: zero while stopped, the audio clock otherwise.\<close>

definition position_ms :: "surroundings \<Rightarrow> 'r session \<Rightarrow> nat" where
  "position_ms env se = (if ts_intent (se_transport se) = Stopped then 0 else env_position_ms env)"

definition ms_to_frames :: "nat \<Rightarrow> nat \<Rightarrow> nat" where
  "ms_to_frames rate ms = (ms * rate) div 1000"

section \<open>Programs\<close>

definition next_generation :: "'r session \<Rightarrow> 'r session" where
  "next_generation se =
     (let g = se_generation se + 1
      in set_transport (\<lambda>s. s\<lparr>ts_current_generation := g\<rparr>) (se\<lparr>se_generation := g\<rparr>))"

text \<open>\<^verbatim>\<open>build_program\<close> and the send of \<^verbatim>\<open>Effect::LoadCurrentProgram\<close>.\<close>

definition load_current_program :: "nat \<Rightarrow> bool \<Rightarrow> 'r session \<Rightarrow> 'r session" where
  "load_current_program ms start_playing se =
     (case program_of_queue (se_queue se) of
        None \<Rightarrow> se
      | Some qp \<Rightarrow>
          (let se' = next_generation se
           in send (SrcLoadProgram (into_program qp ms start_playing
                (q_repeat (se_queue se) = RepeatAll) (q_repeat (se_queue se) = RepeatOne)
                (se_generation se'))) se'))"

definition flush_pending_program :: "surroundings \<Rightarrow> 'r session \<Rightarrow> 'r session" where
  "flush_pending_program env se =
     (case se_pending se of
        None \<Rightarrow> se
      | Some p \<Rightarrow>
          if (case se_last_sent_at se of None \<Rightarrow> False
              | Some t \<Rightarrow> env_now env - t < PROGRAM_SEND_DEBOUNCE)
          then se
          else let se' = next_generation (se\<lparr>se_pending := None\<rparr>)
               in send (SrcLoadProgram
                     \<lparr>pg_order = pp_order p, pg_cursor_index = pp_cursor_index p,
                      pg_position_ms = pp_position_ms p, pg_start_playing = pp_start_playing p,
                      pg_repeat_all = pp_repeat_all p, pg_repeat_one = pp_repeat_one p,
                      pg_generation = se_generation se'\<rparr>)
                    (se'\<lparr>se_last_key := Some (pp_order p, pp_cursor_index p, pp_repeat_all p,
                                             pp_repeat_one p),
                        se_last_sent_at := Some (env_now env)\<rparr>))"

definition sync_program ::
  "('r \<Rightarrow> u64 \<times> 'r) \<Rightarrow> surroundings \<Rightarrow> 'r session \<Rightarrow> 'r session"
where
  "sync_program nx env se =
     (if q_mode (se_queue se) \<noteq> HostDriven then se
      else case program_of_queue (se_queue se) of
             None \<Rightarrow> se\<lparr>se_pending := None\<rparr>
           | Some qp \<Rightarrow>
               (let (preview, rng') = (if length (qp_order qp) \<le> 1
                                       then wrap_preview nx (se_queue se) (se_rng se)
                                       else (None, se_rng se));
                    (order, cursor) = (case preview of Some order \<Rightarrow> (order, 0)
                                       | None \<Rightarrow> (qp_order qp, qp_cursor_index qp));
                    rep_all = (q_repeat (se_queue se) = RepeatAll);
                    rep_one = (q_repeat (se_queue se) = RepeatOne);
                    se' = se\<lparr>se_rng := rng'\<rparr>
                in if se_last_key se = Some (order, cursor, rep_all, rep_one)
                   then se'\<lparr>se_pending := None\<rparr>
                   else flush_pending_program env (se'\<lparr>se_pending := Some
                          \<lparr>pp_order = order, pp_cursor_index = cursor,
                           pp_position_ms = position_ms env se,
                           pp_start_playing = (ts_intent (se_transport se) = Playing),
                           pp_repeat_all = rep_all, pp_repeat_one = rep_one\<rparr>\<rparr>)))"

section \<open>The queue panel\<close>

text \<open>
  The queue commands of the controller: the queue operation (made host-driven first, except by the
  two that replace the context), then the program is synchronised.
\<close>

fun is_replace :: "queue_call \<Rightarrow> bool" where
  "is_replace (ReplaceContext _) \<longleftrightarrow> True"
| "is_replace (ReplaceContextAt _ _) \<longleftrightarrow> True"
| "is_replace _ \<longleftrightarrow> False"

definition queue_command ::
  "('r \<Rightarrow> u64 \<times> 'r) \<Rightarrow> surroundings \<Rightarrow> queue_call \<Rightarrow> 'r session \<Rightarrow> 'r session outcome"
where
  "queue_command nx env c se =
     and_then (run_call nx c
                (if is_replace c then se_queue se else ensure_host_driven (se_queue se)) (se_rng se))
       (\<lambda>(q, r). Some (Inr (sync_program nx env (se\<lparr>se_queue := q, se_rng := r\<rparr>))))"

section \<open>Dispatch\<close>

definition queue_origin_of :: "input \<Rightarrow> queue_change_origin" where
  "queue_origin_of i =
     (case i of
        InSkipForward \<Rightarrow> UserSkipForward
      | InSkipBack _ \<Rightarrow> UserSkipBack
      | InSeek _ _ _ \<Rightarrow> UserSeek
      | InUnavailable _ \<Rightarrow> UnavailableMirror
      | _ \<Rightarrow> EndOfTrackMirror)"

text \<open>The input \<^verbatim>\<open>play\<close>, \<^verbatim>\<open>skip_forward\<close>, \<^verbatim>\<open>skip_back\<close> and \<^verbatim>\<open>seek\<close> dispatch.\<close>

definition play_input :: "surroundings \<Rightarrow> 'r session \<Rightarrow> input" where
  "play_input env se =
     InPlay (q_current (se_queue se) \<noteq> None) (ts_track_len_ms (se_transport se) \<noteq> None)
       (env_buffer_ready env)"

fun pending_input :: "surroundings \<Rightarrow> 'r session \<Rightarrow> pending_transfer_command \<Rightarrow> input" where
  "pending_input env se PendingPlay = play_input env se"
| "pending_input env se PendingPlayHere = play_input env se"
| "pending_input env se PendingSkipForward = InSkipForward"
| "pending_input env se PendingSkipBack = InSkipBack (position_ms env se)"
| "pending_input env se (PendingSeek ms) = InSeek ms None (env_buffer_ready env)"

fun apply_effect ::
  "('r \<Rightarrow> u64 \<times> 'r) \<Rightarrow> surroundings \<Rightarrow> (input \<Rightarrow> 'r session \<Rightarrow> 'r session outcome) \<Rightarrow>
   queue_change_origin \<Rightarrow> effect \<Rightarrow> 'r session \<Rightarrow> 'r session outcome"
where
  "apply_effect nx env redispatch org (EngineEffect c) se = Some (Inr (engine c se))"
| "apply_effect nx env redispatch org (SourceEffect c) se = Some (Inr (send c se))"
| "apply_effect nx env redispatch org (SeekTo ms frames) se =
     (let f = (case frames of Some f \<Rightarrow> unat f | None \<Rightarrow> ms_to_frames (env_sample_rate env) ms)
      in Some (Inr (send (SrcSeek ms) (engine (EngSeek f) se))))"
| "apply_effect nx env redispatch org (LoadCurrentProgram ms playing) se =
     Some (Inr (load_current_program ms playing se))"
| "apply_effect nx env redispatch org (QueueEffect op) se =
     and_then (apply_queue_op nx op (se_queue se) (se_rng se))
       (\<lambda>(q, ch, ns, len, r).
          redispatch (InQueueChanged ch org)
            (set_transport (\<lambda>s. s\<lparr>ts_track_len_ms := len\<rparr>)
               (se\<lparr>se_queue := q, se_rng := r, se_skip_notices := se_skip_notices se @ ns\<rparr>)))"
| "apply_effect nx env redispatch org (ApplyPendingTransferCommand p) se =
     redispatch (pending_input env se p) se"
| "apply_effect nx env redispatch org (MirrorVolume pct) se =
     Some (Inr (se\<lparr>se_volume := volume_percent_new pct\<rparr>))"
| "apply_effect nx env redispatch org (RemoteSetShuffle on) se =
     queue_command nx env (SetShuffle on) se"
| "apply_effect nx env redispatch org (RemoteSetRepeat m) se =
     queue_command nx env (SetRepeat m) se"
| "apply_effect nx env redispatch org e se =
     Some (Inr (se\<lparr>se_link := link_effect (env_now env) e (se_link se)\<rparr>))"

fun apply_effects ::
  "('r \<Rightarrow> u64 \<times> 'r) \<Rightarrow> surroundings \<Rightarrow> (input \<Rightarrow> 'r session \<Rightarrow> 'r session outcome) \<Rightarrow>
   queue_change_origin \<Rightarrow> effect list \<Rightarrow> 'r session \<Rightarrow> 'r session outcome"
where
  "apply_effects nx env redispatch org [] se = Some (Inr se)"
| "apply_effects nx env redispatch org (e # es) se =
     and_then (apply_effect nx env redispatch org e se) (apply_effects nx env redispatch org es)"

section \<open>What hangs on the current track\<close>

definition track_of :: "queue_item option \<Rightarrow> track_id option" where
  "track_of current = map_option (\<lambda>i. tr_id (qi_track i)) current"

text \<open>\<^verbatim>\<open>note_local_transport_action\<close>, for the six commands of the transport\<close>

fun transport_command :: "input \<Rightarrow> bool" where
  "transport_command (InPlay _ _ _) \<longleftrightarrow> True"
| "transport_command InPause \<longleftrightarrow> True"
| "transport_command InStop \<longleftrightarrow> True"
| "transport_command (InSeek _ _ _) \<longleftrightarrow> True"
| "transport_command InSkipForward \<longleftrightarrow> True"
| "transport_command (InSkipBack _) \<longleftrightarrow> True"
| "transport_command _ \<longleftrightarrow> False"

definition note_local_transport_action :: "surroundings \<Rightarrow> input \<Rightarrow> track_parts \<Rightarrow> track_parts" where
  "note_local_transport_action env i p =
     (if transport_command i \<and> env_local_user env
      then p\<lparr>pb_focus := focus_call_step LocalHostAction (env_accepts env) (pb_focus p)\<rparr> else p)"

definition is_actively_playing :: "transport_state \<Rightarrow> bool" where
  "is_actively_playing s \<longleftrightarrow> ts_intent s = Playing \<and> \<not> ts_buffering s"

fun confirms_playing :: "input \<Rightarrow> bool" where
  "confirms_playing InPlaying \<longleftrightarrow> True"
| "confirms_playing (InBecameActive (Some ctx)) \<longleftrightarrow> tc_playing ctx"
| "confirms_playing _ \<longleftrightarrow> False"

definition record_play_log_if_new_track :: "surroundings \<Rightarrow> queue_item option \<Rightarrow> track_parts \<Rightarrow> track_parts" where
  "record_play_log_if_new_track env current p =
     (case current of
        None \<Rightarrow> p
      | Some item \<Rightarrow>
          if pb_last_play p = Some (tr_id (qi_track item)) then p
          else p\<lparr>pb_last_play := Some (tr_id (qi_track item)),
                 pb_play_log := record_play (qi_track item) (env_unix_ms env) (pb_play_log p)\<rparr>)"

definition sync_analysis_attachment :: "surroundings \<Rightarrow> queue_item option \<Rightarrow> track_parts \<Rightarrow> track_parts" where
  "sync_analysis_attachment env current p =
     (if track_of current = pb_analysis_track p then p
      else p\<lparr>pb_analysis := pb_analysis p @ [AnalysisDetach] @
               (case current of None \<Rightarrow> []
                | Some item \<Rightarrow> [AnalysisAttach (tr_id (qi_track item)) (env_sample_rate env)
                    (ms_to_frames (env_sample_rate env) (tr_duration_ms (qi_track item)))]),
             pb_analysis_track := track_of current\<rparr>)"

definition flush_track_state :: "surroundings \<Rightarrow> track_parts \<Rightarrow> track_parts" where
  "flush_track_state env p =
     (if \<not> env_has_state_dir env then p
      else case pb_markers p of
        None \<Rightarrow> p
      | Some m \<Rightarrow> if tm_dirty m then p\<lparr>pb_markers := Some (mark_clean m), pb_saves := pb_saves p @ [m]\<rparr> else p)"

definition TRACK_STATE_DEBOUNCE :: nat where "TRACK_STATE_DEBOUNCE = 250"

definition flush_track_state_if_due :: "surroundings \<Rightarrow> track_parts \<Rightarrow> track_parts" where
  "flush_track_state_if_due env p =
     (case pb_markers p of
        None \<Rightarrow> p
      | Some m \<Rightarrow>
          if \<not> tm_dirty m then p
          else if \<not> (case pb_last_flush p of None \<Rightarrow> True | Some t \<Rightarrow> TRACK_STATE_DEBOUNCE \<le> env_now env - t) then p
          else flush_track_state env (p\<lparr>pb_last_flush := Some (env_now env)\<rparr>))"

text \<open>The second half of \<^verbatim>\<open>sync_marker_attachment\<close>: the model is replaced by what is stored.\<close>

definition attach_markers :: "surroundings \<Rightarrow> queue_item option \<Rightarrow> track_parts \<Rightarrow> track_parts" where
  "attach_markers env current p =
     (case current of
        None \<Rightarrow> p\<lparr>pb_markers := None, pb_marker_track := None\<rparr>
      | Some item \<Rightarrow>
          (let i = tr_id (qi_track item);
               rate = max (env_sample_rate env) 1;
               len = ms_to_frames (env_sample_rate env) (tr_duration_ms (qi_track item));
               outcome = (if env_has_state_dir env then env_load env i rate len
                          else \<lparr>lo_state = track_markers_new i rate len, lo_warning = None, lo_rewrite_allowed = True\<rparr>)
           in p\<lparr>pb_markers := Some (lo_state outcome), pb_marker_track := Some i,
                pb_warnings := pb_warnings p @ (case lo_warning outcome of None \<Rightarrow> [] | Some w \<Rightarrow> [w])\<rparr>))"

definition sync_marker_attachment ::
  "surroundings \<Rightarrow> queue_item option \<Rightarrow> bool \<Rightarrow> track_parts \<Rightarrow> track_parts \<times> engine_command list"
where
  "sync_marker_attachment env current restarted p =
     (let changed = (track_of current \<noteq> pb_marker_track p)
      in if \<not> (changed \<or> restarted \<and> current \<noteq> None) then (p, [])
         else if \<not> changed \<and> pb_awaiting_start p then (p\<lparr>pb_awaiting_start := False\<rparr>, [])
         else (attach_markers env current (flush_track_state env
                 (if changed then p\<lparr>pb_awaiting_start := \<not> restarted\<rparr> else p)),
               [EngLoopDisarm]))"

fun started_len :: "input \<Rightarrow> nat option" where
  "started_len (InTrackStarted _ _ _ len) = Some len"
| "started_len _ = None"

definition refine_markers :: "surroundings \<Rightarrow> input \<Rightarrow> track_parts \<Rightarrow> track_parts" where
  "refine_markers env i p =
     (case started_len i of
        None \<Rightarrow> p
      | Some len \<Rightarrow>
          p\<lparr>pb_markers := map_option (set_len_frames (ms_to_frames (env_sample_rate env) len)) (pb_markers p)\<rparr>)"

text \<open>The part of \<^verbatim>\<open>fan_out_plugin_playback_events\<close> that decides: the focus at a change of the track.\<close>

definition note_track_change :: "surroundings \<Rightarrow> queue_item option \<Rightarrow> track_parts \<Rightarrow> track_parts" where
  "note_track_change env current p =
     (if track_of current = pb_plugin_track p then p
      else p\<lparr>pb_plugin_track := track_of current,
             pb_focus := focus_call_step FocusTrackChanged (env_accepts env) (pb_focus p)\<rparr>)"

definition after_dispatch :: "surroundings \<Rightarrow> input \<Rightarrow> 'r session \<Rightarrow> 'r session" where
  "after_dispatch env i se =
     (let current = q_current (se_queue se);
          p1 = (if confirms_playing i \<and> is_actively_playing (se_transport se)
                then record_play_log_if_new_track env current (se_parts se) else se_parts se);
          (p2, cmds) = sync_marker_attachment env current (started_len i \<noteq> None) (sync_analysis_attachment env current p1)
      in se\<lparr>se_parts := note_track_change env current (refine_markers env i p2), se_engine := se_engine se @ cmds\<rparr>)"

text \<open>
  The recursion of \<^verbatim>\<open>dispatch\<close> through its effects, with its depth as fuel; \<open>None\<close> at
  depth 0. \<open>dispatch_depth\<close> below shows that three levels are always enough.
\<close>

fun dispatch_upto ::
  "nat \<Rightarrow> ('r \<Rightarrow> u64 \<times> 'r) \<Rightarrow> surroundings \<Rightarrow> input \<Rightarrow> 'r session \<Rightarrow> 'r session outcome"
where
  "dispatch_upto 0 nx env i se = None"
| "dispatch_upto (Suc n) nx env i se =
     (let se0 = se\<lparr>se_parts := note_local_transport_action env i (se_parts se)\<rparr>;
          (s, effects) = reduce (se_transport se) i
      in and_then (apply_effects nx env (dispatch_upto n nx env) (queue_origin_of i) effects
             (set_transport (\<lambda>_. s) se0))
           (\<lambda>se'. Some (Inr (after_dispatch env i se'))))"

definition dispatch ::
  "('r \<Rightarrow> u64 \<times> 'r) \<Rightarrow> surroundings \<Rightarrow> input \<Rightarrow> 'r session \<Rightarrow> 'r session outcome"
where
  "dispatch nx env i se = dispatch_upto 3 nx env i se"

end
