(* ===== verification/Session_Steps.thy ===== *)
theory Session_Steps
  imports Session
begin

text \<open>
  The recursion depth of \<open>dispatch\<close>, and the invariant of the programs sent: generations count up
  by one per program, and the transport knows the last one.
\<close>

section \<open>Depth\<close>

lemma apply_effect_cong:
  assumes "\<And>op ch se. e = QueueEffect op \<Longrightarrow> d1 (InQueueChanged ch org) se = d2 (InQueueChanged ch org) se"
    and "\<And>p. e = ApplyPendingTransferCommand p \<Longrightarrow> d1 (pending_input env se p) se = d2 (pending_input env se p) se"
  shows "apply_effect nx env d1 org e se = apply_effect nx env d2 org e se"
  using assms by (cases e) simp_all

lemma apply_effects_cong:
  assumes "\<And>op ch se. QueueEffect op \<in> set es \<Longrightarrow> d1 (InQueueChanged ch org) se = d2 (InQueueChanged ch org) se"
    and "\<And>p se. ApplyPendingTransferCommand p \<in> set es \<Longrightarrow>
      d1 (pending_input env se p) se = d2 (pending_input env se p) se"
  shows "apply_effects nx env d1 org es se = apply_effects nx env d2 org es se"
  using assms
proof (induction es arbitrary: se)
  case (Cons e es)
  have "apply_effect nx env d1 org e se = apply_effect nx env d2 org e se"
    by (rule apply_effect_cong) (use Cons.prems in auto)
  moreover have "apply_effects nx env d1 org es = apply_effects nx env d2 org es"
    by (rule ext, rule Cons.IH) (use Cons.prems in auto)
  ultimately show ?case by simp
qed simp

lemma gate_effects: "gate s i = Some (s', es) \<Longrightarrow> (\<forall>op. QueueEffect op \<notin> set es) \<and>
  (\<forall>p. ApplyPendingTransferCommand p \<notin> set es)"
  by (auto dest!: gate_cases)

lemma gate_queue_changed [simp]: "gate s (InQueueChanged ch org) = None"
  by (simp add: gate_def is_pause_or_stop_def split: active_state.split)

lemma queue_changed_effects:
  "(\<forall>op. QueueEffect op \<notin> set (snd (reduce s (InQueueChanged ch org)))) \<and>
   (\<forall>p. ApplyPendingTransferCommand p \<notin> set (snd (reduce s (InQueueChanged ch org))))"
  by (auto simp: reduce_def rule_queue_changed_def split: playback_change.split)

lemma only_became_active_applies:
  "ApplyPendingTransferCommand p \<in> set (snd (reduce s i)) \<Longrightarrow> i = InBecameActive None"
proof (cases "gate s i")
  case (Some r)
  then show "ApplyPendingTransferCommand p \<in> set (snd (reduce s i)) \<Longrightarrow> ?thesis"
    using gate_effects [of s i "fst r" "snd r"] by (simp add: reduce_def)
next
  case None
  then show "ApplyPendingTransferCommand p \<in> set (snd (reduce s i)) \<Longrightarrow> ?thesis"
    by (cases i) (auto simp: reduce_def rule_defs rule_health_def Let_def
        split: intent.splits playback_change.splits option.splits remote_command.splits
          active_state.splits if_splits)
qed

lemma dispatch_upto_queue_changed:
  "dispatch_upto (Suc n) nx env (InQueueChanged ch org) se =
   dispatch_upto (Suc m) nx env (InQueueChanged ch org) se"
proof -
  have "apply_effects nx env (dispatch_upto n nx env) org' (snd (reduce (se_transport se) (InQueueChanged ch org))) se' =
      apply_effects nx env (dispatch_upto m nx env) org' (snd (reduce (se_transport se) (InQueueChanged ch org))) se'" for org' se'
    using queue_changed_effects [of "se_transport se" ch org] by (intro apply_effects_cong) auto
  then show ?thesis by (simp only: dispatch_upto.simps(2) case_prod_beta Let_def)
qed

lemma dispatch_upto_other:
  assumes "\<forall>c. i \<noteq> InBecameActive c"
  shows "dispatch_upto (Suc (Suc n)) nx env i se = dispatch_upto (Suc (Suc m)) nx env i se"
proof -
  have "apply_effects nx env (dispatch_upto (Suc n) nx env) org (snd (reduce (se_transport se) i)) se' =
      apply_effects nx env (dispatch_upto (Suc m) nx env) org (snd (reduce (se_transport se) i)) se'" for org se'
    by (rule apply_effects_cong, rule dispatch_upto_queue_changed)
      (use assms only_became_active_applies in blast)
  then show ?thesis by (simp only: dispatch_upto.simps(2) [of "Suc _"] case_prod_beta Let_def)
qed

lemma pending_input_other: "pending_input env se p \<noteq> InBecameActive c"
  by (cases p) (simp_all add: play_input_def)

lemma dispatch_upto_three:
  "dispatch_upto (Suc (Suc (Suc n))) nx env i se = dispatch_upto (Suc (Suc (Suc m))) nx env i se"
proof -
  have "apply_effects nx env (dispatch_upto (Suc (Suc n)) nx env) org es se' =
      apply_effects nx env (dispatch_upto (Suc (Suc m)) nx env) org es se'" for org es se'
    by (rule apply_effects_cong, rule dispatch_upto_queue_changed)
      (rule dispatch_upto_other, simp add: pending_input_other)
  then show ?thesis by (simp only: dispatch_upto.simps(2) [of "Suc (Suc _)"] case_prod_beta Let_def)
qed

section \<open>Generations\<close>

fun load_generations :: "source_command list \<Rightarrow> nat list" where
  "load_generations [] = []"
| "load_generations (SrcLoadProgram p # cs) = pg_generation p # load_generations cs"
| "load_generations (_ # cs) = load_generations cs"

lemma load_generations_append [simp]:
  "load_generations (cs @ ds) = load_generations cs @ load_generations ds"
  by (induction cs rule: load_generations.induct) auto

definition programs_inv :: "'r session \<Rightarrow> bool" where
  "programs_inv se \<longleftrightarrow>
     ts_current_generation (se_transport se) = se_generation se \<and>
     load_generations (se_sent se) = [1..<Suc (se_generation se)]"

lemma reduce_generation [simp]:
  "ts_current_generation (fst (reduce s i)) = ts_current_generation s"
proof (cases "gate s i")
  case (Some r)
  with gate_cases [OF Some] show ?thesis by (auto simp: reduce_def)
next
  case None
  then show ?thesis
    by (cases i) (auto simp: reduce_def rule_defs rule_health_def Let_def
        split: intent.split playback_change.split option.split remote_command.split active_state.split)
qed

lemma no_load_sent:
  assumes "SourceEffect c \<in> set (snd (reduce s i))"
  shows "load_generations [c] = []"
proof (cases "gate s i")
  case (Some r)
  with gate_cases [OF Some] assms show ?thesis by (auto simp: reduce_def)
next
  case None
  with assms show ?thesis
    by (cases i) (auto simp: reduce_def rule_defs rule_health_def Let_def
        split: intent.splits playback_change.splits option.splits remote_command.splits
          active_state.splits if_splits)
qed

lemma send_load_inv:
  "programs_inv se \<Longrightarrow> pg_generation p = se_generation se + 1 \<Longrightarrow>
   programs_inv (send (SrcLoadProgram p) (next_generation se))"
  by (simp add: programs_inv_def send_def next_generation_def set_transport_def se_transport_def Let_def)


lemma programs_inv_cong:
  assumes "programs_inv se" and "ts_current_generation (se_transport se') = ts_current_generation (se_transport se)"
    and "se_generation se' = se_generation se" and "load_generations (se_sent se') = load_generations (se_sent se)"
  shows "programs_inv se'"
  using assms by (simp add: programs_inv_def)

lemma next_generation_generation [simp]: "se_generation (next_generation se) = se_generation se + 1"
  by (simp add: next_generation_def set_transport_def Let_def)

lemma load_current_program_inv: "programs_inv se \<Longrightarrow> programs_inv (load_current_program ms playing se)"
  unfolding load_current_program_def Let_def
  by (auto split: option.split intro!: send_load_inv simp: into_program_def)

lemma flush_pending_program_inv:
  assumes inv: "programs_inv se"
  shows "programs_inv (flush_pending_program env se)"
proof -
  have "programs_inv (send (SrcLoadProgram p) ((next_generation (se\<lparr>se_pending := None\<rparr>))
      \<lparr>se_last_key := k, se_last_sent_at := t\<rparr>))"
    if "pg_generation p = se_generation se + 1" for p k t
  proof -
    have "programs_inv (se\<lparr>se_pending := None\<rparr>)"
      by (rule programs_inv_cong [OF inv]) (simp_all add: se_transport_def)
    then have "programs_inv (send (SrcLoadProgram p) (next_generation (se\<lparr>se_pending := None\<rparr>)))"
      using that by (intro send_load_inv) simp_all
    then show ?thesis
      by (rule programs_inv_cong) (simp_all add: send_def se_transport_def)
  qed
  then show ?thesis
    using inv unfolding flush_pending_program_def Let_def
    by (auto split: option.split)
qed

lemma sync_program_inv:
  assumes inv: "programs_inv se"
  shows "programs_inv (sync_program nx env se)"
proof -
  have upd: "programs_inv (se\<lparr>se_rng := r, se_pending := p\<rparr>)" "programs_inv (se\<lparr>se_pending := p\<rparr>)" for r p
    by (rule programs_inv_cong [OF inv]; simp add: se_transport_def)+
  show ?thesis
    unfolding sync_program_def Let_def
    using inv upd by (auto split: option.split prod.split intro!: flush_pending_program_inv)
qed

lemma queue_command_inv:
  assumes inv: "programs_inv se" and r: "queue_command nx env c se = Some (Inr se')"
  shows "programs_inv se'"
proof -
  have "programs_inv (se\<lparr>se_queue := q, se_rng := r\<rparr>)" for q r
    by (rule programs_inv_cong [OF inv]) (simp_all add: se_transport_def)
  then show ?thesis
    using r by (auto simp: queue_command_def and_then_Some_Inr intro: sync_program_inv)
qed

lemma link_effect_programs: "programs_inv se \<Longrightarrow> programs_inv (se\<lparr>se_link := link_effect now e (se_link se)\<rparr>)"
proof (rule programs_inv_cong)
  have "lk_state (link_effect now e (se_link se)) = lk_state (se_link se)"
    by (induction now e "se_link se" rule: link_effect.induct) auto
  then show "ts_current_generation (se_transport (se\<lparr>se_link := link_effect now e (se_link se)\<rparr>)) =
      ts_current_generation (se_transport se)"
    by (simp add: se_transport_def)
qed simp_all

lemma set_track_len_inv:
  "programs_inv se \<Longrightarrow>
   programs_inv (set_transport (\<lambda>s. s\<lparr>ts_track_len_ms := len\<rparr>)
     (se\<lparr>se_queue := q, se_rng := r, se_skip_notices := ns\<rparr>))"
  by (erule programs_inv_cong) (simp_all add: se_transport_def set_transport_def)

lemma apply_effect_inv:
  assumes inv: "programs_inv se" and r: "apply_effect nx env d org e se = Some (Inr se')"
    and d: "\<And>i se se'. d i se = Some (Inr se') \<Longrightarrow> programs_inv se \<Longrightarrow> programs_inv se'"
    and c: "\<And>c. e = SourceEffect c \<Longrightarrow> load_generations [c] = []"
  shows "programs_inv se'"
proof (cases e)
  case (QueueEffect op)
  with r d inv show ?thesis
    by (auto simp: and_then_Some_Inr intro: set_track_len_inv split: prod.splits)
next
  case (SourceEffect cmd)
  with r c [OF SourceEffect] show ?thesis
    by (auto intro!: programs_inv_cong [OF inv] simp: send_def se_transport_def)
next
  case (EngineEffect cmd)
  with r show ?thesis
    by (auto intro!: programs_inv_cong [OF inv] simp: engine_def se_transport_def)
next
  case (SeekTo ms frames)
  with r show ?thesis
    by (auto intro!: programs_inv_cong [OF inv] simp: send_def engine_def se_transport_def Let_def)
next
  case (MirrorVolume pct)
  with r show ?thesis by (auto intro!: programs_inv_cong [OF inv] simp: se_transport_def)
next
  case (Notify k sev acts)
  with r show ?thesis by (auto intro!: programs_inv_cong [OF inv] simp: se_transport_def)
next
  case (DismissNotify k)
  with r show ?thesis by (auto intro!: programs_inv_cong [OF inv] simp: se_transport_def)
qed (use r inv d in \<open>auto intro: load_current_program_inv queue_command_inv link_effect_programs\<close>)

lemma apply_effects_inv:
  assumes "programs_inv se" and "apply_effects nx env d org es se = Some (Inr se')"
    and d: "\<And>i se se'. d i se = Some (Inr se') \<Longrightarrow> programs_inv se \<Longrightarrow> programs_inv se'"
    and "\<And>c. SourceEffect c \<in> set es \<Longrightarrow> load_generations [c] = []"
  shows "programs_inv se'"
  using assms(1,2,4)
proof (induction es arbitrary: se)
  case (Cons e es)
  then obtain se1 where "apply_effect nx env d org e se = Some (Inr se1)"
    "apply_effects nx env d org es se1 = Some (Inr se')"
    by (auto simp: and_then_Some_Inr)
  then show ?case
    using Cons.IH [of se1] apply_effect_inv [OF Cons.prems(1) _ d] Cons.prems(3) by auto
qed simp

lemma sync_marker_commands: "set (snd (sync_marker_attachment env c x p)) \<subseteq> {EngLoopDisarm}"
  by (simp add: sync_marker_attachment_def Let_def)

lemma after_dispatch_eq:
  "\<exists>parts cmds. after_dispatch env i se = se\<lparr>se_parts := parts, se_engine := se_engine se @ cmds\<rparr> \<and>
     set cmds \<subseteq> {EngLoopDisarm}"
  unfolding after_dispatch_def Let_def split_def using sync_marker_commands by blast

lemma after_dispatch_frame [simp]:
  "se_queue (after_dispatch env i se) = se_queue se" "se_link (after_dispatch env i se) = se_link se"
  "se_transport (after_dispatch env i se) = se_transport se" "se_sent (after_dispatch env i se) = se_sent se"
  "se_generation (after_dispatch env i se) = se_generation se" "se_rng (after_dispatch env i se) = se_rng se"
  "se_pending (after_dispatch env i se) = se_pending se" "se_last_key (after_dispatch env i se) = se_last_key se"
proof -
  obtain parts cmds where "after_dispatch env i se = se\<lparr>se_parts := parts, se_engine := se_engine se @ cmds\<rparr>"
    using after_dispatch_eq by blast
  then show "se_queue (after_dispatch env i se) = se_queue se" "se_link (after_dispatch env i se) = se_link se"
    "se_transport (after_dispatch env i se) = se_transport se" "se_sent (after_dispatch env i se) = se_sent se"
    "se_generation (after_dispatch env i se) = se_generation se" "se_rng (after_dispatch env i se) = se_rng se"
    "se_pending (after_dispatch env i se) = se_pending se" "se_last_key (after_dispatch env i se) = se_last_key se"
    by (simp_all add: se_transport_def)
qed

text \<open>The parts each attachment leaves alone.\<close>

lemma sync_analysis_frame [simp]:
  "pb_markers (sync_analysis_attachment env c p) = pb_markers p"
  "pb_marker_track (sync_analysis_attachment env c p) = pb_marker_track p"
  "pb_awaiting_start (sync_analysis_attachment env c p) = pb_awaiting_start p"
  "pb_play_log (sync_analysis_attachment env c p) = pb_play_log p"
  "pb_saves (sync_analysis_attachment env c p) = pb_saves p"
  "pb_warnings (sync_analysis_attachment env c p) = pb_warnings p"
  "pb_last_flush (sync_analysis_attachment env c p) = pb_last_flush p"
  by (simp_all add: sync_analysis_attachment_def)

lemma note_track_change_frame [simp]:
  "pb_markers (note_track_change env c p) = pb_markers p"
  "pb_marker_track (note_track_change env c p) = pb_marker_track p"
  "pb_awaiting_start (note_track_change env c p) = pb_awaiting_start p"
  "pb_play_log (note_track_change env c p) = pb_play_log p"
  "pb_saves (note_track_change env c p) = pb_saves p"
  "pb_warnings (note_track_change env c p) = pb_warnings p"
  "pb_last_flush (note_track_change env c p) = pb_last_flush p"
  by (simp_all add: note_track_change_def)

lemma record_if_new_frame [simp]:
  "pb_markers (record_play_log_if_new_track env c p) = pb_markers p"
  "pb_marker_track (record_play_log_if_new_track env c p) = pb_marker_track p"
  "pb_awaiting_start (record_play_log_if_new_track env c p) = pb_awaiting_start p"
  "pb_saves (record_play_log_if_new_track env c p) = pb_saves p"
  "pb_warnings (record_play_log_if_new_track env c p) = pb_warnings p"
  "pb_last_flush (record_play_log_if_new_track env c p) = pb_last_flush p"
  by (simp_all add: record_play_log_if_new_track_def split: option.split)

lemma note_local_frame [simp]:
  "pb_markers (note_local_transport_action env i p) = pb_markers p"
  "pb_marker_track (note_local_transport_action env i p) = pb_marker_track p"
  "pb_awaiting_start (note_local_transport_action env i p) = pb_awaiting_start p"
  "pb_play_log (note_local_transport_action env i p) = pb_play_log p"
  "pb_saves (note_local_transport_action env i p) = pb_saves p"
  "pb_warnings (note_local_transport_action env i p) = pb_warnings p"
  "pb_last_flush (note_local_transport_action env i p) = pb_last_flush p"
  by (simp_all add: note_local_transport_action_def)

lemma refine_markers_frame [simp]:
  "pb_play_log (refine_markers env i p) = pb_play_log p"
  "pb_marker_track (refine_markers env i p) = pb_marker_track p"
  "pb_awaiting_start (refine_markers env i p) = pb_awaiting_start p"
  "pb_saves (refine_markers env i p) = pb_saves p"
  "pb_warnings (refine_markers env i p) = pb_warnings p"
  "pb_last_flush (refine_markers env i p) = pb_last_flush p"
  by (simp_all add: refine_markers_def split: option.split)

lemma sync_marker_play_log [simp]: "pb_play_log (fst (sync_marker_attachment env c x p)) = pb_play_log p"
  by (simp add: sync_marker_attachment_def attach_markers_def flush_track_state_def Let_def split: option.split)

lemma sync_marker_awaited:
  "pb_awaiting_start p \<Longrightarrow> pb_marker_track p = track_of c \<Longrightarrow>
     fst (sync_marker_attachment env c x p) = (if x \<and> c \<noteq> None then p\<lparr>pb_awaiting_start := False\<rparr> else p)"
  by (simp add: sync_marker_attachment_def Let_def)

text \<open>What \<^verbatim>\<open>after_dispatch\<close> does to the markers.\<close>

lemma after_dispatch_parts:
  "\<exists>p. pb_markers p = pb_markers (se_parts se) \<and> pb_marker_track p = pb_marker_track (se_parts se) \<and>
     pb_awaiting_start p = pb_awaiting_start (se_parts se) \<and> pb_saves p = pb_saves (se_parts se) \<and>
     pb_warnings p = pb_warnings (se_parts se) \<and> pb_last_flush p = pb_last_flush (se_parts se) \<and>
     (\<not> confirms_playing i \<longrightarrow> pb_play_log p = pb_play_log (se_parts se)) \<and>
     se_parts (after_dispatch env i se) =
       note_track_change env (q_current (se_queue se)) (refine_markers env i
         (fst (sync_marker_attachment env (q_current (se_queue se)) (started_len i \<noteq> None) p)))"
  by (rule exI [of _ "sync_analysis_attachment env (q_current (se_queue se))
      (if confirms_playing i \<and> is_actively_playing (se_transport se)
       then record_play_log_if_new_track env (q_current (se_queue se)) (se_parts se) else se_parts se)"])
    (simp add: after_dispatch_def Let_def split_def)

lemma dispatch_upto_inv:
  "dispatch_upto n nx env i se = Some (Inr se') \<Longrightarrow> programs_inv se \<Longrightarrow> programs_inv se'"
proof (induction n arbitrary: i se se')
  case (Suc n)
  let ?r = "reduce (se_transport se) i"
  let ?se = "set_transport (\<lambda>_. fst ?r) (se\<lparr>se_parts := note_local_transport_action env i (se_parts se)\<rparr>)"
  have "programs_inv ?se"
    by (rule programs_inv_cong [OF Suc.prems(2)]) (simp_all add: se_transport_def set_transport_def)
  moreover obtain se1 where "apply_effects nx env (dispatch_upto n nx env) (queue_origin_of i) (snd ?r) ?se = Some (Inr se1)"
    and se': "se' = after_dispatch env i se1"
    using Suc.prems(1) by (auto simp: case_prod_beta Let_def and_then_Some_Inr)
  ultimately have "programs_inv se1"
    by (elim apply_effects_inv [rotated]) (use Suc.IH no_load_sent in blast)+
  then show ?case unfolding se' by (rule programs_inv_cong) simp_all
qed simp

section \<open>Steps of the session\<close>

inductive session_step :: "('r \<Rightarrow> u64 \<times> 'r) \<Rightarrow> 'r session \<Rightarrow> 'r session \<Rightarrow> bool"
  for nx :: "'r \<Rightarrow> u64 \<times> 'r" where
  dispatched: "dispatch nx env i se = Some (Inr se') \<Longrightarrow> session_step nx se se'"
| queue_commanded: "queue_command nx env c se = Some (Inr se') \<Longrightarrow> session_step nx se se'"
| ticked: "session_step nx se (flush_pending_program env se)"
| markers_ticked: "session_step nx se (se\<lparr>se_parts := flush_track_state_if_due env (se_parts se)\<rparr>)"
| markers_called: "session_step nx se
    (se\<lparr>se_parts := (se_parts se)\<lparr>pb_markers := map_option (call_marker pn c) (pb_markers (se_parts se))\<rparr>\<rparr>)"

inductive_cases session_stepE: "session_step nx se se'"

interpretation session: machine "\<lambda>se. se = session_new rng" "session_step nx" programs_inv
  for rng :: 'r and nx :: "'r \<Rightarrow> u64 \<times> 'r"
proof unfold_locales
  fix s t :: "'r session" assume "programs_inv s" and "session_step nx s t"
  moreover have "programs_inv (s\<lparr>se_parts := p\<rparr>)" if "programs_inv s" for p
    by (rule programs_inv_cong [OF that]) (simp_all add: se_transport_def)
  ultimately show "programs_inv t"
    by (auto elim!: session_stepE simp: dispatch_def
        intro: dispatch_upto_inv queue_command_inv flush_pending_program_inv)
qed (simp add: programs_inv_def session_new_def link_new_def transport_default_def se_transport_def)

end
