(* ===== verification/Session_Theorems.thy ===== *)
theory Session_Theorems
  imports Session_Steps
begin

text \<open>The properties of the controller's playback session.\<close>

section \<open>Concrete sessions\<close>

definition song :: "nat \<Rightarrow> track_ref" where
  "song n = \<lparr>tr_id = TrackId [n], tr_title = [n], tr_artists = [], tr_artist_ids = [],
     tr_album = None, tr_album_id = None, tr_artwork_url = None, tr_duration_ms = n,
     tr_explicit = False, tr_release_date = None, tr_availability = Available\<rparr>"

definition still :: "unit \<Rightarrow> u64 \<times> unit" where
  "still r = (0, r)"

definition at_ms :: "nat \<Rightarrow> surroundings" where
  "at_ms t = \<lparr>env_now = t, env_position_ms = 0, env_buffer_ready = True, env_sample_rate = 1,
     env_unix_ms = t, env_local_user = True, env_accepts = [True, True], env_has_state_dir = True,
     env_load = (\<lambda>i rate len. \<lparr>lo_state = track_markers_new i rate len, lo_warning = None, lo_rewrite_allowed = True\<rparr>)\<rparr>"

definition session_of :: "unit session outcome \<Rightarrow> unit session" where
  "session_of r = (case r of Some (Inr se) \<Rightarrow> se | _ \<Rightarrow> session_new ())"

definition listening :: "unit session" where
  "listening =
     session_of (dispatch still (at_ms 0) (InPlay True True True)
       (session_of (dispatch still (at_ms 0) InRegistered
         (session_of (queue_command still (at_ms 0) (ReplaceContext (map song [1, 2, 3])) (session_new ()))))))"

text \<open>
  \<open>dispatch\<close> needs at most three nested levels (a transfer applies its pending command, that
  command moves the queue, the moved queue reports its change): allowing any more changes nothing.
\<close>

lemma dispatch_depth: "dispatch_upto (3 + k) nx env i se = dispatch nx env i se"
  unfolding dispatch_def numeral_3_eq_3 add_Suc add_0 by (rule dispatch_upto_three)

text \<open>What a report about an older program does: the reducer ignores it, the markers do not.\<close>

lemma refined_len:
  assumes "pb_markers (refine_markers env (InTrackStarted g pos playing len) p) = Some m"
  shows "tm_len_frames m = ms_to_frames (env_sample_rate env) len \<and>
    (\<forall>k\<in>set (tm_markers m). mk_position k \<le> ms_to_frames (env_sample_rate env) len)"
  using assms by (auto simp: refine_markers_def set_len_frames_def touched_def clamp_marker_def)

lemma stale_start:
  assumes "g < ts_current_generation (se_transport se)"
  shows "\<exists>p cmds. dispatch nx env (InTrackStarted g pos playing len) se =
        Some (Inr (se\<lparr>se_parts := p, se_engine := se_engine se @ cmds\<rparr>)) \<and>
      set cmds \<subseteq> {EngLoopDisarm} \<and> pb_play_log p = pb_play_log (se_parts se) \<and>
      (\<forall>m. pb_markers p = Some m \<longrightarrow> tm_len_frames m = ms_to_frames (env_sample_rate env) len \<and>
         (\<forall>k\<in>set (tm_markers m). mk_position k \<le> ms_to_frames (env_sample_rate env) len)) \<and>
      (pb_awaiting_start (se_parts se) \<and> pb_marker_track (se_parts se) = track_of (q_current (se_queue se)) \<longrightarrow>
         pb_markers p = map_option (set_len_frames (ms_to_frames (env_sample_rate env) len)) (pb_markers (se_parts se)))"
proof -
  let ?i = "InTrackStarted g pos playing len"
  have gate: "gate (se_transport se) ?i = None"
    by (simp add: gate_def is_pause_or_stop_def split: active_state.split)
  have same: "set_transport (\<lambda>_. se_transport se) (se\<lparr>se_parts := se_parts se\<rparr>) = se"
    by (simp add: set_transport_def se_transport_def)
  have d: "dispatch nx env ?i se = Some (Inr (after_dispatch env ?i se))"
    using assms gate same by (simp add: dispatch_def numeral_3_eq_3 reduce_def note_local_transport_action_def)
  obtain parts cmds where e: "after_dispatch env ?i se = se\<lparr>se_parts := parts, se_engine := se_engine se @ cmds\<rparr>"
    "set cmds \<subseteq> {EngLoopDisarm}" using after_dispatch_eq by blast
  let ?c = "q_current (se_queue se)" and ?s = "se_parts se"
  obtain p where p: "pb_markers p = pb_markers ?s" "pb_marker_track p = pb_marker_track ?s"
    "pb_awaiting_start p = pb_awaiting_start ?s" "pb_play_log p = pb_play_log ?s"
    "parts = note_track_change env ?c (refine_markers env ?i (fst (sync_marker_attachment env ?c True p)))"
    using after_dispatch_parts [of se ?i env] e(1) by auto
  have 1: "pb_play_log parts = pb_play_log ?s" by (simp add: p(4,5))
  have 2: "tm_len_frames m = ms_to_frames (env_sample_rate env) len \<and>
      (\<forall>k\<in>set (tm_markers m). mk_position k \<le> ms_to_frames (env_sample_rate env) len)"
    if "pb_markers parts = Some m" for m
    using that refined_len [of env g pos playing len _ m] by (simp add: p(5))
  have 3: "pb_markers parts = map_option (set_len_frames (ms_to_frames (env_sample_rate env) len)) (pb_markers ?s)"
    if "pb_awaiting_start ?s" "pb_marker_track ?s = track_of ?c"
    using sync_marker_awaited [of p ?c env True] that p by (simp add: refine_markers_def)
  show ?thesis using d [unfolded e(1)] e(2) 1 2 3 by blast
qed

text \<open>
  C27. In every reachable session the programs sent to the source carry the generations 1, 2, 3 and so
  on in order and the transport knows the generation of the last one. A report of a started track that
  belongs to an older program leaves queue, transport, programs and play log alone; but the markers of
  the current track are cut to the length of that other track all the same: they keep the model that was
  just attached, every marker beyond the length is moved to it.
\<close>

theorem program_generations:
  assumes "(session_step nx)\<^sup>*\<^sup>* (session_new rng) se"
  shows "load_generations (se_sent se) = [1..<Suc (se_generation se)] \<and>
    ts_current_generation (se_transport se) = se_generation se \<and>
    (\<forall>g pos playing len. g < se_generation se \<longrightarrow>
       (\<exists>p cmds. dispatch nx env (InTrackStarted g pos playing len) se =
            Some (Inr (se\<lparr>se_parts := p, se_engine := se_engine se @ cmds\<rparr>)) \<and>
          set cmds \<subseteq> {EngLoopDisarm} \<and> pb_play_log p = pb_play_log (se_parts se) \<and>
          (\<forall>m. pb_markers p = Some m \<longrightarrow> tm_len_frames m = ms_to_frames (env_sample_rate env) len \<and>
             (\<forall>k\<in>set (tm_markers m). mk_position k \<le> ms_to_frames (env_sample_rate env) len)) \<and>
          (pb_awaiting_start (se_parts se) \<and> pb_marker_track (se_parts se) = track_of (q_current (se_queue se)) \<longrightarrow>
             pb_markers p = map_option (set_len_frames (ms_to_frames (env_sample_rate env) len)) (pb_markers (se_parts se)))))"
proof -
  have inv: "programs_inv se" using session.reachable_inv [OF refl assms] .
  have "\<exists>p cmds. dispatch nx env (InTrackStarted g pos playing len) se =
        Some (Inr (se\<lparr>se_parts := p, se_engine := se_engine se @ cmds\<rparr>)) \<and>
      set cmds \<subseteq> {EngLoopDisarm} \<and> pb_play_log p = pb_play_log (se_parts se) \<and>
      (\<forall>m. pb_markers p = Some m \<longrightarrow> tm_len_frames m = ms_to_frames (env_sample_rate env) len \<and>
         (\<forall>k\<in>set (tm_markers m). mk_position k \<le> ms_to_frames (env_sample_rate env) len)) \<and>
      (pb_awaiting_start (se_parts se) \<and> pb_marker_track (se_parts se) = track_of (q_current (se_queue se)) \<longrightarrow>
         pb_markers p = map_option (set_len_frames (ms_to_frames (env_sample_rate env) len)) (pb_markers (se_parts se)))"
    if "g < se_generation se" for g pos playing len
    by (rule stale_start) (use that inv in \<open>simp add: programs_inv_def\<close>)
  then show ?thesis using inv unfolding programs_inv_def by blast
qed

lemma listening_steps: "(session_step still)\<^sup>*\<^sup>* (session_new ()) listening"
proof -
  define s1 where "s1 = session_of (queue_command still (at_ms 0) (ReplaceContext (map song [1, 2, 3])) (session_new ()))"
  define s2 where "s2 = session_of (dispatch still (at_ms 0) InRegistered s1)"
  have 1: "queue_command still (at_ms 0) (ReplaceContext (map song [1, 2, 3])) (session_new ()) = Some (Inr s1)"
    unfolding s1_def by code_simp
  have 2: "dispatch still (at_ms 0) InRegistered s1 = Some (Inr s2)"
    unfolding s2_def s1_def by code_simp
  have 3: "dispatch still (at_ms 0) (InPlay True True True) s2 = Some (Inr listening)"
    unfolding listening_def s2_def s1_def by code_simp
  show ?thesis
    using session_step.queue_commanded [OF 1] session_step.dispatched [OF 2] session_step.dispatched [OF 3]
    by (meson rtranclp.intros)
qed

theorem program_generations_witness:
  "load_generations (se_sent listening) = [1] \<and>
   (\<exists>se' m. dispatch still (at_ms 0) (InTrackStarted 0 0 True 77000) listening = Some (Inr se') \<and>
     pb_markers (se_parts se') = Some m \<and> tm_len_frames m = 77)"
proof -
  have v: "se_generation listening = 1" "pb_awaiting_start (se_parts listening)"
    "pb_marker_track (se_parts listening) = track_of (q_current (se_queue listening))"
    "pb_markers (se_parts listening) \<noteq> None"
    by code_simp+
  have f: "ms_to_frames (env_sample_rate (at_ms 0)) 77000 = 77" by (simp add: at_ms_def ms_to_frames_def)
  have "0 < se_generation listening" using v(1) by simp
  then show ?thesis
    using program_generations [OF listening_steps, of "at_ms 0"] v f by fastforce
qed

section \<open>What the source is told\<close>

text \<open>The track the source is on: the first of the last program sent.\<close>

fun last_program :: "source_command list \<Rightarrow> program option" where
  "last_program [] = None"
| "last_program (c # cs) =
     (case last_program cs of Some p \<Rightarrow> Some p
      | None \<Rightarrow> (case c of SrcLoadProgram p \<Rightarrow> Some p | _ \<Rightarrow> None))"

lemma last_program_snoc [simp]: "last_program (cs @ [SrcLoadProgram p]) = Some p"
  by (induction cs) simp_all

definition told_track :: "'r session \<Rightarrow> track_id option" where
  "told_track se =
     (case last_program (se_sent se) of None \<Rightarrow> None
      | Some p \<Rightarrow> if pg_cursor_index p < length (pg_order p)
                  then Some (pg_order p ! pg_cursor_index p) else None)"

definition current_track :: "'r session \<Rightarrow> track_id option" where
  "current_track se = map_option (\<lambda>i. tr_id (qi_track i)) (q_current (se_queue se))"

text \<open>
  C16. A skip on the active device, in a well-formed queue whose items are distinct (which every call
  keeps but a reordering while shuffle is on), tells the source: the queue moves to the first available
  upcoming item, if there is one, one program is sent, it starts with that item's track at position 0 and lists the rest in
  the order shown, plays exactly when the user was playing, and carries the next generation; the
  transport knows the new track's length.
\<close>

theorem skip_tells_the_source:
  assumes "order_inv (se_queue se)" and "ts_active (se_transport se) = ActiveDevice"
    and "upcoming (se_queue se) = us @ x # xs" and "\<forall>i\<in>set us. qi_unavailable i" and "\<not> qi_unavailable x"
  shows "\<exists>se' p. dispatch nx env InSkipForward se = Some (Inr se') \<and>
    se_sent se' = se_sent se @ [SrcLoadProgram p] \<and>
    pg_order p = map (\<lambda>i. tr_id (qi_track i)) (x # xs) \<and> pg_cursor_index p = 0 \<and> pg_position_ms p = 0 \<and>
    pg_start_playing p = (ts_intent (se_transport se) = Playing) \<and>
    pg_generation p = se_generation se + 1 \<and> told_track se' = current_track se' \<and>
    ts_track_len_ms (se_transport se') = Some (tr_duration_ms (qi_track x))"
proof -
  obtain q ch ns where q: "apply_queue_op nx (OpAdvance Skip) (se_queue se) (se_rng se) =
      Some (Inr (q, ch, ns, Some (tr_duration_ms (qi_track x)), se_rng se))"
    "q_current q = Some x" "upcoming q = xs" "qc_playback ch = MoveTo (qi_uid x)"
    using apply_advance_lands [OF assms(1,3-5), of nx "se_rng se"] by blast
  have g: "gate (se_transport se) InSkipForward = None" using assms(2) by (simp add: gate_def)
  have order: "effective_order q = x # xs"
    using q(2,3) by (simp add: effective_order_def upcoming_def)
  have same: "set_transport (\<lambda>_. se_transport se) se = se"
    by (simp add: set_transport_def se_transport_def)
  have tr: "se_transport (set_transport f t) = f (se_transport t)" for f and t :: "'a session"
    by (simp add: set_transport_def se_transport_def)
  show ?thesis
    using q g order same
    by (simp add: dispatch_def numeral_3_eq_3 reduce_def queue_origin_of_def rule_queue_changed_def
        user_initiated_def load_current_program_def program_of_queue_def into_program_def send_def
        next_generation_def set_transport_def se_transport_def told_track_def current_track_def Let_def)
qed

theorem skip_tells_the_source_witness:
  "\<exists>se'. dispatch still (at_ms 300) InSkipForward listening = Some (Inr se') \<and>
     told_track se' = current_track se'"
proof -
  define x xs where "x = hd (upcoming (se_queue listening))" and "xs = tl (upcoming (se_queue listening))"
  have v: "order_inv (se_queue listening)" "ts_active (se_transport listening) = ActiveDevice"
    "upcoming (se_queue listening) = [] @ x # xs" "\<not> qi_unavailable x"
    unfolding x_def xs_def by code_simp+
  from skip_tells_the_source [OF v(1-3) _ v(4), of still "at_ms 300"] show ?thesis by auto
qed

section \<open>Where the source and the queue part\<close>

definition after_debounced :: "unit session" where
  "after_debounced =
     flush_pending_program (at_ms 300)
       (session_of (dispatch still (at_ms 120) InSkipForward
         (session_of (queue_command still (at_ms 100) (SetRepeat RepeatAll) listening))))"

text \<open>
  A debounced program outlives a skip: a queue change within 250 ms of the last program waits,
  a skip sends the new track at once, and the next tick then sends the waiting program, which
  starts with the track skipped away from. The source is back on the old track, the queue is not.
\<close>

lemma debounced_program_undoes_skip:
  "load_generations (se_sent after_debounced) = [1, 2, 3] \<and>
   current_track after_debounced = Some (TrackId [2]) \<and>
   told_track after_debounced = Some (TrackId [1])"
  by (intro conjI; code_simp)

definition after_replay :: "unit session" where
  "after_replay =
     flush_pending_program (at_ms 900)
       (session_of (queue_command still (at_ms 600) (ReplaceContext (map song [1, 2, 3]))
         (session_of (dispatch still (at_ms 300) InSkipForward listening))))"

text \<open>
  Playing the same list again after a skip sends nothing: the program compared against is the
  last one of the queue panel, not the one the skip sent, so the source stays on the skipped-to
  track while the queue shows the first; later ticks do not repair it.
\<close>

lemma replay_after_skip_is_not_sent:
  "load_generations (se_sent after_replay) = [1, 2] \<and> se_pending after_replay = None \<and>
   current_track after_replay = Some (TrackId [1]) \<and> told_track after_replay = Some (TrackId [2])"
  by (intro conjI; code_simp)

text \<open>
  Removing the last item while it plays empties the queue but says so to nobody: nothing is
  sent to the source or the engine, and the transport still means to play.
\<close>

lemma removing_last_item_keeps_playing:
  assumes "order_inv (se_queue se)" and "q_current (se_queue se) = Some c" and "upcoming (se_queue se) = []"
    and "q_repeat (se_queue se) \<noteq> RepeatAll"
  shows "\<exists>se'. queue_command nx env (Remove (qi_uid c)) se = Some (Inr se') \<and>
    q_current (se_queue se') = None \<and> se_sent se' = se_sent se \<and> se_engine se' = se_engine se \<and>
    se_transport se' = se_transport se \<and> se_pending se' = None"
proof -
  let ?q = "ensure_host_driven (se_queue se)"
  have same: "upcoming ?q = upcoming (se_queue se)" "q_current ?q = q_current (se_queue se)"
    "q_repeat ?q = q_repeat (se_queue se)" "q_mode ?q = HostDriven"
    by (simp_all add: ensure_host_driven_def upcoming_def upcoming_context_items_def context_start_def
        split: option.split)
  have "queue_inv ?q" "uids_distinct ?q"
    using assms(1) by (auto simp: order_inv_def ensure_host_driven_def queue_defs uids_distinct_def)
  then have "order_inv ?q" by (simp add: order_inv_def)
  from advance_loop_ends [OF this] same assms(3,4)
  have "advance_loop xorshift_next ?q (xorshift_from_seed 1) =
      Some (Inr (?q\<lparr>q_current := None\<rparr>, change False True EndOfQueue, xorshift_from_seed 1))"
    using assms(2) by simp
  then have "remove (qi_uid c) ?q = Some (Inr (?q\<lparr>q_current := None\<rparr>, change False True EndOfQueue))"
    using assms(2) same(2) by (simp add: remove_def current_is_def advance_seeded_def advance_internal_def)
  then show ?thesis
    using same(4) by (simp add: queue_command_def keep_rng_of_def sync_program_def program_of_queue_def se_transport_def)
qed

theorem removing_last_item_keeps_playing_witness:
  "\<exists>se. ts_intent (se_transport se) = Playing \<and>
     (\<exists>se'. queue_command still (at_ms 0) (Remove 0) se = Some (Inr se') \<and>
       q_current (se_queue se') = None \<and> ts_intent (se_transport se') = Playing)"
proof -
  define se where "se = session_of (dispatch still (at_ms 0) (InPlay True True True)
    (session_of (dispatch still (at_ms 0) InRegistered
      (session_of (queue_command still (at_ms 0) (AddContext [song 1]) (session_new ()))))))"
  define c where "c = hd (q_context (se_queue se))"
  have v: "order_inv (se_queue se)" "q_current (se_queue se) = Some c" "upcoming (se_queue se) = []"
    "q_repeat (se_queue se) \<noteq> RepeatAll" "qi_uid c = 0" "ts_intent (se_transport se) = Playing"
    unfolding c_def se_def by code_simp+
  from removing_last_item_keeps_playing [OF v(1-4), of still "at_ms 0"] v(5,6) show ?thesis by auto
qed

end
