(* ===== verification/Session_Markers.thy ===== *)
theory Session_Markers
  imports Session_Theorems
begin

text \<open>
  The markers of the current track in the session: a skip attaches what is stored for the new track, the
  report that the track has started cuts the markers to its length and marks them as changed, and the
  next tick writes them. For a file of a newer version of the program this overwrites what is stored.
\<close>

fun plain_effect :: "effect \<Rightarrow> bool" where
  "plain_effect (QueueEffect _) \<longleftrightarrow> False"
| "plain_effect (ApplyPendingTransferCommand _) \<longleftrightarrow> False"
| "plain_effect (RemoteSetShuffle _) \<longleftrightarrow> False"
| "plain_effect (RemoteSetRepeat _) \<longleftrightarrow> False"
| "plain_effect _ \<longleftrightarrow> True"

lemma next_generation_keeps [simp]:
  "se_parts (next_generation se) = se_parts se" "se_queue (next_generation se) = se_queue se"
  by (simp_all add: next_generation_def set_transport_def Let_def)

lemma plain_effect_keeps:
  "plain_effect e \<Longrightarrow> \<exists>se'. apply_effect nx env d org e se = Some (Inr se') \<and> se_parts se' = se_parts se \<and> se_queue se' = se_queue se"
  by (cases e) (auto simp: engine_def send_def load_current_program_def Let_def split: option.split)

lemma plain_effects_keep:
  "list_all plain_effect es \<Longrightarrow>
     \<exists>se'. apply_effects nx env d org es se = Some (Inr se') \<and> se_parts se' = se_parts se \<and> se_queue se' = se_queue se"
proof (induction es arbitrary: se)
  case (Cons e es)
  obtain se1 where 1: "apply_effect nx env d org e se = Some (Inr se1)" "se_parts se1 = se_parts se" "se_queue se1 = se_queue se"
    using plain_effect_keeps [of e] Cons.prems by force
  obtain se' where "apply_effects nx env d org es se1 = Some (Inr se')" "se_parts se' = se_parts se1" "se_queue se' = se_queue se1"
    using Cons.IH [of se1] Cons.prems by auto
  with 1 show ?case by simp
qed simp

lemma queue_changed_plain: "list_all plain_effect (snd (reduce s (InQueueChanged ch org)))"
  by (auto simp: reduce_def rule_queue_changed_def split: playback_change.split)

text \<open>A report of a moved queue, in a session: the effects, then what hangs on the track.\<close>

lemma queue_changed_dispatch:
  "\<exists>se1. dispatch_upto (Suc n) nx env (InQueueChanged ch org) se = Some (Inr (after_dispatch env (InQueueChanged ch org) se1)) \<and>
     se_parts se1 = se_parts se \<and> se_queue se1 = se_queue se"
proof -
  let ?r = "reduce (se_transport se) (InQueueChanged ch org)"
  let ?se = "set_transport (\<lambda>_. fst ?r) (se\<lparr>se_parts := note_local_transport_action env (InQueueChanged ch org) (se_parts se)\<rparr>)"
  obtain se1 where "apply_effects nx env (dispatch_upto n nx env) (queue_origin_of (InQueueChanged ch org)) (snd ?r) ?se = Some (Inr se1)"
    "se_parts se1 = se_parts ?se" "se_queue se1 = se_queue ?se"
    using plain_effects_keep [OF queue_changed_plain] by blast
  then show ?thesis
    by (intro exI [of _ se1]) (simp add: case_prod_beta Let_def note_local_transport_action_def set_transport_def)
qed

lemma skip_dispatch:
  assumes "order_inv (se_queue se)" and "ts_active (se_transport se) = ActiveDevice"
    and "upcoming (se_queue se) = us @ x # xs" and "\<forall>i\<in>set us. qi_unavailable i" and "\<not> qi_unavailable x"
  obtains se1 ch where
    "dispatch nx env InSkipForward se =
       Some (Inr (after_dispatch env InSkipForward (after_dispatch env (InQueueChanged ch UserSkipForward) se1)))"
    "q_current (se_queue se1) = Some x" "se_parts se1 = note_local_transport_action env InSkipForward (se_parts se)"
proof -
  obtain q ch ns where q: "apply_queue_op nx (OpAdvance Skip) (se_queue se) (se_rng se) =
      Some (Inr (q, ch, ns, Some (tr_duration_ms (qi_track x)), se_rng se))" "q_current q = Some x"
    using apply_advance_lands [OF assms(1,3-5), of nx "se_rng se"] by blast
  have r: "reduce (se_transport se) InSkipForward = (se_transport se, [QueueEffect (OpAdvance Skip)])"
    using assms(2) by (simp add: reduce_def gate_def)
  let ?mid = "set_transport (\<lambda>s. s\<lparr>ts_track_len_ms := Some (tr_duration_ms (qi_track x))\<rparr>)
      ((set_transport (\<lambda>_. se_transport se) (se\<lparr>se_parts := note_local_transport_action env InSkipForward (se_parts se)\<rparr>))
        \<lparr>se_queue := q, se_rng := se_rng se, se_skip_notices := se_skip_notices se @ ns\<rparr>)"
  obtain se1 where 1: "dispatch_upto (Suc 1) nx env (InQueueChanged ch UserSkipForward) ?mid =
      Some (Inr (after_dispatch env (InQueueChanged ch UserSkipForward) se1))"
    "se_parts se1 = se_parts ?mid" "se_queue se1 = se_queue ?mid"
    using queue_changed_dispatch by blast
  show thesis
  proof (rule that [of ch se1])
    show "dispatch nx env InSkipForward se =
       Some (Inr (after_dispatch env InSkipForward (after_dispatch env (InQueueChanged ch UserSkipForward) se1)))"
      unfolding dispatch_def numeral_3_eq_3 dispatch_upto.simps(2) [of "Suc (Suc 0)"]
      using 1(1) q r by (simp add: queue_origin_of_def set_transport_def Let_def del: dispatch_upto.simps)
  qed (use 1 q(2) in \<open>simp_all add: set_transport_def\<close>)
qed

text \<open>The first report for a track whose markers are not attached loads them.\<close>

definition loaded_markers :: "surroundings \<Rightarrow> queue_item \<Rightarrow> load_outcome" where
  "loaded_markers env x = env_load env (tr_id (qi_track x)) (max (env_sample_rate env) 1)
     (ms_to_frames (env_sample_rate env) (tr_duration_ms (qi_track x)))"

lemma attach_keeps [simp]:
  "pb_saves (attach_markers env c p) = pb_saves p" "pb_last_flush (attach_markers env c p) = pb_last_flush p"
  "pb_awaiting_start (attach_markers env c p) = pb_awaiting_start p"
  by (simp_all add: attach_markers_def Let_def split: option.split)

lemma flush_keeps [simp]:
  "pb_last_flush (flush_track_state env p) = pb_last_flush p" "pb_warnings (flush_track_state env p) = pb_warnings p"
  "pb_awaiting_start (flush_track_state env p) = pb_awaiting_start p"
  "pb_marker_track (flush_track_state env p) = pb_marker_track p"
  by (simp_all add: flush_track_state_def split: option.split)

lemma skip_attaches:
  assumes "order_inv (se_queue se)" and "ts_active (se_transport se) = ActiveDevice"
    and "upcoming (se_queue se) = us @ x # xs" and "\<forall>i\<in>set us. qi_unavailable i" and "\<not> qi_unavailable x"
    and other: "pb_marker_track (se_parts se) \<noteq> Some (tr_id (qi_track x))" and dir: "env_has_state_dir env"
  obtains se1 where "dispatch nx env InSkipForward se = Some (Inr se1)" "q_current (se_queue se1) = Some x"
    "pb_markers (se_parts se1) = Some (lo_state (loaded_markers env x))"
    "pb_marker_track (se_parts se1) = Some (tr_id (qi_track x))" "pb_awaiting_start (se_parts se1)"
    "pb_warnings (se_parts se1) = pb_warnings (se_parts se) @
       (case lo_warning (loaded_markers env x) of None \<Rightarrow> [] | Some w \<Rightarrow> [w])"
    "pb_last_flush (se_parts se1) = pb_last_flush (se_parts se)"
proof -
  obtain s0 ch where d: "dispatch nx env InSkipForward se =
       Some (Inr (after_dispatch env InSkipForward (after_dispatch env (InQueueChanged ch UserSkipForward) s0)))"
    "q_current (se_queue s0) = Some x" "se_parts s0 = note_local_transport_action env InSkipForward (se_parts se)"
    using skip_dispatch [OF assms(1-5)] by blast
  let ?s1 = "after_dispatch env (InQueueChanged ch UserSkipForward) s0"
  let ?s2 = "after_dispatch env InSkipForward ?s1"
  have t: "track_of (Some x) = Some (tr_id (qi_track x))" by (simp add: track_of_def)
  obtain p where p: "pb_marker_track p = pb_marker_track (se_parts se)" "pb_warnings p = pb_warnings (se_parts se)"
    "pb_last_flush p = pb_last_flush (se_parts se)"
    "se_parts ?s1 = note_track_change env (Some x) (refine_markers env (InQueueChanged ch UserSkipForward)
       (fst (sync_marker_attachment env (Some x) False p)))"
    using after_dispatch_parts [of s0 "InQueueChanged ch UserSkipForward" env] d(2,3) by auto
  have sync: "fst (sync_marker_attachment env (Some x) False p) =
      attach_markers env (Some x) (flush_track_state env (p\<lparr>pb_awaiting_start := True\<rparr>))"
    using other p(1) by (simp add: sync_marker_attachment_def t Let_def)
  have s1: "pb_markers (se_parts ?s1) = Some (lo_state (loaded_markers env x))"
    "pb_marker_track (se_parts ?s1) = Some (tr_id (qi_track x))" "pb_awaiting_start (se_parts ?s1)"
    "pb_warnings (se_parts ?s1) = pb_warnings (se_parts se) @ (case lo_warning (loaded_markers env x) of None \<Rightarrow> [] | Some w \<Rightarrow> [w])"
    "pb_last_flush (se_parts ?s1) = pb_last_flush (se_parts se)"
    using dir p(2,3) unfolding p(4) sync
    by (simp_all add: refine_markers_def) (simp_all add: attach_markers_def loaded_markers_def Let_def)
  obtain r where r: "pb_markers r = pb_markers (se_parts ?s1)" "pb_marker_track r = pb_marker_track (se_parts ?s1)"
    "pb_awaiting_start r = pb_awaiting_start (se_parts ?s1)" "pb_warnings r = pb_warnings (se_parts ?s1)"
    "pb_last_flush r = pb_last_flush (se_parts ?s1)"
    "se_parts ?s2 = note_track_change env (Some x) (refine_markers env InSkipForward
       (fst (sync_marker_attachment env (Some x) False r)))"
    using after_dispatch_parts [of ?s1 InSkipForward env] d(2) by auto
  have "fst (sync_marker_attachment env (Some x) False r) = r"
    using r(2) s1(2) by (simp add: sync_marker_attachment_def t)
  then show thesis using that [OF d(1)] r s1 d(2) by (simp add: refine_markers_def)
qed

lemma start_cuts_markers:
  assumes "pb_markers (se_parts se) = Some m" "pb_awaiting_start (se_parts se)"
    and "pb_marker_track (se_parts se) = track_of (q_current (se_queue se))" "q_current (se_queue se) \<noteq> None"
  obtains se' where "dispatch nx env (InTrackStarted g pos playing len) se = Some (Inr se')"
    "pb_markers (se_parts se') = Some (set_len_frames (ms_to_frames (env_sample_rate env) len) m)"
    "pb_warnings (se_parts se') = pb_warnings (se_parts se)" "pb_last_flush (se_parts se') = pb_last_flush (se_parts se)"
proof -
  let ?i = "InTrackStarted g pos playing len" and ?c = "q_current (se_queue se)"
  have gate: "gate (se_transport se) ?i = None"
    by (simp add: gate_def is_pause_or_stop_def split: active_state.split)
  obtain s' where "reduce (se_transport se) ?i = (s', [])" using gate by (simp add: reduce_def)
  then have d: "dispatch nx env ?i se = Some (Inr (after_dispatch env ?i (set_transport (\<lambda>_. s') se)))"
    by (simp add: dispatch_def numeral_3_eq_3 note_local_transport_action_def)
  obtain p where p: "pb_markers p = Some m" "pb_marker_track p = track_of ?c" "pb_awaiting_start p"
    "pb_warnings p = pb_warnings (se_parts se)" "pb_last_flush p = pb_last_flush (se_parts se)"
    "se_parts (after_dispatch env ?i (set_transport (\<lambda>_. s') se)) =
       note_track_change env ?c (refine_markers env ?i (fst (sync_marker_attachment env ?c True p)))"
    using after_dispatch_parts [of "set_transport (\<lambda>_. s') se" ?i env] assms by (auto simp: set_transport_def)
  show thesis
    by (rule that [OF d]) (use p sync_marker_awaited [of p ?c env True] assms(4) in \<open>simp_all add: refine_markers_def\<close>)
qed

lemma load_newer:
  assumes "length bs \<le> MAX_FILE_BYTES" "parse bs = Some v" "schema v = Some n" "SCHEMA_VERSION < n"
  shows "fst (load_track_state parse schema decode (FileBytes bs) i rate len tab) =
    \<lparr>lo_state = track_markers_new i rate len, lo_warning = Some NewerSchema, lo_rewrite_allowed = False\<rparr>"
  using assms by (simp add: load_track_state_def Let_def)

text \<open>
  C40. The stored markers of a track were written by a newer version of the program. The user skips to
  the track, the source reports that it has started, and at the next tick, a quarter of a second after
  the last write, the file is handed to the writer with no marker and no region, though the user changed
  nothing: the length that comes with the report marks the model as changed, and nothing looks at
  \<^verbatim>\<open>rewrite_allowed\<close>.
\<close>

theorem newer_file_overwritten:
  assumes "order_inv (se_queue se)" and "ts_active (se_transport se) = ActiveDevice"
    and "upcoming (se_queue se) = us @ x # xs" and "\<forall>i\<in>set us. qi_unavailable i" and "\<not> qi_unavailable x"
    and "pb_marker_track (se_parts se) \<noteq> Some (tr_id (qi_track x))" and "env_has_state_dir env"
    and stored: "\<And>rate len. env_load env (tr_id (qi_track x)) rate len =
        fst (load_track_state parse schema decode (FileBytes bs) (tr_id (qi_track x)) rate len tab)"
      "length bs \<le> MAX_FILE_BYTES" "parse bs = Some v" "schema v = Some n" "SCHEMA_VERSION < n"
    and tick: "env_has_state_dir env'"
      "case pb_last_flush (se_parts se) of None \<Rightarrow> True | Some t \<Rightarrow> t + TRACK_STATE_DEBOUNCE \<le> env_now env'"
  shows "\<exists>se1 se2 m. dispatch nx env InSkipForward se = Some (Inr se1) \<and>
    dispatch nx env (InTrackStarted (se_generation se1) pos playing len) se1 = Some (Inr se2) \<and>
    pb_warnings (se_parts se2) = pb_warnings (se_parts se) @ [NewerSchema] \<and>
    pb_saves (flush_track_state_if_due env' (se_parts se2)) = pb_saves (se_parts se2) @ [m] \<and>
    tm_track m = tr_id (qi_track x) \<and> tm_markers m = [] \<and> tm_regions m = []"
proof -
  let ?l = "loaded_markers env x"
  have l: "lo_warning ?l = Some NewerSchema" "tm_track (lo_state ?l) = tr_id (qi_track x)"
    "tm_markers (lo_state ?l) = []" "tm_regions (lo_state ?l) = []"
    by (simp_all add: loaded_markers_def stored(1) load_newer [of bs parse v schema n, OF stored(2-5)] track_markers_new_def)
  obtain se1 where 1: "dispatch nx env InSkipForward se = Some (Inr se1)" "q_current (se_queue se1) = Some x"
    "pb_markers (se_parts se1) = Some (lo_state ?l)" "pb_marker_track (se_parts se1) = Some (tr_id (qi_track x))"
    "pb_awaiting_start (se_parts se1)" "pb_warnings (se_parts se1) = pb_warnings (se_parts se) @ [NewerSchema]"
    "pb_last_flush (se_parts se1) = pb_last_flush (se_parts se)"
    using skip_attaches [OF assms(1-7), of nx] l(1) by (metis option.simps(5))
  have track: "pb_marker_track (se_parts se1) = track_of (q_current (se_queue se1))" by (simp add: 1(2,4) track_of_def)
  have cur: "q_current (se_queue se1) \<noteq> None" by (simp add: 1(2))
  obtain se2 where 2: "dispatch nx env (InTrackStarted (se_generation se1) pos playing len) se1 = Some (Inr se2)"
    "pb_markers (se_parts se2) = Some (set_len_frames (ms_to_frames (env_sample_rate env) len) (lo_state ?l))"
    "pb_warnings (se_parts se2) = pb_warnings (se_parts se1)" "pb_last_flush (se_parts se2) = pb_last_flush (se_parts se1)"
    using start_cuts_markers [OF 1(3,5) track cur] by blast
  let ?m = "set_len_frames (ms_to_frames (env_sample_rate env) len) (lo_state ?l)"
  have "tm_dirty ?m" by (simp add: set_len_frames_def touched_def)
  then have "pb_saves (flush_track_state_if_due env' (se_parts se2)) = pb_saves (se_parts se2) @ [?m]"
    using 2(2,4) 1(7) tick
    by (auto simp: flush_track_state_if_due_def flush_track_state_def le_diff_conv2 split: option.splits)
  moreover have "tm_track ?m = tr_id (qi_track x)" "tm_markers ?m = []" "tm_regions ?m = []"
    using l by (simp_all add: set_len_frames_def touched_def)
  ultimately show ?thesis using 1(1,6) 2(1,3) by auto
qed

text \<open>A second version of the file, while listening to the first of three tracks.\<close>

definition no_ids :: id_table where "no_ids = \<lparr>it_by_identifier = [], it_by_id = []\<rparr>"

definition newer_env :: surroundings where
  "newer_env = (at_ms 300)\<lparr>env_load := \<lambda>i rate len.
     fst (load_track_state (\<lambda>_. Some ()) (\<lambda>_. Some 2) (\<lambda>_. None) (FileBytes []) i rate len no_ids)\<rparr>"

lemma newer_file_overwritten_witness:
  "\<exists>se1 se2 m. dispatch still newer_env InSkipForward listening = Some (Inr se1) \<and>
    dispatch still newer_env (InTrackStarted (se_generation se1) 0 True 2000) se1 = Some (Inr se2) \<and>
    pb_saves (flush_track_state_if_due (at_ms 1000) (se_parts se2)) = pb_saves (se_parts se2) @ [m] \<and>
    tm_track m = TrackId [2] \<and> tm_markers m = []"
proof -
  define x xs where "x = hd (upcoming (se_queue listening))" and "xs = tl (upcoming (se_queue listening))"
  have v: "order_inv (se_queue listening)" "ts_active (se_transport listening) = ActiveDevice"
    "upcoming (se_queue listening) = [] @ x # xs" "\<not> qi_unavailable x"
    "pb_marker_track (se_parts listening) \<noteq> Some (tr_id (qi_track x))" "tr_id (qi_track x) = TrackId [2]"
    "pb_last_flush (se_parts listening) = None"
    unfolding x_def xs_def by code_simp+
  have e: "env_has_state_dir newer_env" "env_has_state_dir (at_ms 1000)"
    "env_load newer_env i rate len =
       fst (load_track_state (\<lambda>_. Some ()) (\<lambda>_. Some 2) (\<lambda>_. None) (FileBytes []) i rate len no_ids)" for i rate len
    by (simp_all add: newer_env_def at_ms_def)
  show ?thesis
    using newer_file_overwritten [OF v(1-3) _ v(4,5) e(1,3) _ refl refl _ e(2), of still 0 True 2000] v(6,7)
    by (auto simp: MAX_FILE_BYTES_def SCHEMA_VERSION_def)
qed

end
