(* ===== verification/Markers_Theorems.thy ===== *)
theory Markers_Theorems
  imports Markers_Machine
begin

text \<open>
  The properties of the marker model, on the states a sequence of calls reaches from a new track.
\<close>

definition run_markers :: "(nat \<Rightarrow> ustring) \<Rightarrow> marker_call list \<Rightarrow> track_markers \<Rightarrow> track_markers" where
  "run_markers pn cs t = fold (call_marker pn) cs t"

definition no_name :: "nat \<Rightarrow> ustring" where
  "no_name n = []"

definition demo_song :: track_id where
  "demo_song = TrackId [1]"

text \<open>Two regions on a track of 10 frames, the first one armed.\<close>

definition demo_marked :: track_markers where
  "demo_marked = run_markers no_name
     [NewLoopRegionOwned 2 4 OwnerHost False, NewLoopRegionOwned 9 6 OwnerHost False, Arm 1]
     (track_markers_new demo_song 0 10)"

lemma run_markers_steps: "(marker_step pn)\<^sup>*\<^sup>* t (run_markers pn cs t)"
proof (induction cs arbitrary: t)
  case (Cons c cs)
  have "marker_step pn t (call_marker pn c t)" by (auto simp: marker_step_def)
  with Cons show ?case by (simp add: run_markers_def converse_rtranclp_into_rtranclp)
qed (simp add: run_markers_def)

lemma run_markers_good: "markers_good (run_markers pn cs (track_markers_new track rate len))"
  by (rule markers.reachable_inv [OF _ run_markers_steps]) (auto simp: markers_new_def)

lemmas run_markers_inv = run_markers_good [unfolded markers_good_def, THEN conjunct1]

lemma span_ordered:
  assumes inv: "markers_inv t" and r: "r \<in> set (tm_regions t)" and "region_span t r = Some (a, b)"
  shows "a \<le> b"
proof -
  obtain i j where ij: "lr_a r = Some i" "lr_b r = Some j" "position_of t i = Some a" "position_of t j = Some b"
    using assms(3) by (auto simp: region_span_def split: option.splits)
  have "region_by_id t (lr_id r) = Some r" using region_by_id_eq [OF inv_core [OF inv] r] .
  then obtain x y where "x \<in> set (tm_markers t)" "mk_id x = i" "mk_kind x = RegionStart (lr_id r)"
    "y \<in> set (tm_markers t)" "mk_id y = j" "mk_kind y = RegionEnd (lr_id r)"
    using endpoint_marker [OF inv_core [OF inv], of _ r True i] endpoint_marker [OF inv_core [OF inv], of _ r False j] ij
    by (auto simp: endpoint_kind_def) metis
  then show ?thesis
    using inv_ordered [OF inv, of "lr_id r"] position_of_eq [OF inv_core [OF inv]] ij
    unfolding endpoints_ordered_def by fastforce
qed

lemma one_cue:
  assumes "markers_core t" "m \<in> set (tm_markers t)" "m' \<in> set (tm_markers t)" "mk_kind m = Cue s" "mk_kind m' = Cue s"
  shows "m = m'"
proof -
  have "mk_id m = mk_id m'"
    using core_parts(5) [OF assms(1)] role_in [OF assms(2)] role_in [OF assms(3)] assms(4,5)
    unfolding cues_ok_def by metis
  then show ?thesis using key_unique [OF core_ids(1) [OF assms(1)] assms(2,3)] by simp
qed

lemma one_armed:
  assumes "markers_core t" "r \<in> set (tm_regions t)" "r' \<in> set (tm_regions t)" "lr_armed r" "lr_armed r'"
  shows "r = r'"
proof -
  have "lr_id r = lr_id r'" using core_parts(4) [OF assms(1)] assms(2-) unfolding armed_ok_def by blast
  then show ?thesis using key_unique [OF core_ids(2) [OF assms(1)] assms(2,3)] by simp
qed

lemma roles_of_iff: "(i, k) \<in> roles_of t \<longleftrightarrow> (\<exists>m\<in>set (tm_markers t). mk_id m = i \<and> mk_kind m = k)"
  by (auto simp: roles_of_def role_def)

section \<open>Invariants\<close>

text \<open>
  C15. Whatever sequence of marker calls runs on a new track, the documented invariants I1 and I3 to I8
  hold. (I1) There are at most 64 markers and their identifiers are unique. (I3) The endpoints of a
  region are the markers whose kind says so, both ways, every endpoint kind names a region there is, and
  the endpoints of a complete region are in order. (I4) Every position is inside the track. (I5) A cue
  slot has one marker. (I6) At most one region is armed. (I7) Arming succeeds only for a region that is
  armable, and an armed region stays complete; it does not always stay as long as arming demands, see
  \<open>shrunk_region_stays_armed\<close>. (I8) There is a current region exactly when there is a region.
\<close>
theorem markers_reachable_invariant:
  assumes "t = run_markers pn cs (track_markers_new track rate len)"
  shows "distinct (map mk_id (tm_markers t)) \<and> length (tm_markers t) \<le> MAX_MARKERS \<and>
    (\<forall>r\<in>set (tm_regions t). \<forall>i.
       (lr_a r = Some i \<longleftrightarrow> (\<exists>m\<in>set (tm_markers t). mk_id m = i \<and> mk_kind m = RegionStart (lr_id r))) \<and>
       (lr_b r = Some i \<longleftrightarrow> (\<exists>m\<in>set (tm_markers t). mk_id m = i \<and> mk_kind m = RegionEnd (lr_id r)))) \<and>
    (\<forall>m\<in>set (tm_markers t). \<forall>g. mk_kind m = RegionStart g \<or> mk_kind m = RegionEnd g \<longrightarrow>
       g \<in> lr_id ` set (tm_regions t)) \<and>
    (\<forall>r\<in>set (tm_regions t). \<forall>a b. region_span t r = Some (a, b) \<longrightarrow> a \<le> b) \<and>
    (\<forall>m\<in>set (tm_markers t). mk_position m \<le> tm_len_frames t) \<and>
    (\<forall>m\<in>set (tm_markers t). \<forall>m'\<in>set (tm_markers t). \<forall>s.
       mk_kind m = Cue s \<and> mk_kind m' = Cue s \<longrightarrow> m = m') \<and>
    (\<forall>r\<in>set (tm_regions t). \<forall>r'\<in>set (tm_regions t). lr_armed r \<and> lr_armed r' \<longrightarrow> r = r') \<and>
    (\<forall>r\<in>set (tm_regions t). lr_armed r \<longrightarrow> is_complete r) \<and>
    (\<forall>g. snd (arm g t) = Inr () \<longrightarrow>
       (\<exists>r. region_by_id t g = Some r \<and> is_armable t (tm_sample_rate t) r)) \<and>
    (case tm_current_region t of None \<Rightarrow> tm_regions t = []
     | Some g \<Rightarrow> g \<in> lr_id ` set (tm_regions t))"
proof -
  have inv: "markers_inv t" and cur: "current_ok t"
    using run_markers_good [of pn cs track rate len] by (simp_all add: assms markers_good_def)
  note core = inv_core [OF inv]
  have "\<forall>r\<in>set (tm_regions t). lr_armed r \<longrightarrow> is_complete r"
    using core_parts(4) [OF core] by (simp only: armed_ok_def) blast
  moreover have "case tm_current_region t of None \<Rightarrow> tm_regions t = []
     | Some g \<Rightarrow> g \<in> lr_id ` set (tm_regions t)"
    using cur core_parts(3) [OF core] by (simp add: current_ok_def split: option.split)
  moreover have "\<forall>r\<in>set (tm_regions t). \<forall>i.
       (lr_a r = Some i \<longleftrightarrow> (\<exists>m\<in>set (tm_markers t). mk_id m = i \<and> mk_kind m = RegionStart (lr_id r))) \<and>
       (lr_b r = Some i \<longleftrightarrow> (\<exists>m\<in>set (tm_markers t). mk_id m = i \<and> mk_kind m = RegionEnd (lr_id r)))"
    using linked_region [OF core_linked [OF core]] unfolding region_linked_def roles_of_iff by blast
  moreover have "\<forall>m\<in>set (tm_markers t). \<forall>g. mk_kind m = RegionStart g \<or> mk_kind m = RegionEnd g \<longrightarrow>
       g \<in> lr_id ` set (tm_regions t)"
    using linked_kind [OF core_linked [OF core] role_in] by fastforce
  moreover have "\<forall>g. snd (arm g t) = Inr () \<longrightarrow>
       (\<exists>r. region_by_id t g = Some r \<and> is_armable t (tm_sample_rate t) r)"
    by (auto simp: arm_def is_armable_def region_span_def split: option.splits if_splits)
  ultimately show ?thesis
    using core_ids(1) [OF core] core_parts(2,6) [OF core] one_cue [OF core] one_armed [OF core]
      span_ordered [OF inv] by blast
qed

lemma demo_marked_value:
  "map mk_position (tm_markers demo_marked) = [2, 4, 6, 9] \<and>
   map lr_armed (tm_regions demo_marked) = [True, False] \<and> tm_current_region demo_marked = Some 1"
  by code_simp

lemma markers_reachable_invariant_witness:
  "length (tm_markers demo_marked) = 4 \<and> list_all (\<lambda>m. mk_position m \<le> 10) (tm_markers demo_marked)"
proof -
  have "tm_len_frames demo_marked = 10" by code_simp
  moreover have "length (tm_markers demo_marked) = 4" using arg_cong [of _ _ length] demo_marked_value by force
  ultimately show ?thesis using markers_reachable_invariant [OF demo_marked_def] by (auto simp: list_all_iff)
qed

text \<open>
  The marker list stays sorted by position and identifier through every call but the change of
  the track's length.
\<close>
lemma markers_stay_sorted:
  assumes "\<forall>c\<in>set cs. \<forall>len. c \<noteq> SetLenFrames len"
  shows "sorted (map marker_order (tm_markers (run_markers pn cs (track_markers_new track rate len))))"
proof -
  have "markers_sorted (run_markers pn cs t)" if "markers_sorted t" for t
    using assms that unfolding run_markers_def
    by (induction cs arbitrary: t) (simp_all add: call_marker_sorted)
  moreover have "markers_sorted (track_markers_new track rate len)"
    by (simp add: markers_sorted_def track_markers_new_def)
  ultimately show ?thesis by (simp add: markers_sorted_def)
qed

lemma markers_stay_sorted_witness:
  "sorted (map marker_order (tm_markers demo_marked)) \<and>
   map mk_position (tm_markers demo_marked) = [2, 4, 6, 9]"
  using markers_stay_sorted [of _ no_name demo_song 0 10] demo_marked_value
  unfolding demo_marked_def by auto

text \<open>
  Shortening the track clamps the markers in place without sorting again: two points at 6
  and 5 created in this order end up at the same position in the wrong order,
  so the documented order by position and identifier is lost.
\<close>
lemma resize_loses_order:
  "let t = run_markers no_name [AddPoint 6 OwnerHost False, AddPoint 5 OwnerHost False, SetLenFrames 4]
             (track_markers_new demo_song 0 10)
   in map marker_order (tm_markers t) = [(4, 2), (4, 1)]"
  by (simp add: run_markers_def track_markers_new_def add_point_owned_def alloc_marker_id_def push_marker_def
      new_marker_def default_name_for_def MAX_MARKERS_def touched_def resort_def set_len_frames_def
      clamp_marker_def marker_order_def)

section \<open>Arming\<close>

lemma find_map_unique:
  assumes "distinct (map k xs)" and "x \<in> set xs" and "\<And>y. y \<in> set xs \<Longrightarrow> P (f y) \<longleftrightarrow> k y = k x"
  shows "find P (map f xs) = Some (f x)"
  using assms by (induction xs) (auto simp: image_iff)

lemma filter_map_unique:
  assumes "distinct (map k xs)" and "x \<in> set xs" and "\<And>y. y \<in> set xs \<Longrightarrow> P (f y) \<longleftrightarrow> k y = k x"
  shows "filter P (map f xs) = [f x]"
  using assms
proof (induction xs)
  case (Cons y ys)
  show ?case
  proof (cases "x = y")
    case True
    then have "\<not> P (f z)" if "z \<in> set ys" for z
      using Cons.prems(1) Cons.prems(3) [of z] that by (auto simp: image_iff)
    with True Cons.prems show ?thesis by (simp add: filter_empty_conv)
  next
    case False
    then have "x \<in> set ys" "\<not> P (f y)" using Cons.prems by force+
    with Cons show ?thesis by simp
  qed
qed simp

text \<open>
  Arming, on every branch and after any sequence of calls: an unknown region, an incomplete one
  and one that is too short are refused without any change; otherwise the region is the armed one,
  with its wraps counted from zero, no other region is armed, it is current, and no marker moves.
\<close>
lemma arm_outcome:
  assumes "t = run_markers pn cs (track_markers_new track rate len)"
  shows "case region_by_id t g of
      None \<Rightarrow> arm g t = (t, Inl NotFound)
    | Some r \<Rightarrow>
        if \<not> is_complete r then arm g t = (t, Inl RegionIncomplete)
        else if \<not> is_armable t (tm_sample_rate t) r then arm g t = (t, Inl RegionTooShort)
        else \<exists>t'. arm g t = (t', Inr ()) \<and>
               armed_region t' = Some (r\<lparr>lr_armed := True, lr_wraps := 0\<rparr>) \<and>
               filter lr_armed (tm_regions t') = [r\<lparr>lr_armed := True, lr_wraps := 0\<rparr>] \<and>
               tm_current_region t' = Some g \<and> tm_markers t' = tm_markers t"
proof -
  have core: "markers_core t" using inv_core [OF run_markers_inv] by (simp add: assms)
  show ?thesis
    using core
  proof (cases rule: arm_cases [of t g])
    case missing
    then have "region_by_id t g = None" using region_by_idD by (cases "region_by_id t g") fastforce+
    with missing show ?thesis by simp
  next
    case (short r a b)
    then have "is_complete r" by (auto simp: region_span_def is_complete_def split: option.splits)
    with short show ?thesis by simp
  next
    case (armed r a b)
    note r = region_by_idD [OF armed(1)]
    let ?r = "r\<lparr>lr_armed := True, lr_wraps := 0\<rparr>"
    have ar: "arm_region g r = ?r" using r by (simp add: arm_region_def)
    have "find lr_armed (map (arm_region g) (tm_regions t)) = Some ?r"
      using find_map_unique [OF core_ids(2) [OF core], of r lr_armed "arm_region g"] r ar by simp
    moreover have "filter lr_armed (map (arm_region g) (tm_regions t)) = [?r]"
      using filter_map_unique [OF core_ids(2) [OF core], of r lr_armed "arm_region g"] r ar by simp
    ultimately show ?thesis using armed by (simp add: armed_region_def)
  qed simp
qed

lemma arm_outcome_witness:
  "\<exists>r t'. region_by_id demo_marked 2 = Some r \<and> arm 2 demo_marked = (t', Inr ()) \<and>
     filter lr_armed (tm_regions t') = [r\<lparr>lr_armed := True, lr_wraps := 0\<rparr>]"
proof -
  have v: "map_option is_complete (region_by_id demo_marked 2) = Some True"
    "map_option (is_armable demo_marked (tm_sample_rate demo_marked)) (region_by_id demo_marked 2) = Some True"
    by code_simp+
  then obtain r where r: "region_by_id demo_marked 2 = Some r" by auto
  with v have "is_complete r" "is_armable demo_marked (tm_sample_rate demo_marked) r" by auto
  with r show ?thesis using arm_outcome [OF demo_marked_def, of 2] by auto
qed

section \<open>Placing an endpoint\<close>

text \<open>Where the markers are: identifiers with positions. Most changes keep it.\<close>

definition places :: "track_markers \<Rightarrow> (marker_id \<times> nat) set" where
  "places t = (\<lambda>m. (mk_id m, mk_position m)) ` set (tm_markers t)"

lemma places_frames [simp]:
  "places (touched t) = places t" "places (resort t) = places t" "places (update_region g k t) = places t"
  "places (t\<lparr>tm_current_region := c\<rparr>) = places t" "places (t\<lparr>tm_next_marker_id := n\<rparr>) = places t"
  "places (push_marker m t) = insert (mk_id m, mk_position m) (places t)"
  by (simp_all add: places_def update_region_def push_marker_def)

lemma places_update_kind: "places (update_marker i (\<lambda>m. m\<lparr>mk_kind := k\<rparr>) t) = places t"
proof -
  have "map (\<lambda>m. (mk_id m, mk_position m)) (tm_markers (update_marker i (\<lambda>m. m\<lparr>mk_kind := k\<rparr>) t)) =
      map (\<lambda>m. (mk_id m, mk_position m)) (tm_markers t)"
    by (simp add: update_marker_def)
  then show ?thesis unfolding places_def by (metis set_map)
qed

lemma places_swap [simp]: "places (maybe_swap_region_endpoints g t) = places t"
  by (simp add: maybe_swap_region_endpoints_def places_update_kind split: option.split)

lemma places_moved:
  assumes "markers_core t" and "marker_by_id t i = Some m"
  shows "places (update_marker i (moved_to p) t) = insert (i, p) {x \<in> places t. fst x \<noteq> i}"
proof -
  let ?h = "\<lambda>m. if mk_id m = i then moved_to p m else m"
  have m: "m \<in> set (tm_markers t)" "mk_id m = i" using marker_by_idD [OF assms(2)] by auto
  have "places (update_marker i (moved_to p) t) = (\<lambda>m. (mk_id (?h m), mk_position (?h m))) ` set (tm_markers t)"
    unfolding places_def markers_update [OF assms(1)] image_image ..
  also have "\<dots> = insert (i, p) {x \<in> places t. fst x \<noteq> i}"
    using m by (auto simp: places_def split: if_splits)
  finally show ?thesis .
qed

lemma current_swap [simp]: "tm_current_region (maybe_swap_region_endpoints g t) = tm_current_region t"
  by (simp add: maybe_swap_region_endpoints_def update_region_def update_marker_def split: option.split)

text \<open>
  Setting a loop point of a known region, when the region has that endpoint or the limit is
  not reached: the call succeeds, the named marker is at the requested position clamped to the
  track, no other marker moves, the region is current, and the endpoints are in order again.
\<close>
lemma set_loop_places_endpoint:
  assumes t: "t = run_markers pn cs (track_markers_new track rate len)" and r: "region_by_id t g = Some r"
    and room: "(if w then lr_a r else lr_b r) \<noteq> None \<or> length (tm_markers t) < MAX_MARKERS"
  shows "\<exists>t' i. set_loop_endpoint_owned (Some g) w pos who t = (t', Inr (g, i)) \<and>
    position_of t' i = Some (min pos (tm_len_frames t)) \<and>
    places t' = insert (i, min pos (tm_len_frames t)) {x \<in> places t. fst x \<noteq> i} \<and>
    tm_current_region t' = Some g \<and>
    (\<forall>r'\<in>set (tm_regions t'). \<forall>a b. region_span t' r' = Some (a, b) \<longrightarrow> a \<le> b)"
proof -
  let ?p = "min pos (tm_len_frames t)"
  have inv: "markers_inv t" using run_markers_inv by (simp add: t)
  note core = inv_core [OF inv]
  let ?res = "set_loop_endpoint_owned (Some g) w pos who t"
  have inv': "markers_inv (fst ?res)" by (rule set_loop_endpoint_owned_inv [OF inv])
  have mv: "(\<lambda>m. m\<lparr>mk_position := ?p, mk_clamped := False\<rparr>) = moved_to ?p"
    by (rule ext) (simp add: moved_to_def)
  have res: "?res = place_endpoint g w ?p who t" using r by (simp add: set_loop_endpoint_owned_def)
  have "\<exists>t' i. ?res = (t', Inr (g, i)) \<and> places t' = insert (i, ?p) {x \<in> places t. fst x \<noteq> i} \<and>
      tm_current_region t' = Some g"
  proof (cases "if w then lr_a r else lr_b r")
    case (Some i)
    obtain m where m: "m \<in> set (tm_markers t)" "mk_id m = i"
      using endpoint_marker [OF core r Some] .
    then have "marker_by_id t i = Some m" using marker_by_id_eq [OF core] by blast
    from places_moved [OF core this] show ?thesis
      unfolding res place_endpoint_def r by (simp add: Some mv Let_def)
  next
    case None
    have new: "{x \<in> places t. fst x \<noteq> tm_next_marker_id t} = places t"
      using core_fresh_marker [OF core] by (fastforce simp: places_def)
    show ?thesis
      using room None unfolding res place_endpoint_def r
      by (simp add: Let_def alloc_marker_id_def new)
  qed
  then obtain t' i where t': "?res = (t', Inr (g, i))" "places t' = insert (i, ?p) {x \<in> places t. fst x \<noteq> i}"
    "tm_current_region t' = Some g" by blast
  then have "(i, ?p) \<in> places t'" by simp
  then obtain m where "m \<in> set (tm_markers t')" "mk_id m = i" "mk_position m = ?p"
    unfolding places_def by auto
  then have "position_of t' i = Some ?p"
    using position_of_eq [OF inv_core [OF inv']] t'(1) by fastforce
  with t' show ?thesis using span_ordered [OF inv'] by auto
qed

lemma set_loop_places_endpoint_witness:
  "\<exists>t' i. set_loop_endpoint_owned (Some 2) False 1 OwnerHost demo_marked = (t', Inr (2, i)) \<and>
     position_of t' i = Some 1"
proof -
  have "map_option (\<lambda>r. lr_b r \<noteq> None) (region_by_id demo_marked 2) = Some True" by code_simp
  then obtain r where r: "region_by_id demo_marked 2 = Some r" "lr_b r \<noteq> None" by auto
  have "tm_len_frames demo_marked = 10" by code_simp
  then show ?thesis
    using set_loop_places_endpoint [OF demo_marked_def r(1), of False 1 OwnerHost] r(2) by auto
qed

section \<open>Where the code leaves its contract\<close>

text \<open>
  A region stays armed when its track is shortened, even if nothing of it is left: the armed
  loop then has length zero, below the minimum that arming demands.
\<close>
lemma shrunk_region_stays_armed:
  "let t = run_markers no_name [NewLoopRegionOwned 5 9 OwnerHost False, Arm 1, SetLenFrames 4]
             (track_markers_new demo_song 0 10)
   in map_option (region_span t) (armed_region t) = Some (Some (4, 4)) \<and>
      map_option (is_armable t (tm_sample_rate t)) (armed_region t) = Some False"
  by code_simp

end
