(* ===== verification/Marker_Store_Theorems.thy ===== *)
theory Marker_Store_Theorems
  imports Marker_Store Markers_Theorems
begin

text \<open>
  What is saved is what is loaded: track identifiers through file names, and markers through the
  records of the state file.
\<close>

section \<open>File names\<close>

lemma hex_digit_back: "d < 16 \<Longrightarrow> to_hex_digit (hex_digit d) = Some d"
  by (auto simp: to_hex_digit_def hex_digit_def)

lemma hex_digit_ascii: "d < 16 \<Longrightarrow> hex_digit d < 128"
  by (auto simp: hex_digit_def)

lemma decode_pairs_encoded:
  "\<forall>b\<in>set bs. b < 128 \<Longrightarrow>
   decode_pairs (concat (map (\<lambda>b. [hex_digit (b div 16), hex_digit (b mod 16)]) bs)) = Some bs"
proof (induction bs)
  case (Cons b bs)
  then have "b div 16 < 16" by auto
  then show ?case using Cons by (simp add: hex_digit_back)
qed simp

lemma utf8_bytes_ascii: "\<forall>c\<in>set s. c < 128 \<Longrightarrow> utf8_bytes s = length s"
  by (induction s) (auto simp: utf8_bytes_def)

lemma encoded_bytes:
  assumes "\<forall>b\<in>set bs. b < 128"
  shows "utf8_bytes (concat (map (\<lambda>b. [hex_digit (b div 16), hex_digit (b mod 16)]) bs)) = 2 * length bs"
proof -
  have "hex_digit (b div 16) < 128" "hex_digit (b mod 16) < 128" if "b \<in> set bs" for b
    using assms that by (auto intro!: hex_digit_ascii)
  then have "\<forall>c\<in>set (concat (map (\<lambda>b. [hex_digit (b div 16), hex_digit (b mod 16)]) bs)). c < 128" by auto
  moreover have "length (concat (map (\<lambda>b. [hex_digit (b div 16), hex_digit (b mod 16)]) xs)) = 2 * length xs"
    for xs :: "nat list" by (induction xs) auto
  ultimately show ?thesis using utf8_bytes_ascii by simp
qed

text \<open>
  A track identifier survives the file name of its state: decoding the name the encoder gives
  it returns that very identifier.
\<close>
lemma track_id_file_name_roundtrip:
  assumes "track_id_new uri = Some i"
  shows "decode_track_id (encode_track_id i) = Some i"
proof -
  have i: "i = TrackId uri" "\<forall>b\<in>set uri. b < 128"
    using assms by (auto simp: track_id_new_def is_ascii_def list_all_iff split: if_splits)
  then show ?thesis
    using assms by (simp add: decode_track_id_def encode_track_id_def decode_pairs_encoded encoded_bytes)
qed

lemma track_id_file_name_roundtrip_witness:
  "encode_track_id (TrackId [65, 122]) = [52, 49, 55, 97] \<and>
   decode_track_id (encode_track_id (TrackId [65, 122])) = Some (TrackId [65, 122])"
proof -
  have "track_id_new [65, 122] = Some (TrackId [65, 122])" by (simp add: track_id_new_def is_ascii_def)
  from track_id_file_name_roundtrip [OF this] show ?thesis
    by (simp add: encode_track_id_def hex_digit_def)
qed

text \<open>
  A file name with a character that is no hexadecimal digit is not always refused, as it is
  documented to be: an odd last character of two bytes makes the byte length even and is then left
  out, so the name \<open>41\<close> followed by an accented letter decodes to the track \<open>A\<close>.
\<close>
lemma odd_character_is_ignored:
  "decode_track_id [52, 49, 233] = Some (TrackId [65]) \<and> to_hex_digit 233 = None"
  by (simp add: decode_track_id_def utf8_bytes_def to_hex_digit_def track_id_new_def is_ascii_def)
section \<open>Save and load\<close>

text \<open>What the types of the code guarantee of the stored fields.\<close>

definition fields_ok :: "track_markers \<Rightarrow> bool" where
  "fields_ok t \<longleftrightarrow>
     list_all (\<lambda>m. mk_color m \<le> 7 \<and>
       (case mk_kind m of Cue (CueSlot n) \<Rightarrow> 1 \<le> n \<and> n \<le> 8 | _ \<Rightarrow> True)) (tm_markers t) \<and>
     list_all (\<lambda>r. lr_crossfade_ms r \<le> 50 \<and>
       (case lr_repeat r of Infinite \<Rightarrow> True | Times n \<Rightarrow> 1 \<le> n \<and> n \<le> 1000)) (tm_regions t)"

text \<open>The owner is the host or a plugin of the table, under the identifier it was interned with.\<close>

definition owner_known :: "id_table \<Rightarrow> owner \<Rightarrow> bool" where
  "owner_known tab who \<longleftrightarrow>
     (case who of OwnerHost \<Rightarrow> True
      | OwnerPlugin i \<Rightarrow>
          (case identifier_of tab i of None \<Rightarrow> False
           | Some s \<Rightarrow> map_of (it_by_identifier tab) s = Some i \<and> plugin_identifier_parse s = Some s))"

definition unclamped :: "marker \<Rightarrow> marker" where
  "unclamped m = m\<lparr>mk_clamped := False\<rparr>"

definition rested :: "loop_region \<Rightarrow> loop_region" where
  "rested r = r\<lparr>lr_armed := False, lr_wraps := 0\<rparr>"

lemma plugin_name_not_host: "plugin_identifier_parse s = Some p \<Longrightarrow> p = s \<and> s \<noteq> [] \<and> s \<noteq> host_name"
  by (auto simp: plugin_identifier_parse_def host_name_def utf_def Let_def split: if_splits)

lemma owner_roundtrip: "owner_known tab who \<Longrightarrow> owner_from_dto (owner_to_dto who tab) tab = (who, tab)"
  by (cases who)
    (auto simp: owner_known_def owner_to_dto_def owner_from_dto_def intern_def dest: plugin_name_not_host
      split: option.splits)

lemma marker_roundtrip:
  "\<not> mk_transient m \<Longrightarrow> mk_color m \<le> 7 \<Longrightarrow> mk_position m \<le> len \<Longrightarrow>
   marker_from_dto rate rate len (mk_kind m) (mk_owner m) (marker_to_dto tab m) = unclamped m"
  by (simp add: marker_from_dto_def marker_to_dto_def rescale_def palette_new_def unclamped_def Let_def)

lemma kind_roundtrip:
  assumes "\<And>g. region_of_kind k = Some g \<Longrightarrow> g \<in> R" and "\<And>s. k = Cue s \<Longrightarrow> s \<notin> seen"
    and "case k of Cue (CueSlot n) \<Rightarrow> 1 \<le> n \<and> n \<le> 8 | _ \<Rightarrow> True"
  shows "kind_from_dto R seen (kind_to_dto k) = Some k"
  using assms by (cases k) (auto simp: kind_from_dto_def cue_slot_new_def split: cue_slot.splits)

lemma load_markers_saved:
  assumes "\<forall>m\<in>set ms. \<not> mk_transient m \<and> mk_color m \<le> 7 \<and> mk_position m \<le> len \<and> owner_known tab (mk_owner m) \<and>
      (\<forall>g. region_of_kind (mk_kind m) = Some g \<longrightarrow> g \<in> R) \<and>
      (case mk_kind m of Cue (CueSlot n) \<Rightarrow> 1 \<le> n \<and> n \<le> 8 | _ \<Rightarrow> True) \<and>
      (\<forall>s. mk_kind m = Cue s \<longrightarrow> s \<notin> seen)"
    and "\<forall>m\<in>set ms. \<forall>m'\<in>set ms. \<forall>s. mk_kind m = Cue s \<and> mk_kind m' = Cue s \<longrightarrow> m = m'"
    and "distinct ms" and "length acc + length ms \<le> MAX_MARKERS"
  shows "load_markers R rate rate len (map (marker_to_dto tab) ms) acc seen tab = (acc @ map unclamped ms, tab)"
  using assms
proof (induction ms arbitrary: acc seen)
  case (Cons m ms)
  let ?seen = "case mk_kind m of Cue slot \<Rightarrow> insert slot seen | _ \<Rightarrow> seen"
  have k: "kind_from_dto R seen (md_kind (marker_to_dto tab m)) = Some (mk_kind m)"
    unfolding marker_to_dto_def marker_dto.simps using Cons.prems(1) by (intro kind_roundtrip) simp_all
  have o: "owner_from_dto (md_owner (marker_to_dto tab m)) tab = (mk_owner m, tab)"
    using Cons.prems(1) by (simp add: marker_to_dto_def owner_roundtrip)
  have "s \<notin> ?seen" if "x \<in> set ms" "mk_kind x = Cue s" for x s
  proof -
    have "s \<notin> seen" using Cons.prems(1) that by simp
    moreover have "mk_kind m \<noteq> Cue s"
      using Cons.prems(2,3) that by auto
    ultimately show ?thesis by (auto split: marker_kind.split)
  qed
  then have "load_markers R rate rate len (map (marker_to_dto tab) ms) (acc @ [unclamped m]) ?seen tab =
      ((acc @ [unclamped m]) @ map unclamped ms, tab)"
    using Cons.prems by (intro Cons.IH) auto
  then show ?case
    using Cons.prems k o by (simp add: marker_roundtrip)
qed simp

lemma times_roundtrip: "1 \<le> n \<Longrightarrow> n \<le> 1000 \<Longrightarrow> times_clamped (min n 65535) = Times n"
  by (simp add: times_clamped_def max_def min_def)

text \<open>What of a track goes into its file: the markers that are not transient, the regions that have no
  endpoint or one that is kept, without the endpoints that are not, and a current region among those.\<close>

definition kept_end :: "marker list \<Rightarrow> marker_id option \<Rightarrow> marker_id option" where
  "kept_end ms e = (case e of None \<Rightarrow> None | Some i \<Rightarrow> if i \<in> mk_id ` set ms then Some i else None)"

definition cut_region :: "marker list \<Rightarrow> loop_region \<Rightarrow> loop_region" where
  "cut_region ms r = r\<lparr>lr_a := kept_end ms (lr_a r), lr_b := kept_end ms (lr_b r)\<rparr>"

definition kept_region :: "marker list \<Rightarrow> loop_region \<Rightarrow> bool" where
  "kept_region ms r \<longleftrightarrow>
     (lr_a r = None \<and> lr_b r = None) \<or> kept_end ms (lr_a r) \<noteq> None \<or> kept_end ms (lr_b r) \<noteq> None"

definition permanent_markers :: "track_markers \<Rightarrow> marker list" where
  "permanent_markers t = filter (\<lambda>m. \<not> mk_transient m) (tm_markers t)"

definition permanent_regions :: "track_markers \<Rightarrow> loop_region list" where
  "permanent_regions t = filter (kept_region (permanent_markers t)) (tm_regions t)"

definition permanent :: "track_markers \<Rightarrow> track_markers" where
  "permanent t = t\<lparr>tm_markers := permanent_markers t,
     tm_regions := map (cut_region (permanent_markers t)) (permanent_regions t),
     tm_current_region :=
       (case tm_current_region t of
          Some g \<Rightarrow> if g \<in> lr_id ` set (permanent_regions t) then Some g
                    else max_region_id (permanent_regions t)
        | None \<Rightarrow> max_region_id (permanent_regions t))\<rparr>"

lemma permanent_markers_iff: "m \<in> set (permanent_markers t) \<longleftrightarrow> m \<in> set (tm_markers t) \<and> \<not> mk_transient m"
  by (auto simp: permanent_markers_def)

lemma region_roundtrip:
  assumes core: "markers_core t" and r: "r \<in> set (tm_regions t)"
    and ok: "lr_crossfade_ms r \<le> 50" "case lr_repeat r of Infinite \<Rightarrow> True | Times n \<Rightarrow> 1 \<le> n \<and> n \<le> 1000"
  shows "region_from_dto (map unclamped (permanent_markers t)) (region_to_dto r) =
    rested (cut_region (permanent_markers t) r)"
proof -
  let ?ms = "permanent_markers t"
  let ?kinds = "map_of (rev (map (\<lambda>m. (mk_id m, mk_kind m)) (map unclamped ?ms)))"
  have same: "map (\<lambda>m. (mk_id m, mk_kind m)) (map unclamped ?ms) = map (\<lambda>m. (mk_id m, mk_kind m)) ?ms"
    by (simp add: unclamped_def)
  have "distinct (map mk_id ?ms)"
    using core_ids(1) [OF core] by (simp add: permanent_markers_def distinct_map_filter)
  then have d: "distinct (map fst (rev (map (\<lambda>m. (mk_id m, mk_kind m)) ?ms)))"
    by (simp add: rev_map [symmetric] comp_def)
  have kept: "?kinds i = Some k" if "(i, k) \<in> roles_of t" "i \<in> mk_id ` set ?ms" for i k
  proof -
    note prems = that
    obtain m where m: "m \<in> set ?ms" "mk_id m = i" using prems(2) by auto
    have "mk_kind m = k"
    proof (rule roles_ofE [OF prems(1)])
      fix m' assume "m' \<in> set (tm_markers t)" "mk_id m' = i" "mk_kind m' = k"
      with m key_unique [OF core_ids(1) [OF core], of m m'] show "mk_kind m = k"
        by (simp add: permanent_markers_iff)
    qed
    with m show ?thesis unfolding same by (intro map_of_is_SomeI [OF d]) force
  qed
  have gone: "?kinds i = None" if "i \<notin> mk_id ` set ?ms" for i
    unfolding same using that by (force simp: map_of_eq_None_iff)
  have rl: "region_linked (roles_of t) r" using linked_region [OF core_linked [OF core] r] .
  have a: "lr_a r = Some i \<Longrightarrow> ?kinds i = (if i \<in> mk_id ` set ?ms then Some (RegionStart (lr_id r)) else None)" for i
    using rl kept gone unfolding region_linked_def by (cases "i \<in> mk_id ` set ?ms") simp_all
  have b: "lr_b r = Some i \<Longrightarrow> ?kinds i = (if i \<in> mk_id ` set ?ms then Some (RegionEnd (lr_id r)) else None)" for i
    using rl kept gone unfolding region_linked_def by (cases "i \<in> mk_id ` set ?ms") simp_all
  have rep: "(case (case lr_repeat r of Infinite \<Rightarrow> None | Times n \<Rightarrow> Some n) of
      None \<Rightarrow> Infinite | Some n \<Rightarrow> times_clamped (min n 65535)) = lr_repeat r"
    using ok(2) times_roundtrip by (cases "lr_repeat r") simp_all
  show ?thesis
    using a b rep ok(1)
    by (cases "lr_a r"; cases "lr_b r")
      (simp_all add: region_from_dto_def region_to_dto_def rested_def cut_region_def kept_end_def Let_def)
qed

lemma fold_max_below: "\<forall>x\<in>set xs. x < (n :: nat) \<Longrightarrow> a < n \<Longrightarrow> fold max xs a < n"
  by (induction xs arbitrary: a) auto

text \<open>What a saved state loads as: sorted, with nothing armed, nothing flagged and nothing to save.\<close>

definition reloaded :: "track_markers \<Rightarrow> track_markers" where
  "reloaded t = t\<lparr>tm_markers := sort_key marker_order (map unclamped (tm_markers t)),
     tm_regions := map rested (tm_regions t), tm_dirty := False, tm_revision := 0\<rparr>"

lemma to_file_permanent:
  assumes core: "markers_core t"
  shows "sf_markers (to_file tab t) = map (marker_to_dto tab) (permanent_markers t)"
    and "sf_regions (to_file tab t) = map region_to_dto (permanent_regions t)"
    and "sf_current_region (to_file tab t) =
      (case tm_current_region t of None \<Rightarrow> None
       | Some g \<Rightarrow> if g \<in> lr_id ` set (permanent_regions t) then Some g else None)"
proof -
  have rs: "filter (\<lambda>r. \<not> (lr_a r \<noteq> None \<or> lr_b r \<noteq> None) \<or>
      (case lr_a r of None \<Rightarrow> False | Some i \<Rightarrow> i \<in> set (map mk_id (permanent_markers t))) \<or>
      (case lr_b r of None \<Rightarrow> False | Some i \<Rightarrow> i \<in> set (map mk_id (permanent_markers t)))) (tm_regions t) =
      permanent_regions t"
    unfolding permanent_regions_def
    by (rule filter_cong) (auto simp: kept_region_def kept_end_def split: option.splits)
  note f = to_file_def Let_def permanent_markers_def [symmetric] rs
  show "sf_markers (to_file tab t) = map (marker_to_dto tab) (permanent_markers t)"
    by (simp add: f)
  show "sf_regions (to_file tab t) = map region_to_dto (permanent_regions t)"
    unfolding f by simp
  show "sf_current_region (to_file tab t) =
      (case tm_current_region t of None \<Rightarrow> None
       | Some g \<Rightarrow> if g \<in> lr_id ` set (permanent_regions t) then Some g else None)"
    unfolding f by (simp split: option.split)
qed

lemma kept_kind:
  assumes core: "markers_core t" and m: "m \<in> set (permanent_markers t)" and g: "region_of_kind (mk_kind m) = Some g"
  shows "g \<in> lr_id ` set (permanent_regions t)"
proof -
  have mt: "m \<in> set (tm_markers t)" using m by (simp add: permanent_markers_iff)
  then obtain r where r: "r \<in> set (tm_regions t)" "lr_id r = g" using kind_region_known [OF core mt g] by auto
  have "lr_a r = Some (mk_id m) \<or> lr_b r = Some (mk_id m)"
    using linked_region [OF core_linked [OF core] r(1)] role_in [OF mt] g r(2)
    by (cases "mk_kind m") (auto simp: region_linked_def)
  then have "kept_region (permanent_markers t) r" using m by (auto simp: kept_region_def kept_end_def)
  with r show ?thesis by (auto simp: permanent_regions_def)
qed

lemma max_region_id_cong: "map lr_id rs = map lr_id rs' \<Longrightarrow> max_region_id rs = max_region_id rs'"
  by (cases rs; cases rs') (simp_all add: max_region_id_def)

lemma save_load:
  assumes good: "markers_good t" and ok: "fields_ok t"
    and known: "list_all (\<lambda>m. owner_known tab (mk_owner m)) (permanent_markers t)"
    and pos: "0 < tm_next_marker_id t" "0 < tm_next_region_id t"
  shows "from_file (to_file tab t) (tm_track t) (tm_sample_rate t) (tm_len_frames t) tab = (reloaded (permanent t), tab)"
proof -
  have inv: "markers_inv t" using good by (simp_all add: markers_good_def)
  note core = inv_core [OF inv]
  note f = to_file_permanent [OF core, of tab]
  let ?ms = "permanent_markers t" and ?rs = "permanent_regions t"
  let ?R = "set (map rd_id (sf_regions (to_file tab t)))"
  have R: "?R = lr_id ` set ?rs" by (simp add: f region_to_dto_def image_image)
  have sub: "m \<in> set (tm_markers t)" "\<not> mk_transient m" if "m \<in> set ?ms" for m
    using that by (simp_all add: permanent_markers_iff)
  have one_cue: "m = m'" if "m \<in> set ?ms" "m' \<in> set ?ms" "mk_kind m = Cue s" "mk_kind m' = Cue s" for m m' s
  proof -
    have "mk_id m = mk_id m'"
      using core_parts(5) [OF core] role_in [OF sub(1) [OF that(1)]] role_in [OF sub(1) [OF that(2)]] that(3,4)
      unfolding cues_ok_def by metis
    then show ?thesis using key_unique [OF core_ids(1) [OF core] sub(1) [OF that(1)] sub(1) [OF that(2)]] by simp
  qed
  have ms: "load_markers ?R (tm_sample_rate t) (tm_sample_rate t) (tm_len_frames t)
      (map (marker_to_dto tab) ?ms) [] {} tab = (map unclamped ?ms, tab)"
  proof (subst load_markers_saved)
    show "\<forall>m\<in>set ?ms. \<not> mk_transient m \<and> mk_color m \<le> 7 \<and> mk_position m \<le> tm_len_frames t \<and>
        owner_known tab (mk_owner m) \<and> (\<forall>g. region_of_kind (mk_kind m) = Some g \<longrightarrow> g \<in> ?R) \<and>
        (case mk_kind m of Cue (CueSlot n) \<Rightarrow> 1 \<le> n \<and> n \<le> 8 | _ \<Rightarrow> True) \<and>
        (\<forall>s. mk_kind m = Cue s \<longrightarrow> s \<notin> {})"
      using sub known ok core_parts(2) [OF core] kept_kind [OF core]
      unfolding R fields_ok_def list_all_iff by blast
    show "\<forall>m\<in>set ?ms. \<forall>m'\<in>set ?ms. \<forall>s. mk_kind m = Cue s \<and> mk_kind m' = Cue s \<longrightarrow> m = m'" using one_cue by blast
    show "distinct ?ms" using core_ids(1) [OF core] by (simp add: distinct_map permanent_markers_def)
    show "length ([] :: marker list) + length ?ms \<le> MAX_MARKERS"
      using le_trans [OF length_filter_le [of "\<lambda>m. \<not> mk_transient m" "tm_markers t"] core_parts(6) [OF core]]
      by (simp add: permanent_markers_def)
  qed simp
  have sub_r: "r \<in> set (tm_regions t)" if "r \<in> set ?rs" for r using that by (simp add: permanent_regions_def)
  have rs: "map (region_from_dto (map unclamped ?ms)) (map region_to_dto ?rs) = map rested (map (cut_region ?ms) ?rs)"
    using ok sub_r region_roundtrip [OF core] by (simp add: fields_ok_def list_all_iff)
  have ids: "map lr_id (map rested (map (cut_region ?ms) ?rs)) = map lr_id ?rs"
    "map mk_id (map unclamped ?ms) = map mk_id ?ms"
    by (simp_all add: rested_def cut_region_def unclamped_def)
  have "fold max (map mk_id ?ms) 0 < tm_next_marker_id t"
    using core_fresh_marker [OF core] pos sub(1) by (intro fold_max_below) auto
  moreover have "fold max (map lr_id ?rs) 0 < tm_next_region_id t"
    using core_fresh_region [OF core] pos sub_r by (intro fold_max_below) auto
  ultimately have counters:
    "max (tm_next_marker_id t) (fold max (map mk_id ?ms) 0 + 1) = tm_next_marker_id t"
    "max (tm_next_region_id t) (fold max (map lr_id ?rs) 0 + 1) = tm_next_region_id t"
    by simp_all
  have top: "max_region_id (map rested (map (cut_region ?ms) ?rs)) = max_region_id ?rs"
    by (rule max_region_id_cong) (rule ids(1))
  have cur: "(case (case tm_current_region t of None \<Rightarrow> None
       | Some g \<Rightarrow> if g \<in> lr_id ` set ?rs then Some g else None) of
       Some g \<Rightarrow> if g \<in> set (map lr_id ?rs) then Some g else max_region_id ?rs
     | None \<Rightarrow> max_region_id ?rs) = tm_current_region (permanent t)"
    by (simp add: permanent_def split: option.split)
  have next_fields: "sf_next_marker_id (to_file tab t) = tm_next_marker_id t"
    "sf_next_region_id (to_file tab t) = tm_next_region_id t"
    "sf_sample_rate (to_file tab t) = tm_sample_rate t"
    by (simp_all add: to_file_def Let_def)
  have "from_file (to_file tab t) (tm_track t) (tm_sample_rate t) (tm_len_frames t) tab =
      (from_parts (tm_track t) (tm_sample_rate t) (tm_len_frames t) (map unclamped ?ms)
         (map rested (map (cut_region ?ms) ?rs)) (tm_current_region (permanent t)) (tm_next_marker_id t) (tm_next_region_id t), tab)"
    unfolding from_file_def Let_def next_fields f ms [unfolded f] prod.case rs ids top cur counters ..
  then show ?thesis by (simp add: from_parts_def reloaded_def permanent_def)
qed

lemma next_ids_positive:
  "0 < tm_next_marker_id (run_markers pn cs (track_markers_new track rate len)) \<and>
   0 < tm_next_region_id (run_markers pn cs (track_markers_new track rate len))"
proof -
  let ?t = "track_markers_new track rate len"
  have "markers_good ?t" using run_markers_good [of pn "[]"] by (simp add: run_markers_def)
  then have "tm_next_marker_id ?t \<le> tm_next_marker_id (run_markers pn cs ?t)"
    "tm_next_region_id ?t \<le> tm_next_region_id (run_markers pn cs ?t)"
    using markers.counter_mono_steps [OF run_markers_steps] regions.counter_mono_steps [OF run_markers_steps] by blast+
  then show ?thesis by (simp add: track_markers_new_def)
qed

text \<open>
  C36. Markers survive their file: whatever calls were made on a track, loading what was saved at the
  same rate and length gives back every marker that is not transient and every region but those whose
  endpoints were all transient, an endpoint that was transient being taken off; the counters stay and so
  does the current region if it is still there (else the newest one is current), and the plugin table is
  left alone. Only what belongs to the session is reset: the armed flag, the counted wraps, the clamped
  flags. The owners of what is saved are the host or plugins that the table knows.
\<close>
theorem markers_save_load_roundtrip:
  assumes t: "t = run_markers pn cs (track_markers_new track rate len)"
    and ok: "fields_ok t"
    and known: "list_all (\<lambda>m. owner_known tab (mk_owner m)) (filter (\<lambda>m. \<not> mk_transient m) (tm_markers t))"
  shows "from_file (to_file tab t) (tm_track t) (tm_sample_rate t) (tm_len_frames t) tab = (reloaded (permanent t), tab)"
  using save_load [OF _ ok known [folded permanent_markers_def]] run_markers_good next_ids_positive by (simp add: t)

text \<open>A region, a transient point, a region that is all transient, and a point.\<close>

definition demo_mixed :: track_markers where
  "demo_mixed = run_markers no_name
     [NewLoopRegionOwned 2 4 OwnerHost False, AddPoint 7 OwnerHost True, NewLoopRegionOwned 5 6 OwnerHost True,
      AddPoint 9 OwnerHost False]
     (track_markers_new demo_song 0 10)"

lemma markers_save_load_roundtrip_witness:
  "map mk_position (tm_markers demo_mixed) = [2, 4, 5, 6, 7, 9] \<and>
   map mk_position (tm_markers (reloaded (permanent demo_mixed))) = [2, 4, 9] \<and>
   map lr_id (tm_regions (reloaded (permanent demo_mixed))) = [1] \<and>
   from_file (to_file \<lparr>it_by_identifier = [], it_by_id = []\<rparr> demo_mixed) (tm_track demo_mixed)
     (tm_sample_rate demo_mixed) (tm_len_frames demo_mixed) \<lparr>it_by_identifier = [], it_by_id = []\<rparr> =
   (reloaded (permanent demo_mixed), \<lparr>it_by_identifier = [], it_by_id = []\<rparr>)"
proof (intro conjI)
  show "map mk_position (tm_markers demo_mixed) = [2, 4, 5, 6, 7, 9]" by code_simp
  show "map mk_position (tm_markers (reloaded (permanent demo_mixed))) = [2, 4, 9]" by code_simp
  show "map lr_id (tm_regions (reloaded (permanent demo_mixed))) = [1]" by code_simp
  have "fields_ok demo_mixed" by code_simp
  moreover have "list_all (\<lambda>m. owner_known \<lparr>it_by_identifier = [], it_by_id = []\<rparr> (mk_owner m))
      (filter (\<lambda>m. \<not> mk_transient m) (tm_markers demo_mixed))"
    by code_simp
  ultimately show "from_file (to_file \<lparr>it_by_identifier = [], it_by_id = []\<rparr> demo_mixed) (tm_track demo_mixed)
     (tm_sample_rate demo_mixed) (tm_len_frames demo_mixed) \<lparr>it_by_identifier = [], it_by_id = []\<rparr> =
   (reloaded (permanent demo_mixed), \<lparr>it_by_identifier = [], it_by_id = []\<rparr>)"
    by (rule markers_save_load_roundtrip [OF demo_mixed_def])
qed

text \<open>A file whose only region starts after it ends, as an editor or an older version may leave it.\<close>

definition crossed_file :: track_state_file where
  "crossed_file =
     \<lparr>sf_schema_version = 1, sf_track_id = [1], sf_sample_rate = 0, sf_len_frames = 10,
      sf_next_marker_id = 3, sf_next_region_id = 2, sf_current_region = Some 1,
      sf_markers =
        [\<lparr>md_id = 1, md_kind = DtoRegionStart 1, md_position = 9, md_name = [], md_color = 0,
          md_owner = [], md_transient = False, md_visible = True\<rparr>,
         \<lparr>md_id = 2, md_kind = DtoRegionEnd 1, md_position = 2, md_name = [], md_color = 0,
          md_owner = [], md_transient = False, md_visible = True\<rparr>],
      sf_regions =
        [\<lparr>rd_id = 1, rd_a = Some 1, rd_b = Some 2, rd_crossfade_ms = 5, rd_repeat = None\<rparr>]\<rparr>"

text \<open>
  Loading repairs many defects of a file, as its documentation lists, but not this one: the
  endpoints of a region stored in the wrong order stay in the wrong order, against the invariant
  every operation of the model keeps.
\<close>
lemma load_keeps_crossed_region:
  "let t = fst (from_file crossed_file demo_song 0 10 \<lparr>it_by_identifier = [], it_by_id = []\<rparr>)
   in map (region_span t) (tm_regions t) = [Some (9, 2)]"
  by code_simp

end
