(* ===== verification/Gateway_Theorems.thy ===== *)
theory Gateway_Theorems
  imports Focus
begin

text \<open>The properties of the gateway and of transport focus, and of the two together.\<close>

section \<open>Admission\<close>

text \<open>
  C34. Whatever requests a plugin makes, in the order of their times, no rolling window of any
  category ever holds more admitted requests than its limit: 100 in a second, 6 in a minute for
  notifications.
\<close>
theorem rate_limits_hold:
  assumes "sorted (map request_time rs)" and "run_requests a rs (gateway_new i g, []) = (gw, log)"
  shows "length (within (category_window c) T (times_of a c log)) \<le> category_limit c"
proof -
  have "limited a (last (0 # map request_time rs)) (gw, log)"
    using run_requests_limited [OF gateway_new_limited, of 0 rs a i g] assms by simp
  then show ?thesis by (simp add: limited_def)
qed

lemma admit_fixed: "admit a token k now gw = (gw', r) \<Longrightarrow> gw_plugin gw' = gw_plugin gw \<and> gw_grants gw' = gw_grants gw"
  by (auto simp: admit_def split: if_splits prod.splits)

lemma run_requests_fixed:
  "gw_plugin (fst (run_requests a rs (gw, log))) = gw_plugin gw \<and>
   gw_grants (fst (run_requests a rs (gw, log))) = gw_grants gw"
proof (induction rs arbitrary: gw log)
  case (Cons q rs)
  obtain token k now where q: "q = (token, k, now)" by (cases q)
  obtain gw' r where adm: "admit a token k now gw = (gw', r)" by fastforce
  obtain log' where run: "run_requests a (q # rs) (gw, log) = run_requests a rs (gw', log')"
    by (cases r) (simp_all add: q adm)
  show ?case unfolding run using Cons.IH [of gw' log'] admit_fixed [OF adm] by simp
qed simp

text \<open>
  After any such requests, a request is admitted exactly when its permission is granted (if it
  needs one), its plugin holds the focus (if it needs that) and fewer requests of its category than
  the limit were admitted within the window; what is refused is refused for the first of the three
  that fails, and what is refused for one of the first two changes nothing.
\<close>
lemma admit_outcome:
  assumes "sorted (map request_time (rs @ [(token, k, now)]))"
    and "run_requests a rs (gateway_new i g, []) = (gw, log)"
  shows "let (gw', r) = admit a token k now gw;
      denied = (\<exists>p. api_requires a k = Some p \<and> \<not> grants_holds a g p);
      unfocused = (api_needs_focus a k \<and> token_holder token \<noteq> Some i);
      c = api_category a k
    in (denied \<longrightarrow> r = Inl PermissionDenied \<and> gw' = gw) \<and>
       (\<not> denied \<and> unfocused \<longrightarrow> r = Inl NoFocus \<and> gw' = gw) \<and>
       (\<not> denied \<and> \<not> unfocused \<longrightarrow>
          r = (if length (within (category_window c) now (times_of a c log)) < category_limit c
               then Inr () else Inl RateLimited))"
proof -
  have sorted: "sorted (map request_time rs)" and last: "last (0 # map request_time rs) \<le> now"
    using assms(1) by (auto simp: sorted_append last_map)
  have lim: "limited a (last (0 # map request_time rs)) (gw, log)"
    using run_requests_limited [OF gateway_new_limited, of 0 rs a i g] sorted assms(2) by simp
  have fixed: "gw_plugin gw = i" "gw_grants gw = g"
    using run_requests_fixed [of a rs "gateway_new i g" "[]"] assms(2) by (simp_all add: gateway_new_def)
  let ?c = "api_category a k"
  have "snd (limiter_call ?c now (gw_limiter gw)) \<longleftrightarrow>
      length (within (category_window ?c) now (times_of a ?c log)) < category_limit ?c"
    using lim by (intro limiter.call_tracks(2) [OF _ last]) (simp add: limited_def)
  moreover have "snd (limiter_admit ?c now (gw_limiter gw)) =
      (if snd (limiter_call ?c now (gw_limiter gw)) then Inr () else Inl RateLimited)"
    by (simp add: limiter_call_def limiter_admit_def Let_def)
  ultimately show ?thesis
    by (auto simp: admit_def fixed Let_def split: prod.split option.split)
qed

text \<open>Two kinds of requests: 0 needs a permission and the focus, 1 needs nothing and is a notice.\<close>

definition demo_api :: "(nat, nat) api" where
  "demo_api = \<lparr>api_permissions = [0..<25], api_requires = (\<lambda>k. if k = 0 then Some 7 else None),
     api_needs_focus = (\<lambda>k. k = 0), api_category = (\<lambda>k. if k = 0 then CatTransport else CatNotify)\<rparr>"

definition demo_requests :: "nat timed_request list" where
  "demo_requests = map (\<lambda>t. (0, 1, t)) [10, 20, 30, 40, 50, 60, 70]"

lemma demo_run:
  "\<exists>gw. run_requests demo_api demo_requests (gateway_new 1 grants_none, []) =
     (gw, [(1, 10), (1, 20), (1, 30), (1, 40), (1, 50), (1, 60)])"
  by (simp add: demo_requests_def demo_api_def admit_def gateway_new_def limiter_admit_def evict_def
      rate_limiter_new_def category_limit_def category_window_def NOTIFY_LIMIT_def NOTIFY_WINDOW_def)

lemma rate_limits_hold_witness:
  "length (within 60000 100 (times_of demo_api CatNotify [(1, 10), (1, 20), (1, 30), (1, 40), (1, 50), (1, 60)])) \<le> 6"
proof -
  have "sorted (map request_time demo_requests)" by (simp add: demo_requests_def)
  then show ?thesis
    using demo_run rate_limits_hold [of demo_requests demo_api 1 grants_none _ _ CatNotify 100]
    by (auto simp: category_limit_def category_window_def NOTIFY_LIMIT_def NOTIFY_WINDOW_def)
qed

lemma admit_outcome_witness:
  "\<exists>gw. snd (admit demo_api 0 1 80 gw) = Inl RateLimited \<and> snd (admit demo_api 0 0 80 gw) = Inl PermissionDenied"
proof -
  obtain gw where run: "run_requests demo_api demo_requests (gateway_new 1 grants_none, []) =
     (gw, [(1, 10), (1, 20), (1, 30), (1, 40), (1, 50), (1, 60)])"
    using demo_run by blast
  have sorted: "sorted (map request_time (demo_requests @ [(0, k, 80)]))" for k :: nat
    by (simp add: demo_requests_def)
  have "snd (admit demo_api 0 1 80 gw) = Inl RateLimited"
    using admit_outcome [OF sorted run, of 1]
    by (simp add: demo_api_def times_of_def within_def category_limit_def category_window_def
        NOTIFY_LIMIT_def NOTIFY_WINDOW_def split: prod.splits)
  moreover have "\<not> grants_holds demo_api grants_none 7" by code_simp
  then have "snd (admit demo_api 0 0 80 gw) = Inl PermissionDenied"
    using admit_outcome [OF sorted run, of 0] by (simp add: demo_api_def split: prod.splits)
  ultimately show ?thesis by blast
qed

section \<open>Focus\<close>





lemmas desk_defs = focus_call_step_def apply_focus_changes_def desk_new_def arbiter_new_def decide_def publish_def
  send_next_def deliver_def request_def give_def take_back_def withdraw_def Let_def settled_def spawn_handle_def gone_def



text \<open>
  The answer of \<^verbatim>\<open>try_send\<close> is not looked at. If the revocation of a plugin with a full inbox is
  dropped, two plugins were last told that they hold the focus; if a grant is dropped, nobody was, the
  event is not sent again, and asking again changes nothing.
\<close>

lemma dropped_revocation_two_believe:
  "dk_told (focus_call_step (FocusGive 2) [False, True]
     (focus_call_step (FocusGive 1) [True] (spawn_handle 2 (spawn_handle 1 desk_new)))) = {1, 2}"
  by (auto simp: desk_defs)

lemma dropped_grant_not_repeated:
  "let d = focus_call_step (FocusGive 1) [False] (spawn_handle 1 desk_new)
   in ar_holder (dk_arbiter d) = PluginHolds 1 \<and> dk_told d = {} \<and>
      focus_call_step (FocusRequest 1 True origin) accepts d = d"
proof -
  have "fold send_next accepts x = x" if "dk_outbox x = []" for x accepts
    using that by (induction accepts) (simp_all add: send_next_def)
  then show ?thesis by (simp add: desk_defs)
qed

text \<open>
  A request for the focus that was queued before its plugin was stopped is applied afterwards with
  \<^verbatim>\<open>running\<close> set: the focus goes to a plugin that is gone, and stays there.
\<close>

lemma request_after_stop_granted:
  "ar_holder (dk_arbiter (focus_call_step (FocusRequest 1 True OriginUserInteraction) []
     (focus_call_step (PluginStopped 1) [] desk_new))) = PluginHolds 1"
  by (simp add: desk_defs vacate_def)






section \<open>Grants\<close>

lemma fold_grant: "fold (\<lambda>p g. g[f p := Granted]) ps g ! i = Granted \<longleftrightarrow>
    (i < length g \<and> (\<exists>p\<in>set ps. f p = i)) \<or> g ! i = Granted"
proof (induction ps arbitrary: g)
  case (Cons p ps)
  show ?case
  proof (cases "f p = i")
    case True
    then show ?thesis by (cases "i < length g") (simp_all add: Cons.IH list_update_beyond)
  next
    case False
    then show ?thesis by (simp add: Cons.IH)
  qed
qed simp

lemma permission_index_nth:
  assumes "p \<in> set (api_permissions a)"
  shows "permission_index a p < length (api_permissions a) \<and> api_permissions a ! permission_index a p = p"
proof -
  obtain i where i: "position (\<lambda>q. q = p) (api_permissions a) = Some i"
    using position_Some_ex [OF assms, of "\<lambda>q. q = p"] by blast
  with position_SomeD [OF i] show ?thesis by (simp add: permission_index_def)
qed

text \<open>
  A bundled plugin is granted exactly the permissions its manifest asks for, required or
  optional, and no other one, and this is what the gateway lists as granted.
\<close>
lemma grants_are_the_requested:
  assumes "distinct (api_permissions a)" and "length (api_permissions a) = 25"
    and "set (required @ optional) \<subseteq> set (api_permissions a)"
  shows "granted_permissions a (grants_from_bundled a required optional) =
    filter (\<lambda>p. p \<in> set (required @ optional)) (api_permissions a)"
  unfolding granted_permissions_def
proof (rule filter_cong [OF refl])
  fix p assume p: "p \<in> set (api_permissions a)"
  have idx: "permission_index a q < 25 \<and> api_permissions a ! permission_index a q = q" if "q \<in> set (api_permissions a)" for q
    using permission_index_nth [OF that] assms(2) by simp
  have same: "permission_index a q = permission_index a p \<longleftrightarrow> q = p" if "q \<in> set (required @ optional)" for q
    using idx [OF p] idx [of q] that assms(3) by (metis subsetD)
  have "grants_holds a (grants_from_bundled a required optional) p \<longleftrightarrow>
      (\<exists>q\<in>set (required @ optional). permission_index a q = permission_index a p)"
    unfolding grants_holds_def grants_from_bundled_def fold_grant using idx [OF p] by (simp add: grants_none_def)
  also have "\<dots> \<longleftrightarrow> p \<in> set (required @ optional)" using same by blast
  finally show "grants_holds a (grants_from_bundled a required optional) p \<longleftrightarrow> p \<in> set (required @ optional)" .
qed

lemma grants_are_the_requested_witness:
  "granted_permissions demo_api (grants_from_bundled demo_api [3, 7] [5]) = [3, 5, 7]"
proof -
  have "granted_permissions demo_api (grants_from_bundled demo_api [3, 7] [5]) =
      filter (\<lambda>p. p \<in> set ([3, 7] @ [5])) (api_permissions demo_api)"
    by (rule grants_are_the_requested) (auto simp: demo_api_def)
  also have "\<dots> = [3, 5, 7]" by (simp add: demo_api_def upt_rec)
  finally show ?thesis .
qed

end
