(* ===== verification/Search_Invariant.thy ===== *)
theory Search_Invariant
  imports Search
begin

text \<open>
  What every reachable search session satisfies: outstanding requests, waiting retries and the
  groups on screen agree. Replies are assumed to answer what was asked, and nothing else, when
  they answer a "Show more" request; replies to the combined request may hold anything.
\<close>

section \<open>The invariant\<close>

fun group_wf :: "group_state \<Rightarrow> bool" where
  "group_wf (GroupLoaded _ None True) = False"
| "group_wf (GroupRateLimited None (Some _)) = False"
| "group_wf (GroupRateLimited (Some _) None) = False"
| "group_wf _ = True"

fun loading :: "group_state \<Rightarrow> bool" where
  "loading (GroupLoaded _ _ b) = b"
| "loading _ = False"

fun resumable :: "group_state \<Rightarrow> bool" where
  "resumable (GroupRateLimited (Some _) _) = True"
| "resumable _ = False"

definition more_ok :: "search_session \<Rightarrow> search_kind \<Rightarrow> bool" where
  "more_ok s k \<longleftrightarrow>
     (ss_more_ids s k \<noteq> None \<longrightarrow> ss_more_ids s k = Some (pack_request_id (ss_generation s) k)) \<and>
     (case ss_more_retries s k of
        None \<Rightarrow> ss_more_ids s k \<noteq> None \<longleftrightarrow> loading (ss_groups s k)
      | Some r \<Rightarrow> resumable (ss_groups s k) \<and> (rt_issued r \<longleftrightarrow> ss_more_ids s k \<noteq> None))"

definition combined_ok :: "search_session \<Rightarrow> bool" where
  "combined_ok s \<longleftrightarrow>
     (ss_pending s \<noteq> None \<longrightarrow> ss_pending s = Some (pack_request_id (ss_generation s) KindTrack)) \<and>
     (case ss_combined_retry s of
        None \<Rightarrow> (\<forall>k. ss_groups s k = GroupPending \<longleftrightarrow> ss_pending s \<noteq> None)
      | Some r \<Rightarrow> (\<forall>k. ss_groups s k = GroupRateLimited None None) \<and> (rt_issued r \<longleftrightarrow> ss_pending s \<noteq> None))"

definition refresh_ok :: "search_session \<Rightarrow> search_kind \<Rightarrow> bool" where
  "refresh_ok s k \<longleftrightarrow> (is_rate_limited (ss_groups s k) \<longrightarrow>
     ss_combined_retry s \<noteq> None \<or> ss_more_retries s k \<noteq> None \<or> ss_debounce s \<noteq> None)"

definition query_ok :: "search_session \<Rightarrow> bool" where
  "query_ok s \<longleftrightarrow> (ss_query s = [] \<longrightarrow>
     ss_debounce s = None \<and> ss_pending s = None \<and> ss_combined_retry s = None \<and>
     (\<forall>k. ss_groups s k = GroupIdle \<and> ss_more_ids s k = None \<and> ss_more_retries s k = None))"

definition search_inv :: "search_session \<Rightarrow> bool" where
  "search_inv s \<longleftrightarrow> combined_ok s \<and> query_ok s \<and>
     (\<forall>k. group_wf (ss_groups s k) \<and> more_ok s k \<and> refresh_ok s k)"

lemmas search_ok_defs = search_inv_def combined_ok_def query_ok_def more_ok_def refresh_ok_def

lemma GROUP_ORDER_all [simp]: "set GROUP_ORDER = UNIV"
  by (auto simp: GROUP_ORDER_def intro: search_kind.exhaust)

lemma retry_scheduled_iff: "retry_scheduled s \<longleftrightarrow> ss_combined_retry s \<noteq> None \<or> (\<exists>k. ss_more_retries s k \<noteq> None)"
  by (simp add: retry_scheduled_def list_ex_iff)

lemma refreshing_iff: "refreshing s \<longleftrightarrow> (\<exists>k. is_rate_limited (ss_groups s k))"
  by (simp add: refreshing_def list_ex_iff)

lemma kind_from_code [simp]: "kind_from_byte (search_kind_code k) = Some k"
  by (cases k) (simp_all add: kind_from_byte_def GROUP_ORDER_def)

lemma kind_from_byte_code: "kind_from_byte b = Some k \<Longrightarrow> b = search_kind_code k"
  unfolding kind_from_byte_def by (auto dest: find_SomeD)

lemma unpack_pack: "unpack_request_id (pack_request_id g k) = (take_bit 56 g, search_kind_code k)"
  by (simp only: pack_request_id_def unpack_request_id_def drop_bit_packed low_byte_packed search_kind_code_lt)

lemma pack_kind_inj: "pack_request_id g k = pack_request_id g' k' \<Longrightarrow> k = k'"
  by (metis kind_from_code option.inject prod.inject unpack_pack)

section \<open>Each operation keeps it\<close>

lemma search_session_new_inv: "search_inv search_session_new"
  by (simp add: search_ok_defs search_session_new_def is_rate_limited_def)

lemma search_inv_unread [simp]:
  "search_inv (s\<lparr>ss_raw_query := q\<rparr>) = search_inv s" "search_inv (s\<lparr>ss_offline := b\<rparr>) = search_inv s"
  by (simp_all add: search_ok_defs cong: option.case_cong)

lemma search_invI:
  "combined_ok s \<Longrightarrow> query_ok s \<Longrightarrow> (\<And>k. group_wf (ss_groups s k)) \<Longrightarrow> (\<And>k. more_ok s k) \<Longrightarrow>
   (\<And>k. refresh_ok s k) \<Longrightarrow> search_inv s"
  by (simp add: search_inv_def)

lemma search_invD:
  assumes "search_inv s"
  shows "combined_ok s" "query_ok s" "group_wf (ss_groups s k)" "more_ok s k" "refresh_ok s k"
  using assms by (simp_all add: search_inv_def)

text \<open>With the combined request out, or waiting, no group has a page of its own outstanding.\<close>

lemma combined_no_more:
  assumes "search_inv s" and "ss_pending s \<noteq> None \<or> ss_combined_retry s \<noteq> None"
  shows "ss_more_ids s k = None \<and> ss_more_retries s k = None"
proof -
  have "ss_groups s k = GroupPending \<or> ss_groups s k = GroupRateLimited None None"
    using search_invD(1) [OF assms(1)] assms(2) by (auto simp: combined_ok_def split: option.splits)
  then show ?thesis using search_invD(4) [OF assms(1), of k] by (auto simp: more_ok_def split: option.splits)
qed

lemma set_query_inv: "search_inv s \<Longrightarrow> search_inv (set_query raw now s)"
proof -
  assume inv: "search_inv s"
  let ?raw = "s\<lparr>ss_raw_query := raw\<rparr>"
  have raw: "search_inv ?raw" using inv by simp
  consider "trim raw = []" | "trim raw = ss_query s" "trim raw \<noteq> []"
    | "trim raw \<noteq> []" "trim raw \<noteq> ss_query s" by blast
  then show ?thesis
  proof cases
    case 1
    then show ?thesis
      by (simp add: set_query_def Let_def reset_to_idle_def clear_retries_def search_ok_defs is_rate_limited_def)
  next
    case 2
    with raw show ?thesis by (simp add: set_query_def Let_def)
  next
    case 3
    let ?s = "cancel_retries (?raw\<lparr>ss_query := trim raw\<rparr>)\<lparr>ss_debounce := Some (now + SEARCH_DEBOUNCE)\<rparr>"
    have "search_inv ?s"
    proof (rule search_invI)
      show "combined_ok ?s"
        using search_invD(1) [OF inv]
        by (cases "ss_combined_retry s") (auto simp: combined_ok_def cancel_retries_def clear_retries_def issued_def)
      show "query_ok ?s" using 3 by (simp add: query_ok_def cancel_retries_def clear_retries_def)
      fix k
      show "group_wf (ss_groups ?s k)"
        using search_invD(3) [OF inv] by (simp add: cancel_retries_def clear_retries_def)
      show "refresh_ok ?s k" by (simp add: refresh_ok_def)
      show "more_ok ?s k"
        using search_invD(4) [OF inv, of k]
        by (cases "ss_more_retries s k"; cases "ss_groups s k")
          (auto simp: more_ok_def cancel_retries_def clear_retries_def issued_def)
    qed
    with 3 show ?thesis by (simp add: set_query_def Let_def)
  qed
qed

lemma set_offline_inv: "search_inv s \<Longrightarrow> search_inv (set_offline b s)"
proof -
  assume inv: "search_inv s"
  let ?off = "s\<lparr>ss_offline := b\<rparr>"
  let ?s = "clear_retries (collapse_more (collapse_combined ?off))"
  have off: "search_inv ?off" using inv by simp
  have "search_inv ?s"
  proof (cases "ss_combined_retry s")
    case None
    have c: "combined_ok s" by (rule search_invD(1) [OF inv])
    show ?thesis
    proof (rule search_invI)
      show "combined_ok ?s"
        using c None combined_no_more [OF inv]
        by (cases "ss_pending s")
          (auto simp: combined_ok_def clear_retries_def collapse_more_def collapse_combined_def
            split: group_state.splits option.splits)
      show "query_ok ?s"
        using search_invD(2) [OF inv] None
        by (auto simp: query_ok_def clear_retries_def collapse_more_def collapse_combined_def)
      fix k
      show "group_wf (ss_groups ?s k)" and "more_ok ?s k" and "refresh_ok ?s k"
        using search_invD(3-5) [OF inv, of k] None
        by (cases "ss_more_retries s k"; cases "ss_groups s k" rule: resumable.cases;
            auto simp: more_ok_def refresh_ok_def is_rate_limited_def clear_retries_def collapse_more_def collapse_combined_def)+
    qed
  next
    case (Some r)
    have c: "ss_groups s k = GroupRateLimited None None" for k
      using search_invD(1) [OF inv] Some by (simp add: combined_ok_def)
    have no: "ss_more_ids s k = None" "ss_more_retries s k = None" for k
      using combined_no_more [OF inv, of k] Some by simp_all
    have "ss_query s \<noteq> []" using search_invD(2) [OF inv] Some by (auto simp: query_ok_def)
    then show ?thesis
      by (simp add: search_ok_defs clear_retries_def collapse_more_def collapse_combined_def Some c no is_rate_limited_def)
  qed
  with off show ?thesis by (simp only: set_offline_def Let_def split: if_split) blast
qed

lemma due_combined_inv: "search_inv s \<Longrightarrow> search_inv (fst (due_combined now s))"
proof (cases "ss_combined_retry s")
  case (Some r)
  assume inv: "search_inv s"
  have g: "ss_groups s k = GroupRateLimited None None" for k
    using search_invD(1) [OF inv] Some by (simp add: combined_ok_def)
  have no: "ss_more_ids s k = None" "ss_more_retries s k = None" for k
    using combined_no_more [OF inv, of k] Some by simp_all
  have "ss_query s \<noteq> []" using search_invD(2) [OF inv] Some by (auto simp: query_ok_def)
  with inv show ?thesis
    by (simp add: due_combined_def Some) (simp add: search_ok_defs g no)
qed (simp add: due_combined_def)

lemma due_more_cases:
  obtains "due_more now k s = (s, [])"
  | r st off where "ss_more_retries s k = Some r" "ss_groups s k = GroupRateLimited st (Some off)"
      "\<not> rt_issued r" "rt_due r \<le> now"
      "due_more now k s = (s\<lparr>ss_more_retries := (ss_more_retries s)(k := Some (r\<lparr>rt_issued := True\<rparr>)),
         ss_more_ids := (ss_more_ids s)(k := Some (pack_request_id (ss_generation s) k))\<rparr>, [more_command k off s])"
proof (cases "\<exists>r st off. ss_more_retries s k = Some r \<and> ss_groups s k = GroupRateLimited st (Some off) \<and>
    \<not> rt_issued r \<and> rt_due r \<le> now")
  case True
  then obtain r st off where "ss_more_retries s k = Some r" "ss_groups s k = GroupRateLimited st (Some off)"
    "\<not> rt_issued r" "rt_due r \<le> now" by blast
  then show ?thesis by (intro that(2)) (simp_all add: due_more_def)
next
  case False
  then have "due_more now k s = (s, [])"
    by (auto simp: due_more_def not_less split: option.split group_state.split)
  then show ?thesis by (rule that(1))
qed

lemma due_more_inv: "search_inv s \<Longrightarrow> search_inv (fst (due_more now k s))"
proof -
  assume inv: "search_inv s"
  show ?thesis
    using due_more_cases [of now k s]
  proof cases
    case (2 r st off)
    let ?s = "s\<lparr>ss_more_retries := (ss_more_retries s)(k := Some (r\<lparr>rt_issued := True\<rparr>)),
       ss_more_ids := (ss_more_ids s)(k := Some (pack_request_id (ss_generation s) k))\<rparr>"
    have "search_inv ?s"
    proof (rule search_invI)
      show "combined_ok ?s" using search_invD(1) [OF inv] by (simp add: combined_ok_def cong: option.case_cong)
      show "query_ok ?s" using search_invD(2) [OF inv] 2(1) by (auto simp: query_ok_def)
      fix k'
      show "group_wf (ss_groups ?s k')" using search_invD(3) [OF inv] by simp
      show "more_ok ?s k'" "refresh_ok ?s k'"
        using search_invD(4,5) [OF inv, of k'] 2 by (auto simp: more_ok_def refresh_ok_def split: option.splits)
    qed
    with 2 show ?thesis by simp
  qed (use inv in simp)
qed

lemma due_mores_inv: "search_inv s \<Longrightarrow> search_inv (fst (due_mores now ks (s, cmds)))"
proof (induction ks arbitrary: s cmds)
  case (Cons k ks)
  obtain s' cs where "due_more now k s = (s', cs)" by fastforce
  then show ?case using Cons due_more_inv [OF Cons.prems, of now k] by simp
qed simp

lemma search_tick_inv: "search_inv s \<Longrightarrow> search_inv (fst (search_tick now s))"
proof -
  assume inv: "search_inv s"
  have fresh: "search_inv (clear_retries (s\<lparr>ss_debounce := None, ss_generation := g, ss_groups := \<lambda>_. GroupPending,
      ss_more_ids := \<lambda>_. None\<rparr>)\<lparr>ss_pending := Some (pack_request_id g KindTrack)\<rparr>)"
    if "ss_query s \<noteq> []" for g
    using that by (simp add: search_ok_defs clear_retries_def is_rate_limited_def)
  have retries: "search_inv (fst (due_retries now s))"
    using due_mores_inv [OF due_combined_inv [OF inv]] unfolding due_retries_def
    by (metis prod.collapse)
  have "ss_debounce s = None" if "ss_query s = []"
    using search_invD(2) [OF inv] that by (simp add: query_ok_def)
  then show ?thesis
    using inv fresh retries by (auto simp: search_tick_def Let_def split: option.split)
qed

lemma show_more_cases:
  obtains "show_more k s = (s, None)"
  | items off where "ss_groups s k = GroupLoaded items (Some off) False"
      "show_more k s = (s\<lparr>ss_groups := (ss_groups s)(k := GroupLoaded items (Some off) True),
         ss_more_ids := (ss_more_ids s)(k := Some (pack_request_id (ss_generation s) k))\<rparr>, Some (more_command k off s))"
proof (cases "ss_groups s k")
  case (GroupLoaded items nx more)
  with that show ?thesis by (cases nx; cases more) (auto simp: show_more_def)
qed (use that in \<open>simp_all add: show_more_def\<close>)

lemma show_more_inv: "search_inv s \<Longrightarrow> search_inv (fst (show_more k s))"
proof -
  assume inv: "search_inv s"
  show ?thesis
    using show_more_cases [of k s]
  proof cases
    case (2 items off)
    let ?s = "s\<lparr>ss_groups := (ss_groups s)(k := GroupLoaded items (Some off) True),
             ss_more_ids := (ss_more_ids s)(k := Some (pack_request_id (ss_generation s) k))\<rparr>"
    have none: "ss_pending s = None" "ss_combined_retry s = None"
      using search_invD(1) [OF inv] 2(1) by (auto simp: combined_ok_def split: option.splits)
    have "search_inv ?s"
    proof (rule search_invI)
      show "combined_ok ?s" using search_invD(1) [OF inv] none by (simp add: combined_ok_def)
      show "query_ok ?s" using search_invD(2) [OF inv] 2(1) by (auto simp: query_ok_def)
      fix k'
      show "group_wf (ss_groups ?s k')" using search_invD(3) [OF inv] by simp
      show "more_ok ?s k'" "refresh_ok ?s k'"
        using search_invD(4,5) [OF inv, of k'] 2(1)
        by (auto simp: more_ok_def refresh_ok_def is_rate_limited_def split: option.splits)
    qed
    with 2 show ?thesis by simp
  qed (use inv in simp)
qed

section \<open>Replies\<close>

text \<open>What a group shows once an answer is in: nothing waits any more.\<close>

fun settled :: "group_state \<Rightarrow> bool" where
  "settled (GroupLoaded _ _ b) \<longleftrightarrow> \<not> b"
| "settled GroupEmpty = True"
| "settled GroupUnsupported = True"
| "settled _ = False"

lemma settledD: "settled g \<Longrightarrow> group_wf g \<and> \<not> loading g \<and> \<not> is_rate_limited g \<and> g \<noteq> GroupPending \<and> g \<noteq> GroupIdle"
  by (cases g rule: group_wf.cases) (auto simp: is_rate_limited_def)

lemma fold_apply_group_page:
  "fold apply_group_page ps gs k = gs k \<and> k \<notin> gp_kind ` set ps \<or>
   settled (fold apply_group_page ps gs k) \<and> k \<in> gp_kind ` set ps"
proof (induction ps arbitrary: gs)
  case (Cons p ps)
  have "apply_group_page p gs k = gs k \<or> settled (apply_group_page p gs k)" "k = gp_kind p \<Longrightarrow> settled (apply_group_page p gs k)"
    "k \<noteq> gp_kind p \<Longrightarrow> apply_group_page p gs k = gs k"
    by (auto simp: apply_group_page_def split: group_state.split bool.split)
  with Cons.IH [of "apply_group_page p gs"] show ?case by (cases "k = gp_kind p") auto
qed simp

lemma fold_unsupported:
  "fold (\<lambda>k gs. gs(k := GroupUnsupported)) ks gs k = (if k \<in> set ks then GroupUnsupported else gs k)"
  by (induction ks arbitrary: gs) auto

lemma apply_page_settles:
  "k \<in> gp_kind ` set (sp_groups page) \<union> set (sp_unsupported page) \<Longrightarrow> settled (apply_page page gs k)"
  "k \<notin> gp_kind ` set (sp_groups page) \<union> set (sp_unsupported page) \<Longrightarrow> apply_page page gs k = gs k"
  using fold_apply_group_page [of "sp_groups page" gs k] by (auto simp: apply_page_def fold_unsupported)

text \<open>An answer to a "Show more" request names the kind asked for, and no other one.\<close>

definition answers :: "search_kind \<Rightarrow> search_page \<Rightarrow> bool" where
  "answers k page \<longleftrightarrow> gp_kind ` set (sp_groups page) \<union> set (sp_unsupported page) = {k}"

lemma answers_page:
  assumes "answers k page"
  shows "apply_page page gs = gs(k := apply_page page gs k)" and "settled (apply_page page gs k)"
proof -
  show "settled (apply_page page gs k)"
    by (rule apply_page_settles(1)) (use assms in \<open>simp only: answers_def, blast\<close>)
  have "apply_page page gs x = gs x" if "x \<noteq> k" for x
    by (rule apply_page_settles(2)) (use assms that in \<open>simp only: answers_def, blast\<close>)
  then show "apply_page page gs = gs(k := apply_page page gs k)" by (simp add: fun_eq_iff)
qed

text \<open>Before the result of the combined request is looked at, every group is pending again.\<close>

lemma combined_restored:
  assumes "search_inv s" and "ss_pending s \<noteq> None"
  shows "(if ss_combined_retry s = None then ss_groups s
    else (\<lambda>k. case ss_groups s k of GroupRateLimited None _ \<Rightarrow> GroupPending | g \<Rightarrow> g)) = (\<lambda>_. GroupPending)"
  using search_invD(1) [OF assms(1)] assms(2) by (auto simp: combined_ok_def fun_eq_iff split: option.splits)

lemma settle_combined:
  "settled (settle_pending GroupEmpty (apply_page page (\<lambda>_. GroupPending)) k)"
  using apply_page_settles [where page = page and k = k and gs = "\<lambda>_. GroupPending"]
  by (auto simp: settle_pending_def)

lemma combined_reply_inv:
  assumes inv: "search_inv s" and out: "ss_pending s \<noteq> None"
  shows "search_inv (apply_combined_reply result now s)"
proof -
  have no: "ss_more_ids s k = None" "ss_more_retries s k = None" for k
    using combined_no_more [OF inv, of k] out by simp_all
  have query: "ss_query s \<noteq> []" using search_invD(2) [OF inv] out by (auto simp: query_ok_def)
  have done_inv: "search_inv (s\<lparr>ss_pending := None, ss_combined_retry := None, ss_groups := gs\<rparr>)"
    if "\<And>k. settled (gs k)" for gs
    using settledD [OF that] query by (simp add: search_ok_defs no)
  have limited_inv: "search_inv (s\<lparr>ss_pending := None, ss_groups := \<lambda>_. GroupRateLimited None None,
      ss_combined_retry := Some (retry_at now p ra)\<rparr>)" for p ra
    using query by (simp add: search_ok_defs no retry_at_def)
  have "settle_pending g (\<lambda>_. GroupPending) = (\<lambda>_. g)" for g by (simp add: settle_pending_def fun_eq_iff)
  then show ?thesis
    unfolding apply_combined_reply_def Let_def combined_restored [OF inv out]
    using done_inv [of "settle_pending GroupEmpty (apply_page _ (\<lambda>_. GroupPending))", OF settle_combined]
      done_inv [of "\<lambda>_. GroupEmpty"] limited_inv
    by (simp split: sum.split catalog_error.split)
qed

lemma more_restored:
  assumes "search_inv s" and "ss_more_ids s k \<noteq> None"
  obtains off where
    "(if ss_more_retries s k = None then ss_groups s
      else case ss_groups s k of
             GroupRateLimited (Some items) resume \<Rightarrow> (ss_groups s)(k := GroupLoaded items resume True)
           | _ \<Rightarrow> ss_groups s) =
     (ss_groups s)(k := GroupLoaded (group_items (ss_groups s k)) (Some off) True)"
proof -
  from search_invD(3,4) [OF assms(1), of k] assms(2)
  consider items off where "ss_more_retries s k = None" "ss_groups s k = GroupLoaded items (Some off) True"
    | r items off where "ss_more_retries s k = Some r" "ss_groups s k = GroupRateLimited (Some items) (Some off)"
    by (cases "ss_more_retries s k"; cases "ss_groups s k" rule: group_wf.cases) (auto simp: more_ok_def)
  then show thesis
  proof cases
    case (1 items off)
    then have "(ss_groups s)(k := GroupLoaded items (Some off) True) = ss_groups s" by (simp add: fun_eq_iff)
    with 1 show thesis by (intro that [of off]) (simp add: group_items_def)
  next
    case (2 r items off)
    then show thesis by (intro that [of off]) (simp add: group_items_def)
  qed
qed

lemma more_reply_inv:
  assumes inv: "search_inv s" and out: "ss_more_ids s k \<noteq> None"
    and page: "\<And>page. result = Inr page \<Longrightarrow> answers k page"
  shows "search_inv (apply_more_reply k result now s)"
proof -
  have none: "ss_pending s = None" "ss_combined_retry s = None"
    using combined_no_more [OF inv, of k] out by blast+
  obtain off where restored: "(if ss_more_retries s k = None then ss_groups s
      else case ss_groups s k of
             GroupRateLimited (Some items) resume \<Rightarrow> (ss_groups s)(k := GroupLoaded items resume True)
           | _ \<Rightarrow> ss_groups s) =
     (ss_groups s)(k := GroupLoaded (group_items (ss_groups s k)) (Some off) True)" (is "_ = ?gs")
    using more_restored [OF inv out] by blast
  have query: "ss_query s \<noteq> []" using search_invD(2) [OF inv] out by (auto simp: query_ok_def)
  have done_inv: "search_inv (s\<lparr>ss_more_ids := (ss_more_ids s)(k := None),
      ss_more_retries := (ss_more_retries s)(k := None), ss_groups := (ss_groups s)(k := g)\<rparr>)" (is "search_inv ?s")
    if g: "settled g" for g
  proof (rule search_invI)
    show "combined_ok ?s" using search_invD(1) [OF inv] none settledD [OF g] by (simp add: combined_ok_def)
    show "query_ok ?s" using query by (simp add: query_ok_def)
    fix k'
    show "group_wf (ss_groups ?s k')" "more_ok ?s k'" "refresh_ok ?s k'"
      using search_invD(3-5) [OF inv, of k'] settledD [OF g]
      by (auto simp: more_ok_def refresh_ok_def split: option.splits)
  qed
  have limited_inv: "search_inv (s\<lparr>ss_more_ids := (ss_more_ids s)(k := None),
      ss_groups := (ss_groups s)(k := GroupRateLimited (Some items) (Some off)),
      ss_more_retries := (ss_more_retries s)(k := Some (retry_at now p ra))\<rparr>)" (is "search_inv ?s") for p ra items
  proof (rule search_invI)
    show "combined_ok ?s" using search_invD(1) [OF inv] none by (simp add: combined_ok_def)
    show "query_ok ?s" using query by (simp add: query_ok_def)
    fix k'
    show "group_wf (ss_groups ?s k')" "more_ok ?s k'" "refresh_ok ?s k'"
      using search_invD(3-5) [OF inv, of k']
      by (auto simp: more_ok_def refresh_ok_def retry_at_def split: option.splits)
  qed
  have pages: "apply_page page ?gs = (ss_groups s)(k := apply_page page ?gs k) \<and> settled (apply_page page ?gs k)"
    if "result = Inr page" for page
    using answers_page [OF page [OF that], of ?gs] by (metis fun_upd_upd)
  show ?thesis
    unfolding apply_more_reply_def Let_def restored
    using done_inv limited_inv pages
    by (cases result) (simp_all split: catalog_error.split, metis)
qed

section \<open>Reachable sessions\<close>

datatype search_event =
    EvSetQuery ustring nat
  | EvSetOffline bool
  | EvSearchTick nat
  | EvShowMore search_kind
  | EvReply u64 "catalog_error + search_page" nat

fun search_apply :: "search_event \<Rightarrow> search_session \<Rightarrow> search_session" where
  "search_apply (EvSetQuery raw now) s = set_query raw now s"
| "search_apply (EvSetOffline b) s = set_offline b s"
| "search_apply (EvSearchTick now) s = fst (search_tick now s)"
| "search_apply (EvShowMore k) s = fst (show_more k s)"
| "search_apply (EvReply i result now) s = apply_reply i result now s"

fun event_ok :: "search_event \<Rightarrow> search_session \<Rightarrow> bool" where
  "event_ok (EvReply i (Inr page) now) s \<longleftrightarrow> (\<forall>k. ss_more_ids s k = Some i \<longrightarrow> answers k page)"
| "event_ok _ s \<longleftrightarrow> True"

definition search_step :: "search_session \<Rightarrow> search_session \<Rightarrow> bool" where
  "search_step s s' \<longleftrightarrow> (\<exists>ev. event_ok ev s \<and> s' = search_apply ev s)"

lemma apply_reply_inv:
  assumes "search_inv s" and "\<And>k page. result = Inr page \<Longrightarrow> ss_more_ids s k = Some i \<Longrightarrow> answers k page"
  shows "search_inv (apply_reply i result now s)"
  using assms combined_reply_inv [OF assms(1)] more_reply_inv [OF assms(1)]
  by (simp add: apply_reply_def split: prod.split option.split)

interpretation search: machine "\<lambda>s. s = search_session_new" search_step search_inv
proof unfold_locales
  show "search_inv s" if "s = search_session_new" for s using that search_session_new_inv by simp
  fix s t assume inv: "search_inv s" and "search_step s t"
  then obtain ev where ev: "event_ok ev s" "t = search_apply ev s" by (auto simp: search_step_def)
  show "search_inv t"
  proof (cases ev)
    case (EvReply i result now)
    have "search_inv (apply_reply i result now s)"
      by (rule apply_reply_inv [OF inv]) (use ev(1) EvReply in auto)
    with ev(2) EvReply show ?thesis by simp
  qed (use ev inv in \<open>simp_all add: set_query_inv set_offline_inv search_tick_inv show_more_inv\<close>)
qed

end
