(* ===== verification/Search_Theorems.thy ===== *)
theory Search_Theorems
  imports Search_Invariant
begin

text \<open>The properties of catalog search.\<close>

section \<open>Backoff\<close>

text \<open>
  The delay before the automatic retry number \<open>n\<close> is the documented one, 15 seconds doubled
  \<open>n\<close> times and at most four minutes, for every attempt; a delay the server asks for is taken as
  it is, up to the same four minutes; and no delay is shorter than the one before.
\<close>
lemma backoff_is_exponential:
  "backoff_delay n None = min (15000 * 2 ^ n) 240000 \<and>
   backoff_delay n (Some ms) = min ms 240000 \<and>
   backoff_delay n None \<le> backoff_delay (Suc n) None"
proof -
  have closed: "backoff_delay m None = min (15000 * 2 ^ m) 240000" for m
  proof (cases "m \<le> 10")
    case False
    then have "(2::nat) ^ 10 \<le> 2 ^ m" by (intro power_increasing) simp_all
    then have "240000 \<le> 15000 * (2::nat) ^ m" by simp
    with False show ?thesis by (simp add: backoff_delay_def SYNC_BACKOFF_BASE_def SYNC_BACKOFF_MAX_def min_def)
  qed (simp add: backoff_delay_def SYNC_BACKOFF_BASE_def SYNC_BACKOFF_MAX_def min_def)
  have "backoff_delay n None \<le> backoff_delay (Suc n) None" unfolding closed by (intro min.mono) simp_all
  with closed show ?thesis by (simp add: backoff_delay_def SYNC_BACKOFF_MAX_def)
qed

section \<open>What is on screen\<close>

text \<open>
  C39. In every reachable session the screen tells the truth: a group that says it is refreshing
  has a retry scheduled or a new query about to be sent, a pending group has its request out, a
  "Show more" button that waits has its page out, and an empty query shows nothing at all.
\<close>
theorem search_screen_truthful:
  assumes "search_step\<^sup>*\<^sup>* search_session_new s"
  shows "(refreshing s \<longrightarrow> retry_scheduled s \<or> ss_debounce s \<noteq> None) \<and>
    (ss_groups s k = GroupPending \<longrightarrow> ss_pending s = Some (pack_request_id (ss_generation s) KindTrack)) \<and>
    (loading (ss_groups s k) \<longrightarrow> ss_more_ids s k = Some (pack_request_id (ss_generation s) k)) \<and>
    (ss_query s = [] \<longrightarrow> ss_groups s k = GroupIdle \<and> \<not> in_flight s \<and> \<not> retry_scheduled s)"
proof -
  have inv: "search_inv s" by (rule search.reachable_inv [OF refl assms])
  have "refreshing s \<longrightarrow> retry_scheduled s \<or> ss_debounce s \<noteq> None"
    using search_invD(5) [OF inv] unfolding refreshing_iff retry_scheduled_iff refresh_ok_def by blast
  moreover have "ss_groups s k = GroupPending \<longrightarrow> ss_pending s = Some (pack_request_id (ss_generation s) KindTrack)"
    using search_invD(1) [OF inv] by (auto simp: combined_ok_def split: option.splits)
  moreover have "loading (ss_groups s k) \<longrightarrow> ss_more_ids s k = Some (pack_request_id (ss_generation s) k)"
    using search_invD(4) [OF inv, of k]
    by (cases "ss_more_retries s k"; cases "ss_groups s k" rule: resumable.cases) (auto simp: more_ok_def)
  moreover have "ss_query s = [] \<longrightarrow> ss_groups s k = GroupIdle \<and> \<not> in_flight s \<and> \<not> retry_scheduled s"
    using search_invD(2) [OF inv] by (simp add: query_ok_def in_flight_def retry_scheduled_iff)
  ultimately show ?thesis by blast
qed

section \<open>Replies\<close>

text \<open>The identifier of a request gives its generation back, for 2 to the 56 generations.\<close>

definition small_generation :: "u64 \<Rightarrow> bool" where
  "small_generation g \<longleftrightarrow> unat g < 2 ^ 56"

lemma unpack_small: "small_generation g \<Longrightarrow> unpack_request_id (pack_request_id g k) = (g, search_kind_code k)"
proof -
  assume "small_generation g"
  then have "g = take_bit 56 g"
    by (simp add: small_generation_def take_bit_eq_mod word_unat_eq_iff unat_mod)
  then show ?thesis unfolding unpack_pack by simp
qed

text \<open>The identifier of a request that is out in a session.\<close>

definition outstanding :: "search_session \<Rightarrow> u64 \<Rightarrow> bool" where
  "outstanding s i \<longleftrightarrow> ss_pending s = Some i \<or> list_ex (\<lambda>k. ss_more_ids s k = Some i) GROUP_ORDER"

lemma outstanding_pack: "search_inv s \<Longrightarrow> outstanding s i \<Longrightarrow> \<exists>k. i = pack_request_id (ss_generation s) k"
  using search_invD(1,4) [of s] by (fastforce simp: outstanding_def list_ex_iff combined_ok_def more_ok_def)

text \<open>
  A superseded request never reaches the screen: once a newer query has been sent, or the
  query was cleared, the reply to any request that was out before changes nothing, whatever happened
  in between and whatever it holds; nor does a reply to a request that is not out.
\<close>
lemma superseded_reply_ignored:
  assumes "search_step\<^sup>*\<^sup>* search_session_new s" and "outstanding s i"
    and "small_generation (ss_generation s)" and "ss_generation t \<noteq> ss_generation s \<or> \<not> outstanding t i"
  shows "apply_reply i result now t = t"
proof -
  have inv: "search_inv s" by (rule search.reachable_inv [OF refl assms(1)])
  then obtain k where i: "i = pack_request_id (ss_generation s) k"
    using outstanding_pack assms(2) by blast
  show ?thesis
  proof (cases "outstanding t i")
    case True
    then have "ss_generation t \<noteq> ss_generation s" using assms(4) by blast
    then show ?thesis unfolding apply_reply_def i unpack_small [OF assms(3)] by simp
  next
    case False
    then show ?thesis
      by (auto simp: apply_reply_def outstanding_def list_ex_iff split: prod.split option.split)
  qed
qed

text \<open>The retry of a combined request that was rate limited, with the delay for its attempt.\<close>

definition combined_retry_of :: "search_session \<Rightarrow> nat \<Rightarrow> nat option \<Rightarrow> retry" where
  "combined_retry_of s now retry_after = retry_at now (ss_combined_retry s) retry_after"

text \<open>
  C20. Every answered search settles. When the combined request is out and its answer arrives while
  online, then no group waits any more and the spinner is gone (unless the next query is being
  typed); and when the answer is that the service is rate limited, a retry is scheduled: ticks before
  its time send nothing, the first tick at or after it sends the same request again.
\<close>
theorem search_settles:
  assumes "search_step\<^sup>*\<^sup>* search_session_new s" and "ss_pending s = Some i"
    and "\<not> ss_offline s" and "small_generation (ss_generation s)"
  shows "let s' = apply_reply i result now s in
    (case result of
       Inl (CatalogRateLimited retry_after) \<Rightarrow>
         (let due = now + backoff_delay (next_attempt (ss_combined_retry s)) retry_after in
          retry_scheduled s' \<and>
          (ss_debounce s = None \<longrightarrow> \<not> in_flight s' \<and>
            (t < due \<longrightarrow> search_tick t s' = (s', [])) \<and>
            (due \<le> t \<longrightarrow> snd (search_tick t s') = [combined_command s] \<and> sc_request_id (combined_command s) = i)))
     | _ \<Rightarrow> settled (ss_groups s' k) \<and> \<not> retry_scheduled s' \<and> (in_flight s' \<longleftrightarrow> ss_debounce s \<noteq> None))"
proof -
  have inv: "search_inv s" by (rule search.reachable_inv [OF refl assms(1)])
  have out: "ss_pending s \<noteq> None" using assms(2) by simp
  have i: "i = pack_request_id (ss_generation s) KindTrack"
    using search_invD(1) [OF inv] assms(2) by (simp add: combined_ok_def)
  have no: "ss_more_ids s k = None" "ss_more_retries s k = None" for k
    using combined_no_more [OF inv, of k] out by simp_all
  have reply: "apply_reply i result now s = apply_combined_reply result now s"
    using assms(2,3) unfolding apply_reply_def i unpack_small [OF assms(4)] by simp
  have all: "settle_pending g (\<lambda>_. GroupPending) = (\<lambda>_. g)" for g by (simp add: settle_pending_def fun_eq_iff)
  note combined = apply_combined_reply_def Let_def combined_restored [OF inv out]
  show ?thesis
  proof (cases result)
    case (Inr page)
    then show ?thesis
      unfolding reply combined
      by (simp add: settle_combined retry_scheduled_iff no in_flight_def)
  next
    case (Inl e)
    show ?thesis
    proof (cases e)
      case (CatalogRateLimited ra)
      have s': "apply_combined_reply result now s =
          s\<lparr>ss_pending := None, ss_combined_retry := Some (retry_at now (ss_combined_retry s) ra),
            ss_groups := \<lambda>_. GroupRateLimited None None\<rparr>" (is "_ = ?s'")
        unfolding combined by (simp add: Inl CatalogRateLimited all)
      have none: "due_more t k u = (u, [])" if "ss_more_retries u = ss_more_retries s" for k u
        using that by (simp add: due_more_def no)
      have mores: "due_mores t ks (u, cs) = (u, cs)" if "ss_more_retries u = ss_more_retries s" for ks cs u
        using none [OF that] by (induction ks arbitrary: cs) simp_all
      show ?thesis
        unfolding reply s'
        using assms(3)
        by (auto simp: Inl CatalogRateLimited Let_def retry_scheduled_iff in_flight_def search_tick_def due_retries_def
            due_combined_def mores retry_at_def combined_command_def i)
    qed (unfold reply combined, simp_all add: Inl all retry_scheduled_iff no in_flight_def)
  qed
qed

text \<open>
  A further page of a group is appended to what the group shows, whether its request was
  answered at once or after any number of rate limits and retries; the other groups stay as they
  are, and the group can be extended again exactly when the page says so.
\<close>
lemma more_page_appends:
  assumes "search_step\<^sup>*\<^sup>* search_session_new s" and "ss_more_ids s k = Some i"
    and "\<not> ss_offline s" and "small_generation (ss_generation s)"
  shows "let s' = apply_reply i (Inr \<lparr>sp_groups = [\<lparr>gp_kind = k, gp_items = xs, gp_next_offset = nx\<rparr>],
      sp_unsupported = []\<rparr>) now s in
    ss_groups s' = (ss_groups s)(k := GroupLoaded (group_items (ss_groups s k) @ xs) nx False) \<and>
    ss_more_retries s' k = None \<and>
    (snd (show_more k s') \<noteq> None \<longleftrightarrow> nx \<noteq> None)"
proof -
  have inv: "search_inv s" by (rule search.reachable_inv [OF refl assms(1)])
  have out: "ss_more_ids s k \<noteq> None" using assms(2) by simp
  have pending: "ss_pending s = None" using combined_no_more [OF inv, of k] out by blast
  have i: "i = pack_request_id (ss_generation s) k"
    using search_invD(4) [OF inv, of k] assms(2) by (simp add: more_ok_def)
  let ?page = "Inr \<lparr>sp_groups = [\<lparr>gp_kind = k, gp_items = xs, gp_next_offset = nx\<rparr>], sp_unsupported = []\<rparr>"
  have reply: "apply_reply i ?page now s = apply_more_reply k ?page now s"
    using assms(2,3) pending unfolding apply_reply_def i unpack_small [OF assms(4)] by simp
  obtain off where restored: "(if ss_more_retries s k = None then ss_groups s
      else case ss_groups s k of
             GroupRateLimited (Some items) resume \<Rightarrow> (ss_groups s)(k := GroupLoaded items resume True)
           | _ \<Rightarrow> ss_groups s) =
     (ss_groups s)(k := GroupLoaded (group_items (ss_groups s k)) (Some off) True)"
    using more_restored [OF inv out] by blast
  show ?thesis
    unfolding reply apply_more_reply_def Let_def restored
    by (cases nx) (simp_all add: apply_page_def apply_group_page_def show_more_def)
qed

section \<open>Where the code leaves its contract\<close>

lemma tick_waiting:
  assumes "ss_debounce s = None" and "\<not> retry_scheduled s"
  shows "search_tick t s = (s, [])"
proof -
  have none: "due_more t k s = (s, [])" for k using assms(2) by (simp add: due_more_def retry_scheduled_iff)
  have "due_mores t ks (s, cs) = (s, cs)" for ks cs by (induction ks arbitrary: cs) (simp_all add: none)
  then show ?thesis
    using assms by (simp add: search_tick_def due_retries_def due_combined_def retry_scheduled_iff)
qed

text \<open>
  A search whose answer arrives while offline never ends. Its answer is discarded, and nothing
  sends the query again: after reconnecting, whatever ticks follow, every group stays pending and the
  spinner stays on. (A connection lost while a search is under way is specified not to leave a
  hung view.)
\<close>
lemma reply_lost_offline_hangs:
  assumes "search_step\<^sup>*\<^sup>* search_session_new s" and "ss_pending s = Some i"
    and "ss_combined_retry s = None" and "ss_debounce s = None"
  shows "let s' = set_offline False (apply_reply i result now (set_offline True s)) in
    foldl (\<lambda>s t. fst (search_tick t s)) s' ts = s' \<and> in_flight s' \<and> ss_groups s' k = GroupPending"
proof -
  have inv: "search_inv s" by (rule search.reachable_inv [OF refl assms(1)])
  have no: "\<not> retry_scheduled s"
    using combined_no_more [OF inv] assms(2,3) by (auto simp: retry_scheduled_iff)
  then have off: "set_offline True s = s\<lparr>ss_offline := True\<rparr>"
    by (simp add: set_offline_def Let_def retry_scheduled_def)
  have s': "set_offline False (apply_reply i result now (set_offline True s)) = s\<lparr>ss_offline := False\<rparr>"
    unfolding off by (simp add: apply_reply_def set_offline_def)
  have "search_tick t (s\<lparr>ss_offline := False\<rparr>) = (s\<lparr>ss_offline := False\<rparr>, [])" for t
    by (rule tick_waiting) (use assms(4) no in \<open>simp_all add: retry_scheduled_def\<close>)
  then have "foldl (\<lambda>s t. fst (search_tick t s)) (s\<lparr>ss_offline := False\<rparr>) ts = s\<lparr>ss_offline := False\<rparr>"
    by (induction ts) simp_all
  moreover have "ss_groups s k = GroupPending"
    using search_invD(1) [OF inv] assms(2,3) by (simp add: combined_ok_def)
  ultimately show ?thesis using assms(2,3) by (simp add: s' in_flight_def)
qed

section \<open>Concrete sessions\<close>

definition demo_hit :: "nat \<Rightarrow> search_hit" where
  "demo_hit n = HitArtist \<lparr>at_id = ArtistId [n], at_name = [n], at_artwork_url = None\<rparr>"

definition demo_page :: "search_hit list \<Rightarrow> nat option \<Rightarrow> search_page" where
  "demo_page xs nx =
     \<lparr>sp_groups = [\<lparr>gp_kind = KindArtist, gp_items = xs, gp_next_offset = nx\<rparr>], sp_unsupported = []\<rparr>"

definition demo_typed :: search_session where "demo_typed = set_query [97, 98] 0 search_session_new"
definition demo_sent :: search_session where "demo_sent = fst (search_tick 150 demo_typed)"
definition demo_shown :: search_session where
  "demo_shown = apply_reply (pack_request_id 1 KindTrack) (Inr (demo_page [demo_hit 1] (Some 1))) 200 demo_sent"
definition demo_more :: search_session where "demo_more = fst (show_more KindArtist demo_shown)"

lemma demo_typed_value: "demo_typed = search_session_new\<lparr>ss_raw_query := [97, 98], ss_query := [97, 98], ss_debounce := Some 150\<rparr>"
  by (simp add: demo_typed_def set_query_def search_session_new_def trim_def is_whitespace_def cancel_retries_def
      clear_retries_def issued_def SEARCH_DEBOUNCE_def Let_def)

lemma demo_sent_value: "demo_sent = search_session_new\<lparr>ss_raw_query := [97, 98], ss_query := [97, 98],
    ss_generation := 1, ss_groups := (\<lambda>_. GroupPending), ss_pending := Some (pack_request_id 1 KindTrack)\<rparr>"
  by (simp add: demo_sent_def demo_typed_value search_tick_def search_session_new_def clear_retries_def Let_def)

lemma demo_shown_value: "demo_shown = demo_sent\<lparr>ss_pending := None,
    ss_groups := (\<lambda>_. GroupEmpty)(KindArtist := GroupLoaded [demo_hit 1] (Some 1) False)\<rparr>"
proof -
  have one: "unpack_request_id (pack_request_id 1 KindTrack) = (1, 0)"
    by (simp add: unpack_small small_generation_def)
  show ?thesis
    unfolding demo_shown_def apply_reply_def one
    by (simp add: demo_sent_value search_session_new_def apply_combined_reply_def demo_page_def apply_page_def
        apply_group_page_def settle_pending_def fun_eq_iff)
qed

lemma demo_more_value: "demo_more = demo_shown\<lparr>ss_groups := (\<lambda>_. GroupEmpty)(KindArtist := GroupLoaded [demo_hit 1] (Some 1) True),
    ss_more_ids := [KindArtist \<mapsto> pack_request_id 1 KindArtist]\<rparr>"
  by (simp add: demo_more_def demo_shown_value demo_sent_value search_session_new_def show_more_def)

lemma search_stepI: "event_ok ev s \<Longrightarrow> search_step s (search_apply ev s)"
  by (auto simp: search_step_def)

lemma demo_sent_reachable: "search_step\<^sup>*\<^sup>* search_session_new demo_sent"
proof -
  have "search_step search_session_new demo_typed"
    using search_stepI [of "EvSetQuery [97, 98] 0"] by (simp add: demo_typed_def)
  moreover have "search_step demo_typed demo_sent"
    using search_stepI [of "EvSearchTick 150"] by (simp add: demo_sent_def)
  ultimately show ?thesis by (meson rtranclp.rtrancl_into_rtrancl rtranclp.rtrancl_refl)
qed

lemma demo_more_reachable: "search_step\<^sup>*\<^sup>* search_session_new demo_more"
proof -
  have "event_ok (EvReply (pack_request_id 1 KindTrack) (Inr (demo_page [demo_hit 1] (Some 1))) 200) demo_sent"
    by (simp add: demo_sent_value search_session_new_def)
  then have "search_step demo_sent demo_shown"
    using search_stepI by (metis demo_shown_def search_apply.simps(5))
  moreover have "search_step demo_shown demo_more"
    using search_stepI [of "EvShowMore KindArtist"] by (simp add: demo_more_def)
  ultimately show ?thesis using demo_sent_reachable by (meson rtranclp.rtrancl_into_rtrancl)
qed

lemma small_one: "small_generation 1"
  by (simp add: small_generation_def)

lemma search_screen_truthful_witness: "ss_pending demo_sent = Some (pack_request_id 1 KindTrack)"
  using search_screen_truthful [OF demo_sent_reachable, of KindAlbum]
  by (simp add: demo_sent_value search_session_new_def)

lemma superseded_reply_ignored_witness:
  "apply_reply (pack_request_id 1 KindTrack) (Inr (demo_page [demo_hit 1] None)) 300 (reset_to_idle demo_sent) = reset_to_idle demo_sent"
  by (rule superseded_reply_ignored [OF demo_sent_reachable])
    (simp_all add: outstanding_def demo_sent_value search_session_new_def reset_to_idle_def clear_retries_def small_one)

lemma search_settles_witness:
  "snd (search_tick 2200 (apply_reply (pack_request_id 1 KindTrack) (Inl (CatalogRateLimited (Some 2000))) 200 demo_sent)) =
     [combined_command demo_sent]"
  using search_settles [OF demo_sent_reachable, where i = "pack_request_id 1 KindTrack" and
      result = "Inl (CatalogRateLimited (Some 2000))" and now = 200 and t = 2200]
  by (simp add: demo_sent_value search_session_new_def small_one Let_def backoff_delay_def SYNC_BACKOFF_MAX_def)

lemma more_page_appends_witness:
  "ss_groups (apply_reply (pack_request_id 1 KindArtist) (Inr (demo_page [demo_hit 2] None)) 300 demo_more) KindArtist =
     GroupLoaded [demo_hit 1, demo_hit 2] None False"
  using more_page_appends [OF demo_more_reachable, of KindArtist "pack_request_id 1 KindArtist" "[demo_hit 2]" None 300]
  by (simp add: demo_more_value demo_shown_value demo_sent_value search_session_new_def small_one Let_def group_items_def
      demo_page_def)

lemma reply_lost_offline_hangs_witness:
  "in_flight (set_offline False (apply_reply (pack_request_id 1 KindTrack) (Inl CatalogOffline) 200 (set_offline True demo_sent)))"
  using reply_lost_offline_hangs [OF demo_sent_reachable, of "pack_request_id 1 KindTrack" "Inl CatalogOffline" 200 "[]" KindTrack]
  by (simp add: demo_sent_value search_session_new_def Let_def)

text \<open>
  While the user keeps typing, until the debounce has run out, the answer to the query before is still
  shown, under the new query (it is specified to be discarded on arrival), and a "Show more" of an
  earlier query asks for a page of the new one.
\<close>

lemma old_reply_shown_while_typing:
  "let s = apply_reply (pack_request_id 1 KindTrack) (Inr (demo_page [demo_hit 1] (Some 1))) 170 (set_query [99] 160 demo_sent)
   in ss_query s = [99] \<and> ss_groups s KindArtist = GroupLoaded [demo_hit 1] (Some 1) False"
proof -
  have one: "unpack_request_id (pack_request_id 1 KindTrack) = (1, 0)"
    by (simp add: unpack_small small_one)
  show ?thesis
    unfolding apply_reply_def one
    by (simp add: demo_sent_value search_session_new_def apply_combined_reply_def demo_page_def apply_page_def
        apply_group_page_def settle_pending_def set_query_def cancel_retries_def clear_retries_def issued_def
        trim_def is_whitespace_def Let_def)
qed

lemma show_more_mixes_queries:
  "map_option sc_query (snd (show_more KindArtist (set_query [99] 210 demo_shown))) = Some [99]"
  by (simp add: demo_shown_value demo_sent_value search_session_new_def set_query_def cancel_retries_def
      clear_retries_def issued_def trim_def is_whitespace_def show_more_def more_command_def Let_def)

end
