(* ===== verification/Timers.thy ===== *)
theory Timers
  imports Prelude
begin

text \<open>
  The timers of a plugin (\<^verbatim>\<open>crates/modplayer-plugin-runtime/src/timers.rs\<close>): timeouts,
  intervals and timers at a playback position. The \<^verbatim>\<open>BTreeMap\<close> of deadlines is the list
  of its entries by increasing key, the \<^verbatim>\<open>HashMap\<close> of kinds a list of entries with
  distinct keys (its iteration order is not specified by Rust). Times are nanoseconds.
\<close>

section \<open>The set of timers\<close>

definition MAX_TIMERS :: nat where "MAX_TIMERS = 256"
definition MIN_INTERVAL :: nat where "MIN_INTERVAL = 1000000"

datatype timer = Timeout | Interval nat | AtPosition nat

type_synonym deadline_map = "(nat \<times> nat list) list"

record timer_set =
  tm_next_handle :: nat
  tm_deadlines :: deadline_map
  tm_kinds :: "(nat \<times> timer) list"

definition timer_set_new :: timer_set where
  "timer_set_new = \<lparr>tm_next_handle = 0, tm_deadlines = [], tm_kinds = []\<rparr>"

text \<open>\<^verbatim>\<open>deadlines.entry(t).or_default().push(h)\<close>.\<close>

fun push_deadline :: "nat \<Rightarrow> nat \<Rightarrow> deadline_map \<Rightarrow> deadline_map" where
  "push_deadline t h [] = [(t, [h])]"
| "push_deadline t h ((u, hs) # m) =
     (if t < u then (t, [h]) # (u, hs) # m
      else if t = u then (u, hs @ [h]) # m
      else (u, hs) # push_deadline t h m)"

definition insert_kind :: "nat \<Rightarrow> timer \<Rightarrow> (nat \<times> timer) list \<Rightarrow> (nat \<times> timer) list" where
  "insert_kind h k ks = (h, k) # filter (\<lambda>e. fst e \<noteq> h) ks"

definition remove_kind :: "nat \<Rightarrow> (nat \<times> timer) list \<Rightarrow> (nat \<times> timer) list" where
  "remove_kind h ks = filter (\<lambda>e. fst e \<noteq> h) ks"

definition alloc_handle :: "timer_set \<Rightarrow> nat \<times> timer_set" where
  "alloc_handle s = (tm_next_handle s + 1, s\<lparr>tm_next_handle := tm_next_handle s + 1\<rparr>)"

definition schedule :: "nat \<Rightarrow> bool \<Rightarrow> nat \<Rightarrow> timer_set \<Rightarrow> timer_set \<times> nat option" where
  "schedule delay repeating now s =
     (if MAX_TIMERS \<le> length (tm_kinds s) \<or> delay < MIN_INTERVAL then (s, None)
      else case alloc_handle s of (h, s') \<Rightarrow>
        (s'\<lparr>tm_kinds := insert_kind h (if repeating then Interval delay else Timeout) (tm_kinds s'),
            tm_deadlines := push_deadline (now + delay) h (tm_deadlines s')\<rparr>, Some h))"

definition schedule_at_position :: "nat \<Rightarrow> timer_set \<Rightarrow> timer_set \<times> nat option" where
  "schedule_at_position target s =
     (if MAX_TIMERS \<le> length (tm_kinds s) then (s, None)
      else case alloc_handle s of (h, s') \<Rightarrow>
        (s'\<lparr>tm_kinds := insert_kind h (AtPosition target) (tm_kinds s')\<rparr>, Some h))"

definition clear_timer :: "nat \<Rightarrow> timer_set \<Rightarrow> timer_set \<times> bool" where
  "clear_timer h s =
     (if map_of (tm_kinds s) h = None then (s, False)
      else (s\<lparr>tm_kinds := remove_kind h (tm_kinds s),
              tm_deadlines := filter (\<lambda>e. snd e \<noteq> [])
                (map (\<lambda>(t, hs). (t, filter (\<lambda>x. x \<noteq> h) hs)) (tm_deadlines s))\<rparr>, True))"

definition next_deadline :: "timer_set \<Rightarrow> nat option" where
  "next_deadline s = (case tm_deadlines s of [] \<Rightarrow> None | (t, _) # _ \<Rightarrow> Some t)"

definition drain_handle :: "nat \<Rightarrow> nat \<Rightarrow> timer_set \<times> nat list \<Rightarrow> timer_set \<times> nat list" where
  "drain_handle now h sd =
     (case sd of (s, due) \<Rightarrow>
        case map_of (tm_kinds s) h of
          Some Timeout \<Rightarrow> (s\<lparr>tm_kinds := remove_kind h (tm_kinds s)\<rparr>, due @ [h])
        | Some (Interval period) \<Rightarrow>
            (s\<lparr>tm_deadlines := push_deadline (now + period) h (tm_deadlines s)\<rparr>, due @ [h])
        | _ \<Rightarrow> (s, due))"

definition drain_key :: "nat \<Rightarrow> nat \<Rightarrow> timer_set \<times> nat list \<Rightarrow> timer_set \<times> nat list" where
  "drain_key now t sd =
     (case sd of (s, due) \<Rightarrow>
        case map_of (tm_deadlines s) t of
          None \<Rightarrow> (s, due)
        | Some hs \<Rightarrow>
            fold (drain_handle now) hs
              (s\<lparr>tm_deadlines := filter (\<lambda>e. fst e \<noteq> t) (tm_deadlines s)\<rparr>, due))"

definition drain_due :: "nat \<Rightarrow> timer_set \<Rightarrow> timer_set \<times> nat list" where
  "drain_due now s = fold (drain_key now) (filter (\<lambda>t. t \<le> now) (map fst (tm_deadlines s))) (s, [])"

definition reached :: "nat \<Rightarrow> timer \<Rightarrow> bool" where
  "reached pos k = (case k of AtPosition target \<Rightarrow> target \<le> pos | _ \<Rightarrow> False)"

definition check_position :: "nat \<Rightarrow> timer_set \<Rightarrow> timer_set \<times> nat list" where
  "check_position pos s =
     (s\<lparr>tm_kinds := filter (\<lambda>e. \<not> reached pos (snd e)) (tm_kinds s)\<rparr>,
      map fst (filter (\<lambda>e. reached pos (snd e)) (tm_kinds s)))"

definition is_at_position :: "timer \<Rightarrow> bool" where
  "is_at_position k = (case k of AtPosition _ \<Rightarrow> True | _ \<Rightarrow> False)"

definition cancel_position_timers :: "timer_set \<Rightarrow> timer_set" where
  "cancel_position_timers s = s\<lparr>tm_kinds := filter (\<lambda>e. \<not> is_at_position (snd e)) (tm_kinds s)\<rparr>"

section \<open>The timers as a map\<close>

text \<open>
  The abstract specification: a map from handles to timers, each with its deadline unless it waits
  for a position. The entries of the deadlines, flattened, say when each handle is due.
\<close>

definition entries :: "deadline_map \<Rightarrow> (nat \<times> nat) list" where
  "entries m = concat (map (\<lambda>(t, hs). map (\<lambda>h. (h, t)) hs) m)"

definition timers_view :: "timer_set \<Rightarrow> nat \<Rightarrow> (timer \<times> nat option) option" where
  "timers_view s h =
     (case map_of (tm_kinds s) h of
        None \<Rightarrow> None
      | Some k \<Rightarrow> Some (k, map_of (entries (tm_deadlines s)) h))"

definition timers_ok :: "timer_set \<Rightarrow> bool" where
  "timers_ok s \<longleftrightarrow>
     sorted_wrt (<) (map fst (tm_deadlines s)) \<and>
     (\<forall>e\<in>set (tm_deadlines s). snd e \<noteq> []) \<and>
     distinct (map fst (entries (tm_deadlines s))) \<and>
     distinct (map fst (tm_kinds s)) \<and>
     fst ` set (entries (tm_deadlines s)) = fst ` {e \<in> set (tm_kinds s). \<not> is_at_position (snd e)} \<and>
     (\<forall>e\<in>set (tm_kinds s). fst e \<le> tm_next_handle s \<and> (\<forall>p. snd e = Interval p \<longrightarrow> MIN_INTERVAL \<le> p)) \<and>
     length (tm_kinds s) \<le> MAX_TIMERS"

lemma entries_Nil [simp]: "entries [] = []"
  by (simp add: entries_def)

lemma entries_Cons [simp]: "entries ((t, hs) # m) = map (\<lambda>h. (h, t)) hs @ entries m"
  by (simp add: entries_def)

lemma entries_append [simp]: "entries (l @ m) = entries l @ entries m"
  by (simp add: entries_def)

lemma mset_entries_push: "mset (entries (push_deadline t h m)) = add_mset (h, t) (mset (entries m))"
  by (induction t h m rule: push_deadline.induct) auto

lemma set_entries_push [simp]: "set (entries (push_deadline t h m)) = insert (h, t) (set (entries m))"
  using mset_entries_push [of t h m] by (metis set_mset_add_mset_insert set_mset_mset)

lemma keys_push [simp]: "fst ` set (push_deadline t h m) = insert t (fst ` set m)"
  by (induction t h m rule: push_deadline.induct) auto

lemma sorted_push: "sorted_wrt (<) (map fst m) \<Longrightarrow> sorted_wrt (<) (map fst (push_deadline t h m))"
proof (induction t h m rule: push_deadline.induct)
  case (2 t h u hs m)
  have "\<forall>x\<in>set m. u < fst x" using "2.prems" by auto
  moreover have "x \<in> fst ` set (push_deadline t h m) \<longleftrightarrow> x = t \<or> x \<in> fst ` set m" for x by simp
  ultimately show ?case using 2 by (fastforce simp: image_iff)
qed simp

lemma nonempty_push: "\<forall>e\<in>set m. snd e \<noteq> [] \<Longrightarrow> \<forall>e\<in>set (push_deadline t h m). snd e \<noteq> []"
  by (induction t h m rule: push_deadline.induct) auto

lemma distinct_push:
  "distinct (map fst (entries m)) \<Longrightarrow> h \<notin> fst ` set (entries m) \<Longrightarrow> distinct (map fst (entries (push_deadline t h m)))"
proof -
  assume "distinct (map fst (entries m))" "h \<notin> fst ` set (entries m)"
  then have "distinct (map fst ((h, t) # entries m))" by simp
  moreover have "mset (map fst (entries (push_deadline t h m))) = mset (map fst ((h, t) # entries m))"
    by (simp add: mset_entries_push)
  ultimately show ?thesis using mset_eq_imp_distinct_iff by blast
qed

text \<open>A deadline after all the entries of a prefix goes into the rest.\<close>

lemma push_append: "\<forall>e\<in>set r. fst e < t \<Longrightarrow> push_deadline t h (r @ l) = r @ push_deadline t h l"
  by (induction r) auto

section \<open>Each operation on the map\<close>

lemma insert_kind_map [simp]: "map_of (insert_kind h k ks) = (map_of ks)(h \<mapsto> k)"
proof -
  have "map_of (filter (\<lambda>e. fst e \<noteq> h) ks) x = (if x = h then None else map_of ks x)" for x
    by (induction ks) auto
  then show ?thesis by (auto simp: insert_kind_def fun_eq_iff)
qed

lemma map_of_filter_key: "map_of (filter (\<lambda>e. P (fst e)) ks) x = (if P x then map_of ks x else None)"
  by (induction ks) auto

lemma distinct_filter_key: "distinct (map fst ks) \<Longrightarrow> distinct (map fst (filter P ks))"
  by (induction ks) auto

lemma map_of_filter_value:
  "distinct (map fst ks) \<Longrightarrow>
   map_of (filter (\<lambda>e. P (snd e)) ks) x = (case map_of ks x of Some k \<Rightarrow> if P k then Some k else None | None \<Rightarrow> None)"
proof (induction ks)
  case (Cons e ks)
  obtain y k where e: "e = (y, k)" by (cases e)
  have "map_of ks y = None" using Cons.prems by (simp add: e map_of_eq_None_iff)
  with Cons show ?case by (auto simp: e split: option.splits)
qed simp

lemma timers_okD:
  assumes "timers_ok s"
  shows "sorted_wrt (<) (map fst (tm_deadlines s))" "\<forall>e\<in>set (tm_deadlines s). snd e \<noteq> []"
    "distinct (map fst (entries (tm_deadlines s)))" "distinct (map fst (tm_kinds s))"
    "fst ` set (entries (tm_deadlines s)) = fst ` {e \<in> set (tm_kinds s). \<not> is_at_position (snd e)}"
    "\<forall>e\<in>set (tm_kinds s). fst e \<le> tm_next_handle s \<and> (\<forall>p. snd e = Interval p \<longrightarrow> MIN_INTERVAL \<le> p)"
    "length (tm_kinds s) \<le> MAX_TIMERS"
  using assms by (simp_all add: timers_ok_def)

lemma scheduled_iff:
  assumes "timers_ok s"
  shows "h \<in> fst ` set (entries (tm_deadlines s)) \<longleftrightarrow> (\<exists>k. map_of (tm_kinds s) h = Some k \<and> \<not> is_at_position k)"
  unfolding timers_okD(5) [OF assms] using timers_okD(4) [OF assms] by (auto simp: image_iff)

lemma fresh_handle: "timers_ok s \<Longrightarrow> tm_next_handle s < h \<Longrightarrow> map_of (tm_kinds s) h = None"
  using timers_okD(6) by (fastforce simp: map_of_eq_None_iff)

lemma filter_fresh: "h \<notin> fst ` set ks \<Longrightarrow> filter (\<lambda>e. fst e \<noteq> h) ks = ks"
  by (rule filter_True) auto

text \<open>Scheduling adds one timer under a handle never used before.\<close>

lemma map_of_entries_push:
  assumes "distinct (map fst (entries m))" and "h \<notin> fst ` set (entries m)"
  shows "map_of (entries (push_deadline t h m)) = (map_of (entries m))(h \<mapsto> t)"
proof
  fix x
  have d: "distinct (map fst (entries (push_deadline t h m)))" by (rule distinct_push [OF assms])
  have "map_of (entries (push_deadline t h m)) x = Some u \<longleftrightarrow> ((map_of (entries m))(h \<mapsto> t)) x = Some u" for u
    using assms map_of_eq_Some_iff [OF d, of x u] map_of_eq_Some_iff [OF assms(1), of x u] by (force simp: image_iff)
  then show "map_of (entries (push_deadline t h m)) x = ((map_of (entries m))(h \<mapsto> t)) x"
    by (metis option.exhaust)
qed

lemma schedule_view:
  assumes ok: "timers_ok s"
  shows "schedule delay repeating now s =
      (if length (tm_kinds s) = MAX_TIMERS \<or> delay < MIN_INTERVAL then (s, None)
       else (fst (schedule delay repeating now s), Some (tm_next_handle s + 1)))"
    and "length (tm_kinds s) < MAX_TIMERS \<Longrightarrow> MIN_INTERVAL \<le> delay \<Longrightarrow>
      timers_view (fst (schedule delay repeating now s)) =
        (timers_view s)(tm_next_handle s + 1 \<mapsto> (if repeating then Interval delay else Timeout, Some (now + delay)))"
    and "timers_ok (fst (schedule delay repeating now s))"
proof -
  let ?h = "tm_next_handle s + 1"
  let ?k = "if repeating then Interval delay else Timeout"
  have fresh: "map_of (tm_kinds s) ?h = None" using fresh_handle [OF ok] by simp
  then have unused: "?h \<notin> fst ` set (entries (tm_deadlines s))" using scheduled_iff [OF ok] by simp
  have kinds: "?h \<notin> fst ` set (tm_kinds s)" using fresh by (simp add: map_of_eq_None_iff)
  note d = timers_okD [OF ok]
  have push: "map_of (entries (push_deadline t (Suc (tm_next_handle s)) (tm_deadlines s))) =
      (map_of (entries (tm_deadlines s)))(Suc (tm_next_handle s) \<mapsto> t)" for t
    using map_of_entries_push [OF d(3) unused] by simp
  show "schedule delay repeating now s =
      (if length (tm_kinds s) = MAX_TIMERS \<or> delay < MIN_INTERVAL then (s, None)
       else (fst (schedule delay repeating now s), Some (tm_next_handle s + 1)))"
    using d(7) by (auto simp: schedule_def alloc_handle_def)
  show "timers_view (fst (schedule delay repeating now s)) =
        (timers_view s)(?h \<mapsto> (?k, Some (now + delay)))"
    if "length (tm_kinds s) < MAX_TIMERS" "MIN_INTERVAL \<le> delay"
    using that by (auto simp: schedule_def alloc_handle_def timers_view_def push fun_eq_iff split: option.split)
  have "timers_ok (s\<lparr>tm_next_handle := ?h, tm_kinds := insert_kind ?h k (tm_kinds s),
      tm_deadlines := push_deadline (now + delay) ?h (tm_deadlines s)\<rparr>)" (is "timers_ok ?s")
    if room: "length (tm_kinds s) < MAX_TIMERS" and k: "\<not> is_at_position k" "\<forall>p. k = Interval p \<longrightarrow> MIN_INTERVAL \<le> p" for k
    unfolding timers_ok_def
  proof (intro conjI)
    have ks: "insert_kind ?h k (tm_kinds s) = (?h, k) # tm_kinds s"
      using kinds by (simp add: insert_kind_def filter_fresh)
    show "sorted_wrt (<) (map fst (tm_deadlines ?s))" using sorted_push [OF d(1)] by simp
    show "\<forall>e\<in>set (tm_deadlines ?s). snd e \<noteq> []" using nonempty_push [OF d(2)] by simp
    show "distinct (map fst (entries (tm_deadlines ?s)))" using distinct_push [OF d(3) unused] by simp
    show "distinct (map fst (tm_kinds ?s))" using d(4) kinds by (simp add: ks [simplified])
    show "fst ` set (entries (tm_deadlines ?s)) = fst ` {e \<in> set (tm_kinds ?s). \<not> is_at_position (snd e)}"
      using d(5) k(1) by (auto simp: ks [simplified] image_iff)
    show "\<forall>e\<in>set (tm_kinds ?s). fst e \<le> tm_next_handle ?s \<and> (\<forall>p. snd e = Interval p \<longrightarrow> MIN_INTERVAL \<le> p)"
      using d(6) k(2) by (auto simp: ks [simplified])
    show "length (tm_kinds ?s) \<le> MAX_TIMERS" using room by (simp add: ks [simplified])
  qed
  from this [of ?k]
  have "length (tm_kinds s) < MAX_TIMERS \<Longrightarrow> MIN_INTERVAL \<le> delay \<Longrightarrow>
      timers_ok (s\<lparr>tm_next_handle := ?h, tm_kinds := insert_kind ?h ?k (tm_kinds s),
      tm_deadlines := push_deadline (now + delay) ?h (tm_deadlines s)\<rparr>)"
    by (simp add: is_at_position_def)
  with ok show "timers_ok (fst (schedule delay repeating now s))"
    by (simp add: schedule_def alloc_handle_def not_le not_less)
qed

lemma schedule_at_position_view:
  assumes ok: "timers_ok s"
  shows "length (tm_kinds s) < MAX_TIMERS \<Longrightarrow>
      timers_view (fst (schedule_at_position target s)) = (timers_view s)(tm_next_handle s + 1 \<mapsto> (AtPosition target, None))"
    and "timers_ok (fst (schedule_at_position target s))"
proof -
  let ?h = "Suc (tm_next_handle s)"
  have fresh: "map_of (tm_kinds s) ?h = None" using fresh_handle [OF ok] by simp
  then have unused: "?h \<notin> fst ` set (entries (tm_deadlines s))" using scheduled_iff [OF ok] by simp
  then have none: "map_of (entries (tm_deadlines s)) ?h = None" by (simp add: map_of_eq_None_iff)
  have kinds: "?h \<notin> fst ` set (tm_kinds s)" using fresh by (simp add: map_of_eq_None_iff)
  note d = timers_okD [OF ok]
  show "timers_view (fst (schedule_at_position target s)) = (timers_view s)(tm_next_handle s + 1 \<mapsto> (AtPosition target, None))"
    if "length (tm_kinds s) < MAX_TIMERS"
    using that by (auto simp: schedule_at_position_def alloc_handle_def timers_view_def none fun_eq_iff split: option.split)
  have "timers_ok (s\<lparr>tm_next_handle := ?h, tm_kinds := insert_kind ?h (AtPosition target) (tm_kinds s)\<rparr>)"
    if "length (tm_kinds s) < MAX_TIMERS"
    using d that kinds unfolding timers_ok_def
    by (auto simp: insert_kind_def filter_fresh is_at_position_def image_iff le_SucI)
  with ok show "timers_ok (fst (schedule_at_position target s))"
    by (simp add: schedule_at_position_def alloc_handle_def not_le)
qed

lemma entries_clear:
  "entries (filter (\<lambda>e. snd e \<noteq> []) (map (\<lambda>(t, hs). (t, filter (\<lambda>x. x \<noteq> h) hs)) m)) =
   filter (\<lambda>e. fst e \<noteq> h) (entries m)"
proof (induction m)
  case (Cons e m)
  obtain t hs where "e = (t, hs)" by (cases e)
  moreover have "filter (\<lambda>e. fst e \<noteq> h) (map (\<lambda>h. (h, t)) hs) = map (\<lambda>h. (h, t)) (filter (\<lambda>x. x \<noteq> h) hs)"
    by (induction hs) auto
  ultimately show ?case using Cons by auto
qed simp

lemma keys_clear:
  "sorted_wrt (<) (map fst m) \<Longrightarrow>
   sorted_wrt (<) (map fst (filter (\<lambda>e. snd e \<noteq> []) (map (\<lambda>(t, hs). (t, filter P hs)) m)))"
  by (induction m) (auto split: prod.splits)

lemma clear_timer_view:
  assumes ok: "timers_ok s"
  shows "timers_view (fst (clear_timer h s)) = (timers_view s)(h := None)"
    and "snd (clear_timer h s) \<longleftrightarrow> timers_view s h \<noteq> None"
    and "timers_ok (fst (clear_timer h s))"
proof -
  note d = timers_okD [OF ok]
  show "snd (clear_timer h s) \<longleftrightarrow> timers_view s h \<noteq> None"
    by (simp add: clear_timer_def timers_view_def split: option.split)
  have kinds: "map_of (remove_kind h (tm_kinds s)) x = (if x = h then None else map_of (tm_kinds s) x)" for x
    using map_of_filter_key [of "\<lambda>x. x \<noteq> h" "tm_kinds s"] by (simp add: remove_kind_def)
  have due: "map_of (filter (\<lambda>e. fst e \<noteq> h) es) x = (if x = h then None else map_of es x)" for x and es :: "(nat \<times> nat) list"
    using map_of_filter_key [of "\<lambda>x. x \<noteq> h" es] by simp
  show "timers_view (fst (clear_timer h s)) = (timers_view s)(h := None)"
    by (auto simp: clear_timer_def timers_view_def entries_clear kinds due fun_eq_iff split: option.split)
  show "timers_ok (fst (clear_timer h s))"
  proof (cases "map_of (tm_kinds s) h")
    case None
    with ok show ?thesis by (simp add: clear_timer_def)
  next
    case (Some k)
    have "length (remove_kind h (tm_kinds s)) \<le> MAX_TIMERS"
      using d(7) by (simp add: remove_kind_def le_trans [OF length_filter_le])
    moreover have "fst ` set (filter (\<lambda>e. fst e \<noteq> h) (entries (tm_deadlines s))) =
        fst ` {e \<in> set (remove_kind h (tm_kinds s)). \<not> is_at_position (snd e)}"
    proof -
      have "fst ` set (filter (\<lambda>e. fst e \<noteq> h) (entries (tm_deadlines s))) = fst ` set (entries (tm_deadlines s)) - {h}"
        by (auto simp: image_iff)
      also have "\<dots> = fst ` {e \<in> set (remove_kind h (tm_kinds s)). \<not> is_at_position (snd e)}"
        unfolding d(5) by (auto simp: remove_kind_def image_iff)
      finally show ?thesis .
    qed
    ultimately show ?thesis
      using d keys_clear [OF d(1), of "\<lambda>x. x \<noteq> h"]
      by (fastforce simp: clear_timer_def Some timers_ok_def entries_clear distinct_filter_key remove_kind_def)
  qed
qed

section \<open>Draining what is due\<close>

text \<open>The effect of the handles of one key: due intervals go to the later entries, timeouts vanish.\<close>

definition rearm :: "nat \<Rightarrow> (nat \<times> timer) list \<Rightarrow> nat list \<Rightarrow> deadline_map \<Rightarrow> deadline_map" where
  "rearm now ks hs m =
     fold (\<lambda>h m. case map_of ks h of Some (Interval p) \<Rightarrow> push_deadline (now + p) h m | _ \<Rightarrow> m) hs m"

definition without_timeouts :: "nat list \<Rightarrow> (nat \<times> timer) list \<Rightarrow> (nat \<times> timer) list" where
  "without_timeouts hs ks = filter (\<lambda>e. \<not> (fst e \<in> set hs \<and> snd e = Timeout)) ks"

definition timed :: "(nat \<times> timer) list \<Rightarrow> nat \<Rightarrow> bool" where
  "timed ks h = (case map_of ks h of Some k \<Rightarrow> \<not> is_at_position k | None \<Rightarrow> False)"

lemma rearm_Nil [simp]: "rearm now ks [] m = m"
  by (simp add: rearm_def)

lemma rearm_append: "rearm now ks (hs @ hs') m = rearm now ks hs' (rearm now ks hs m)"
  by (simp add: rearm_def)

lemma without_timeouts_map:
  "distinct (map fst ks) \<Longrightarrow> map_of (without_timeouts hs ks) x =
    (if x \<in> set hs \<and> map_of ks x = Some Timeout then None else map_of ks x)"
proof (induction ks)
  case (Cons e ks)
  have "map_of ks (fst e) = None" using Cons.prems by (simp add: map_of_eq_None_iff)
  with Cons show ?case by (auto simp: without_timeouts_def)
qed (simp add: without_timeouts_def)

lemma without_one:
  assumes "distinct (map fst ks)" and "map_of ks h = Some k"
  shows "without_timeouts [h] ks = (if k = Timeout then remove_kind h ks else ks)"
proof -
  have "snd e = k" if "e \<in> set ks" "fst e = h" for e
    using map_of_eq_Some_iff [OF assms(1), of h "snd e"] assms(2) that by (cases e) auto
  then show ?thesis
    unfolding without_timeouts_def remove_kind_def by (auto intro!: filter_cong filter_True)
qed

lemma rearm_cong: "(\<And>h. h \<in> set hs \<Longrightarrow> map_of ks h = map_of ks' h) \<Longrightarrow> rearm now ks hs m = rearm now ks' hs m"
  unfolding rearm_def by (intro fold_cong) auto

text \<open>With every key of the front at most now, intervals go to the back.\<close>

lemma drain_handles:
  assumes "distinct hs" and "distinct (map fst (tm_kinds s))" and "\<forall>h\<in>set hs. timed (tm_kinds s) h"
  shows "fold (drain_handle now) hs (s, due) =
    (s\<lparr>tm_deadlines := rearm now (tm_kinds s) hs (tm_deadlines s), tm_kinds := without_timeouts hs (tm_kinds s)\<rparr>, due @ hs)"
  using assms
proof (induction hs arbitrary: s due)
  case Nil
  then show ?case by (simp add: without_timeouts_def)
next
  case (Cons h hs)
  obtain k where k: "map_of (tm_kinds s) h = Some k" "\<not> is_at_position k"
    using Cons.prems(3) by (auto simp: timed_def split: option.splits)
  let ?s = "fst (drain_handle now h (s, due))"
  have step: "drain_handle now h (s, due) = (?s, due @ [h])"
    and ks: "tm_kinds ?s = without_timeouts [h] (tm_kinds s)"
    and dl: "tm_deadlines ?s = rearm now (tm_kinds s) [h] (tm_deadlines s)"
    and rest: "tm_next_handle ?s = tm_next_handle s"
    by (cases k; use k in \<open>simp add: drain_handle_def without_one [OF Cons.prems(2) k(1)] rearm_def is_at_position_def\<close>)+
  have same: "map_of (tm_kinds ?s) x = map_of (tm_kinds s) x" if "x \<in> set hs" for x
    using that Cons.prems(1) by (auto simp: ks without_timeouts_map [OF Cons.prems(2)])
  have "fold (drain_handle now) hs (?s, due @ [h]) =
      (?s\<lparr>tm_deadlines := rearm now (tm_kinds ?s) hs (tm_deadlines ?s), tm_kinds := without_timeouts hs (tm_kinds ?s)\<rparr>,
       (due @ [h]) @ hs)"
  proof (rule Cons.IH)
    show "distinct (map fst (tm_kinds ?s))"
      unfolding ks using Cons.prems(2) by (simp add: without_timeouts_def distinct_filter_key)
    show "\<forall>h\<in>set hs. timed (tm_kinds ?s) h" using Cons.prems(3) by (simp add: timed_def same)
  qed (use Cons.prems(1) in simp)
  moreover have "rearm now (tm_kinds ?s) hs (tm_deadlines ?s) = rearm now (tm_kinds s) (h # hs) (tm_deadlines s)"
    using rearm_cong [of hs "tm_kinds ?s" "tm_kinds s"] same rearm_append [of now "tm_kinds s" "[h]" hs]
    by (simp add: dl)
  moreover have "without_timeouts hs (tm_kinds ?s) = without_timeouts (h # hs) (tm_kinds s)"
    unfolding ks by (auto simp: without_timeouts_def intro!: filter_cong)
  ultimately show ?case using step rest by simp
qed

definition positive_periods :: "(nat \<times> timer) list \<Rightarrow> bool" where
  "positive_periods ks \<longleftrightarrow> (\<forall>h p. map_of ks h = Some (Interval p) \<longrightarrow> 0 < p)"

lemma rearm_back:
  assumes "positive_periods ks" and "\<forall>e\<in>set r. fst e \<le> now"
  shows "rearm now ks hs (r @ l) = r @ rearm now ks hs l"
proof (induction hs arbitrary: l)
  case (Cons h hs)
  have push: "push_deadline (now + p) h (r @ l) = r @ push_deadline (now + p) h l" if "map_of ks h = Some (Interval p)" for p
    by (rule push_append) (use assms that in \<open>fastforce simp: positive_periods_def\<close>)
  have "rearm now ks [h] (r @ l) = r @ rearm now ks [h] l"
    using push by (simp add: rearm_def split: option.split timer.split)
  with Cons show ?case using rearm_append [of now ks "[h]" hs] by (metis append_Cons append_Nil)
qed simp

lemma rearm_keys:
  assumes "positive_periods ks" and "\<forall>e\<in>set l. now < fst e"
  shows "\<forall>e\<in>set (rearm now ks hs l). now < fst e"
  using assms(2)
proof (induction hs arbitrary: l)
  case (Cons h hs)
  have "\<forall>e\<in>set (push_deadline (now + p) h l). now < fst e" if "0 < p" for p
  proof
    fix e assume "e \<in> set (push_deadline (now + p) h l)"
    then have "fst e \<in> insert (now + p) (fst ` set l)" by (metis imageI keys_push)
    with Cons.prems that show "now < fst e" by auto
  qed
  moreover have "rearm now ks [h] l = l \<or> (\<exists>p. 0 < p \<and> rearm now ks [h] l = push_deadline (now + p) h l)"
    using assms(1) by (auto simp: rearm_def positive_periods_def split: option.split timer.split)
  ultimately have "\<forall>e\<in>set (rearm now ks [h] l). now < fst e"
    using Cons.prems by metis
  then show ?case using Cons.IH [of "rearm now ks [h] l"] rearm_append [of now ks "[h]" hs l] by simp
qed simp

lemma drain_keys:
  assumes "tm_deadlines s = r @ l" and "sorted_wrt (<) (map fst r)" and "\<forall>e\<in>set r. fst e \<le> now"
    and "\<forall>e\<in>set l. now < fst e" and "distinct (concat (map snd r))" and "distinct (map fst (tm_kinds s))"
    and "\<forall>h\<in>set (concat (map snd r)). timed (tm_kinds s) h" and "positive_periods (tm_kinds s)"
  shows "fold (drain_key now) (map fst r) (s, due) =
    (s\<lparr>tm_deadlines := rearm now (tm_kinds s) (concat (map snd r)) l,
       tm_kinds := without_timeouts (concat (map snd r)) (tm_kinds s)\<rparr>, due @ concat (map snd r))"
  using assms
proof (induction r arbitrary: s l due)
  case Nil
  then show ?case by (simp add: without_timeouts_def)
next
  case (Cons e r)
  obtain t hs where e: "e = (t, hs)" by (cases e)
  let ?ks = "tm_kinds s"
  let ?s = "s\<lparr>tm_deadlines := r @ rearm now ?ks hs l, tm_kinds := without_timeouts hs ?ks\<rparr>"
  have keys: "t \<notin> fst ` set (r @ l)" using Cons.prems(2,3,4) by (force simp: e)
  have front: "map_of (tm_deadlines s) t = Some hs" "filter (\<lambda>e. fst e \<noteq> t) (tm_deadlines s) = r @ l"
    using filter_fresh [OF keys] by (simp_all add: Cons.prems(1) e)
  have key: "drain_key now t (s, due) = (?s, due @ hs)"
    using drain_handles [of hs "s\<lparr>tm_deadlines := r @ l\<rparr>" now due] Cons.prems(3,5,6,7,8)
    by (simp add: drain_key_def front e rearm_back)
  have same: "map_of (without_timeouts hs ?ks) x = map_of ?ks x" if "x \<in> set (concat (map snd r))" for x
    using that Cons.prems(5) without_timeouts_map [OF Cons.prems(6)] by (auto simp: e)
  have "fold (drain_key now) (map fst r) (?s, due @ hs) =
    (?s\<lparr>tm_deadlines := rearm now (tm_kinds ?s) (concat (map snd r)) (rearm now ?ks hs l),
       tm_kinds := without_timeouts (concat (map snd r)) (tm_kinds ?s)\<rparr>, (due @ hs) @ concat (map snd r))"
  proof (rule Cons.IH)
    show "\<forall>e\<in>set (rearm now ?ks hs l). now < fst e"
      by (rule rearm_keys) (use Cons.prems(4,8) in simp_all)
    show "\<forall>h\<in>set (concat (map snd r)). timed (tm_kinds ?s) h"
      using Cons.prems(7) same by (simp add: timed_def e)
    show "positive_periods (tm_kinds ?s)"
      using Cons.prems(8) without_timeouts_map [OF Cons.prems(6)] by (auto simp: positive_periods_def split: if_splits)
    show "distinct (map fst (tm_kinds ?s))" using Cons.prems(6) by (simp add: without_timeouts_def distinct_filter_key)
  qed (use Cons.prems in \<open>simp_all add: e\<close>)
  moreover have "rearm now (without_timeouts hs ?ks) (concat (map snd r)) (rearm now ?ks hs l) =
      rearm now ?ks (hs @ concat (map snd r)) l"
    using rearm_cong [of "concat (map snd r)" "without_timeouts hs ?ks" ?ks] same by (simp add: rearm_append)
  moreover have "without_timeouts (concat (map snd r)) (without_timeouts hs ?ks) = without_timeouts (hs @ concat (map snd r)) ?ks"
    by (auto simp: without_timeouts_def intro!: filter_cong)
  ultimately show ?case using key by (simp add: e)
qed

lemma handles_entries: "map fst (entries m) = concat (map snd m)"
  by (induction m) (auto simp: comp_def)

lemma sorted_split:
  "sorted_wrt (<) (map fst m) \<Longrightarrow> filter (\<lambda>e. fst e \<le> now) m @ filter (\<lambda>e. \<not> fst e \<le> now) m = (m :: (nat \<times> 'b) list)"
proof (induction m)
  case (Cons e m)
  show ?case
  proof (cases "fst e \<le> now")
    case False
    then have "\<forall>x\<in>set m. \<not> fst x \<le> now" using Cons.prems by fastforce
    then have "filter (\<lambda>e. fst e \<le> now) m = []" "filter (\<lambda>e. \<not> fst e \<le> now) m = m"
      by (auto simp: filter_empty_conv intro: filter_True)
    with False show ?thesis by simp
  qed (use Cons in simp)
qed simp

text \<open>The whole of \<open>drain_due\<close>, in one equation.\<close>

definition early_part :: "nat \<Rightarrow> deadline_map \<Rightarrow> deadline_map" where
  "early_part now m = filter (\<lambda>e. fst e \<le> now) m"

definition late_part :: "nat \<Rightarrow> deadline_map \<Rightarrow> deadline_map" where
  "late_part now m = filter (\<lambda>e. \<not> fst e \<le> now) m"

definition due_handles :: "nat \<Rightarrow> timer_set \<Rightarrow> nat list" where
  "due_handles now s = concat (map snd (early_part now (tm_deadlines s)))"

lemma parts: "timers_ok s \<Longrightarrow> early_part now (tm_deadlines s) @ late_part now (tm_deadlines s) = tm_deadlines s"
  unfolding early_part_def late_part_def by (rule sorted_split) (rule timers_okD(1))

lemma parts_distinct:
  assumes "timers_ok s"
  shows "distinct (map fst (entries (early_part now (tm_deadlines s)) @ entries (late_part now (tm_deadlines s))))"
  using timers_okD(3) [OF assms] unfolding entries_append [symmetric] parts [OF assms] .

lemma due_handles_entries: "due_handles now s = map fst (entries (early_part now (tm_deadlines s)))"
  by (simp add: due_handles_def handles_entries)

lemma due_handles_distinct: "timers_ok s \<Longrightarrow> distinct (due_handles now s)"
  using parts_distinct [of s now] by (simp add: due_handles_entries)

lemma entry_timed:
  assumes "timers_ok s" and "(h, t) \<in> set (entries (tm_deadlines s))"
  shows "\<exists>k. map_of (tm_kinds s) h = Some k \<and> \<not> is_at_position k"
  using scheduled_iff [OF assms(1), of h] assms(2) by (force simp: image_iff)

lemma entry_unique:
  assumes "timers_ok s" and "(h, t) \<in> set (entries (tm_deadlines s))" and "(h, t') \<in> set (entries (tm_deadlines s))"
  shows "t = t'"
  using assms(2,3) timers_okD(3) [OF assms(1)] by (metis map_of_eq_Some_iff option.inject)

lemma entries_part:
  "(h, t) \<in> set (entries (early_part now m)) \<longleftrightarrow> (h, t) \<in> set (entries m) \<and> t \<le> now"
  "(h, t) \<in> set (entries (late_part now m)) \<longleftrightarrow> (h, t) \<in> set (entries m) \<and> now < t"
  by (fastforce simp: early_part_def late_part_def entries_def not_le)+

lemma due_handles_iff: "h \<in> set (due_handles now s) \<longleftrightarrow> (\<exists>t. (h, t) \<in> set (entries (tm_deadlines s)) \<and> t \<le> now)"
  unfolding due_handles_entries by (force simp flip: entries_part(1))

lemma drain_due_eq:
  assumes ok: "timers_ok s"
  shows "drain_due now s =
    (s\<lparr>tm_deadlines := rearm now (tm_kinds s) (due_handles now s) (late_part now (tm_deadlines s)),
       tm_kinds := without_timeouts (due_handles now s) (tm_kinds s)\<rparr>, due_handles now s)"
proof -
  note d = timers_okD [OF ok]
  let ?r = "early_part now (tm_deadlines s)" and ?l = "late_part now (tm_deadlines s)"
  have keys: "filter (\<lambda>t. t \<le> now) (map fst (tm_deadlines s)) = map fst ?r"
    by (simp add: early_part_def filter_map comp_def)
  have early: "\<forall>e\<in>set ?r. fst e \<le> now" and late: "\<forall>e\<in>set ?l. now < fst e"
    by (auto simp: early_part_def late_part_def)
  have handles: "distinct (concat (map snd ?r))" using due_handles_distinct [OF ok] by (simp add: due_handles_def)
  have ordered: "sorted_wrt (<) (map fst ?r)"
  proof -
    have "sorted_wrt (<) (map fst (?r @ ?l))" using d(1) by (simp only: parts [OF ok])
    then show ?thesis by (simp add: sorted_wrt_append)
  qed
  have "timed (tm_kinds s) h" if "h \<in> set (due_handles now s)" for h
    using that entry_timed [OF ok] by (fastforce simp: due_handles_iff timed_def)
  then have timed: "\<forall>h\<in>set (concat (map snd ?r)). timed (tm_kinds s) h" unfolding due_handles_def by blast
  have periods: "positive_periods (tm_kinds s)"
    using d(6) by (fastforce simp: positive_periods_def MIN_INTERVAL_def dest: map_of_SomeD)
  show ?thesis
    unfolding drain_due_def keys due_handles_def
    using drain_keys [OF parts [OF ok, symmetric] ordered early late handles d(4) timed periods, of "[]"] by simp
qed

lemma rearm_entries:
  "distinct hs \<Longrightarrow> distinct (map fst (entries m)) \<Longrightarrow> \<forall>h\<in>set hs. h \<notin> fst ` set (entries m) \<Longrightarrow>
   distinct (map fst (entries (rearm now ks hs m))) \<and>
   set (entries (rearm now ks hs m)) =
     set (entries m) \<union> {(h, now + p) | h p. h \<in> set hs \<and> map_of ks h = Some (Interval p)}"
proof (induction hs arbitrary: m)
  case (Cons h hs)
  let ?m = "rearm now ks [h] m"
  have d: "distinct (map fst (entries ?m))"
    using Cons.prems distinct_push [of m h] by (simp add: rearm_def split: option.split timer.split)
  have e: "set (entries ?m) = set (entries m) \<union> {(h, now + p) | p. map_of ks h = Some (Interval p)}"
    by (auto simp: rearm_def split: option.splits timer.splits)
  have fresh: "\<forall>x\<in>set hs. x \<notin> fst ` set (entries ?m)" using Cons.prems by (auto simp: e)
  show ?case
    using Cons.IH [OF _ d fresh] Cons.prems(1) rearm_append [of now ks "[h]" hs m] by (auto simp: e)
qed (simp add: rearm_def)

lemma rearm_sorted:
  "sorted_wrt (<) (map fst m) \<Longrightarrow> \<forall>e\<in>set m. snd e \<noteq> [] \<Longrightarrow>
   sorted_wrt (<) (map fst (rearm now ks hs m)) \<and> (\<forall>e\<in>set (rearm now ks hs m). snd e \<noteq> [])"
proof (induction hs arbitrary: m)
  case (Cons h hs)
  have "sorted_wrt (<) (map fst (rearm now ks [h] m)) \<and> (\<forall>e\<in>set (rearm now ks [h] m). snd e \<noteq> [])"
    using Cons.prems sorted_push nonempty_push unfolding rearm_def
    by (simp only: fold.simps comp_def id_def split: option.split timer.split) blast
  then show ?case using Cons.IH rearm_append [of now ks "[h]" hs m] by (metis append_Cons append_Nil)
qed (simp add: rearm_def)

text \<open>What draining does to the map: due timeouts go, due intervals start again from now.\<close>

definition drained_view :: "nat \<Rightarrow> (timer \<times> nat option) option \<Rightarrow> (timer \<times> nat option) option" where
  "drained_view now v =
     (case v of
        Some (Timeout, Some d) \<Rightarrow> if d \<le> now then None else v
      | Some (Interval p, Some d) \<Rightarrow> if d \<le> now then Some (Interval p, Some (now + p)) else v
      | _ \<Rightarrow> v)"

definition due_now :: "nat \<Rightarrow> (timer \<times> nat option) option \<Rightarrow> bool" where
  "due_now now v = (case v of Some (_, Some d) \<Rightarrow> d \<le> now | _ \<Rightarrow> False)"

lemma view_deadline:
  assumes ok: "timers_ok s"
  shows "timers_view s h = Some (k, d) \<longleftrightarrow> map_of (tm_kinds s) h = Some k \<and>
    (if is_at_position k then d = None else \<exists>t. d = Some t \<and> (h, t) \<in> set (entries (tm_deadlines s)))"
proof -
  have "map_of (entries (tm_deadlines s)) h = None \<longleftrightarrow> is_at_position k" if "map_of (tm_kinds s) h = Some k"
    using scheduled_iff [OF ok, of h] that by (simp add: map_of_eq_None_iff)
  moreover have "map_of (entries (tm_deadlines s)) h = Some t \<longleftrightarrow> (h, t) \<in> set (entries (tm_deadlines s))" for t
    by (rule map_of_eq_Some_iff [OF timers_okD(3) [OF ok]])
  ultimately show ?thesis by (auto simp: timers_view_def split: option.splits)
qed

text \<open>The kinds and the deadlines that draining leaves.\<close>

lemma drained_kinds:
  assumes "timers_ok s"
  shows "map_of (tm_kinds (fst (drain_due now s))) x =
    (if x \<in> set (due_handles now s) \<and> map_of (tm_kinds s) x = Some Timeout then None else map_of (tm_kinds s) x)"
  using without_timeouts_map [OF timers_okD(4) [OF assms]] by (simp add: drain_due_eq [OF assms])

lemma drained_entries:
  assumes ok: "timers_ok s"
  shows "distinct (map fst (entries (tm_deadlines (fst (drain_due now s)))))"
    and "(x, t) \<in> set (entries (tm_deadlines (fst (drain_due now s)))) \<longleftrightarrow>
      (x, t) \<in> set (entries (tm_deadlines s)) \<and> now < t \<or>
      x \<in> set (due_handles now s) \<and> (\<exists>p. map_of (tm_kinds s) x = Some (Interval p) \<and> t = now + p)"
proof -
  let ?l = "late_part now (tm_deadlines s)"
  have "distinct (map fst (entries ?l))" using parts_distinct [OF ok, of now] by simp
  moreover have "\<forall>x\<in>set (due_handles now s). x \<notin> fst ` set (entries ?l)"
    using parts_distinct [OF ok, of now] by (auto simp: due_handles_entries)
  ultimately have "distinct (map fst (entries (rearm now (tm_kinds s) (due_handles now s) ?l))) \<and>
      set (entries (rearm now (tm_kinds s) (due_handles now s) ?l)) =
      set (entries ?l) \<union> {(h, now + p) | h p. h \<in> set (due_handles now s) \<and> map_of (tm_kinds s) h = Some (Interval p)}"
    using rearm_entries [OF due_handles_distinct [OF ok]] by blast
  then show "distinct (map fst (entries (tm_deadlines (fst (drain_due now s)))))"
    and "(x, t) \<in> set (entries (tm_deadlines (fst (drain_due now s)))) \<longleftrightarrow>
      (x, t) \<in> set (entries (tm_deadlines s)) \<and> now < t \<or>
      x \<in> set (due_handles now s) \<and> (\<exists>p. map_of (tm_kinds s) x = Some (Interval p) \<and> t = now + p)"
    by (auto simp: drain_due_eq [OF ok] entries_part)
qed

lemma drained_scheduled:
  assumes ok: "timers_ok s"
  shows "(\<exists>t. (x, t) \<in> set (entries (tm_deadlines (fst (drain_due now s))))) \<longleftrightarrow>
    (\<exists>k. map_of (tm_kinds (fst (drain_due now s))) x = Some k \<and> \<not> is_at_position k)"
proof
  assume "\<exists>t. (x, t) \<in> set (entries (tm_deadlines (fst (drain_due now s))))"
  then obtain t where "(x, t) \<in> set (entries (tm_deadlines (fst (drain_due now s))))" by blast
  then consider "(x, t) \<in> set (entries (tm_deadlines s))" "now < t"
    | p where "map_of (tm_kinds s) x = Some (Interval p)"
    using drained_entries(2) [OF ok] by blast
  then show "\<exists>k. map_of (tm_kinds (fst (drain_due now s))) x = Some k \<and> \<not> is_at_position k"
  proof cases
    case 1
    then have "x \<notin> set (due_handles now s)" using entry_unique [OF ok] by (fastforce simp: due_handles_iff)
    with entry_timed [OF ok 1(1)] show ?thesis by (simp add: drained_kinds [OF ok])
  qed (simp add: drained_kinds [OF ok] is_at_position_def)
next
  assume "\<exists>k. map_of (tm_kinds (fst (drain_due now s))) x = Some k \<and> \<not> is_at_position k"
  then obtain k where k: "map_of (tm_kinds s) x = Some k" "\<not> is_at_position k"
      "\<not> (x \<in> set (due_handles now s) \<and> k = Timeout)"
    by (auto simp: drained_kinds [OF ok] split: if_splits)
  then obtain t where t: "(x, t) \<in> set (entries (tm_deadlines s))" using scheduled_iff [OF ok, of x] by force
  show "\<exists>t. (x, t) \<in> set (entries (tm_deadlines (fst (drain_due now s))))"
  proof (cases "t \<le> now")
    case True
    then have "x \<in> set (due_handles now s)" using t by (auto simp: due_handles_iff)
    with k show ?thesis by (cases k) (auto simp: drained_entries(2) [OF ok] is_at_position_def)
  next
    case False
    with t show ?thesis by (auto simp: drained_entries(2) [OF ok] not_le)
  qed
qed

lemma drain_due_ok:
  assumes ok: "timers_ok s"
  shows "timers_ok (fst (drain_due now s))" (is "timers_ok ?s")
  unfolding timers_ok_def
proof (intro conjI)
  note d = timers_okD [OF ok]
  have ks: "tm_kinds ?s = without_timeouts (due_handles now s) (tm_kinds s)" by (simp add: drain_due_eq [OF ok])
  show dks: "distinct (map fst (tm_kinds ?s))" unfolding ks without_timeouts_def by (rule distinct_filter_key [OF d(4)])
  have "sorted_wrt (<) (map fst (late_part now (tm_deadlines s)))" "\<forall>e\<in>set (late_part now (tm_deadlines s)). snd e \<noteq> []"
  proof -
    have "sorted_wrt (<) (map fst (early_part now (tm_deadlines s) @ late_part now (tm_deadlines s)))"
      using d(1) by (simp only: parts [OF ok])
    then show "sorted_wrt (<) (map fst (late_part now (tm_deadlines s)))" by (simp add: sorted_wrt_append)
    show "\<forall>e\<in>set (late_part now (tm_deadlines s)). snd e \<noteq> []" using d(2) by (simp add: late_part_def)
  qed
  from rearm_sorted [OF this]
  show "sorted_wrt (<) (map fst (tm_deadlines ?s))" and "\<forall>e\<in>set (tm_deadlines ?s). snd e \<noteq> []"
    unfolding drain_due_eq [OF ok] by simp_all
  show "distinct (map fst (entries (tm_deadlines ?s)))" by (rule drained_entries(1) [OF ok])
  show "fst ` set (entries (tm_deadlines ?s)) = fst ` {e \<in> set (tm_kinds ?s). \<not> is_at_position (snd e)}" (is "?L = ?R")
  proof (rule set_eqI)
    fix x
    have "x \<in> ?R \<longleftrightarrow> (\<exists>k. map_of (tm_kinds ?s) x = Some k \<and> \<not> is_at_position k)"
      using map_of_eq_Some_iff [OF dks] by force
    also have "\<dots> \<longleftrightarrow> x \<in> ?L" unfolding drained_scheduled [OF ok, symmetric] by force
    finally show "x \<in> ?L \<longleftrightarrow> x \<in> ?R" by blast
  qed
  show "\<forall>e\<in>set (tm_kinds ?s). fst e \<le> tm_next_handle ?s \<and> (\<forall>p. snd e = Interval p \<longrightarrow> MIN_INTERVAL \<le> p)"
    using d(6) unfolding drain_due_eq [OF ok] without_timeouts_def by auto
  show "length (tm_kinds ?s) \<le> MAX_TIMERS"
    unfolding ks without_timeouts_def using d(7) le_trans length_filter_le by blast
qed

lemma drain_due_handles:
  assumes ok: "timers_ok s"
  shows "h \<in> set (snd (drain_due now s)) \<longleftrightarrow> due_now now (timers_view s h)"
proof -
  have "h \<in> set (due_handles now s) \<longleftrightarrow> due_now now (timers_view s h)"
  proof
    assume "h \<in> set (due_handles now s)"
    then obtain t k where "(h, t) \<in> set (entries (tm_deadlines s))" "t \<le> now"
        "map_of (tm_kinds s) h = Some k" "\<not> is_at_position k"
      using entry_timed [OF ok] unfolding due_handles_iff by blast
    then have "timers_view s h = Some (k, Some t)" using view_deadline [OF ok] by simp
    with \<open>t \<le> now\<close> show "due_now now (timers_view s h)" by (simp add: due_now_def)
  next
    assume "due_now now (timers_view s h)"
    then obtain k t where "timers_view s h = Some (k, Some t)" "t \<le> now"
      by (auto simp: due_now_def split: option.splits)
    then show "h \<in> set (due_handles now s)"
      unfolding due_handles_iff using view_deadline [OF ok] by (auto split: if_splits)
  qed
  then show ?thesis by (simp add: drain_due_eq [OF ok])
qed

lemma drain_due_view:
  assumes ok: "timers_ok s"
  shows "timers_view (fst (drain_due now s)) h = drained_view now (timers_view s h)"
proof (cases "map_of (tm_kinds s) h")
  case None
  then show ?thesis by (simp add: timers_view_def drained_kinds [OF ok] drained_view_def)
next
  case (Some k)
  note view' = view_deadline [OF drain_due_ok [OF ok]]
  show ?thesis
  proof (cases "is_at_position k")
    case True
    with Some have "timers_view s h = Some (k, None)" using view_deadline [OF ok] by simp
    moreover have "timers_view (fst (drain_due now s)) h = Some (k, None)"
      using view' [of now h k None] Some True by (auto simp: drained_kinds [OF ok] is_at_position_def)
    ultimately show ?thesis by (simp add: drained_view_def split: timer.split)
  next
    case False
    then obtain t where t: "(h, t) \<in> set (entries (tm_deadlines s))" using scheduled_iff [OF ok, of h] Some by force
    with Some False have v: "timers_view s h = Some (k, Some t)" using view_deadline [OF ok] by simp
    have due: "h \<in> set (due_handles now s) \<longleftrightarrow> t \<le> now" using t entry_unique [OF ok t] unfolding due_handles_iff by blast
    let ?t = "if t \<le> now then (case k of Interval p \<Rightarrow> now + p | _ \<Rightarrow> t) else t"
    show ?thesis
    proof (cases "k = Timeout \<and> t \<le> now")
      case True
      with due Some have "timers_view (fst (drain_due now s)) h = None" by (simp add: timers_view_def drained_kinds [OF ok])
      with True v show ?thesis by (simp add: drained_view_def)
    next
      case keep: False
      have "(h, ?t) \<in> set (entries (tm_deadlines (fst (drain_due now s))))"
        using keep due Some False t by (cases k) (auto simp: drained_entries(2) [OF ok] is_at_position_def not_le)
      moreover have "map_of (tm_kinds (fst (drain_due now s))) h = Some k" using keep due Some by (auto simp: drained_kinds [OF ok])
      ultimately have "timers_view (fst (drain_due now s)) h = Some (k, Some ?t)"
        using view' [of now h k] False by simp
      with keep False v show ?thesis by (cases k) (auto simp: drained_view_def is_at_position_def)
    qed
  qed
qed

end
