(* ===== verification/Timers_Theorems.thy ===== *)
theory Timers_Theorems
  imports Timers
begin

text \<open>The properties of a plugin's timers.\<close>

section \<open>Timers at a position\<close>

lemma positions_filter:
  assumes ok: "timers_ok s" and P: "\<And>k. \<not> P k \<Longrightarrow> is_at_position k"
  shows "timers_ok (s\<lparr>tm_kinds := filter (\<lambda>e. P (snd e)) (tm_kinds s)\<rparr>)" (is "timers_ok ?s")
    and "timers_view (s\<lparr>tm_kinds := filter (\<lambda>e. P (snd e)) (tm_kinds s)\<rparr>) h =
      (case timers_view s h of Some (k, d) \<Rightarrow> if P k then Some (k, d) else None | None \<Rightarrow> None)"
proof -
  note d = timers_okD [OF ok]
  have "{e \<in> set (filter (\<lambda>e. P (snd e)) (tm_kinds s)). \<not> is_at_position (snd e)} =
      {e \<in> set (tm_kinds s). \<not> is_at_position (snd e)}"
    using P by auto
  moreover have fields: "tm_deadlines ?s = tm_deadlines s" "tm_kinds ?s = filter (\<lambda>e. P (snd e)) (tm_kinds s)"
      "tm_next_handle ?s = tm_next_handle s"
    by simp_all
  moreover have "length (filter (\<lambda>e. P (snd e)) (tm_kinds s)) \<le> MAX_TIMERS"
    using d(7) le_trans length_filter_le by blast
  moreover have "\<forall>e\<in>set (filter (\<lambda>e. P (snd e)) (tm_kinds s)).
      fst e \<le> tm_next_handle s \<and> (\<forall>p. snd e = Interval p \<longrightarrow> MIN_INTERVAL \<le> p)"
    using d(6) by (metis filter_is_subset subsetD)
  ultimately show "timers_ok ?s"
    using d(1-5) unfolding timers_ok_def fields by (intro conjI) (assumption | simp only: distinct_filter_key)+
  show "timers_view ?s h = (case timers_view s h of Some (k, d) \<Rightarrow> if P k then Some (k, d) else None | None \<Rightarrow> None)"
    by (cases "map_of (tm_kinds s) h") (simp_all add: timers_view_def map_of_filter_value [OF d(4)])
qed

lemma reached_at_position: "reached pos k \<Longrightarrow> is_at_position k"
  by (simp add: reached_def is_at_position_def split: timer.splits)

lemma check_position_ok: "timers_ok s \<Longrightarrow> timers_ok (fst (check_position pos s))"
  using positions_filter(1) [of s "\<lambda>k. \<not> reached pos k"] reached_at_position
  by (simp add: check_position_def)

lemma cancel_position_timers_ok: "timers_ok s \<Longrightarrow> timers_ok (cancel_position_timers s)"
  using positions_filter(1) [of s "\<lambda>k. \<not> is_at_position k"] by (simp add: cancel_position_timers_def)

section \<open>Reachable sets of timers\<close>

datatype timer_call =
    CallSchedule nat bool nat
  | CallScheduleAt nat
  | CallClear nat
  | CallDrain nat
  | CallCheckPosition nat
  | CallCancelPositions

fun timer_apply :: "timer_call \<Rightarrow> timer_set \<Rightarrow> timer_set" where
  "timer_apply (CallSchedule delay repeating now) s = fst (schedule delay repeating now s)"
| "timer_apply (CallScheduleAt target) s = fst (schedule_at_position target s)"
| "timer_apply (CallClear h) s = fst (clear_timer h s)"
| "timer_apply (CallDrain now) s = fst (drain_due now s)"
| "timer_apply (CallCheckPosition pos) s = fst (check_position pos s)"
| "timer_apply CallCancelPositions s = cancel_position_timers s"

definition timer_step :: "timer_set \<Rightarrow> timer_set \<Rightarrow> bool" where
  "timer_step s s' \<longleftrightarrow> (\<exists>c. s' = timer_apply c s)"

lemma timer_apply_ok: "timers_ok s \<Longrightarrow> timers_ok (timer_apply c s)"
  by (cases c)
    (simp_all add: schedule_view(3) schedule_at_position_view(2) clear_timer_view(3) drain_due_ok check_position_ok
      cancel_position_timers_ok)

lemma timer_apply_counter: "timers_ok s \<Longrightarrow> tm_next_handle s \<le> tm_next_handle (timer_apply c s)"
  by (cases c)
    (simp_all add: schedule_def schedule_at_position_def alloc_handle_def clear_timer_def drain_due_eq check_position_def
      cancel_position_timers_def)

interpretation timers: id_allocator "\<lambda>s. s = timer_set_new" timer_step timers_ok
  "\<lambda>s. fst ` set (tm_kinds s)" "\<lambda>s. Suc (tm_next_handle s)"
proof unfold_locales
  show "timers_ok s" if "s = timer_set_new" for s by (simp add: that timers_ok_def timer_set_new_def)
  show "i < Suc (tm_next_handle s)" if "timers_ok s" "i \<in> fst ` set (tm_kinds s)" for s i
    using timers_okD(6) [OF that(1)] that(2) by auto
qed (auto simp: timer_step_def timer_apply_ok timer_apply_counter)

section \<open>Properties\<close>

text \<open>
  C23. Draining the timers refines the map of pending timers: it delivers exactly the handles whose
  deadline is at or before now, each once; the timeouts among them are gone, so they never fire
  again, the intervals start again from now, nothing else changes; and afterwards the next deadline
  is later than now, so the scheduler does not spin.
\<close>
theorem drain_fires_exactly_the_due:
  assumes "timer_step\<^sup>*\<^sup>* timer_set_new s"
  shows "let (s', fired) = drain_due now s in
    distinct fired \<and> (h \<in> set fired \<longleftrightarrow> due_now now (timers_view s h)) \<and>
    timers_view s' h = drained_view now (timers_view s h) \<and>
    (next_deadline s' = Some t \<longrightarrow> now < t)"
proof -
  have ok: "timers_ok s" by (rule timers.reachable_inv [OF refl assms])
  have "now < t" if nd: "next_deadline (fst (drain_due now s)) = Some t"
  proof -
    have "\<exists>x. (x, t) \<in> set (entries (tm_deadlines (fst (drain_due now s))))"
      using nd timers_okD(2) [OF drain_due_ok [OF ok, of now]]
      by (cases "tm_deadlines (fst (drain_due now s))") (auto simp: next_deadline_def neq_Nil_conv)
    then obtain x where "(x, t) \<in> set (entries (tm_deadlines (fst (drain_due now s))))" by blast
    then consider "now < t" | p where "map_of (tm_kinds s) x = Some (Interval p)" "t = now + p"
      using drained_entries(2) [OF ok] by blast
    then show ?thesis
    proof cases
      case (2 p)
      have "MIN_INTERVAL \<le> p" using timers_okD(6) [OF ok] 2(1) by (fastforce dest: map_of_SomeD)
      with 2(2) show ?thesis by (simp add: MIN_INTERVAL_def)
    qed
  qed
  then show ?thesis
    using drain_due_handles [OF ok] drain_due_view [OF ok] due_handles_distinct [OF ok]
    by (simp add: case_prod_beta) (simp add: drain_due_eq [OF ok])
qed

text \<open>
  Scheduling is refused exactly when 256 timers are pending or the delay is below a
  millisecond, and then nothing changes; otherwise one timer is added, due after the delay, under a
  handle that no earlier timer of the plugin had.
\<close>
lemma schedule_outcome:
  assumes "timer_step\<^sup>*\<^sup>* timer_set_new s"
  shows "let (s', handle) = schedule delay repeating now s in
    (if length (tm_kinds s) = 256 \<or> delay < 1000000 then s' = s \<and> handle = None
     else \<exists>h. handle = Some h \<and> timers_view s h = None \<and>
       timers_view s' = (timers_view s)(h \<mapsto> (if repeating then Interval delay else Timeout, Some (now + delay))))"
proof -
  have ok: "timers_ok s" by (rule timers.reachable_inv [OF refl assms])
  have "length (tm_kinds s) \<le> 256" using timers_okD(7) [OF ok] by (simp add: MAX_TIMERS_def)
  moreover have "timers_view s (tm_next_handle s + 1) = None"
    using fresh_handle [OF ok] by (simp add: timers_view_def)
  moreover note view = schedule_view(1,2) [OF ok, of delay repeating now]
  ultimately show ?thesis
  proof (cases "length (tm_kinds s) = 256 \<or> delay < 1000000")
    case True
    then have "schedule delay repeating now s = (s, None)"
      using view(1) by (simp add: MAX_TIMERS_def MIN_INTERVAL_def)
    with True show ?thesis by simp
  next
    case False
    obtain s' where s': "schedule delay repeating now s = (s', Some (tm_next_handle s + 1))"
      using view(1) False by (auto simp: MAX_TIMERS_def MIN_INTERVAL_def)
    with False view(2) \<open>length (tm_kinds s) \<le> 256\<close> \<open>timers_view s (tm_next_handle s + 1) = None\<close> show ?thesis
      by (simp add: MAX_TIMERS_def MIN_INTERVAL_def)
  qed
qed

text \<open>A timer at a position fires once, at the first sample at or past it.\<close>

lemma check_position_fires:
  assumes "timer_step\<^sup>*\<^sup>* timer_set_new s"
  shows "let (s', fired) = check_position pos s in
    distinct fired \<and> (h \<in> set fired \<longleftrightarrow> (\<exists>target. timers_view s h = Some (AtPosition target, None) \<and> target \<le> pos)) \<and>
    timers_view s' h = (if h \<in> set fired then None else timers_view s h)"
proof -
  have ok: "timers_ok s" by (rule timers.reachable_inv [OF refl assms])
  note d = timers_okD [OF ok]
  have fired: "h \<in> set (snd (check_position pos s)) \<longleftrightarrow> (\<exists>k. map_of (tm_kinds s) h = Some k \<and> reached pos k)"
    using map_of_eq_Some_iff [OF d(4)] by (force simp: check_position_def)
  have reached: "reached pos k \<longleftrightarrow> (\<exists>target. k = AtPosition target \<and> target \<le> pos)" for k
    by (simp add: reached_def split: timer.split)
  have view: "timers_view (fst (check_position pos s)) h =
      (case timers_view s h of Some (k, d) \<Rightarrow> if \<not> reached pos k then Some (k, d) else None | None \<Rightarrow> None)"
    using positions_filter(2) [OF ok, of "\<lambda>k. \<not> reached pos k" h] reached_at_position
    by (simp add: check_position_def)
  have "timers_view s h = Some (AtPosition target, None) \<longleftrightarrow> map_of (tm_kinds s) h = Some (AtPosition target)" for target
    using view_deadline [OF ok, of h "AtPosition target" None] by (simp add: is_at_position_def)
  moreover have "distinct (snd (check_position pos s))"
    using d(4) by (simp add: check_position_def distinct_filter_key)
  ultimately show ?thesis
    using fired view by (auto simp: case_prod_beta reached timers_view_def split: option.splits)
qed

definition demo_timers :: timer_set where
  "demo_timers = fst (schedule 3000000 True 10 (fst (schedule 1000000 False 0 timer_set_new)))"

lemma demo_timers_reachable: "timer_step\<^sup>*\<^sup>* timer_set_new demo_timers"
proof -
  have "timer_step s (fst (schedule delay repeating now s))" for s delay repeating now
    unfolding timer_step_def by (rule exI [of _ "CallSchedule delay repeating now"]) simp
  then show ?thesis unfolding demo_timers_def by (meson rtranclp.rtrancl_into_rtrancl rtranclp.rtrancl_refl)
qed

lemma drain_fires_exactly_the_due_witness:
  "set (snd (drain_due 3000010 demo_timers)) \<subseteq> {1, 2} \<and> 2 \<in> set (snd (drain_due 3000010 demo_timers)) \<and>
   timers_view (fst (drain_due 3000010 demo_timers)) 2 = Some (Interval 3000000, Some 6000010)"
proof -
  have val: "demo_timers = \<lparr>tm_next_handle = 2, tm_deadlines = [(1000000, [1]), (3000010, [2])],
      tm_kinds = [(2, Interval 3000000), (1, Timeout)]\<rparr>"
    by (simp add: demo_timers_def schedule_def timer_set_new_def alloc_handle_def insert_kind_def MAX_TIMERS_def MIN_INTERVAL_def)
  have v: "timers_view demo_timers 2 = Some (Interval 3000000, Some 3000010)"
    "timers_view demo_timers h = None" if "h \<noteq> 1" "h \<noteq> 2" for h
    using that by (simp_all add: val timers_view_def)
  have "2 \<in> set (snd (drain_due 3000010 demo_timers)) \<and>
      timers_view (fst (drain_due 3000010 demo_timers)) 2 = Some (Interval 3000000, Some 6000010)"
    using drain_fires_exactly_the_due [OF demo_timers_reachable, of 3000010 2]
    by (simp add: case_prod_beta due_now_def drained_view_def) (simp add: val timers_view_def)
  moreover have "h \<notin> set (snd (drain_due 3000010 demo_timers))" if "h \<noteq> 1" "h \<noteq> 2" for h
    using drain_fires_exactly_the_due [OF demo_timers_reachable, of 3000010 h] v(2) [OF that]
    by (simp add: case_prod_beta due_now_def)
  ultimately show ?thesis by blast
qed

lemma schedule_outcome_witness: "snd (schedule 5 False 0 demo_timers) = None"
  using schedule_outcome [OF demo_timers_reachable, of 5 False 0] by (simp add: case_prod_beta)

end
