(* ===== verification/Notifications_Theorems.thy ===== *)
theory Notifications_Theorems
  imports Notifications
begin

text \<open>The properties of the notification centre.\<close>

text \<open>
  In every reachable centre the notifications are listed newest first, no identifier is used
  twice, at most one visible notification has a given deduplication key, so a repeated report
  replaces the one before, and the single button of a notification is the first of its actions.
\<close>
lemma notifications_reachable_invariant:
  assumes "center_step\<^sup>*\<^sup>* notification_center_new c"
  shows "sorted_wrt (>) (map nt_id (visible c)) \<and>
    length (filter (\<lambda>n. nt_dedupe_key n = Some k) (visible c)) \<le> 1 \<and>
    list_all (\<lambda>n. nt_id n < nc_next_id c \<and> nt_action n = (case nt_actions n of [] \<Rightarrow> None | a # _ \<Rightarrow> Some a)) (visible c)"
proof -
  have ok: "center_ok c" by (rule center.reachable_inv [OF refl assms])
  have "sorted_wrt (>) (map nt_id (filter P ns))" if "sorted_wrt (>) (map nt_id ns)" for P ns
    using that by (induction ns) auto
  moreover have "filter (\<lambda>n. nt_dedupe_key n = Some k) (visible c) =
      filter (\<lambda>n. \<not> nt_dismissed n \<and> nt_dedupe_key n = Some k) (nc_items c)"
    by (simp add: visible_def conj_commute)
  ultimately show ?thesis using ok by (auto simp: center_ok_def visible_def list_all_iff)
qed

definition removes :: "center_call \<Rightarrow> notification \<Rightarrow> bool" where
  "removes call n =
     (case call of
        CallDismiss i \<Rightarrow> nt_id n = i
      | CallDismissByKey key \<Rightarrow> nt_key n = key
      | CallDismissByDedupe key \<Rightarrow> nt_dedupe_key n = Some key
      | CallRaiseKeyed _ _ _ _ _ key \<Rightarrow> nt_dedupe_key n = Some key
      | CallNotificationTick now \<Rightarrow> nt_severity n = Info \<and> \<not> nt_held n \<and> nt_auto_dismiss_from n + 10000 \<le> now
      | _ \<Rightarrow> False)"

text \<open>Which identifiers a call takes away from the visible ones: a filter, as the ids are distinct.\<close>

lemma visible_ids_dismiss_where:
  "map nt_id (visible (dismiss_where P c)) = map nt_id (filter (\<lambda>n. \<not> P n) (visible c))"
proof -
  have "map nt_id (filter (\<lambda>n. \<not> nt_dismissed n) (map (\<lambda>n. if \<not> nt_dismissed n \<and> P n then n\<lparr>nt_dismissed := True\<rparr> else n) ns)) =
      map nt_id (filter (\<lambda>n. \<not> P n) (filter (\<lambda>n. \<not> nt_dismissed n) ns))" for ns
    by (induction ns) auto
  then show ?thesis by (simp add: visible_def dismiss_where_def)
qed

lemma visible_ids_update_first:
  assumes "\<And>n. nt_id (f n) = nt_id n \<and> nt_dismissed (f n) = nt_dismissed n"
  shows "map nt_id (visible (c\<lparr>nc_items := update_first P f (nc_items c)\<rparr>)) = map nt_id (visible c)"
proof -
  have "map nt_id (filter (\<lambda>n. \<not> nt_dismissed n) (update_first P f ns)) = map nt_id (filter (\<lambda>n. \<not> nt_dismissed n) ns)" for ns
    using assms by (induction ns) auto
  then show ?thesis by (simp add: visible_def)
qed

lemma visible_ids_dismiss:
  assumes "center_ok c"
  shows "map nt_id (visible (dismiss i c)) = map nt_id (filter (\<lambda>n. nt_id n \<noteq> i) (visible c))"
proof -
  have "map nt_id (filter (\<lambda>n. \<not> nt_dismissed n) (update_first (\<lambda>n. nt_id n = i) (\<lambda>n. n\<lparr>nt_dismissed := True\<rparr>) ns)) =
      map nt_id (filter (\<lambda>n. nt_id n \<noteq> i) (filter (\<lambda>n. \<not> nt_dismissed n) ns))" if "sorted_wrt (>) (map nt_id ns)" for ns
    using that
  proof (induction ns)
    case (Cons n ns)
    have "filter (\<lambda>m. \<not> nt_dismissed m \<and> nt_id m \<noteq> nt_id n) ns = filter (\<lambda>m. \<not> nt_dismissed m) ns"
      using Cons.prems by (intro filter_cong) auto
    with Cons show ?case by auto
  qed simp
  from this [of "nc_items c"] show ?thesis using assms unfolding center_ok_def by (simp add: visible_def dismiss_def)
qed

lemma visible_ids_raise:
  "map nt_id (visible (fst (raise_full_detailed now sev key args actions dedupe who detail c))) =
   nc_next_id c # map nt_id (visible c)"
  by (simp add: visible_def raise_full_detailed_def)

text \<open>
  C38. Nothing disappears by itself. After any call the notifications shown are those shown before,
  in the same order, without the ones the call removes, with the new one, if it raises one, in front.
  What a call removes: the identifier, message key or deduplication key it names, and, for a tick,
  every informational notification that nobody holds open once its ten seconds are over; so warnings
  and critical ones stay until they are dismissed.
\<close>
theorem visible_outcome:
  assumes "center_step\<^sup>*\<^sup>* notification_center_new c"
  shows "map nt_id (visible (center_apply call c)) =
    (case call of CallRaise _ _ _ _ _ \<Rightarrow> [nc_next_id c] | CallRaiseDetail _ _ _ _ _ _ \<Rightarrow> [nc_next_id c]
     | CallRaiseAttributed _ _ _ _ _ \<Rightarrow> [nc_next_id c] | CallRaiseKeyed _ _ _ _ _ _ \<Rightarrow> [nc_next_id c] | _ \<Rightarrow> []) @
    map nt_id (filter (\<lambda>n. \<not> removes call n) (visible c))"
proof -
  have ok: "center_ok c" by (rule center.reachable_inv [OF refl assms])
  show ?thesis
  proof (cases call)
    case (CallDismiss i)
    then show ?thesis by (simp add: removes_def visible_ids_dismiss [OF ok])
  next
    case (CallNotificationTick now)
    have "(\<lambda>n. \<not> (nt_severity n = Info \<and> \<not> nt_held n \<and> INFO_AUTO_DISMISS \<le> now - nt_auto_dismiss_from n)) =
        (\<lambda>n. \<not> removes call n)"
      by (auto simp: CallNotificationTick removes_def INFO_AUTO_DISMISS_def fun_eq_iff)
    then show ?thesis
      using visible_ids_dismiss_where [of "\<lambda>n. nt_severity n = Info \<and> \<not> nt_held n \<and> INFO_AUTO_DISMISS \<le> now - nt_auto_dismiss_from n" c]
      by (simp add: CallNotificationTick notification_tick_def)
  next
    case (CallRaiseKeyed now sev key args actions dedupe)
    have "nc_next_id (dismiss_by_dedupe dedupe c) = nc_next_id c" by (simp add: dismiss_by_dedupe_def dismiss_where_def)
    then show ?thesis
      by (simp add: CallRaiseKeyed raise_keyed_def raise_full_keyed_def visible_ids_raise removes_def)
        (simp add: dismiss_by_dedupe_def visible_ids_dismiss_where)
  next
    case (CallHold i)
    then show ?thesis by (simp add: hold_auto_dismiss_def visible_ids_update_first removes_def)
  next
    case (CallRelease i now)
    then show ?thesis by (simp add: release_auto_dismiss_def visible_ids_update_first removes_def)
  qed (simp_all add: removes_def dismiss_by_key_def dismiss_by_dedupe_def visible_ids_dismiss_where visible_ids_raise
      raise_full_def raise_full_keyed_def raise_with_actions_and_detail_def raise_attributed_def)
qed

definition demo_center :: notification_center where
  "demo_center = fst (raise_keyed 20 Warning [1] [] [] [7] (fst (raise_notice 0 Info [2] notification_center_new)))"

lemma demo_center_value:
  "map nt_id (visible demo_center) = [1, 0]" "nc_next_id demo_center = 2"
  "map nt_severity (visible demo_center) = [Warning, Info]"
  by (simp_all add: demo_center_def raise_keyed_def raise_notice_def raise_with_args_def raise_full_def raise_full_keyed_def
      raise_full_detailed_def notification_center_new_def dismiss_by_dedupe_def dismiss_where_def visible_def)

lemma demo_center_reachable: "center_step\<^sup>*\<^sup>* notification_center_new demo_center"
proof -
  have "center_step notification_center_new (fst (raise_notice 0 Info [2] notification_center_new))"
    unfolding center_step_def raise_calls by (rule exI [of _ "CallRaise 0 Info [2] [] []"]) simp
  moreover have "center_step c (fst (raise_keyed 20 Warning [1] [] [] [7] c))" for c
    unfolding center_step_def by (rule exI [of _ "CallRaiseKeyed 20 Warning [1] [] [] [7]"]) simp
  ultimately show ?thesis
    unfolding demo_center_def by (meson rtranclp.rtrancl_into_rtrancl rtranclp.rtrancl_refl)
qed

lemma notifications_reachable_invariant_witness:
  "length (filter (\<lambda>n. nt_dedupe_key n = Some [7]) (visible demo_center)) \<le> 1"
  using notifications_reachable_invariant [OF demo_center_reachable, of "[7]"] by blast

lemma visible_outcome_witness: "map nt_id (visible (notification_tick 10000 demo_center)) = [1]"
  using visible_outcome [OF demo_center_reachable, of "CallNotificationTick 10000"]
  by (simp add: removes_def demo_center_def raise_keyed_def raise_notice_def raise_with_args_def raise_full_def
      raise_full_keyed_def raise_full_detailed_def notification_center_new_def dismiss_by_dedupe_def dismiss_where_def visible_def)

end
