(* ===== verification/Effect_Catalog.thy ===== *)
theory Effect_Catalog
  imports Prelude Complex_Main
begin

text \<open>
  The catalog of effect nodes (\<^verbatim>\<open>crates/modplayer-effects/src/catalog.rs\<close>): which parameters a
  node of a kind has, how a value is clamped, the quality mode rules of the two time and pitch
  nodes, and the names plugins use. The constants are those of \<^verbatim>\<open>consts.rs\<close>.

  A \<^verbatim>\<open>f32\<close> that comes from outside is a \<open>f32\<close> here: a rational, an infinity or NaN. A
  value the catalog has clamped is always finite and is a \<^typ>\<open>rat\<close>. Rounding of the
  arithmetic on values is not modelled; the code compares, clamps and rounds to whole numbers.
\<close>

section \<open>Numbers\<close>

datatype f32 = NaN | NegInf | Finite rat | PosInf

definition EPSILON :: rat where "EPSILON = 1 / 2 ^ 23"

text \<open>\<^verbatim>\<open>f32::round\<close>: to the nearest whole number, halves away from zero.\<close>

definition round_half_away :: "rat \<Rightarrow> rat" where
  "round_half_away x = (if 0 \<le> x then of_int \<lfloor>x + 1 / 2\<rfloor> else - of_int \<lfloor>1 / 2 - x\<rfloor>)"

fun f32_round :: "f32 \<Rightarrow> f32" where
  "f32_round (Finite x) = Finite (round_half_away x)"
| "f32_round v = v"

text \<open>\<^verbatim>\<open>f32::clamp\<close> for \<open>lo \<le> hi\<close> and a value that is not NaN.\<close>

fun saturate :: "rat \<Rightarrow> rat \<Rightarrow> f32 \<Rightarrow> rat" where
  "saturate lo hi (Finite x) = (if x < lo then lo else if hi < x then hi else x)"
| "saturate lo hi PosInf = hi"
| "saturate lo hi NegInf = lo"
| "saturate lo hi NaN = lo"

section \<open>Constants\<close>

definition MAX_NODES :: nat where "MAX_NODES = 16"
definition PARAM_RAMP_MS :: rat where "PARAM_RAMP_MS = 20"
definition SWITCH_CROSSFADE_MS :: rat where "SWITCH_CROSSFADE_MS = 5"
definition COST_RING_CAPACITY :: nat where "COST_RING_CAPACITY = 1024"
definition OVERLOAD_PCT :: rat where "OVERLOAD_PCT = 90"
definition OVERLOAD_STREAK :: nat where "OVERLOAD_STREAK = 3"
definition TEMPO_STEP :: rat where "TEMPO_STEP = 1 / 10"

section \<open>Kinds, owners, parameters\<close>

datatype node_kind = PitchShift | TimeStretch | Gain | Equalizer | Filter | StereoTools

definition ALL_KINDS :: "node_kind list" where
  "ALL_KINDS = [PitchShift, TimeStretch, Gain, Equalizer, Filter, StereoTools]"

fun label_key :: "node_kind \<Rightarrow> string" where
  "label_key PitchShift = ''effects-kind-pitch-shift''"
| "label_key TimeStretch = ''effects-kind-time-stretch''"
| "label_key Gain = ''effects-kind-gain''"
| "label_key Equalizer = ''effects-kind-equalizer''"
| "label_key Filter = ''effects-kind-filter''"
| "label_key StereoTools = ''effects-kind-stereo-tools''"

datatype node_owner = HostNode | PluginNode nat

fun is_host :: "node_owner \<Rightarrow> bool" where
  "is_host HostNode = True"
| "is_host (PluginNode _) = False"

type_synonym param_id = nat

definition eq_band :: "nat \<Rightarrow> nat \<Rightarrow> param_id" where
  "eq_band band n = 16 + 4 * band + n"

datatype param_shape = Continuous rat rat bool | Discrete nat

datatype unit_of = Semitones | Ratio | Decibels | Hertz | Q | Toggle | Combo | Multiplier | Pan

record param_def =
  pd_id :: param_id
  pd_key :: string
  pd_shape :: param_shape
  pd_default :: rat
  pd_unit :: unit_of

definition param :: "param_id \<Rightarrow> string \<Rightarrow> param_shape \<Rightarrow> rat \<Rightarrow> unit_of \<Rightarrow> param_def" where
  "param i k s d u = \<lparr>pd_id = i, pd_key = k, pd_shape = s, pd_default = d, pd_unit = u\<rparr>"

definition PITCH_SHIFT_PARAMS :: "param_def list" where
  "PITCH_SHIFT_PARAMS =
     [param 0 ''effects-param-semitones'' (Continuous (-12) 12 False) 0 Semitones,
      param 1 ''effects-param-formant'' (Discrete 2) 0 Toggle,
      param 2 ''effects-param-mode'' (Discrete 2) 0 Combo]"

definition TIME_STRETCH_PARAMS :: "param_def list" where
  "TIME_STRETCH_PARAMS =
     [param 0 ''effects-param-ratio'' (Continuous (1 / 4) 2 False) 1 Ratio,
      param 1 ''effects-param-mode'' (Discrete 2) 0 Combo]"

definition GAIN_PARAMS :: "param_def list" where
  "GAIN_PARAMS =
     [param 0 ''effects-param-level'' (Continuous (-60) 12 False) 0 Decibels,
      param 1 ''effects-param-mute'' (Discrete 2) 0 Toggle]"

definition FILTER_PARAMS :: "param_def list" where
  "FILTER_PARAMS =
     [param 0 ''effects-param-filter-mode'' (Discrete 2) 0 Combo,
      param 1 ''effects-param-cutoff'' (Continuous 20 20000 True) 20 Hertz,
      param 2 ''effects-param-resonance'' (Continuous 0 1 False) 0 Q]"

definition STEREO_TOOLS_PARAMS :: "param_def list" where
  "STEREO_TOOLS_PARAMS =
     [param 0 ''effects-param-width'' (Continuous 0 2 False) 1 Multiplier,
      param 1 ''effects-param-balance'' (Continuous (-1) 1 False) 0 Pan,
      param 2 ''effects-param-mono-sum'' (Discrete 2) 0 Toggle,
      param 3 ''effects-param-phase-invert'' (Discrete 2) 0 Toggle,
      param 4 ''effects-param-channel-swap'' (Discrete 2) 0 Toggle]"

definition EQ_BAND_COUNT :: nat where "EQ_BAND_COUNT = 8"

definition eq_band_default_freq :: "nat \<Rightarrow> rat" where
  "eq_band_default_freq band = 63 * 2 ^ band"

text \<open>\<^verbatim>\<open>build_eq_params\<close>: four entries per band, in the order of the loop.\<close>

definition eq_band_params :: "nat \<Rightarrow> param_def list" where
  "eq_band_params b =
     [param (eq_band b 0) ''effects-param-band-freq'' (Continuous 20 20000 True)
        (eq_band_default_freq b) Hertz,
      param (eq_band b 1) ''effects-param-band-gain'' (Continuous (-24) 24 False) 0 Decibels,
      param (eq_band b 2) ''effects-param-band-q'' (Continuous (1 / 10) 10 False) 1 Q,
      param (eq_band b 3) ''effects-param-band-type'' (Discrete 3) 0 Combo]"

definition EQUALIZER_PARAMS :: "param_def list" where
  "EQUALIZER_PARAMS = concat (map eq_band_params [0..<EQ_BAND_COUNT])"

fun params :: "node_kind \<Rightarrow> param_def list" where
  "params PitchShift = PITCH_SHIFT_PARAMS"
| "params TimeStretch = TIME_STRETCH_PARAMS"
| "params Gain = GAIN_PARAMS"
| "params Equalizer = EQUALIZER_PARAMS"
| "params Filter = FILTER_PARAMS"
| "params StereoTools = STEREO_TOOLS_PARAMS"

definition find_param :: "node_kind \<Rightarrow> param_id \<Rightarrow> param_def option" where
  "find_param kind i = find (\<lambda>p. pd_id p = i) (params kind)"

section \<open>Clamping\<close>

definition shape_clamp :: "param_shape \<Rightarrow> f32 \<Rightarrow> nat \<Rightarrow> rat" where
  "shape_clamp s v source_rate =
     (case s of
        Continuous lo hi nyquist_clamped \<Rightarrow>
          let effective_max = (if nyquist_clamped then min hi (9 / 20 * of_nat source_rate) else hi)
          in saturate lo (max effective_max lo) v
      | Discrete states \<Rightarrow> saturate 0 (of_nat (states - 1)) (f32_round v))"

definition clamp :: "node_kind \<Rightarrow> param_id \<Rightarrow> f32 \<Rightarrow> nat \<Rightarrow> rat" where
  "clamp kind i v source_rate =
     (case find_param kind i of
        None \<Rightarrow> 0
      | Some d \<Rightarrow> if v = NaN then pd_default d else shape_clamp (pd_shape d) v source_rate)"

definition is_continuous :: "node_kind \<Rightarrow> param_id \<Rightarrow> bool" where
  "is_continuous kind i =
     (case map_option pd_shape (find_param kind i) of
        Some (Continuous _ _ _) \<Rightarrow> True
      | _ \<Rightarrow> False)"

section \<open>Quality modes\<close>

datatype quality_mode = Performance | Quality

record mode_state =
  ms_mode :: quality_mode
  ms_auto_switched :: bool

fun mode_value :: "quality_mode \<Rightarrow> rat" where
  "mode_value Performance = 0"
| "mode_value Quality = 1"

fun stage_use :: "node_kind \<Rightarrow> rat \<Rightarrow> bool" where
  "stage_use PitchShift v = (\<bar>v\<bar> \<le> 3)"
| "stage_use TimeStretch v = (1 / 2 \<le> v \<and> v \<le> 3 / 2)"
| "stage_use _ v = False"

definition mode_after_value_change :: "node_kind \<Rightarrow> rat \<Rightarrow> mode_state \<Rightarrow> mode_state" where
  "mode_after_value_change kind v state =
     (let in_range = stage_use kind v in
      case ms_mode state of
        Performance \<Rightarrow> if \<not> in_range then \<lparr>ms_mode = Quality, ms_auto_switched = True\<rparr> else state
      | Quality \<Rightarrow>
          if in_range \<and> ms_auto_switched state
          then \<lparr>ms_mode = Performance, ms_auto_switched = False\<rparr> else state)"

definition mode_after_user_set :: "quality_mode \<Rightarrow> mode_state" where
  "mode_after_user_set mode = \<lparr>ms_mode = mode, ms_auto_switched = False\<rparr>"

section \<open>Wire names\<close>

datatype wire_shape_of = Number | BoolShape | EnumShape

definition QUALITY_MODE_NAMES :: "string list" where
  "QUALITY_MODE_NAMES = [''performance'', ''quality'']"

definition FILTER_MODE_NAMES :: "string list" where
  "FILTER_MODE_NAMES = [''high_pass'', ''low_pass'']"

definition EQ_BAND_TYPE_NAMES :: "string list" where
  "EQ_BAND_TYPE_NAMES = [''peak'', ''low_shelf'', ''high_shelf'']"

definition EQ_WIRE_NAMES :: "string list list" where
  "EQ_WIRE_NAMES =
     [[''band1_freq'', ''band1_gain'', ''band1_q'', ''band1_type''],
      [''band2_freq'', ''band2_gain'', ''band2_q'', ''band2_type''],
      [''band3_freq'', ''band3_gain'', ''band3_q'', ''band3_type''],
      [''band4_freq'', ''band4_gain'', ''band4_q'', ''band4_type''],
      [''band5_freq'', ''band5_gain'', ''band5_q'', ''band5_type''],
      [''band6_freq'', ''band6_gain'', ''band6_q'', ''band6_type''],
      [''band7_freq'', ''band7_gain'', ''band7_q'', ''band7_type''],
      [''band8_freq'', ''band8_gain'', ''band8_q'', ''band8_type'']]"

definition name_at :: "string list \<Rightarrow> nat \<Rightarrow> string option" where
  "name_at ns i = (if i < length ns then Some (ns ! i) else None)"

fun param_wire_name :: "node_kind \<Rightarrow> param_id \<Rightarrow> string option" where
  "param_wire_name PitchShift i = name_at [''semitones'', ''formant'', ''quality_mode''] i"
| "param_wire_name TimeStretch i = name_at [''ratio'', ''quality_mode''] i"
| "param_wire_name Gain i = name_at [''level'', ''mute''] i"
| "param_wire_name Filter i = name_at [''mode'', ''cutoff'', ''resonance''] i"
| "param_wire_name StereoTools i =
     name_at [''width'', ''balance'', ''mono_sum'', ''phase_invert'', ''channel_swap''] i"
| "param_wire_name Equalizer raw =
     (if raw < 16 then None
      else let rel = raw - 16; band = rel div 4; sub = rel mod 4 in
        if band < length EQ_WIRE_NAMES then Some (EQ_WIRE_NAMES ! band ! sub) else None)"

definition param_by_wire_name :: "node_kind \<Rightarrow> string \<Rightarrow> param_id option" where
  "param_by_wire_name kind name =
     map_option pd_id (find (\<lambda>d. param_wire_name kind (pd_id d) = Some name) (params kind))"

definition enum_names :: "node_kind \<Rightarrow> param_id \<Rightarrow> string list option" where
  "enum_names kind i =
     (case find_param kind i of
        None \<Rightarrow> None
      | Some d \<Rightarrow>
          if pd_unit d \<noteq> Combo then None
          else if kind = PitchShift \<and> i = 2 \<or> kind = TimeStretch \<and> i = 1
            then Some QUALITY_MODE_NAMES
          else if kind = Filter \<and> i = 0 then Some FILTER_MODE_NAMES
          else if kind = Equalizer \<and> 16 \<le> i \<and> (i - 16) mod 4 = 3 then Some EQ_BAND_TYPE_NAMES
          else None)"

definition wire_shape :: "node_kind \<Rightarrow> param_id \<Rightarrow> wire_shape_of option" where
  "wire_shape kind i =
     map_option (\<lambda>d. case pd_shape d of
         Continuous _ _ _ \<Rightarrow> Number
       | Discrete _ \<Rightarrow>
           (case pd_unit d of Toggle \<Rightarrow> BoolShape | Combo \<Rightarrow> EnumShape | _ \<Rightarrow> Number))
       (find_param kind i)"

section \<open>Facts about the tables\<close>

lemmas table_defs =
  PITCH_SHIFT_PARAMS_def TIME_STRETCH_PARAMS_def GAIN_PARAMS_def FILTER_PARAMS_def
  STEREO_TOOLS_PARAMS_def EQUALIZER_PARAMS_def EQ_BAND_COUNT_def eq_band_params_def
  eq_band_def eq_band_default_freq_def param_def

lemma distinct_param_ids: "distinct (map pd_id (params kind))"
  by (cases kind) (simp_all add: table_defs upt_rec)

lemma find_param_iff: "find_param kind i = Some d \<longleftrightarrow> d \<in> set (params kind) \<and> pd_id d = i"
proof
  assume "d \<in> set (params kind) \<and> pd_id d = i"
  then show "find_param kind i = Some d"
    using find_key [OF distinct_param_ids] by (force simp: find_param_def)
qed (auto simp: find_param_def dest: find_SomeD)

text \<open>Every default lies in the range of its parameter (without the limit of the sampling rate).\<close>

fun in_shape :: "param_shape \<Rightarrow> rat \<Rightarrow> bool" where
  "in_shape (Continuous lo hi _) x = (lo \<le> x \<and> x \<le> hi)"
| "in_shape (Discrete n) x = (x \<in> \<int> \<and> 0 \<le> x \<and> x \<le> of_nat (n - 1))"

definition range_nonempty :: "param_shape \<Rightarrow> bool" where
  "range_nonempty s = (case s of Continuous lo hi _ \<Rightarrow> lo \<le> hi | Discrete n \<Rightarrow> 0 < n)"

lemma default_in_shape: "d \<in> set (params kind) \<Longrightarrow> in_shape (pd_shape d) (pd_default d)"
  by (cases kind) (auto simp: table_defs upt_rec)

lemma shape_range_nonempty: "d \<in> set (params kind) \<Longrightarrow> range_nonempty (pd_shape d)"
  by (cases kind) (auto simp: table_defs upt_rec range_nonempty_def)

lemma saturate_bounds: "lo \<le> hi \<Longrightarrow> lo \<le> saturate lo hi v \<and> saturate lo hi v \<le> hi"
  by (cases v) auto

lemma round_half_away_Ints [simp]: "round_half_away x \<in> \<int>"
  by (simp add: round_half_away_def)

lemma round_half_away_of_int [simp]: "round_half_away (of_int n) = of_int n"
proof -
  have "\<lfloor>of_int n + 1 / 2 :: rat\<rfloor> = n" "\<lfloor>1 / 2 - of_int n :: rat\<rfloor> = - n"
    by (simp_all add: floor_eq_iff)
  then show ?thesis by (simp add: round_half_away_def)
qed

lemma round_Ints: "x \<in> \<int> \<Longrightarrow> round_half_away x = x"
  by (auto elim: Ints_cases)

lemma shape_clamp_in_shape: "range_nonempty s \<Longrightarrow> in_shape s (shape_clamp s v r)"
proof (cases s)
  case (Continuous lo hi n)
  assume "range_nonempty s"
  with Continuous have le: "lo \<le> hi" by (simp add: range_nonempty_def)
  have "lo \<le> saturate lo (max m lo) v \<and> saturate lo (max m lo) v \<le> hi" if "m \<le> hi" for m
  proof -
    have "max m lo \<le> hi" using that le by simp
    then show ?thesis using saturate_bounds [of lo "max m lo" v] by (meson max.cobounded2 order_trans)
  qed
  from this [of "min hi (9 / 20 * of_nat r)"] this [of hi] show ?thesis
    using Continuous by (simp add: shape_clamp_def Let_def)
next
  case (Discrete n)
  have "saturate 0 (of_nat (n - 1)) (f32_round v) \<in> \<int>"
    by (cases v) auto
  then show ?thesis
    using Discrete saturate_bounds [of 0 "of_nat (n - 1)" "f32_round v"]
    by (simp add: shape_clamp_def)
qed

lemma shape_clamp_idem:
  "shape_clamp s (Finite (shape_clamp s v r)) r = shape_clamp s v r"
proof (cases s)
  case (Continuous lo hi n)
  have "saturate lo (max m lo) (Finite (saturate lo (max m lo) v)) = saturate lo (max m lo) v" for m
    using saturate_bounds [of lo "max m lo" v] by auto
  then show ?thesis using Continuous by (simp add: shape_clamp_def Let_def)
next
  case (Discrete n)
  have i: "saturate 0 (of_nat (n - 1)) (f32_round v) \<in> \<int>"
    by (cases v) auto
  show ?thesis
    using Discrete round_Ints [OF i] saturate_bounds [of 0 "of_nat (n - 1)" "f32_round v"]
    by (simp add: shape_clamp_def)
qed

end
