(* ===== verification/Chain_Model.thy ===== *)
theory Chain_Model
  imports Effect_Catalog
begin

text \<open>
  The controller's copy of the effect chain
  (\<^verbatim>\<open>crates/modplayer-core/src/effects/model.rs\<close>): the nodes in processing order, the
  bit set of free slots of the engine, and every operation with the commands it has the controller
  push to the engine (\<^verbatim>\<open>crates/modplayer-engine/src/command.rs\<close>). An operation that fails
  leaves the model as it was, so its result is \<open>Inl\<close> of the error alone.
\<close>

unbundle bit_operations_syntax

section \<open>State\<close>

datatype chain_command =
    ChainInsert nat nat node_kind node_owner
  | ChainRemove nat
  | ChainMove nat nat
  | ChainSetBypass nat bool
  | ChainSetParam nat param_id rat

record node_model =
  nm_id :: nat
  nm_slot :: nat
  nm_kind :: node_kind
  nm_owner :: node_owner
  nm_params :: "rat list"
  nm_bypassed :: bool
  nm_auto_bypassed :: bool
  nm_mode_state :: "mode_state option"
  nm_orphaned :: bool

datatype chain_error = Full | UnknownNode | WrongKind

record chain_model =
  cm_nodes :: "node_model list"
  cm_free_slots :: u16
  cm_next_id :: nat
  cm_source_rate :: nat
  cm_revision :: nat

type_synonym 'a chain_result = "chain_error + 'a \<times> chain_model"

definition param_index :: "node_kind \<Rightarrow> param_id \<Rightarrow> nat option" where
  "param_index kind i = position (\<lambda>p. pd_id p = i) (params kind)"

fun mode_param_id :: "node_kind \<Rightarrow> param_id option" where
  "mode_param_id PitchShift = Some 2"
| "mode_param_id TimeStretch = Some 1"
| "mode_param_id _ = None"

text \<open>\<^verbatim>\<open>value.round().max(0.0) as u8 >= 1\<close>; \<^verbatim>\<open>max\<close> drops a NaN, the cast saturates.\<close>

definition quality_mode_from_value :: "f32 \<Rightarrow> quality_mode" where
  "quality_mode_from_value v =
     (let at_least_one = (case f32_round v of
            NaN \<Rightarrow> False
          | NegInf \<Rightarrow> False
          | Finite x \<Rightarrow> 1 \<le> max x 0
          | PosInf \<Rightarrow> True)
      in if at_least_one then Quality else Performance)"

definition chain_new :: "nat \<Rightarrow> chain_model" where
  "chain_new source_rate =
     \<lparr>cm_nodes = [], cm_free_slots = - 1, cm_next_id = 0, cm_source_rate = source_rate,
      cm_revision = 0\<rparr>"

section \<open>Slots\<close>

definition trailing_zeros :: "u16 \<Rightarrow> nat" where
  "trailing_zeros w = length (takeWhile (\<lambda>i. \<not> bit w i) [0..<16])"

text \<open>\<^verbatim>\<open>1u16 << slot\<close>.\<close>

definition slot_bit :: "nat \<Rightarrow> u16" where
  "slot_bit slot = push_bit slot 1"

definition allocate_slot :: "chain_model \<Rightarrow> (nat \<times> chain_model) option" where
  "allocate_slot m =
     (if cm_free_slots m = 0 then None
      else let slot = trailing_zeros (cm_free_slots m)
        in Some (slot, m\<lparr>cm_free_slots := cm_free_slots m AND NOT (slot_bit slot)\<rparr>))"

definition release_slot :: "nat \<Rightarrow> chain_model \<Rightarrow> chain_model" where
  "release_slot slot m = m\<lparr>cm_free_slots := cm_free_slots m OR slot_bit slot\<rparr>"

definition find_node :: "nat \<Rightarrow> chain_model \<Rightarrow> chain_error + nat" where
  "find_node i m =
     (case position (\<lambda>n. nm_id n = i) (cm_nodes m) of
        None \<Rightarrow> Inl UnknownNode
      | Some idx \<Rightarrow> Inr idx)"

section \<open>Structure\<close>

definition has_mode :: "node_kind \<Rightarrow> bool" where
  "has_mode kind \<longleftrightarrow> kind = PitchShift \<or> kind = TimeStretch"

definition add_at :: "node_kind \<Rightarrow> node_owner \<Rightarrow> nat \<Rightarrow> chain_model
    \<Rightarrow> (nat \<times> chain_command list) chain_result" where
  "add_at kind owner index m =
     (if MAX_NODES \<le> length (cm_nodes m) then Inl Full
      else case allocate_slot m of
        None \<Rightarrow> Inl Full
      | Some (slot, m') \<Rightarrow>
          (let i = cm_next_id m';
               pos = min index (length (cm_nodes m'));
               node = \<lparr>nm_id = i, nm_slot = slot, nm_kind = kind, nm_owner = owner,
                  nm_params = map pd_default (params kind),
                  nm_bypassed = False, nm_auto_bypassed = False,
                  nm_mode_state = (if has_mode kind
                     then Some \<lparr>ms_mode = Performance, ms_auto_switched = False\<rparr> else None),
                  nm_orphaned = False\<rparr>
           in Inr ((i, [ChainInsert slot pos kind owner]),
                m'\<lparr>cm_next_id := i + 1,
                   cm_nodes := insert_nth pos node (cm_nodes m'),
                   cm_revision := cm_revision m' + 1\<rparr>)))"

definition chain_add :: "node_kind \<Rightarrow> node_owner \<Rightarrow> chain_model
    \<Rightarrow> (nat \<times> chain_command list) chain_result" where
  "chain_add kind owner m = add_at kind owner (length (cm_nodes m)) m"

definition chain_remove :: "nat \<Rightarrow> chain_model \<Rightarrow> chain_command list chain_result" where
  "chain_remove i m =
     (case find_node i m of
        Inl e \<Rightarrow> Inl e
      | Inr idx \<Rightarrow>
          (let node = cm_nodes m ! idx;
               m1 = m\<lparr>cm_nodes := remove_nth idx (cm_nodes m)\<rparr>;
               m2 = release_slot (nm_slot node) m1
           in Inr ([ChainRemove (nm_slot node)], m2\<lparr>cm_revision := cm_revision m2 + 1\<rparr>)))"

definition move_to :: "nat \<Rightarrow> nat \<Rightarrow> chain_model \<Rightarrow> chain_command list chain_result" where
  "move_to i index m =
     (case find_node i m of
        Inl e \<Rightarrow> Inl e
      | Inr cur \<Rightarrow>
          (let target = min index (length (cm_nodes m) - 1) in
           if target = cur then Inr ([], m)
           else let node = cm_nodes m ! cur in
             Inr ([ChainMove (nm_slot node) target],
               m\<lparr>cm_nodes := insert_nth target node (remove_nth cur (cm_nodes m)),
                 cm_revision := cm_revision m + 1\<rparr>)))"

definition move_by :: "nat \<Rightarrow> int \<Rightarrow> chain_model \<Rightarrow> chain_command list chain_result" where
  "move_by i delta m =
     (case find_node i m of
        Inl e \<Rightarrow> Inl e
      | Inr cur \<Rightarrow>
          (let len = length (cm_nodes m);
               target = (if delta < 0 then cur - nat (- delta)
                         else min (cur + nat delta) (len - 1))
           in move_to i target m))"

text \<open>\<^verbatim>\<open>self.nodes[idx]\<close> updated in place.\<close>

definition update_node :: "nat \<Rightarrow> (node_model \<Rightarrow> node_model) \<Rightarrow> chain_model \<Rightarrow> chain_model" where
  "update_node idx f m = m\<lparr>cm_nodes := (cm_nodes m)[idx := f (cm_nodes m ! idx)]\<rparr>"

definition bump :: "chain_model \<Rightarrow> chain_model" where
  "bump m = m\<lparr>cm_revision := cm_revision m + 1\<rparr>"

definition set_bypass :: "nat \<Rightarrow> bool \<Rightarrow> chain_model \<Rightarrow> chain_command list chain_result" where
  "set_bypass i bypassed m =
     (case find_node i m of
        Inl e \<Rightarrow> Inl e
      | Inr idx \<Rightarrow>
          Inr ([ChainSetBypass (nm_slot (cm_nodes m ! idx)) bypassed],
            bump (update_node idx
              (\<lambda>n. n\<lparr>nm_bypassed := bypassed,
                     nm_auto_bypassed := (if bypassed then nm_auto_bypassed n else False)\<rparr>) m)))"

section \<open>Parameters\<close>

definition set_mode :: "nat \<Rightarrow> quality_mode \<Rightarrow> chain_model \<Rightarrow> chain_command list chain_result" where
  "set_mode i mode m =
     (case find_node i m of
        Inl e \<Rightarrow> Inl e
      | Inr idx \<Rightarrow>
          (let node = cm_nodes m ! idx in
           case nm_mode_state node of
             None \<Rightarrow> Inl WrongKind
           | Some old_state \<Rightarrow>
               (case mode_param_id (nm_kind node) of
                  None \<Rightarrow> Inl WrongKind
                | Some mode_param \<Rightarrow>
                    (case param_index (nm_kind node) mode_param of
                       None \<Rightarrow> Inl WrongKind
                     | Some pos \<Rightarrow>
                         (let new_state = mode_after_user_set mode;
                              m' = update_node idx (\<lambda>n. n\<lparr>nm_mode_state := Some new_state,
                                     nm_params := (nm_params n)[pos := mode_value mode]\<rparr>) m
                          in Inr ([ChainSetParam (nm_slot node) mode_param (mode_value mode)],
                               if new_state \<noteq> old_state then bump m' else m'))))))"

text \<open>
  The automatic switch that follows a change of the semitones or the ratio: the new state of the
  node with the command for its mode, or nothing when the mode state stays.
\<close>

definition auto_switch :: "param_id \<Rightarrow> rat \<Rightarrow> node_model
    \<Rightarrow> (node_model \<times> chain_command list) option" where
  "auto_switch p clamped node =
     (case nm_mode_state node of
        None \<Rightarrow> None
      | Some state \<Rightarrow>
          if p = 0 \<and> has_mode (nm_kind node) then
            (let new_state = mode_after_value_change (nm_kind node) clamped state in
             if new_state = state then None
             else let node' = node\<lparr>nm_mode_state := Some new_state\<rparr> in
               case mode_param_id (nm_kind node) of
                 None \<Rightarrow> Some (node', [])
               | Some mode_param \<Rightarrow>
                   (case param_index (nm_kind node) mode_param of
                      None \<Rightarrow> Some (node', [])
                    | Some mode_pos \<Rightarrow>
                        (let v = mode_value (ms_mode new_state) in
                         Some (node'\<lparr>nm_params := (nm_params node')[mode_pos := v]\<rparr>,
                               [ChainSetParam (nm_slot node) mode_param v]))))
          else None)"

definition set_param :: "nat \<Rightarrow> param_id \<Rightarrow> f32 \<Rightarrow> chain_model
    \<Rightarrow> (rat \<times> chain_command list) chain_result" where
  "set_param i p requested m =
     (case find_node i m of
        Inl e \<Rightarrow> Inl e
      | Inr idx \<Rightarrow>
          (let node = cm_nodes m ! idx; kind = nm_kind node in
           if mode_param_id kind = Some p then
             (let mode = quality_mode_from_value requested in
              case set_mode i mode m of
                Inl e \<Rightarrow> Inl e
              | Inr (cmds, m') \<Rightarrow> Inr ((mode_value mode, cmds), m'))
           else case param_index kind p of
             None \<Rightarrow> Inl WrongKind
           | Some pos \<Rightarrow>
               (let clamped = clamp kind p requested (cm_source_rate m);
                    old = nm_params node ! pos;
                    node' = node\<lparr>nm_params := (nm_params node)[pos := clamped]\<rparr>;
                    cmd = ChainSetParam (nm_slot node) p clamped
                in case auto_switch p clamped node' of
                     Some (node'', cmds) \<Rightarrow>
                       Inr ((clamped, cmd # cmds), bump (update_node idx (\<lambda>_. node'') m))
                   | None \<Rightarrow>
                       (let m' = update_node idx (\<lambda>_. node') m in
                        Inr ((clamped, [cmd]), if EPSILON < \<bar>clamped - old\<bar> then bump m' else m')))))"

fun reclamp :: "node_kind \<Rightarrow> nat \<Rightarrow> nat \<Rightarrow> param_def list \<Rightarrow> rat list
    \<Rightarrow> rat list \<times> chain_command list" where
  "reclamp kind slot rate (d # ds) (old # vs) =
     (let (vs', cmds) = reclamp kind slot rate ds vs;
          limited = (case pd_shape d of Continuous _ _ n \<Rightarrow> n | Discrete _ \<Rightarrow> False);
          clamped = clamp kind (pd_id d) (Finite old) rate
      in if limited \<and> EPSILON < \<bar>clamped - old\<bar>
         then (clamped # vs', ChainSetParam slot (pd_id d) clamped # cmds)
         else (old # vs', cmds))"
| "reclamp kind slot rate _ vs = (vs, [])"

definition reclamp_node :: "nat \<Rightarrow> node_model \<Rightarrow> node_model \<times> chain_command list" where
  "reclamp_node rate node =
     (let (vs, cmds) = reclamp (nm_kind node) (nm_slot node) rate
                         (params (nm_kind node)) (nm_params node)
      in (node\<lparr>nm_params := vs\<rparr>, cmds))"

definition set_source_rate :: "nat \<Rightarrow> chain_model \<Rightarrow> chain_command list \<times> chain_model" where
  "set_source_rate rate m =
     (let rs = map (reclamp_node rate) (cm_nodes m);
          cmds = concat (map snd rs);
          m' = m\<lparr>cm_source_rate := rate, cm_nodes := map fst rs\<rparr>
      in (cmds, if cmds \<noteq> [] then bump m' else m'))"

section \<open>Ownership and overload\<close>

definition mark_auto_bypassed :: "nat \<Rightarrow> chain_model \<Rightarrow> chain_model" where
  "mark_auto_bypassed slot m =
     (case position (\<lambda>n. nm_slot n = slot) (cm_nodes m) of
        None \<Rightarrow> m
      | Some idx \<Rightarrow>
          bump (update_node idx (\<lambda>n. n\<lparr>nm_bypassed := True, nm_auto_bypassed := True\<rparr>) m))"

definition orphan_owned_by :: "nat \<Rightarrow> chain_model \<Rightarrow> nat list \<times> chain_model" where
  "orphan_owned_by plugin m =
     (let hit = (\<lambda>n. nm_owner n = PluginNode plugin \<and> \<not> nm_orphaned n);
          affected = map nm_id (filter hit (cm_nodes m));
          m' = m\<lparr>cm_nodes := map (\<lambda>n. if hit n then n\<lparr>nm_orphaned := True\<rparr> else n) (cm_nodes m)\<rparr>
      in (affected, if affected \<noteq> [] then bump m' else m'))"

definition readopt :: "nat \<Rightarrow> chain_model \<Rightarrow> nat list \<times> chain_model" where
  "readopt plugin m =
     (let hit = (\<lambda>n. nm_owner n = PluginNode plugin \<and> nm_orphaned n);
          affected = map nm_id (filter hit (cm_nodes m));
          m' = m\<lparr>cm_nodes := map (\<lambda>n. if hit n then n\<lparr>nm_orphaned := False\<rparr> else n) (cm_nodes m)\<rparr>
      in (affected, if affected \<noteq> [] then bump m' else m'))"

section \<open>Queries\<close>

definition owned_by :: "nat \<Rightarrow> chain_model \<Rightarrow> node_owner option" where
  "owned_by i m = map_option nm_owner (find (\<lambda>n. nm_id n = i) (cm_nodes m))"

fun wire_name :: "node_kind \<Rightarrow> string" where
  "wire_name PitchShift = ''pitch_shift''"
| "wire_name TimeStretch = ''time_stretch''"
| "wire_name Gain = ''gain''"
| "wire_name Equalizer = ''equalizer''"
| "wire_name Filter = ''filter''"
| "wire_name StereoTools = ''stereo_tools''"

datatype suggested_position = AtIndex nat | Before string | After string

fun resolve_position :: "suggested_position \<Rightarrow> chain_model \<Rightarrow> nat" where
  "resolve_position (AtIndex index) m = min index (length (cm_nodes m))"
| "resolve_position (Before name) m =
     (case position (\<lambda>n. wire_name (nm_kind n) = name) (cm_nodes m) of
        None \<Rightarrow> length (cm_nodes m) | Some i \<Rightarrow> i)"
| "resolve_position (After name) m =
     (case position (\<lambda>n. wire_name (nm_kind n) = name) (cm_nodes m) of
        None \<Rightarrow> length (cm_nodes m) | Some i \<Rightarrow> i + 1)"

definition first_time_stretch :: "chain_model \<Rightarrow> nat option" where
  "first_time_stretch m = map_option nm_id (find (\<lambda>n. nm_kind n = TimeStretch) (cm_nodes m))"

definition node_by_slot :: "nat \<Rightarrow> chain_model \<Rightarrow> node_model option" where
  "node_by_slot slot m = find (\<lambda>n. nm_slot n = slot) (cm_nodes m)"

section \<open>Replay\<close>

fun replay_params :: "nat \<Rightarrow> param_def list \<Rightarrow> rat list \<Rightarrow> chain_command list" where
  "replay_params slot (d # ds) (v # vs) =
     (if EPSILON < \<bar>v - pd_default d\<bar> then [ChainSetParam slot (pd_id d) v] else [])
       @ replay_params slot ds vs"
| "replay_params slot _ _ = []"

definition replay_node :: "nat \<Rightarrow> node_model \<Rightarrow> chain_command list" where
  "replay_node index n =
     ChainInsert (nm_slot n) index (nm_kind n) (nm_owner n)
       # replay_params (nm_slot n) (params (nm_kind n)) (nm_params n)
       @ (if nm_bypassed n then [ChainSetBypass (nm_slot n) True] else [])"

definition chain_replay :: "chain_model \<Rightarrow> chain_command list" where
  "chain_replay m = concat (map (\<lambda>(p, n). replay_node p n) (enumerate 0 (cm_nodes m)))"

section \<open>The controller's nudge of the tempo\<close>

definition tempo_step :: "int \<Rightarrow> chain_model \<Rightarrow> (chain_command list \<times> chain_model) option" where
  "tempo_step direction m =
     (case first_time_stretch m of
        None \<Rightarrow> None
      | Some i \<Rightarrow>
          (let current = (case find (\<lambda>n. nm_id n = i) (cm_nodes m) of
                 None \<Rightarrow> 1 | Some n \<Rightarrow> nm_params n ! 0)
           in case set_param i 0 (Finite (current + TEMPO_STEP * of_int direction)) m of
                Inl _ \<Rightarrow> Some ([], m)
              | Inr ((_, cmds), m') \<Rightarrow> Some (cmds, m')))"

end
