(* ===== verification/Chain_Invariant.thy ===== *)
theory Chain_Invariant
  imports Chain_Model
begin

text \<open>
  The invariant of the controller's copy of the effect chain and its preservation by every operation:
  the free bits are the slots no node has, node ids are fresh, every node is well-formed.
\<close>

section \<open>Slots as a set of bits\<close>

lemma trailing_zeros_bit:
  assumes "w \<noteq> 0"
  shows "trailing_zeros w < 16 \<and> bit w (trailing_zeros w) \<and> (\<forall>i<trailing_zeros w. \<not> bit w i)"
proof -
  from assms obtain k where k: "bit w k" by (auto simp: bit_eq_iff)
  then have "k < 16" using bit_imp_le_length [OF k] by simp
  let ?t = "takeWhile (\<lambda>i. \<not> bit w i) [0..<16]"
  have "length ?t < length [0..<16::nat]"
  proof (rule ccontr)
    assume "\<not> ?thesis"
    then have "length ?t = length [0..<16::nat]" using length_takeWhile_le by (metis linorder_neqE_nat not_less)
    then have "?t = [0..<16]" by (metis takeWhile_eq_take take_all order_refl)
    then have "\<forall>i\<in>set [0..<16]. \<not> bit w i" by (metis set_takeWhileD)
    with k \<open>k < 16\<close> show False by simp
  qed
  moreover from this have "bit w ([0..<16] ! length ?t)" using nth_length_takeWhile by fastforce
  moreover have "\<not> bit w i" if "i < length ?t" for i
    using that takeWhile_nth [OF that] set_takeWhileD nth_mem [OF that]
    by (metis (no_types, lifting) add.left_neutral calculation(1) length_upt less_trans minus_nat.diff_0 nth_upt)
  ultimately show ?thesis by (simp add: trailing_zeros_def)
qed

definition free_bits :: "u16 \<Rightarrow> nat set" where
  "free_bits w = {i. bit w i}"

lemma free_bits_less: "i \<in> free_bits w \<Longrightarrow> i < 16"
  using bit_imp_le_length [of w i] by (simp add: free_bits_def)

lemma free_bits_new [simp]: "free_bits (- 1) = {..<16}"
  by (auto simp: free_bits_def bit_minus_1_iff)

lemma free_bits_clear:
  "free_bits (w AND NOT (slot_bit s)) = free_bits w - {s}"
  by (auto simp: free_bits_def slot_bit_def bit_simps dest: bit_imp_le_length)

lemma free_bits_set:
  "s < 16 \<Longrightarrow> free_bits (w OR slot_bit s) = insert s (free_bits w)"
  by (auto simp: free_bits_def slot_bit_def bit_simps dest: bit_imp_le_length)

lemma free_bits_empty: "free_bits w = {} \<longleftrightarrow> w = 0"
  using bit_imp_le_length [of w] by (auto simp: free_bits_def bit_eq_iff)

text \<open>The allocated slot is the lowest free one.\<close>

lemma allocate_slot_None: "allocate_slot m = None \<longleftrightarrow> free_bits (cm_free_slots m) = {}"
  by (simp add: allocate_slot_def free_bits_empty Let_def)

lemma allocate_slot_Some:
  assumes "allocate_slot m = Some (s, m')"
  shows "s \<in> free_bits (cm_free_slots m)" "\<forall>t\<in>free_bits (cm_free_slots m). s \<le> t"
    "m' = m\<lparr>cm_free_slots := cm_free_slots m AND NOT (slot_bit s)\<rparr>"
proof -
  have n: "cm_free_slots m \<noteq> 0" and s: "s = trailing_zeros (cm_free_slots m)"
    and m': "m' = m\<lparr>cm_free_slots := cm_free_slots m AND NOT (slot_bit s)\<rparr>"
    using assms by (auto simp: allocate_slot_def Let_def split: if_splits)
  note t = trailing_zeros_bit [OF n, folded s]
  show "s \<in> free_bits (cm_free_slots m)" using t by (simp add: free_bits_def)
  show "\<forall>t\<in>free_bits (cm_free_slots m). s \<le> t" using t by (auto simp: free_bits_def not_le [symmetric])
  show "m' = m\<lparr>cm_free_slots := cm_free_slots m AND NOT (slot_bit s)\<rparr>" by (rule m')
qed

section \<open>Well-formed nodes\<close>

text \<open>
  A stored value is in the range of its parameter, and it is (up to \<open>EPSILON\<close>) the default or a
  value that clamping at the current rate keeps.
\<close>

definition value_ok :: "nat \<Rightarrow> param_def \<Rightarrow> rat \<Rightarrow> bool" where
  "value_ok rate d v \<longleftrightarrow> in_shape (pd_shape d) v \<and>
     (\<bar>v - pd_default d\<bar> \<le> EPSILON \<or> \<bar>shape_clamp (pd_shape d) (Finite v) rate - v\<bar> \<le> EPSILON)"

definition mode_pos :: "node_kind \<Rightarrow> nat" where
  "mode_pos kind = (if kind = PitchShift then 2 else 1)"

definition mode_ok :: "node_model \<Rightarrow> bool" where
  "mode_ok n =
     (case nm_mode_state n of
        None \<Rightarrow> \<not> has_mode (nm_kind n)
      | Some st \<Rightarrow> has_mode (nm_kind n) \<and>
          nm_params n ! mode_pos (nm_kind n) = mode_value (ms_mode st) \<and>
          (ms_auto_switched st \<longrightarrow> ms_mode st = Quality \<and> \<not> stage_use (nm_kind n) (nm_params n ! 0)))"

definition node_ok :: "nat \<Rightarrow> node_model \<Rightarrow> bool" where
  "node_ok rate n \<longleftrightarrow> list_all2 (value_ok rate) (params (nm_kind n)) (nm_params n) \<and>
     mode_ok n \<and> (nm_auto_bypassed n \<longrightarrow> nm_bypassed n)"

definition chain_ok :: "chain_model \<Rightarrow> bool" where
  "chain_ok m \<longleftrightarrow>
     distinct (map nm_id (cm_nodes m)) \<and> list_all (\<lambda>n. nm_id n < cm_next_id m) (cm_nodes m) \<and>
     distinct (map nm_slot (cm_nodes m)) \<and>
     free_bits (cm_free_slots m) = {..<16} - set (map nm_slot (cm_nodes m)) \<and>
     list_all (\<lambda>n. nm_slot n < 16) (cm_nodes m) \<and>
     list_all (node_ok (cm_source_rate m)) (cm_nodes m)"

lemma chain_new_ok: "chain_ok (chain_new r)"
  by (simp add: chain_ok_def chain_new_def)

lemma mode_param_facts:
  "mode_param_id kind = (if has_mode kind then Some (mode_pos kind) else None)"
  by (cases kind) (simp_all add: has_mode_def mode_pos_def)

lemma param_index_mode: "has_mode kind \<Longrightarrow> param_index kind (mode_pos kind) = Some (mode_pos kind)"
  by (auto simp: has_mode_def mode_pos_def param_index_def table_defs eval_nat_numeral)

lemma param_index_zero: "has_mode kind \<Longrightarrow> param_index kind 0 = Some 0"
  by (auto simp: has_mode_def param_index_def table_defs)

lemma param_index_SomeD:
  "param_index kind p = Some pos \<Longrightarrow> pos < length (params kind) \<and> pd_id (params kind ! pos) = p"
  by (auto simp: param_index_def dest: position_SomeD)

lemma find_param_index:
  "find_param kind p = map_option (\<lambda>i. params kind ! i) (param_index kind p)"
  by (simp add: find_param_def param_index_def find_position split: option.split)

lemma clamp_index:
  "param_index kind p = Some pos \<Longrightarrow>
   clamp kind p v r = (if v = NaN then pd_default (params kind ! pos)
     else shape_clamp (pd_shape (params kind ! pos)) v r)"
  by (simp add: clamp_def find_param_index)

lemma value_ok_default: "d \<in> set (params kind) \<Longrightarrow> value_ok r d (pd_default d)"
  by (simp add: value_ok_def default_in_shape EPSILON_def)

lemma value_ok_clamped:
  "d \<in> set (params kind) \<Longrightarrow> value_ok r d (if v = NaN then pd_default d else shape_clamp (pd_shape d) v r)"
  using shape_clamp_in_shape [OF shape_range_nonempty]
  by (simp add: value_ok_def default_in_shape shape_clamp_idem EPSILON_def)

lemma value_ok_clamp:
  "param_index kind p = Some pos \<Longrightarrow> value_ok r (params kind ! pos) (clamp kind p v r)"
  using value_ok_clamped [OF nth_mem] param_index_SomeD by (simp add: clamp_index)

lemma shape_clamp_discrete:
  "in_shape (Discrete k) v \<Longrightarrow> shape_clamp (Discrete k) (Finite v) r = v"
  using round_Ints by (auto simp: shape_clamp_def)

lemma value_ok_mode:
  assumes "has_mode kind"
  shows "value_ok r (params kind ! mode_pos kind) (mode_value m)"
proof -
  have "pd_shape (params kind ! mode_pos kind) = Discrete 2"
    using assms by (auto simp: has_mode_def mode_pos_def table_defs eval_nat_numeral)
  moreover have "in_shape (Discrete 2) (mode_value m)" by (cases m) auto
  ultimately show ?thesis using shape_clamp_discrete by (simp add: value_ok_def EPSILON_def)
qed


section \<open>Operations\<close>

lemma find_node_Inr:
  "find_node i m = Inr idx \<Longrightarrow> idx < length (cm_nodes m) \<and> nm_id (cm_nodes m ! idx) = i"
  by (auto simp: find_node_def split: option.splits dest: position_SomeD)

lemma find_node_Inl: "find_node i m = Inl e \<longleftrightarrow> e = UnknownNode \<and> i \<notin> nm_id ` set (cm_nodes m)"
proof (cases "position (\<lambda>n. nm_id n = i) (cm_nodes m)")
  case None
  then have "find_node i m = Inl UnknownNode" by (simp add: find_node_def del: position_None_iff)
  moreover have "i \<notin> nm_id ` set (cm_nodes m)" using None by auto
  ultimately show ?thesis by auto
next
  case (Some idx)
  then have "i \<in> nm_id ` set (cm_nodes m)" using position_SomeD [OF Some] by force
  with Some show ?thesis by (simp add: find_node_def)
qed

lemma find_node_nth:
  "distinct (map nm_id (cm_nodes m)) \<Longrightarrow> idx < length (cm_nodes m) \<Longrightarrow>
   find_node (nm_id (cm_nodes m ! idx)) m = Inr idx"
  by (simp add: find_node_def position_key_nth)

lemma set_insert_nth: "set (insert_nth i x xs) = insert x (set xs)"
  by (metis mset_insert_nth set_mset_add_mset_insert set_mset_mset)

lemma map_insert_nth: "map f (insert_nth i x xs) = insert_nth i (f x) (map f xs)"
  by (simp add: insert_nth_def take_map drop_map)

lemma distinct_insert_nth: "distinct (insert_nth i x xs) \<longleftrightarrow> x \<notin> set xs \<and> distinct xs"
proof -
  have "distinct (insert_nth i x xs) \<longleftrightarrow> distinct (x # xs)"
    by (rule mset_eq_imp_distinct_iff) (simp add: mset_insert_nth)
  then show ?thesis by simp
qed

lemma list_all_insert_nth: "list_all P (insert_nth i x xs) \<longleftrightarrow> P x \<and> list_all P xs"
  by (auto simp: list_all_iff set_insert_nth)

lemma list_all_remove_nth: "list_all P xs \<Longrightarrow> list_all P (remove_nth i xs)"
  using set_remove_nth_subset by (fastforce simp: list_all_iff)

lemma fresh_node_ok:
  "node_ok r \<lparr>nm_id = i, nm_slot = s, nm_kind = kind, nm_owner = ow,
     nm_params = map pd_default (params kind), nm_bypassed = False, nm_auto_bypassed = False,
     nm_mode_state = (if has_mode kind
        then Some \<lparr>ms_mode = Performance, ms_auto_switched = False\<rparr> else None),
     nm_orphaned = False\<rparr>"
proof -
  have "map pd_default (params kind) ! mode_pos kind = 0" if "has_mode kind"
    using that by (auto simp: has_mode_def mode_pos_def table_defs eval_nat_numeral)
  moreover have "list_all2 (value_ok r) (params kind) (map pd_default (params kind))"
    by (simp add: list_all2_conv_all_nth value_ok_default [OF nth_mem])
  ultimately show ?thesis by (simp add: node_ok_def mode_ok_def)
qed

lemma add_at_cases:
  assumes "add_at kind owner index m = Inr ((i, cmds), m')"
  obtains s node where "length (cm_nodes m) < MAX_NODES" "s \<in> free_bits (cm_free_slots m)"
    "\<forall>t\<in>free_bits (cm_free_slots m). s \<le> t" "i = cm_next_id m"
    "nm_id node = i" "nm_slot node = s" "nm_kind node = kind" "nm_owner node = owner"
    "nm_params node = map pd_default (params kind)" "\<not> nm_bypassed node"
    "\<And>r. node_ok r node" "\<not> nm_orphaned node"
    "cmds = [ChainInsert s (min index (length (cm_nodes m))) kind owner]"
    "m' = m\<lparr>cm_free_slots := cm_free_slots m AND NOT (slot_bit s), cm_next_id := i + 1,
       cm_nodes := insert_nth (min index (length (cm_nodes m))) node (cm_nodes m),
       cm_revision := cm_revision m + 1\<rparr>"
proof -
  from assms obtain s m1 where a: "allocate_slot m = Some (s, m1)"
    by (auto simp: add_at_def split: if_splits option.splits)
  note al = allocate_slot_Some [OF a]
  let ?node = "\<lparr>nm_id = cm_next_id m, nm_slot = s, nm_kind = kind, nm_owner = owner,
     nm_params = map pd_default (params kind), nm_bypassed = False, nm_auto_bypassed = False,
     nm_mode_state = (if has_mode kind
        then Some \<lparr>ms_mode = Performance, ms_auto_switched = False\<rparr> else None),
     nm_orphaned = False\<rparr>"
  have i: "i = cm_next_id m" and c: "cmds = [ChainInsert s (min index (length (cm_nodes m))) kind owner]"
    and l: "length (cm_nodes m) < MAX_NODES"
    and m': "m' = m\<lparr>cm_free_slots := cm_free_slots m AND NOT (slot_bit s), cm_next_id := i + 1,
       cm_nodes := insert_nth (min index (length (cm_nodes m))) ?node (cm_nodes m),
       cm_revision := cm_revision m + 1\<rparr>"
    using assms a al(3) by (auto simp: add_at_def Let_def split: if_splits)
  show thesis
    by (rule that [OF l al(1,2) i _ _ _ _ _ _ _ _ c m'])
       (use fresh_node_ok [of _ "cm_next_id m" s kind owner] i in simp_all)
qed

lemma list_all_next: "list_all (\<lambda>n. nm_id n < k) ns \<Longrightarrow> list_all (\<lambda>n. nm_id n < Suc k) ns"
  by (auto simp: list_all_iff)

lemma add_at_ok:
  assumes ok: "chain_ok m" and r: "add_at kind owner index m = Inr ((i, cmds), m')"
  shows "chain_ok m'"
  using r
proof (cases rule: add_at_cases)
  case (1 s node)
  let ?ns = "insert_nth (min index (length (cm_nodes m))) node (cm_nodes m)"
  have s: "s < 16" "s \<notin> nm_slot ` set (cm_nodes m)"
    using 1(2) ok free_bits_less by (auto simp: chain_ok_def)
  have f: "free_bits (cm_free_slots m AND NOT (slot_bit s)) = free_bits (cm_free_slots m) - {s}"
    by (rule free_bits_clear)
  have i: "nm_id node \<notin> nm_id ` set (cm_nodes m)"
    using ok 1(4,5) by (auto simp: chain_ok_def list_all_iff)
  have "distinct (map nm_id ?ns)" "distinct (map nm_slot ?ns)"
    using ok i s(2) 1(6) by (simp_all add: chain_ok_def map_insert_nth distinct_insert_nth)
  moreover have "list_all (\<lambda>n. nm_id n < i + 1) ?ns"
    using ok 1(4,5) list_all_next [of "cm_next_id m" "cm_nodes m"]
    by (simp add: chain_ok_def list_all_insert_nth)
  moreover have "list_all (\<lambda>n. nm_slot n < 16) ?ns" "list_all (node_ok (cm_source_rate m)) ?ns"
    using ok s(1) 1(6,11) by (simp_all add: chain_ok_def list_all_insert_nth)
  moreover have "free_bits (cm_free_slots m AND NOT (slot_bit s)) = {..<16} - set (map nm_slot ?ns)"
    using ok 1(6) f by (auto simp: chain_ok_def set_insert_nth)
  ultimately show ?thesis by (simp add: chain_ok_def 1(14))
qed

lemma remove_cases:
  assumes "chain_remove i m = Inr (cmds, m')"
  obtains idx where "find_node i m = Inr idx" "idx < length (cm_nodes m)"
    "nm_id (cm_nodes m ! idx) = i" "cmds = [ChainRemove (nm_slot (cm_nodes m ! idx))]"
    "m' = m\<lparr>cm_nodes := remove_nth idx (cm_nodes m),
       cm_free_slots := cm_free_slots m OR slot_bit (nm_slot (cm_nodes m ! idx)),
       cm_revision := cm_revision m + 1\<rparr>"
  using assms find_node_Inr
  by (auto simp: chain_remove_def release_slot_def Let_def split: sum.splits)

lemma remove_ok:
  assumes ok: "chain_ok m" and r: "chain_remove i m = Inr (cmds, m')"
  shows "chain_ok m'"
  using r
proof (cases rule: remove_cases)
  case (1 idx)
  let ?s = "nm_slot (cm_nodes m ! idx)" and ?ns = "remove_nth idx (cm_nodes m)"
  have s: "?s < 16" using ok 1(2) by (simp add: chain_ok_def list_all_length)
  have f: "free_bits (cm_free_slots m OR slot_bit ?s) = insert ?s (free_bits (cm_free_slots m))"
    using s by (rule free_bits_set)
  have d: "distinct (map nm_slot (cm_nodes m))" using ok by (simp add: chain_ok_def)
  have sl: "set (map nm_slot ?ns) = set (map nm_slot (cm_nodes m)) - {?s}"
    using set_remove_nth_distinct [OF d] 1(2) by (simp add: map_remove_nth)
  have u: "?s \<in> set (map nm_slot (cm_nodes m))" using 1(2) by simp
  have fr: "free_bits (cm_free_slots m) = {..<16} - set (map nm_slot (cm_nodes m))"
    using ok by (simp add: chain_ok_def)
  have "free_bits (cm_free_slots m OR slot_bit ?s) = {..<16} - set (map nm_slot ?ns)"
    unfolding f sl fr using s u by blast
  moreover have "distinct (map nm_id ?ns)" "distinct (map nm_slot ?ns)"
    using ok by (simp_all add: chain_ok_def map_remove_nth distinct_remove_nth)
  ultimately show ?thesis
    using ok by (simp add: chain_ok_def 1(5) list_all_remove_nth)
qed

lemma bump_ok [simp]: "chain_ok (bump m) = chain_ok m"
  by (simp add: chain_ok_def bump_def)

lemma bump_nodes [simp]: "cm_nodes (bump m) = cm_nodes m" "cm_source_rate (bump m) = cm_source_rate m"
    "cm_next_id (bump m) = cm_next_id m" "cm_free_slots (bump m) = cm_free_slots m"
    "cm_revision (bump m) = cm_revision m + 1"
  by (simp_all add: bump_def)

lemma move_to_cases:
  assumes "move_to i index m = Inr (cmds, m')"
  obtains (stays) cur where "find_node i m = Inr cur" "min index (length (cm_nodes m) - 1) = cur"
      "cmds = []" "m' = m"
  | (moves) cur t where "find_node i m = Inr cur" "t = min index (length (cm_nodes m) - 1)" "t \<noteq> cur"
      "cmds = [ChainMove (nm_slot (cm_nodes m ! cur)) t]"
      "m' = bump (m\<lparr>cm_nodes := insert_nth t (cm_nodes m ! cur) (remove_nth cur (cm_nodes m))\<rparr>)"
  using assms
  by (auto simp: move_to_def bump_def Let_def split: sum.splits if_splits)

lemma mset_map_cong: "mset xs = mset ys \<Longrightarrow> mset (map f xs) = mset (map f ys)"
  by simp

lemma chain_ok_permute:
  assumes "chain_ok m" and p: "mset ns = mset (cm_nodes m)"
  shows "chain_ok (m\<lparr>cm_nodes := ns\<rparr>)"
proof -
  have "distinct (map f ns) = distinct (map f (cm_nodes m))" for f :: "node_model \<Rightarrow> nat"
    by (rule mset_eq_imp_distinct_iff) (simp add: p)
  moreover have "set ns = set (cm_nodes m)" using p by (rule mset_eq_setD)
  ultimately show ?thesis using assms(1) by (simp add: chain_ok_def list_all_iff)
qed

lemma mset_move: "cur < length xs \<Longrightarrow> mset (insert_nth t (xs ! cur) (remove_nth cur xs)) = mset xs"
  by (simp add: mset_insert_nth mset_remove_nth)

lemma move_to_ok:
  assumes ok: "chain_ok m" and r: "move_to i index m = Inr (cmds, m')"
  shows "chain_ok m'"
  using r
proof (cases rule: move_to_cases)
  case (moves cur t)
  then have "cur < length (cm_nodes m)" using find_node_Inr by blast
  then show ?thesis using chain_ok_permute [OF ok mset_move] moves(5) by simp
qed (use ok in simp)

lemma move_by_to:
  "move_by i delta m = Inr r \<Longrightarrow> \<exists>index. move_to i index m = Inr r"
  by (auto simp: move_by_def Let_def split: sum.splits)

text \<open>A change of one node in place.\<close>

lemma update_node_ok:
  assumes ok: "chain_ok m" and i: "idx < length (cm_nodes m)"
    and k: "nm_id (f (cm_nodes m ! idx)) = nm_id (cm_nodes m ! idx)"
      "nm_slot (f (cm_nodes m ! idx)) = nm_slot (cm_nodes m ! idx)"
    and n: "node_ok (cm_source_rate m) (f (cm_nodes m ! idx))"
  shows "chain_ok (update_node idx f m)"
proof -
  let ?ns = "(cm_nodes m)[idx := f (cm_nodes m ! idx)]"
  have "map nm_id ?ns = map nm_id (cm_nodes m)" "map nm_slot ?ns = map nm_slot (cm_nodes m)"
    using i k by (simp_all add: map_update list_update_same_conv)
  moreover have "list_all (\<lambda>n. nm_id n < cm_next_id m) ?ns"
    "list_all (\<lambda>n. nm_slot n < 16) ?ns" "list_all (node_ok (cm_source_rate m)) ?ns"
    using ok i k n by (simp_all add: chain_ok_def list_all_length nth_list_update)
  ultimately show ?thesis using ok by (simp add: chain_ok_def update_node_def del: set_map)
qed

lemma nth_ok: "chain_ok m \<Longrightarrow> idx < length (cm_nodes m) \<Longrightarrow> node_ok (cm_source_rate m) (cm_nodes m ! idx)"
  by (simp add: chain_ok_def list_all_length)

lemma set_bypass_cases:
  assumes "set_bypass i b m = Inr (cmds, m')"
  obtains idx where "find_node i m = Inr idx" "cmds = [ChainSetBypass (nm_slot (cm_nodes m ! idx)) b]"
    "m' = bump (update_node idx (\<lambda>n. n\<lparr>nm_bypassed := b,
            nm_auto_bypassed := (if b then nm_auto_bypassed n else False)\<rparr>) m)"
  using assms by (auto simp: set_bypass_def split: sum.splits)

lemma set_bypass_ok:
  assumes ok: "chain_ok m" and r: "set_bypass i b m = Inr (cmds, m')"
  shows "chain_ok m'"
  using r
proof (cases rule: set_bypass_cases)
  case (1 idx)
  then have i: "idx < length (cm_nodes m)" using find_node_Inr by blast
  show ?thesis
    unfolding 1(3) bump_ok
    by (rule update_node_ok [OF ok i])
       (use nth_ok [OF ok i] in \<open>auto simp: node_ok_def mode_ok_def split: option.splits\<close>)
qed

lemma node_params_length: "node_ok r n \<Longrightarrow> length (nm_params n) = length (params (nm_kind n))"
  by (auto simp: node_ok_def dest: list_all2_lengthD)

lemma list_all2_value_update:
  "list_all2 P ds vs \<Longrightarrow> P (ds ! k) v \<Longrightarrow> list_all2 P ds (vs[k := v])"
  by (auto simp: list_all2_conv_all_nth) (metis nth_list_update_eq nth_list_update_neq)

lemma mode_ok_mode: "mode_ok n \<Longrightarrow> (nm_mode_state n \<noteq> None) = has_mode (nm_kind n)"
  by (auto simp: mode_ok_def split: option.splits)

lemma mode_pos_less: "has_mode kind \<Longrightarrow> 0 < mode_pos kind \<and> mode_pos kind < length (params kind)"
  by (auto simp: has_mode_def mode_pos_def table_defs)

text \<open>A node with a mode, after its mode state and the parameter that shows it have changed.\<close>

lemma node_ok_set_mode:
  assumes n: "list_all2 (value_ok r) (params (nm_kind n)) (nm_params n)"
      "nm_auto_bypassed n \<longrightarrow> nm_bypassed n" "has_mode (nm_kind n)"
    and st: "ms_auto_switched st \<longrightarrow> ms_mode st = Quality \<and> \<not> stage_use (nm_kind n) (nm_params n ! 0)"
  shows "node_ok r (n\<lparr>nm_mode_state := Some st,
           nm_params := (nm_params n)[mode_pos (nm_kind n) := mode_value (ms_mode st)]\<rparr>)"
proof -
  have "length (nm_params n) = length (params (nm_kind n))" using n(1) list_all2_lengthD by metis
  then show ?thesis
    using assms mode_pos_less [OF n(3)]
    by (simp add: node_ok_def mode_ok_def list_all2_value_update value_ok_mode)
qed

lemma set_mode_cases:
  assumes "set_mode i mode m = Inr (cmds, m')"
  obtains idx st where "find_node i m = Inr idx" "nm_mode_state (cm_nodes m ! idx) = Some st"
    "has_mode (nm_kind (cm_nodes m ! idx))"
    "cmds = [ChainSetParam (nm_slot (cm_nodes m ! idx)) (mode_pos (nm_kind (cm_nodes m ! idx))) (mode_value mode)]"
    "m' = (let m1 = update_node idx (\<lambda>n. n\<lparr>nm_mode_state := Some (mode_after_user_set mode),
             nm_params := (nm_params n)[mode_pos (nm_kind (cm_nodes m ! idx)) := mode_value mode]\<rparr>) m
           in if mode_after_user_set mode \<noteq> st then bump m1 else m1)"
proof -
  from assms obtain idx where i: "find_node i m = Inr idx"
    by (auto simp: set_mode_def split: sum.splits)
  with assms obtain st where st: "nm_mode_state (cm_nodes m ! idx) = Some st"
    by (auto simp: set_mode_def Let_def split: option.splits)
  have h: "has_mode (nm_kind (cm_nodes m ! idx))"
    using assms i st by (auto simp: set_mode_def Let_def mode_param_facts split: if_splits)
  show thesis
    by (rule that [OF i st h])
       (use assms i st h in \<open>auto simp: set_mode_def Let_def mode_param_facts param_index_mode
          split: if_splits\<close>)
qed

lemma set_mode_ok:
  assumes ok: "chain_ok m" and r: "set_mode i mode m = Inr (cmds, m')"
  shows "chain_ok m'"
  using r
proof (cases rule: set_mode_cases)
  case (1 idx st)
  then have i: "idx < length (cm_nodes m)" using find_node_Inr by blast
  let ?n = "cm_nodes m ! idx"
  have "node_ok (cm_source_rate m) (?n\<lparr>nm_mode_state := Some (mode_after_user_set mode),
          nm_params := (nm_params ?n)[mode_pos (nm_kind ?n) := mode_value (ms_mode (mode_after_user_set mode))]\<rparr>)"
    by (rule node_ok_set_mode)
       (use nth_ok [OF ok i] 1(3) in \<open>simp_all add: node_ok_def mode_after_user_set_def\<close>)
  then have "chain_ok (update_node idx (\<lambda>n. n\<lparr>nm_mode_state := Some (mode_after_user_set mode),
             nm_params := (nm_params n)[mode_pos (nm_kind ?n) := mode_value mode]\<rparr>) m)"
    by (intro update_node_ok [OF ok i]) (simp_all add: mode_after_user_set_def)
  then show ?thesis unfolding 1(5) Let_def by auto
qed

lemma mode_after_value_change_flag:
  assumes "ms_auto_switched st \<longrightarrow> ms_mode st = Quality"
  shows "ms_auto_switched (mode_after_value_change kind v st) \<longrightarrow>
     ms_mode (mode_after_value_change kind v st) = Quality \<and> \<not> stage_use kind v"
  using assms by (auto simp: mode_after_value_change_def Let_def split: quality_mode.split)

lemma params_update_ok:
  assumes n: "node_ok r n" and p: "param_index (nm_kind n) p = Some pos"
    and m: "mode_param_id (nm_kind n) \<noteq> Some p"
  shows "list_all2 (value_ok r) (params (nm_kind n)) ((nm_params n)[pos := clamp (nm_kind n) p v r])"
    and "has_mode (nm_kind n) \<Longrightarrow> pos \<noteq> mode_pos (nm_kind n)"
    and "has_mode (nm_kind n) \<Longrightarrow> (pos = 0) = (p = 0)"
proof -
  show "list_all2 (value_ok r) (params (nm_kind n)) ((nm_params n)[pos := clamp (nm_kind n) p v r])"
    using n value_ok_clamp [OF p] by (simp add: node_ok_def list_all2_value_update)
  assume h: "has_mode (nm_kind n)"
  have pid: "p = pd_id (params (nm_kind n) ! pos)" and l: "pos < length (params (nm_kind n))"
    using param_index_SomeD [OF p] by simp_all
  have "pd_id (params (nm_kind n) ! k) = k" if "k < length (params (nm_kind n))" for k
    using h that by (auto simp: has_mode_def table_defs less_Suc_eq eval_nat_numeral)
  then have "p = pos" using pid l by simp
  then show "pos \<noteq> mode_pos (nm_kind n)" "(pos = 0) = (p = 0)"
    using m h by (auto simp: mode_param_facts)
qed

lemma set_param_cases:
  assumes "set_param i p v m = Inr ((x, cmds), m')"
  obtains (mode) idx where "find_node i m = Inr idx"
      "mode_param_id (nm_kind (cm_nodes m ! idx)) = Some p"
      "set_mode i (quality_mode_from_value v) m = Inr (cmds, m')"
      "x = mode_value (quality_mode_from_value v)"
  | (plain) idx pos n where "find_node i m = Inr idx"
      "mode_param_id (nm_kind (cm_nodes m ! idx)) \<noteq> Some p"
      "param_index (nm_kind (cm_nodes m ! idx)) p = Some pos"
      "x = clamp (nm_kind (cm_nodes m ! idx)) p v (cm_source_rate m)"
      "n = (cm_nodes m ! idx)\<lparr>nm_params := (nm_params (cm_nodes m ! idx))[pos := x]\<rparr>"
      "auto_switch p x n = None" "cmds = [ChainSetParam (nm_slot n) p x]"
      "m' = (let m1 = update_node idx (\<lambda>_. n) m
             in if EPSILON < \<bar>x - nm_params (cm_nodes m ! idx) ! pos\<bar> then bump m1 else m1)"
  | (switched) idx pos n n2 cmds2 where "find_node i m = Inr idx"
      "mode_param_id (nm_kind (cm_nodes m ! idx)) \<noteq> Some p"
      "param_index (nm_kind (cm_nodes m ! idx)) p = Some pos"
      "x = clamp (nm_kind (cm_nodes m ! idx)) p v (cm_source_rate m)"
      "n = (cm_nodes m ! idx)\<lparr>nm_params := (nm_params (cm_nodes m ! idx))[pos := x]\<rparr>"
      "auto_switch p x n = Some (n2, cmds2)" "cmds = ChainSetParam (nm_slot n) p x # cmds2"
      "m' = bump (update_node idx (\<lambda>_. n2) m)"
proof -
  from assms obtain idx where i: "find_node i m = Inr idx"
    by (auto simp: set_param_def split: sum.splits)
  show thesis
  proof (cases "mode_param_id (nm_kind (cm_nodes m ! idx)) = Some p")
    case True
    then show ?thesis
      using assms i by (intro mode [OF i True]) (auto simp: set_param_def Let_def split: sum.splits prod.splits)
  next
    case False
    then obtain pos where pos: "param_index (nm_kind (cm_nodes m ! idx)) p = Some pos"
      using assms i by (auto simp: set_param_def Let_def split: option.splits)
    let ?x = "clamp (nm_kind (cm_nodes m ! idx)) p v (cm_source_rate m)"
    let ?n = "(cm_nodes m ! idx)\<lparr>nm_params := (nm_params (cm_nodes m ! idx))[pos := ?x]\<rparr>"
    have x: "x = ?x"
      using assms i False pos by (auto simp: set_param_def Let_def split: option.splits prod.splits)
    show ?thesis
    proof (cases "auto_switch p ?x ?n")
      case None
      then show ?thesis
        using assms i False pos x
        by (intro plain [OF i False pos x _]) (auto simp: set_param_def Let_def)
    next
      case (Some r)
      then show ?thesis
        using assms i False pos x
        by (cases r, intro switched [OF i False pos x _]) (auto simp: set_param_def Let_def)
    qed
  qed
qed

lemma auto_switch_None:
  assumes "auto_switch p x n = None" "has_mode (nm_kind n)" "p = 0"
    "nm_mode_state n = Some st"
  shows "mode_after_value_change (nm_kind n) x st = st"
  using assms by (auto simp: auto_switch_def Let_def mode_param_facts param_index_mode split: if_splits)

lemma auto_switch_Some:
  assumes "auto_switch p x n = Some (n2, cmds)"
  obtains st st2 where "p = 0" "has_mode (nm_kind n)" "nm_mode_state n = Some st"
    "st2 = mode_after_value_change (nm_kind n) x st" "st2 \<noteq> st"
    "n2 = n\<lparr>nm_mode_state := Some st2,
            nm_params := (nm_params n)[mode_pos (nm_kind n) := mode_value (ms_mode st2)]\<rparr>"
    "cmds = [ChainSetParam (nm_slot n) (mode_pos (nm_kind n)) (mode_value (ms_mode st2))]"
  using assms
  by (auto simp: auto_switch_def Let_def mode_param_facts param_index_mode split: option.splits if_splits)

lemma set_param_node_ok:
  assumes n: "node_ok r n" and p: "param_index (nm_kind n) p = Some pos"
    and m: "mode_param_id (nm_kind n) \<noteq> Some p" and x: "x = clamp (nm_kind n) p v r"
    and n1: "n1 = n\<lparr>nm_params := (nm_params n)[pos := x]\<rparr>"
  shows "auto_switch p x n1 = None \<Longrightarrow> node_ok r n1"
    and "auto_switch p x n1 = Some (n2, cmds) \<Longrightarrow> node_ok r n2"
proof -
  note u = params_update_ok(1) [OF n p m, of v, folded x] params_update_ok(2,3) [OF n p m]
  have len: "length (nm_params n) = length (params (nm_kind n))" using n by (rule node_params_length)
  have pl: "pos < length (params (nm_kind n))" using param_index_SomeD [OF p] by simp
  have st: "nm_mode_state n = None \<and> \<not> has_mode (nm_kind n) \<or>
      (\<exists>st. nm_mode_state n = Some st \<and> has_mode (nm_kind n) \<and>
        nm_params n ! mode_pos (nm_kind n) = mode_value (ms_mode st) \<and>
        (ms_auto_switched st \<longrightarrow> ms_mode st = Quality \<and> \<not> stage_use (nm_kind n) (nm_params n ! 0)))"
    using n by (auto simp: node_ok_def mode_ok_def split: option.splits)
  have first: "nm_params n1 ! 0 = (if p = 0 then x else nm_params n ! 0)" if "has_mode (nm_kind n)"
    using u(3) [OF that] len pl n1 by auto
  show "node_ok r n1" if a: "auto_switch p x n1 = None"
    using st
  proof
    assume "nm_mode_state n = None \<and> \<not> has_mode (nm_kind n)"
    then show ?thesis using n u(1) n1 by (simp add: node_ok_def mode_ok_def)
  next
    assume "\<exists>st. nm_mode_state n = Some st \<and> has_mode (nm_kind n) \<and>
        nm_params n ! mode_pos (nm_kind n) = mode_value (ms_mode st) \<and>
        (ms_auto_switched st \<longrightarrow> ms_mode st = Quality \<and> \<not> stage_use (nm_kind n) (nm_params n ! 0))"
    then obtain st where s: "nm_mode_state n = Some st" "has_mode (nm_kind n)"
        "nm_params n ! mode_pos (nm_kind n) = mode_value (ms_mode st)"
        "ms_auto_switched st \<longrightarrow> ms_mode st = Quality \<and> \<not> stage_use (nm_kind n) (nm_params n ! 0)"
      by blast
    have "nm_params n1 ! mode_pos (nm_kind n) = mode_value (ms_mode st)"
      using s(3) u(2) [OF s(2)] n1 by simp
    moreover have "ms_auto_switched st \<longrightarrow> ms_mode st = Quality \<and> \<not> stage_use (nm_kind n) (nm_params n1 ! 0)"
    proof (cases "p = 0")
      case True
      have "mode_after_value_change (nm_kind n) x st = st"
        using a s(1,2) True n1 auto_switch_None [of p x n1 st] by simp
      then show ?thesis
        using mode_after_value_change_flag [of st "nm_kind n" x] s(4) first [OF s(2)] True by auto
    next
      case False
      then show ?thesis using s(4) first [OF s(2)] by simp
    qed
    ultimately show ?thesis
      using n u(1) n1 s(1,2) by (simp add: node_ok_def mode_ok_def)
  qed
  show "node_ok r n2" if a: "auto_switch p x n1 = Some (n2, cmds)"
    using a
  proof (cases rule: auto_switch_Some)
    case (1 st st2)
    have k: "nm_kind n1 = nm_kind n" using n1 by simp
    have h: "has_mode (nm_kind n)" using 1(2) k by simp
    have "ms_auto_switched st \<longrightarrow> ms_mode st = Quality"
      using st 1(3) n1 by auto
    then have "ms_auto_switched st2 \<longrightarrow> ms_mode st2 = Quality \<and> \<not> stage_use (nm_kind n1) (nm_params n1 ! 0)"
      using mode_after_value_change_flag first [OF h] 1(1,4) k by auto
    then show ?thesis
      unfolding 1(6) using u(1) n n1 1(2) k
      by (intro node_ok_set_mode) (simp_all add: node_ok_def)
  qed
qed

lemma set_param_ok:
  assumes ok: "chain_ok m" and r: "set_param i p v m = Inr ((x, cmds), m')"
  shows "chain_ok m'"
  using r
proof (cases rule: set_param_cases)
  case (mode idx)
  then show ?thesis using set_mode_ok [OF ok] by blast
next
  case (plain idx pos n)
  then have i: "idx < length (cm_nodes m)" using find_node_Inr by blast
  have "node_ok (cm_source_rate m) n"
    using set_param_node_ok(1) [OF nth_ok [OF ok i] plain(3,2,4,5,6)] .
  then have "chain_ok (update_node idx (\<lambda>_. n) m)"
    using plain(5) by (intro update_node_ok [OF ok i]) simp_all
  then show ?thesis by (simp add: plain(8) Let_def)
next
  case (switched idx pos n n2 cmds2)
  then have i: "idx < length (cm_nodes m)" using find_node_Inr by blast
  have "node_ok (cm_source_rate m) n2"
    using set_param_node_ok(2) [OF nth_ok [OF ok i] switched(3,2,4,5,6)] .
  moreover have "nm_id n2 = nm_id (cm_nodes m ! idx)" "nm_slot n2 = nm_slot (cm_nodes m ! idx)"
    by (use switched(6) in \<open>cases rule: auto_switch_Some, simp add: switched(5)\<close>)+
  ultimately have "chain_ok (update_node idx (\<lambda>_. n2) m)"
    by (intro update_node_ok [OF ok i]) simp_all
  then show ?thesis by (simp add: switched(8))
qed

section \<open>The rate of the source\<close>

definition limited :: "param_shape \<Rightarrow> bool" where
  "limited s = (case s of Continuous _ _ n \<Rightarrow> n | Discrete _ \<Rightarrow> False)"

lemma clamp_def_of: "d \<in> set (params kind) \<Longrightarrow> clamp kind (pd_id d) (Finite v) r = shape_clamp (pd_shape d) (Finite v) r"
  using find_param_iff [of kind "pd_id d" d] by (simp add: clamp_def)

lemma shape_clamp_unlimited: "\<not> limited s \<Longrightarrow> in_shape s v \<Longrightarrow> shape_clamp s (Finite v) r = v"
proof (cases s)
  case (Discrete k)
  then show "in_shape s v \<Longrightarrow> ?thesis" using shape_clamp_discrete by simp
qed (auto simp: limited_def shape_clamp_def)

lemma reclamp_Cons:
  "d \<in> set (params kind) \<Longrightarrow>
   reclamp kind slot r (d # ds) (v # vs) =
     (if limited (pd_shape d) \<and> EPSILON < \<bar>shape_clamp (pd_shape d) (Finite v) r - v\<bar>
      then (shape_clamp (pd_shape d) (Finite v) r # fst (reclamp kind slot r ds vs),
            ChainSetParam slot (pd_id d) (shape_clamp (pd_shape d) (Finite v) r)
              # snd (reclamp kind slot r ds vs))
      else (v # fst (reclamp kind slot r ds vs), snd (reclamp kind slot r ds vs)))"
  by (simp add: clamp_def_of limited_def Let_def split: prod.split)

declare reclamp.simps(1) [simp del]

lemma value_ok_reclamp:
  assumes "value_ok r0 d v" "range_nonempty (pd_shape d)"
  shows "value_ok r d (if limited (pd_shape d) \<and> EPSILON < \<bar>shape_clamp (pd_shape d) (Finite v) r - v\<bar>
     then shape_clamp (pd_shape d) (Finite v) r else v)"
  using assms shape_clamp_in_shape [of "pd_shape d" "Finite v" r] shape_clamp_unlimited [of "pd_shape d" v r]
  by (auto simp: value_ok_def shape_clamp_idem EPSILON_def)

lemma reclamp_ok:
  "list_all2 (value_ok r0) ds vs \<Longrightarrow> set ds \<subseteq> set (params kind) \<Longrightarrow>
   list_all2 (value_ok r) ds (fst (reclamp kind slot r ds vs))"
proof (induction rule: list_all2_induct)
  case (Cons d ds v vs)
  then have d: "d \<in> set (params kind)" by simp
  have "list_all2 (value_ok r) ds (fst (reclamp kind slot r ds vs))" using Cons by simp
  then show ?case
    using value_ok_reclamp [OF Cons.hyps(1) shape_range_nonempty [OF d], of r]
    by (auto simp: reclamp_Cons [OF d] split: if_splits)
qed simp

lemma reclamp_unlimited:
  "list_all (\<lambda>d. \<not> limited (pd_shape d)) ds \<Longrightarrow> set ds \<subseteq> set (params kind) \<Longrightarrow>
   reclamp kind slot r ds vs = (vs, [])"
  by (induction ds arbitrary: vs) (case_tac vs; simp add: reclamp_Cons)+

lemma has_mode_unlimited: "has_mode kind \<Longrightarrow> list_all (\<lambda>d. \<not> limited (pd_shape d)) (params kind)"
  by (auto simp: has_mode_def table_defs limited_def)

lemma reclamp_node_ok:
  assumes "node_ok r0 n"
  shows "node_ok r (fst (reclamp_node r n))"
proof -
  have "list_all2 (value_ok r) (params (nm_kind n))
          (fst (reclamp (nm_kind n) (nm_slot n) r (params (nm_kind n)) (nm_params n)))"
    using assms by (intro reclamp_ok) (auto simp: node_ok_def)
  moreover have "mode_ok (fst (reclamp_node r n))"
  proof (cases "has_mode (nm_kind n)")
    case True
    then have "fst (reclamp_node r n) = n"
      by (simp add: reclamp_node_def reclamp_unlimited has_mode_unlimited)
    then show ?thesis using assms by (simp add: node_ok_def)
  next
    case False
    then show ?thesis
      using assms mode_ok_mode [of n]
      by (auto simp: reclamp_node_def node_ok_def mode_ok_def split: prod.split option.split)
  qed
  ultimately show ?thesis
    using assms by (auto simp: node_ok_def reclamp_node_def split: prod.splits)
qed

lemma reclamp_node_keeps [simp]:
  "nm_id (fst (reclamp_node r n)) = nm_id n" "nm_slot (fst (reclamp_node r n)) = nm_slot n"
  "nm_kind (fst (reclamp_node r n)) = nm_kind n" "nm_owner (fst (reclamp_node r n)) = nm_owner n"
  "nm_bypassed (fst (reclamp_node r n)) = nm_bypassed n"
  "nm_orphaned (fst (reclamp_node r n)) = nm_orphaned n"
  "nm_auto_bypassed (fst (reclamp_node r n)) = nm_auto_bypassed n"
  "nm_mode_state (fst (reclamp_node r n)) = nm_mode_state n"
  by (simp_all add: reclamp_node_def split: prod.split)

lemma chain_ok_map:
  assumes ok: "chain_ok m" and k: "\<And>n. nm_id (f n) = nm_id n" "\<And>n. nm_slot (f n) = nm_slot n"
    and n: "\<And>n. node_ok (cm_source_rate m) n \<Longrightarrow> node_ok r (f n)"
  shows "chain_ok (m\<lparr>cm_source_rate := r, cm_nodes := map f (cm_nodes m)\<rparr>)"
  using ok k n by (simp add: chain_ok_def list_all_iff o_def)

lemma set_source_rate_ok:
  assumes "chain_ok m"
  shows "chain_ok (snd (set_source_rate r m))"
  using chain_ok_map [OF assms, of "\<lambda>n. fst (reclamp_node r n)" r] reclamp_node_ok
  by (simp add: set_source_rate_def Let_def o_def)

section \<open>Ownership and overload\<close>

lemma mark_auto_bypassed_ok:
  assumes ok: "chain_ok m"
  shows "chain_ok (mark_auto_bypassed slot m)"
proof (cases "position (\<lambda>n. nm_slot n = slot) (cm_nodes m)")
  case (Some idx)
  then have i: "idx < length (cm_nodes m)" using position_SomeD by fast
  have "chain_ok (update_node idx (\<lambda>n. n\<lparr>nm_bypassed := True, nm_auto_bypassed := True\<rparr>) m)"
    by (rule update_node_ok [OF ok i])
       (use nth_ok [OF ok i] in \<open>auto simp: node_ok_def mode_ok_def split: option.splits\<close>)
  with Some show ?thesis by (simp add: mark_auto_bypassed_def)
qed (simp add: mark_auto_bypassed_def ok del: position_None_iff)

lemma node_ok_orphan [simp]: "node_ok r (n\<lparr>nm_orphaned := b\<rparr>) = node_ok r n"
  by (simp add: node_ok_def mode_ok_def split: option.split)

lemma orphan_ok: "chain_ok m \<Longrightarrow> chain_ok (snd (orphan_owned_by p m))"
  using chain_ok_map [of m "\<lambda>n. if nm_owner n = PluginNode p \<and> \<not> nm_orphaned n
      then n\<lparr>nm_orphaned := True\<rparr> else n" "cm_source_rate m"]
  by (simp add: orphan_owned_by_def Let_def)

lemma readopt_ok: "chain_ok m \<Longrightarrow> chain_ok (snd (readopt p m))"
  using chain_ok_map [of m "\<lambda>n. if nm_owner n = PluginNode p \<and> nm_orphaned n
      then n\<lparr>nm_orphaned := False\<rparr> else n" "cm_source_rate m"]
  by (simp add: readopt_def Let_def)

section \<open>Every sequence of calls\<close>

datatype chain_op =
    OpAdd node_kind node_owner
  | OpAddAt node_kind node_owner nat
  | OpRemove nat
  | OpMoveTo nat nat
  | OpMoveBy nat int
  | OpSetBypass nat bool
  | OpSetParam nat param_id f32
  | OpSetMode nat quality_mode
  | OpSetRate nat
  | OpAutoBypassed nat
  | OpOrphan nat
  | OpReadopt nat

text \<open>What a call leaves and what it has the controller push; a call that fails does nothing.\<close>

definition or_nothing :: "chain_model \<Rightarrow> ('a \<Rightarrow> chain_command list) \<Rightarrow> 'a chain_result
    \<Rightarrow> chain_command list \<times> chain_model" where
  "or_nothing m cmds_of r = (case r of Inl _ \<Rightarrow> ([], m) | Inr (x, m') \<Rightarrow> (cmds_of x, m'))"

fun chain_call :: "chain_op \<Rightarrow> chain_model \<Rightarrow> chain_command list \<times> chain_model" where
  "chain_call (OpAdd kind owner) m = or_nothing m snd (chain_add kind owner m)"
| "chain_call (OpAddAt kind owner index) m = or_nothing m snd (add_at kind owner index m)"
| "chain_call (OpRemove i) m = or_nothing m id (chain_remove i m)"
| "chain_call (OpMoveTo i index) m = or_nothing m id (move_to i index m)"
| "chain_call (OpMoveBy i delta) m = or_nothing m id (move_by i delta m)"
| "chain_call (OpSetBypass i b) m = or_nothing m id (set_bypass i b m)"
| "chain_call (OpSetParam i p v) m = or_nothing m snd (set_param i p v m)"
| "chain_call (OpSetMode i mode) m = or_nothing m id (set_mode i mode m)"
| "chain_call (OpSetRate r) m = set_source_rate r m"
| "chain_call (OpAutoBypassed slot) m = ([], mark_auto_bypassed slot m)"
| "chain_call (OpOrphan p) m = ([], snd (orphan_owned_by p m))"
| "chain_call (OpReadopt p) m = ([], snd (readopt p m))"

lemma or_nothing_cases:
  obtains (fails) e where "r = Inl e" "or_nothing m f r = ([], m)"
  | (works) x m' where "r = Inr (x, m')" "or_nothing m f r = (f x, m')"
  by (cases r) (auto simp: or_nothing_def)

lemma or_nothing_ok:
  assumes "chain_ok m" and "\<And>x m'. r = Inr (x, m') \<Longrightarrow> chain_ok m'"
  shows "chain_ok (snd (or_nothing m f r))"
  using assms by (cases r) (auto simp: or_nothing_def)

lemma chain_call_ok:
  assumes ok: "chain_ok m"
  shows "chain_ok (snd (chain_call op m))"
proof (cases op)
  case (OpMoveBy i delta)
  have "chain_ok m'" if "move_by i delta m = Inr (cmds, m')" for cmds m'
    using move_by_to [OF that] move_to_ok [OF ok] by blast
  then show ?thesis using OpMoveBy by (auto intro!: or_nothing_ok [OF ok])
next
  case (OpAdd kind owner)
  then show ?thesis
    using add_at_ok [OF ok] by (auto simp: chain_add_def intro!: or_nothing_ok [OF ok])
qed (use ok add_at_ok [OF ok] in
      \<open>auto intro!: or_nothing_ok intro: remove_ok move_to_ok set_bypass_ok set_param_ok set_mode_ok
         set_source_rate_ok mark_auto_bypassed_ok orphan_ok readopt_ok\<close>)

inductive chain_step :: "chain_model \<Rightarrow> chain_model \<Rightarrow> bool" where
  "chain_step m (snd (chain_call op m))"

inductive_cases chain_stepE: "chain_step m m'"

definition chain_fresh :: "chain_model \<Rightarrow> bool" where
  "chain_fresh m \<longleftrightarrow> (\<exists>r. m = chain_new r)"

interpretation effect_chain: machine chain_fresh chain_step chain_ok
  by unfold_locales (auto simp: chain_fresh_def chain_new_ok chain_call_ok elim: chain_stepE)

end
