(* ===== verification/Chain_Rt.thy ===== *)
theory Chain_Rt
  imports Chain_Model
begin

text \<open>
  The real-time copy of the effect chain (\<^verbatim>\<open>crates/modplayer-effects/src/rt/chain.rs\<close>,
  \<^verbatim>\<open>rt/slot.rs\<close>, \<^verbatim>\<open>rt/cost.rs\<close>, \<^verbatim>\<open>crossfade.rs\<close>,
  \<^verbatim>\<open>smooth.rs\<close>): sixteen slots and the processing order, changed by commands at once and by
  every render as fades complete. The arrays of fixed size are functions of the index; the code
  checks the indices that come with a command. The samples are not modelled: of a kernel, only the
  parameters it ramps, of the time stretching stage only how many frames it asks for (an argument of
  a render), of the clock only the share of the period each node has used (an argument as well).
\<close>

section \<open>Smoothed parameters\<close>

record smoothed =
  sm_current :: rat
  sm_target :: rat
  sm_step :: rat
  sm_remaining :: nat

definition smoothed_new :: "rat \<Rightarrow> smoothed" where
  "smoothed_new v = \<lparr>sm_current = v, sm_target = v, sm_step = 0, sm_remaining = 0\<rparr>"

definition smoothed_set_target :: "rat \<Rightarrow> nat \<Rightarrow> smoothed \<Rightarrow> smoothed" where
  "smoothed_set_target target ramp_frames s =
     (let s1 = s\<lparr>sm_target := target\<rparr> in
      if ramp_frames = 0 then s1\<lparr>sm_current := target, sm_step := 0, sm_remaining := 0\<rparr>
      else s1\<lparr>sm_step := (target - sm_current s) / of_nat ramp_frames, sm_remaining := ramp_frames\<rparr>)"

definition smoothed_advance :: "smoothed \<Rightarrow> smoothed" where
  "smoothed_advance s =
     (if 0 < sm_remaining s then
        let remaining = sm_remaining s - 1 in
        s\<lparr>sm_remaining := remaining,
          sm_current := (if remaining = 0 then sm_target s else sm_current s + sm_step s)\<rparr>
      else s)"

section \<open>Crossfades\<close>

record crossfade =
  cf_to_wet :: bool
  cf_elapsed :: nat
  cf_length :: nat

definition crossfade_settled :: "bool \<Rightarrow> crossfade" where
  "crossfade_settled wet = \<lparr>cf_to_wet = wet, cf_elapsed = 0, cf_length = 0\<rparr>"

definition cf_is_settled :: "crossfade \<Rightarrow> bool" where
  "cf_is_settled c \<longleftrightarrow> cf_length c = 0 \<or> cf_length c \<le> cf_elapsed c"

definition cf_set_target :: "bool \<Rightarrow> nat \<Rightarrow> crossfade \<Rightarrow> crossfade" where
  "cf_set_target wet length_frames c =
     (if cf_to_wet c = wet \<and> cf_is_settled c then c
      else c\<lparr>cf_to_wet := wet, cf_elapsed := 0, cf_length := length_frames\<rparr>)"

definition cf_advance :: "crossfade \<Rightarrow> crossfade" where
  "cf_advance c = (if cf_elapsed c < cf_length c then c\<lparr>cf_elapsed := cf_elapsed c + 1\<rparr> else c)"

text \<open>The gains of the dry and the wet signal.\<close>

definition cf_gains :: "crossfade \<Rightarrow> real \<times> real" where
  "cf_gains c =
     (if cf_is_settled c then (if cf_to_wet c then (0, 1) else (1, 0))
      else let index = min (cf_elapsed c) (cf_length c - 1);
               t = real (index + 1) / real (cf_length c + 1);
               theta = t * (pi / 2);
               falling = cos theta; rising = sin theta
        in if cf_to_wet c then (falling, rising) else (rising, falling))"

section \<open>The cost of a node\<close>

record cost_ring =
  cr_samples :: "nat \<Rightarrow> rat"
  cr_write :: nat
  cr_len :: nat
  cr_sum :: rat

definition cost_ring_new :: cost_ring where
  "cost_ring_new = \<lparr>cr_samples = (\<lambda>_. 0), cr_write = 0, cr_len = 0, cr_sum = 0\<rparr>"

definition cost_push :: "rat \<Rightarrow> cost_ring \<Rightarrow> cost_ring" where
  "cost_push pct r =
     (let full = (cr_len r = COST_RING_CAPACITY);
          sum0 = (if full then cr_sum r - cr_samples r (cr_write r) else cr_sum r)
      in r\<lparr>cr_len := (if full then cr_len r else cr_len r + 1),
           cr_samples := (cr_samples r)(cr_write r := pct),
           cr_sum := sum0 + pct,
           cr_write := (cr_write r + 1) mod COST_RING_CAPACITY\<rparr>)"

definition cost_mean :: "cost_ring \<Rightarrow> rat" where
  "cost_mean r = (if cr_len r = 0 then 0 else cr_sum r / of_nat (cr_len r))"

definition cost_clear :: "cost_ring \<Rightarrow> cost_ring" where
  "cost_clear r = r\<lparr>cr_len := 0, cr_write := 0, cr_sum := 0\<rparr>"

section \<open>Slots\<close>

definition MAX_PARAMS :: nat where "MAX_PARAMS = 48"

record node_slot =
  ns_active :: bool
  ns_kind :: node_kind
  ns_owner :: node_owner
  ns_params :: "nat \<Rightarrow> smoothed"
  ns_mix :: crossfade
  ns_bypassed :: bool
  ns_auto_bypassed :: bool
  ns_pending_move :: "nat option"
  ns_removing :: bool
  ns_cost :: cost_ring
  ns_combined_second :: bool

definition slot_inactive :: node_slot where
  "slot_inactive =
     \<lparr>ns_active = False, ns_kind = Gain, ns_owner = HostNode,
      ns_params = (\<lambda>_. smoothed_new 0), ns_mix = crossfade_settled False,
      ns_bypassed = False, ns_auto_bypassed = False, ns_pending_move = None, ns_removing = False,
      ns_cost = cost_ring_new, ns_combined_second = False\<rparr>"

definition slot_activate :: "node_kind \<Rightarrow> node_owner \<Rightarrow> nat \<Rightarrow> node_slot \<Rightarrow> node_slot" where
  "slot_activate kind owner crossfade_frames s =
     s\<lparr>ns_active := True, ns_kind := kind, ns_owner := owner,
       ns_params := (\<lambda>i. smoothed_new (case find_param kind i of None \<Rightarrow> 0 | Some d \<Rightarrow> pd_default d)),
       ns_mix := cf_set_target True crossfade_frames (crossfade_settled False),
       ns_bypassed := False, ns_auto_bypassed := False, ns_pending_move := None,
       ns_removing := False, ns_combined_second := False, ns_cost := cost_clear (ns_cost s)\<rparr>"

definition slot_deactivate :: "node_slot \<Rightarrow> node_slot" where
  "slot_deactivate s =
     s\<lparr>ns_active := False, ns_kind := Gain, ns_owner := HostNode,
       ns_params := (\<lambda>_. smoothed_new 0), ns_mix := crossfade_settled False,
       ns_bypassed := False, ns_auto_bypassed := False, ns_pending_move := None,
       ns_removing := False, ns_combined_second := False, ns_cost := cost_clear (ns_cost s)\<rparr>"

section \<open>The chain\<close>

record chain_rt =
  rt_slots :: "nat \<Rightarrow> node_slot"
  rt_order :: "nat list"
  rt_plan :: "nat list"
  rt_source_rate :: nat
  rt_over_90_streak :: nat
  rt_under_90_streak :: nat
  rt_over_budget :: bool
  rt_auto_bypassed_this_window :: bool
  rt_overload_count :: nat

definition CHAIN_BUS_FRAMES :: nat where "CHAIN_BUS_FRAMES = 4 * 4096 + 2 * 7680"

definition chain_rt_new :: "nat \<Rightarrow> chain_rt" where
  "chain_rt_new source_rate =
     \<lparr>rt_slots = (\<lambda>_. slot_inactive), rt_order = [], rt_plan = [],
      rt_source_rate = max source_rate 1, rt_over_90_streak = 0, rt_under_90_streak = 0,
      rt_over_budget = False, rt_auto_bypassed_this_window = False, rt_overload_count = 0\<rparr>"

definition ramp_frames :: "chain_rt \<Rightarrow> nat" where
  "ramp_frames rt = nat \<lceil>PARAM_RAMP_MS / 1000 * of_nat (rt_source_rate rt)\<rceil>"

definition crossfade_frames :: "chain_rt \<Rightarrow> nat" where
  "crossfade_frames rt = nat \<lceil>SWITCH_CROSSFADE_MS / 1000 * of_nat (rt_source_rate rt)\<rceil>"

definition update_slot :: "nat \<Rightarrow> (node_slot \<Rightarrow> node_slot) \<Rightarrow> chain_rt \<Rightarrow> chain_rt" where
  "update_slot i f rt = rt\<lparr>rt_slots := (rt_slots rt)(i := f (rt_slots rt i))\<rparr>"

section \<open>Pairs of time and pitch nodes\<close>

fun is_pair :: "node_kind \<Rightarrow> node_kind \<Rightarrow> bool" where
  "is_pair PitchShift TimeStretch = True"
| "is_pair TimeStretch PitchShift = True"
| "is_pair _ _ = False"

text \<open>The slots that are the second of a pair, along the order.\<close>

fun pair_seconds :: "(nat \<Rightarrow> node_kind) \<Rightarrow> nat list \<Rightarrow> nat list" where
  "pair_seconds k (a # b # rest) =
     (if is_pair (k a) (k b) then b # pair_seconds k rest else pair_seconds k (b # rest))"
| "pair_seconds k _ = []"

definition recompute_combined :: "chain_rt \<Rightarrow> chain_rt" where
  "recompute_combined rt =
     (let seconds = pair_seconds (\<lambda>s. ns_kind (rt_slots rt s)) (rt_order rt) in
      rt\<lparr>rt_slots := (\<lambda>s. if s \<in> set (rt_order rt)
           then (rt_slots rt s)\<lparr>ns_combined_second := s \<in> set seconds\<rparr> else rt_slots rt s)\<rparr>)"

section \<open>The frames of a render\<close>

definition is_stretch :: "node_slot \<Rightarrow> bool" where
  "is_stretch s \<longleftrightarrow> ns_kind s = PitchShift \<or> ns_kind s = TimeStretch"

definition input_for_order :: "(nat \<Rightarrow> nat \<Rightarrow> nat) \<Rightarrow> chain_rt \<Rightarrow> nat \<Rightarrow> nat \<Rightarrow> nat" where
  "input_for_order stage_input rt slot out =
     (let s = rt_slots rt slot in
      if \<not> is_stretch s then out
      else if ns_combined_second s \<or> ns_bypassed s \<and> cf_is_settled (ns_mix s) then out
      else stage_input slot out)"

fun plan_from :: "(nat \<Rightarrow> nat \<Rightarrow> nat) \<Rightarrow> nat \<Rightarrow> nat list \<Rightarrow> nat list" where
  "plan_from inp needed [] = [needed]"
| "plan_from inp needed (s # rest) =
     (let p = plan_from inp needed rest in min (inp s (hd p)) CHAIN_BUS_FRAMES # p)"

definition plan :: "(nat \<Rightarrow> nat \<Rightarrow> nat) \<Rightarrow> nat \<Rightarrow> chain_rt \<Rightarrow> chain_rt" where
  "plan stage_input needed rt =
     rt\<lparr>rt_plan := plan_from (input_for_order stage_input rt) (min needed CHAIN_BUS_FRAMES) (rt_order rt)\<rparr>"

section \<open>A render\<close>

definition move_slot_to :: "nat \<Rightarrow> nat \<Rightarrow> chain_rt \<Rightarrow> chain_rt" where
  "move_slot_to slot target rt =
     (case position (\<lambda>s. s = slot) (rt_order rt) of
        None \<Rightarrow> rt
      | Some cur \<Rightarrow>
          (let t = min target (length (rt_order rt) - 1) in
           if t = cur then rt
           else rt\<lparr>rt_order := insert_nth t (rt_order rt ! cur) (remove_nth cur (rt_order rt))\<rparr>))"

definition resolve_one_pending_move :: "chain_rt \<Rightarrow> chain_rt" where
  "resolve_one_pending_move rt =
     (case find (\<lambda>i. ns_pending_move (rt_slots rt i) \<noteq> None \<and> cf_is_settled (ns_mix (rt_slots rt i)))
             (rt_order rt) of
        None \<Rightarrow> rt
      | Some i \<Rightarrow>
          (let target = min (the (ns_pending_move (rt_slots rt i))) (length (rt_order rt) - 1);
               rt1 = update_slot i (\<lambda>s. s\<lparr>ns_pending_move := None\<rparr>) rt;
               rt2 = move_slot_to i target rt1;
               rt3 = update_slot i (\<lambda>s. s\<lparr>ns_mix := cf_set_target True (crossfade_frames rt2) (ns_mix s)\<rparr>) rt2
           in recompute_combined rt3))"

text \<open>The parameters that the kernel of a kind advances once per frame.\<close>

fun ramped_params :: "node_kind \<Rightarrow> nat list" where
  "ramped_params PitchShift = [0]"
| "ramped_params TimeStretch = [0]"
| "ramped_params Gain = [0]"
| "ramped_params Equalizer =
     concat (map (\<lambda>b. [eq_band b 0, eq_band b 1, eq_band b 2]) [0..<EQ_BAND_COUNT])"
| "ramped_params Filter = [1, 2]"
| "ramped_params StereoTools = [0, 1]"

definition run_kernel :: "nat \<Rightarrow> nat \<Rightarrow> node_slot \<Rightarrow> node_slot" where
  "run_kernel in_frames out_frames s =
     (let n = (if is_stretch s then out_frames else min in_frames out_frames) in
      s\<lparr>ns_params := (\<lambda>i. if i \<in> set (ramped_params (ns_kind s))
          then (smoothed_advance ^^ n) (ns_params s i) else ns_params s i)\<rparr>)"

definition process_one_slot :: "nat \<Rightarrow> nat \<Rightarrow> bool \<Rightarrow> node_slot \<Rightarrow> node_slot \<times> bool" where
  "process_one_slot in_frames out_frames combined_carrier s =
     (if \<not> ns_active s then (s, False)
      else let was_mixing = (\<not> cf_is_settled (ns_mix s)) in
        if ns_bypassed s \<and> \<not> was_mixing \<and> \<not> combined_carrier then (s, True)
        else let s1 = run_kernel in_frames out_frames s;
                 s2 = (if was_mixing
                       then s1\<lparr>ns_mix := (cf_advance ^^ min out_frames in_frames) (ns_mix s1)\<rparr>
                       else s1)
          in (s2, \<not> (ns_removing s2 \<and> cf_is_settled (ns_mix s2))))"

text \<open>
  The cost of the node at one place, as measured: half of it goes to the second of a pair, whose own
  call is not measured. \<open>timed\<close> says that the period of the render is positive.
\<close>

definition record_cost :: "bool \<Rightarrow> rat \<Rightarrow> nat \<Rightarrow> bool \<Rightarrow> nat list \<Rightarrow> (nat \<Rightarrow> node_slot) \<Rightarrow> nat \<Rightarrow> node_slot" where
  "record_cost timed pct i is_second rest slots =
     (let push = (\<lambda>p s. s\<lparr>ns_cost := cost_push p (ns_cost s)\<rparr>) in
      if \<not> timed \<or> is_second then slots
      else case rest of
        [] \<Rightarrow> slots(i := push pct (slots i))
      | partner # _ \<Rightarrow>
          if ns_combined_second (slots partner) then
            (let slots1 = slots(i := push (pct * (1 / 2)) (slots i))
             in slots1(partner := push (pct * (1 / 2)) (slots1 partner)))
          else slots(i := push pct (slots i)))"

fun run_slots :: "bool \<Rightarrow> (nat \<Rightarrow> rat) \<Rightarrow> nat list \<Rightarrow> nat list \<Rightarrow> (nat \<Rightarrow> node_slot)
    \<Rightarrow> (nat \<Rightarrow> node_slot) \<times> nat list" where
  "run_slots timed measured (in_frames # out_frames # pl) (i # rest) slots =
     (let carrier = (case rest of [] \<Rightarrow> False | j # _ \<Rightarrow> ns_combined_second (slots j));
          is_second = ns_combined_second (slots i);
          (s, keep) = process_one_slot in_frames out_frames carrier (slots i);
          slots1 = record_cost timed (measured i) i is_second rest (slots(i := s));
          slots2 = (if keep then slots1 else slots1(i := slot_deactivate (slots1 i)));
          (slots3, kept) = run_slots timed measured (out_frames # pl) rest slots2
      in (slots3, if keep then i # kept else kept))"
| "run_slots timed measured _ _ slots = (slots, [])"

definition process :: "(nat \<Rightarrow> rat) \<Rightarrow> chain_rt \<Rightarrow> chain_rt" where
  "process measured rt =
     (let rt1 = resolve_one_pending_move rt;
          timed = (0 < last (rt_plan rt1));
          (slots, kept) = run_slots timed measured (rt_plan rt1) (rt_order rt1) (rt_slots rt1)
      in recompute_combined (rt1\<lparr>rt_slots := slots, rt_order := kept\<rparr>))"

section \<open>Commands\<close>

definition apply_insert :: "nat \<Rightarrow> nat \<Rightarrow> node_kind \<Rightarrow> node_owner \<Rightarrow> chain_rt \<Rightarrow> chain_rt" where
  "apply_insert slot index kind owner rt =
     (if MAX_NODES \<le> slot \<or> ns_active (rt_slots rt slot) \<or> MAX_NODES \<le> length (rt_order rt) then rt
      else let rt1 = update_slot slot (slot_activate kind owner (crossfade_frames rt)) rt;
               pos = min index (length (rt_order rt1))
        in recompute_combined (rt1\<lparr>rt_order := insert_nth pos slot (rt_order rt1)\<rparr>))"

definition apply_remove :: "nat \<Rightarrow> chain_rt \<Rightarrow> chain_rt" where
  "apply_remove slot rt =
     (if MAX_NODES \<le> slot \<or> \<not> ns_active (rt_slots rt slot) then rt
      else update_slot slot (\<lambda>s. s\<lparr>ns_removing := True,
             ns_mix := cf_set_target False (crossfade_frames rt) (ns_mix s)\<rparr>) rt)"

definition apply_move :: "nat \<Rightarrow> nat \<Rightarrow> chain_rt \<Rightarrow> chain_rt" where
  "apply_move slot index rt =
     (if MAX_NODES \<le> slot \<or> \<not> ns_active (rt_slots rt slot) then rt
      else case position (\<lambda>s. s = slot) (rt_order rt) of
        None \<Rightarrow> rt
      | Some cur \<Rightarrow>
          (let target = min index (length (rt_order rt) - 1) in
           if target = cur then rt
           else update_slot slot (\<lambda>s. s\<lparr>ns_pending_move := Some target,
                  ns_mix := cf_set_target False (crossfade_frames rt) (ns_mix s)\<rparr>) rt))"

definition apply_set_bypass :: "nat \<Rightarrow> bool \<Rightarrow> chain_rt \<Rightarrow> chain_rt" where
  "apply_set_bypass slot bypassed rt =
     (if MAX_NODES \<le> slot \<or> \<not> ns_active (rt_slots rt slot) then rt
      else recompute_combined (update_slot slot (\<lambda>s. s\<lparr>ns_bypassed := bypassed,
             ns_auto_bypassed := (if bypassed then ns_auto_bypassed s else False),
             ns_mix := cf_set_target (\<not> bypassed) (crossfade_frames rt) (ns_mix s)\<rparr>) rt))"

definition apply_set_param :: "nat \<Rightarrow> param_id \<Rightarrow> rat \<Rightarrow> chain_rt \<Rightarrow> chain_rt" where
  "apply_set_param slot p v rt =
     (if MAX_NODES \<le> slot \<or> \<not> ns_active (rt_slots rt slot) then rt
      else let kind = ns_kind (rt_slots rt slot) in
        if find_param kind p = None \<or> MAX_PARAMS \<le> p then rt
        else let clamped = clamp kind p (Finite v) (rt_source_rate rt);
                 ramp = (if is_continuous kind p then ramp_frames rt else 0)
          in update_slot slot (\<lambda>s. s\<lparr>ns_params :=
               (ns_params s)(p := smoothed_set_target clamped ramp (ns_params s p))\<rparr>) rt)"

fun apply_command :: "chain_command \<Rightarrow> chain_rt \<Rightarrow> chain_rt" where
  "apply_command (ChainInsert slot pos kind owner) rt = apply_insert slot pos kind owner rt"
| "apply_command (ChainRemove slot) rt = apply_remove slot rt"
| "apply_command (ChainMove slot pos) rt = apply_move slot pos rt"
| "apply_command (ChainSetBypass slot b) rt = apply_set_bypass slot b rt"
| "apply_command (ChainSetParam slot p v) rt = apply_set_param slot p v rt"

section \<open>Overload\<close>

record overload_outcome =
  oo_overload :: bool
  oo_costliest_slot :: nat
  oo_render_pct :: nat
  oo_auto_bypassed_slot :: "nat option"

text \<open>\<^verbatim>\<open>max_by\<close> gives the last of several greatest elements.\<close>

fun costliest :: "(nat \<Rightarrow> rat) \<Rightarrow> nat list \<Rightarrow> nat option" where
  "costliest c [] = None"
| "costliest c (x # xs) =
     (case costliest c xs of None \<Rightarrow> Some x | Some y \<Rightarrow> if c y < c x then Some x else Some y)"

definition costliest_active_slot :: "chain_rt \<Rightarrow> nat option" where
  "costliest_active_slot rt = costliest (\<lambda>s. cost_mean (ns_cost (rt_slots rt s))) (rt_order rt)"

definition record_render_pct :: "rat \<Rightarrow> chain_rt \<Rightarrow> overload_outcome \<times> chain_rt" where
  "record_render_pct render_pct rt =
     (let rt1 = (if OVERLOAD_PCT \<le> render_pct
            then rt\<lparr>rt_over_90_streak := rt_over_90_streak rt + 1, rt_under_90_streak := 0\<rparr>
            else rt\<lparr>rt_over_90_streak := 0,
                    rt_under_90_streak := min (rt_under_90_streak rt + 1) (2 ^ 32 - 1)\<rparr>);
          outcome = \<lparr>oo_overload = False, oo_costliest_slot = 0,
            oo_render_pct = nat \<lfloor>saturate 0 65535 (f32_round (Finite render_pct))\<rfloor>,
            oo_auto_bypassed_slot = None\<rparr>
      in if 100 \<le> render_pct \<or> OVERLOAD_STREAK \<le> rt_over_90_streak rt1 then
           (let outcome1 = outcome\<lparr>oo_overload := True\<rparr>;
                rt2 = rt1\<lparr>rt_overload_count := rt_overload_count rt1 + 1, rt_over_budget := True\<rparr>
            in case costliest_active_slot rt2 of
                 None \<Rightarrow> (outcome1, rt2)
               | Some i \<Rightarrow>
                   (let s = rt_slots rt2 i; outcome2 = outcome1\<lparr>oo_costliest_slot := i\<rparr> in
                    if \<not> rt_auto_bypassed_this_window rt2 \<and> \<not> is_host (ns_owner s) \<and> \<not> ns_bypassed s
                    then (outcome2\<lparr>oo_auto_bypassed_slot := Some i\<rparr>,
                          recompute_combined ((update_slot i (\<lambda>s. s\<lparr>ns_bypassed := True,
                              ns_auto_bypassed := True,
                              ns_mix := cf_set_target False (crossfade_frames rt2) (ns_mix s)\<rparr>) rt2)
                            \<lparr>rt_auto_bypassed_this_window := True\<rparr>))
                    else (outcome2, rt2)))
         else if rt_over_budget rt1 \<and> COST_RING_CAPACITY \<le> rt_under_90_streak rt1
           then (outcome, rt1\<lparr>rt_over_budget := False, rt_auto_bypassed_this_window := False\<rparr>)
         else (outcome, rt1))"

end
