(* ===== verification/Chain_Render.thy ===== *)
theory Chain_Render
  imports Chain_Rt
begin

text \<open>
  What one render does to the slots of the real-time chain: fades advance, a slot whose removal has
  faded out leaves, at most one pending move is carried out. All else stays, up to the ramps of the
  parameters, the measured costs and the pairing of time and pitch nodes.
\<close>

section \<open>Fades\<close>

definition remaining :: "crossfade \<Rightarrow> nat" where
  "remaining c = cf_length c - cf_elapsed c"

definition fade :: "nat \<Rightarrow> crossfade \<Rightarrow> crossfade" where
  "fade n = cf_advance ^^ n"

lemma settled_iff: "cf_is_settled c \<longleftrightarrow> remaining c = 0"
  by (auto simp: cf_is_settled_def remaining_def)

lemma fade_0 [simp]: "fade 0 c = c"
  by (simp add: fade_def)

lemma fade_Suc: "fade (Suc n) c = cf_advance (fade n c)"
  by (simp add: fade_def)

lemma fade_to_wet [simp]: "cf_to_wet (fade n c) = cf_to_wet c"
  by (induction n) (simp_all add: fade_Suc cf_advance_def)

lemma remaining_advance [simp]: "remaining (cf_advance c) = remaining c - 1"
  by (simp add: remaining_def cf_advance_def)

lemma remaining_fade [simp]: "remaining (fade n c) = remaining c - n"
  by (induction n) (simp_all add: fade_Suc)

lemma fade_settled: "remaining c = 0 \<Longrightarrow> fade n c = c"
  by (induction n) (simp_all add: fade_Suc cf_advance_def remaining_def)

lemma settled_new [simp]: "remaining (crossfade_settled b) = 0" "cf_to_wet (crossfade_settled b) = b"
  by (simp_all add: crossfade_settled_def remaining_def)

lemma set_target_to_wet [simp]: "cf_to_wet (cf_set_target b n c) = b"
  by (simp add: cf_set_target_def)

lemma remaining_set_target:
  "remaining (cf_set_target b n c) = (if cf_to_wet c = b \<and> remaining c = 0 then 0 else n)"
  by (auto simp: cf_set_target_def settled_iff) (simp_all add: remaining_def)

lemma set_target_same: "cf_to_wet c = b \<Longrightarrow> remaining c = 0 \<Longrightarrow> cf_set_target b n c = c"
  by (simp add: cf_set_target_def settled_iff)

section \<open>The part of a slot that only commands change\<close>

definition target_of :: "node_slot \<Rightarrow> nat \<Rightarrow> rat" where
  "target_of s i = sm_target (ns_params s i)"

definition core :: "node_slot \<Rightarrow> bool \<times> node_kind \<times> node_owner \<times> bool \<times> bool \<times> nat option \<times> bool \<times> (nat \<Rightarrow> rat)" where
  "core s = (ns_active s, ns_kind s, ns_owner s, ns_bypassed s, ns_auto_bypassed s,
     ns_pending_move s, ns_removing s, target_of s)"

lemma core_eqD:
  assumes "core s = core t"
  shows "ns_active s = ns_active t" "ns_kind s = ns_kind t" "ns_owner s = ns_owner t"
    "ns_bypassed s = ns_bypassed t" "ns_auto_bypassed s = ns_auto_bypassed t"
    "ns_pending_move s = ns_pending_move t" "ns_removing s = ns_removing t"
    "target_of s = target_of t"
  using assms by (simp_all add: core_def)

definition alike :: "node_slot \<Rightarrow> node_slot \<Rightarrow> bool" where
  "alike s t \<longleftrightarrow> core s = core t \<and> ns_mix s = ns_mix t \<and> ns_combined_second s = ns_combined_second t"

lemma alikeD:
  assumes "alike s t"
  shows "ns_active s = ns_active t" "ns_mix s = ns_mix t" "core s = core t"
    "ns_combined_second s = ns_combined_second t"
  using assms by (simp_all add: alike_def core_def)

lemma alike_trans: "alike s t \<Longrightarrow> alike t u \<Longrightarrow> alike s u"
  by (simp add: alike_def)

lemma alike_refl [simp]: "alike s s"
  by (simp add: alike_def)

lemma advance_target [simp]: "sm_target (smoothed_advance p) = sm_target p"
  by (simp add: smoothed_advance_def Let_def)

lemma advances_target [simp]: "sm_target ((smoothed_advance ^^ n) p) = sm_target p"
  by (induction n) simp_all

lemma run_kernel_alike: "alike (run_kernel i j s) s"
proof -
  have "target_of (run_kernel i j s) = target_of s"
    by (rule ext) (simp add: target_of_def run_kernel_def Let_def)
  then show ?thesis by (simp add: alike_def core_def) (simp add: run_kernel_def Let_def)
qed

lemma cost_alike [simp]: "alike (s\<lparr>ns_cost := c\<rparr>) t = alike s t"
  by (simp add: alike_def core_def target_of_def [abs_def])

lemma record_cost_alike: "alike (record_cost t p i b rest sl s) (sl s)"
  by (cases rest) (auto simp: record_cost_def Let_def)

text \<open>Whether a slot leaves in a render that gives it \<open>n\<close> frames.\<close>

definition leaves :: "nat \<Rightarrow> bool \<Rightarrow> node_slot \<Rightarrow> bool" where
  "leaves n carrier s \<longleftrightarrow> \<not> (ns_bypassed s \<and> cf_is_settled (ns_mix s) \<and> \<not> carrier) \<and>
     ns_removing s \<and> remaining (ns_mix s) \<le> n"

lemma leaves_alike: "alike s t \<Longrightarrow> leaves n c s = leaves n c t"
  by (auto simp: leaves_def alike_def core_def)

lemma process_one_slot_facts:
  assumes "process_one_slot i j carrier s = (s', keep)" "ns_active s"
  shows "keep = (\<not> leaves (min j i) carrier s)" "core s' = core s" "ns_mix s' = fade (min j i) (ns_mix s)"
    "ns_combined_second s' = ns_combined_second s"
proof -
  let ?k = "run_kernel i j s"
  have k: "core ?k = core s" "ns_mix ?k = ns_mix s" "ns_combined_second ?k = ns_combined_second s"
    "ns_removing ?k = ns_removing s"
    using run_kernel_alike [of i j s] by (simp_all add: alike_def core_def)
  have c: "core (?k\<lparr>ns_mix := m\<rparr>) = core s" for m
    using k(1) by (simp add: core_def target_of_def [abs_def])
  consider "ns_bypassed s \<and> cf_is_settled (ns_mix s) \<and> \<not> carrier"
    | "\<not> (ns_bypassed s \<and> cf_is_settled (ns_mix s) \<and> \<not> carrier)" "cf_is_settled (ns_mix s)"
    | "\<not> cf_is_settled (ns_mix s)" by blast
  then have "keep = (\<not> leaves (min j i) carrier s) \<and> core s' = core s \<and>
     ns_mix s' = fade (min j i) (ns_mix s) \<and> ns_combined_second s' = ns_combined_second s"
  proof cases
    case 1
    then show ?thesis
      using assms by (auto simp: process_one_slot_def leaves_def settled_iff fade_settled)
  next
    case 2
    then show ?thesis
      using assms k
      by (auto simp: process_one_slot_def Let_def leaves_def settled_iff fade_settled)
  next
    case 3
    then show ?thesis
      using assms k c
      by (auto simp: process_one_slot_def Let_def leaves_def settled_iff fade_def [symmetric])
  qed
  then show "keep = (\<not> leaves (min j i) carrier s)" "core s' = core s"
    "ns_mix s' = fade (min j i) (ns_mix s)" "ns_combined_second s' = ns_combined_second s"
    by simp_all
qed

definition free_slot :: "node_slot \<Rightarrow> bool" where
  "free_slot s \<longleftrightarrow> \<not> ns_active s \<and> ns_pending_move s = None \<and> \<not> ns_removing s \<and> ns_mix s = crossfade_settled False"

lemma deactivate_free [simp]: "free_slot (slot_deactivate s)"
  by (simp add: free_slot_def slot_deactivate_def)

lemma inactive_free [simp]: "free_slot slot_inactive"
  by (simp add: free_slot_def slot_inactive_def)

lemma free_slot_alike: "alike s t \<Longrightarrow> free_slot s = free_slot t"
  by (auto simp: free_slot_def alike_def core_def)

section \<open>All slots of a render\<close>

definition carries :: "nat list \<Rightarrow> (nat \<Rightarrow> node_slot) \<Rightarrow> nat \<Rightarrow> bool" where
  "carries xs sl s \<longleftrightarrow> (\<exists>ys j zs. xs = ys @ s # j # zs \<and> ns_combined_second (sl j))"

text \<open>What a render with \<open>n\<close> frames for slot \<open>s\<close> makes of it.\<close>

definition rendered :: "nat \<Rightarrow> bool \<Rightarrow> node_slot \<Rightarrow> node_slot \<Rightarrow> bool \<Rightarrow> bool" where
  "rendered n carrier s s' kept \<longleftrightarrow>
     (if leaves n carrier s then \<not> kept \<and> free_slot s'
      else kept \<and> core s' = core s \<and> ns_mix s' = fade n (ns_mix s))"

lemma rendered_alike:
  "alike s t \<Longrightarrow> alike s' t' \<Longrightarrow> rendered n c s s' k = rendered n c t t' k"
  by (simp add: rendered_def leaves_alike free_slot_alike) (simp add: alike_def)

lemma carries_Cons:
  "i \<noteq> s \<Longrightarrow> carries (i # xs) sl s = carries xs sl s"
proof -
  assume "i \<noteq> s"
  then have "(\<exists>ys j zs. i # xs = ys @ s # j # zs \<and> P j) = (\<exists>ys j zs. xs = ys @ s # j # zs \<and> P j)" for P
    by (auto simp: Cons_eq_append_conv)
  then show ?thesis by (simp add: carries_def)
qed

lemma carries_hd:
  assumes "i \<notin> set xs"
  shows "carries (i # xs) sl i = (case xs of [] \<Rightarrow> False | j # _ \<Rightarrow> ns_combined_second (sl j))"
proof -
  have "(i # xs = ys @ i # j # zs) = (ys = [] \<and> xs = j # zs)" for ys j zs
    using assms by (auto simp: Cons_eq_append_conv)
  then show ?thesis by (auto simp: carries_def split: list.split)
qed

lemma carries_alike:
  "(\<And>j. j \<in> set xs \<Longrightarrow> ns_combined_second (sl j) = ns_combined_second (sl2 j)) \<Longrightarrow>
   carries xs sl s = carries xs sl2 s"
  by (auto simp: carries_def) (metis in_set_conv_decomp)+

lemma run_slots_facts:
  assumes "run_slots timed ms pl xs sl = (sl', kept)" "distinct xs" "length pl = Suc (length xs)"
    "\<forall>n\<in>set pl. 1 \<le> n" "\<forall>s\<in>set xs. ns_active (sl s)"
  shows "kept = filter (\<lambda>s. s \<in> set kept) xs \<and> (\<forall>s. s \<notin> set xs \<longrightarrow> alike (sl' s) (sl s)) \<and>
     (\<forall>s\<in>set xs. \<exists>n\<ge>1. rendered n (carries xs sl s) (sl s) (sl' s) (s \<in> set kept))"
  using assms
proof (induction xs arbitrary: pl sl sl' kept)
  case Nil
  then show ?case by simp
next
  case (Cons i rest)
  from Cons.prems(3) obtain a b pl2 where pl: "pl = a # b # pl2"
    by (cases pl; cases "tl pl") auto
  let ?carrier = "case rest of [] \<Rightarrow> False | j # _ \<Rightarrow> ns_combined_second (sl j)"
  obtain s1 keep where p: "process_one_slot a b ?carrier (sl i) = (s1, keep)" by force
  define sl1 where "sl1 = record_cost timed (ms i) i (ns_combined_second (sl i)) rest (sl(i := s1))"
  define sl2 where "sl2 = (if keep then sl1 else sl1(i := slot_deactivate (sl1 i)))"
  obtain sl3 kept2 where r3: "run_slots timed ms (b # pl2) rest sl2 = (sl3, kept2)" by force
  have "(sl', kept) = (sl3, if keep then i # kept2 else kept2)"
    using Cons.prems(1) p r3 unfolding sl1_def sl2_def by (simp add: pl Let_def)
  then have r: "run_slots timed ms (b # pl2) rest sl2 = (sl', kept2)"
      and kept: "kept = (if keep then i # kept2 else kept2)"
    using r3 by simp_all
  have i: "i \<notin> set rest" using Cons.prems(2) by simp
  have a2: "alike (sl2 j) (sl j)" if "j \<noteq> i" for j
    using record_cost_alike [of timed "ms i" i "ns_combined_second (sl i)" rest "sl(i := s1)" j] that
    by (simp add: sl1_def sl2_def)
  have a1: "alike (sl1 i) s1"
    using record_cost_alike [of timed "ms i" i "ns_combined_second (sl i)" rest "sl(i := s1)" i]
    by (simp add: sl1_def)
  have "ns_active (sl2 j)" if "j \<in> set rest" for j
    using alikeD(1) [OF a2 [of j]] that i Cons.prems(5) by auto
  then have IH: "kept2 = filter (\<lambda>s. s \<in> set kept2) rest"
      "\<And>s. s \<notin> set rest \<Longrightarrow> alike (sl' s) (sl2 s)"
      "\<And>s. s \<in> set rest \<Longrightarrow> \<exists>n\<ge>1. rendered n (carries rest sl2 s) (sl2 s) (sl' s) (s \<in> set kept2)"
    using Cons.IH [OF r] Cons.prems(2-4) pl by simp_all
  have k2: "set kept2 \<subseteq> set rest" using IH(1) by (metis filter_is_subset)
  have "kept = filter (\<lambda>s. s \<in> set kept) (i # rest)"
  proof -
    have "filter (\<lambda>s. s \<in> set kept) rest = filter (\<lambda>s. s \<in> set kept2) rest"
      by (rule filter_cong) (use kept i in auto)
    then show ?thesis using IH(1) kept i k2 by auto
  qed
  moreover have "alike (sl' s) (sl s)" if "s \<notin> set (i # rest)" for s
    using alike_trans [OF IH(2) [of s] a2 [of s]] that by simp
  moreover have "\<exists>n\<ge>1. rendered n (carries (i # rest) sl s) (sl s) (sl' s) (s \<in> set kept)"
    if "s \<in> set (i # rest)" for s
  proof (cases "s = i")
    case True
    have act: "ns_active (sl i)" using Cons.prems(5) by simp
    note f = process_one_slot_facts [OF p act]
    have n: "1 \<le> min b a" using Cons.prems(4) pl by simp
    have s': "alike (sl' i) (sl2 i)" using IH(2) i by simp
    have "rendered (min b a) ?carrier (sl i) (sl' i) keep"
    proof (cases keep)
      case True
      then have "alike (sl' i) s1" using s' a1 alike_trans by (simp add: sl2_def)
      then show ?thesis using f True by (simp add: rendered_def alike_def)
    next
      case False
      then have "free_slot (sl' i)" using free_slot_alike [OF s'] by (simp add: sl2_def)
      then show ?thesis using f(1) False by (simp add: rendered_def)
    qed
    moreover have "i \<in> set kept \<longleftrightarrow> keep" using kept k2 i by auto
    ultimately have "rendered (min b a) (carries (i # rest) sl s) (sl s) (sl' s) (s \<in> set kept)"
      using True carries_hd [OF i, of sl] by simp
    with n show ?thesis by blast
  next
    case False
    then have sr: "s \<in> set rest" using that by simp
    obtain n where n: "1 \<le> n" "rendered n (carries rest sl2 s) (sl2 s) (sl' s) (s \<in> set kept2)"
      using IH(3) [OF sr] by blast
    have "carries rest sl2 s = carries rest sl s"
      by (rule carries_alike) (metis alikeD(4) [OF a2] i)
    then have "carries rest sl2 s = carries (i # rest) sl s" using False carries_Cons by metis
    moreover have "s \<in> set kept \<longleftrightarrow> s \<in> set kept2" using kept False by simp
    ultimately have "rendered n (carries (i # rest) sl s) (sl s) (sl' s) (s \<in> set kept)"
      using n(2) rendered_alike [OF a2 [OF False] alike_refl] by simp
    with n(1) show ?thesis by blast
  qed
  ultimately show ?case by blast
qed

section \<open>A whole render\<close>

text \<open>A render: the frames it must deliver, what the stretch stages ask for, and the measured costs.\<close>

record render_input =
  ri_needed :: nat
  ri_stage :: "nat \<Rightarrow> nat \<Rightarrow> nat"
  ri_measured :: "nat \<Rightarrow> rat"

definition render :: "render_input \<Rightarrow> chain_rt \<Rightarrow> chain_rt" where
  "render r rt = process (ri_measured r) (plan (ri_stage r) (ri_needed r) rt)"

text \<open>A render in which every node gets frames: some are needed, and no stage asks for none.\<close>

definition steady :: "render_input \<Rightarrow> bool" where
  "steady r \<longleftrightarrow> 0 < ri_needed r \<and> (\<forall>i out. 0 < out \<longrightarrow> 0 < ri_stage r i out)"

definition rt_ok :: "chain_rt \<Rightarrow> bool" where
  "rt_ok rt \<longleftrightarrow> distinct (rt_order rt) \<and> (\<forall>s\<in>set (rt_order rt). s < MAX_NODES \<and> ns_active (rt_slots rt s)) \<and>
     (\<forall>s. s \<notin> set (rt_order rt) \<longrightarrow> free_slot (rt_slots rt s))"

lemma rt_new_ok: "rt_ok (chain_rt_new r)"
  by (simp add: rt_ok_def chain_rt_new_def)

lemma plan_from_facts:
  "1 \<le> n \<Longrightarrow> (\<And>s out. 1 \<le> out \<Longrightarrow> 1 \<le> inp s out) \<Longrightarrow>
   length (plan_from inp n xs) = Suc (length xs) \<and> (\<forall>k\<in>set (plan_from inp n xs). 1 \<le> k)"
proof (induction xs)
  case (Cons s xs)
  then have "plan_from inp n xs \<noteq> []" "\<forall>k\<in>set (plan_from inp n xs). 1 \<le> k" by auto
  then have "1 \<le> hd (plan_from inp n xs)" by simp
  with Cons show ?case by (simp add: Let_def CHAIN_BUS_FRAMES_def)
qed simp

lemma input_for_order_pos:
  "steady r \<Longrightarrow> 1 \<le> out \<Longrightarrow> 1 \<le> input_for_order (ri_stage r) rt s out"
  by (auto simp: input_for_order_def Let_def steady_def Suc_le_eq)

lemma combined_core [simp]:
  "core (s\<lparr>ns_combined_second := b\<rparr>) = core s" "ns_mix (s\<lparr>ns_combined_second := b\<rparr>) = ns_mix s"
  by (simp_all add: core_def target_of_def [abs_def])

lemma recompute_fields [simp]:
  "rt_order (recompute_combined rt) = rt_order rt"
  "rt_source_rate (recompute_combined rt) = rt_source_rate rt"
  "rt_plan (recompute_combined rt) = rt_plan rt"
  "core (rt_slots (recompute_combined rt) s) = core (rt_slots rt s)"
  "ns_mix (rt_slots (recompute_combined rt) s) = ns_mix (rt_slots rt s)"
  by (simp_all add: recompute_combined_def Let_def)

lemma recompute_sel [simp]:
  "ns_active (rt_slots (recompute_combined rt) s) = ns_active (rt_slots rt s)"
  "ns_kind (rt_slots (recompute_combined rt) s) = ns_kind (rt_slots rt s)"
  "ns_owner (rt_slots (recompute_combined rt) s) = ns_owner (rt_slots rt s)"
  "ns_bypassed (rt_slots (recompute_combined rt) s) = ns_bypassed (rt_slots rt s)"
  "ns_pending_move (rt_slots (recompute_combined rt) s) = ns_pending_move (rt_slots rt s)"
  "ns_removing (rt_slots (recompute_combined rt) s) = ns_removing (rt_slots rt s)"
  "free_slot (rt_slots (recompute_combined rt) s) = free_slot (rt_slots rt s)"
  "target_of (rt_slots (recompute_combined rt) s) = target_of (rt_slots rt s)"
  using core_eqD [OF recompute_fields(4) [of rt s]] by (simp_all add: free_slot_def)

lemma recompute_rt_ok [simp]: "rt_ok (recompute_combined rt) = rt_ok rt"
  by (simp add: rt_ok_def)

lemma recompute_with_plan [simp]:
  "recompute_combined (rt\<lparr>rt_plan := p\<rparr>) = (recompute_combined rt)\<lparr>rt_plan := p\<rparr>"
  by (rule chain_rt.equality) (simp_all add: recompute_combined_def Let_def cong: if_cong)

lemma update_slot_with_plan [simp]:
  "update_slot i f (rt\<lparr>rt_plan := p\<rparr>) = (update_slot i f rt)\<lparr>rt_plan := p\<rparr>"
  by (rule chain_rt.equality) (simp_all add: update_slot_def)

lemma move_slot_with_plan [simp]:
  "move_slot_to i t (rt\<lparr>rt_plan := p\<rparr>) = (move_slot_to i t rt)\<lparr>rt_plan := p\<rparr>"
proof (cases "position (\<lambda>s. s = i) (rt_order rt)")
  case (Some cur)
  then show ?thesis by (intro chain_rt.equality) (simp_all add: move_slot_to_def Let_def)
qed (simp add: move_slot_to_def del: position_None_iff)

lemma crossfade_with_plan [simp]: "crossfade_frames (rt\<lparr>rt_plan := p\<rparr>) = crossfade_frames rt"
  by (simp add: crossfade_frames_def)

lemma resolve_plan:
  "resolve_one_pending_move (rt\<lparr>rt_plan := p\<rparr>) = (resolve_one_pending_move rt)\<lparr>rt_plan := p\<rparr>"
  by (simp add: resolve_one_pending_move_def Let_def split: option.split)

lemma move_slot_to_fields [simp]:
  "rt_slots (move_slot_to i t rt) = rt_slots rt" "rt_source_rate (move_slot_to i t rt) = rt_source_rate rt"
  "crossfade_frames (move_slot_to i t rt) = crossfade_frames rt"
  by (simp_all add: move_slot_to_def crossfade_frames_def Let_def split: option.split)

lemma mset_move_slot_to [simp]: "mset (rt_order (move_slot_to i t rt)) = mset (rt_order rt)"
  by (auto simp: move_slot_to_def Let_def mset_insert_nth mset_remove_nth dest: position_less
      split: option.split)

lemma update_slot_fields [simp]:
  "rt_order (update_slot i f rt) = rt_order rt" "rt_source_rate (update_slot i f rt) = rt_source_rate rt"
  "rt_plan (update_slot i f rt) = rt_plan rt"
  "rt_slots (update_slot i f rt) = (rt_slots rt)(i := f (rt_slots rt i))"
  "crossfade_frames (update_slot i f rt) = crossfade_frames rt"
  by (simp_all add: update_slot_def crossfade_frames_def)

lemma resolve_order: "mset (rt_order (resolve_one_pending_move rt)) = mset (rt_order rt)"
  by (simp add: resolve_one_pending_move_def Let_def split: option.split)

lemma resolve_rate [simp]: "rt_source_rate (resolve_one_pending_move rt) = rt_source_rate rt"
  by (simp add: resolve_one_pending_move_def Let_def split: option.split)

lemma resolve_active:
  "ns_active (rt_slots (resolve_one_pending_move rt) s) = ns_active (rt_slots rt s)"
  by (simp add: resolve_one_pending_move_def Let_def split: option.split)

lemma resolve_other:
  assumes "s \<notin> set (rt_order rt)"
  shows "core (rt_slots (resolve_one_pending_move rt) s) = core (rt_slots rt s)"
    "ns_mix (rt_slots (resolve_one_pending_move rt) s) = ns_mix (rt_slots rt s)"
  using assms
  by (auto simp: resolve_one_pending_move_def Let_def dest: find_SomeD split: option.split)

lemma resolve_set: "set (rt_order (resolve_one_pending_move rt)) = set (rt_order rt)"
  using resolve_order by (rule mset_eq_setD)

lemma resolve_ok: "rt_ok rt \<Longrightarrow> rt_ok (resolve_one_pending_move rt)"
  using mset_eq_imp_distinct_iff [OF resolve_order [of rt]] core_eqD [OF resolve_other(1)] resolve_other(2)
  by (simp add: rt_ok_def resolve_set resolve_active free_slot_def)

lemma render_facts:
  assumes ok: "rt_ok rt" and st: "steady r"
  defines "rt1 \<equiv> resolve_one_pending_move rt" and "rt2 \<equiv> render r rt"
  shows "rt_order rt2 = filter (\<lambda>s. s \<in> set (rt_order rt2)) (rt_order rt1)"
    and "s \<notin> set (rt_order rt1) \<Longrightarrow>
       core (rt_slots rt2 s) = core (rt_slots rt1 s) \<and> ns_mix (rt_slots rt2 s) = ns_mix (rt_slots rt1 s)"
    and "s \<in> set (rt_order rt1) \<Longrightarrow>
       \<exists>n\<ge>1. rendered n (carries (rt_order rt1) (rt_slots rt1) s) (rt_slots rt1 s) (rt_slots rt2 s)
               (s \<in> set (rt_order rt2))"
    and "rt_source_rate rt2 = rt_source_rate rt"
proof -
  let ?pl = "plan_from (input_for_order (ri_stage r) rt) (min (ri_needed r) CHAIN_BUS_FRAMES) (rt_order rt)"
  obtain sl' kept where run: "run_slots (0 < last ?pl) (ri_measured r) ?pl (rt_order rt1) (rt_slots rt1) = (sl', kept)"
    by force
  have rt2: "rt2 = recompute_combined (rt1\<lparr>rt_plan := ?pl, rt_slots := sl', rt_order := kept\<rparr>)"
  proof -
    have "process (ri_measured r) (rt\<lparr>rt_plan := ?pl\<rparr>) =
        recompute_combined (rt1\<lparr>rt_plan := ?pl, rt_slots := sl', rt_order := kept\<rparr>)"
      unfolding process_def resolve_plan rt1_def [symmetric] using run by (simp add: Let_def)
    then show ?thesis by (simp only: rt2_def render_def plan_def)
  qed
  have ok1: "rt_ok rt1" unfolding rt1_def using ok by (rule resolve_ok)
  have pl: "length ?pl = Suc (length (rt_order rt1)) \<and> (\<forall>k\<in>set ?pl. 1 \<le> k)"
  proof -
    have "length (rt_order rt1) = length (rt_order rt)"
      unfolding rt1_def using resolve_order by (rule mset_eq_length)
    moreover have "1 \<le> min (ri_needed r) CHAIN_BUS_FRAMES"
      using st by (simp add: steady_def CHAIN_BUS_FRAMES_def)
    ultimately show ?thesis
      using plan_from_facts [of "min (ri_needed r) CHAIN_BUS_FRAMES" "input_for_order (ri_stage r) rt"
          "rt_order rt"] input_for_order_pos [OF st, of _ rt] by presburger
  qed
  have f: "kept = filter (\<lambda>s. s \<in> set kept) (rt_order rt1) \<and>
     (\<forall>s. s \<notin> set (rt_order rt1) \<longrightarrow> alike (sl' s) (rt_slots rt1 s)) \<and>
     (\<forall>s\<in>set (rt_order rt1). \<exists>n\<ge>1. rendered n (carries (rt_order rt1) (rt_slots rt1) s) (rt_slots rt1 s) (sl' s) (s \<in> set kept))"
    by (rule run_slots_facts [OF run]) (use ok1 pl in \<open>simp_all add: rt_ok_def\<close>)
  show "rt_order rt2 = filter (\<lambda>s. s \<in> set (rt_order rt2)) (rt_order rt1)"
    using f rt2 by simp
  show "core (rt_slots rt2 s) = core (rt_slots rt1 s) \<and> ns_mix (rt_slots rt2 s) = ns_mix (rt_slots rt1 s)"
    if "s \<notin> set (rt_order rt1)"
    using f that by (simp add: rt2 alike_def)
  show "\<exists>n\<ge>1. rendered n (carries (rt_order rt1) (rt_slots rt1) s) (rt_slots rt1 s) (rt_slots rt2 s)
               (s \<in> set (rt_order rt2))" if s: "s \<in> set (rt_order rt1)"
  proof -
    from f s obtain n where "1 \<le> n" and
      "rendered n (carries (rt_order rt1) (rt_slots rt1) s) (rt_slots rt1 s) (sl' s) (s \<in> set kept)" by blast
    moreover have "free_slot (rt_slots rt2 s) = free_slot (sl' s)" by (simp add: rt2)
    ultimately show ?thesis by (auto simp: rendered_def rt2)
  qed
  show "rt_source_rate rt2 = rt_source_rate rt" by (simp add: rt2 rt1_def)
qed

lemma render_ok:
  assumes ok: "rt_ok rt" and st: "steady r"
  shows "rt_ok (render r rt)"
proof -
  let ?rt1 = "resolve_one_pending_move rt" and ?rt2 = "render r rt"
  note f = render_facts [OF ok st]
  have ok1: "rt_ok ?rt1" using ok by (rule resolve_ok)
  have d: "distinct (rt_order ?rt2)" using ok1 f(1) by (metis distinct_filter rt_ok_def)
  have sub: "set (rt_order ?rt2) \<subseteq> set (rt_order ?rt1)" using f(1) by (metis filter_is_subset)
  have "ns_active (rt_slots ?rt2 s)" if s: "s \<in> set (rt_order ?rt2)" for s
  proof -
    have s1: "s \<in> set (rt_order ?rt1)" using s sub by blast
    then have "core (rt_slots ?rt2 s) = core (rt_slots ?rt1 s)"
      using f(3) [OF s1] s by (auto simp: rendered_def split: if_splits)
    moreover have "ns_active (rt_slots ?rt1 s)" using ok1 s1 by (simp add: rt_ok_def)
    ultimately show ?thesis using core_eqD(1) by blast
  qed
  moreover have "free_slot (rt_slots ?rt2 s)" if "s \<notin> set (rt_order ?rt2)" for s
  proof (cases "s \<in> set (rt_order ?rt1)")
    case True
    then show ?thesis using f(3) [of s] that by (auto simp: rendered_def split: if_splits)
  next
    case False
    then have "free_slot (rt_slots ?rt1 s)" using ok1 by (simp add: rt_ok_def)
    moreover have "core (rt_slots ?rt2 s) = core (rt_slots ?rt1 s)"
      "ns_mix (rt_slots ?rt2 s) = ns_mix (rt_slots ?rt1 s)" using f(2) [OF False] by simp_all
    ultimately show ?thesis using core_eqD(1,6,7) by (metis free_slot_def)
  qed
  moreover have "s < MAX_NODES" if "s \<in> set (rt_order ?rt2)" for s
    using sub that ok1 unfolding rt_ok_def by blast
  ultimately show ?thesis using d unfolding rt_ok_def by blast
qed

end
