(* ===== verification/Chain_Refinement.thy ===== *)
theory Chain_Refinement
  imports Chain_Invariant Chain_Render
begin

text \<open>
  The real-time chain follows the controller's: the relation between the two, what the commands of
  each operation and the renders that follow do to it. The engine is \<open>in_step\<close> with the model when it
  has the same nodes in the same order with the same targets and no fade is running.
\<close>

section \<open>Agreement\<close>

definition targets_agree :: "node_slot \<Rightarrow> node_kind \<Rightarrow> rat list \<Rightarrow> bool" where
  "targets_agree s kind vs \<longleftrightarrow>
     list_all2 (\<lambda>d v. \<bar>target_of s (pd_id d) - v\<bar> \<le> EPSILON) (params kind) vs"

definition slot_agrees :: "node_model \<Rightarrow> node_slot \<Rightarrow> bool" where
  "slot_agrees n s \<longleftrightarrow> ns_active s \<and> ns_kind s = nm_kind n \<and> ns_owner s = nm_owner n \<and>
     ns_bypassed s = nm_bypassed n \<and> ns_pending_move s = None \<and> \<not> ns_removing s \<and>
     targets_agree s (nm_kind n) (nm_params n) \<and> (\<not> nm_bypassed n \<longrightarrow> cf_to_wet (ns_mix s))"

definition nodes_agree :: "chain_model \<Rightarrow> chain_rt \<Rightarrow> bool" where
  "nodes_agree m rt \<longleftrightarrow> list_all (\<lambda>n. slot_agrees n (rt_slots rt (nm_slot n))) (cm_nodes m)"

definition same_rate :: "chain_model \<Rightarrow> chain_rt \<Rightarrow> bool" where
  "same_rate m rt \<longleftrightarrow> rt_source_rate rt = cm_source_rate m \<and> 1 \<le> cm_source_rate m"

definition agrees :: "chain_model \<Rightarrow> chain_rt \<Rightarrow> bool" where
  "agrees m rt \<longleftrightarrow> rt_ok rt \<and> same_rate m rt \<and> rt_order rt = map nm_slot (cm_nodes m) \<and> nodes_agree m rt"

definition fading_at_most :: "nat \<Rightarrow> chain_rt \<Rightarrow> bool" where
  "fading_at_most k rt \<longleftrightarrow> (\<forall>s\<in>set (rt_order rt). remaining (ns_mix (rt_slots rt s)) \<le> k)"

definition in_step :: "chain_model \<Rightarrow> chain_rt \<Rightarrow> bool" where
  "in_step m rt \<longleftrightarrow> agrees m rt \<and> fading_at_most 0 rt"

definition renders :: "render_input list \<Rightarrow> chain_rt \<Rightarrow> chain_rt" where
  "renders rs rt = fold render rs rt"

definition apply_commands :: "chain_command list \<Rightarrow> chain_rt \<Rightarrow> chain_rt" where
  "apply_commands cmds rt = fold apply_command cmds rt"

lemma renders_simps [simp]: "renders [] rt = rt" "renders (r # rs) rt = renders rs (render r rt)"
  by (simp_all add: renders_def)

lemma apply_commands_simps [simp]:
  "apply_commands [] rt = rt" "apply_commands (c # cs) rt = apply_commands cs (apply_command c rt)"
  by (simp_all add: apply_commands_def)

lemma slot_agrees_cong:
  "core s = core t \<Longrightarrow> cf_to_wet (ns_mix s) = cf_to_wet (ns_mix t) \<Longrightarrow> slot_agrees n s = slot_agrees n t"
  using core_eqD [of s t] by (simp add: slot_agrees_def targets_agree_def)

lemma slot_agrees_transfer:
  "slot_agrees n t \<Longrightarrow> core s = core t \<Longrightarrow> cf_to_wet (ns_mix s) = cf_to_wet (ns_mix t) \<Longrightarrow> slot_agrees n s"
  using slot_agrees_cong by blast

lemma agreesD:
  assumes "agrees m rt" "n \<in> set (cm_nodes m)"
  shows "nm_slot n \<in> set (rt_order rt)" "slot_agrees n (rt_slots rt (nm_slot n))" "nm_slot n < MAX_NODES"
  using assms by (auto simp: agrees_def nodes_agree_def list_all_iff rt_ok_def)

lemma agrees_slot:
  assumes "agrees m rt" "s \<in> set (rt_order rt)"
  obtains n where "n \<in> set (cm_nodes m)" "nm_slot n = s" "slot_agrees n (rt_slots rt s)"
  using assms agreesD(2) by (auto simp: agrees_def)

lemma crossfade_pos: "1 \<le> rt_source_rate rt \<Longrightarrow> 1 \<le> crossfade_frames rt"
proof -
  assume "1 \<le> rt_source_rate rt"
  then have "0 < SWITCH_CROSSFADE_MS / 1000 * of_nat (rt_source_rate rt)"
    by (simp add: SWITCH_CROSSFADE_MS_def)
  then have "0 < \<lceil>SWITCH_CROSSFADE_MS / 1000 * of_nat (rt_source_rate rt)\<rceil>"
    by (simp only: zero_less_ceiling)
  then show ?thesis unfolding crossfade_frames_def by linarith
qed

section \<open>Renders while no move or removal is pending\<close>

lemma resolve_none:
  "\<forall>s\<in>set (rt_order rt). ns_pending_move (rt_slots rt s) = None \<or> remaining (ns_mix (rt_slots rt s)) \<noteq> 0 \<Longrightarrow>
   resolve_one_pending_move rt = rt"
proof -
  assume "\<forall>s\<in>set (rt_order rt). ns_pending_move (rt_slots rt s) = None \<or> remaining (ns_mix (rt_slots rt s)) \<noteq> 0"
  then have "find (\<lambda>i. ns_pending_move (rt_slots rt i) \<noteq> None \<and> cf_is_settled (ns_mix (rt_slots rt i)))
      (rt_order rt) = None"
    by (auto simp: find_None_iff settled_iff)
  then show ?thesis by (simp only: resolve_one_pending_move_def option.case)
qed

lemma rendered_stays:
  "rendered n c s s' kept \<Longrightarrow> \<not> ns_removing s \<Longrightarrow>
   kept \<and> core s' = core s \<and> cf_to_wet (ns_mix s') = cf_to_wet (ns_mix s) \<and>
   remaining (ns_mix s') = remaining (ns_mix s) - n"
  by (simp add: rendered_def leaves_def)

lemma agrees_render_resolved:
  assumes ok: "rt_ok rt" and ag: "agrees m (resolve_one_pending_move rt)" and st: "steady r"
    and k: "fading_at_most k (resolve_one_pending_move rt)"
  shows "agrees m (render r rt) \<and> fading_at_most (k - 1) (render r rt)"
proof -
  let ?rt1 = "resolve_one_pending_move rt" and ?rt2 = "render r rt"
  have quiet: "\<not> ns_removing (rt_slots ?rt1 s)" if "s \<in> set (rt_order ?rt1)" for s
    using agrees_slot [OF ag that] by (auto simp: slot_agrees_def)
  note f = render_facts [OF ok st]
  have each: "s \<in> set (rt_order ?rt2) \<and> core (rt_slots ?rt2 s) = core (rt_slots ?rt1 s) \<and>
      cf_to_wet (ns_mix (rt_slots ?rt2 s)) = cf_to_wet (ns_mix (rt_slots ?rt1 s)) \<and>
      remaining (ns_mix (rt_slots ?rt2 s)) \<le> k - 1" if s: "s \<in> set (rt_order ?rt1)" for s
  proof -
    obtain n where n: "1 \<le> n" "rendered n (carries (rt_order ?rt1) (rt_slots ?rt1) s) (rt_slots ?rt1 s)
        (rt_slots ?rt2 s) (s \<in> set (rt_order ?rt2))" using f(3) [OF s] by blast
    have "remaining (ns_mix (rt_slots ?rt1 s)) \<le> k" using k s by (simp add: fading_at_most_def)
    then show ?thesis using rendered_stays [OF n(2)] quiet [OF s] n(1) by auto
  qed
  have order: "rt_order ?rt2 = rt_order ?rt1"
    using f(1) each by (metis (mono_tags, lifting) filter_True)
  have "nodes_agree m ?rt2"
    unfolding nodes_agree_def list_all_iff
  proof
    fix n assume n: "n \<in> set (cm_nodes m)"
    show "slot_agrees n (rt_slots ?rt2 (nm_slot n))"
      using each [OF agreesD(1) [OF ag n]] agreesD(2) [OF ag n] slot_agrees_cong by blast
  qed
  then have "agrees m ?rt2"
    using ag order f(4) render_ok [OF ok st] by (simp add: agrees_def same_rate_def)
  moreover have "fading_at_most (k - 1) ?rt2"
    using each by (simp add: fading_at_most_def order)
  ultimately show ?thesis ..
qed

lemma agrees_resolve: "agrees m rt \<Longrightarrow> resolve_one_pending_move rt = rt"
  by (rule resolve_none) (auto simp: slot_agrees_def elim: agrees_slot)

lemma agrees_render:
  "agrees m rt \<Longrightarrow> steady r \<Longrightarrow> fading_at_most k rt \<Longrightarrow>
   agrees m (render r rt) \<and> fading_at_most (k - 1) (render r rt)"
  using agrees_render_resolved [of rt m r k] by (simp add: agrees_resolve) (simp add: agrees_def)

lemma agrees_renders:
  assumes "agrees m rt" "list_all steady rs" "fading_at_most k rt" "k \<le> length rs"
  shows "in_step m (renders rs rt)"
  using assms
proof (induction rs arbitrary: rt k)
  case Nil
  then show ?case by (simp add: in_step_def)
next
  case (Cons r rs)
  have "agrees m (render r rt) \<and> fading_at_most (k - 1) (render r rt)"
    using Cons.prems by (intro agrees_render) simp_all
  then show ?case using Cons.IH [where rt = "render r rt" and k = "k - 1"] Cons.prems by simp
qed

section \<open>A slot that fades out\<close>

text \<open>\<open>s\<close> is being removed; the rest is the model's chain.\<close>

definition departing :: "chain_model \<Rightarrow> nat \<Rightarrow> nat \<Rightarrow> chain_rt \<Rightarrow> bool" where
  "departing m s k rt \<longleftrightarrow> rt_ok rt \<and> same_rate m rt \<and> s \<in> set (rt_order rt) \<and>
     filter (\<lambda>t. t \<noteq> s) (rt_order rt) = map nm_slot (cm_nodes m) \<and> nodes_agree m rt \<and>
     (\<forall>t\<in>set (rt_order rt) - {s}. remaining (ns_mix (rt_slots rt t)) = 0) \<and>
     ns_removing (rt_slots rt s) \<and> ns_pending_move (rt_slots rt s) = None \<and>
     1 \<le> remaining (ns_mix (rt_slots rt s)) \<and> remaining (ns_mix (rt_slots rt s)) \<le> k"

lemma departing_render:
  assumes d: "departing m s k rt" and st: "steady r"
  shows "in_step m (render r rt) \<or> departing m s (k - 1) (render r rt)"
proof -
  let ?rt = "render r rt"
  have ok: "rt_ok rt" using d by (simp add: departing_def)
  have nodes: "set (map nm_slot (cm_nodes m)) = set (rt_order rt) - {s}"
  proof -
    have "map nm_slot (cm_nodes m) = filter (\<lambda>t. t \<noteq> s) (rt_order rt)" using d by (simp add: departing_def)
    then show ?thesis by (simp only:) auto
  qed
  have ag: "slot_agrees n (rt_slots rt (nm_slot n))" if "n \<in> set (cm_nodes m)" for n
    using d that by (simp add: departing_def nodes_agree_def list_all_iff)
  have quiet: "ns_pending_move (rt_slots rt t) = None \<and> \<not> ns_removing (rt_slots rt t)"
    if "t \<in> set (rt_order rt)" "t \<noteq> s" for t
  proof -
    have "t \<in> nm_slot ` set (cm_nodes m)" using that nodes by simp
    then obtain n where "n \<in> set (cm_nodes m)" "nm_slot n = t" by blast
    with ag show ?thesis by (auto simp: slot_agrees_def)
  qed
  then have rs: "resolve_one_pending_move rt = rt"
    using d by (intro resolve_none) (auto simp: departing_def)
  note f = render_facts [OF ok st, unfolded rs]
  have each: "t \<in> set (rt_order ?rt) \<and> core (rt_slots ?rt t) = core (rt_slots rt t) \<and>
      cf_to_wet (ns_mix (rt_slots ?rt t)) = cf_to_wet (ns_mix (rt_slots rt t)) \<and>
      remaining (ns_mix (rt_slots ?rt t)) = 0" if t: "t \<in> set (rt_order rt)" "t \<noteq> s" for t
  proof -
    obtain n where n: "1 \<le> n" "rendered n (carries (rt_order rt) (rt_slots rt) t) (rt_slots rt t)
        (rt_slots ?rt t) (t \<in> set (rt_order ?rt))" using f(3) [OF t(1)] by blast
    have "remaining (ns_mix (rt_slots rt t)) = 0" using d t by (simp add: departing_def)
    then show ?thesis using rendered_stays [OF n(2)] quiet [OF t] by auto
  qed
  have na: "nodes_agree m ?rt"
    unfolding nodes_agree_def list_all_iff
  proof
    fix n assume n: "n \<in> set (cm_nodes m)"
    then have "nm_slot n \<in> set (rt_order rt)" "nm_slot n \<noteq> s" using nodes by auto
    then show "slot_agrees n (rt_slots ?rt (nm_slot n))"
      using each [of "nm_slot n"] ag [OF n] slot_agrees_cong by blast
  qed
  have ss: "s \<in> set (rt_order rt)" using d by (simp add: departing_def)
  have others: "filter (\<lambda>t. t \<noteq> s) (rt_order ?rt) = map nm_slot (cm_nodes m)"
  proof -
    have "filter (\<lambda>t. t \<noteq> s) (rt_order ?rt) = filter (\<lambda>t. t \<in> set (rt_order ?rt) \<and> t \<noteq> s) (rt_order rt)"
      by (subst f(1)) simp
    also have "\<dots> = filter (\<lambda>t. t \<noteq> s) (rt_order rt)"
      by (rule filter_cong) (use each in auto)
    also have "\<dots> = map nm_slot (cm_nodes m)" using d by (simp add: departing_def)
    finally show ?thesis .
  qed
  have sub: "set (rt_order ?rt) \<subseteq> set (rt_order rt)" using f(1) by (metis filter_is_subset)
  have rate: "same_rate m ?rt" using d f(4) by (simp add: departing_def same_rate_def)
  obtain n where n: "1 \<le> n" "rendered n (carries (rt_order rt) (rt_slots rt) s) (rt_slots rt s)
      (rt_slots ?rt s) (s \<in> set (rt_order ?rt))" using f(3) [OF ss] by blast
  let ?k = "remaining (ns_mix (rt_slots rt s))"
  have l: "leaves n c (rt_slots rt s) = (?k \<le> n)" for c
    using d by (auto simp: leaves_def departing_def settled_iff)
  show ?thesis
  proof (cases "?k \<le> n")
    case True
    then have s: "s \<notin> set (rt_order ?rt)" using n(2) l by (simp add: rendered_def)
    then have "rt_order ?rt = map nm_slot (cm_nodes m)"
      using others by (metis (mono_tags, lifting) filter_True)
    then have "agrees m ?rt" using na rate render_ok [OF ok st] by (simp add: agrees_def)
    moreover have "fading_at_most 0 ?rt"
      unfolding fading_at_most_def using each sub s by (metis le0 le_refl subsetD)
    ultimately show ?thesis by (simp add: in_step_def)
  next
    case False
    then have s: "s \<in> set (rt_order ?rt)" "core (rt_slots ?rt s) = core (rt_slots rt s)"
        "remaining (ns_mix (rt_slots ?rt s)) = ?k - n"
      using n(2) l by (simp_all add: rendered_def)
    have c: "ns_removing (rt_slots ?rt s)" "ns_pending_move (rt_slots ?rt s) = None"
      using core_eqD(6,7) [OF s(2)] d by (simp_all add: departing_def)
    have "\<forall>t\<in>set (rt_order ?rt) - {s}. remaining (ns_mix (rt_slots ?rt t)) = 0"
      using each sub by blast
    moreover have "1 \<le> ?k - n" "?k - n \<le> k - 1" using False n(1) d by (auto simp: departing_def)
    ultimately have "departing m s (k - 1) ?rt"
      unfolding departing_def using s(1,3) c others na rate render_ok [OF ok st] by simp
    then show ?thesis ..
  qed
qed

lemma in_step_renders: "in_step m rt \<Longrightarrow> list_all steady rs \<Longrightarrow> in_step m (renders rs rt)"
  using agrees_renders [of m rt rs 0] by (simp add: in_step_def)

lemma departing_renders:
  assumes "departing m s k rt" "list_all steady rs" "k \<le> length rs"
  shows "in_step m (renders rs rt)"
  using assms
proof (induction rs arbitrary: rt k)
  case Nil
  then show ?case by (simp add: departing_def)
next
  case (Cons r rs)
  then have "in_step m (render r rt) \<or> departing m s (k - 1) (render r rt)"
    by (intro departing_render) simp_all
  then show ?case
    using Cons.IH [where rt = "render r rt" and k = "k - 1"] Cons.prems in_step_renders [of m "render r rt" rs] by auto
qed

section \<open>A slot that moves\<close>

text \<open>\<open>s\<close> fades out in its old place and has its new place \<open>t\<close> pending.\<close>

definition moving :: "chain_model \<Rightarrow> nat \<Rightarrow> nat \<Rightarrow> nat \<Rightarrow> chain_rt \<Rightarrow> bool" where
  "moving m s t k rt \<longleftrightarrow> rt_ok rt \<and> same_rate m rt \<and> s \<in> set (rt_order rt) \<and>
     (\<exists>cur. position (\<lambda>j. j = s) (rt_order rt) = Some cur \<and> t \<noteq> cur \<and> t < length (rt_order rt) \<and>
        insert_nth t s (remove_nth cur (rt_order rt)) = map nm_slot (cm_nodes m)) \<and>
     list_all (\<lambda>n. if nm_slot n = s
       then slot_agrees n ((rt_slots rt s)\<lparr>ns_pending_move := None, ns_mix := crossfade_settled True\<rparr>)
       else slot_agrees n (rt_slots rt (nm_slot n))) (cm_nodes m) \<and>
     (\<forall>j\<in>set (rt_order rt) - {s}. remaining (ns_mix (rt_slots rt j)) = 0) \<and>
     ns_pending_move (rt_slots rt s) = Some t \<and> remaining (ns_mix (rt_slots rt s)) \<le> k"

lemma moving_nodes:
  assumes "moving m s t k rt"
  shows "nm_slot ` set (cm_nodes m) = set (rt_order rt)"
proof -
  from assms obtain cur where c: "position (\<lambda>j. j = s) (rt_order rt) = Some cur"
      "insert_nth t s (remove_nth cur (rt_order rt)) = map nm_slot (cm_nodes m)"
    by (auto simp: moving_def)
  have "cur < length (rt_order rt) \<and> rt_order rt ! cur = s" using position_SomeD [OF c(1)] by simp
  then have "mset (map nm_slot (cm_nodes m)) = mset (rt_order rt)"
    using mset_move c(2) by metis
  then have "set (map nm_slot (cm_nodes m)) = set (rt_order rt)" by (rule mset_eq_setD)
  then show ?thesis by simp
qed

lemma moving_other:
  assumes mv: "moving m s t k rt" and j: "j \<in> set (rt_order rt)" "j \<noteq> s"
  shows "ns_pending_move (rt_slots rt j) = None \<and> \<not> ns_removing (rt_slots rt j)"
proof -
  have "j \<in> nm_slot ` set (cm_nodes m)" using moving_nodes [OF mv] j by simp
  then obtain n where "n \<in> set (cm_nodes m)" "nm_slot n = j" by blast
  with mv j(2) show ?thesis by (auto simp: moving_def list_all_iff slot_agrees_def split: if_splits)
qed

lemma moving_self:
  assumes mv: "moving m s t k rt"
  shows "\<not> ns_removing (rt_slots rt s)"
proof -
  have "s \<in> nm_slot ` set (cm_nodes m)" using moving_nodes [OF mv] mv by (simp add: moving_def)
  then obtain n where "n \<in> set (cm_nodes m)" "nm_slot n = s" by blast
  with mv show ?thesis by (auto simp: moving_def list_all_iff slot_agrees_def split: if_splits)
qed

text \<open>The slot with its move carried out or given up agrees as much as its core and the mix say.\<close>

lemma settled_core:
  "core s = core s' \<Longrightarrow>
   core (s\<lparr>ns_pending_move := p, ns_mix := c\<rparr>) = core (s'\<lparr>ns_pending_move := p, ns_mix := c'\<rparr>)"
  by (simp add: core_def target_of_def [abs_def])

lemma moving_resolved:
  assumes mv: "moving m s t k rt" and z: "remaining (ns_mix (rt_slots rt s)) = 0"
  shows "agrees m (resolve_one_pending_move rt) \<and>
    fading_at_most (crossfade_frames rt) (resolve_one_pending_move rt)"
proof -
  have ok: "rt_ok rt" using mv by (simp add: moving_def)
  have ss: "s \<in> set (rt_order rt)" and p: "ns_pending_move (rt_slots rt s) = Some t"
    using mv by (simp_all add: moving_def)
  from mv obtain cur where c: "position (\<lambda>j. j = s) (rt_order rt) = Some cur" "t \<noteq> cur"
      "t < length (rt_order rt)" "insert_nth t s (remove_nth cur (rt_order rt)) = map nm_slot (cm_nodes m)"
    by (auto simp: moving_def)
  have cur: "rt_order rt ! cur = s" using position_SomeD [OF c(1)] by simp
  let ?P = "\<lambda>i. ns_pending_move (rt_slots rt i) \<noteq> None \<and> cf_is_settled (ns_mix (rt_slots rt i))"
  have fs: "find ?P (rt_order rt) = Some s"
  proof -
    have "find ?P (rt_order rt) \<noteq> None" using ss p z by (auto simp: find_None_iff settled_iff)
    then obtain i where i: "find ?P (rt_order rt) = Some i" by blast
    then have "i \<in> set (rt_order rt) \<and> ?P i" by (rule find_SomeD)
    then have "i = s" using moving_other [OF mv, of i] by (cases "i = s") simp_all
    with i show ?thesis by simp
  qed
  let ?mix = "cf_set_target True (crossfade_frames rt) (ns_mix (rt_slots rt s))"
  define rt1 where "rt1 = resolve_one_pending_move rt"
  let ?u = "update_slot s (\<lambda>x. x\<lparr>ns_pending_move := None\<rparr>) rt"
  have tm: "min t (length (rt_order rt) - 1) = t" using c(3) by simp
  have mvd: "move_slot_to s t ?u = ?u\<lparr>rt_order := map nm_slot (cm_nodes m)\<rparr>"
    using c cur tm by (simp add: move_slot_to_def Let_def del: position_None_iff)
  have rt1: "rt1 = recompute_combined (update_slot s (\<lambda>x. x\<lparr>ns_mix := cf_set_target True (crossfade_frames rt) (ns_mix x)\<rparr>)
      (?u\<lparr>rt_order := map nm_slot (cm_nodes m)\<rparr>))"
  proof -
    have "crossfade_frames (?u\<lparr>rt_order := map nm_slot (cm_nodes m)\<rparr>) = crossfade_frames rt"
      by (simp add: crossfade_frames_def)
    then show ?thesis
      unfolding rt1_def resolve_one_pending_move_def fs option.case p option.sel Let_def tm mvd by simp
  qed
  have order: "rt_order rt1 = map nm_slot (cm_nodes m)" by (simp add: rt1)
  have cores: "core (rt_slots rt1 j) = (if j = s then core ((rt_slots rt s)\<lparr>ns_pending_move := None, ns_mix := ?mix\<rparr>)
      else core (rt_slots rt j))" for j
    by (simp add: rt1)
  have mixes: "ns_mix (rt_slots rt1 j) = (if j = s then ?mix else ns_mix (rt_slots rt j))" for j
    by (simp add: rt1)
  have "nodes_agree m rt1"
    unfolding nodes_agree_def list_all_iff
  proof
    fix n assume n: "n \<in> set (cm_nodes m)"
    show "slot_agrees n (rt_slots rt1 (nm_slot n))"
    proof (cases "nm_slot n = s")
      case True
      have a: "slot_agrees n ((rt_slots rt s)\<lparr>ns_pending_move := None, ns_mix := crossfade_settled True\<rparr>)"
        using mv n True unfolding moving_def list_all_iff by auto
      have "core (rt_slots rt1 s) = core ((rt_slots rt s)\<lparr>ns_pending_move := None, ns_mix := crossfade_settled True\<rparr>)"
        using cores [of s] settled_core [of "rt_slots rt s" "rt_slots rt s"] by simp
      moreover have "cf_to_wet (ns_mix (rt_slots rt1 s))" by (simp add: mixes)
      ultimately have "slot_agrees n (rt_slots rt1 s)"
        by (intro slot_agrees_transfer [OF a]) simp_all
      with True show ?thesis by simp
    next
      case False
      then have a: "slot_agrees n (rt_slots rt (nm_slot n))"
        using mv n unfolding moving_def list_all_iff by auto
      show ?thesis
        by (rule slot_agrees_transfer [OF a]) (use cores [of "nm_slot n"] mixes [of "nm_slot n"] False in simp_all)
    qed
  qed
  moreover have "same_rate m rt1" using mv by (simp add: moving_def same_rate_def rt1)
  ultimately have "agrees m rt1"
    using resolve_ok [OF ok] order by (simp add: agrees_def rt1_def)
  moreover have "fading_at_most (crossfade_frames rt) rt1"
    unfolding fading_at_most_def
  proof
    fix j assume "j \<in> set (rt_order rt1)"
    then have "j \<in> set (rt_order rt)" using order moving_nodes [OF mv] by simp
    then show "remaining (ns_mix (rt_slots rt1 j)) \<le> crossfade_frames rt"
      using mv by (auto simp: mixes remaining_set_target moving_def)
  qed
  ultimately show ?thesis by (simp add: rt1_def)
qed

lemma crossfade_rate: "rt_source_rate rt = rt_source_rate rt' \<Longrightarrow> crossfade_frames rt = crossfade_frames rt'"
  by (simp add: crossfade_frames_def)

lemma moving_render:
  assumes mv: "moving m s t k rt" and st: "steady r"
  shows "agrees m (render r rt) \<and> fading_at_most (crossfade_frames rt) (render r rt) \<or>
    0 < k \<and> moving m s t (k - 1) (render r rt)"
proof (cases "remaining (ns_mix (rt_slots rt s)) = 0")
  case True
  have "rt_ok rt" using mv by (simp add: moving_def)
  then have "agrees m (render r rt) \<and> fading_at_most (crossfade_frames rt - 1) (render r rt)"
    using agrees_render_resolved moving_resolved [OF mv True] st by blast
  then show ?thesis by (auto simp: fading_at_most_def)
next
  case False
  let ?rt = "render r rt"
  have ok: "rt_ok rt" using mv by (simp add: moving_def)
  have ss: "s \<in> set (rt_order rt)" using mv by (simp add: moving_def)
  have rs: "resolve_one_pending_move rt = rt"
    using moving_other [OF mv] False by (intro resolve_none) blast
  note f = render_facts [OF ok st, unfolded rs]
  have each: "j \<in> set (rt_order ?rt) \<and> core (rt_slots ?rt j) = core (rt_slots rt j) \<and>
      cf_to_wet (ns_mix (rt_slots ?rt j)) = cf_to_wet (ns_mix (rt_slots rt j)) \<and>
      remaining (ns_mix (rt_slots ?rt j)) \<le> remaining (ns_mix (rt_slots rt j)) - 1"
    if j: "j \<in> set (rt_order rt)" for j
  proof -
    obtain n where n: "1 \<le> n" "rendered n (carries (rt_order rt) (rt_slots rt) j) (rt_slots rt j)
        (rt_slots ?rt j) (j \<in> set (rt_order ?rt))" using f(3) [OF j] by blast
    have "\<not> ns_removing (rt_slots rt j)" using moving_other [OF mv j] moving_self [OF mv] by (cases "j = s") auto
    then show ?thesis using rendered_stays [OF n(2)] n(1) by auto
  qed
  have order: "rt_order ?rt = rt_order rt"
    using f(1) each by (metis (mono_tags, lifting) filter_True)
  have na: "list_all (\<lambda>n. if nm_slot n = s
       then slot_agrees n ((rt_slots ?rt s)\<lparr>ns_pending_move := None, ns_mix := crossfade_settled True\<rparr>)
       else slot_agrees n (rt_slots ?rt (nm_slot n))) (cm_nodes m)"
    unfolding list_all_iff
  proof
    fix n assume n: "n \<in> set (cm_nodes m)"
    then have j: "nm_slot n \<in> set (rt_order rt)" using moving_nodes [OF mv] by blast
    show "if nm_slot n = s
       then slot_agrees n ((rt_slots ?rt s)\<lparr>ns_pending_move := None, ns_mix := crossfade_settled True\<rparr>)
       else slot_agrees n (rt_slots ?rt (nm_slot n))"
    proof (cases "nm_slot n = s")
      case True
      then have a: "slot_agrees n ((rt_slots rt s)\<lparr>ns_pending_move := None, ns_mix := crossfade_settled True\<rparr>)"
        using mv n unfolding moving_def list_all_iff by auto
      have "core ((rt_slots ?rt s)\<lparr>ns_pending_move := None, ns_mix := crossfade_settled True\<rparr>) =
          core ((rt_slots rt s)\<lparr>ns_pending_move := None, ns_mix := crossfade_settled True\<rparr>)"
        using each [OF ss] by (intro settled_core) blast
      then have "slot_agrees n ((rt_slots ?rt s)\<lparr>ns_pending_move := None, ns_mix := crossfade_settled True\<rparr>)"
        by (rule slot_agrees_transfer [OF a]) simp
      with True show ?thesis by simp
    next
      case False
      then have a: "slot_agrees n (rt_slots rt (nm_slot n))"
        using mv n unfolding moving_def list_all_iff by auto
      have "slot_agrees n (rt_slots ?rt (nm_slot n))"
        by (rule slot_agrees_transfer [OF a]) (use each [OF j] in blast)+
      with False show ?thesis by simp
    qed
  qed
  have p: "ns_pending_move (rt_slots ?rt s) = Some t"
    using each [OF ss] core_eqD(6) mv by (metis moving_def)
  have oth: "\<forall>j\<in>set (rt_order rt) - {s}. remaining (ns_mix (rt_slots rt j)) = 0"
    using mv unfolding moving_def by blast
  have "\<forall>j\<in>set (rt_order ?rt) - {s}. remaining (ns_mix (rt_slots ?rt j)) = 0"
  proof
    fix j assume "j \<in> set (rt_order ?rt) - {s}"
    then have "j \<in> set (rt_order rt)" "remaining (ns_mix (rt_slots rt j)) = 0" using order oth by simp_all
    then show "remaining (ns_mix (rt_slots ?rt j)) = 0" using each [of j] by simp
  qed
  moreover have "remaining (ns_mix (rt_slots ?rt s)) \<le> k - 1" "0 < k"
    using each [OF ss] mv False by (auto simp: moving_def)
  moreover have "same_rate m ?rt" using mv f(4) by (simp add: moving_def same_rate_def)
  moreover have "\<exists>cur. position (\<lambda>j. j = s) (rt_order rt) = Some cur \<and> t \<noteq> cur \<and> t < length (rt_order rt) \<and>
        insert_nth t s (remove_nth cur (rt_order rt)) = map nm_slot (cm_nodes m)"
    using mv unfolding moving_def by blast
  ultimately have "0 < k \<and> moving m s t (k - 1) ?rt"
    using ss na p render_ok [OF ok st] unfolding moving_def order by blast
  then show ?thesis ..
qed

lemma moving_renders:
  assumes "moving m s t k rt" "list_all steady rs" "k + crossfade_frames rt + 1 \<le> length rs"
  shows "in_step m (renders rs rt)"
  using assms
proof (induction rs arbitrary: rt k)
  case (Cons r rs)
  have rate: "crossfade_frames (render r rt) = crossfade_frames rt"
    using render_facts(4) [of rt r] Cons.prems(1,2) crossfade_rate [of "render r rt" rt]
    by (simp add: moving_def)
  from Cons.prems have "agrees m (render r rt) \<and> fading_at_most (crossfade_frames rt) (render r rt) \<or>
      0 < k \<and> moving m s t (k - 1) (render r rt)"
    by (intro moving_render) simp_all
  then show ?case
  proof
    assume "agrees m (render r rt) \<and> fading_at_most (crossfade_frames rt) (render r rt)"
    then show ?thesis
      using Cons.prems agrees_renders [of m "render r rt" rs "crossfade_frames rt"] by simp
  next
    assume "0 < k \<and> moving m s t (k - 1) (render r rt)"
    then show ?thesis
      using Cons.IH [where rt = "render r rt" and k = "k - 1"] Cons.prems rate by simp
  qed
qed simp

end
