(* ===== verification/Chain_Commands.thy ===== *)
theory Chain_Commands
  imports Chain_Refinement
begin

text \<open>
  What the commands of each operation of the model do to an engine that is in step with it.
\<close>

section \<open>Changes that agreement does not see\<close>

definition node_view :: "node_model \<Rightarrow> nat \<times> node_kind \<times> node_owner \<times> bool \<times> rat list" where
  "node_view n = (nm_slot n, nm_kind n, nm_owner n, nm_bypassed n, nm_params n)"

lemma slot_agrees_view: "node_view n = node_view n' \<Longrightarrow> slot_agrees n s = slot_agrees n' s"
  by (simp add: node_view_def slot_agrees_def)

lemma agrees_view:
  assumes "map node_view (cm_nodes m) = map node_view (cm_nodes m')" "cm_source_rate m = cm_source_rate m'"
  shows "agrees m rt = agrees m' rt"
proof -
  have len: "length (cm_nodes m) = length (cm_nodes m')" using assms(1) by (rule map_eq_imp_length_eq)
  have v: "node_view (cm_nodes m ! i) = node_view (cm_nodes m' ! i)" if "i < length (cm_nodes m)" for i
    using assms(1) that len by (metis nth_map)
  have "map nm_slot (cm_nodes m) = map nm_slot (cm_nodes m')"
    by (rule nth_equalityI) (use len v in \<open>simp_all add: node_view_def\<close>)
  moreover have "slot_agrees (cm_nodes m ! i) (rt_slots rt (nm_slot (cm_nodes m ! i))) =
      slot_agrees (cm_nodes m' ! i) (rt_slots rt (nm_slot (cm_nodes m' ! i)))"
    if i: "i < length (cm_nodes m)" for i
  proof -
    have "nm_slot (cm_nodes m ! i) = nm_slot (cm_nodes m' ! i)"
      using v [OF i] by (simp add: node_view_def)
    then show ?thesis using slot_agrees_view [OF v [OF i]] by simp
  qed
  then have "nodes_agree m rt = nodes_agree m' rt"
    unfolding nodes_agree_def list_all_length len [symmetric] by blast
  ultimately show ?thesis using assms(2) by (simp add: agrees_def same_rate_def)
qed

lemma agrees_bump [simp]: "agrees (bump m) rt = agrees m rt"
  by (rule agrees_view) simp_all

lemma agrees_recompute [simp]: "agrees m (recompute_combined rt) = agrees m rt"
proof -
  have "slot_agrees n (rt_slots (recompute_combined rt) s) = slot_agrees n (rt_slots rt s)" for n s
    by (rule slot_agrees_cong) simp_all
  then show ?thesis by (simp add: agrees_def same_rate_def nodes_agree_def)
qed

lemma fading_recompute [simp]: "fading_at_most k (recompute_combined rt) = fading_at_most k rt"
  by (simp add: fading_at_most_def)

section \<open>One slot and its node\<close>

lemma rt_ok_update:
  "rt_ok rt \<Longrightarrow> s \<in> set (rt_order rt) \<Longrightarrow> ns_active (f (rt_slots rt s)) \<Longrightarrow> rt_ok (update_slot s f rt)"
  by (auto simp: rt_ok_def)

lemma agrees_update:
  assumes ag: "agrees m rt" and i: "idx < length (cm_nodes m)" and s: "s = nm_slot (cm_nodes m ! idx)"
    and n: "nm_slot n = s" and sa: "slot_agrees n (f (rt_slots rt s))"
  shows "agrees (update_node idx (\<lambda>_. n) m) (update_slot s f rt)"
proof -
  let ?ns = "(cm_nodes m)[idx := n]"
  have order: "rt_order rt = map nm_slot (cm_nodes m)" and ok: "rt_ok rt" using ag by (simp_all add: agrees_def)
  have d: "distinct (map nm_slot (cm_nodes m))" using ok order by (simp add: rt_ok_def)
  have sl: "map nm_slot ?ns = map nm_slot (cm_nodes m)"
    using i n s by (simp add: map_update list_update_same_conv)
  have so: "s \<in> set (rt_order rt)" using order s i by simp
  have act: "ns_active (f (rt_slots rt s))" using sa by (simp add: slot_agrees_def)
  have "slot_agrees (?ns ! j) (rt_slots (update_slot s f rt) (nm_slot (?ns ! j)))"
    if j: "j < length (cm_nodes m)" for j
  proof (cases "j = idx")
    case True
    then show ?thesis using i n sa by simp
  next
    case False
    then have "nm_slot (cm_nodes m ! j) \<noteq> s"
      using d i j s by (simp add: distinct_conv_nth)
    then show ?thesis
      using False agreesD(2) [OF ag nth_mem [OF j]] by simp
  qed
  then have "nodes_agree (update_node idx (\<lambda>_. n) m) (update_slot s f rt)"
    by (simp add: nodes_agree_def update_node_def list_all_length)
  then show ?thesis
    using ag sl rt_ok_update [of rt s f] ok so act by (simp add: agrees_def same_rate_def update_node_def)
qed

lemma fading_update:
  assumes "fading_at_most k rt" "remaining (ns_mix (f (rt_slots rt s))) \<le> k"
  shows "fading_at_most k (update_slot s f rt)"
  using assms by (simp add: fading_at_most_def)

lemma fading_mono: "fading_at_most k rt \<Longrightarrow> k \<le> l \<Longrightarrow> fading_at_most l rt"
  by (force simp: fading_at_most_def)

lemma in_stepD:
  assumes "in_step m rt" "idx < length (cm_nodes m)"
  shows "slot_agrees (cm_nodes m ! idx) (rt_slots rt (nm_slot (cm_nodes m ! idx)))"
    "nm_slot (cm_nodes m ! idx) \<in> set (rt_order rt)" "nm_slot (cm_nodes m ! idx) < MAX_NODES"
    "ns_active (rt_slots rt (nm_slot (cm_nodes m ! idx)))"
    "remaining (ns_mix (rt_slots rt (nm_slot (cm_nodes m ! idx)))) = 0"
  using assms agreesD [of m rt "cm_nodes m ! idx"]
  by (auto simp: in_step_def slot_agrees_def fading_at_most_def)

lemma bypass_command:
  assumes ag: "agrees m rt" and fd: "fading_at_most (crossfade_frames rt) rt" and i: "idx < length (cm_nodes m)"
  defines "s \<equiv> nm_slot (cm_nodes m ! idx)"
  shows "agrees (update_node idx (\<lambda>n. n\<lparr>nm_bypassed := b,
            nm_auto_bypassed := (if b then nm_auto_bypassed n else False)\<rparr>) m) (apply_set_bypass s b rt) \<and>
    fading_at_most (crossfade_frames rt) (apply_set_bypass s b rt)"
proof -
  let ?n = "(cm_nodes m ! idx)\<lparr>nm_bypassed := b,
            nm_auto_bypassed := (if b then nm_auto_bypassed (cm_nodes m ! idx) else False)\<rparr>"
  let ?f = "\<lambda>x. x\<lparr>ns_bypassed := b, ns_auto_bypassed := (if b then ns_auto_bypassed x else False),
             ns_mix := cf_set_target (\<not> b) (crossfade_frames rt) (ns_mix x)\<rparr>"
  note d = agreesD [OF ag nth_mem [OF i], folded s_def]
  have c: "apply_set_bypass s b rt = recompute_combined (update_slot s ?f rt)"
    using d by (simp add: apply_set_bypass_def slot_agrees_def)
  have "target_of (?f (rt_slots rt s)) = target_of (rt_slots rt s)" by (simp add: target_of_def [abs_def])
  then have sa: "slot_agrees ?n (?f (rt_slots rt s))"
    using d(2) by (simp add: slot_agrees_def targets_agree_def)
  have "agrees (update_node idx (\<lambda>_. ?n) m) (update_slot s ?f rt)"
    using agrees_update [of m rt idx s ?n ?f] ag i sa by (simp add: s_def)
  moreover have "fading_at_most (crossfade_frames rt) (update_slot s ?f rt)"
    by (rule fading_update [OF fd]) (simp add: remaining_set_target)
  ultimately show ?thesis by (simp add: c update_node_def)
qed

lemma param_ids_less: "d \<in> set (params kind) \<Longrightarrow> pd_id d < MAX_PARAMS"
  by (cases kind) (auto simp: table_defs MAX_PARAMS_def upt_rec)

lemma target_set [simp]: "sm_target (smoothed_set_target v k p) = v"
  by (simp add: smoothed_set_target_def Let_def)

lemma targets_agree_update:
  assumes t: "targets_agree s kind vs" and p: "param_index kind p = Some pos"
    and v: "target_of s' = (target_of s)(p := w)" "\<bar>w - v\<bar> \<le> EPSILON"
  shows "targets_agree s' kind (vs[pos := v])"
proof -
  have pos: "pos < length (params kind)" "pd_id (params kind ! pos) = p"
    using param_index_SomeD [OF p] by simp_all
  have len: "length (params kind) = length vs"
    using t by (auto simp: targets_agree_def dest: list_all2_lengthD)
  have "\<bar>target_of s' (pd_id (params kind ! k)) - vs[pos := v] ! k\<bar> \<le> EPSILON" if k: "k < length (params kind)" for k
  proof (cases "k = pos")
    case True
    then show ?thesis using pos len v by simp
  next
    case False
    then have "pd_id (params kind ! k) \<noteq> p"
      using distinct_param_ids [of kind] pos k by (auto simp: distinct_conv_nth)
    then show ?thesis
      using t k False v by (simp add: targets_agree_def list_all2_conv_all_nth)
  qed
  then show ?thesis using len by (simp add: targets_agree_def list_all2_conv_all_nth)
qed

lemma param_command:
  assumes ag: "agrees m rt" and i: "idx < length (cm_nodes m)"
    and p: "param_index (nm_kind (cm_nodes m ! idx)) p = Some pos"
    and c: "\<bar>clamp (nm_kind (cm_nodes m ! idx)) p (Finite v) (cm_source_rate m) - v\<bar> \<le> EPSILON"
  defines "s \<equiv> nm_slot (cm_nodes m ! idx)"
  shows "agrees (update_node idx (\<lambda>n. n\<lparr>nm_params := (nm_params n)[pos := v]\<rparr>) m) (apply_set_param s p v rt) \<and>
    (fading_at_most k rt \<longrightarrow> fading_at_most k (apply_set_param s p v rt)) \<and>
    rt_source_rate (apply_set_param s p v rt) = rt_source_rate rt"
proof -
  let ?n = "(cm_nodes m ! idx)\<lparr>nm_params := (nm_params (cm_nodes m ! idx))[pos := v]\<rparr>"
  note d = agreesD [OF ag nth_mem [OF i], folded s_def]
  have kind: "ns_kind (rt_slots rt s) = nm_kind (cm_nodes m ! idx)" and act: "ns_active (rt_slots rt s)"
    and ta: "targets_agree (rt_slots rt s) (nm_kind (cm_nodes m ! idx)) (nm_params (cm_nodes m ! idx))"
    using d(2) by (simp_all add: slot_agrees_def)
  have rate: "rt_source_rate rt = cm_source_rate m" using ag by (simp add: agrees_def same_rate_def)
  have pos: "pos < length (params (nm_kind (cm_nodes m ! idx)))" "pd_id (params (nm_kind (cm_nodes m ! idx)) ! pos) = p"
    using param_index_SomeD [OF p] by simp_all
  have less: "p < MAX_PARAMS" using param_ids_less nth_mem pos by metis
  let ?ramp = "if is_continuous (nm_kind (cm_nodes m ! idx)) p then ramp_frames rt else 0"
  let ?w = "clamp (nm_kind (cm_nodes m ! idx)) p (Finite v) (cm_source_rate m)"
  let ?f = "\<lambda>x. x\<lparr>ns_params := (ns_params x)(p := smoothed_set_target ?w ?ramp (ns_params x p))\<rparr>"
  have cmd: "apply_set_param s p v rt = update_slot s ?f rt"
    using d(3) act kind rate p less by (simp add: apply_set_param_def Let_def find_param_index)
  have "target_of (?f (rt_slots rt s)) = (target_of (rt_slots rt s))(p := ?w)"
    by (rule ext) (simp add: target_of_def)
  then have sa: "slot_agrees ?n (?f (rt_slots rt s))"
    using d(2) targets_agree_update [OF ta p _ c] by (simp add: slot_agrees_def)
  have "agrees (update_node idx (\<lambda>_. ?n) m) (update_slot s ?f rt)"
    using agrees_update [of m rt idx s ?n ?f] ag i sa by (simp add: s_def)
  moreover have "fading_at_most k rt \<longrightarrow> fading_at_most k (update_slot s ?f rt)"
    by (simp add: fading_at_most_def)
  ultimately show ?thesis by (simp add: cmd update_node_def)
qed

section \<open>Insertion\<close>

lemma targets_agree_default: "targets_agree (slot_activate kind ow c s) kind (map pd_default (params kind))"
proof -
  have "find_param kind (pd_id (params kind ! k)) = Some (params kind ! k)" if "k < length (params kind)" for k
    using that by (simp add: find_param_iff)
  then show ?thesis
    by (simp add: targets_agree_def list_all2_conv_all_nth target_of_def slot_activate_def smoothed_new_def
        EPSILON_def)
qed

lemma insert_slot:
  assumes ag: "agrees m rt" and fd: "fading_at_most (crossfade_frames rt) rt"
    and s: "s < MAX_NODES" "s \<notin> nm_slot ` set (cm_nodes m)" and l: "length (cm_nodes m) < MAX_NODES"
    and p: "p \<le> length (cm_nodes m)"
    and n: "nm_slot node = s" "nm_kind node = kind" "nm_owner node = ow"
      "nm_params node = map pd_default (params kind)" "\<not> nm_bypassed node"
  shows "agrees (m\<lparr>cm_nodes := insert_nth p node (cm_nodes m)\<rparr>) (apply_insert s p kind ow rt) \<and>
    fading_at_most (crossfade_frames rt) (apply_insert s p kind ow rt) \<and>
    rt_source_rate (apply_insert s p kind ow rt) = rt_source_rate rt"
proof -
  let ?m = "m\<lparr>cm_nodes := insert_nth p node (cm_nodes m)\<rparr>"
  have order: "rt_order rt = map nm_slot (cm_nodes m)" and rok: "rt_ok rt"
    using ag by (simp_all add: agrees_def)
  have free: "free_slot (rt_slots rt s)" using rok order s by (simp add: rt_ok_def)
  let ?f = "slot_activate kind ow (crossfade_frames rt)"
  let ?rt = "(update_slot s ?f rt)\<lparr>rt_order := insert_nth p s (rt_order rt)\<rparr>"
  have cmd: "apply_insert s p kind ow rt = recompute_combined ?rt"
    using s(1) free order l p by (simp add: apply_insert_def free_slot_def Let_def)
  have act: "ns_active (?f (rt_slots rt s))" "ns_kind (?f (rt_slots rt s)) = kind" "ns_owner (?f (rt_slots rt s)) = ow"
    "\<not> ns_bypassed (?f (rt_slots rt s))" "ns_pending_move (?f (rt_slots rt s)) = None"
    "\<not> ns_removing (?f (rt_slots rt s))" "cf_to_wet (ns_mix (?f (rt_slots rt s)))"
    "remaining (ns_mix (?f (rt_slots rt s))) \<le> crossfade_frames rt"
    by (simp_all add: slot_activate_def remaining_set_target)
  have sa: "slot_agrees node (?f (rt_slots rt s))"
    using act n targets_agree_default by (simp add: slot_agrees_def)
  have "slot_agrees k (rt_slots ?rt (nm_slot k))" if k: "k \<in> set (cm_nodes ?m)" for k
  proof (cases "k = node")
    case True
    then show ?thesis using sa n(1) by simp
  next
    case False
    then have k: "k \<in> set (cm_nodes m)" using k by (simp add: set_insert_nth)
    then have "nm_slot k \<noteq> s" using s(2) by auto
    then show ?thesis using agreesD(2) [OF ag k] by simp
  qed
  then have na: "nodes_agree ?m ?rt" by (simp add: nodes_agree_def list_all_iff)
  have so: "s \<notin> set (rt_order rt)" using s(2) order by simp
  have "rt_ok ?rt"
    using rok s act(1) so by (auto simp: rt_ok_def distinct_insert_nth set_insert_nth)
  moreover have "rt_order ?rt = map nm_slot (cm_nodes ?m)"
    using order n(1) by (simp add: map_insert_nth)
  moreover have "same_rate ?m ?rt" using ag by (simp add: agrees_def same_rate_def)
  ultimately have "agrees ?m ?rt" using na by (simp add: agrees_def)
  moreover have "fading_at_most (crossfade_frames rt) ?rt"
    using fd act(8) by (auto simp: fading_at_most_def set_insert_nth)
  ultimately show ?thesis by (simp add: cmd)
qed

lemma insert_command:
  assumes ok: "chain_ok m" and ag: "agrees m rt" and fd: "fading_at_most (crossfade_frames rt) rt"
    and a: "add_at kind ow index m = Inr ((i, cmds), m')"
  shows "agrees m' (apply_commands cmds rt) \<and> fading_at_most (crossfade_frames rt) (apply_commands cmds rt)"
  using a
proof (cases rule: add_at_cases)
  case (1 s node)
  let ?pos = "min index (length (cm_nodes m))"
  have s: "s < MAX_NODES" "s \<notin> nm_slot ` set (cm_nodes m)"
    using 1(2) ok free_bits_less by (auto simp: chain_ok_def MAX_NODES_def)
  have "agrees (m\<lparr>cm_nodes := insert_nth ?pos node (cm_nodes m)\<rparr>) (apply_insert s ?pos kind ow rt) \<and>
    fading_at_most (crossfade_frames rt) (apply_insert s ?pos kind ow rt) \<and>
    rt_source_rate (apply_insert s ?pos kind ow rt) = rt_source_rate rt"
    by (rule insert_slot [OF ag fd s 1(1) _ 1(6-10)]) simp
  moreover have "agrees m' rt' = agrees (m\<lparr>cm_nodes := insert_nth ?pos node (cm_nodes m)\<rparr>) rt'" for rt'
    by (rule agrees_view) (simp_all add: 1(14))
  ultimately show ?thesis by (simp add: 1(13))
qed

section \<open>Removal and moves\<close>

lemma filter_remove_nth:
  "distinct xs \<Longrightarrow> i < length xs \<Longrightarrow> filter (\<lambda>x. x \<noteq> xs ! i) xs = remove_nth i xs"
proof -
  assume d: "distinct xs" and i: "i < length xs"
  have x: "xs = take i xs @ xs ! i # drop (Suc i) xs" using i by (rule id_take_nth_drop)
  with d have "distinct (take i xs @ xs ! i # drop (Suc i) xs)" by simp
  then have n: "xs ! i \<notin> set (take i xs)" "xs ! i \<notin> set (drop (Suc i) xs)" by auto
  have f: "filter (\<lambda>x. x \<noteq> y) ys = ys" if "y \<notin> set ys" for y :: 'a and ys
    using that by (induction ys) auto
  have "filter (\<lambda>x. x \<noteq> xs ! i) (take i xs @ xs ! i # drop (Suc i) xs) = remove_nth i xs"
    using f [OF n(1)] f [OF n(2)] by (simp add: remove_nth_def)
  with x show ?thesis by simp
qed

lemma remove_command:
  assumes ok: "chain_ok m" and st: "in_step m rt" and r: "chain_remove i m = Inr (cmds, m')"
    and w: "\<And>idx. find_node i m = Inr idx \<Longrightarrow> cf_to_wet (ns_mix (rt_slots rt (nm_slot (cm_nodes m ! idx))))"
  shows "\<exists>s. departing m' s (crossfade_frames rt) (apply_commands cmds rt)"
  using r
proof (cases rule: remove_cases)
  case (1 idx)
  let ?s = "nm_slot (cm_nodes m ! idx)"
  let ?f = "\<lambda>x. x\<lparr>ns_removing := True, ns_mix := cf_set_target False (crossfade_frames rt) (ns_mix x)\<rparr>"
  note d = in_stepD [OF st 1(2)]
  have order: "rt_order rt = map nm_slot (cm_nodes m)" and rok: "rt_ok rt" and rate: "same_rate m rt"
    using st by (simp_all add: in_step_def agrees_def)
  have cmd: "apply_commands cmds rt = update_slot ?s ?f rt"
    using 1(4) d(3,4) by (simp add: apply_remove_def)
  have dist: "distinct (map nm_slot (cm_nodes m))" using ok by (simp add: chain_ok_def)
  have nodes: "cm_nodes m' = remove_nth idx (cm_nodes m)" using 1(5) by simp
  have others: "filter (\<lambda>t. t \<noteq> ?s) (rt_order rt) = map nm_slot (cm_nodes m')"
    using filter_remove_nth [OF dist, of idx] 1(2) by (simp add: order nodes map_remove_nth)
  have "slot_agrees n (rt_slots (update_slot ?s ?f rt) (nm_slot n))" if n: "n \<in> set (cm_nodes m')" for n
  proof -
    have "nm_slot n \<in> set (filter (\<lambda>t. t \<noteq> ?s) (rt_order rt))" using n others by simp
    then have "nm_slot n \<noteq> ?s" by simp
    moreover have "n \<in> set (cm_nodes m)" using n nodes set_remove_nth_subset by fastforce
    ultimately show ?thesis using agreesD(2) [of m rt n] st by (simp add: in_step_def)
  qed
  then have "nodes_agree m' (update_slot ?s ?f rt)" by (simp add: nodes_agree_def list_all_iff)
  moreover have "rt_ok (update_slot ?s ?f rt)" using rt_ok_update [of rt ?s ?f] rok d(2,4) by simp
  moreover have "same_rate m' (update_slot ?s ?f rt)" using rate 1(5) by (simp add: same_rate_def)
  moreover have "1 \<le> crossfade_frames rt" using rate crossfade_pos by (simp add: same_rate_def)
  moreover have "ns_pending_move (rt_slots rt ?s) = None" using d(1) by (simp add: slot_agrees_def)
  ultimately have "departing m' ?s (crossfade_frames rt) (update_slot ?s ?f rt)"
    using d(2) others w [OF 1(1)] st
    by (simp add: departing_def remaining_set_target in_step_def fading_at_most_def)
  then show ?thesis using cmd by auto
qed

lemma move_command:
  assumes ok: "chain_ok m" and st: "in_step m rt" and r: "move_to i index m = Inr (cmds, m')"
  shows "in_step m' (apply_commands cmds rt) \<or>
    (\<exists>s t. moving m' s t (crossfade_frames rt) (apply_commands cmds rt))"
  using r
proof (cases rule: move_to_cases)
  case stays
  then show ?thesis using st by simp
next
  case (moves cur t)
  let ?s = "nm_slot (cm_nodes m ! cur)"
  have cur: "cur < length (cm_nodes m)" using find_node_Inr [OF moves(1)] by simp
  then have t: "t < length (cm_nodes m)" using moves(2) by linarith
  let ?f = "\<lambda>x. x\<lparr>ns_pending_move := Some t, ns_mix := cf_set_target False (crossfade_frames rt) (ns_mix x)\<rparr>"
  note d = in_stepD [OF st cur]
  have order: "rt_order rt = map nm_slot (cm_nodes m)" and rok: "rt_ok rt" and rate: "same_rate m rt"
    using st by (simp_all add: in_step_def agrees_def)
  have dist: "distinct (map nm_slot (cm_nodes m))" using ok by (simp add: chain_ok_def)
  have pos: "position (\<lambda>j. j = ?s) (rt_order rt) = Some cur"
    using position_key_nth [of "\<lambda>x. x" "map nm_slot (cm_nodes m)" cur] dist cur
    by (simp add: order)
  have tm: "min t (length (rt_order rt) - 1) = t" using t order by simp
  have cmd: "apply_commands cmds rt = update_slot ?s ?f rt"
    using moves(3,4) d(3,4) pos tm by (simp add: apply_move_def Let_def)
  have nodes: "cm_nodes m' = insert_nth t (cm_nodes m ! cur) (remove_nth cur (cm_nodes m))"
    using moves(5) by simp
  have set_nodes: "set (cm_nodes m') = set (cm_nodes m)"
    unfolding nodes using mset_move [OF cur] by (rule mset_eq_setD)
  have ex: "\<exists>cur. position (\<lambda>j. j = ?s) (rt_order rt) = Some cur \<and> t \<noteq> cur \<and> t < length (rt_order rt) \<and>
        insert_nth t ?s (remove_nth cur (rt_order rt)) = map nm_slot (cm_nodes m')"
    using pos moves(3) t by (auto simp: order nodes map_insert_nth map_remove_nth)
  have na: "if nm_slot n = ?s
       then slot_agrees n ((rt_slots (update_slot ?s ?f rt) ?s)\<lparr>ns_pending_move := None, ns_mix := crossfade_settled True\<rparr>)
       else slot_agrees n (rt_slots (update_slot ?s ?f rt) (nm_slot n))" if n: "n \<in> set (cm_nodes m')" for n
  proof (cases "nm_slot n = ?s")
    case True
    have n1: "n \<in> set (cm_nodes m)" using n set_nodes by simp
    have "slot_agrees n (rt_slots rt ?s)" using agreesD(2) [of m rt n] st n1 True by (simp add: in_step_def)
    moreover have "target_of ((?f (rt_slots rt ?s))\<lparr>ns_pending_move := None, ns_mix := crossfade_settled True\<rparr>) =
        target_of (rt_slots rt ?s)" by (simp add: target_of_def [abs_def])
    ultimately show ?thesis using True by (simp add: slot_agrees_def targets_agree_def)
  next
    case False
    then show ?thesis using agreesD(2) [of m rt n] st n set_nodes by (simp add: in_step_def)
  qed
  have rest: "\<forall>j\<in>set (rt_order rt) - {?s}. remaining (ns_mix (rt_slots (update_slot ?s ?f rt) j)) = 0"
    using st by (simp add: in_step_def fading_at_most_def)
  have self: "ns_pending_move (rt_slots (update_slot ?s ?f rt) ?s) = Some t"
    "remaining (ns_mix (rt_slots (update_slot ?s ?f rt) ?s)) \<le> crossfade_frames rt"
    by (simp_all add: remaining_set_target)
  have "rt_ok (update_slot ?s ?f rt)" using rt_ok_update [of rt ?s ?f] rok d(2,4) by simp
  moreover have "same_rate m' (update_slot ?s ?f rt)" using rate moves(5) by (simp add: same_rate_def)
  ultimately have "moving m' ?s t (crossfade_frames rt) (update_slot ?s ?f rt)"
    unfolding moving_def update_slot_fields(1) list_all_iff
    using d(2) ex na rest self by blast
  then show ?thesis unfolding cmd by blast
qed

end
