(* ===== verification/Chain_Lockstep.thy ===== *)
theory Chain_Lockstep
  imports Chain_Commands
begin

text \<open>
  Every operation of the controller's chain, followed by enough renders, leaves the engine in step:
  the operations on parameters, then all operations together, the rebuild by \<open>replay\<close>, and the
  machine of the two chains in lock step.
\<close>

section \<open>Parameters\<close>

lemma mode_clamp:
  assumes "has_mode kind"
  shows "clamp kind (mode_pos kind) (Finite (mode_value md)) r = mode_value md"
proof -
  have "pd_shape (params kind ! mode_pos kind) = Discrete 2"
    using assms by (auto simp: has_mode_def mode_pos_def table_defs eval_nat_numeral)
  moreover have "in_shape (Discrete 2) (mode_value md)" by (cases md) auto
  ultimately show ?thesis
    using clamp_index [OF param_index_mode [OF assms], of "Finite (mode_value md)" r]
      shape_clamp_discrete [of 2 "mode_value md" r] by simp
qed

lemma clamp_again:
  assumes p: "param_index kind p = Some pos" and v: "v \<noteq> NaN"
  shows "clamp kind p (Finite (clamp kind p v r)) r = clamp kind p v r"
  using v by (simp add: clamp_index [OF p] shape_clamp_idem)

lemma view_update:
  "idx < length (cm_nodes m) \<Longrightarrow> node_view (f (cm_nodes m ! idx)) = node_view (g (cm_nodes m ! idx)) \<Longrightarrow>
   agrees (update_node idx f m) rt = agrees (update_node idx g m) rt"
  by (rule agrees_view) (simp_all add: update_node_def map_update)

lemma eps_zero: "\<bar>v - v\<bar> \<le> EPSILON"
  by (simp add: EPSILON_def)

lemma mode_command:
  assumes ag: "agrees m rt" and i: "idx < length (cm_nodes m)" and h: "has_mode (nm_kind (cm_nodes m ! idx))"
  defines "k \<equiv> nm_kind (cm_nodes m ! idx)" and "s \<equiv> nm_slot (cm_nodes m ! idx)"
  shows "agrees (update_node idx (\<lambda>n. n\<lparr>nm_mode_state := st, nm_params := (nm_params n)[mode_pos k := mode_value md]\<rparr>) m)
      (apply_set_param s (mode_pos k) (mode_value md) rt) \<and>
    (fading_at_most j rt \<longrightarrow> fading_at_most j (apply_set_param s (mode_pos k) (mode_value md) rt))"
proof -
  have c: "\<bar>clamp (nm_kind (cm_nodes m ! idx)) (mode_pos k) (Finite (mode_value md)) (cm_source_rate m) - mode_value md\<bar> \<le> EPSILON"
    using mode_clamp [OF h] by (simp add: k_def EPSILON_def)
  note pc = param_command [OF ag i param_index_mode [OF h] c [unfolded k_def]]
  show ?thesis
    using pc view_update [OF i, of "\<lambda>n. n\<lparr>nm_mode_state := st, nm_params := (nm_params n)[mode_pos k := mode_value md]\<rparr>"
        "\<lambda>n. n\<lparr>nm_params := (nm_params n)[mode_pos k := mode_value md]\<rparr>"]
    by (simp add: node_view_def s_def k_def)
qed

lemma set_mode_command:
  assumes st: "in_step m rt" and r: "set_mode i mode m = Inr (cmds, m')"
  shows "in_step m' (apply_commands cmds rt)"
  using r
proof (cases rule: set_mode_cases)
  case (1 idx old)
  then have i: "idx < length (cm_nodes m)" using find_node_Inr by blast
  have ag: "agrees m rt" and fd: "fading_at_most 0 rt" using st by (simp_all add: in_step_def)
  note mc = mode_command [OF ag i 1(3), where st = "Some (mode_after_user_set mode)" and md = mode and j = 0]
  show ?thesis
    using mc fd by (auto simp: in_step_def 1(4,5) Let_def)
qed

lemma set_param_command:
  assumes st: "in_step m rt" and v: "v \<noteq> NaN" and r: "set_param i p v m = Inr ((x, cmds), m')"
  shows "in_step m' (apply_commands cmds rt)"
  using r
proof (cases rule: set_param_cases)
  case (mode idx)
  then show ?thesis using set_mode_command [OF st] by blast
next
  case (plain idx pos n)
  then have i: "idx < length (cm_nodes m)" using find_node_Inr by blast
  have ag: "agrees m rt" and fd: "fading_at_most 0 rt" using st by (simp_all add: in_step_def)
  have "\<bar>clamp (nm_kind (cm_nodes m ! idx)) p (Finite x) (cm_source_rate m) - x\<bar> \<le> EPSILON"
    using clamp_again [OF plain(3) v] plain(4) by (simp add: EPSILON_def)
  note pc = param_command [OF ag i plain(3) this, of 0]
  have m1: "update_node idx (\<lambda>_. n) m = update_node idx (\<lambda>n. n\<lparr>nm_params := (nm_params n)[pos := x]\<rparr>) m"
    by (simp add: update_node_def plain(5))
  have slot: "nm_slot n = nm_slot (cm_nodes m ! idx)" using plain(5) by simp
  have "in_step (update_node idx (\<lambda>_. n) m) (apply_commands cmds rt)"
    using pc fd by (simp add: in_step_def plain(7) m1 slot)
  then show ?thesis by (auto simp: plain(8) Let_def in_step_def)
next
  case (switched idx pos n n2 cmds2)
  then have i: "idx < length (cm_nodes m)" using find_node_Inr by blast
  have ag: "agrees m rt" and fd: "fading_at_most 0 rt" using st by (simp_all add: in_step_def)
  have "\<bar>clamp (nm_kind (cm_nodes m ! idx)) p (Finite x) (cm_source_rate m) - x\<bar> \<le> EPSILON"
    using clamp_again [OF switched(3) v] switched(4) by (simp add: EPSILON_def)
  note pc = param_command [OF ag i switched(3) this, of 0]
  let ?m1 = "update_node idx (\<lambda>n. n\<lparr>nm_params := (nm_params n)[pos := x]\<rparr>) m"
  have n1: "cm_nodes ?m1 ! idx = n" and i1: "idx < length (cm_nodes ?m1)"
    using i switched(5) by (simp_all add: update_node_def)
  have slot: "nm_slot n = nm_slot (cm_nodes m ! idx)" using switched(5) by simp
  from switched(6) show ?thesis
  proof (cases rule: auto_switch_Some)
    case (1 old st2)
    have h: "has_mode (nm_kind (cm_nodes ?m1 ! idx))" using 1(2) n1 by simp
    let ?rt1 = "apply_set_param (nm_slot n) p x rt"
    have ag1: "agrees ?m1 ?rt1" and fd1: "fading_at_most 0 ?rt1" using pc fd slot by simp_all
    note mc = mode_command [OF ag1 i1 h, where st = "Some st2" and md = "ms_mode st2" and j = 0, unfolded n1]
    have m2: "update_node idx (\<lambda>_. n2) m =
        update_node idx (\<lambda>k. k\<lparr>nm_mode_state := Some st2,
           nm_params := (nm_params k)[mode_pos (nm_kind n) := mode_value (ms_mode st2)]\<rparr>) ?m1"
      unfolding update_node_def 1(6) using n1 i by (simp add: update_node_def)
    show ?thesis
      using mc fd1 by (simp add: in_step_def switched(7,8) 1(7) m2)
  qed
qed

section \<open>All operations\<close>

lemma agrees_unchanged:
  "map node_view (cm_nodes m') = map node_view (cm_nodes m) \<Longrightarrow> cm_source_rate m' = cm_source_rate m \<Longrightarrow>
   in_step m rt \<Longrightarrow> in_step m' rt"
  using agrees_view [of m' m rt] by (simp add: in_step_def)

text \<open>
  The operations the controller performs on a running engine. A new source rate comes with a new
  engine, an automatic bypass comes from the engine. A parameter is not set to NaN, and what is removed
  is not faded out (a bypassed node is, unless a move has faded it in).
\<close>

definition on_engine :: "chain_op \<Rightarrow> chain_model \<Rightarrow> chain_rt \<Rightarrow> bool" where
  "on_engine op m rt =
     (case op of
        OpSetRate _ \<Rightarrow> False
      | OpAutoBypassed _ \<Rightarrow> False
      | OpSetParam _ _ v \<Rightarrow> v \<noteq> NaN
      | OpRemove i \<Rightarrow>
          (case find_node i m of
             Inl _ \<Rightarrow> True
           | Inr idx \<Rightarrow> cf_to_wet (ns_mix (rt_slots rt (nm_slot (cm_nodes m ! idx)))))
      | _ \<Rightarrow> True)"

lemma settle:
  "agrees m rt \<Longrightarrow> fading_at_most k rt \<Longrightarrow> list_all steady rs \<Longrightarrow> k \<le> length rs \<Longrightarrow> in_step m (renders rs rt)"
  by (rule agrees_renders)

lemma or_nothing_stays: "r = Inl e \<Longrightarrow> or_nothing m f r = ([], m)"
  by (simp add: or_nothing_def)

text \<open>The three ways an engine catches up: at once, by fades, or by a fade out first.\<close>

definition catches_up :: "chain_model \<Rightarrow> nat \<Rightarrow> chain_rt \<Rightarrow> bool" where
  "catches_up m c rt \<longleftrightarrow> crossfade_frames rt = c \<and>
     (agrees m rt \<and> fading_at_most c rt \<or> (\<exists>s. departing m s c rt) \<or> (\<exists>s t. moving m s t c rt))"

lemma catches_up_renders:
  assumes "catches_up m c rt" "list_all steady rs" "2 * c + 1 \<le> length rs"
  shows "in_step m (renders rs rt)"
  using assms agrees_renders [of m rt rs c] departing_renders [of m _ c rt rs] moving_renders [of m _ _ c rt rs]
  by (auto simp: catches_up_def)

lemma in_step_catches_up: "in_step m rt \<Longrightarrow> crossfade_frames rt = c \<Longrightarrow> catches_up m c rt"
  by (auto simp: in_step_def catches_up_def intro: fading_mono)

lemma apply_command_rate [simp]: "rt_source_rate (apply_command cmd rt) = rt_source_rate rt"
  by (cases cmd) (simp_all add: apply_insert_def apply_remove_def apply_move_def apply_set_bypass_def
      apply_set_param_def Let_def split: option.split)

lemma apply_commands_rate [simp]: "rt_source_rate (apply_commands cmds rt) = rt_source_rate rt"
  by (induction cmds arbitrary: rt) simp_all

lemma call_catches_up:
  assumes ok: "chain_ok m" and st: "in_step m rt" and e: "on_engine op m rt"
    and c: "chain_call op m = (cmds, m')"
  shows "catches_up m' (crossfade_frames rt) (apply_commands cmds rt)"
proof -
  have ag: "agrees m rt" and fd: "fading_at_most (crossfade_frames rt) rt"
    using st by (auto simp: in_step_def intro: fading_mono)
  have rate: "crossfade_frames (apply_commands cs rt) = crossfade_frames rt" for cs
    by (rule crossfade_rate) simp
  have same: "catches_up m (crossfade_frames rt) (apply_commands [] rt)"
    using in_step_catches_up [OF st] by simp
  have now: "catches_up m2 (crossfade_frames rt) (apply_commands cs rt)"
    if "in_step m2 (apply_commands cs rt)" for m2 cs
    using in_step_catches_up [OF that rate] .
  have fade: "catches_up m2 (crossfade_frames rt) (apply_commands cs rt)"
    if "agrees m2 (apply_commands cs rt) \<and> fading_at_most (crossfade_frames rt) (apply_commands cs rt)" for m2 cs
    using that rate by (simp add: catches_up_def)
  have moved: "catches_up m2 (crossfade_frames rt) (apply_commands cs rt)"
    if "move_to i index m = Inr (cs, m2)" for i index cs m2
    using move_command [OF ok st that] now rate by (auto simp: catches_up_def)
  have call: "catches_up m' (crossfade_frames rt) (apply_commands cmds rt)"
    if "or_nothing m f r = (cmds, m')"
      "\<And>x m2. r = Inr (x, m2) \<Longrightarrow> catches_up m2 (crossfade_frames rt) (apply_commands (f x) rt)"
    for f :: "'a \<Rightarrow> chain_command list" and r
    using that same by (cases r) (auto simp: or_nothing_def)
  show ?thesis
  proof (cases op)
    case (OpAdd kind ow)
    then show ?thesis
      using c insert_command [OF ok ag fd] fade by (auto simp: chain_add_def intro!: call)
  next
    case (OpAddAt kind ow index)
    then show ?thesis using c insert_command [OF ok ag fd] fade by (auto intro!: call)
  next
    case (OpRemove i)
    have "catches_up m2 (crossfade_frames rt) (apply_commands cs rt)"
      if r: "chain_remove i m = Inr (cs, m2)" for cs m2
    proof -
      have "\<exists>s. departing m2 s (crossfade_frames rt) (apply_commands cs rt)"
        by (rule remove_command [OF ok st r]) (use e OpRemove in \<open>simp add: on_engine_def\<close>)
      then show ?thesis using rate by (simp add: catches_up_def)
    qed
    then show ?thesis using c OpRemove by (auto intro!: call)
  next
    case (OpMoveTo i index)
    then show ?thesis using c moved by (auto intro!: call)
  next
    case (OpMoveBy i delta)
    have "catches_up m2 (crossfade_frames rt) (apply_commands cs rt)"
      if "move_by i delta m = Inr (cs, m2)" for cs m2
      using move_by_to [OF that] moved by blast
    then show ?thesis using c OpMoveBy by (auto intro!: call)
  next
    case (OpSetBypass i b)
    have "catches_up m2 (crossfade_frames rt) (apply_commands cs rt)"
      if r: "set_bypass i b m = Inr (cs, m2)" for cs m2
      using r
    proof (cases rule: set_bypass_cases)
      case (1 idx)
      then have i: "idx < length (cm_nodes m)" using find_node_Inr by blast
      show ?thesis by (rule fade) (use bypass_command [OF ag fd i, of b] 1 in simp)
    qed
    then show ?thesis using c OpSetBypass by (auto intro!: call)
  next
    case (OpSetParam i p v)
    have "catches_up m2 (crossfade_frames rt) (apply_commands cs rt)"
      if "set_param i p v m = Inr ((x, cs), m2)" for x cs m2
      using set_param_command [OF st _ that] e OpSetParam now by (simp add: on_engine_def)
    then show ?thesis using c OpSetParam by (auto intro!: call)
  next
    case (OpSetMode i mode)
    then show ?thesis using c set_mode_command [OF st] now by (auto intro!: call)
  next
    case (OpOrphan p)
    have "map node_view (cm_nodes m') = map node_view (cm_nodes m)" "cm_source_rate m' = cm_source_rate m"
      using c OpOrphan by (auto simp: orphan_owned_by_def Let_def node_view_def)
    then show ?thesis using c OpOrphan agrees_unchanged st now [of m' "[]"] by auto
  next
    case (OpReadopt p)
    have "map node_view (cm_nodes m') = map node_view (cm_nodes m)" "cm_source_rate m' = cm_source_rate m"
      using c OpReadopt by (auto simp: readopt_def Let_def node_view_def)
    then show ?thesis using c OpReadopt agrees_unchanged st now [of m' "[]"] by auto
  qed (use e in \<open>simp_all add: on_engine_def\<close>)
qed

end
