(* ===== verification/Chain_Replay.thy ===== *)
theory Chain_Replay
  imports Chain_Lockstep
begin

text \<open>
  A new engine is brought in step by the commands of \<open>replay\<close>; the engine's own bypass of the
  costliest node; and the two chains as one machine.
\<close>

section \<open>Replay\<close>

text \<open>The targets that the parameter commands of a replayed node leave.\<close>

fun replay_targets :: "node_kind \<Rightarrow> nat \<Rightarrow> param_def list \<Rightarrow> rat list \<Rightarrow> (nat \<Rightarrow> rat) \<Rightarrow> nat \<Rightarrow> rat" where
  "replay_targets kind rate (d # ds) (v # vs) t =
     replay_targets kind rate ds vs
       (if EPSILON < \<bar>v - pd_default d\<bar> then t(pd_id d := clamp kind (pd_id d) (Finite v) rate) else t)"
| "replay_targets kind rate _ _ t = t"

lemma apply_commands_append: "apply_commands (xs @ ys) rt = apply_commands ys (apply_commands xs rt)"
  by (simp add: apply_commands_def)

lemma set_param_on_slot:
  assumes "s < MAX_NODES" "ns_active (rt_slots rt s)" "d \<in> set (params (ns_kind (rt_slots rt s)))"
  shows "\<exists>P. apply_set_param s (pd_id d) v rt = update_slot s (\<lambda>x. x\<lparr>ns_params := P\<rparr>) rt \<and>
     (\<lambda>i. sm_target (P i)) =
       (target_of (rt_slots rt s))(pd_id d := clamp (ns_kind (rt_slots rt s)) (pd_id d) (Finite v) (rt_source_rate rt))"
proof -
  let ?k = "ns_kind (rt_slots rt s)"
  have f: "find_param ?k (pd_id d) = Some d" using assms(3) by (simp add: find_param_iff)
  let ?P = "(ns_params (rt_slots rt s))(pd_id d := smoothed_set_target (clamp ?k (pd_id d) (Finite v) (rt_source_rate rt))
     (if is_continuous ?k (pd_id d) then ramp_frames rt else 0) (ns_params (rt_slots rt s) (pd_id d)))"
  have "apply_set_param s (pd_id d) v rt = update_slot s (\<lambda>x. x\<lparr>ns_params := ?P\<rparr>) rt"
    using assms f param_ids_less [OF assms(3)]
    by (simp add: apply_set_param_def Let_def update_slot_def)
  moreover have "(\<lambda>i. sm_target (?P i)) = (target_of (rt_slots rt s))(pd_id d := clamp ?k (pd_id d) (Finite v) (rt_source_rate rt))"
    by (rule ext) (simp add: target_of_def)
  ultimately show ?thesis by blast
qed

lemma update_slot_twice:
  "update_slot s (\<lambda>x. x\<lparr>ns_params := P\<rparr>) (update_slot s (\<lambda>x. x\<lparr>ns_params := P0\<rparr>) rt) =
   update_slot s (\<lambda>x. x\<lparr>ns_params := P\<rparr>) rt"
  by (simp add: update_slot_def)

lemma update_slot_id: "update_slot s (\<lambda>x. x\<lparr>ns_params := ns_params (rt_slots rt s)\<rparr>) rt = rt"
proof -
  have "(rt_slots rt s)\<lparr>ns_params := ns_params (rt_slots rt s)\<rparr> = rt_slots rt s" by simp
  then show ?thesis by (simp add: update_slot_def)
qed

lemma replay_params_effect:
  "s < MAX_NODES \<Longrightarrow> ns_active (rt_slots rt s) \<Longrightarrow> set ds \<subseteq> set (params (ns_kind (rt_slots rt s))) \<Longrightarrow>
   \<exists>P. apply_commands (replay_params s ds vs) rt = update_slot s (\<lambda>x. x\<lparr>ns_params := P\<rparr>) rt \<and>
     (\<lambda>i. sm_target (P i)) =
       replay_targets (ns_kind (rt_slots rt s)) (rt_source_rate rt) ds vs (target_of (rt_slots rt s))"
proof (induction ds arbitrary: vs rt)
  case Nil
  then show ?case
    using update_slot_id by (intro exI [of _ "ns_params (rt_slots rt s)"]) (simp add: target_of_def [abs_def])
next
  case (Cons d ds)
  let ?k = "ns_kind (rt_slots rt s)"
  show ?case
  proof (cases vs)
    case Nil
    then show ?thesis
      using update_slot_id by (intro exI [of _ "ns_params (rt_slots rt s)"]) (simp add: target_of_def [abs_def])
  next
    case (Cons v ws)
    note vs = this
    show ?thesis
    proof (cases "EPSILON < \<bar>v - pd_default d\<bar>")
      case True
      obtain P0 where P0: "apply_set_param s (pd_id d) v rt = update_slot s (\<lambda>x. x\<lparr>ns_params := P0\<rparr>) rt"
          "(\<lambda>i. sm_target (P0 i)) = (target_of (rt_slots rt s))(pd_id d := clamp ?k (pd_id d) (Finite v) (rt_source_rate rt))"
        using set_param_on_slot [of s rt d v] Cons.prems by auto
      let ?rt = "update_slot s (\<lambda>x. x\<lparr>ns_params := P0\<rparr>) rt"
      have t: "target_of (rt_slots ?rt s) = (target_of (rt_slots rt s))(pd_id d := clamp ?k (pd_id d) (Finite v) (rt_source_rate rt))"
        using P0(2) by (simp add: target_of_def [abs_def])
      obtain P where "apply_commands (replay_params s ds ws) ?rt = update_slot s (\<lambda>x. x\<lparr>ns_params := P\<rparr>) ?rt"
          "(\<lambda>i. sm_target (P i)) = replay_targets ?k (rt_source_rate rt) ds ws (target_of (rt_slots ?rt s))"
        using Cons.IH [of ?rt ws] Cons.prems by auto
      then show ?thesis
        using P0(1) t True vs by (intro exI [of _ P]) (simp add: update_slot_twice)
    next
      case False
      then show ?thesis using Cons.IH [of rt ws] Cons.prems vs by simp
    qed
  qed
qed

lemma replay_targets_other:
  "i \<notin> pd_id ` set ds \<Longrightarrow> replay_targets kind rate ds vs t i = t i"
  by (induction kind rate ds vs t rule: replay_targets.induct) auto

lemma replay_targets_nth:
  "distinct (map pd_id ds) \<Longrightarrow> length vs = length ds \<Longrightarrow> k < length ds \<Longrightarrow>
   replay_targets kind rate ds vs t (pd_id (ds ! k)) =
     (if EPSILON < \<bar>vs ! k - pd_default (ds ! k)\<bar> then clamp kind (pd_id (ds ! k)) (Finite (vs ! k)) rate
      else t (pd_id (ds ! k)))"
proof (induction ds arbitrary: vs t k)
  case (Cons d ds)
  then obtain v ws where vs: "vs = v # ws" by (cases vs) auto
  show ?case
  proof (cases k)
    case 0
    have "pd_id d \<notin> pd_id ` set ds" using Cons.prems(1) by simp
    with 0 vs show ?thesis by (simp add: replay_targets_other)
  next
    case (Suc j)
    then have "ds ! j \<in> set ds" using Cons.prems(3) by simp
    then have "pd_id (ds ! j) \<noteq> pd_id d" using Cons.prems(1) by (metis distinct.simps(2) image_eqI list.simps(9) set_map)
    then show ?thesis using Suc Cons.prems vs by (simp add: Cons.IH)
  qed
qed simp

text \<open>A replayed node, with the engine agreeing with the nodes before it.\<close>

definition with_nodes :: "chain_model \<Rightarrow> node_model list \<Rightarrow> chain_model" where
  "with_nodes m ns = m\<lparr>cm_nodes := ns\<rparr>"

lemma insert_nth_end: "insert_nth (length xs) x xs = xs @ [x]"
  by (simp add: insert_nth_def)

lemma default_target: "d \<in> set (params kind) \<Longrightarrow> target_of (slot_activate kind ow c s) (pd_id d) = pd_default d"
  using find_param_iff [of kind "pd_id d" d]
  by (simp add: target_of_def slot_activate_def smoothed_new_def)

lemma replayed_targets:
  assumes n: "node_ok (rt_source_rate rt) n"
    and t: "(\<lambda>i. sm_target (P i)) =
        replay_targets (nm_kind n) (rt_source_rate rt) (params (nm_kind n)) (nm_params n) t0"
    and t0: "\<And>d. d \<in> set (params (nm_kind n)) \<Longrightarrow> t0 (pd_id d) = pd_default d"
  shows "targets_agree (x\<lparr>ns_params := P\<rparr>) (nm_kind n) (nm_params n)"
proof -
  let ?ds = "params (nm_kind n)" and ?vs = "nm_params n"
  have len: "length ?vs = length ?ds" using n by (rule node_params_length)
  have "\<bar>sm_target (P (pd_id (?ds ! k))) - ?vs ! k\<bar> \<le> EPSILON" if k: "k < length ?ds" for k
  proof -
    have d: "?ds ! k \<in> set ?ds" using k by simp
    have v: "value_ok (rt_source_rate rt) (?ds ! k) (?vs ! k)"
      using n k by (simp add: node_ok_def list_all2_conv_all_nth)
    have "sm_target (P (pd_id (?ds ! k))) =
      replay_targets (nm_kind n) (rt_source_rate rt) ?ds ?vs t0 (pd_id (?ds ! k))"
      using fun_cong [OF t] by simp
    also have "\<dots> = (if EPSILON < \<bar>?vs ! k - pd_default (?ds ! k)\<bar>
        then shape_clamp (pd_shape (?ds ! k)) (Finite (?vs ! k)) (rt_source_rate rt) else pd_default (?ds ! k))"
      by (simp add: replay_targets_nth [OF distinct_param_ids len k] clamp_def_of [OF d] t0 [OF d])
    finally show ?thesis using v by (auto simp: value_ok_def abs_minus_commute)
  qed
  then show ?thesis
    using len by (simp add: targets_agree_def list_all2_conv_all_nth target_of_def)
qed

lemma replay_node_effect:
  assumes ag: "agrees (with_nodes m ns) rt" and fd: "fading_at_most (crossfade_frames rt) rt"
    and n: "node_ok (cm_source_rate m) n" "nm_slot n < MAX_NODES" "nm_slot n \<notin> nm_slot ` set ns"
    and l: "length ns < MAX_NODES"
  shows "agrees (with_nodes m (ns @ [n])) (apply_commands (replay_node (length ns) n) rt) \<and>
    fading_at_most (crossfade_frames rt) (apply_commands (replay_node (length ns) n) rt)"
proof -
  let ?s = "nm_slot n"
  let ?n0 = "n\<lparr>nm_params := map pd_default (params (nm_kind n)), nm_bypassed := False\<rparr>"
  let ?n1 = "n\<lparr>nm_bypassed := False\<rparr>"
  let ?rt0 = "apply_insert ?s (length ns) (nm_kind n) (nm_owner n) rt"
  have rate: "rt_source_rate rt = cm_source_rate m" using ag by (simp add: agrees_def same_rate_def with_nodes_def)
  have "agrees (with_nodes m ns\<lparr>cm_nodes := insert_nth (length ns) ?n0 (cm_nodes (with_nodes m ns))\<rparr>) ?rt0 \<and>
    fading_at_most (crossfade_frames rt) ?rt0 \<and> rt_source_rate ?rt0 = rt_source_rate rt"
    by (rule insert_slot [OF ag fd]) (use n l in \<open>simp_all add: with_nodes_def\<close>)
  then have a0: "agrees (with_nodes m (ns @ [?n0])) ?rt0" and f0: "fading_at_most (crossfade_frames rt) ?rt0"
    and r0: "rt_source_rate ?rt0 = rt_source_rate rt"
    by (simp_all add: with_nodes_def insert_nth_end)
  have c0: "crossfade_frames ?rt0 = crossfade_frames rt" using r0 by (rule crossfade_rate)
  have i: "length ns < length (cm_nodes (with_nodes m (ns @ [?n0])))" by (simp add: with_nodes_def)
  have nth: "cm_nodes (with_nodes m (ns @ [?n0])) ! length ns = ?n0" by (simp add: with_nodes_def)
  have sa0: "slot_agrees ?n0 (rt_slots ?rt0 ?s)"
    using agreesD(2) [OF a0, of ?n0] by (simp add: with_nodes_def)
  then have act: "ns_active (rt_slots ?rt0 ?s)" and kind: "ns_kind (rt_slots ?rt0 ?s) = nm_kind n"
    by (simp_all add: slot_agrees_def)
  obtain P where P: "apply_commands (replay_params ?s (params (nm_kind n)) (nm_params n)) ?rt0 =
        update_slot ?s (\<lambda>x. x\<lparr>ns_params := P\<rparr>) ?rt0"
      "(\<lambda>i. sm_target (P i)) = replay_targets (nm_kind n) (rt_source_rate rt) (params (nm_kind n)) (nm_params n)
         (target_of (rt_slots ?rt0 ?s))"
    using replay_params_effect [OF n(2) act, of "params (nm_kind n)" "nm_params n"] kind r0 by auto
  let ?rt1 = "update_slot ?s (\<lambda>x. x\<lparr>ns_params := P\<rparr>) ?rt0"
  have rok: "rt_ok rt" and order: "rt_order rt = map nm_slot ns"
    using ag by (simp_all add: agrees_def with_nodes_def)
  then have "free_slot (rt_slots rt ?s)" using n(3) by (simp add: rt_ok_def)
  then have "core (rt_slots ?rt0 ?s) = core (slot_activate (nm_kind n) (nm_owner n) (crossfade_frames rt) (rt_slots rt ?s))"
    using n(2) l order by (simp add: apply_insert_def free_slot_def Let_def)
  then have "target_of (rt_slots ?rt0 ?s) = target_of (slot_activate (nm_kind n) (nm_owner n) (crossfade_frames rt) (rt_slots rt ?s))"
    by (rule core_eqD(8))
  then have "target_of (rt_slots ?rt0 ?s) (pd_id d) = pd_default d" if "d \<in> set (params (nm_kind n))" for d
    using default_target [OF that] by simp
  then have "targets_agree ((rt_slots ?rt0 ?s)\<lparr>ns_params := P\<rparr>) (nm_kind n) (nm_params n)"
    using replayed_targets [OF _ P(2), of "rt_slots ?rt0 ?s"] n(1) rate by simp
  then have sa1: "slot_agrees ?n1 ((rt_slots ?rt0 ?s)\<lparr>ns_params := P\<rparr>)"
    using sa0 by (simp add: slot_agrees_def)
  have "agrees (update_node (length ns) (\<lambda>_. ?n1) (with_nodes m (ns @ [?n0]))) ?rt1"
    using agrees_update [OF a0 i, of ?s ?n1 "\<lambda>x. x\<lparr>ns_params := P\<rparr>"] sa1 nth by simp
  then have a1: "agrees (with_nodes m (ns @ [?n1])) ?rt1"
    by (simp add: update_node_def with_nodes_def)
  have f1: "fading_at_most (crossfade_frames ?rt1) ?rt1"
    using f0 c0 by (simp add: fading_at_most_def)
  have c1: "crossfade_frames ?rt1 = crossfade_frames rt" using c0 by simp
  show ?thesis
  proof (cases "nm_bypassed n")
    case True
    have i1: "length ns < length (cm_nodes (with_nodes m (ns @ [?n1])))" by (simp add: with_nodes_def)
    have "agrees (with_nodes m (ns @ [n])) rt' =
      agrees (update_node (length ns) (\<lambda>n. n\<lparr>nm_bypassed := True, nm_auto_bypassed :=
         (if True then nm_auto_bypassed n else False)\<rparr>) (with_nodes m (ns @ [?n1]))) rt'" for rt'
      by (rule agrees_view) (use True in \<open>simp_all add: with_nodes_def update_node_def node_view_def\<close>)
    then show ?thesis
      using bypass_command [OF a1 f1 i1, of True] P(1) c1 True
      by (simp add: replay_node_def apply_commands_append with_nodes_def)
  next
    case False
    then have n1: "?n1 = n" by simp
    show ?thesis
      using a1 [unfolded n1] f1 c1 P(1) False by (simp add: replay_node_def apply_commands_append)
  qed
qed

lemma replay_from:
  assumes "agrees (with_nodes m ns) rt" "fading_at_most (crossfade_frames rt) rt"
    "list_all (node_ok (cm_source_rate m)) ks" "list_all (\<lambda>n. nm_slot n < MAX_NODES) ks"
    "distinct (map nm_slot (ns @ ks))" "length ns + length ks \<le> MAX_NODES"
  shows "agrees (with_nodes m (ns @ ks)) (apply_commands (concat (map (\<lambda>(p, n). replay_node p n) (enumerate (length ns) ks))) rt) \<and>
    fading_at_most (crossfade_frames rt) (apply_commands (concat (map (\<lambda>(p, n). replay_node p n) (enumerate (length ns) ks))) rt)"
  using assms
proof (induction ks arbitrary: ns rt)
  case (Cons k ks)
  let ?rt = "apply_commands (replay_node (length ns) k) rt"
  have step: "agrees (with_nodes m (ns @ [k])) ?rt \<and> fading_at_most (crossfade_frames rt) ?rt"
    by (rule replay_node_effect) (use Cons.prems in auto)
  have c: "crossfade_frames ?rt = crossfade_frames rt" by (rule crossfade_rate) simp
  show ?case
    using Cons.IH [of "ns @ [k]" ?rt] Cons.prems step c by (simp add: apply_commands_append)
qed simp

lemma slots_le_16:
  assumes "chain_ok m"
  shows "length (cm_nodes m) \<le> MAX_NODES"
proof -
  have "set (map nm_slot (cm_nodes m)) \<subseteq> {..<16}" using assms by (auto simp: chain_ok_def list_all_iff)
  then have "card (set (map nm_slot (cm_nodes m))) \<le> card {..<16::nat}" by (rule card_mono [rotated]) simp
  moreover have "card (set (map nm_slot (cm_nodes m))) = length (map nm_slot (cm_nodes m))"
    using assms by (intro distinct_card) (simp add: chain_ok_def)
  ultimately show ?thesis by (simp add: MAX_NODES_def)
qed

lemma replay_agrees:
  assumes ok: "chain_ok m" and r: "1 \<le> cm_source_rate m"
  shows "agrees m (apply_commands (chain_replay m) (chain_rt_new (cm_source_rate m))) \<and>
    fading_at_most (crossfade_frames (chain_rt_new (cm_source_rate m)))
      (apply_commands (chain_replay m) (chain_rt_new (cm_source_rate m)))"
proof -
  let ?rt = "chain_rt_new (cm_source_rate m)"
  have "agrees (with_nodes m []) ?rt"
    using rt_new_ok [of "cm_source_rate m"] r
    by (simp add: agrees_def with_nodes_def same_rate_def nodes_agree_def) (simp add: chain_rt_new_def)
  moreover have "fading_at_most (crossfade_frames ?rt) ?rt" by (simp add: fading_at_most_def chain_rt_new_def)
  moreover have "with_nodes m ([] @ cm_nodes m) = m" by (simp add: with_nodes_def)
  ultimately show ?thesis
    using replay_from [of m "[]" ?rt "cm_nodes m"] ok slots_le_16 [OF ok]
    by (simp add: chain_replay_def chain_ok_def MAX_NODES_def)
qed

section \<open>The engine's own bypass\<close>

lemma costliest_None: "costliest c xs = None \<longleftrightarrow> xs = []"
  by (cases xs) (auto split: option.split)

lemma costliest_Some: "costliest c xs = Some y \<Longrightarrow> y \<in> set xs \<and> (\<forall>x\<in>set xs. c x \<le> c y)"
  by (induction xs arbitrary: y) (force split: option.splits if_splits simp: costliest_None)+

text \<open>A measurement either leaves the slots alone or bypasses the costliest one.\<close>

definition same_chain :: "chain_rt \<Rightarrow> chain_rt \<Rightarrow> bool" where
  "same_chain rt rt' \<longleftrightarrow> rt_slots rt' = rt_slots rt \<and> rt_order rt' = rt_order rt \<and>
     rt_source_rate rt' = rt_source_rate rt"

lemma same_chain_agrees:
  "same_chain rt rt' \<Longrightarrow> agrees m rt' = agrees m rt \<and> fading_at_most k rt' = fading_at_most k rt \<and>
   crossfade_frames rt' = crossfade_frames rt"
  by (simp add: same_chain_def agrees_def same_rate_def nodes_agree_def rt_ok_def fading_at_most_def
      crossfade_frames_def)

lemma record_render_pct_cases:
  assumes "record_render_pct pct rt = (o1, rt')"
  obtains (quiet) "oo_auto_bypassed_slot o1 = None" "same_chain rt rt'"
      "rt_auto_bypassed_this_window rt' \<longrightarrow> rt_auto_bypassed_this_window rt"
      "rt_over_budget rt \<and> \<not> rt_over_budget rt' \<or> rt_auto_bypassed_this_window rt' = rt_auto_bypassed_this_window rt"
  | (bypasses) i rt2 where "oo_auto_bypassed_slot o1 = Some i" "oo_overload o1" "i \<in> set (rt_order rt)"
      "\<forall>j\<in>set (rt_order rt). cost_mean (ns_cost (rt_slots rt j)) \<le> cost_mean (ns_cost (rt_slots rt i))"
      "\<not> is_host (ns_owner (rt_slots rt i))" "\<not> ns_bypassed (rt_slots rt i)"
      "\<not> rt_auto_bypassed_this_window rt" "rt_auto_bypassed_this_window rt'" "rt_over_budget rt'"
      "same_chain rt2 rt'"
      "rt2 = recompute_combined (update_slot i (\<lambda>s. s\<lparr>ns_bypassed := True, ns_auto_bypassed := True,
         ns_mix := cf_set_target False (crossfade_frames rt) (ns_mix s)\<rparr>) rt)"
proof -
  define rt1 where "rt1 = (if OVERLOAD_PCT \<le> pct
            then rt\<lparr>rt_over_90_streak := rt_over_90_streak rt + 1, rt_under_90_streak := 0\<rparr>
            else rt\<lparr>rt_over_90_streak := 0,
                    rt_under_90_streak := min (rt_under_90_streak rt + 1) (2 ^ 32 - 1)\<rparr>)"
  have s1: "same_chain rt rt1" "rt_auto_bypassed_this_window rt1 = rt_auto_bypassed_this_window rt"
    "rt_over_budget rt1 = rt_over_budget rt"
    by (simp_all add: rt1_def same_chain_def)
  let ?out = "\<lparr>oo_overload = False, oo_costliest_slot = 0,
            oo_render_pct = nat \<lfloor>saturate 0 65535 (f32_round (Finite pct))\<rfloor>,
            oo_auto_bypassed_slot = None\<rparr>"
  let ?rt2 = "rt1\<lparr>rt_overload_count := rt_overload_count rt1 + 1, rt_over_budget := True\<rparr>"
  have s2: "same_chain rt ?rt2" "rt_auto_bypassed_this_window ?rt2 = rt_auto_bypassed_this_window rt"
    using s1 by (simp_all add: same_chain_def)
  note unfolded = assms [unfolded record_render_pct_def rt1_def [symmetric] Let_def]
  show thesis
  proof (cases "100 \<le> pct \<or> OVERLOAD_STREAK \<le> rt_over_90_streak rt1")
    case False
    then show ?thesis
      using unfolded s1 by (intro quiet) (auto simp: same_chain_def split: if_splits)
  next
    case True
    show ?thesis
    proof (cases "costliest_active_slot ?rt2")
      case None
      then show ?thesis
        using unfolded s2 True by (intro quiet) (auto simp: same_chain_def)
    next
      case (Some i)
      have c: "i \<in> set (rt_order rt)"
        "\<forall>j\<in>set (rt_order rt). cost_mean (ns_cost (rt_slots rt j)) \<le> cost_mean (ns_cost (rt_slots rt i))"
        using costliest_Some [OF Some [unfolded costliest_active_slot_def]] s2(1) by (simp_all add: same_chain_def)
      show ?thesis
      proof (cases "\<not> rt_auto_bypassed_this_window ?rt2 \<and> \<not> is_host (ns_owner (rt_slots ?rt2 i)) \<and>
          \<not> ns_bypassed (rt_slots ?rt2 i)")
        case False
        then show ?thesis
          using unfolded s2 True Some by (intro quiet) (auto simp: same_chain_def)
      next
        case b: True
        let ?f = "\<lambda>s. s\<lparr>ns_bypassed := True, ns_auto_bypassed := True,
              ns_mix := cf_set_target False (crossfade_frames ?rt2) (ns_mix s)\<rparr>"
        have out: "o1 = ?out\<lparr>oo_overload := True, oo_costliest_slot := i, oo_auto_bypassed_slot := Some i\<rparr>"
          "rt' = recompute_combined ((update_slot i ?f ?rt2)\<lparr>rt_auto_bypassed_this_window := True\<rparr>)"
          using unfolded True Some b by auto
        have cf: "crossfade_frames ?rt2 = crossfade_frames rt"
          using s2(1) by (simp add: same_chain_def crossfade_frames_def)
        let ?rt3 = "recompute_combined (update_slot i (\<lambda>s. s\<lparr>ns_bypassed := True, ns_auto_bypassed := True,
         ns_mix := cf_set_target False (crossfade_frames rt) (ns_mix s)\<rparr>) rt)"
        have "same_chain ?rt3 rt'"
          using s2(1) cf unfolding out(2)
          by (simp add: same_chain_def recompute_combined_def update_slot_def Let_def cong: if_cong)
        moreover have "rt_auto_bypassed_this_window rt'" "rt_over_budget rt'"
          unfolding out(2) by (simp_all add: recompute_combined_def update_slot_def Let_def)
        moreover have "\<not> is_host (ns_owner (rt_slots rt i))" "\<not> ns_bypassed (rt_slots rt i)"
          "\<not> rt_auto_bypassed_this_window rt" using b s2 by (simp_all add: same_chain_def)
        moreover have "oo_auto_bypassed_slot o1 = Some i" "oo_overload o1" using out(1) by simp_all
        ultimately show ?thesis by (intro bypasses [OF _ _ c]) auto
      qed
    qed
  qed
qed

text \<open>What the controller does on the event, after it.\<close>

definition after_event :: "overload_outcome \<Rightarrow> chain_model \<Rightarrow> chain_model" where
  "after_event o1 m =
     (case oo_auto_bypassed_slot o1 of None \<Rightarrow> m | Some s \<Rightarrow> mark_auto_bypassed s m)"

lemma after_event_ok: "chain_ok m \<Longrightarrow> chain_ok (after_event o1 m)"
  by (simp add: after_event_def mark_auto_bypassed_ok split: option.split)

lemma overload_agrees:
  assumes st: "in_step m rt" and r: "record_render_pct pct rt = (o1, rt')"
  shows "agrees (after_event o1 m) rt' \<and> fading_at_most (crossfade_frames rt) rt' \<and>
    crossfade_frames rt' = crossfade_frames rt"
  using r
proof (cases rule: record_render_pct_cases)
  case quiet
  then show ?thesis
    using st same_chain_agrees [OF quiet(2), of m 0] fading_mono [of 0 rt']
    by (auto simp: after_event_def in_step_def)
next
  case (bypasses i rt2)
  have ag: "agrees m rt" and fd: "fading_at_most (crossfade_frames rt) rt"
    using st by (auto simp: in_step_def intro: fading_mono)
  have order: "rt_order rt = map nm_slot (cm_nodes m)" and rok: "rt_ok rt" using ag by (simp_all add: agrees_def)
  obtain idx where idx: "idx < length (cm_nodes m)" "nm_slot (cm_nodes m ! idx) = i"
    using bypasses(3) order by (auto simp: in_set_conv_nth)
  have d: "distinct (map nm_slot (cm_nodes m))" using rok order by (simp add: rt_ok_def)
  have pos: "position (\<lambda>n. nm_slot n = i) (cm_nodes m) = Some idx"
    using position_key_nth [OF d idx(1)] idx(2) by simp
  let ?n = "(cm_nodes m ! idx)\<lparr>nm_bypassed := True, nm_auto_bypassed := True\<rparr>"
  let ?f = "\<lambda>s. s\<lparr>ns_bypassed := True, ns_auto_bypassed := True,
         ns_mix := cf_set_target False (crossfade_frames rt) (ns_mix s)\<rparr>"
  have "slot_agrees (cm_nodes m ! idx) (rt_slots rt i)"
    using agreesD(2) [OF ag nth_mem [OF idx(1)]] idx(2) by simp
  moreover have "target_of (?f (rt_slots rt i)) = target_of (rt_slots rt i)" by (simp add: target_of_def [abs_def])
  ultimately have sa: "slot_agrees ?n (?f (rt_slots rt i))"
    by (simp add: slot_agrees_def targets_agree_def)
  have "agrees (update_node idx (\<lambda>_. ?n) m) (update_slot i ?f rt)"
    using agrees_update [of m rt idx i ?n ?f] ag idx sa by simp
  moreover have "fading_at_most (crossfade_frames rt) (update_slot i ?f rt)"
    by (rule fading_update [OF fd]) (simp add: remaining_set_target)
  moreover have "after_event o1 m = bump (update_node idx (\<lambda>_. ?n) m)"
    using bypasses(1) pos by (simp add: after_event_def mark_auto_bypassed_def update_node_def)
  moreover have "crossfade_frames rt2 = crossfade_frames rt"
    unfolding bypasses(11) by (rule crossfade_rate) simp
  ultimately show ?thesis
    using same_chain_agrees [OF bypasses(10)] bypasses(11) by simp
qed

section \<open>Lock step\<close>

text \<open>
  The two chains as one machine: an operation with the renders after it, a render, a measurement with
  the controller's reaction and the renders after it, a new engine.
\<close>

inductive lock_step :: "chain_model \<times> chain_rt \<Rightarrow> chain_model \<times> chain_rt \<Rightarrow> bool" where
  op: "on_engine c m rt \<Longrightarrow> chain_call c m = (cmds, m') \<Longrightarrow> list_all steady rs \<Longrightarrow>
    2 * crossfade_frames rt + 1 \<le> length rs \<Longrightarrow>
    lock_step (m, rt) (m', renders rs (apply_commands cmds rt))"
| render: "steady r \<Longrightarrow> lock_step (m, rt) (m, render r rt)"
| overload: "record_render_pct pct rt = (o1, rt') \<Longrightarrow> list_all steady rs \<Longrightarrow>
    crossfade_frames rt \<le> length rs \<Longrightarrow> lock_step (m, rt) (after_event o1 m, renders rs rt')"
| rebuild: "1 \<le> rate \<Longrightarrow> m' = snd (set_source_rate rate m) \<Longrightarrow> list_all steady rs \<Longrightarrow>
    crossfade_frames (chain_rt_new rate) \<le> length rs \<Longrightarrow>
    lock_step (m, rt) (m', renders rs (apply_commands (chain_replay m') (chain_rt_new rate)))"

definition lock_start :: "chain_model \<times> chain_rt \<Rightarrow> bool" where
  "lock_start s \<longleftrightarrow> (\<exists>rate\<ge>1. s = (chain_new rate, chain_rt_new rate))"

definition lock_inv :: "chain_model \<times> chain_rt \<Rightarrow> bool" where
  "lock_inv s \<longleftrightarrow> chain_ok (fst s) \<and> in_step (fst s) (snd s)"

lemma set_source_rate_rate [simp]: "cm_source_rate (snd (set_source_rate r m)) = r"
  by (simp add: set_source_rate_def Let_def)

lemma lock_step_inv: "lock_inv s \<Longrightarrow> lock_step s t \<Longrightarrow> lock_inv t"
proof (erule lock_step.cases)
  fix c m rt cmds m' rs
  assume s: "lock_inv s" "s = (m, rt)" "t = (m', renders rs (apply_commands cmds rt))" "on_engine c m rt"
    "chain_call c m = (cmds, m')" "list_all steady rs" "2 * crossfade_frames rt + 1 \<le> length rs"
  have "catches_up m' (crossfade_frames rt) (apply_commands cmds rt)"
    using s by (intro call_catches_up) (simp_all add: lock_inv_def)
  moreover have "chain_ok m'" using chain_call_ok [of m c] s by (simp add: lock_inv_def)
  ultimately show ?thesis using catches_up_renders s by (simp add: lock_inv_def)
next
  fix r m rt
  assume s: "lock_inv s" "s = (m, rt)" "t = (m, render r rt)" "steady r"
  then show ?thesis using in_step_renders [of m rt "[r]"] by (simp add: lock_inv_def)
next
  fix pct rt o1 rt' rs m
  assume s: "lock_inv s" "s = (m, rt)" "t = (after_event o1 m, renders rs rt')"
    "record_render_pct pct rt = (o1, rt')" "list_all steady rs" "crossfade_frames rt \<le> length rs"
  then show ?thesis
    using overload_agrees [OF _ s(4), of m] agrees_renders [of "after_event o1 m" rt' rs "crossfade_frames rt"]
    by (simp add: lock_inv_def after_event_ok)
next
  fix rate m' m rs rt
  assume s: "lock_inv s" "s = (m, rt)"
    "t = (m', renders rs (apply_commands (chain_replay m') (chain_rt_new rate)))" "1 \<le> rate"
    "m' = snd (set_source_rate rate m)" "list_all steady rs" "crossfade_frames (chain_rt_new rate) \<le> length rs"
  have ok: "chain_ok m'" using s set_source_rate_ok by (simp add: lock_inv_def)
  show ?thesis
    using replay_agrees [OF ok] s ok
      agrees_renders [of m' "apply_commands (chain_replay m') (chain_rt_new rate)" rs
        "crossfade_frames (chain_rt_new rate)"]
    by (simp add: lock_inv_def)
qed

lemma lock_start_inv: "lock_start s \<Longrightarrow> lock_inv s"
proof -
  assume "lock_start s"
  then obtain r where r: "1 \<le> r" "s = (chain_new r, chain_rt_new r)" by (auto simp: lock_start_def)
  have "agrees (chain_new r) (chain_rt_new r)" "fading_at_most 0 (chain_rt_new r)"
    using r(1) rt_new_ok [of r]
    by (simp_all add: agrees_def same_rate_def nodes_agree_def chain_new_def fading_at_most_def)
       (simp_all add: chain_rt_new_def)
  then show ?thesis using r(2) chain_new_ok by (simp add: lock_inv_def in_step_def)
qed

interpretation chain_lock: machine lock_start lock_step lock_inv
  by unfold_locales (auto intro: lock_start_inv lock_step_inv)

end
