(* ===== verification/Effects_Theorems.thy ===== *)
theory Effects_Theorems
  imports Chain_Replay
begin

text \<open>
  The properties of the effect chain: the catalog, the controller's copy, the engine's copy and their
  agreement, with the cases in which the code breaks it.
\<close>

section \<open>The catalog\<close>

lemma wire_names_distinct:
  "distinct (map (\<lambda>d. param_wire_name kind (pd_id d)) (params kind)) \<and>
   None \<notin> set (map (\<lambda>d. param_wire_name kind (pd_id d)) (params kind))"
  by (cases kind) (simp_all add: table_defs name_at_def EQ_WIRE_NAMES_def upt_rec Let_def)

text \<open>
  Every parameter of a kind has a wire name and the names determine the parameters: looking a
  name up gives a parameter exactly when it is that parameter's name.
\<close>

lemma wire_name_roundtrip:
  "param_by_wire_name kind name = Some i \<longleftrightarrow>
     find_param kind i \<noteq> None \<and> param_wire_name kind i = Some name"
proof
  assume "param_by_wire_name kind name = Some i"
  then obtain d where "find (\<lambda>d. param_wire_name kind (pd_id d) = Some name) (params kind) = Some d" "pd_id d = i"
    by (auto simp: param_by_wire_name_def)
  then show "find_param kind i \<noteq> None \<and> param_wire_name kind i = Some name"
    using find_SomeD find_param_iff by (metis (mono_tags, lifting) option.distinct(1))
next
  assume a: "find_param kind i \<noteq> None \<and> param_wire_name kind i = Some name"
  then obtain d where d: "d \<in> set (params kind)" "pd_id d = i" using find_param_iff by blast
  have "find (\<lambda>e. param_wire_name kind (pd_id e) = param_wire_name kind (pd_id d)) (params kind) = Some d"
    using find_key [of "\<lambda>d. param_wire_name kind (pd_id d)"] wire_names_distinct d(1) by blast
  then show "param_by_wire_name kind name = Some i" using a d by (simp add: param_by_wire_name_def)
qed

text \<open>
  A fade keeps the power of the mix: the squares of the two gains add up to one.
\<close>

lemma equal_power: "(fst (cf_gains c))\<^sup>2 + (snd (cf_gains c))\<^sup>2 = 1"
  by (simp add: cf_gains_def Let_def)

text \<open>The kernels advance the ramps of exactly the continuous parameters.\<close>

definition continuous_shape :: "param_shape \<Rightarrow> bool" where
  "continuous_shape s = (case s of Continuous _ _ _ \<Rightarrow> True | Discrete _ \<Rightarrow> False)"

lemma ramped_params_filter:
  "ramped_params kind = map pd_id (filter (\<lambda>d. continuous_shape (pd_shape d)) (params kind))"
  by (cases kind) (simp_all add: table_defs upt_rec continuous_shape_def)

lemma ramped_params_continuous: "i \<in> set (ramped_params kind) \<longleftrightarrow> is_continuous kind i"
proof -
  have r: "i \<in> set (ramped_params kind) \<longleftrightarrow>
      (\<exists>e\<in>set (params kind). continuous_shape (pd_shape e) \<and> pd_id e = i)"
    unfolding ramped_params_filter by auto
  show ?thesis
  proof (cases "find_param kind i")
    case None
    then have "pd_id e \<noteq> i" if "e \<in> set (params kind)" for e
      using that find_param_iff [of kind i e] by auto
    with None r show ?thesis by (simp add: is_continuous_def)
  next
    case (Some d)
    have "e = d" if "e \<in> set (params kind)" "pd_id e = i" for e
      using that Some find_param_iff [of kind i e] by simp
    moreover have "d \<in> set (params kind)" "pd_id d = i" using Some find_param_iff [of kind i d] by simp_all
    ultimately have "i \<in> set (ramped_params kind) \<longleftrightarrow> continuous_shape (pd_shape d)"
      unfolding r by blast
    then show ?thesis
      unfolding is_continuous_def Some continuous_shape_def by (simp split: param_shape.split)
  qed
qed

section \<open>The controller's chain\<close>

text \<open>
  C4. Whatever calls are made, the free bits are exactly the slots no node has, no two nodes share a
  slot or an id and ids are never reused, every stored value is in its range, and a node's mode state,
  the parameter that shows it and the automatic switch agree.
\<close>

theorem chain_reachable_invariant:
  assumes "chain_fresh m" and "chain_step\<^sup>*\<^sup>* m m'"
  shows "chain_ok m'"
  using assms by (rule effect_chain.reachable_inv)

lemma chain_reachable_invariant_witness:
  "chain_ok (snd (chain_call (OpAdd Gain HostNode) (chain_new 44100)))"
  by (rule chain_reachable_invariant [of "chain_new 44100"])
     (use chain_step.intros [of "chain_new 44100" "OpAdd Gain HostNode"] in \<open>auto simp: chain_fresh_def\<close>)

lemma set_param_error:
  assumes ok: "chain_ok m" and r: "set_param i p v m = Inl e"
  shows "(e = UnknownNode \<and> i \<notin> nm_id ` set (cm_nodes m)) \<or>
        (e = WrongKind \<and> (\<exists>n\<in>set (cm_nodes m). nm_id n = i \<and> find_param (nm_kind n) p = None))"
proof (cases "find_node i m")
  case (Inl e')
  then have "e = e'" using r by (simp add: set_param_def)
  then show ?thesis using Inl find_node_Inl by simp
next
  case (Inr idx)
  let ?n = "cm_nodes m ! idx"
  have idx: "idx < length (cm_nodes m)" "nm_id ?n = i" using find_node_Inr [OF Inr] by simp_all
  have mode: "(nm_mode_state ?n \<noteq> None) = has_mode (nm_kind ?n)"
    using nth_ok [OF ok idx(1)] by (intro mode_ok_mode) (simp add: node_ok_def)
  have "find_param (nm_kind ?n) p = None \<and> e = WrongKind"
  proof (cases "mode_param_id (nm_kind ?n) = Some p")
    case True
    then have h: "has_mode (nm_kind ?n)" by (simp add: mode_param_facts split: if_splits)
    then obtain x where "set_mode i (quality_mode_from_value v) m = Inr x"
      using Inr mode by (auto simp: set_mode_def Let_def mode_param_facts param_index_mode)
    then show ?thesis using r Inr True by (cases x) (simp add: set_param_def Let_def)
  next
    case False
    then show ?thesis
      using r Inr by (auto simp: set_param_def Let_def find_param_index split: option.splits prod.splits)
  qed
  then show ?thesis using idx by force
qed

text \<open>The node a parameter was set on, with the place of the value.\<close>

lemma set_param_stored:
  assumes ok: "chain_ok m" and sp: "set_param i p v m = Inr ((x, cmds), m')"
  shows "\<exists>n\<in>set (cm_nodes m'). \<exists>pos. nm_id n = i \<and> param_index (nm_kind n) p = Some pos \<and>
    nm_params n ! pos = x \<and> (mode_param_id (nm_kind n) = Some p \<or> x = clamp (nm_kind n) p v (cm_source_rate m))"
  using sp
proof (cases rule: set_param_cases)
  case (mode idx)
  have idx: "idx < length (cm_nodes m)" "nm_id (cm_nodes m ! idx) = i" using find_node_Inr [OF mode(1)] by simp_all
  have h: "has_mode (nm_kind (cm_nodes m ! idx))" "p = mode_pos (nm_kind (cm_nodes m ! idx))"
    using mode(2) by (simp_all add: mode_param_facts split: if_splits)
  let ?n = "(cm_nodes m ! idx)\<lparr>nm_mode_state := Some (mode_after_user_set (quality_mode_from_value v)),
     nm_params := (nm_params (cm_nodes m ! idx))[p := x]\<rparr>"
  have len: "length (nm_params (cm_nodes m ! idx)) = length (params (nm_kind (cm_nodes m ! idx)))"
    using node_params_length [OF nth_ok [OF ok idx(1)]] .
  have "?n \<in> set (cm_nodes m')"
    using mode(3)
  proof (cases rule: set_mode_cases)
    case (1 idx' st)
    then have "idx' = idx" using mode(1) by simp
    then have "cm_nodes m' = (cm_nodes m)[idx := ?n]"
      using 1(5) h(2) mode(4) by (simp add: Let_def update_node_def)
    then show ?thesis using idx(1) by (simp add: set_update_memI)
  qed
  then show ?thesis
    using idx(2) h param_index_mode [OF h(1)] mode_pos_less [OF h(1)] len mode(2) by (intro bexI [of _ ?n]) auto
next
  case (plain idx pos n)
  have idx: "idx < length (cm_nodes m)" "nm_id (cm_nodes m ! idx) = i" using find_node_Inr [OF plain(1)] by simp_all
  have "n \<in> set (cm_nodes m')"
    using idx(1) by (simp add: plain(8) Let_def update_node_def set_update_memI)
  then show ?thesis
    using idx plain(3,4,5) param_index_SomeD [OF plain(3)] node_params_length [OF nth_ok [OF ok idx(1)]]
    by (intro bexI [of _ n]) auto
next
  case (switched idx pos n n2 cmds2)
  have idx: "idx < length (cm_nodes m)" "nm_id (cm_nodes m ! idx) = i" using find_node_Inr [OF switched(1)] by simp_all
  have mem: "n2 \<in> set (cm_nodes m')"
    using idx(1) by (simp add: switched(8) update_node_def set_update_memI)
  from switched(6) show ?thesis
  proof (cases rule: auto_switch_Some)
    case (1 st st2)
    have h: "has_mode (nm_kind (cm_nodes m ! idx))" using 1(2) switched(5) by simp
    have ne: "pos \<noteq> mode_pos (nm_kind (cm_nodes m ! idx))"
      using params_update_ok(2) [OF nth_ok [OF ok idx(1)] switched(3,2) h] .
    have "nm_params n2 ! pos = x"
      using 1(6) switched(5) ne param_index_SomeD [OF switched(3)] node_params_length [OF nth_ok [OF ok idx(1)]]
      by simp
    then show ?thesis
      using mem idx(2) switched(3,4,5) 1(6) by (intro bexI [of _ n2]) auto
  qed
qed

text \<open>
  Setting a parameter fails exactly for an unknown node or a parameter its kind lacks. Else the
  value it returns is stored in the node, in the range of the parameter; but for the parameter of the
  quality mode it is the request clamped at the current rate.
\<close>

lemma set_param_outcome:
  assumes ok: "chain_ok m"
  shows "case set_param i p v m of
      Inl e \<Rightarrow> (e = UnknownNode \<and> i \<notin> nm_id ` set (cm_nodes m)) \<or>
        (e = WrongKind \<and> (\<exists>n\<in>set (cm_nodes m). nm_id n = i \<and> find_param (nm_kind n) p = None))
    | Inr ((x, cmds), m') \<Rightarrow>
        (\<exists>n\<in>set (cm_nodes m'). \<exists>d pos. nm_id n = i \<and> find_param (nm_kind n) p = Some d \<and>
           param_index (nm_kind n) p = Some pos \<and> nm_params n ! pos = x \<and> in_shape (pd_shape d) x \<and>
           (mode_param_id (nm_kind n) = Some p \<or> x = clamp (nm_kind n) p v (cm_source_rate m)))"
proof (cases "set_param i p v m")
  case (Inl e)
  then show ?thesis using set_param_error [OF ok Inl] by simp
next
  case (Inr r)
  obtain x cmds m' where r: "r = ((x, cmds), m')" by (metis prod.exhaust)
  note sp = Inr [unfolded r]
  obtain n pos where n: "n \<in> set (cm_nodes m')" "nm_id n = i" "param_index (nm_kind n) p = Some pos"
      "nm_params n ! pos = x" "mode_param_id (nm_kind n) = Some p \<or> x = clamp (nm_kind n) p v (cm_source_rate m)"
    using set_param_stored [OF ok sp] by blast
  have pos: "pos < length (params (nm_kind n))" using param_index_SomeD [OF n(3)] by simp
  have "node_ok (cm_source_rate m') n"
    using set_param_ok [OF ok sp] n(1) by (auto simp: chain_ok_def list_all_iff)
  then have "in_shape (pd_shape (params (nm_kind n) ! pos)) x"
    using pos n(4) by (auto simp: node_ok_def list_all2_conv_all_nth value_ok_def)
  moreover have "find_param (nm_kind n) p = Some (params (nm_kind n) ! pos)" using n(3) by (simp add: find_param_index)
  ultimately show ?thesis using n sp by auto
qed

text \<open>One equalizer with its last band set beyond the limit of the rate, for concrete inputs.\<close>

definition one_gain :: chain_model where
  "one_gain = snd (chain_call (OpAdd Gain HostNode) (chain_new 200))"

lemma one_gain_ok: "chain_ok one_gain"
  unfolding one_gain_def by (rule chain_call_ok [OF chain_new_ok])

lemma one_gain_eq:
  "one_gain = \<lparr>cm_nodes = [\<lparr>nm_id = 0, nm_slot = 0, nm_kind = Gain, nm_owner = HostNode, nm_params = [0, 0],
      nm_bypassed = False, nm_auto_bypassed = False, nm_mode_state = None, nm_orphaned = False\<rparr>],
     cm_free_slots = - 2, cm_next_id = 1, cm_source_rate = 200, cm_revision = 1\<rparr>"
proof -
  have "trailing_zeros (- 1) = 0" by (simp add: trailing_zeros_def upt_rec bit_minus_1_iff)
  then show ?thesis
    by (simp add: one_gain_def chain_add_def add_at_def allocate_slot_def chain_new_def or_nothing_def Let_def
        slot_bit_def insert_nth_def has_mode_def table_defs MAX_NODES_def)
qed

lemma set_param_outcome_witness:
  "(\<exists>m'. set_param 0 0 (Finite 100) one_gain = Inr ((12, [ChainSetParam 0 0 12]), m')) \<and>
   in_shape (Continuous (-60) 12 False) 12"
proof -
  have "\<exists>m'. set_param 0 0 (Finite 100) one_gain = Inr ((12, [ChainSetParam 0 0 12]), m')"
    by (simp add: set_param_def find_node_def one_gain_eq Let_def param_index_def clamp_def find_param_def
        table_defs shape_clamp_def auto_switch_def)
  then obtain m' where m': "set_param 0 0 (Finite 100) one_gain = Inr ((12, [ChainSetParam 0 0 12]), m')" by blast
  have "\<exists>d. find_param Gain 0 = Some d \<and> in_shape (pd_shape d) 12 \<or> in_shape (Continuous (-60) 12 False) 12"
    using set_param_outcome [OF one_gain_ok, of 0 0 "Finite 100"] m' by auto
  then show ?thesis using m' by simp
qed

section \<open>The engine follows\<close>

text \<open>
  C3. An operation on the controller's chain, its commands applied to an engine that is in step, and
  enough renders leave the engine in step with the new chain: same nodes, same order, same bypass
  switches, same targets, no fade left. Twice the length of a fade plus one render is enough. The
  operations are adding, moving, removing a node that is not faded out in the engine (the removal of a
  bypassed one never completes, see \<open>Chain_Faults\<close>), switching a bypass, setting a parameter to a
  value that is a number, setting a quality mode, orphaning and readopting; a change of the source rate
  and the reaction to an automatic bypass do not go to a running engine by commands. The engine is in
  step when the operation comes: one that comes earlier, while a fade runs, can be lost.
\<close>

theorem chain_call_refines:
  assumes "chain_ok m" "in_step m rt" "on_engine op m rt" "chain_call op m = (cmds, m')"
    and "list_all steady rs" "2 * crossfade_frames rt + 1 \<le> length rs"
  shows "in_step m' (renders rs (apply_commands cmds rt))"
  using catches_up_renders [OF call_catches_up [OF assms(1-4)] assms(5,6)] .

text \<open>An engine with one gain node, in step.\<close>

definition a_render :: render_input where
  "a_render = \<lparr>ri_needed = 1, ri_stage = (\<lambda>_ n. n), ri_measured = (\<lambda>_. 0)\<rparr>"

lemma a_render_steady [simp]: "steady a_render"
  by (simp add: steady_def a_render_def)

definition one_gain_rt :: chain_rt where
  "one_gain_rt = renders [a_render] (apply_commands (chain_replay one_gain) (chain_rt_new 200))"

lemma crossfade_200 [simp]: "rt_source_rate rt = 200 \<Longrightarrow> crossfade_frames rt = 1"
  by (simp add: crossfade_frames_def SWITCH_CROSSFADE_MS_def)

lemma one_gain_in_step: "in_step one_gain one_gain_rt"
proof -
  have r: "cm_source_rate one_gain = 200" by (simp add: one_gain_eq)
  have "crossfade_frames (chain_rt_new 200) = 1" by (simp add: chain_rt_new_def)
  then show ?thesis
    using replay_agrees [OF one_gain_ok] agrees_renders [of one_gain _ "[a_render]" 1]
    by (simp add: r one_gain_rt_def)
qed

lemma renders_rate: "rt_ok rt \<Longrightarrow> list_all steady rs \<Longrightarrow> rt_source_rate (renders rs rt) = rt_source_rate rt"
  by (induction rs arbitrary: rt) (simp_all add: render_facts(4) render_ok)

lemma one_gain_rate [simp]: "rt_source_rate one_gain_rt = 200" "crossfade_frames one_gain_rt = 1"
proof -
  show "rt_source_rate one_gain_rt = 200"
    using one_gain_in_step by (simp add: in_step_def agrees_def same_rate_def one_gain_eq)
  then show "crossfade_frames one_gain_rt = 1" by simp
qed

lemma chain_call_refines_witness:
  "in_step (snd (chain_call (OpSetParam 0 0 (Finite 6)) one_gain))
     (renders [a_render, a_render, a_render]
        (apply_commands (fst (chain_call (OpSetParam 0 0 (Finite 6)) one_gain)) one_gain_rt))"
  by (rule chain_call_refines [OF one_gain_ok one_gain_in_step, of "OpSetParam 0 0 (Finite 6)"])
     (simp_all add: on_engine_def)

text \<open>
  C28. After a device change the engine is built anew at the rate of the new stream; replaying the
  controller's chain onto it, with the time of one fade, brings it in step.
\<close>

theorem replay_rebuilds_engine:
  assumes "chain_ok m" "1 \<le> rate" "m' = snd (set_source_rate rate m)"
    and "list_all steady rs" "crossfade_frames (chain_rt_new rate) \<le> length rs"
  shows "in_step m' (renders rs (apply_commands (chain_replay m') (chain_rt_new rate)))"
proof -
  have "chain_ok m'" "cm_source_rate m' = rate" using assms set_source_rate_ok by simp_all
  then show ?thesis
    using replay_agrees [of m'] assms(2,4,5)
      agrees_renders [of m' _ rs "crossfade_frames (chain_rt_new rate)"] by simp
qed

lemma replay_rebuilds_engine_witness:
  "in_step (snd (set_source_rate 400 one_gain))
     (renders [a_render, a_render] (apply_commands (chain_replay (snd (set_source_rate 400 one_gain))) (chain_rt_new 400)))"
  by (rule replay_rebuilds_engine [OF one_gain_ok, of 400])
     (simp_all add: crossfade_frames_def chain_rt_new_def SWITCH_CROSSFADE_MS_def)

text \<open>
  C2. Starting with an empty chain on a new engine, every state reached by operations with the renders
  after them, further renders, measurements with the automatic bypass and the controller's reaction to
  it, and rebuilds of the engine at a new source rate has the controller's chain well-formed and the
  engine in step with it. The operations are those of \<open>on_engine\<close>: no removal of a node that is faded
  out, no parameter set to a value that is not a number, a rate changed only by a rebuild; and each is
  followed by twice the renders of a fade and one more before the next one. \<open>Chain_Faults\<close> has what the
  code does outside of this.
\<close>

theorem effect_chain_lock_step:
  assumes "lock_start s" and "lock_step\<^sup>*\<^sup>* s t"
  shows "chain_ok (fst t) \<and> in_step (fst t) (snd t)"
  using chain_lock.reachable_inv [OF assms] by (simp add: lock_inv_def)

text \<open>A gain node is added to an empty chain and then bypassed.\<close>

definition added_rt :: chain_rt where
  "added_rt = renders [a_render, a_render, a_render]
     (apply_commands (fst (chain_call (OpAdd Gain HostNode) (chain_new 200))) (chain_rt_new 200))"

lemma lock_op:
  assumes "on_engine c m rt" "list_all steady rs" "2 * crossfade_frames rt + 1 \<le> length rs"
  shows "lock_step (m, rt) (snd (chain_call c m), renders rs (apply_commands (fst (chain_call c m)) rt))"
  using lock_step.op [OF assms(1) _ assms(2,3)] by simp

lemma added_step: "lock_step (chain_new 200, chain_rt_new 200) (one_gain, added_rt)"
  using lock_op [of "OpAdd Gain HostNode" "chain_new 200" "chain_rt_new 200" "[a_render, a_render, a_render]"]
  by (simp add: on_engine_def added_rt_def one_gain_def chain_rt_new_def)

lemma effect_chain_lock_step_witness:
  "in_step (snd (chain_call (OpSetBypass 0 True) one_gain))
     (renders [a_render, a_render, a_render] (apply_commands (fst (chain_call (OpSetBypass 0 True) one_gain)) added_rt))"
proof -
  let ?s = "(chain_new 200, chain_rt_new 200)"
  have st: "lock_start ?s" unfolding lock_start_def by (intro exI [of _ 200]) simp
  have "lock_inv (one_gain, added_rt)" using chain_lock.reachable_inv [OF st] added_step by blast
  then have "crossfade_frames added_rt = 1"
    by (simp add: lock_inv_def in_step_def agrees_def same_rate_def one_gain_eq)
  then have "lock_step (one_gain, added_rt) (snd (chain_call (OpSetBypass 0 True) one_gain),
      renders [a_render, a_render, a_render] (apply_commands (fst (chain_call (OpSetBypass 0 True) one_gain)) added_rt))"
    by (intro lock_op) (simp_all add: on_engine_def)
  then have "lock_step\<^sup>*\<^sup>* ?s (snd (chain_call (OpSetBypass 0 True) one_gain),
      renders [a_render, a_render, a_render] (apply_commands (fst (chain_call (OpSetBypass 0 True) one_gain)) added_rt))"
    using added_step by (meson rtranclp.intros)
  from effect_chain_lock_step [OF st this] show ?thesis by simp
qed

section \<open>Overload\<close>

text \<open>
  When a measurement bypasses a node, it is an overload, the node is in the chain, belongs to a
  plugin, was not bypassed and no node of the chain costs more; and it was the first bypass since the
  chain was last within its budget.
\<close>

lemma auto_bypass_outcome:
  assumes "record_render_pct pct rt = (o1, rt')" and "oo_auto_bypassed_slot o1 = Some i"
  shows "oo_overload o1 \<and> i \<in> set (rt_order rt) \<and> \<not> is_host (ns_owner (rt_slots rt i)) \<and>
    \<not> ns_bypassed (rt_slots rt i) \<and> ns_bypassed (rt_slots rt' i) \<and> \<not> rt_auto_bypassed_this_window rt \<and>
    list_all (\<lambda>j. cost_mean (ns_cost (rt_slots rt j)) \<le> cost_mean (ns_cost (rt_slots rt i))) (rt_order rt)"
  using assms(1)
proof (cases rule: record_render_pct_cases)
  case quiet
  then show ?thesis using assms(2) by simp
next
  case (bypasses k rt2)
  then have "k = i" using assms(2) by simp
  moreover have "ns_bypassed (rt_slots rt' k)"
    using bypasses(10,11) by (simp add: same_chain_def)
  ultimately show ?thesis using bypasses by (simp add: list_all_iff)
qed

definition plugin_gain_rt :: chain_rt where
  "plugin_gain_rt = apply_insert 0 0 Gain (PluginNode 7) (chain_rt_new 200)"

lemma auto_bypass_outcome_witness:
  "oo_auto_bypassed_slot (fst (record_render_pct 120 plugin_gain_rt)) = Some 0 \<and>
   0 \<in> set (rt_order plugin_gain_rt)"
proof -
  have b: "oo_auto_bypassed_slot (fst (record_render_pct 120 plugin_gain_rt)) = Some 0"
    by (simp add: record_render_pct_def plugin_gain_rt_def apply_insert_def chain_rt_new_def slot_inactive_def
        MAX_NODES_def insert_nth_def costliest_active_slot_def Let_def OVERLOAD_PCT_def
        update_slot_def recompute_combined_def slot_activate_def)
  obtain o1 rt' where r: "record_render_pct 120 plugin_gain_rt = (o1, rt')" by force
  show ?thesis using auto_bypass_outcome [OF r, of 0] b r by simp
qed

text \<open>The outcomes of a sequence of measurements, with how often the chain came back within budget.\<close>

fun measurements :: "rat list \<Rightarrow> chain_rt \<Rightarrow> nat \<times> nat \<times> chain_rt" where
  "measurements [] rt = (0, 0, rt)"
| "measurements (p # ps) rt =
     (let (o1, rt1) = record_render_pct p rt;
          (bypasses, recoveries, rt2) = measurements ps rt1
      in (bypasses + (if oo_auto_bypassed_slot o1 = None then 0 else 1),
          recoveries + (if rt_over_budget rt \<and> \<not> rt_over_budget rt1 then 1 else 0), rt2))"

lemma measurements_bound:
  "measurements ps rt = (b, c, rt') \<Longrightarrow> b + (if rt_auto_bypassed_this_window rt then 1 else 0) \<le> c + 1"
proof (induction ps arbitrary: rt b c rt')
  case (Cons p ps)
  obtain o1 rt1 where r: "record_render_pct p rt = (o1, rt1)" by force
  obtain b1 c1 rt2 where m: "measurements ps rt1 = (b1, c1, rt2)" by (metis prod.exhaust)
  note IH = Cons.IH [OF m]
  from r show ?case
  proof (cases rule: record_render_pct_cases)
    case quiet
    then show ?thesis using Cons.prems r m IH by (auto split: if_splits)
  next
    case (bypasses i rt3)
    then show ?thesis using Cons.prems r m IH by (auto split: if_splits)
  qed
qed (simp)

text \<open>
  However overloaded the callback is, the engine bypasses at most one node per excursion: in any
  sequence of measurements the bypasses are at most one more than the returns within the budget.
\<close>

lemma auto_bypass_once_per_excursion:
  "fst (measurements ps rt) \<le> fst (snd (measurements ps rt)) + 1"
  using measurements_bound [of ps rt "fst (measurements ps rt)" "fst (snd (measurements ps rt))" "snd (snd (measurements ps rt))"]
  by (simp split: if_splits)

end
