(* ===== verification/Chain_Faults.thy ===== *)
theory Chain_Faults
  imports Effects_Theorems
begin

text \<open>
  Where the engine does not follow: the removal of a node that is faded out, and a node added to a
  slot whose removal is still fading; and where the revision counter does not see a change.
\<close>

section \<open>A removed node that never leaves\<close>

text \<open>The marks of pairs are those of neighbours in the order; every render leaves them so.\<close>

definition pairs_ok :: "chain_rt \<Rightarrow> bool" where
  "pairs_ok rt \<longleftrightarrow> (\<forall>ys s j zs. rt_order rt = ys @ s # j # zs \<longrightarrow>
     ns_combined_second (rt_slots rt j) \<longrightarrow> is_pair (ns_kind (rt_slots rt s)) (ns_kind (rt_slots rt j)))"

lemma pair_seconds_subset: "set (pair_seconds k xs) \<subseteq> set (tl xs)"
proof (induction k xs rule: pair_seconds.induct)
  case (1 k a b rest)
  have "set (tl rest) \<subseteq> set rest" by (cases rest) auto
  with 1 show ?case by auto
qed simp_all

lemma pair_seconds_pair:
  "distinct xs \<Longrightarrow> xs = ys @ s # j # zs \<Longrightarrow> j \<in> set (pair_seconds k xs) \<Longrightarrow> is_pair (k s) (k j)"
proof (induction k xs arbitrary: ys rule: pair_seconds.induct)
  case (1 k a b rest)
  show ?case
  proof (cases ys)
    case Nil
    then have ab: "s = a" "j = b" "zs = rest" using "1.prems"(2) by simp_all
    have "b \<notin> set rest" using "1.prems"(1) by simp
    then have "b \<notin> set (pair_seconds k (b # rest))" using pair_seconds_subset [of k "b # rest"] by auto
    then show ?thesis using "1.prems"(3) ab by (auto split: if_splits)
  next
    case (Cons y ys')
    note ys = this
    then have rest: "b # rest = ys' @ s # j # zs" using "1.prems"(2) by simp
    show ?thesis
    proof (cases "is_pair (k a) (k b)")
      case True
      then have j: "j = b \<or> j \<in> set (pair_seconds k rest)" using "1.prems"(3) by simp
      have jb: "j \<noteq> b"
      proof
        assume "j = b"
        moreover have "j \<in> set rest" using rest by (cases ys') auto
        ultimately show False using "1.prems"(1) by simp
      qed
      with j have j: "j \<in> set (pair_seconds k rest)" by simp
      show ?thesis
      proof (cases ys')
        case Nil
        then have "rest = j # zs" using rest by simp
        then have "j \<notin> set (pair_seconds k rest)"
          using pair_seconds_subset [of k rest] "1.prems"(1) by auto
        with j show ?thesis by simp
      next
        case (Cons y2 ys2)
        then have "rest = ys2 @ s # j # zs" using rest by simp
        then show ?thesis using "1.IH"(1) [OF True _ _ j, of ys2] "1.prems"(1) by simp
      qed
    next
      case False
      then have "j \<in> set (pair_seconds k (b # rest))" using "1.prems"(3) by simp
      then show ?thesis using "1.IH"(2) [OF False _ rest] "1.prems"(1) by simp
    qed
  qed
qed auto

lemma recompute_pairs_ok:
  assumes "distinct (rt_order rt)"
  shows "pairs_ok (recompute_combined rt)"
proof -
  have "is_pair (ns_kind (rt_slots rt s)) (ns_kind (rt_slots rt j))"
    if o: "rt_order rt = ys @ s # j # zs" and c: "ns_combined_second (rt_slots (recompute_combined rt) j)" for ys s j zs
  proof -
    have "j \<in> set (rt_order rt)" using o by simp
    with c have "j \<in> set (pair_seconds (\<lambda>s. ns_kind (rt_slots rt s)) (rt_order rt))"
      by (simp add: recompute_combined_def Let_def)
    then show ?thesis using pair_seconds_pair [OF assms o] by blast
  qed
  then show ?thesis by (simp add: pairs_ok_def)
qed

lemma process_recomputes: "\<exists>rt1. render r rt = recompute_combined rt1"
  by (simp add: render_def process_def Let_def split: prod.split) blast

lemma render_pairs_ok:
  assumes "rt_ok rt" "steady r"
  shows "pairs_ok (render r rt)"
proof -
  obtain rt1 where rt1: "render r rt = recompute_combined rt1" using process_recomputes by blast
  have "rt_ok (render r rt)" using render_ok [OF assms] .
  then have "distinct (rt_order rt1)" by (simp add: rt1 rt_ok_def)
  then show ?thesis unfolding rt1 by (rule recompute_pairs_ok)
qed

text \<open>A slot that is being removed, dry already, bypassed, and of a kind that never carries a pair.\<close>

definition stuck :: "nat \<Rightarrow> chain_rt \<Rightarrow> bool" where
  "stuck s rt \<longleftrightarrow> rt_ok rt \<and> pairs_ok rt \<and> s \<in> set (rt_order rt) \<and> ns_bypassed (rt_slots rt s) \<and>
     remaining (ns_mix (rt_slots rt s)) = 0 \<and> ns_pending_move (rt_slots rt s) = None \<and>
     \<not> has_mode (ns_kind (rt_slots rt s))"

lemma pair_has_mode: "is_pair a b \<Longrightarrow> has_mode a"
  by (cases a; cases b) (simp_all add: has_mode_def)

lemma not_carrying:
  assumes "pairs_ok rt" "\<not> has_mode (ns_kind (rt_slots rt s))"
  shows "\<not> carries (rt_order rt) (rt_slots rt) s"
proof
  assume "carries (rt_order rt) (rt_slots rt) s"
  then obtain ys j zs where "rt_order rt = ys @ s # j # zs" "ns_combined_second (rt_slots rt j)"
    unfolding carries_def by blast
  with assms(1) have "is_pair (ns_kind (rt_slots rt s)) (ns_kind (rt_slots rt j))"
    unfolding pairs_ok_def by blast
  with assms(2) show False using pair_has_mode by blast
qed

lemma resolve_stuck:
  assumes "stuck s rt"
  shows "stuck s (resolve_one_pending_move rt)"
proof -
  let ?rt1 = "resolve_one_pending_move rt"
  have ok: "rt_ok rt" using assms by (simp add: stuck_def)
  have "core (rt_slots ?rt1 s) = core (rt_slots rt s) \<and> ns_mix (rt_slots ?rt1 s) = ns_mix (rt_slots rt s)"
    using assms
    by (auto simp: resolve_one_pending_move_def Let_def stuck_def dest!: find_SomeD split: option.split)
  moreover have "pairs_ok ?rt1"
  proof (cases "?rt1 = rt")
    case False
    then obtain rt2 where rt2: "?rt1 = recompute_combined rt2"
      by (simp add: resolve_one_pending_move_def Let_def split: option.splits)
    have "rt_ok ?rt1" using ok by (rule resolve_ok)
    then have "distinct (rt_order rt2)" by (simp add: rt2 rt_ok_def)
    then show ?thesis unfolding rt2 by (rule recompute_pairs_ok)
  qed (use assms in \<open>simp add: stuck_def\<close>)
  ultimately show ?thesis
    using assms resolve_ok [OF ok] core_eqD(2,4,6) [of "rt_slots ?rt1 s" "rt_slots rt s"]
    by (simp add: stuck_def resolve_set)
qed

lemma render_stuck:
  assumes st: "stuck s rt" and r: "steady r"
  shows "stuck s (render r rt)"
proof -
  let ?rt1 = "resolve_one_pending_move rt" and ?rt2 = "render r rt"
  have ok: "rt_ok rt" using st by (simp add: stuck_def)
  have s1: "stuck s ?rt1" using st by (rule resolve_stuck)
  then have nc: "\<not> carries (rt_order ?rt1) (rt_slots ?rt1) s"
    by (intro not_carrying) (simp_all add: stuck_def)
  have "s \<in> set (rt_order ?rt1)" using s1 by (simp add: stuck_def)
  then obtain n where "rendered n (carries (rt_order ?rt1) (rt_slots ?rt1) s) (rt_slots ?rt1 s)
      (rt_slots ?rt2 s) (s \<in> set (rt_order ?rt2))"
    using render_facts(3) [OF ok r] by blast
  moreover have "\<not> leaves n (carries (rt_order ?rt1) (rt_slots ?rt1) s) (rt_slots ?rt1 s)"
    using s1 nc by (simp add: leaves_def stuck_def settled_iff)
  ultimately have k: "s \<in> set (rt_order ?rt2)" "core (rt_slots ?rt2 s) = core (rt_slots ?rt1 s)"
      "ns_mix (rt_slots ?rt2 s) = fade n (ns_mix (rt_slots ?rt1 s))"
    by (simp_all add: rendered_def)
  show ?thesis
    using s1 k core_eqD(2,4,6) [OF k(2)] render_ok [OF ok r] render_pairs_ok [OF ok r]
    by (simp add: stuck_def)
qed

lemma renders_stuck: "stuck s rt \<Longrightarrow> list_all steady rs \<Longrightarrow> stuck s (renders rs rt)"
  by (induction rs arbitrary: rt) (simp_all add: render_stuck)

text \<open>
  C14. Removing a bypassed node whose fade to dry is over never completes in the engine: however many
  renders follow, its slot stays active and in the order, so the engine is never in step again, and a
  later node that is given the slot is ignored.
\<close>

theorem removed_bypassed_node_never_leaves:
  assumes ok: "chain_ok m" and st: "in_step m rt" "pairs_ok rt"
    and i: "find_node i m = Inr idx" and n: "nm_bypassed (cm_nodes m ! idx)" "\<not> has_mode (nm_kind (cm_nodes m ! idx))"
      "\<not> cf_to_wet (ns_mix (rt_slots rt (nm_slot (cm_nodes m ! idx))))"
    and r: "chain_remove i m = Inr (cmds, m')" and rs: "list_all steady rs"
  shows "nm_slot (cm_nodes m ! idx) \<in> set (rt_order (renders rs (apply_commands cmds rt))) \<and>
    \<not> in_step m' (renders rs (apply_commands cmds rt)) \<and>
    apply_insert (nm_slot (cm_nodes m ! idx)) p kind ow (renders rs (apply_commands cmds rt)) =
      renders rs (apply_commands cmds rt)"
proof -
  let ?s = "nm_slot (cm_nodes m ! idx)" and ?rt = "renders rs (apply_commands cmds rt)"
  from r have idx: "idx < length (cm_nodes m)" using find_node_Inr [OF i] by simp
  note d = in_stepD [OF st(1) idx]
  have m': "cmds = [ChainRemove ?s]" "cm_nodes m' = remove_nth idx (cm_nodes m)"
    using r i by (auto simp: chain_remove_def Let_def release_slot_def)
  have ok1: "rt_ok rt" using st(1) by (simp add: in_step_def agrees_def)
  have mix: "cf_set_target False (crossfade_frames rt) (ns_mix (rt_slots rt ?s)) = ns_mix (rt_slots rt ?s)"
    using n(3) d(5) by (intro set_target_same) simp_all
  have c: "apply_commands cmds rt = update_slot ?s (\<lambda>x. x\<lparr>ns_removing := True,
      ns_mix := cf_set_target False (crossfade_frames rt) (ns_mix x)\<rparr>) rt"
    using m'(1) d(3,4) by (simp add: apply_remove_def)
  have "pairs_ok (apply_commands cmds rt)"
    using st(2) unfolding c pairs_ok_def by (auto split: if_splits)
  then have "stuck ?s (apply_commands cmds rt)"
    using d n rt_ok_update [of rt ?s] ok1 mix unfolding c
    by (simp add: stuck_def slot_agrees_def)
  then have s: "stuck ?s ?rt" using rs by (rule renders_stuck)
  then have act: "?s \<in> set (rt_order ?rt)" "ns_active (rt_slots ?rt ?s)"
    by (auto simp: stuck_def rt_ok_def)
  have dist: "distinct (map nm_slot (cm_nodes m))" using ok by (simp add: chain_ok_def)
  have "?s \<notin> set (map nm_slot (cm_nodes m'))"
    using set_remove_nth_distinct [OF dist, of idx] idx by (simp add: m'(2) map_remove_nth)
  then have "\<not> in_step m' ?rt" using act(1) by (auto simp: in_step_def agrees_def)
  then show ?thesis using act by (simp add: apply_insert_def)
qed

text \<open>A gain node that is bypassed and has faded out.\<close>

definition bypassed_gain :: chain_model where
  "bypassed_gain = snd (chain_call (OpSetBypass 0 True) one_gain)"

definition bypassed_gain_rt :: chain_rt where
  "bypassed_gain_rt =
     \<lparr>rt_slots = (\<lambda>_. slot_inactive)(0 := slot_inactive\<lparr>ns_active := True, ns_bypassed := True\<rparr>),
      rt_order = [0], rt_plan = [], rt_source_rate = 200, rt_over_90_streak = 0, rt_under_90_streak = 0,
      rt_over_budget = False, rt_auto_bypassed_this_window = False, rt_overload_count = 0\<rparr>"

lemma bypassed_gain_eq:
  "bypassed_gain = \<lparr>cm_nodes = [\<lparr>nm_id = 0, nm_slot = 0, nm_kind = Gain, nm_owner = HostNode, nm_params = [0, 0],
      nm_bypassed = True, nm_auto_bypassed = False, nm_mode_state = None, nm_orphaned = False\<rparr>],
     cm_free_slots = - 2, cm_next_id = 1, cm_source_rate = 200, cm_revision = 2\<rparr>"
  by (simp add: bypassed_gain_def one_gain_eq set_bypass_def find_node_def or_nothing_def update_node_def bump_def)

lemma bypassed_gain_in_step: "in_step bypassed_gain bypassed_gain_rt"
  by (simp add: in_step_def agrees_def rt_ok_def same_rate_def nodes_agree_def fading_at_most_def
      bypassed_gain_eq bypassed_gain_rt_def slot_agrees_def targets_agree_def slot_inactive_def
      target_of_def smoothed_new_def table_defs MAX_NODES_def free_slot_def EPSILON_def)

lemma removed_bypassed_node_never_leaves_witness:
  "0 \<in> set (rt_order (renders [a_render, a_render, a_render] (apply_commands [ChainRemove 0] bypassed_gain_rt)))"
proof -
  have ok: "chain_ok bypassed_gain" unfolding bypassed_gain_def by (rule chain_call_ok [OF one_gain_ok])
  have f: "find_node 0 bypassed_gain = Inr 0" by (simp add: find_node_def bypassed_gain_eq)
  have p: "pairs_ok bypassed_gain_rt" by (simp add: pairs_ok_def bypassed_gain_rt_def)
  obtain m' where r: "chain_remove 0 bypassed_gain = Inr ([ChainRemove 0], m')"
    using f by (simp add: chain_remove_def Let_def) (simp add: bypassed_gain_eq)
  show ?thesis
    using removed_bypassed_node_never_leaves [OF ok bypassed_gain_in_step p f _ _ _ r, of "[a_render, a_render, a_render]"]
    by (simp add: bypassed_gain_eq has_mode_def bypassed_gain_rt_def slot_inactive_def crossfade_settled_def)
qed

section \<open>A node added while a removal fades\<close>

lemma lowest_free_unique:
  "s \<in> F \<Longrightarrow> \<forall>t\<in>F. s \<le> t \<Longrightarrow> s' \<in> F \<Longrightarrow> \<forall>t\<in>F. s' \<le> t \<Longrightarrow> s = (s' :: nat)"
  by (meson dual_order.antisym)

text \<open>
  C29. A node added right after the removal of one whose slot is the lowest free one gets that slot,
  and while the removal fades the engine ignores the insertion: once the fade is over the engine is in
  step with the chain without the new node, and not with the controller's chain, which has it.
\<close>

theorem node_added_during_a_fade_is_lost:
  assumes ok: "chain_ok m" and st: "in_step m rt" and i: "find_node i m = Inr idx"
    and w: "cf_to_wet (ns_mix (rt_slots rt (nm_slot (cm_nodes m ! idx))))"
    and low: "\<forall>t\<in>free_bits (cm_free_slots m). nm_slot (cm_nodes m ! idx) < t"
    and r: "chain_remove i m = Inr (c1, m1)" and a: "add_at kind ow index m1 = Inr ((j, c2), m2)"
    and rs: "list_all steady rs" "crossfade_frames rt \<le> length rs"
  shows "in_step m1 (renders rs (apply_commands (c1 @ c2) rt)) \<and>
    \<not> in_step m2 (renders rs (apply_commands (c1 @ c2) rt))"
proof -
  let ?s = "nm_slot (cm_nodes m ! idx)"
  from r have idx: "idx < length (cm_nodes m)" using find_node_Inr [OF i] by simp
  note d = in_stepD [OF st idx]
  have m1: "c1 = [ChainRemove ?s]" "cm_free_slots m1 = cm_free_slots m OR slot_bit ?s"
    using r i by (auto simp: chain_remove_def Let_def release_slot_def)
  have f: "free_bits (cm_free_slots m1) = insert ?s (free_bits (cm_free_slots m))"
    using free_bits_set [of ?s] d(3) m1(2) by (simp add: MAX_NODES_def)
  obtain s node where s: "s = ?s" "c2 = [ChainInsert s (min index (length (cm_nodes m1))) kind ow]"
    "cm_nodes m2 = insert_nth (min index (length (cm_nodes m1))) node (cm_nodes m1)"
    using a
  proof (cases rule: add_at_cases)
    case (1 s node)
    have "s = ?s"
      using lowest_free_unique [of s "free_bits (cm_free_slots m1)" ?s] 1(2,3) f low by auto
    with 1 that show thesis by simp
  qed
  obtain t where dep: "departing m1 t (crossfade_frames rt) (apply_commands c1 rt)"
    using remove_command [OF ok st r] w i by auto
  have "ns_active (rt_slots (apply_commands c1 rt) ?s)"
    using m1(1) d(3,4) by (simp add: apply_remove_def)
  then have "apply_commands (c1 @ c2) rt = apply_commands c1 rt"
    by (simp add: apply_commands_append s(1,2) apply_insert_def)
  then have in1: "in_step m1 (renders rs (apply_commands (c1 @ c2) rt))"
    using departing_renders [OF dep rs] by simp
  have "length (cm_nodes m2) = Suc (length (cm_nodes m1))"
    using s(3) by (simp add: insert_nth_def)
  then have "\<not> in_step m2 (renders rs (apply_commands (c1 @ c2) rt))"
    using in1 by (auto simp: in_step_def agrees_def dest: arg_cong [where f = length])
  with in1 show ?thesis ..
qed

lemma node_added_during_a_fade_is_lost_witness:
  "\<exists>m1. in_step m1 (renders [a_render] (apply_commands [ChainRemove 0, ChainInsert 0 0 Filter HostNode] one_gain_rt))"
proof -
  have f: "find_node 0 one_gain = Inr 0" by (simp add: find_node_def one_gain_eq)
  have free: "free_bits (cm_free_slots one_gain) = {..<16} - {0}"
    using one_gain_ok by (simp add: chain_ok_def) (simp add: one_gain_eq)
  have nodes: "nm_slot (cm_nodes one_gain ! 0) = 0" by (simp add: one_gain_eq)
  have "slot_agrees (cm_nodes one_gain ! 0) (rt_slots one_gain_rt 0)"
    using in_stepD(1) [OF one_gain_in_step, of 0] nodes by (simp add: one_gain_eq)
  then have w: "cf_to_wet (ns_mix (rt_slots one_gain_rt 0))" by (simp add: slot_agrees_def one_gain_eq)
  obtain m1 where r: "chain_remove 0 one_gain = Inr ([ChainRemove 0], m1)"
      and fr: "cm_free_slots m1 = cm_free_slots one_gain OR slot_bit 0" and len: "cm_nodes m1 = []"
    using f nodes by (simp add: chain_remove_def release_slot_def Let_def) (simp add: one_gain_eq remove_nth_def)
  have fb: "free_bits (cm_free_slots m1) = {..<16}"
  proof -
    have "free_bits (cm_free_slots m1) = insert 0 (free_bits (cm_free_slots one_gain))"
      unfolding fr by (rule free_bits_set) simp
    also have "\<dots> = {..<16}" unfolding free by (rule insert_Diff) simp
    finally show ?thesis .
  qed
  have "\<exists>j m2. add_at Filter HostNode 0 m1 = Inr ((j, [ChainInsert 0 0 Filter HostNode]), m2)"
  proof -
    have "0 \<in> free_bits (cm_free_slots m1)" using fb by simp
    then have "allocate_slot m1 \<noteq> None" by (auto simp: allocate_slot_None)
    then obtain s m' where al: "allocate_slot m1 = Some (s, m')" by auto
    have "s = 0" using allocate_slot_Some(1,2) [OF al] fb by auto
    then show ?thesis using al allocate_slot_Some(3) [OF al] len by (simp add: add_at_def Let_def MAX_NODES_def)
  qed
  then obtain j m2 where a: "add_at Filter HostNode 0 m1 = Inr ((j, [ChainInsert 0 0 Filter HostNode]), m2)" by blast
  show ?thesis
    using node_added_during_a_fade_is_lost [OF one_gain_ok one_gain_in_step f _ _ r a, of "[a_render]"] nodes w free
    by auto
qed

end
