(* ===== verification/Library_Sync.thy ===== *)
theory Library_Sync
  imports Library_Index
begin

text \<open>
  The scheduler of library synchronisation (\<^verbatim>\<open>library/sync.rs\<close>): one cycle fetches the
  four sets page by page, with one request out at a time; a rate limit delays the request that was
  refused. Times are milliseconds.
\<close>

definition SYNC_INTERVAL :: nat where "SYNC_INTERVAL = 15 * 60 * 1000"
definition SYNC_PAGE :: nat where "SYNC_PAGE = 200"

definition SET_ORDER :: "library_set list" where
  "SET_ORDER = [SavedTracks, SavedAlbums, FollowedArtists, Playlists]"

datatype scheduler_state =
    SchedulerIdle
  | Syncing library_set "ustring option" nat  \<comment> \<open>page, started\<close>
  | BackingOff nat nat                        \<comment> \<open>until, attempt\<close>

text \<open>The commands of the library to the source.\<close>

datatype library_command =
    FetchLibrary nat library_set "ustring option" nat  \<comment> \<open>request, page, limit\<close>
  | FetchTrackList nat track_list_source
  | HydrateRefs nat hydrate_batch

record sync_scheduler =
  sr_state :: scheduler_state
  sr_current_set :: "library_set option"
  sr_current_page :: "ustring option"
  sr_queued_sets :: "library_set list"
  sr_cycle_partial :: bool
  sr_cycle_failed :: bool
  sr_backoff_attempt :: nat
  sr_last_synced_at :: "nat option"
  sr_next_request_id :: nat
  sr_in_flight :: "nat option"
  sr_last_outcome :: "sync_outcome option"

definition scheduler_new :: sync_scheduler where
  "scheduler_new =
     \<lparr>sr_state = SchedulerIdle, sr_current_set = None, sr_current_page = None, sr_queued_sets = [],
      sr_cycle_partial = False, sr_cycle_failed = False, sr_backoff_attempt = 0,
      sr_last_synced_at = None, sr_next_request_id = 0, sr_in_flight = None, sr_last_outcome = None\<rparr>"

definition sync_refreshing :: "sync_scheduler \<Rightarrow> bool" where
  "sync_refreshing s \<longleftrightarrow> (case sr_state s of BackingOff _ _ \<Rightarrow> True | _ \<Rightarrow> False)"

definition is_syncing :: "sync_scheduler \<Rightarrow> bool" where
  "is_syncing s \<longleftrightarrow> sr_state s \<noteq> SchedulerIdle"

definition take_last_outcome :: "sync_scheduler \<Rightarrow> sync_outcome option \<times> sync_scheduler" where
  "take_last_outcome s = (sr_last_outcome s, s\<lparr>sr_last_outcome := None\<rparr>)"

definition complete_cycle :: "nat \<Rightarrow> sync_scheduler \<Rightarrow> sync_scheduler" where
  "complete_cycle now s =
     s\<lparr>sr_state := SchedulerIdle, sr_last_synced_at := Some now,
       sr_last_outcome := Some (if sr_cycle_failed s then SyncFailed
                                else if sr_cycle_partial s then SyncPartial else SyncOk)\<rparr>"

definition issue_current :: "nat \<Rightarrow> sync_scheduler \<Rightarrow> library_command list \<times> sync_scheduler" where
  "issue_current now s =
     (case sr_current_set s of
        None \<Rightarrow> ([], complete_cycle now s)
      | Some ls \<Rightarrow>
          ([FetchLibrary (sr_next_request_id s) ls (sr_current_page s) SYNC_PAGE],
           s\<lparr>sr_next_request_id := sr_next_request_id s + 1,
             sr_in_flight := Some (sr_next_request_id s),
             sr_state := Syncing ls (sr_current_page s) now\<rparr>))"

definition start_cycle :: "nat \<Rightarrow> sync_scheduler \<Rightarrow> library_command list \<times> sync_scheduler" where
  "start_cycle now s =
     issue_current now
       (s\<lparr>sr_current_set := Some (hd SET_ORDER), sr_queued_sets := tl SET_ORDER, sr_current_page := None,
          sr_cycle_partial := False, sr_cycle_failed := False, sr_backoff_attempt := 0\<rparr>)"

definition sync_trigger :: "nat \<Rightarrow> sync_scheduler \<Rightarrow> library_command list \<times> sync_scheduler" where
  "sync_trigger now s = start_cycle now s"

definition sync_tick :: "nat \<Rightarrow> bool \<Rightarrow> sync_scheduler \<Rightarrow> library_command list \<times> sync_scheduler" where
  "sync_tick now online s =
     (if \<not> online then
        ([], if sr_state s = SchedulerIdle then s else s\<lparr>sr_state := SchedulerIdle, sr_in_flight := None\<rparr>)
      else case sr_state s of
        SchedulerIdle \<Rightarrow>
          (case sr_last_synced_at s of
             None \<Rightarrow> start_cycle now s
           | Some since \<Rightarrow> if SYNC_INTERVAL \<le> now - since then start_cycle now s else ([], s))
      | BackingOff until _ \<Rightarrow> if until \<le> now then issue_current now s else ([], s)
      | Syncing _ _ _ \<Rightarrow> ([], s))"

definition advance_to_next_set :: "nat \<Rightarrow> sync_scheduler \<Rightarrow> library_command list \<times> sync_scheduler" where
  "advance_to_next_set now s =
     issue_current now
       (case sr_queued_sets s of
          [] \<Rightarrow> s\<lparr>sr_current_page := None, sr_current_set := None\<rparr>
        | q # qs \<Rightarrow> s\<lparr>sr_current_page := None, sr_current_set := Some q, sr_queued_sets := qs\<rparr>)"

definition sync_apply_reply ::
  "nat \<Rightarrow> nat \<Rightarrow> (catalog_error + library_page) \<Rightarrow> sync_scheduler
    \<Rightarrow> (library_page option \<times> library_command list) \<times> sync_scheduler"
where
  "sync_apply_reply now request_id result s =
     (if sr_in_flight s \<noteq> Some request_id then ((None, []), s)
      else let s = s\<lparr>sr_in_flight := None\<rparr> in
        case result of
          Inr page \<Rightarrow>
            (let s = s\<lparr>sr_current_page := lp_next_page page\<rparr>;
                 (cmds, s) = (if lp_next_page page \<noteq> None then issue_current now s
                              else advance_to_next_set now s)
             in ((Some page, cmds), s))
        | Inl (CatalogRateLimited retry_after) \<Rightarrow>
            ((None, []),
             s\<lparr>sr_state := BackingOff (now + backoff_delay (sr_backoff_attempt s) retry_after) (sr_backoff_attempt s),
               sr_backoff_attempt := min (sr_backoff_attempt s + 1) 255\<rparr>)
        | Inl CatalogUnsupported \<Rightarrow>
            (let (cmds, s) = advance_to_next_set now (s\<lparr>sr_cycle_partial := True\<rparr>) in ((None, cmds), s))
        | Inl _ \<Rightarrow>
            (let (cmds, s) = advance_to_next_set now (s\<lparr>sr_cycle_failed := True\<rparr>) in ((None, cmds), s)))"

section \<open>The invariant of the scheduler\<close>

text \<open>
  A request is out exactly while the state is \<open>Syncing\<close>, and it is the one the state shows; request
  identifiers are never used twice; a scheduler that is not idle knows the set it is at.
\<close>

definition sync_ok :: "sync_scheduler \<Rightarrow> bool" where
  "sync_ok s \<longleftrightarrow>
     (case sr_state s of
        SchedulerIdle \<Rightarrow> sr_in_flight s = None
      | Syncing ls page _ \<Rightarrow> sr_in_flight s = Some (sr_next_request_id s - 1) \<and> 0 < sr_next_request_id s \<and>
          sr_current_set s = Some ls \<and> sr_current_page s = page
      | BackingOff _ attempt \<Rightarrow> sr_in_flight s = None \<and> sr_current_set s \<noteq> None \<and>
          sr_backoff_attempt s = min (attempt + 1) 255)"

lemma issue_current_ok:
  "sr_in_flight s = None \<Longrightarrow> sync_ok (snd (issue_current now s))"
  by (simp add: issue_current_def complete_cycle_def sync_ok_def split: option.split)

lemma issue_current_some_ok:
  "sr_current_set s \<noteq> None \<Longrightarrow> sync_ok (snd (issue_current now s))"
  by (auto simp: issue_current_def sync_ok_def)

lemma sync_trigger_ok: "sync_ok (snd (sync_trigger now s))"
  by (simp add: sync_trigger_def start_cycle_def issue_current_some_ok)

lemma sync_tick_ok: "sync_ok s \<Longrightarrow> sync_ok (snd (sync_tick now online s))"
proof (cases "sr_state s")
  case SchedulerIdle
  assume "sync_ok s"
  then show ?thesis using SchedulerIdle sync_trigger_ok [of now s]
    by (auto simp: sync_tick_def sync_trigger_def split: option.split)
next
  case (Syncing ls page started)
  assume "sync_ok s"
  then show ?thesis using Syncing by (auto simp: sync_tick_def sync_ok_def)
next
  case (BackingOff until attempt)
  assume ok: "sync_ok s"
  then have "sr_current_set s \<noteq> None" using BackingOff by (simp add: sync_ok_def)
  then have "sync_ok (snd (issue_current now s))" by (rule issue_current_some_ok)
  moreover have "sync_ok (s\<lparr>sr_state := SchedulerIdle, sr_in_flight := None\<rparr>)" by (simp add: sync_ok_def)
  ultimately show ?thesis using BackingOff ok by (simp add: sync_tick_def)
qed

lemma advance_ok: "sr_in_flight s = None \<Longrightarrow> sync_ok (snd (advance_to_next_set now s))"
  by (auto simp: advance_to_next_set_def intro!: issue_current_ok split: list.split)

lemma sync_apply_reply_ok: "sync_ok s \<Longrightarrow> sync_ok (snd (sync_apply_reply now r result s))"
proof (cases "sr_in_flight s = Some r")
  case True
  assume ok: "sync_ok s"
  then obtain ls where ls: "sr_current_set s = Some ls"
    using True by (auto simp: sync_ok_def split: scheduler_state.splits)
  show ?thesis
  proof (cases result)
    case (Inr page)
    then show ?thesis using True ls
      by (auto simp: sync_apply_reply_def Let_def split_def issue_current_ok advance_ok)
  next
    case (Inl e)
    then show ?thesis using True ls
      by (cases e) (auto simp: sync_apply_reply_def Let_def split_def advance_ok, auto simp: sync_ok_def)
  qed
qed (simp add: sync_apply_reply_def)

end
