(* ===== verification/Library_Cycle.thy ===== *)
theory Library_Cycle
  imports Library_Sync
begin

text \<open>
  A whole cycle of library synchronisation: the source answers every request, possibly after refusing
  it for a while, and the scheduler asks again when the backoff is over. A script lists, for one set,
  what the source answers: for each page the delays it demands first and then its result.
\<close>

type_synonym exchange = "nat option list \<times> (catalog_error + library_page)"

definition resume_time :: "nat \<Rightarrow> sync_scheduler \<Rightarrow> nat" where
  "resume_time now s = (case sr_state s of BackingOff until _ \<Rightarrow> until | _ \<Rightarrow> now)"

fun refused :: "nat \<Rightarrow> nat option list \<Rightarrow> sync_scheduler \<Rightarrow> nat \<times> library_command list \<times> sync_scheduler" where
  "refused now [] s = (now, [], s)"
| "refused now (ra # ras) s =
     (let s1 = snd (sync_apply_reply now (the (sr_in_flight s)) (Inl (CatalogRateLimited ra)) s);
          later = resume_time now s1;
          (c, s2) = sync_tick later True s1;
          (later', cs, s3) = refused later ras s2
      in (later', c @ cs, s3))"

fun serve :: "nat \<Rightarrow> exchange list \<Rightarrow> sync_scheduler
    \<Rightarrow> nat \<times> library_command list \<times> library_page list \<times> sync_scheduler" where
  "serve now [] s = (now, [], [], s)"
| "serve now ((ras, result) # es) s =
     (let (now1, c1, s1) = refused now ras s;
          ((page, c2), s2) = sync_apply_reply now1 (the (sr_in_flight s1)) result s1;
          (now2, c3, pages, s3) = serve now1 es s2
      in (now2, c1 @ c2 @ c3, (case page of None \<Rightarrow> pages | Some p \<Rightarrow> p # pages), s3))"

text \<open>A script of a set ends with its last page or with an error that is no rate limit.\<close>

fun ends_set :: "catalog_error + library_page \<Rightarrow> bool" where
  "ends_set (Inr page) \<longleftrightarrow> lp_next_page page = None"
| "ends_set (Inl (CatalogRateLimited _)) \<longleftrightarrow> False"
| "ends_set (Inl _) \<longleftrightarrow> True"

fun set_script :: "exchange list \<Rightarrow> bool" where
  "set_script [] \<longleftrightarrow> False"
| "set_script [e] \<longleftrightarrow> ends_set (snd e)"
| "set_script (e # es) \<longleftrightarrow> (case snd e of Inr page \<Rightarrow> lp_next_page page \<noteq> None | Inl _ \<Rightarrow> False) \<and> set_script es"

definition next_token :: "exchange \<Rightarrow> ustring option" where
  "next_token e = (case snd e of Inr page \<Rightarrow> lp_next_page page | Inl _ \<Rightarrow> None)"

text \<open>The requests a script calls for: each page once, and once more for every refusal.\<close>

fun requests_of :: "library_set \<Rightarrow> ustring option \<Rightarrow> exchange list \<Rightarrow> (library_set \<times> ustring option) list" where
  "requests_of ls t [] = []"
| "requests_of ls t (e # es) = replicate (Suc (length (fst e))) (ls, t) @ requests_of ls (next_token e) es"

fun numbered :: "nat \<Rightarrow> (library_set \<times> ustring option) list \<Rightarrow> library_command list" where
  "numbered n [] = []"
| "numbered n (r # rs) = FetchLibrary n (fst r) (snd r) SYNC_PAGE # numbered (Suc n) rs"

lemma numbered_append: "numbered n (rs @ qs) = numbered n rs @ numbered (n + length rs) qs"
  by (induction rs arbitrary: n) auto

fun successes :: "exchange list \<Rightarrow> library_page list" where
  "successes [] = []"
| "successes (e # es) = (case snd e of Inr p \<Rightarrow> p # successes es | Inl _ \<Rightarrow> successes es)"

lemma successes_append: "successes (xs @ ys) = successes xs @ successes ys"
  by (induction xs) (auto split: sum.split)

definition set_failed :: "exchange list \<Rightarrow> bool" where
  "set_failed es \<longleftrightarrow> (case snd (last es) of Inl CatalogUnsupported \<Rightarrow> False | Inl _ \<Rightarrow> True | Inr _ \<Rightarrow> False)"

definition set_unsupported :: "exchange list \<Rightarrow> bool" where
  "set_unsupported es \<longleftrightarrow> snd (last es) = Inl CatalogUnsupported"

section \<open>One request\<close>

text \<open>The scheduler waits for request \<open>n\<close>, for the given page of the given set.\<close>

definition waiting ::
  "library_set \<Rightarrow> ustring option \<Rightarrow> library_set list \<Rightarrow> bool \<Rightarrow> bool \<Rightarrow> nat \<Rightarrow> sync_scheduler \<Rightarrow> bool"
where
  "waiting ls t qs p f n s \<longleftrightarrow>
     sr_current_set s = Some ls \<and> sr_current_page s = t \<and> sr_queued_sets s = qs \<and>
     sr_cycle_partial s = p \<and> sr_cycle_failed s = f \<and> sr_in_flight s = Some n \<and>
     sr_next_request_id s = Suc n \<and> (\<exists>started. sr_state s = Syncing ls t started)"

definition finished :: "nat \<Rightarrow> bool \<Rightarrow> bool \<Rightarrow> nat \<Rightarrow> sync_scheduler \<Rightarrow> bool" where
  "finished now p f n s \<longleftrightarrow>
     sr_state s = SchedulerIdle \<and> sr_last_synced_at s = Some now \<and> sr_next_request_id s = n \<and>
     sr_last_outcome s = Some (if f then SyncFailed else if p then SyncPartial else SyncOk)"

text \<open>After a set: either the next one is asked for, or the cycle is over.\<close>

definition moved_on :: "nat \<Rightarrow> library_set list \<Rightarrow> bool \<Rightarrow> bool \<Rightarrow> nat \<Rightarrow> sync_scheduler \<Rightarrow> bool" where
  "moved_on now qs p f n s \<longleftrightarrow>
     (case qs of [] \<Rightarrow> finished now p f n s | q # qs' \<Rightarrow> waiting q None qs' p f n s)"

lemma refused_step:
  assumes "waiting ls t qs p f n s" and "refused now [ra] s = (later, cs, s')"
  shows "waiting ls t qs p f (Suc n) s' \<and> cs = numbered (Suc n) [(ls, t)]"
  using assms
  by (auto simp: waiting_def sync_apply_reply_def resume_time_def sync_tick_def issue_current_def Let_def)

lemma refused_Cons:
  "refused now (ra # ras) s =
     (let (later, c, s1) = refused now [ra] s; (later', cs, s2) = refused later ras s1 in (later', c @ cs, s2))"
  by (simp add: Let_def split_def)

lemma refused_waiting:
  "waiting ls t qs p f n s \<Longrightarrow> refused now ras s = (later, cs, s') \<Longrightarrow>
     waiting ls t qs p f (n + length ras) s' \<and> cs = numbered (Suc n) (replicate (length ras) (ls, t))"
proof (induction ras arbitrary: now n s later cs s')
  case Nil
  then show ?case by simp
next
  case (Cons ra ras)
  obtain m c s1 where r1: "refused now [ra] s = (m, c, s1)" by (metis prod.exhaust)
  obtain l cs2 s2 where r2: "refused m ras s1 = (l, cs2, s2)" by (metis prod.exhaust)
  have "waiting ls t qs p f (Suc n) s1 \<and> c = numbered (Suc n) [(ls, t)]"
    using Cons.prems(1) r1 by (rule refused_step)
  moreover from this have "waiting ls t qs p f (Suc n + length ras) s2 \<and>
      cs2 = numbered (Suc (Suc n)) (replicate (length ras) (ls, t))"
    using Cons.IH [OF _ r2] by blast
  moreover have "later = l" "cs = c @ cs2" "s' = s2"
    using Cons.prems(2) unfolding refused_Cons [of now ra ras s] r1 by (simp_all add: r2)
  ultimately show ?case by simp
qed

lemma reply_more:
  assumes "waiting ls t qs p f n s" and "lp_next_page page = Some tok"
  shows "\<exists>s'. sync_apply_reply now n (Inr page) s = ((Some page, numbered (Suc n) [(ls, Some tok)]), s') \<and>
    waiting ls (Some tok) qs p f (Suc n) s'"
  using assms by (auto simp: waiting_def sync_apply_reply_def issue_current_def Let_def)

definition next_commands :: "nat \<Rightarrow> library_set list \<Rightarrow> library_command list" where
  "next_commands n qs = numbered n (case qs of [] \<Rightarrow> [] | q # _ \<Rightarrow> [(q, None)])"

lemma advance_moves_on:
  assumes "sr_queued_sets s = qs" "sr_cycle_partial s = p" "sr_cycle_failed s = f" "sr_next_request_id s = n"
  shows "\<exists>s'. advance_to_next_set now s = (next_commands n qs, s') \<and> moved_on now qs p f n s'"
  using assms
  by (cases qs) (auto simp: advance_to_next_set_def issue_current_def complete_cycle_def moved_on_def
      waiting_def finished_def next_commands_def)

definition page_of :: "catalog_error + library_page \<Rightarrow> library_page option" where
  "page_of r = (case r of Inr page \<Rightarrow> Some page | Inl _ \<Rightarrow> None)"

lemma last_reply:
  assumes w: "waiting ls t qs p f n s" and e: "ends_set (snd x)"
  shows "\<exists>s'. sync_apply_reply now n (snd x) s = ((page_of (snd x), next_commands (Suc n) qs), s') \<and>
    moved_on now qs (p \<or> set_unsupported [x]) (f \<or> set_failed [x]) (Suc n) s'"
proof -
  have fl: "sr_in_flight s = Some n" using w by (simp add: waiting_def)
  note ini = waiting_def sync_apply_reply_def Let_def page_of_def set_unsupported_def set_failed_def
  show ?thesis
  proof (cases "snd x")
    case (Inr page)
    let ?s = "s\<lparr>sr_in_flight := None, sr_current_page := lp_next_page page\<rparr>"
    have "\<exists>s'. advance_to_next_set now ?s = (next_commands (Suc n) qs, s') \<and> moved_on now qs p f (Suc n) s'"
      using w by (intro advance_moves_on) (simp_all add: waiting_def)
    then show ?thesis using Inr e fl by (auto simp: ini)
  next
    case (Inl err)
    let ?f = "s\<lparr>sr_in_flight := None, sr_cycle_failed := True\<rparr>" and ?p = "s\<lparr>sr_in_flight := None, sr_cycle_partial := True\<rparr>"
    have "\<exists>s'. advance_to_next_set now ?f = (next_commands (Suc n) qs, s') \<and> moved_on now qs p True (Suc n) s'"
      "\<exists>s'. advance_to_next_set now ?p = (next_commands (Suc n) qs, s') \<and> moved_on now qs True f (Suc n) s'"
      using w by (intro advance_moves_on; simp add: waiting_def)+
    then show ?thesis using Inl e fl by (cases err) (auto simp: ini)
  qed
qed

section \<open>A set\<close>

lemma requests_of_tl:
  "requests_of ls t (e # es) = (ls, t) # replicate (length (fst e)) (ls, t) @ requests_of ls (next_token e) es"
  by simp

lemma serve_set:
  "set_script es \<Longrightarrow> waiting ls t qs p f n s \<Longrightarrow>
     \<exists>now' s'. (\<forall>rest. serve now (es @ rest) s =
         (let (now2, c, pages, s2) = serve now' rest s'
          in (now2, numbered (Suc n) (tl (requests_of ls t es)) @
                next_commands (n + length (requests_of ls t es)) qs @ c, successes es @ pages, s2))) \<and>
       moved_on now' qs (p \<or> set_unsupported es) (f \<or> set_failed es) (n + length (requests_of ls t es)) s'"
proof (induction es arbitrary: now t n s rule: set_script.induct)
  case 1
  then show ?case by simp
next
  case (2 x)
  obtain ras r where x: "x = (ras, r)" by (cases x)
  obtain now1 c1 s1 where r1: "refused now ras s = (now1, c1, s1)" by (metis prod.exhaust)
  note w = refused_waiting [OF 2(2) r1]
  then have fl: "sr_in_flight s1 = Some (n + length ras)" by (simp add: waiting_def)
  obtain s' where s': "sync_apply_reply now1 (n + length ras) r s1 = ((page_of r, next_commands (Suc (n + length ras)) qs), s')"
      "moved_on now1 qs (p \<or> set_unsupported [x]) (f \<or> set_failed [x]) (Suc (n + length ras)) s'"
    using last_reply [OF conjunct1 [OF w], of x now1] 2(1) by (auto simp: x)
  have "serve now ([x] @ rest) s =
      (let (now2, c, pages, s2) = serve now1 rest s'
       in (now2, numbered (Suc n) (tl (requests_of ls t [x])) @
             next_commands (n + length (requests_of ls t [x])) qs @ c, successes [x] @ pages, s2))" for rest
    using r1 s'(1) fl w by (simp add: x split_def page_of_def split: sum.split)
  then show ?case using s'(2) x by (intro exI [of _ now1] exI [of _ s']) simp
next
  case (3 x y es)
  obtain ras page tok where x: "x = (ras, Inr page)" "lp_next_page page = Some tok" and es: "set_script (y # es)"
    using 3(2) by (cases x; cases "snd x") auto
  obtain now1 c1 s1 where r1: "refused now ras s = (now1, c1, s1)" by (metis prod.exhaust)
  note w = refused_waiting [OF 3(3) r1]
  then have fl: "sr_in_flight s1 = Some (n + length ras)" by (simp add: waiting_def)
  let ?n = "Suc (n + length ras)"
  obtain s2 where s2: "sync_apply_reply now1 (n + length ras) (Inr page) s1 = ((Some page, numbered ?n [(ls, Some tok)]), s2)"
      "waiting ls (Some tok) qs p f ?n s2"
    using reply_more [OF conjunct1 [OF w] x(2), of now1] by auto
  obtain now' s' where ih: "\<And>rest. serve now1 ((y # es) @ rest) s2 =
         (let (now2, c, pages, s2) = serve now' rest s'
          in (now2, numbered (Suc ?n) (tl (requests_of ls (Some tok) (y # es))) @
                next_commands (?n + length (requests_of ls (Some tok) (y # es))) qs @ c, successes (y # es) @ pages, s2))"
      "moved_on now' qs (p \<or> set_unsupported (y # es)) (f \<or> set_failed (y # es)) (?n + length (requests_of ls (Some tok) (y # es))) s'"
    using 3(1) [OF es s2(2), of now1] by blast
  have tok: "next_token x = Some tok" using x by (simp add: next_token_def)
  have reqs: "requests_of ls t (x # y # es) = (ls, t) # replicate (length ras) (ls, t) @ requests_of ls (Some tok) (y # es)"
    using tok x(1) by simp
  have hd: "requests_of ls (Some tok) (y # es) = (ls, Some tok) # tl (requests_of ls (Some tok) (y # es))" by simp
  have cmds: "numbered (Suc n) (tl (requests_of ls t (x # y # es))) =
      c1 @ numbered ?n [(ls, Some tok)] @ numbered (Suc ?n) (tl (requests_of ls (Some tok) (y # es)))"
    unfolding reqs list.sel(3) numbered_append
    by (subst hd) (simp add: w del: requests_of.simps)
  have len: "length (requests_of ls t (x # y # es)) = Suc (length ras + length (requests_of ls (Some tok) (y # es)))"
    unfolding reqs by simp
  have "serve now ((x # y # es) @ rest) s =
      (let (now2, c, pages, s2) = serve now' rest s'
       in (now2, numbered (Suc n) (tl (requests_of ls t (x # y # es))) @
             next_commands (n + length (requests_of ls t (x # y # es))) qs @ c, successes (x # y # es) @ pages, s2))" for rest
    unfolding cmds len using r1 s2(1) fl ih(1) [of rest] w
    by (simp add: x(1) Let_def split_def add.assoc del: requests_of.simps)
  moreover have "set_unsupported (x # y # es) = set_unsupported (y # es)" "set_failed (x # y # es) = set_failed (y # es)"
    by (simp_all add: set_unsupported_def set_failed_def)
  ultimately show ?case using ih(2) by (intro exI [of _ now'] exI [of _ s']) (simp add: len add.assoc del: requests_of.simps)
qed

section \<open>The cycle\<close>

text \<open>What the cycle asks for: the sets in turn, each from its first page.\<close>

fun cycle_requests :: "library_set list \<Rightarrow> exchange list list \<Rightarrow> (library_set \<times> ustring option) list" where
  "cycle_requests (ls # qs) (es # scripts) = requests_of ls None es @ cycle_requests qs scripts"
| "cycle_requests _ _ = []"

lemma requests_Cons: "set_script es \<Longrightarrow> requests_of ls t es = (ls, t) # tl (requests_of ls t es)"
  by (cases es) simp_all

lemma serve_cycle:
  assumes "set_script es" "list_all set_script scripts" "length scripts = length qs" "waiting ls None qs p f n s"
  shows "\<exists>now' s'. serve now (concat (es # scripts)) s =
      (now', tl (numbered n (cycle_requests (ls # qs) (es # scripts))), successes (concat (es # scripts)), s') \<and>
    finished now' (p \<or> list_ex set_unsupported (es # scripts)) (f \<or> list_ex set_failed (es # scripts))
      (n + length (cycle_requests (ls # qs) (es # scripts))) s'"
  using assms
proof (induction scripts arbitrary: now es ls qs p f n s)
  case Nil
  then have qs: "qs = []" by simp
  obtain now' s' where r: "\<And>rest. serve now (es @ rest) s =
         (let (now2, c, pages, s2) = serve now' rest s'
          in (now2, numbered (Suc n) (tl (requests_of ls None es)) @
                next_commands (n + length (requests_of ls None es)) qs @ c, successes es @ pages, s2))"
      "moved_on now' qs (p \<or> set_unsupported es) (f \<or> set_failed es) (n + length (requests_of ls None es)) s'"
    using serve_set [OF Nil(1,4), of now] by blast
  have "tl (numbered n (requests_of ls None es)) = numbered (Suc n) (tl (requests_of ls None es))"
    using requests_Cons [OF Nil(1), of ls None] by (metis list.sel(3) numbered.simps(2))
  then show ?case using r(1) [of "[]"] r(2) qs by (simp add: moved_on_def next_commands_def)
next
  case (Cons es2 scripts)
  then obtain q qs' where qs: "qs = q # qs'" by (cases qs) auto
  obtain now1 s1 where r: "\<And>rest. serve now (es @ rest) s =
         (let (now2, c, pages, s2) = serve now1 rest s1
          in (now2, numbered (Suc n) (tl (requests_of ls None es)) @
                next_commands (n + length (requests_of ls None es)) qs @ c, successes es @ pages, s2))"
      "moved_on now1 qs (p \<or> set_unsupported es) (f \<or> set_failed es) (n + length (requests_of ls None es)) s1"
    using serve_set [OF Cons.prems(1,4), of now] by blast
  let ?n = "n + length (requests_of ls None es)"
  have w: "waiting q None qs' (p \<or> set_unsupported es) (f \<or> set_failed es) ?n s1"
    using r(2) qs by (simp add: moved_on_def)
  obtain now' s' where ih: "serve now1 (concat (es2 # scripts)) s1 =
      (now', tl (numbered ?n (cycle_requests (q # qs') (es2 # scripts))), successes (concat (es2 # scripts)), s')"
    "finished now' ((p \<or> set_unsupported es) \<or> list_ex set_unsupported (es2 # scripts))
      ((f \<or> set_failed es) \<or> list_ex set_failed (es2 # scripts))
      (?n + length (cycle_requests (q # qs') (es2 # scripts))) s'"
    using Cons.IH [OF _ _ _ w, of es2 now1] Cons.prems qs by auto
  have es2: "set_script es2" using Cons.prems(2) by simp
  have n1: "numbered n (requests_of ls None es) = FetchLibrary n ls None SYNC_PAGE # numbered (Suc n) (tl (requests_of ls None es))"
    using requests_Cons [OF Cons.prems(1), of ls None] by (metis fst_conv numbered.simps(2) snd_conv)
  have "cycle_requests (q # qs') (es2 # scripts) = (q, None) # tl (requests_of q None es2) @ cycle_requests qs' scripts"
    using requests_Cons [OF es2, of q None] by (metis append_Cons cycle_requests.simps(1))
  then have n2: "numbered ?n (cycle_requests (q # qs') (es2 # scripts)) =
      next_commands ?n qs @ tl (numbered ?n (cycle_requests (q # qs') (es2 # scripts)))"
    using qs by (simp add: next_commands_def del: cycle_requests.simps)
  have "tl (numbered n (cycle_requests (ls # qs) (es # es2 # scripts))) =
      numbered (Suc n) (tl (requests_of ls None es)) @ next_commands ?n qs @
        tl (numbered ?n (cycle_requests (q # qs') (es2 # scripts)))"
    using n1 n2 qs by (simp add: numbered_append)
  then show ?case using r(1) [of "concat (es2 # scripts)"] ih qs
    by (simp add: successes_append add.assoc disj_assoc)
qed

end
