(* ===== verification/Library_Invariant.thy ===== *)
theory Library_Invariant
  imports Library_Index
begin

text \<open>
  The invariant of the library index (\<^verbatim>\<open>data-model.md\<close> 3.1: ids are unique per set, and an
  id without a hydrated reference is queued for hydration), and that every operation keeps it.
\<close>

section \<open>The invariant\<close>

definition saved_ok :: "('i \<rightharpoonup> nat) \<Rightarrow> 'i saved_entry list \<Rightarrow> bool" where
  "saved_ok pos es \<longleftrightarrow>
     distinct (map sv_id es) \<and> (\<forall>i. pos i = position (\<lambda>e. sv_id e = i) es)"

definition refs_ok :: "('r \<Rightarrow> 'k) \<Rightarrow> ('k, 'r) hash_map \<Rightarrow> bool" where
  "refs_ok key m \<longleftrightarrow> distinct (map fst m) \<and> (\<forall>(k, r)\<in>set m. key r = k)"

definition lists_ok :: "library_index \<Rightarrow> bool" where
  "lists_ok ix \<longleftrightarrow>
     saved_ok (li_track_positions ix) (li_saved_tracks ix) \<and>
     saved_ok (li_album_positions ix) (li_saved_albums ix) \<and>
     distinct (li_followed_artists ix) \<and> li_artist_set ix = set (li_followed_artists ix) \<and>
     distinct (li_playlists ix) \<and> li_playlist_set ix = set (li_playlists ix) \<and>
     refs_ok tr_id (li_tracks ix) \<and> refs_ok al_id (li_albums ix) \<and> refs_ok at_id (li_artists ix) \<and>
     refs_ok pl_id (li_playlist_refs ix) \<and> distinct (map fst (li_track_lists ix)) \<and>
     distinct (map fst (sy_sync_tokens (li_meta ix)))"

text \<open>
  The queue names no track twice; what is pending is not hydrated. For albums and artists a missing
  reply clears the mark of a target without hydrating it, so the first part is about tracks.
\<close>

fun is_track_target :: "hydration_target \<Rightarrow> bool" where
  "is_track_target (TargetTrack _) = True"
| "is_track_target _ = False"

definition hydration_ok :: "library_index \<Rightarrow> bool" where
  "hydration_ok ix \<longleftrightarrow> distinct (filter is_track_target (li_queue ix)) \<and>
     (\<forall>t\<in>set (li_queue ix). is_track_target t \<longrightarrow> t \<in> li_pending ix \<or> is_hydrated t ix) \<and>
     (\<forall>t\<in>li_pending ix. \<not> is_hydrated t ix)"

definition index_ok :: "library_index \<Rightarrow> bool" where
  "index_ok ix \<longleftrightarrow> lists_ok ix \<and> hydration_ok ix"

text \<open>
  What a row on screen needs: every saved track is hydrated or on its way, every playlist has its
  reference. The tracks of \<open>X\<close> and the playlists of \<open>Y\<close> are left out.
\<close>

definition rows_covered :: "track_id set \<Rightarrow> playlist_id set \<Rightarrow> library_index \<Rightarrow> bool" where
  "rows_covered X Y ix \<longleftrightarrow>
     (\<forall>e\<in>set (li_saved_tracks ix).
        sv_id e \<in> X \<or> is_hydrated (TargetTrack (sv_id e)) ix \<or> TargetTrack (sv_id e) \<in> li_pending ix) \<and>
     (\<forall>p\<in>set (li_playlists ix). p \<in> Y \<or> map_of (li_playlist_refs ix) p \<noteq> None)"

named_theorems index_simps \<open>what an operation of the index does to one field\<close>

lemma refs_ok_put [simp, intro]: "refs_ok key m \<Longrightarrow> key v = k \<Longrightarrow> refs_ok key (put k v m)"
  using set_put [of k v m] by (fastforce simp: refs_ok_def)

lemma refs_ok_Nil [simp]: "refs_ok key []" by (simp add: refs_ok_def)

section \<open>The saved lists\<close>

lemma saved_ok_Nil [simp]: "saved_ok Map.empty []"
  by (simp add: saved_ok_def)

lemma position_append:
  "position P (xs @ ys) = (case position P xs of Some i \<Rightarrow> Some i | None \<Rightarrow> map_option ((+) (length xs)) (position P ys))"
  by (cases "position P ys"; induction xs) (auto split: option.splits simp del: position_None_iff)

lemma position_update_same:
  assumes "p < length es" "sv_id e = sv_id (es ! p)"
  shows "position (\<lambda>e. sv_id e = i) (es[p := e]) = position (\<lambda>e. sv_id e = i) es"
  using assms
proof (induction es arbitrary: p)
  case (Cons x es)
  then show ?case by (cases p) auto
qed simp

lemma map_sv_id_update:
  "p < length es \<Longrightarrow> sv_id e = sv_id (es ! p) \<Longrightarrow> map sv_id (es[p := e]) = map sv_id es"
  by (simp add: map_update list_update_same_conv)

lemma saved_ok_pos: "saved_ok pos es \<Longrightarrow> pos i = Some p \<Longrightarrow> p < length es \<and> sv_id (es ! p) = i"
  using position_SomeD [of "\<lambda>e. sv_id e = i" es p] by (simp add: saved_ok_def)

lemma saved_ok_None: "saved_ok pos es \<Longrightarrow> pos i = None \<longleftrightarrow> i \<notin> sv_id ` set es"
  by (auto simp: saved_ok_def)

lemma merge_saved_ids:
  assumes "saved_ok pos es" and "merge_saved i added (pos, es) = (pos', es')"
  shows "map sv_id es' = (if i \<in> sv_id ` set es then map sv_id es else map sv_id es @ [i])"
proof (cases "pos i")
  case None
  then show ?thesis using assms saved_ok_None [OF assms(1), of i] by (auto simp: merge_saved_def)
next
  case (Some p)
  then have p: "p < length es" "sv_id (es ! p) = i" using saved_ok_pos [OF assms(1)] by blast+
  then have "i \<in> sv_id ` set es" by (metis imageI nth_mem)
  then show ?thesis using assms(2) Some p by (auto simp: merge_saved_def map_sv_id_update)
qed

lemma merge_saved_ok:
  assumes "saved_ok pos es" and "merge_saved i added (pos, es) = (pos', es')"
  shows "saved_ok pos' es'"
proof (cases "pos i")
  case None
  have n: "i \<notin> sv_id ` set es" using saved_ok_None [OF assms(1)] None by blast
  have e: "pos' = pos(i \<mapsto> length es)" "es' = es @ [\<lparr>sv_id = i, sv_added_at = added\<rparr>]"
    using assms(2) None by (auto simp: merge_saved_def)
  have "pos' j = position (\<lambda>e. sv_id e = j) es'" for j
  proof (cases "j = i")
    case True
    have "position (\<lambda>e. sv_id e = i) es = None" using n by auto
    then show ?thesis using True e by (simp add: position_append del: position_None_iff)
  next
    case False
    then show ?thesis using assms(1) e
      by (auto simp: saved_ok_def position_append split: option.split simp del: position_None_iff)
  qed
  moreover have "distinct (map sv_id es')" using assms(1) n e by (auto simp: saved_ok_def)
  ultimately show ?thesis by (simp add: saved_ok_def)
next
  case (Some p)
  then have p: "p < length es" "sv_id (es ! p) = i" using saved_ok_pos [OF assms(1)] by blast+
  then show ?thesis using assms Some
    by (auto simp: merge_saved_def saved_ok_def position_update_same map_sv_id_update)
qed

section \<open>Every operation keeps the invariant\<close>

lemma is_hydrated_simps [index_simps]:
  "is_hydrated t (ix\<lparr>li_pending := a\<rparr>) = is_hydrated t ix"
  "is_hydrated t (ix\<lparr>li_queue := b\<rparr>) = is_hydrated t ix"
  "is_hydrated t (ix\<lparr>li_track_positions := c\<rparr>) = is_hydrated t ix"
  "is_hydrated t (ix\<lparr>li_saved_tracks := d\<rparr>) = is_hydrated t ix"
  "is_hydrated t (ix\<lparr>li_album_positions := e\<rparr>) = is_hydrated t ix"
  "is_hydrated t (ix\<lparr>li_saved_albums := f\<rparr>) = is_hydrated t ix"
  "is_hydrated t (ix\<lparr>li_artist_set := g\<rparr>) = is_hydrated t ix"
  "is_hydrated t (ix\<lparr>li_followed_artists := h\<rparr>) = is_hydrated t ix"
  "is_hydrated t (ix\<lparr>li_playlist_set := j\<rparr>) = is_hydrated t ix"
  "is_hydrated t (ix\<lparr>li_playlists := k\<rparr>) = is_hydrated t ix"
  "is_hydrated t (ix\<lparr>li_playlist_refs := l\<rparr>) = is_hydrated t ix"
  "is_hydrated t (ix\<lparr>li_track_lists := m\<rparr>) = is_hydrated t ix"
  "is_hydrated t (ix\<lparr>li_meta := n\<rparr>) = is_hydrated t ix"
  by (auto simp: is_hydrated_def split: hydration_target.split)

lemma is_hydrated_track [index_simps]:
  "is_hydrated t (ix\<lparr>li_tracks := put i r (li_tracks ix)\<rparr>) \<longleftrightarrow> t = TargetTrack i \<or> is_hydrated t ix"
  by (auto simp: is_hydrated_def split: hydration_target.split)

lemma is_hydrated_album [index_simps]:
  "is_hydrated t (ix\<lparr>li_albums := put i r (li_albums ix)\<rparr>) \<longleftrightarrow> t = TargetAlbum i \<or> is_hydrated t ix"
  by (auto simp: is_hydrated_def split: hydration_target.split)

lemma is_hydrated_artist [index_simps]:
  "is_hydrated t (ix\<lparr>li_artists := put i r (li_artists ix)\<rparr>) \<longleftrightarrow> t = TargetArtist i \<or> is_hydrated t ix"
  by (auto simp: is_hydrated_def split: hydration_target.split)

lemma index_new_ok [simp]: "index_ok index_new"
  by (simp add: index_ok_def lists_ok_def hydration_ok_def index_new_def sync_meta_default_def)

lemma index_new_covered [simp]: "rows_covered X Y index_new"
  by (simp add: rows_covered_def index_new_def)

lemma enqueue_fields [simp]:
  "li_saved_tracks (enqueue_hydration t ix) = li_saved_tracks ix"
  "li_saved_albums (enqueue_hydration t ix) = li_saved_albums ix"
  "li_followed_artists (enqueue_hydration t ix) = li_followed_artists ix"
  "li_playlists (enqueue_hydration t ix) = li_playlists ix"
  "li_playlist_refs (enqueue_hydration t ix) = li_playlist_refs ix"
  "li_track_lists (enqueue_hydration t ix) = li_track_lists ix"
  "li_track_positions (enqueue_hydration t ix) = li_track_positions ix"
  "li_album_positions (enqueue_hydration t ix) = li_album_positions ix"
  "li_artist_set (enqueue_hydration t ix) = li_artist_set ix"
  "li_playlist_set (enqueue_hydration t ix) = li_playlist_set ix"
  "li_tracks (enqueue_hydration t ix) = li_tracks ix"
  "li_albums (enqueue_hydration t ix) = li_albums ix"
  "li_artists (enqueue_hydration t ix) = li_artists ix"
  "li_meta (enqueue_hydration t ix) = li_meta ix"
  "is_hydrated u (enqueue_hydration t ix) = is_hydrated u ix"
  by (simp_all add: enqueue_hydration_def index_simps)

lemma enqueue_lists_ok [simp]: "lists_ok (enqueue_hydration t ix) = lists_ok ix"
  by (simp add: lists_ok_def)

lemma enqueue_pending:
  "li_pending (enqueue_hydration t ix) = (if is_hydrated t ix then li_pending ix else insert t (li_pending ix))"
  by (auto simp: enqueue_hydration_def)

lemma enqueue_hydration_ok: "hydration_ok ix \<Longrightarrow> hydration_ok (enqueue_hydration t ix)"
  by (auto simp: enqueue_hydration_def hydration_ok_def index_simps)

lemma hydration_ok_cong:
  assumes "li_queue ix' = li_queue ix" "li_pending ix' = li_pending ix" "\<And>t. is_hydrated t ix' = is_hydrated t ix"
  shows "hydration_ok ix' = hydration_ok ix"
  using assms by (simp add: hydration_ok_def)

lemma merge_item_ok: "index_ok ix \<Longrightarrow> index_ok (merge_item it ix)"
proof (cases it)
  case (ItemTrack t added)
  assume ok: "index_ok ix"
  obtain pos es where m: "merge_saved (tr_id t) added (li_track_positions ix, li_saved_tracks ix) = (pos, es)"
    by fastforce
  have "saved_ok (li_track_positions ix) (li_saved_tracks ix)" using ok by (simp add: index_ok_def lists_ok_def)
  then have "saved_ok pos es" using m by (rule merge_saved_ok)
  then have "lists_ok (ix\<lparr>li_track_positions := pos, li_saved_tracks := es\<rparr>)"
    using ok by (simp add: index_ok_def lists_ok_def)
  moreover have "hydration_ok (ix\<lparr>li_track_positions := pos, li_saved_tracks := es\<rparr>)"
    using ok by (simp add: index_ok_def hydration_ok_def index_simps)
  ultimately show ?thesis using ItemTrack m by (simp add: index_ok_def enqueue_hydration_ok)
next
  case (ItemAlbum a added)
  assume ok: "index_ok ix"
  obtain pos es where m: "merge_saved (al_id a) added (li_album_positions ix, li_saved_albums ix) = (pos, es)"
    by fastforce
  have "saved_ok (li_album_positions ix) (li_saved_albums ix)" using ok by (simp add: index_ok_def lists_ok_def)
  then have "saved_ok pos es" using m by (rule merge_saved_ok)
  then have "lists_ok (ix\<lparr>li_album_positions := pos, li_saved_albums := es\<rparr>)"
    using ok by (simp add: index_ok_def lists_ok_def)
  moreover have "hydration_ok (ix\<lparr>li_album_positions := pos, li_saved_albums := es\<rparr>)"
    using ok by (simp add: index_ok_def hydration_ok_def index_simps)
  ultimately show ?thesis using ItemAlbum m by (simp add: index_ok_def enqueue_hydration_ok)
next
  case (ItemArtist a)
  assume ok: "index_ok ix"
  let ?ix = "ix\<lparr>li_artist_set := insert (at_id a) (li_artist_set ix),
                li_followed_artists := li_followed_artists ix @ [at_id a]\<rparr>"
  have "at_id a \<notin> li_artist_set ix \<Longrightarrow> lists_ok ?ix" using ok by (simp add: index_ok_def lists_ok_def)
  moreover have "hydration_ok ?ix" using ok by (simp add: index_ok_def hydration_ok_def index_simps)
  ultimately show ?thesis using ItemArtist ok by (simp add: index_ok_def enqueue_hydration_ok)
next
  case (ItemPlaylist p)
  assume ok: "index_ok ix"
  then have "lists_ok (merge_item it ix)" using ItemPlaylist by (simp add: index_ok_def lists_ok_def)
  moreover have "hydration_ok (merge_item it ix)"
    using ok ItemPlaylist by (simp add: index_ok_def hydration_ok_def index_simps)
  ultimately show ?thesis by (simp add: index_ok_def)
qed

lemma fold_keeps: "(\<And>x s. P s \<Longrightarrow> P (f x s)) \<Longrightarrow> P s \<Longrightarrow> P (fold f xs s)"
  by (induction xs arbitrary: s) auto

lemma merge_page_ok: "index_ok ix \<Longrightarrow> index_ok (merge_page page ix)"
proof -
  assume "index_ok ix"
  then have "index_ok (fold merge_item (lp_items page) ix)"
    using fold_keeps [of index_ok merge_item] merge_item_ok by blast
  then show ?thesis
    by (auto simp: merge_page_def Let_def index_ok_def lists_ok_def hydration_ok_def index_simps split: option.split)
qed

lemma prioritize_one_ok: "index_ok ix \<Longrightarrow> index_ok (prioritize_one i ix)"
proof (cases "position (\<lambda>u. u = TargetTrack i) (li_queue ix)")
  case None
  assume "index_ok ix"
  moreover have "TargetTrack i \<notin> set (li_queue ix)" using None by auto
  moreover have "prioritize_one i ix =
      (if is_hydrated (TargetTrack i) ix \<or> TargetTrack i \<in> li_pending ix then ix
       else ix\<lparr>li_pending := insert (TargetTrack i) (li_pending ix), li_queue := TargetTrack i # li_queue ix\<rparr>)"
    using None by (simp add: prioritize_one_def Let_def del: position_None_iff)
  ultimately show ?thesis
    by (auto simp: index_ok_def lists_ok_def hydration_ok_def index_simps)
next
  case (Some p)
  let ?t = "TargetTrack i" and ?q = "li_queue ix"
  assume ok: "index_ok ix"
  have p: "p < length ?q" "?q ! p = ?t" using position_SomeD [OF Some] by auto
  have q: "?q = take p ?q @ ?t # drop (Suc p) ?q" using id_take_nth_drop [OF p(1)] p(2) by simp
  have "distinct (filter is_track_target (take p ?q @ ?t # drop (Suc p) ?q))"
    using ok q by (simp add: index_ok_def hydration_ok_def)
  then have "distinct (filter is_track_target (?t # remove_nth p ?q))" by (auto simp: remove_nth_def)
  moreover have "set (?t # remove_nth p ?q) = set ?q"
    using arg_cong [OF q, of set] by (auto simp: remove_nth_def)
  ultimately show ?thesis using Some ok
    by (auto simp: prioritize_one_def Let_def index_ok_def lists_ok_def hydration_ok_def index_simps)
qed

lemma prioritize_hydration_ok: "index_ok ix \<Longrightarrow> index_ok (prioritize_hydration ids ix)"
  unfolding prioritize_hydration_def by (rule fold_keeps [of index_ok]) (auto intro: prioritize_one_ok)

lemma drain_batch_queue: "snd (drain_batch n q b) = drop n q"
  by (induction n q b rule: drain_batch.induct) auto

lemma drain_index [simp]: "snd (drain_hydration_batch n ix) = ix\<lparr>li_queue := drop n (li_queue ix)\<rparr>"
  by (simp add: drain_hydration_batch_def split_def drain_batch_queue)

lemma distinct_filter_drop: "distinct (filter P xs) \<Longrightarrow> distinct (filter P (drop n xs))"
  by (metis append_take_drop_id distinct_append filter_append)

lemma drain_ok: "index_ok ix \<Longrightarrow> index_ok (snd (drain_hydration_batch n ix))"
  by (auto simp: index_ok_def lists_ok_def hydration_ok_def index_simps distinct_filter_drop dest: in_set_dropD)

lemma hydrate_track_simps [simp]:
  "is_hydrated u (hydrate_track t ix) \<longleftrightarrow> u = TargetTrack (tr_id t) \<or> is_hydrated u ix"
  "li_pending (hydrate_track t ix) = li_pending ix - {TargetTrack (tr_id t)}"
  "li_queue (hydrate_track t ix) = li_queue ix"
  "li_saved_tracks (hydrate_track t ix) = li_saved_tracks ix"
  "li_playlists (hydrate_track t ix) = li_playlists ix"
  "li_playlist_refs (hydrate_track t ix) = li_playlist_refs ix"
  by (auto simp: hydrate_track_def is_hydrated_def split: hydration_target.split)

lemma hydrate_album_simps [simp]:
  "is_hydrated u (hydrate_album a ix) \<longleftrightarrow> u = TargetAlbum (al_id a) \<or> is_hydrated u ix"
  "li_pending (hydrate_album a ix) = li_pending ix - {TargetAlbum (al_id a)}"
  "li_queue (hydrate_album a ix) = li_queue ix"
  "li_saved_tracks (hydrate_album a ix) = li_saved_tracks ix"
  "li_playlists (hydrate_album a ix) = li_playlists ix"
  "li_playlist_refs (hydrate_album a ix) = li_playlist_refs ix"
  by (auto simp: hydrate_album_def is_hydrated_def split: hydration_target.split)

lemma hydrate_artist_simps [simp]:
  "is_hydrated u (hydrate_artist a ix) \<longleftrightarrow> u = TargetArtist (at_id a) \<or> is_hydrated u ix"
  "li_pending (hydrate_artist a ix) = li_pending ix - {TargetArtist (at_id a)}"
  "li_queue (hydrate_artist a ix) = li_queue ix"
  "li_saved_tracks (hydrate_artist a ix) = li_saved_tracks ix"
  "li_playlists (hydrate_artist a ix) = li_playlists ix"
  "li_playlist_refs (hydrate_artist a ix) = li_playlist_refs ix"
  by (auto simp: hydrate_artist_def is_hydrated_def split: hydration_target.split)

lemma hydrate_lists_ok:
  "lists_ok ix \<Longrightarrow> lists_ok (hydrate_track t ix)"
  "lists_ok ix \<Longrightarrow> lists_ok (hydrate_album a ix)"
  "lists_ok ix \<Longrightarrow> lists_ok (hydrate_artist b ix)"
  by (simp_all add: lists_ok_def hydrate_track_def hydrate_album_def hydrate_artist_def refs_ok_put)

lemma hydrate_ok:
  "index_ok ix \<Longrightarrow> index_ok (hydrate_track t ix)"
  "index_ok ix \<Longrightarrow> index_ok (hydrate_album a ix)"
  "index_ok ix \<Longrightarrow> index_ok (hydrate_artist b ix)"
  by (auto simp: index_ok_def hydration_ok_def hydrate_lists_ok)

lemma clear_missing_cases:
  obtains "clear_missing uri ix = ix"
  | t where "clear_missing uri ix = ix\<lparr>li_pending := li_pending ix - {t}\<rparr>" "\<not> is_track_target t"
proof (cases "album_id_new uri")
  case None
  then show ?thesis using that by (cases "artist_id_new uri") (auto simp: clear_missing_def)
next
  case (Some a)
  then show ?thesis using that(2) [of "TargetAlbum a"] by (simp add: clear_missing_def)
qed

lemma clear_missing_ok: "index_ok ix \<Longrightarrow> index_ok (clear_missing uri ix)"
  by (cases rule: clear_missing_cases [of uri ix])
    (auto simp: index_ok_def lists_ok_def hydration_ok_def index_simps)

lemma resolve_missing_eq:
  "resolve_missing uri ix =
     (case track_id_new uri of
        Some i \<Rightarrow> if TargetTrack i \<in> li_pending ix then hydrate_track (removed_track i) ix else clear_missing uri ix
      | None \<Rightarrow> clear_missing uri ix)"
  by (simp add: resolve_missing_def hydrate_track_def removed_track_def track_ref_new_def split: option.split)

lemma resolve_missing_ok: "index_ok ix \<Longrightarrow> index_ok (resolve_missing uri ix)"
  by (auto simp: resolve_missing_eq hydrate_ok clear_missing_ok split: option.split)

lemma apply_hydrated_ok: "index_ok ix \<Longrightarrow> index_ok (apply_hydrated ts als ars miss ix)"
  unfolding apply_hydrated_def by (intro fold_keeps [of index_ok] hydrate_ok resolve_missing_ok)

lemma merge_track_list_ok: "index_ok ix \<Longrightarrow> index_ok (merge_track_list l ix)"
proof -
  assume "index_ok ix"
  then have "index_ok (fold hydrate_track (tl_tracks l) ix)" by (intro fold_keeps [of index_ok] hydrate_ok)
  then show ?thesis by (auto simp: merge_track_list_def Let_def index_ok_def lists_ok_def hydration_ok_def index_simps)
qed

section \<open>Rows stay covered\<close>

text \<open>A step that keeps the lists and settles no track without hydrating it keeps the rows covered.\<close>

lemma rows_coveredI:
  assumes "rows_covered X Y ix"
    and "sv_id ` set (li_saved_tracks ix') \<subseteq> sv_id ` set (li_saved_tracks ix) \<union> S"
    and "\<And>i. i \<in> S \<Longrightarrow> is_hydrated (TargetTrack i) ix' \<or> TargetTrack i \<in> li_pending ix'"
    and "\<And>i. is_hydrated (TargetTrack i) ix \<or> TargetTrack i \<in> li_pending ix
           \<Longrightarrow> is_hydrated (TargetTrack i) ix' \<or> TargetTrack i \<in> li_pending ix'"
    and "\<And>p. p \<in> set (li_playlists ix') \<Longrightarrow> p \<in> set (li_playlists ix) \<or> map_of (li_playlist_refs ix') p \<noteq> None"
    and "\<And>p. map_of (li_playlist_refs ix) p \<noteq> None \<Longrightarrow> map_of (li_playlist_refs ix') p \<noteq> None"
  shows "rows_covered X Y ix'"
proof -
  have "sv_id e \<in> X \<or> is_hydrated (TargetTrack (sv_id e)) ix' \<or> TargetTrack (sv_id e) \<in> li_pending ix'"
    if "e \<in> set (li_saved_tracks ix')" for e
  proof -
    have "sv_id e \<in> sv_id ` set (li_saved_tracks ix) \<union> S" using that assms(2) by blast
    then show ?thesis using assms(1,3,4) by (fastforce simp: rows_covered_def)
  qed
  moreover have "p \<in> Y \<or> map_of (li_playlist_refs ix') p \<noteq> None" if "p \<in> set (li_playlists ix')" for p
    using assms(1) assms(5) [OF that] assms(6) [of p] by (auto simp: rows_covered_def)
  ultimately show ?thesis by (simp add: rows_covered_def)
qed

lemma merge_item_covered:
  assumes "index_ok ix" "rows_covered X Y ix"
  shows "rows_covered X Y (merge_item it ix)"
proof (cases it)
  case (ItemTrack t added)
  obtain pos es where m: "merge_saved (tr_id t) added (li_track_positions ix, li_saved_tracks ix) = (pos, es)"
    by fastforce
  have "saved_ok (li_track_positions ix) (li_saved_tracks ix)" using assms(1) by (simp add: index_ok_def lists_ok_def)
  from merge_saved_ids [OF this m] have "set (map sv_id es) \<subseteq> insert (tr_id t) (set (map sv_id (li_saved_tracks ix)))"
    by (auto split: if_splits)
  then have ids: "sv_id ` set es \<subseteq> sv_id ` set (li_saved_tracks ix) \<union> {tr_id t}" by auto
  show ?thesis
    by (rule rows_coveredI [OF assms(2), of _ "{tr_id t}"])
      (use ItemTrack m ids in \<open>auto simp: enqueue_pending index_simps rows_covered_def\<close>)
next
  case (ItemAlbum a added)
  obtain pos es where m: "merge_saved (al_id a) added (li_album_positions ix, li_saved_albums ix) = (pos, es)"
    by fastforce
  show ?thesis
    by (rule rows_coveredI [OF assms(2), of _ "{}"])
      (use ItemAlbum m in \<open>auto simp: enqueue_pending index_simps\<close>)
next
  case (ItemArtist a)
  show ?thesis
    by (rule rows_coveredI [OF assms(2), of _ "{}"])
      (use ItemArtist in \<open>auto simp: enqueue_pending index_simps split: if_splits\<close>)
next
  case (ItemPlaylist p)
  show ?thesis
    by (rule rows_coveredI [OF assms(2), of _ "{}"])
      (use ItemPlaylist in \<open>auto simp: Let_def index_simps split: if_splits\<close>)
qed

lemma merge_page_covered:
  assumes "index_ok ix" "rows_covered X Y ix"
  shows "rows_covered X Y (merge_page page ix)"
proof -
  have "index_ok (fold merge_item (lp_items page) ix) \<and> rows_covered X Y (fold merge_item (lp_items page) ix)"
    using assms merge_item_ok merge_item_covered
      fold_keeps [of "\<lambda>ix. index_ok ix \<and> rows_covered X Y ix" merge_item] by blast
  then show ?thesis
    by (auto simp: merge_page_def Let_def rows_covered_def index_simps split: option.split)
qed

lemma prioritize_covered: "rows_covered X Y ix \<Longrightarrow> rows_covered X Y (prioritize_hydration ids ix)"
  unfolding prioritize_hydration_def
  by (rule fold_keeps [of "rows_covered X Y"])
    (auto simp: prioritize_one_def Let_def rows_covered_def index_simps split: option.splits)

lemma drain_covered: "rows_covered X Y ix \<Longrightarrow> rows_covered X Y (snd (drain_hydration_batch n ix))"
  by (simp add: rows_covered_def index_simps)

lemma hydrate_covered:
  "rows_covered X Y ix \<Longrightarrow> rows_covered X Y (hydrate_track t ix)"
  "rows_covered X Y ix \<Longrightarrow> rows_covered X Y (hydrate_album a ix)"
  "rows_covered X Y ix \<Longrightarrow> rows_covered X Y (hydrate_artist b ix)"
  by (auto simp: rows_covered_def)

lemma clear_missing_covered: "rows_covered X Y ix \<Longrightarrow> rows_covered X Y (clear_missing uri ix)"
  by (cases rule: clear_missing_cases [of uri ix]) (auto simp: rows_covered_def index_simps)

lemma apply_hydrated_covered: "rows_covered X Y ix \<Longrightarrow> rows_covered X Y (apply_hydrated ts als ars miss ix)"
proof -
  have "rows_covered X Y (resolve_missing uri ix)" if "rows_covered X Y ix" for uri ix
    using that by (auto simp: resolve_missing_eq hydrate_covered clear_missing_covered split: option.split)
  then show "rows_covered X Y ix \<Longrightarrow> ?thesis"
    unfolding apply_hydrated_def by (intro fold_keeps [of "rows_covered X Y"] hydrate_covered) auto
qed

lemma merge_track_list_covered: "rows_covered X Y ix \<Longrightarrow> rows_covered X Y (merge_track_list l ix)"
proof -
  assume "rows_covered X Y ix"
  then have "rows_covered X Y (fold hydrate_track (tl_tracks l) ix)"
    by (intro fold_keeps [of "rows_covered X Y"] hydrate_covered)
  then show ?thesis by (simp add: merge_track_list_def Let_def rows_covered_def index_simps)
qed

end
