(* ===== verification/Library_Desk.thy ===== *)
theory Library_Desk
  imports Library_Sync Library_Invariant
begin

text \<open>
  The controller's part of the library (\<^verbatim>\<open>crates/modplayer-core/src/controller.rs\<close>): it
  drives the scheduler and the hydration sweep at every tick, routes the replies of the source into the
  index and starts over at a sign-out. Commands to the source are collected in the order they are sent;
  the clock, the connectivity and what the background load delivers are arguments.
\<close>

definition HYDRATE_BATCH :: nat where "HYDRATE_BATCH = 100"
definition HYDRATE_SWEEP_INTERVAL :: nat where "HYDRATE_SWEEP_INTERVAL = 500"

record library_desk =
  ld_index :: library_index
  ld_sync :: sync_scheduler
  ld_in_flight :: "(track_list_source, nat) hash_map"
  ld_next_request_id :: nat
  ld_last_sweep :: "nat option"
  ld_was_online :: bool
  ld_dirty :: bool
  ld_loading :: bool
  ld_awaits_load :: bool
  ld_sent :: "library_command list"

text \<open>\<open>awaits\<close> says that a data directory was found, so that a load in the background was started.\<close>

definition desk_start :: "bool \<Rightarrow> library_desk" where
  "desk_start awaits =
     \<lparr>ld_index = index_new, ld_sync = scheduler_new, ld_in_flight = [], ld_next_request_id = 0,
      ld_last_sweep = None, ld_was_online = False, ld_dirty = False, ld_loading = awaits,
      ld_awaits_load = awaits, ld_sent = []\<rparr>"

definition send_all :: "library_command list \<Rightarrow> library_desk \<Rightarrow> library_desk" where
  "send_all cmds d = d\<lparr>ld_sent := ld_sent d @ cmds\<rparr>"

definition library_retry_sync :: "nat \<Rightarrow> library_desk \<Rightarrow> library_desk" where
  "library_retry_sync now d =
     (let (cmds, s) = sync_trigger now (ld_sync d) in send_all cmds (d\<lparr>ld_sync := s\<rparr>))"

datatype track_list_state = ListCached "track_ref list" | ListLoading | ListFailed

definition library_track_list :: "track_list_source \<Rightarrow> library_desk \<Rightarrow> track_list_state \<times> library_desk" where
  "library_track_list src d =
     (case index_track_list src (ld_index d) of
        Some ts \<Rightarrow> (ListCached ts, d)
      | None \<Rightarrow>
          if map_of (ld_in_flight d) src \<noteq> None then (ListLoading, d)
          else (ListLoading,
            send_all [FetchTrackList (ld_next_request_id d) src]
              (d\<lparr>ld_in_flight := put src (ld_next_request_id d) (ld_in_flight d),
                 ld_next_request_id := ld_next_request_id d + 1\<rparr>)))"

definition library_hydrate_visible :: "track_id list \<Rightarrow> library_desk \<Rightarrow> library_desk" where
  "library_hydrate_visible ids d = d\<lparr>ld_index := prioritize_hydration ids (ld_index d)\<rparr>"

definition maybe_sweep_hydration :: "nat \<Rightarrow> library_desk \<Rightarrow> library_desk" where
  "maybe_sweep_hydration now d =
     (if \<not> has_pending_hydration (ld_index d) then d
      else if \<not> (case ld_last_sweep d of None \<Rightarrow> True | Some last_at \<Rightarrow> HYDRATE_SWEEP_INTERVAL \<le> now - last_at) then d
      else let (batch, ix) = drain_hydration_batch HYDRATE_BATCH (ld_index d); d = d\<lparr>ld_index := ix\<rparr>
        in if batch_is_empty batch then d
           else send_all [HydrateRefs (ld_next_request_id d) batch]
             (d\<lparr>ld_last_sweep := Some now, ld_next_request_id := ld_next_request_id d + 1\<rparr>))"

definition tick_library :: "nat \<Rightarrow> bool \<Rightarrow> library_desk \<Rightarrow> library_desk" where
  "tick_library now online d =
     (let reconnected = online \<and> \<not> ld_was_online d;
          (cmds, s) = (if reconnected then sync_trigger now (ld_sync d) else sync_tick now online (ld_sync d))
      in maybe_sweep_hydration now (send_all cmds (d\<lparr>ld_was_online := online, ld_sync := s\<rparr>)))"

definition record_outcome :: "nat \<Rightarrow> sync_outcome \<Rightarrow> library_index \<Rightarrow> library_index" where
  "record_outcome now_ms outcome ix =
     ix\<lparr>li_meta := (li_meta ix)\<lparr>sy_last_outcome := outcome,
          sy_last_synced_at := (if outcome = SyncFailed then sy_last_synced_at (li_meta ix) else Some now_ms)\<rparr>\<rparr>"

definition route_library_page ::
  "nat \<Rightarrow> nat \<Rightarrow> nat \<Rightarrow> (catalog_error + library_page) \<Rightarrow> library_desk \<Rightarrow> library_desk"
where
  "route_library_page now now_ms request_id result d =
     (let ((merged, cmds), s) = sync_apply_reply now request_id result (ld_sync d);
          d = (case merged of None \<Rightarrow> d | Some page \<Rightarrow> d\<lparr>ld_index := merge_page page (ld_index d), ld_dirty := True\<rparr>);
          d = send_all cmds d;
          (outcome, s) = take_last_outcome s;
          d = d\<lparr>ld_sync := s\<rparr>
      in case outcome of
           None \<Rightarrow> d
         | Some o1 \<Rightarrow> d\<lparr>ld_index := record_outcome now_ms o1 (ld_index d), ld_dirty := True\<rparr>)"

definition route_track_list :: "nat \<Rightarrow> (catalog_error + track_list_reply) \<Rightarrow> library_desk \<Rightarrow> library_desk" where
  "route_track_list request_id result d =
     (let d = d\<lparr>ld_in_flight := filter (\<lambda>(_, i). i \<noteq> request_id) (ld_in_flight d)\<rparr>
      in case result of
           Inr l \<Rightarrow> d\<lparr>ld_index := merge_track_list l (ld_index d), ld_dirty := True\<rparr>
         | Inl _ \<Rightarrow> d)"

definition route_hydrated ::
  "track_ref list \<Rightarrow> album_ref list \<Rightarrow> artist_ref list \<Rightarrow> ustring list \<Rightarrow> library_desk \<Rightarrow> library_desk"
where
  "route_hydrated tracks albums artists missing d =
     d\<lparr>ld_index := apply_hydrated tracks albums artists missing (ld_index d), ld_dirty := True\<rparr>"

text \<open>What the channel of the background load gives: an index, nothing yet, or that the thread is gone.\<close>

datatype load_poll = LoadDone library_index | LoadPending | LoadGone

definition drain_library_load :: "load_poll \<Rightarrow> library_desk \<Rightarrow> library_desk" where
  "drain_library_load poll d =
     (if \<not> ld_awaits_load d then d
      else case poll of
        LoadDone ix \<Rightarrow> d\<lparr>ld_index := ix, ld_loading := False, ld_awaits_load := False\<rparr>
      | LoadPending \<Rightarrow> d
      | LoadGone \<Rightarrow> d\<lparr>ld_loading := False, ld_awaits_load := False\<rparr>)"

text \<open>What \<^verbatim>\<open>clear_for_sign_out\<close> does to the library.\<close>

definition library_sign_out :: "library_desk \<Rightarrow> library_desk" where
  "library_sign_out d =
     d\<lparr>ld_index := index_new, ld_sync := scheduler_new, ld_in_flight := [], ld_was_online := False, ld_dirty := False\<rparr>"

section \<open>Every sequence of calls\<close>

datatype desk_call =
    DeskRetry nat
  | DeskTrackList track_list_source
  | DeskVisible "track_id list"
  | DeskTick nat bool
  | DeskPage nat nat nat "catalog_error + library_page"
  | DeskListReply nat "catalog_error + track_list_reply"
  | DeskHydrated "track_ref list" "album_ref list" "artist_ref list" "ustring list"
  | DeskSignOut
  | DeskLoad load_poll

fun desk_apply :: "desk_call \<Rightarrow> library_desk \<Rightarrow> library_desk" where
  "desk_apply (DeskRetry now) d = library_retry_sync now d"
| "desk_apply (DeskTrackList src) d = snd (library_track_list src d)"
| "desk_apply (DeskVisible ids) d = library_hydrate_visible ids d"
| "desk_apply (DeskTick now online) d = tick_library now online d"
| "desk_apply (DeskPage now now_ms r result) d = route_library_page now now_ms r result d"
| "desk_apply (DeskListReply r result) d = route_track_list r result d"
| "desk_apply (DeskHydrated ts als ars miss) d = route_hydrated ts als ars miss d"
| "desk_apply DeskSignOut d = library_sign_out d"
| "desk_apply (DeskLoad poll) d = drain_library_load poll d"

text \<open>What the background load delivers is a well-formed index.\<close>

fun load_ok :: "desk_call \<Rightarrow> bool" where
  "load_ok (DeskLoad (LoadDone ix)) \<longleftrightarrow> index_ok ix"
| "load_ok _ \<longleftrightarrow> True"

inductive desk_step :: "library_desk \<Rightarrow> library_desk \<Rightarrow> bool" where
  call: "load_ok c \<Longrightarrow> desk_step d (desk_apply c d)"

inductive_cases desk_stepE: "desk_step d d'"

text \<open>
  The index and the scheduler are well-formed, the identifiers of the requests for track lists are
  those of the controller's counter, and unless a stored index was loaded every row is covered.
\<close>

definition library_desk_ok :: "library_desk \<Rightarrow> bool" where
  "library_desk_ok d \<longleftrightarrow> index_ok (ld_index d) \<and> sync_ok (ld_sync d) \<and>
     distinct (map fst (ld_in_flight d)) \<and> list_all (\<lambda>(_, i). i < ld_next_request_id d) (ld_in_flight d)"

lemma send_all_simps [simp]:
  "ld_index (send_all c d) = ld_index d" "ld_sync (send_all c d) = ld_sync d"
  "ld_in_flight (send_all c d) = ld_in_flight d" "ld_next_request_id (send_all c d) = ld_next_request_id d"
  "ld_last_sweep (send_all c d) = ld_last_sweep d" "ld_sent (send_all c d) = ld_sent d @ c"
  "ld_was_online (send_all c d) = ld_was_online d" "ld_awaits_load (send_all c d) = ld_awaits_load d"
  by (simp_all add: send_all_def)

lemma sweep_index:
  "ld_index (maybe_sweep_hydration now d) = ld_index d \<or>
   ld_index (maybe_sweep_hydration now d) = snd (drain_hydration_batch HYDRATE_BATCH (ld_index d))"
  by (auto simp: maybe_sweep_hydration_def Let_def split_def)

lemma sweep_other [simp]:
  "ld_sync (maybe_sweep_hydration now d) = ld_sync d"
  "ld_in_flight (maybe_sweep_hydration now d) = ld_in_flight d"
  "ld_next_request_id d \<le> ld_next_request_id (maybe_sweep_hydration now d)"
  by (auto simp: maybe_sweep_hydration_def Let_def split_def)

lemma sweep_keeps:
  assumes "P (ld_index d)" "\<And>ix. P ix \<Longrightarrow> P (snd (drain_hydration_batch HYDRATE_BATCH ix))"
  shows "P (ld_index (maybe_sweep_hydration now d))"
  using sweep_index [of now d] assms by metis

lemma tick_parts:
  "ld_index (tick_library now online d) = ld_index d \<or>
     ld_index (tick_library now online d) = snd (drain_hydration_batch HYDRATE_BATCH (ld_index d))"
  "ld_sync (tick_library now online d) =
     snd (if online \<and> \<not> ld_was_online d then sync_trigger now (ld_sync d) else sync_tick now online (ld_sync d))"
  "ld_in_flight (tick_library now online d) = ld_in_flight d"
  "ld_next_request_id d \<le> ld_next_request_id (tick_library now online d)"
proof -
  let ?r = "if online \<and> \<not> ld_was_online d then sync_trigger now (ld_sync d) else sync_tick now online (ld_sync d)"
  let ?d = "send_all (fst ?r) (d\<lparr>ld_was_online := online, ld_sync := snd ?r\<rparr>)"
  have t: "tick_library now online d = maybe_sweep_hydration now ?d"
    by (simp add: tick_library_def Let_def split_def)
  show "ld_index (tick_library now online d) = ld_index d \<or>
     ld_index (tick_library now online d) = snd (drain_hydration_batch HYDRATE_BATCH (ld_index d))"
    unfolding t using sweep_index [of now ?d] by simp
  show "ld_sync (tick_library now online d) = snd ?r" unfolding t by simp
  show "ld_in_flight (tick_library now online d) = ld_in_flight d" unfolding t by simp
  show "ld_next_request_id d \<le> ld_next_request_id (tick_library now online d)"
    unfolding t using sweep_other(3) [of ?d now] by simp
qed

lemma record_outcome_ok [simp]: "index_ok (record_outcome n oc ix) = index_ok ix"
  by (simp add: record_outcome_def index_ok_def lists_ok_def hydration_ok_def index_simps)

lemma record_outcome_covered [simp]: "rows_covered X Y (record_outcome n oc ix) = rows_covered X Y ix"
  by (simp add: record_outcome_def rows_covered_def index_simps)

lemma route_page_parts:
  assumes "sync_apply_reply now r result (ld_sync d) = ((merged, cmds), s)"
  shows "ld_index (route_library_page now now_ms r result d) =
      (case sr_last_outcome s of None \<Rightarrow> id | Some oc \<Rightarrow> record_outcome now_ms oc)
        (case merged of None \<Rightarrow> ld_index d | Some page \<Rightarrow> merge_page page (ld_index d))"
    and "ld_sync (route_library_page now now_ms r result d) = s\<lparr>sr_last_outcome := None\<rparr>"
    and "ld_in_flight (route_library_page now now_ms r result d) = ld_in_flight d"
    and "ld_next_request_id (route_library_page now now_ms r result d) = ld_next_request_id d"
    and "ld_sent (route_library_page now now_ms r result d) = ld_sent d @ cmds"
  using assms
  by (simp_all add: route_library_page_def Let_def take_last_outcome_def split: option.split)

lemma sync_ok_outcome [simp]: "sync_ok (s\<lparr>sr_last_outcome := x\<rparr>) = sync_ok s"
  by (simp add: sync_ok_def cong: scheduler_state.case_cong)

lemma route_page_index_ok: "index_ok (ld_index d) \<Longrightarrow> index_ok (ld_index (route_library_page now now_ms r result d))"
  by (cases "sync_apply_reply now r result (ld_sync d)" rule: prod.exhaust; rename_tac mc s; case_tac mc)
    (auto simp: route_page_parts merge_page_ok split: option.split)

lemma desk_apply_ok:
  assumes "library_desk_ok d" "load_ok c"
  shows "library_desk_ok (desk_apply c d)"
proof (cases c)
  case (DeskRetry now)
  then show ?thesis using assms
    by (auto simp: library_desk_ok_def library_retry_sync_def Let_def split_def sync_trigger_ok)
next
  case (DeskTrackList src)
  have "list_all (\<lambda>(_, i). i < Suc n) (put src n m)" if "list_all (\<lambda>(_, i). i < n) m" for n m
    using that set_put [of src n m] by (fastforce simp: list_all_iff)
  then show ?thesis using DeskTrackList assms
    by (auto simp: library_desk_ok_def library_track_list_def split: option.split)
next
  case (DeskVisible ids)
  then show ?thesis using assms
    by (simp add: library_desk_ok_def library_hydrate_visible_def prioritize_hydration_ok)
next
  case (DeskTick now online)
  have "index_ok (ld_index (tick_library now online d))"
    using tick_parts(1) [of now online d] assms drain_ok by (auto simp: library_desk_ok_def simp del: drain_index)
  moreover have "sync_ok (ld_sync (tick_library now online d))"
    using assms by (simp add: tick_parts(2) sync_trigger_ok sync_tick_ok library_desk_ok_def)
  ultimately show ?thesis using DeskTick assms tick_parts(4) [of d now online]
    by (fastforce simp: library_desk_ok_def tick_parts(3) list_all_iff)
next
  case (DeskPage now now_ms r result)
  obtain m cmds s where m: "sync_apply_reply now r result (ld_sync d) = ((m, cmds), s)" by (metis prod.exhaust)
  have "sync_ok s" using sync_apply_reply_ok [of "ld_sync d" now r result] m assms by (simp add: library_desk_ok_def)
  then show ?thesis using DeskPage assms route_page_index_ok [of d now now_ms r result]
    by (simp add: library_desk_ok_def route_page_parts [OF m])
next
  case (DeskListReply r result)
  have "distinct (map fst (filter P xs))" if "distinct (map fst xs)" for P and xs :: "(track_list_source \<times> nat) list"
    using that by (rule distinct_map_filter)
  then show ?thesis using DeskListReply assms
    by (auto simp: library_desk_ok_def route_track_list_def Let_def merge_track_list_ok list_all_iff split: sum.split)
next
  case (DeskHydrated ts als ars miss)
  then show ?thesis using assms by (simp add: library_desk_ok_def route_hydrated_def apply_hydrated_ok)
next
  case DeskSignOut
  then show ?thesis by (simp add: library_desk_ok_def library_sign_out_def sync_ok_def scheduler_new_def)
next
  case (DeskLoad poll)
  then show ?thesis using assms by (cases poll) (auto simp: drain_library_load_def library_desk_ok_def)
qed

lemma desk_step_ok: "library_desk_ok d \<Longrightarrow> desk_step d d' \<Longrightarrow> library_desk_ok d'"
  by (erule desk_stepE) (simp add: desk_apply_ok)

lemma desk_start_ok: "library_desk_ok (desk_start a)"
  by (simp add: library_desk_ok_def desk_start_def sync_ok_def scheduler_new_def)

interpretation library_machine: machine "\<lambda>d. \<exists>a. d = desk_start a" desk_step library_desk_ok
  by unfold_locales (auto simp: desk_start_ok intro: desk_step_ok)

text \<open>The rows that a loaded index brings without what they need.\<close>

definition bare_tracks :: "library_index \<Rightarrow> track_id set" where
  "bare_tracks ix =
     {i \<in> sv_id ` set (li_saved_tracks ix). \<not> is_hydrated (TargetTrack i) ix \<and> TargetTrack i \<notin> li_pending ix}"

definition bare_playlists :: "library_index \<Rightarrow> playlist_id set" where
  "bare_playlists ix = {p \<in> set (li_playlists ix). map_of (li_playlist_refs ix) p = None}"

fun brought_tracks :: "desk_call \<Rightarrow> track_id set" where
  "brought_tracks (DeskLoad (LoadDone ix)) = bare_tracks ix"
| "brought_tracks _ = {}"

fun brought_playlists :: "desk_call \<Rightarrow> playlist_id set" where
  "brought_playlists (DeskLoad (LoadDone ix)) = bare_playlists ix"
| "brought_playlists _ = {}"

lemma bare_covered: "rows_covered (bare_tracks ix) (bare_playlists ix) ix"
  by (auto simp: rows_covered_def bare_tracks_def bare_playlists_def)

lemma rows_covered_mono: "rows_covered X Y ix \<Longrightarrow> X \<subseteq> X' \<Longrightarrow> Y \<subseteq> Y' \<Longrightarrow> rows_covered X' Y' ix"
  by (fastforce simp: rows_covered_def)

lemma desk_apply_covered:
  assumes "library_desk_ok d" "rows_covered X Y (ld_index d)" "brought_tracks c \<subseteq> X" "brought_playlists c \<subseteq> Y"
  shows "rows_covered X Y (ld_index (desk_apply c d))"
proof (cases c)
  case (DeskTick now online)
  then show ?thesis using tick_parts(1) [of now online d] assms(2) drain_covered [of X Y "ld_index d" HYDRATE_BATCH] by auto
next
  case (DeskPage now now_ms r result)
  obtain m cmds s where m: "sync_apply_reply now r result (ld_sync d) = ((m, cmds), s)" by (metis prod.exhaust)
  have "rows_covered X Y (merge_page page (ld_index d))" for page
    using merge_page_covered assms by (simp add: library_desk_ok_def)
  then show ?thesis using DeskPage assms(2) by (simp add: route_page_parts [OF m] split: option.split)
next
  case (DeskListReply r result)
  then show ?thesis using assms(2) by (auto simp: route_track_list_def Let_def merge_track_list_covered split: sum.split)
next
  case (DeskTrackList src)
  then show ?thesis using assms(2) by (auto simp: library_track_list_def split: option.split)
next
  case (DeskRetry now)
  then show ?thesis using assms(2) by (auto simp: library_retry_sync_def Let_def split_def)
next
  case (DeskLoad poll)
  then show ?thesis using assms(2-4) rows_covered_mono [OF bare_covered]
    by (cases poll) (auto simp: drain_library_load_def)
qed (use assms(2) in \<open>auto simp: library_hydrate_visible_def prioritize_covered
      route_hydrated_def apply_hydrated_covered library_sign_out_def\<close>)

lemma desk_calls_ok:
  "library_desk_ok d \<Longrightarrow> rows_covered X Y (ld_index d) \<Longrightarrow> list_all load_ok cs \<Longrightarrow>
     (\<Union>c\<in>set cs. brought_tracks c) \<subseteq> X \<Longrightarrow> (\<Union>c\<in>set cs. brought_playlists c) \<subseteq> Y \<Longrightarrow>
     library_desk_ok (fold desk_apply cs d) \<and> rows_covered X Y (ld_index (fold desk_apply cs d))"
  by (induction cs arbitrary: d) (auto simp: desk_apply_ok desk_apply_covered)

section \<open>The hydration sweep\<close>

definition batch_targets :: "hydrate_batch \<Rightarrow> hydration_target set" where
  "batch_targets b = TargetTrack ` set (hb_tracks b) \<union> TargetAlbum ` set (hb_albums b) \<union> TargetArtist ` set (hb_artists b)"

lemma batch_push_targets [simp]: "batch_targets (batch_push t b) = insert t (batch_targets b)"
  by (cases t) (auto simp: batch_targets_def batch_push_def)

lemma drain_batch_targets: "batch_targets (fst (drain_batch n q b)) = batch_targets b \<union> set (take n q)"
  by (induction n q b rule: drain_batch.induct) auto

lemma batch_empty_targets [simp]: "batch_targets batch_empty = {}"
  by (simp add: batch_targets_def batch_empty_def)

lemma batch_is_empty_iff: "batch_is_empty b \<longleftrightarrow> batch_targets b = {}"
  by (auto simp: batch_is_empty_def batch_targets_def)

lemma drained_targets: "batch_targets (fst (drain_hydration_batch n ix)) = set (take n (li_queue ix))"
  by (simp add: drain_hydration_batch_def Let_def split_def drain_batch_targets)

text \<open>
  A source that answers: for every track it is asked for it delivers the reference or names the uri as
  missing.
\<close>

type_synonym hydration_reply = "track_ref list \<times> album_ref list \<times> artist_ref list \<times> ustring list"

definition answers_tracks :: "hydrate_batch \<Rightarrow> hydration_reply \<Rightarrow> bool" where
  "answers_tracks b r \<longleftrightarrow>
     (case r of (ts, _, _, miss) \<Rightarrow>
        list_all (\<lambda>i. i \<in> tr_id ` set ts \<or> track_id_new (track_uri i) = Some i \<and> track_uri i \<in> set miss) (hb_tracks b))"

text \<open>One sweep and the answer to the request it sent, if it sent one.\<close>

definition sweep_round :: "(hydrate_batch \<Rightarrow> hydration_reply) \<Rightarrow> nat \<Rightarrow> library_desk \<Rightarrow> library_desk" where
  "sweep_round reply now d =
     (let d1 = maybe_sweep_hydration now d
      in if ld_sent d1 = ld_sent d then d1
         else case last (ld_sent d1) of
                HydrateRefs _ b \<Rightarrow> (case reply b of (ts, als, ars, miss) \<Rightarrow> route_hydrated ts als ars miss d1)
              | _ \<Rightarrow> d1)"

lemma apply_hydrated_queue [simp]: "li_queue (apply_hydrated ts als ars miss ix) = li_queue ix"
proof -
  have f: "li_queue (fold f xs ix) = li_queue ix" if "\<And>x ix. li_queue (f x ix) = li_queue ix" for f and xs :: "'b list" and ix
    using that by (induction xs arbitrary: ix) auto
  have "li_queue (clear_missing uri ix) = li_queue ix" for uri ix
    by (cases rule: clear_missing_cases [of uri ix]) auto
  then have "li_queue (resolve_missing uri ix) = li_queue ix" for uri ix
    by (auto simp: resolve_missing_eq split: option.split)
  then show ?thesis by (simp add: apply_hydrated_def f)
qed

lemma fold_pending_subset:
  "(\<And>x ix. li_pending (f x ix) \<subseteq> li_pending ix) \<Longrightarrow> li_pending (fold f xs ix) \<subseteq> li_pending ix"
  by (induction xs arbitrary: ix) (auto, blast)

lemma resolve_pending_subset: "li_pending (resolve_missing uri ix) \<subseteq> li_pending ix"
  by (cases rule: clear_missing_cases [of uri ix]) (auto simp: resolve_missing_eq split: option.split)

lemma removed_track_id [simp]: "tr_id (removed_track i) = i"
  by (simp add: removed_track_def track_ref_new_def)

lemma resolve_settles: "track_id_new (track_uri i) = Some i \<Longrightarrow> TargetTrack i \<notin> li_pending (resolve_missing (track_uri i) ix)"
  by (cases rule: clear_missing_cases [of "track_uri i" ix]) (auto simp: resolve_missing_eq)

lemma fold_settles:
  assumes "\<And>x ix. li_pending (f x ix) \<subseteq> li_pending ix" "x \<in> set xs" "\<And>ix. t \<notin> li_pending (f x ix)"
  shows "t \<notin> li_pending (fold f xs ix)"
  using assms(2)
proof (induction xs arbitrary: ix)
  case (Cons y xs)
  then show ?case
  proof (cases "x = y")
    case True
    then show ?thesis using fold_pending_subset [of f xs "f y ix"] assms(1,3) by auto
  qed auto
qed simp

lemma apply_hydrated_pending: "li_pending (apply_hydrated ts als ars miss ix) \<subseteq> li_pending ix"
proof -
  note s = fold_pending_subset [of hydrate_track ts ix] fold_pending_subset [of hydrate_album als "fold hydrate_track ts ix"]
    fold_pending_subset [of hydrate_artist ars "fold hydrate_album als (fold hydrate_track ts ix)"]
    fold_pending_subset [of resolve_missing miss "fold hydrate_artist ars (fold hydrate_album als (fold hydrate_track ts ix))", OF resolve_pending_subset]
  show ?thesis unfolding apply_hydrated_def using s by auto
qed

lemma apply_hydrated_settles:
  assumes "answers_tracks b (ts, als, ars, miss)" "i \<in> set (hb_tracks b)"
  shows "TargetTrack i \<notin> li_pending (apply_hydrated ts als ars miss ix)"
proof -
  let ?ix1 = "fold hydrate_track ts ix" and ?ix3 = "fold hydrate_artist ars (fold hydrate_album als (fold hydrate_track ts ix))"
  have sub: "li_pending ?ix3 \<subseteq> li_pending ?ix1"
    using fold_pending_subset [of hydrate_album als ?ix1] fold_pending_subset [of hydrate_artist ars "fold hydrate_album als ?ix1"]
    by auto
  have sub2: "li_pending (fold resolve_missing miss ?ix3) \<subseteq> li_pending ?ix3"
    by (rule fold_pending_subset) (rule resolve_pending_subset)
  from assms consider "i \<in> tr_id ` set ts" | "track_id_new (track_uri i) = Some i" "track_uri i \<in> set miss"
    by (auto simp: answers_tracks_def list_all_iff)
  then show ?thesis
  proof cases
    case 1
    then obtain t where "t \<in> set ts" "tr_id t = i" by auto
    then have "TargetTrack i \<notin> li_pending ?ix1" by (intro fold_settles [of hydrate_track t]) auto
    then show ?thesis using sub sub2 by (auto simp: apply_hydrated_def)
  next
    case 2
    then have "TargetTrack i \<notin> li_pending (fold resolve_missing miss ?ix3)"
      by (intro fold_settles [of resolve_missing "track_uri i"] resolve_pending_subset resolve_settles)
    then show ?thesis by (simp add: apply_hydrated_def)
  qed
qed

text \<open>No request is out: every pending track is still queued.\<close>

definition tracks_queued :: "library_index \<Rightarrow> bool" where
  "tracks_queued ix \<longleftrightarrow> (\<forall>i. TargetTrack i \<in> li_pending ix \<longrightarrow> TargetTrack i \<in> set (li_queue ix))"

definition tracks_pending :: "library_index \<Rightarrow> bool" where
  "tracks_pending ix \<longleftrightarrow> (\<exists>i. TargetTrack i \<in> li_pending ix)"

definition sweep_due :: "nat \<Rightarrow> library_desk \<Rightarrow> bool" where
  "sweep_due now d \<longleftrightarrow> (case ld_last_sweep d of None \<Rightarrow> True | Some last_at \<Rightarrow> HYDRATE_SWEEP_INTERVAL \<le> now - last_at)"

lemma sweep_round_cases:
  assumes "sweep_due now d" "tracks_pending (ld_index d)" "tracks_queued (ld_index d)"
  obtains b ts als ars miss where "reply b = (ts, als, ars, miss)"
    "batch_targets b = set (take HYDRATE_BATCH (li_queue (ld_index d)))"
    "ld_index (sweep_round reply now d) =
       apply_hydrated ts als ars miss ((ld_index d)\<lparr>li_queue := drop HYDRATE_BATCH (li_queue (ld_index d))\<rparr>)"
    "ld_last_sweep (sweep_round reply now d) = Some now"
proof -
  let ?r = "drain_hydration_batch HYDRATE_BATCH (ld_index d)"
  have p: "has_pending_hydration (ld_index d)" using assms(2) by (auto simp: has_pending_hydration_def tracks_pending_def)
  have "li_queue (ld_index d) \<noteq> []" using assms(2,3) by (auto simp: tracks_pending_def tracks_queued_def)
  then have ne: "\<not> batch_is_empty (fst ?r)"
    by (cases "li_queue (ld_index d)") (auto simp: batch_is_empty_iff drained_targets HYDRATE_BATCH_def)
  have s: "maybe_sweep_hydration now d =
      send_all [HydrateRefs (ld_next_request_id d) (fst ?r)]
        (d\<lparr>ld_index := snd ?r, ld_last_sweep := Some now, ld_next_request_id := ld_next_request_id d + 1\<rparr>)"
    using p ne assms(1) by (simp add: maybe_sweep_hydration_def Let_def split_def sweep_due_def del: drain_index)
  obtain ts als ars miss where r: "reply (fst ?r) = (ts, als, ars, miss)" by (metis prod.exhaust)
  show ?thesis
    by (rule that [OF r]) (simp_all add: sweep_round_def Let_def s r drained_targets route_hydrated_def)
qed

lemma sweep_round_pending: "li_pending (ld_index (sweep_round reply now d)) \<subseteq> li_pending (ld_index d)"
proof -
  have "li_pending (ld_index (maybe_sweep_hydration now d)) = li_pending (ld_index d)"
    using sweep_index [of now d] by auto
  then show ?thesis
    by (auto simp: sweep_round_def Let_def route_hydrated_def split: library_command.splits prod.splits
        dest!: subsetD [OF apply_hydrated_pending])
qed

lemma sweep_round_progress:
  assumes "sweep_due now d" "tracks_queued (ld_index d)" "\<And>b. answers_tracks b (reply b)"
  shows "tracks_queued (ld_index (sweep_round reply now d)) \<and>
    (tracks_pending (ld_index (sweep_round reply now d)) \<longrightarrow>
       tracks_pending (ld_index d) \<and>
       length (li_queue (ld_index (sweep_round reply now d))) + HYDRATE_BATCH \<le> length (li_queue (ld_index d)) \<and>
       ld_last_sweep (sweep_round reply now d) = Some now)"
proof (cases "tracks_pending (ld_index d)")
  case True
  let ?ix = "ld_index d" and ?ix' = "ld_index (sweep_round reply now d)"
  obtain b ts als ars miss where c: "reply b = (ts, als, ars, miss)" "batch_targets b = set (take HYDRATE_BATCH (li_queue ?ix))"
    "?ix' = apply_hydrated ts als ars miss (?ix\<lparr>li_queue := drop HYDRATE_BATCH (li_queue ?ix)\<rparr>)"
    "ld_last_sweep (sweep_round reply now d) = Some now"
    using sweep_round_cases [OF assms(1) True assms(2)] by blast
  have queued: "tracks_queued ?ix'"
    unfolding tracks_queued_def
  proof (intro allI impI)
    fix i assume i: "TargetTrack i \<in> li_pending ?ix'"
    then have "TargetTrack i \<in> li_pending ?ix" using c(3) apply_hydrated_pending by fastforce
    then have "TargetTrack i \<in> set (li_queue ?ix)" using assms(2) by (simp add: tracks_queued_def)
    moreover have "i \<notin> set (hb_tracks b)" using apply_hydrated_settles [of b ts als ars miss i] assms(3) [of b] i c by auto
    then have "TargetTrack i \<notin> set (take HYDRATE_BATCH (li_queue ?ix))" using c(2) by (auto simp: batch_targets_def)
    ultimately show "TargetTrack i \<in> set (li_queue ?ix')"
      using c(3) by simp (metis append_take_drop_id set_append Un_iff)
  qed
  have "length (li_queue ?ix') + HYDRATE_BATCH \<le> length (li_queue ?ix)" if "tracks_pending ?ix'"
  proof -
    have "li_queue ?ix' \<noteq> []" using that queued by (auto simp: tracks_pending_def tracks_queued_def)
    then show ?thesis using c(3) by simp
  qed
  then show ?thesis using queued True c(4) by simp
next
  case False
  then show ?thesis using sweep_round_pending [of reply now d] by (auto simp: tracks_pending_def tracks_queued_def)
qed

fun sweep_rounds :: "(hydrate_batch \<Rightarrow> hydration_reply) \<Rightarrow> nat list \<Rightarrow> library_desk \<Rightarrow> library_desk" where
  "sweep_rounds reply [] d = d"
| "sweep_rounds reply (now # nows) d = sweep_rounds reply nows (sweep_round reply now d)"

text \<open>Ticks at least half a second apart.\<close>

fun spaced :: "nat option \<Rightarrow> nat list \<Rightarrow> bool" where
  "spaced before_at [] \<longleftrightarrow> True"
| "spaced before_at (now # nows) \<longleftrightarrow>
     (case before_at of None \<Rightarrow> True | Some t \<Rightarrow> t + HYDRATE_SWEEP_INTERVAL \<le> now) \<and> spaced (Some now) nows"

lemma sweep_rounds_pending: "li_pending (ld_index (sweep_rounds reply nows d)) \<subseteq> li_pending (ld_index d)"
proof (induction nows arbitrary: d)
  case (Cons now nows)
  show ?case using Cons.IH [of "sweep_round reply now d"] sweep_round_pending [of reply now d] by auto
qed simp

lemma sweep_rounds_done:
  assumes "\<And>b. answers_tracks b (reply b)"
  shows "tracks_queued (ld_index d) \<Longrightarrow> spaced (ld_last_sweep d) nows \<Longrightarrow>
    length (li_queue (ld_index d)) \<le> HYDRATE_BATCH * length nows \<Longrightarrow>
    \<not> tracks_pending (ld_index (sweep_rounds reply nows d))"
proof (induction nows arbitrary: d)
  case Nil
  then show ?case by (auto simp: tracks_queued_def tracks_pending_def)
next
  case (Cons now nows)
  let ?d = "sweep_round reply now d"
  have due: "sweep_due now d" using Cons.prems(2) by (auto simp: sweep_due_def split: option.splits)
  note p = sweep_round_progress [OF due Cons.prems(1) assms]
  show ?case
  proof (cases "tracks_pending (ld_index ?d)")
    case True
    then show ?thesis using Cons.IH [of ?d] Cons.prems p by simp
  next
    case False
    then show ?thesis using sweep_rounds_pending [of reply nows ?d] by (auto simp: tracks_pending_def)
  qed
qed

lemma sweep_round_covered:
  assumes "rows_covered X Y (ld_index d)"
  shows "rows_covered X Y (ld_index (sweep_round reply now d))"
proof -
  from assms have "rows_covered X Y (ld_index (maybe_sweep_hydration now d))"
    using sweep_keeps [of "rows_covered X Y" d now] drain_covered by blast
  then show ?thesis
    by (auto simp: sweep_round_def Let_def route_hydrated_def apply_hydrated_covered split: library_command.splits prod.splits)
qed

lemma sweep_rounds_covered: "rows_covered X Y (ld_index d) \<Longrightarrow> rows_covered X Y (ld_index (sweep_rounds reply nows d))"
  by (induction nows arbitrary: d) (auto simp: sweep_round_covered)

text \<open>A sweep does not touch the list of saved tracks.\<close>

lemma apply_hydrated_saved [simp]: "li_saved_tracks (apply_hydrated ts als ars miss ix) = li_saved_tracks ix"
proof -
  have f: "li_saved_tracks (fold f xs ix) = li_saved_tracks ix" if "\<And>x ix. li_saved_tracks (f x ix) = li_saved_tracks ix"
    for f and xs :: "'b list" and ix
    using that by (induction xs arbitrary: ix) auto
  have "li_saved_tracks (clear_missing uri ix) = li_saved_tracks ix" for uri ix
    by (cases rule: clear_missing_cases [of uri ix]) auto
  then have "li_saved_tracks (resolve_missing uri ix) = li_saved_tracks ix" for uri ix
    by (auto simp: resolve_missing_eq split: option.split)
  then show ?thesis by (simp add: apply_hydrated_def f)
qed

lemma sweep_round_saved [simp]: "li_saved_tracks (ld_index (sweep_round reply now d)) = li_saved_tracks (ld_index d)"
proof -
  have "li_saved_tracks (ld_index (maybe_sweep_hydration now d)) = li_saved_tracks (ld_index d)"
    using sweep_index [of now d] by auto
  then show ?thesis
    by (auto simp: sweep_round_def Let_def route_hydrated_def split: library_command.splits prod.splits)
qed

lemma sweep_rounds_saved [simp]: "li_saved_tracks (ld_index (sweep_rounds reply nows d)) = li_saved_tracks (ld_index d)"
  by (induction nows arbitrary: d) auto

end
