(* ===== verification/Library_Store.thy ===== *)
theory Library_Store
  imports Library_Invariant Play_Log
begin

text \<open>
  The stored form of the library index and of the play log
  (\<^verbatim>\<open>crates/modplayer-core/src/library/persist.rs\<close>): records of texts and numbers, which a
  JSON library writes and reads (a parameter here: a file is what that library makes of its bytes), and
  the conversions, which drop what does not have a valid identifier.
\<close>

section \<open>Records\<close>

record saved_entry_dto =
  sd_id :: ustring
  sd_added_at :: "nat option"

record release_date_dto =
  dd_year :: nat
  dd_month :: "nat option"
  dd_day :: "nat option"

datatype availability_dto = DtoAvailable | DtoUnavailableRegion | DtoRemoved

fun availability_to_dto :: "availability \<Rightarrow> availability_dto" where
  "availability_to_dto Available = DtoAvailable"
| "availability_to_dto UnavailableRegion = DtoUnavailableRegion"
| "availability_to_dto Removed_Track = DtoRemoved"

fun availability_from_dto :: "availability_dto \<Rightarrow> availability" where
  "availability_from_dto DtoAvailable = Available"
| "availability_from_dto DtoUnavailableRegion = UnavailableRegion"
| "availability_from_dto DtoRemoved = Removed_Track"

record track_dto =
  td_id :: ustring
  td_title :: ustring
  td_artists :: "ustring list"
  td_artist_ids :: "ustring list"
  td_album :: "ustring option"
  td_album_id :: "ustring option"
  td_artwork_url :: "ustring option"
  td_duration_ms :: nat
  td_explicit :: bool
  td_release_date :: "release_date_dto option"
  td_availability :: availability_dto

record album_dto =
  ad_id :: ustring
  ad_name :: ustring
  ad_artists :: "ustring list"
  ad_artwork_url :: "ustring option"
  ad_release_date :: "release_date_dto option"
  ad_track_count :: nat

record artist_dto =
  xd_id :: ustring
  xd_name :: ustring
  xd_artwork_url :: "ustring option"

record playlist_dto =
  yd_id :: ustring
  yd_name :: ustring
  yd_owner_name :: ustring
  yd_editable :: bool
  yd_artwork_url :: "ustring option"
  yd_track_count :: nat
  yd_revision :: "ustring option"

record track_list_dto =
  tk_kind :: ustring
  tk_id :: ustring
  tk_tracks :: "ustring list"

datatype sync_outcome_dto = DtoNever | DtoOk | DtoPartial | DtoRateLimited | DtoFailed

fun outcome_to_dto :: "sync_outcome \<Rightarrow> sync_outcome_dto" where
  "outcome_to_dto SyncNever = DtoNever"
| "outcome_to_dto SyncOk = DtoOk"
| "outcome_to_dto SyncPartial = DtoPartial"
| "outcome_to_dto SyncRateLimited = DtoRateLimited"
| "outcome_to_dto SyncFailed = DtoFailed"

fun outcome_from_dto :: "sync_outcome_dto \<Rightarrow> sync_outcome" where
  "outcome_from_dto DtoNever = SyncNever"
| "outcome_from_dto DtoOk = SyncOk"
| "outcome_from_dto DtoPartial = SyncPartial"
| "outcome_from_dto DtoRateLimited = SyncRateLimited"
| "outcome_from_dto DtoFailed = SyncFailed"

record sync_token_dto =
  sk_set :: ustring
  sk_token :: ustring

record sync_meta_dto =
  sm_last_synced_at :: "nat option"
  sm_last_outcome :: sync_outcome_dto
  sm_sync_tokens :: "sync_token_dto list"

record index_file =
  if_schema :: nat
  if_saved_tracks :: "saved_entry_dto list"
  if_saved_albums :: "saved_entry_dto list"
  if_followed_artists :: "ustring list"
  if_playlists :: "ustring list"
  if_tracks :: "track_dto list"
  if_albums :: "album_dto list"
  if_artists :: "artist_dto list"
  if_playlist_refs :: "playlist_dto list"
  if_track_lists :: "track_list_dto list"
  if_meta :: sync_meta_dto

section \<open>Keys\<close>

fun set_key :: "library_set \<Rightarrow> ustring" where
  "set_key SavedTracks = utf ''saved_tracks''"
| "set_key SavedAlbums = utf ''saved_albums''"
| "set_key FollowedArtists = utf ''followed_artists''"
| "set_key Playlists = utf ''playlists''"

definition set_from_key :: "ustring \<Rightarrow> library_set option" where
  "set_from_key key =
     (if key = utf ''saved_tracks'' then Some SavedTracks
      else if key = utf ''saved_albums'' then Some SavedAlbums
      else if key = utf ''followed_artists'' then Some FollowedArtists
      else if key = utf ''playlists'' then Some Playlists else None)"

fun album_uri :: "album_id \<Rightarrow> ustring" where "album_uri (AlbumId u) = u"
fun artist_uri :: "artist_id \<Rightarrow> ustring" where "artist_uri (ArtistId u) = u"
fun playlist_uri :: "playlist_id \<Rightarrow> ustring" where "playlist_uri (PlaylistId u) = u"

fun track_list_kind :: "track_list_source \<Rightarrow> ustring" where
  "track_list_kind (ListOfAlbum _) = utf ''album''"
| "track_list_kind (ListOfPlaylist _) = utf ''playlist''"
| "track_list_kind (ListOfArtistTop _) = utf ''artist_top''"

fun track_list_id :: "track_list_source \<Rightarrow> ustring" where
  "track_list_id (ListOfAlbum i) = album_uri i"
| "track_list_id (ListOfPlaylist i) = playlist_uri i"
| "track_list_id (ListOfArtistTop i) = artist_uri i"

definition track_list_source_from_dto :: "ustring \<Rightarrow> ustring \<Rightarrow> track_list_source option" where
  "track_list_source_from_dto kind i =
     (if kind = utf ''album'' then map_option ListOfAlbum (album_id_new i)
      else if kind = utf ''playlist'' then map_option ListOfPlaylist (playlist_id_new i)
      else if kind = utf ''artist_top'' then map_option ListOfArtistTop (artist_id_new i)
      else None)"

section \<open>Conversions\<close>

definition release_date_to_dto :: "release_date \<Rightarrow> release_date_dto" where
  "release_date_to_dto d = \<lparr>dd_year = rd_year d, dd_month = rd_month d, dd_day = rd_day d\<rparr>"

definition release_date_from_dto :: "release_date_dto \<Rightarrow> release_date" where
  "release_date_from_dto d = \<lparr>rd_year = dd_year d, rd_month = dd_month d, rd_day = dd_day d\<rparr>"

definition track_to_dto :: "track_ref \<Rightarrow> track_dto" where
  "track_to_dto t =
     \<lparr>td_id = track_uri (tr_id t), td_title = tr_title t, td_artists = tr_artists t,
      td_artist_ids = map artist_uri (tr_artist_ids t), td_album = tr_album t,
      td_album_id = map_option album_uri (tr_album_id t), td_artwork_url = tr_artwork_url t,
      td_duration_ms = tr_duration_ms t, td_explicit = tr_explicit t,
      td_release_date = map_option release_date_to_dto (tr_release_date t),
      td_availability = availability_to_dto (tr_availability t)\<rparr>"

definition track_from_dto :: "track_dto \<Rightarrow> track_ref option" where
  "track_from_dto d =
     map_option (\<lambda>i.
       (track_ref_new i (td_title d) (td_artists d) (td_album d) (td_artwork_url d) (td_duration_ms d)
          (availability_from_dto (td_availability d)))
       \<lparr>tr_artist_ids := List.map_filter artist_id_new (td_artist_ids d),
        tr_album_id := Option.bind (td_album_id d) album_id_new,
        tr_explicit := td_explicit d,
        tr_release_date := map_option release_date_from_dto (td_release_date d)\<rparr>)
       (track_id_new (td_id d))"

definition album_to_dto :: "album_ref \<Rightarrow> album_dto" where
  "album_to_dto a =
     \<lparr>ad_id = album_uri (al_id a), ad_name = al_name a, ad_artists = al_artists a,
      ad_artwork_url = al_artwork_url a, ad_release_date = map_option release_date_to_dto (al_release_date a),
      ad_track_count = al_track_count a\<rparr>"

definition album_from_dto :: "album_dto \<Rightarrow> album_ref option" where
  "album_from_dto d =
     map_option (\<lambda>i. \<lparr>al_id = i, al_name = ad_name d, al_artists = ad_artists d, al_artwork_url = ad_artwork_url d,
       al_release_date = map_option release_date_from_dto (ad_release_date d), al_track_count = ad_track_count d\<rparr>)
       (album_id_new (ad_id d))"

definition artist_to_dto :: "artist_ref \<Rightarrow> artist_dto" where
  "artist_to_dto a = \<lparr>xd_id = artist_uri (at_id a), xd_name = at_name a, xd_artwork_url = at_artwork_url a\<rparr>"

definition artist_from_dto :: "artist_dto \<Rightarrow> artist_ref option" where
  "artist_from_dto d =
     map_option (\<lambda>i. \<lparr>at_id = i, at_name = xd_name d, at_artwork_url = xd_artwork_url d\<rparr>) (artist_id_new (xd_id d))"

definition playlist_to_dto :: "playlist_ref \<Rightarrow> playlist_dto" where
  "playlist_to_dto p =
     \<lparr>yd_id = playlist_uri (pl_id p), yd_name = pl_name p, yd_owner_name = pl_owner_name p,
      yd_editable = pl_editable p, yd_artwork_url = pl_artwork_url p, yd_track_count = pl_track_count p,
      yd_revision = pl_revision p\<rparr>"

definition playlist_from_dto :: "playlist_dto \<Rightarrow> playlist_ref option" where
  "playlist_from_dto d =
     map_option (\<lambda>i. \<lparr>pl_id = i, pl_name = yd_name d, pl_owner_name = yd_owner_name d, pl_editable = yd_editable d,
       pl_artwork_url = yd_artwork_url d, pl_track_count = yd_track_count d, pl_revision = yd_revision d\<rparr>)
       (playlist_id_new (yd_id d))"

definition INDEX_SCHEMA_VERSION :: nat where "INDEX_SCHEMA_VERSION = 1"

definition entry_to_dto :: "('i \<Rightarrow> ustring) \<Rightarrow> 'i saved_entry \<Rightarrow> saved_entry_dto" where
  "entry_to_dto uri e = \<lparr>sd_id = uri (sv_id e), sd_added_at = sv_added_at e\<rparr>"

definition entry_from_dto :: "(ustring \<Rightarrow> 'i option) \<Rightarrow> saved_entry_dto \<Rightarrow> 'i saved_entry option" where
  "entry_from_dto new_id d = map_option (\<lambda>i. \<lparr>sv_id = i, sv_added_at = sd_added_at d\<rparr>) (new_id (sd_id d))"

definition meta_to_dto :: "sync_meta \<Rightarrow> sync_meta_dto" where
  "meta_to_dto m =
     \<lparr>sm_last_synced_at = sy_last_synced_at m, sm_last_outcome = outcome_to_dto (sy_last_outcome m),
      sm_sync_tokens = map (\<lambda>(s, t). \<lparr>sk_set = set_key s, sk_token = t\<rparr>) (sy_sync_tokens m)\<rparr>"

definition index_to_file :: "library_index \<Rightarrow> index_file" where
  "index_to_file ix =
     \<lparr>if_schema = INDEX_SCHEMA_VERSION,
      if_saved_tracks = map (entry_to_dto track_uri) (li_saved_tracks ix),
      if_saved_albums = map (entry_to_dto album_uri) (li_saved_albums ix),
      if_followed_artists = map artist_uri (li_followed_artists ix),
      if_playlists = map playlist_uri (li_playlists ix),
      if_tracks = map (\<lambda>(_, t). track_to_dto t) (li_tracks ix),
      if_albums = map (\<lambda>(_, a). album_to_dto a) (li_albums ix),
      if_artists = map (\<lambda>(_, a). artist_to_dto a) (li_artists ix),
      if_playlist_refs = map (\<lambda>(_, p). playlist_to_dto p) (li_playlist_refs ix),
      if_track_lists = map (\<lambda>(src, ids). \<lparr>tk_kind = track_list_kind src, tk_id = track_list_id src,
         tk_tracks = map track_uri ids\<rparr>) (li_track_lists ix),
      if_meta = meta_to_dto (li_meta ix)\<rparr>"

text \<open>\<^verbatim>\<open>collect()\<close> into a map: a later entry replaces an earlier one with the same key.\<close>

definition collect_map :: "('k \<times> 'v) list \<Rightarrow> ('k, 'v) hash_map" where
  "collect_map kvs = fold (\<lambda>(k, v). put k v) kvs []"

definition keyed :: "('r \<Rightarrow> 'k) \<Rightarrow> 'r list \<Rightarrow> ('k \<times> 'r) list" where
  "keyed key rs = map (\<lambda>r. (key r, r)) rs"

definition meta_from_dto :: "sync_meta_dto \<Rightarrow> sync_meta" where
  "meta_from_dto m =
     \<lparr>sy_last_synced_at = sm_last_synced_at m, sy_last_outcome = outcome_from_dto (sm_last_outcome m),
      sy_sync_tokens = collect_map (List.map_filter
        (\<lambda>d. map_option (\<lambda>s. (s, sk_token d)) (set_from_key (sk_set d))) (sm_sync_tokens m))\<rparr>"

definition list_from_dto :: "track_list_dto \<Rightarrow> (track_list_source \<times> track_id list) option" where
  "list_from_dto d =
     map_option (\<lambda>src. (src, List.map_filter track_id_new (tk_tracks d)))
       (track_list_source_from_dto (tk_kind d) (tk_id d))"

definition index_from_file :: "index_file \<Rightarrow> library_index" where
  "index_from_file f =
     index_from_parts
       (List.map_filter (entry_from_dto track_id_new) (if_saved_tracks f))
       (List.map_filter (entry_from_dto album_id_new) (if_saved_albums f))
       (List.map_filter artist_id_new (if_followed_artists f))
       (List.map_filter playlist_id_new (if_playlists f))
       (collect_map (keyed tr_id (List.map_filter track_from_dto (if_tracks f))))
       (collect_map (keyed al_id (List.map_filter album_from_dto (if_albums f))))
       (collect_map (keyed at_id (List.map_filter artist_from_dto (if_artists f))))
       (collect_map (keyed pl_id (List.map_filter playlist_from_dto (if_playlist_refs f))))
       (collect_map (List.map_filter list_from_dto (if_track_lists f)))
       (meta_from_dto (if_meta f))"

section \<open>The play log\<close>

record play_log_entry_dto =
  pe_id :: ustring
  pe_last_played :: nat
  pe_play_count :: nat
  pe_first_played :: nat

record play_log_file =
  pf_schema :: nat
  pf_entries :: "play_log_entry_dto list"
  pf_refs :: "track_dto list"

definition play_log_to_file :: "play_log \<Rightarrow> play_log_file" where
  "play_log_to_file l =
     \<lparr>pf_schema = INDEX_SCHEMA_VERSION,
      pf_entries = map (\<lambda>(i, t). \<lparr>pe_id = track_uri i, pe_last_played = t, pe_play_count = play_count i l,
         pe_first_played = (case map_of (py_first_played l) i of None \<Rightarrow> t | Some f \<Rightarrow> f)\<rparr>) (py_last_played l),
      pf_refs = map (\<lambda>(_, t). track_to_dto t) (py_refs l)\<rparr>"

definition log_entries :: "(play_log_entry_dto \<Rightarrow> nat) \<Rightarrow> play_log_file \<Rightarrow> (track_id, nat) hash_map" where
  "log_entries field f =
     collect_map (List.map_filter (\<lambda>e. map_option (\<lambda>i. (i, field e)) (track_id_new (pe_id e))) (pf_entries f))"

definition play_log_from_file :: "play_log_file \<Rightarrow> play_log" where
  "play_log_from_file f =
     play_log_from_parts (log_entries pe_last_played f) (log_entries pe_play_count f) (log_entries pe_first_played f)
       (collect_map (keyed tr_id (List.map_filter track_from_dto (pf_refs f))))"

section \<open>Loading\<close>

datatype library_warning = LibraryUnreadable | LibraryNewerSchema

text \<open>
  What the file gives: it is not there, it cannot be read or is no JSON, or a value of which the JSON
  library reads the version field (if it is a number) and the record (if it has its shape).
\<close>

datatype 'f stored = StoredMissing | StoredUnreadable | StoredValue "nat option" "'f option"

definition read_schema_checked :: "'f stored \<Rightarrow> library_warning option + 'f" where
  "read_schema_checked s =
     (case s of
        StoredMissing \<Rightarrow> Inl None
      | StoredUnreadable \<Rightarrow> Inl (Some LibraryUnreadable)
      | StoredValue schema record_value \<Rightarrow>
          if (case schema of None \<Rightarrow> False | Some v \<Rightarrow> INDEX_SCHEMA_VERSION < v mod 2 ^ 32) then Inl (Some LibraryNewerSchema)
          else case record_value of None \<Rightarrow> Inl (Some LibraryUnreadable) | Some f \<Rightarrow> Inr f)"

definition load_index :: "index_file stored \<Rightarrow> library_index \<times> library_warning option" where
  "load_index s =
     (case read_schema_checked s of Inr f \<Rightarrow> (index_from_file f, None) | Inl w \<Rightarrow> (index_new, w))"

definition load_play_log :: "play_log_file stored \<Rightarrow> play_log \<times> library_warning option" where
  "load_play_log s =
     (case read_schema_checked s of Inr f \<Rightarrow> (play_log_from_file f, None) | Inl w \<Rightarrow> (play_log_new, w))"

end
