(* ===== verification/Library_Theorems.thy ===== *)
theory Library_Theorems
  imports Library_Cycle Library_Desk Library_Store
begin

text \<open>
  The properties of the library: what reaches the index, how a cycle of synchronisation and the
  hydration sweep end, what the play log shows and what survives the files, with the cases in which the
  code breaks its contract.
\<close>

section \<open>Storing and loading\<close>

definition text_ok :: "track_ref \<Rightarrow> bool" where
  "text_ok t \<longleftrightarrow> trim (tr_title t) \<noteq> []"

text \<open>The identifiers in use were made by their constructors, and no title is blank.\<close>

definition track_ok :: "track_ref \<Rightarrow> bool" where
  "track_ok t \<longleftrightarrow> text_ok t \<and> uri_ok (track_uri (tr_id t)) \<and>
     list_all (\<lambda>i. uri_ok (artist_uri i)) (tr_artist_ids t) \<and>
     (case tr_album_id t of None \<Rightarrow> True | Some i \<Rightarrow> uri_ok (album_uri i))"

definition list_ids_ok :: "track_list_source \<times> track_id list \<Rightarrow> bool" where
  "list_ids_ok e \<longleftrightarrow> uri_ok (track_list_id (fst e)) \<and> list_all (\<lambda>i. uri_ok (track_uri i)) (snd e)"

definition index_ids_ok :: "library_index \<Rightarrow> bool" where
  "index_ids_ok ix \<longleftrightarrow>
     list_all (\<lambda>e. uri_ok (track_uri (sv_id e))) (li_saved_tracks ix) \<and>
     list_all (\<lambda>e. uri_ok (album_uri (sv_id e))) (li_saved_albums ix) \<and>
     list_all (\<lambda>i. uri_ok (artist_uri i)) (li_followed_artists ix) \<and>
     list_all (\<lambda>i. uri_ok (playlist_uri i)) (li_playlists ix) \<and>
     list_all (\<lambda>e. track_ok (snd e)) (li_tracks ix) \<and>
     list_all (\<lambda>e. uri_ok (album_uri (al_id (snd e)))) (li_albums ix) \<and>
     list_all (\<lambda>e. uri_ok (artist_uri (at_id (snd e)))) (li_artists ix) \<and>
     list_all (\<lambda>e. uri_ok (playlist_uri (pl_id (snd e)))) (li_playlist_refs ix) \<and>
     list_all list_ids_ok (li_track_lists ix)"

lemma id_roundtrips [simp]:
  "uri_ok (track_uri t) \<Longrightarrow> track_id_new (track_uri t) = Some t"
  "uri_ok (album_uri a) \<Longrightarrow> album_id_new (album_uri a) = Some a"
  "uri_ok (artist_uri b) \<Longrightarrow> artist_id_new (artist_uri b) = Some b"
  "uri_ok (playlist_uri p) \<Longrightarrow> playlist_id_new (playlist_uri p) = Some p"
  by (cases t; cases a; cases b; cases p;
      auto simp: track_id_new_def album_id_new_def artist_id_new_def playlist_id_new_def uri_ok_def)+

lemma map_filter_inverse: "list_all (\<lambda>x. g (f x) = Some x) xs \<Longrightarrow> List.map_filter g (map f xs) = xs"
  by (induction xs) (auto simp: List.map_filter_simps)

lemma map_filter_inverse_on:
  "(\<And>x. x \<in> set xs \<Longrightarrow> g (f x) = Some (h x)) \<Longrightarrow> List.map_filter g (map f xs) = map h xs"
  by (induction xs) (auto simp: List.map_filter_simps)

lemma put_fresh: "k \<notin> set (map fst m) \<Longrightarrow> put k v m = m @ [(k, v)]"
  by (induction m) auto

lemma collect_distinct: "distinct (map fst kvs) \<Longrightarrow> collect_map kvs = kvs"
proof (induction kvs rule: rev_induct)
  case (snoc x kvs)
  then have "fold (\<lambda>(k, v). put k v) kvs [] = kvs" by (simp add: collect_map_def)
  moreover have "fst x \<notin> set (map fst kvs)" using snoc.prems by simp
  ultimately show ?case using put_fresh [of "fst x" kvs "snd x"] by (simp add: collect_map_def split_def)
qed (simp add: collect_map_def)

lemma keyed_values: "refs_ok key m \<Longrightarrow> keyed key (map snd m) = m"
  by (induction m) (auto simp: refs_ok_def keyed_def)

lemma release_date_inverse [simp]: "release_date_from_dto (release_date_to_dto d) = d"
  by (simp add: release_date_from_dto_def release_date_to_dto_def)

lemma release_date_map [simp]:
  "map_option release_date_from_dto (map_option release_date_to_dto x) = x"
  by (cases x) simp_all

lemma availability_inverse [simp]: "availability_from_dto (availability_to_dto a) = a"
  by (cases a) simp_all

lemma outcome_inverse [simp]: "outcome_from_dto (outcome_to_dto s) = s"
  by (cases s) simp_all

lemma track_inverse: "track_ok t \<Longrightarrow> track_from_dto (track_to_dto t) = Some t"
proof -
  assume ok: "track_ok t"
  have "List.map_filter artist_id_new (map artist_uri (tr_artist_ids t)) = tr_artist_ids t"
    using ok by (intro map_filter_inverse) (auto simp: track_ok_def list_all_iff)
  moreover have "Option.bind (map_option album_uri (tr_album_id t)) album_id_new = tr_album_id t"
    using ok by (cases "tr_album_id t") (auto simp: track_ok_def)
  moreover have "track_id_new (track_uri (tr_id t)) = Some (tr_id t)" using ok by (simp add: track_ok_def)
  ultimately show ?thesis using ok
    by (simp add: track_from_dto_def track_to_dto_def track_ref_new_def track_ok_def text_ok_def)
qed

lemma album_inverse: "uri_ok (album_uri (al_id a)) \<Longrightarrow> album_from_dto (album_to_dto a) = Some a"
  by (simp add: album_from_dto_def album_to_dto_def)

lemma artist_inverse: "uri_ok (artist_uri (at_id a)) \<Longrightarrow> artist_from_dto (artist_to_dto a) = Some a"
  by (simp add: artist_from_dto_def artist_to_dto_def)

lemma playlist_inverse: "uri_ok (playlist_uri (pl_id p)) \<Longrightarrow> playlist_from_dto (playlist_to_dto p) = Some p"
  by (simp add: playlist_from_dto_def playlist_to_dto_def)

lemma refs_inverse:
  assumes "refs_ok key m" "list_all (\<lambda>e. new_ref (to_dto (snd e)) = Some (snd e)) m"
  shows "collect_map (keyed key (List.map_filter new_ref (map (\<lambda>(_, r). to_dto r) m))) = m"
proof -
  have "List.map_filter new_ref (map (\<lambda>(_, r). to_dto r) m) = map snd m"
    using assms(2) by (intro map_filter_inverse_on) (auto simp: list_all_iff)
  then show ?thesis using assms(1) by (simp add: keyed_values collect_distinct refs_ok_def)
qed

lemma set_key_inverse [simp]: "set_from_key (set_key s) = Some s"
  by (cases s) (simp_all add: set_from_key_def utf_def)

lemma source_inverse [simp]:
  "uri_ok (track_list_id src) \<Longrightarrow> track_list_source_from_dto (track_list_kind src) (track_list_id src) = Some src"
  by (cases src) (simp_all add: track_list_source_from_dto_def utf_def)

lemma meta_inverse: "distinct (map fst (sy_sync_tokens m)) \<Longrightarrow> meta_from_dto (meta_to_dto m) = m"
proof -
  assume d: "distinct (map fst (sy_sync_tokens m))"
  have "List.map_filter (\<lambda>d. map_option (\<lambda>s. (s, sk_token d)) (set_from_key (sk_set d)))
      (map (\<lambda>(s, t). \<lparr>sk_set = set_key s, sk_token = t\<rparr>) (sy_sync_tokens m)) = sy_sync_tokens m"
    by (intro map_filter_inverse) (auto simp: list_all_iff)
  then show ?thesis using d by (simp add: meta_from_dto_def meta_to_dto_def collect_distinct)
qed

lemma lists_inverse:
  assumes "distinct (map fst m)" "list_all list_ids_ok m"
  shows "collect_map (List.map_filter list_from_dto (map (\<lambda>(src, ids). \<lparr>tk_kind = track_list_kind src,
    tk_id = track_list_id src, tk_tracks = map track_uri ids\<rparr>) m)) = m"
proof -
  have "list_from_dto \<lparr>tk_kind = track_list_kind src, tk_id = track_list_id src, tk_tracks = map track_uri ids\<rparr> = Some (src, ids)"
    if "list_ids_ok (src, ids)" for src ids
  proof -
    have "List.map_filter track_id_new (map track_uri ids) = ids"
      using that by (intro map_filter_inverse) (auto simp: list_ids_ok_def list_all_iff)
    then show ?thesis using that by (simp add: list_from_dto_def list_ids_ok_def)
  qed
  then have "List.map_filter list_from_dto (map (\<lambda>(src, ids). \<lparr>tk_kind = track_list_kind src,
      tk_id = track_list_id src, tk_tracks = map track_uri ids\<rparr>) m) = m"
    using assms(2) by (intro map_filter_inverse) (auto simp: list_all_iff)
  then show ?thesis using assms(1) by (simp add: collect_distinct)
qed

lemma entries_inverse:
  "list_all (\<lambda>e. new_id (uri (sv_id e)) = Some (sv_id e)) es \<Longrightarrow>
     List.map_filter (entry_from_dto new_id) (map (entry_to_dto uri) es) = es"
  by (rule map_filter_inverse) (auto simp: list_all_iff entry_from_dto_def entry_to_dto_def)

lemma positions_of_ok:
  assumes "distinct (map sv_id es)"
  shows "saved_ok (positions_of es) es"
proof -
  have "positions_of es i = position (\<lambda>e. sv_id e = i) es" for i
  proof (cases "i \<in> sv_id ` set es")
    case True
    then obtain p where p: "p < length es" "sv_id (es ! p) = i" by (metis imageE in_set_conv_nth)
    have pos: "position (\<lambda>e. sv_id e = i) es = Some p" using position_key_nth [OF assms p(1)] p(2) by simp
    have d: "distinct (map fst (rev (zip (map sv_id es) [0..<length es])))"
      using assms by (simp add: rev_map [symmetric])
    have "(i, p) \<in> set (zip (map sv_id es) [0..<length es])" using p by (auto simp: set_zip intro!: exI [of _ p])
    then have "positions_of es i = Some p" using d by (simp add: positions_of_def)
    then show ?thesis using pos by simp
  next
    case False
    then have "position (\<lambda>e. sv_id e = i) es = None" by auto
    moreover have "positions_of es i = None" using False by (auto simp: positions_of_def map_of_eq_None_iff dest!: set_zip_leftD)
    ultimately show ?thesis by (simp del: position_None_iff)
  qed
  then show ?thesis using assms by (simp add: saved_ok_def)
qed

lemma saved_ok_unique: "saved_ok pos es \<Longrightarrow> saved_ok pos' es \<Longrightarrow> pos = pos'"
  by (auto simp: saved_ok_def)

text \<open>
  C30. Saving the library index and loading it again gives it back, lists, references, cached track
  lists and the marks of the last synchronisation, in whatever order the maps are iterated; only the
  queue of the hydration is empty.
\<close>

theorem index_save_load:
  assumes ok: "index_ok ix" and ids: "index_ids_ok ix"
  shows "load_index (StoredValue (Some INDEX_SCHEMA_VERSION) (Some (index_to_file ix))) =
    (ix\<lparr>li_queue := [], li_pending := {}\<rparr>, None)"
proof -
  have l: "lists_ok ix" using ok by (simp add: index_ok_def)
  note parts = l [unfolded lists_ok_def] and idp = ids [unfolded index_ids_ok_def]
  have 1: "List.map_filter (entry_from_dto track_id_new) (map (entry_to_dto track_uri) (li_saved_tracks ix)) = li_saved_tracks ix"
    "List.map_filter (entry_from_dto album_id_new) (map (entry_to_dto album_uri) (li_saved_albums ix)) = li_saved_albums ix"
    using idp by (intro entries_inverse; auto simp: list_all_iff)+
  have 2: "List.map_filter artist_id_new (map artist_uri (li_followed_artists ix)) = li_followed_artists ix"
    "List.map_filter playlist_id_new (map playlist_uri (li_playlists ix)) = li_playlists ix"
    using idp by (intro map_filter_inverse; auto simp: list_all_iff)+
  have 3: "collect_map (keyed tr_id (List.map_filter track_from_dto (map (\<lambda>(_, t). track_to_dto t) (li_tracks ix)))) = li_tracks ix"
    "collect_map (keyed al_id (List.map_filter album_from_dto (map (\<lambda>(_, a). album_to_dto a) (li_albums ix)))) = li_albums ix"
    "collect_map (keyed at_id (List.map_filter artist_from_dto (map (\<lambda>(_, a). artist_to_dto a) (li_artists ix)))) = li_artists ix"
    "collect_map (keyed pl_id (List.map_filter playlist_from_dto (map (\<lambda>(_, p). playlist_to_dto p) (li_playlist_refs ix)))) = li_playlist_refs ix"
    using parts idp
    by (intro refs_inverse; auto simp: list_all_iff track_inverse album_inverse artist_inverse playlist_inverse)+
  have 4: "positions_of (li_saved_tracks ix) = li_track_positions ix" "positions_of (li_saved_albums ix) = li_album_positions ix"
    using parts by (auto intro!: saved_ok_unique [OF positions_of_ok] simp: saved_ok_def)
  have "index_from_file (index_to_file ix) = ix\<lparr>li_queue := [], li_pending := {}\<rparr>"
    using parts idp
    by (simp add: index_from_file_def index_to_file_def index_from_parts_def 1 2 3 4 lists_inverse meta_inverse)
  then show ?thesis by (simp add: load_index_def read_schema_checked_def INDEX_SCHEMA_VERSION_def)
qed

definition a_track :: "string \<Rightarrow> track_ref" where
  "a_track n = track_ref_new (TrackId (utf n)) (utf n) [] None None 1000 Available"

definition a_page :: "string list \<Rightarrow> library_page" where
  "a_page ns = \<lparr>lp_set = SavedTracks, lp_items = map (\<lambda>n. ItemTrack (a_track n) (Some 1)) ns,
     lp_next_page = None, lp_sync_token = Some (utf ''v'')\<rparr>"

lemma index_save_load_witness:
  "load_index (StoredValue (Some INDEX_SCHEMA_VERSION) (Some (index_to_file (merge_page (a_page [''a'']) index_new)))) =
    ((merge_page (a_page [''a'']) index_new)\<lparr>li_queue := [], li_pending := {}\<rparr>, None)"
proof (rule index_save_load)
  show "index_ok (merge_page (a_page [''a'']) index_new)" by (simp add: merge_page_ok)
  show "index_ids_ok (merge_page (a_page [''a'']) index_new)"
    by (simp add: index_ids_ok_def merge_page_def a_page_def a_track_def index_new_def merge_saved_def enqueue_hydration_def
        is_hydrated_def track_ref_new_def uri_ok_def utf_def is_ascii_def)
qed

section \<open>Recently played\<close>

lemma plays_refs_ok: "refs_ok tr_id (py_refs (plays ps play_log_new))"
proof (induction ps rule: rev_induct)
  case Nil
  then show ?case by (simp add: plays_def play_log_new_def)
next
  case (snoc p ps)
  let ?l = "plays ps play_log_new"
  have "refs_ok tr_id (put (tr_id (fst p)) (fst p) (py_refs ?l))" using snoc by (simp add: refs_ok_put)
  then have "refs_ok tr_id (filter P (put (tr_id (fst p)) (fst p) (py_refs ?l)))" for P
    by (auto simp: refs_ok_def distinct_map_filter)
  moreover have "plays (ps @ [p]) play_log_new = record_play (fst p) (snd p) ?l"
    by (simp add: plays_def split_def)
  ultimately show ?case by (simp add: record_play_def Let_def trim_refs_to_window_def)
qed

lemma plays_tracks:
  "set (map fst (py_last_played (plays ps play_log_new))) \<subseteq> (tr_id \<circ> fst) ` set ps \<and>
   snd ` set (py_refs (plays ps play_log_new)) \<subseteq> fst ` set ps"
proof (induction ps rule: rev_induct)
  case Nil
  then show ?case by (simp add: plays_def play_log_new_def)
next
  case (snoc p ps)
  let ?l = "plays ps play_log_new"
  have e: "plays (ps @ [p]) play_log_new = record_play (fst p) (snd p) ?l"
    by (simp add: plays_def split_def)
  have sub: "set (py_refs (record_play (fst p) (snd p) ?l)) \<subseteq> insert (tr_id (fst p), fst p) (set (py_refs ?l))"
    using set_put [of "tr_id (fst p)" "fst p" "py_refs ?l"] by (auto simp: record_play_def Let_def trim_refs_to_window_def)
  have "snd ` set (py_refs (record_play (fst p) (snd p) ?l)) \<subseteq> insert (fst p) (snd ` set (py_refs ?l))"
    using image_mono [OF sub, of snd] by simp
  also have "\<dots> \<subseteq> insert (fst p) (fst ` set ps)" by (rule insert_mono) (rule conjunct2 [OF snoc])
  finally have r: "snd ` set (py_refs (record_play (fst p) (snd p) ?l)) \<subseteq> fst ` set (ps @ [p])" by simp
  have "set (map fst (py_last_played (record_play (fst p) (snd p) ?l))) \<subseteq> insert (tr_id (fst p)) ((tr_id \<circ> fst) ` set ps)"
    unfolding record_play_fields put_keys by (rule insert_mono) (rule conjunct1 [OF snoc])
  then have l: "set (map fst (py_last_played (record_play (fst p) (snd p) ?l))) \<subseteq> (tr_id \<circ> fst) ` set (ps @ [p])" by simp
  show ?case unfolding e using l r by (rule conjI)
qed

lemma plays_trimmed:
  "filter (\<lambda>(i, _). i \<in> set (recent (plays ps play_log_new))) (py_refs (plays ps play_log_new)) = py_refs (plays ps play_log_new)"
proof (cases ps rule: rev_cases)
  case Nil
  then show ?thesis by (simp add: plays_def play_log_new_def)
next
  case (snoc qs p)
  let ?l = "plays qs play_log_new"
  have e: "plays ps play_log_new = record_play (fst p) (snd p) ?l" by (simp add: snoc plays_def split_def)
  show ?thesis unfolding e by (simp add: record_play_def Let_def trim_refs_to_window_def recent_def)
qed

lemma log_entries_inverse:
  assumes "distinct (map fst (py_last_played l))" "list_all (\<lambda>e. uri_ok (track_uri (fst e))) (py_last_played l)"
  shows "log_entries pe_last_played (play_log_to_file l) = py_last_played l"
    and "log_entries pe_play_count (play_log_to_file l) = map (\<lambda>(i, _). (i, play_count i l)) (py_last_played l)"
proof -
  have f: "List.map_filter (\<lambda>e. map_option (\<lambda>i. (i, field e)) (track_id_new (pe_id e))) (pf_entries (play_log_to_file l)) =
      map (\<lambda>(i, t). (i, field \<lparr>pe_id = track_uri i, pe_last_played = t, pe_play_count = play_count i l,
         pe_first_played = (case map_of (py_first_played l) i of None \<Rightarrow> t | Some f \<Rightarrow> f)\<rparr>)) (py_last_played l)" for field
    unfolding play_log_to_file_def play_log_file.select_convs
    using assms(2) by (intro map_filter_inverse_on) (auto simp: list_all_iff)
  have k: "map fst (map (\<lambda>(i, t). (i, g i t)) xs) = map fst xs" for g and xs :: "(track_id \<times> nat) list"
    by (induction xs) auto
  show "log_entries pe_last_played (play_log_to_file l) = py_last_played l"
    unfolding log_entries_def f using assms(1) by (simp add: collect_distinct k split_def)
  show "log_entries pe_play_count (play_log_to_file l) = map (\<lambda>(i, _). (i, play_count i l)) (py_last_played l)"
    unfolding log_entries_def f using assms(1) by (simp add: collect_distinct k split_def comp_def)
qed

text \<open>
  C31. Recently played shows the last hundred different tracks played, the newest first and each as it
  was when played last, now and after the log was stored and loaded again.
\<close>

theorem recently_played_order:
  assumes times: "sorted_wrt (<) (map snd ps)" and ids: "list_all (\<lambda>p. track_ok (fst p)) ps"
  shows "recent_tracks (plays ps play_log_new) = take RECENT_WINDOW (fold move_to_front (map fst ps) []) \<and>
    recent_tracks (play_log_from_file (play_log_to_file (plays ps play_log_new))) =
      take RECENT_WINDOW (fold move_to_front (map fst ps) [])"
proof -
  let ?l = "plays ps play_log_new" and ?l' = "play_log_from_file (play_log_to_file (plays ps play_log_new))"
  have io: "in_order (fold move_to_front (map fst ps) []) ?l" using times by (rule plays_in_order)
  then have d: "distinct (map fst (py_last_played ?l))" by (simp add: in_order_def)
  have v: "list_all (\<lambda>e. uri_ok (track_uri (fst e))) (py_last_played ?l)"
    using plays_tracks [of ps] ids by (fastforce simp: list_all_iff track_ok_def)
  have "list_all (\<lambda>e. track_from_dto (track_to_dto (snd e)) = Some (snd e)) (py_refs ?l)"
    using plays_tracks [of ps] ids by (fastforce simp: list_all_iff intro: track_inverse)
  then have "collect_map (keyed tr_id (List.map_filter track_from_dto (pf_refs (play_log_to_file ?l)))) = py_refs ?l"
    using refs_inverse [OF plays_refs_ok, of track_from_dto track_to_dto ps] by (simp add: play_log_to_file_def)
  then have "py_last_played ?l' = py_last_played ?l" "py_refs ?l' = py_refs ?l"
    using plays_trimmed [of ps] log_entries_inverse [OF d v]
    by (simp_all add: play_log_from_file_def play_log_from_parts_def trim_refs_to_window_def recent_def)
  then have "recent_tracks ?l' = recent_tracks ?l" by (simp add: recent_tracks_def recent_def)
  then show ?thesis using in_order_recent(2) [OF io] by simp
qed

lemma recently_played_order_witness:
  "recent_tracks (play_log_from_file (play_log_to_file (plays [(a_track ''a'', 1), (a_track ''b'', 2), (a_track ''a'', 5)] play_log_new))) =
    [a_track ''a'', a_track ''b'']"
  using recently_played_order [of "[(a_track ''a'', 1), (a_track ''b'', 2), (a_track ''a'', 5)]"]
  by (simp add: a_track_def track_ok_def text_ok_def track_ref_new_def uri_ok_def utf_def is_ascii_def trim_def is_whitespace_def
      move_to_front_def RECENT_WINDOW_def)

section \<open>Synchronisation\<close>

text \<open>
  C17. A cycle of synchronisation that is answered ends, whatever rate limits delay it: it asks for
  every page of the four sets in turn, under consecutive identifiers and once more for each refusal,
  hands every page to the index, and its outcome is failed if a set failed, else partial if a set is
  not supported, else good.
\<close>

theorem sync_cycle_completes:
  assumes "list_all set_script scripts" and "length scripts = 4"
  shows "case sync_trigger now s of (c0, s0) \<Rightarrow> case serve now (concat scripts) s0 of (later, c, pages, s') \<Rightarrow>
    c0 @ c = numbered (sr_next_request_id s) (cycle_requests SET_ORDER scripts) \<and>
    pages = successes (concat scripts) \<and> sr_state s' = SchedulerIdle \<and> sr_last_synced_at s' = Some later \<and>
    sr_last_outcome s' = Some (if list_ex set_failed scripts then SyncFailed
                               else if list_ex set_unsupported scripts then SyncPartial else SyncOk)"
proof -
  obtain es rest where sc: "scripts = es # rest" using assms(2) by (cases scripts) auto
  let ?n = "sr_next_request_id s" and ?qs = "tl SET_ORDER"
  obtain c0 s0 where t: "sync_trigger now s = (c0, s0)" by fastforce
  then have c0: "c0 = [FetchLibrary ?n SavedTracks None SYNC_PAGE]" and w: "waiting SavedTracks None ?qs False False ?n s0"
    by (auto simp: sync_trigger_def start_cycle_def issue_current_def SET_ORDER_def waiting_def)
  have len: "length rest = length ?qs" using assms(2) sc by (simp add: SET_ORDER_def)
  have ok: "set_script es" "list_all set_script rest" using assms(1) sc by simp_all
  obtain later s' where r: "serve now (concat scripts) s0 =
      (later, tl (numbered ?n (cycle_requests (SavedTracks # ?qs) scripts)), successes (concat scripts), s')"
    "finished later (False \<or> list_ex set_unsupported scripts) (False \<or> list_ex set_failed scripts)
      (?n + length (cycle_requests (SavedTracks # ?qs) scripts)) s'"
    using serve_cycle [OF ok len w, of now] unfolding sc by blast
  have o: "SavedTracks # ?qs = SET_ORDER" by (simp add: SET_ORDER_def)
  have "cycle_requests SET_ORDER scripts = requests_of SavedTracks None es @ cycle_requests ?qs rest"
    by (simp add: sc SET_ORDER_def)
  then have "cycle_requests SET_ORDER scripts = (SavedTracks, None) # tl (cycle_requests SET_ORDER scripts)"
    using requests_Cons [OF ok(1), of SavedTracks None] by (metis append_Cons list.sel(3))
  then have "numbered ?n (cycle_requests SET_ORDER scripts) = c0 @ tl (numbered ?n (cycle_requests SET_ORDER scripts))"
    unfolding c0 by (metis append_Cons append_Nil fst_conv list.sel(3) numbered.simps(2) snd_conv)
  then show ?thesis using r t unfolding o by (simp add: finished_def)
qed

definition a_script :: "exchange list list" where
  "a_script = [[([Some 1000], Inr (a_page [''a'']))], [([], Inl CatalogUnsupported)],
     [([], Inr (a_page []))], [([], Inr (a_page []))]]"

lemma a_script_facts:
  "list_all set_script a_script" "length a_script = 4"
  "list_ex set_failed a_script = False" "list_ex set_unsupported a_script = True"
  by (simp_all add: a_script_def a_page_def set_failed_def set_unsupported_def)

lemma sync_cycle_completes_witness:
  "case sync_trigger 0 scheduler_new of (c0, s0) \<Rightarrow> case serve 0 (concat a_script) s0 of (later, c, pages, s') \<Rightarrow>
     c0 @ c = numbered 0 (cycle_requests SET_ORDER a_script) \<and> sr_last_outcome s' = Some SyncPartial"
  using sync_cycle_completes [OF a_script_facts(1,2), of scheduler_new 0]
  by (simp add: split_def a_script_facts(3,4) scheduler_new_def)

end
