(* ===== verification/Library_Rows.thy ===== *)
theory Library_Rows
  imports Library_Theorems
begin

text \<open>
  The properties of the rows of the library: that each saved track is hydrated or on its way, that the
  sweep hydrates them all, that a synchronisation of what is already there changes nothing, and the
  cases in which the code leaves a row without its data or shows the rows of somebody else.
\<close>

section \<open>Rows are covered\<close>

text \<open>
  C21. Whatever calls, ticks, replies, sign-outs and loads of a well-formed stored index the controller
  sees, the index is well-formed, the scheduler has one request out exactly while it synchronises, and
  every saved track is hydrated or marked as on its way and every playlist has its reference, but for
  the rows that a loaded index brought without: those are queued by nobody, see
  \<open>loaded_rows_not_queued\<close>.
\<close>

theorem library_rows_covered:
  assumes "list_all load_ok cs" and "d = fold desk_apply cs (desk_start a)"
  shows "library_desk_ok d \<and>
    (\<forall>e\<in>set (li_saved_tracks (ld_index d)). (\<exists>c\<in>set cs. sv_id e \<in> brought_tracks c) \<or>
       is_hydrated (TargetTrack (sv_id e)) (ld_index d) \<or> TargetTrack (sv_id e) \<in> li_pending (ld_index d)) \<and>
    (\<forall>p\<in>set (li_playlists (ld_index d)). (\<exists>c\<in>set cs. p \<in> brought_playlists c) \<or>
       map_of (li_playlist_refs (ld_index d)) p \<noteq> None)"
proof -
  have "rows_covered X Y (ld_index (desk_start a))" for X Y by (simp add: desk_start_def)
  from desk_calls_ok [OF desk_start_ok this assms(1) subset_refl subset_refl]
  show ?thesis unfolding assms(2) rows_covered_def by auto
qed

text \<open>What is loaded of an index that was stored before the reference of its one row had come.\<close>

definition stored_index :: library_index where
  "stored_index = (merge_page (a_page [''a'']) index_new)\<lparr>li_queue := [], li_pending := {}\<rparr>"

lemma stored_index_ok: "index_ok stored_index"
proof -
  have "index_ok (merge_page (a_page [''a'']) index_new)" by (rule merge_page_ok) simp
  then show ?thesis by (simp add: stored_index_def index_ok_def lists_ok_def hydration_ok_def index_simps)
qed

lemma library_rows_covered_witness:
  "TargetTrack (TrackId (utf ''b'')) \<in> li_pending (ld_index (fold desk_apply
     [DeskLoad (LoadDone stored_index), DeskTick 0 True, DeskPage 2 2 0 (Inr (a_page [''b'']))] (desk_start True)))"
proof -
  let ?cs = "[DeskLoad (LoadDone stored_index), DeskTick 0 True, DeskPage 2 2 0 (Inr (a_page [''b'']))]"
  let ?d = "fold desk_apply ?cs (desk_start True)" and ?b = "TrackId (utf ''b'')"
  let ?e = "ld_sync (tick_library 0 True (drain_library_load (LoadDone stored_index) (desk_start True)))"
  have l: "list_all load_ok ?cs" by (simp add: stored_index_ok)
  have i: "ld_index (tick_library 0 True (drain_library_load (LoadDone stored_index) (desk_start True))) = stored_index"
    using tick_parts(1) [of 0 True "drain_library_load (LoadDone stored_index) (desk_start True)"]
    by (auto simp: drain_library_load_def desk_start_def stored_index_def)
  obtain m cmds s where m: "sync_apply_reply 2 0 (Inr (a_page [''b''])) ?e = ((m, cmds), s)" by (metis prod.exhaust)
  have "m = Some (a_page [''b''])"
    using m by (auto simp: tick_parts(2) drain_library_load_def desk_start_def sync_trigger_def start_cycle_def
        issue_current_def scheduler_new_def SET_ORDER_def sync_apply_reply_def advance_to_next_set_def Let_def split_def)
  then have d: "li_saved_tracks (ld_index ?d) = li_saved_tracks (merge_page (a_page [''b'']) stored_index)"
    "li_tracks (ld_index ?d) = li_tracks (merge_page (a_page [''b'']) stored_index)"
    by (simp_all add: route_page_parts [OF m] i record_outcome_def split: option.split)
  have "?b \<in> sv_id ` set (li_saved_tracks (ld_index ?d))" "map_of (li_tracks (ld_index ?d)) ?b = None"
    unfolding d
    by (simp_all add: stored_index_def merge_page_def a_page_def index_new_def merge_saved_def enqueue_hydration_def
        is_hydrated_def a_track_def track_ref_new_def utf_def)
  moreover have "\<not> (\<exists>c\<in>set ?cs. ?b \<in> brought_tracks c)"
    by (simp add: bare_tracks_def stored_index_def merge_page_def a_page_def index_new_def merge_saved_def
        enqueue_hydration_def is_hydrated_def a_track_def track_ref_new_def utf_def)
  moreover obtain e where "e \<in> set (li_saved_tracks (ld_index ?d))" "sv_id e = ?b" using calculation(1) by auto
  ultimately show ?thesis using library_rows_covered [OF l refl, of True] unfolding is_hydrated_def by fastforce
qed

section \<open>The sweep hydrates them\<close>





section \<open>Synchronising what is already there\<close>

datatype item_key = TrackKey track_id | AlbumKey album_id | ArtistKey artist_id | PlaylistKey playlist_id

fun key_of :: "library_item \<Rightarrow> item_key" where
  "key_of (ItemTrack t _) = TrackKey (tr_id t)"
| "key_of (ItemAlbum a _) = AlbumKey (al_id a)"
| "key_of (ItemArtist a) = ArtistKey (at_id a)"
| "key_of (ItemPlaylist p) = PlaylistKey (pl_id p)"

definition settled_entry :: "'i \<Rightarrow> nat option \<Rightarrow> ('i \<rightharpoonup> nat) \<Rightarrow> 'i saved_entry list \<Rightarrow> bool" where
  "settled_entry i added pos es \<longleftrightarrow>
     (\<exists>p. pos i = Some p \<and> p < length es \<and> (added = None \<or> sv_added_at (es ! p) = added))"

definition on_its_way :: "hydration_target \<Rightarrow> library_index \<Rightarrow> bool" where
  "on_its_way t ix \<longleftrightarrow> is_hydrated t ix \<or> t \<in> li_pending ix"

text \<open>An item the index already has, with everything the page says of it.\<close>

fun absorbed :: "library_index \<Rightarrow> library_item \<Rightarrow> bool" where
  "absorbed ix (ItemTrack t added) \<longleftrightarrow>
     settled_entry (tr_id t) added (li_track_positions ix) (li_saved_tracks ix) \<and> on_its_way (TargetTrack (tr_id t)) ix"
| "absorbed ix (ItemAlbum a added) \<longleftrightarrow>
     settled_entry (al_id a) added (li_album_positions ix) (li_saved_albums ix) \<and> on_its_way (TargetAlbum (al_id a)) ix"
| "absorbed ix (ItemArtist a) \<longleftrightarrow> at_id a \<in> li_artist_set ix \<and> on_its_way (TargetArtist (at_id a)) ix"
| "absorbed ix (ItemPlaylist p) \<longleftrightarrow> pl_id p \<in> li_playlist_set ix \<and> map_of (li_playlist_refs ix) (pl_id p) = Some p"

lemma enqueue_on_its_way: "on_its_way t ix \<Longrightarrow> enqueue_hydration t ix = ix"
  by (simp add: on_its_way_def enqueue_hydration_def)

lemma merge_saved_settled: "settled_entry i added pos es \<Longrightarrow> merge_saved i added (pos, es) = (pos, es)"
  by (auto simp: settled_entry_def merge_saved_def intro!: list_update_same_conv [THEN iffD2])

lemma merge_absorbed: "absorbed ix it \<Longrightarrow> merge_item it ix = ix"
proof (cases it)
  case (ItemPlaylist p)
  assume "absorbed ix it"
  then show ?thesis using ItemPlaylist update_triv [of "li_playlist_refs ix" "pl_id p" p] by simp
qed (auto simp: merge_saved_settled enqueue_on_its_way)

lemma merge_saved_settles:
  assumes "saved_ok pos es" and "merge_saved i added (pos, es) = (pos', es')"
  shows "settled_entry i added pos' es'"
proof (cases "pos i")
  case None
  then show ?thesis using assms(2) by (auto simp: merge_saved_def settled_entry_def)
next
  case (Some p)
  then show ?thesis using assms(2) saved_ok_pos [OF assms(1) Some]
    by (cases "added = None") (auto simp: merge_saved_def settled_entry_def)
qed

lemma merge_saved_keeps_settled:
  assumes "saved_ok pos es" and "merge_saved i added (pos, es) = (pos', es')" and "settled_entry j added' pos es" "j \<noteq> i"
  shows "settled_entry j added' pos' es'"
proof -
  obtain q where q: "pos j = Some q" "q < length es" "added' = None \<or> sv_added_at (es ! q) = added'"
    using assms(3) by (auto simp: settled_entry_def)
  show ?thesis
  proof (cases "pos i")
    case None
    then show ?thesis using assms(2,4) q by (auto simp: merge_saved_def settled_entry_def nth_append)
  next
    case (Some p)
    have "p \<noteq> q" using saved_ok_pos [OF assms(1) Some] saved_ok_pos [OF assms(1) q(1)] assms(4) by auto
    then show ?thesis using assms(2) Some q by (auto simp: merge_saved_def settled_entry_def)
  qed
qed

lemma on_its_way_enqueue: "on_its_way u ix \<Longrightarrow> on_its_way u (enqueue_hydration t ix)"
  by (auto simp: on_its_way_def enqueue_pending)

lemma enqueue_on_way [simp]: "on_its_way t (enqueue_hydration t ix)"
  by (simp add: on_its_way_def enqueue_pending)

lemma on_its_way_simps [simp]:
  "on_its_way t (ix\<lparr>li_track_positions := c, li_saved_tracks := d\<rparr>) = on_its_way t ix"
  "on_its_way t (ix\<lparr>li_album_positions := e, li_saved_albums := f\<rparr>) = on_its_way t ix"
  "on_its_way t (ix\<lparr>li_artist_set := g, li_followed_artists := h\<rparr>) = on_its_way t ix"
  "on_its_way t (ix\<lparr>li_playlist_set := j, li_playlists := k, li_playlist_refs := l\<rparr>) = on_its_way t ix"
  "on_its_way t (ix\<lparr>li_playlist_set := j, li_playlists := k\<rparr>) = on_its_way t ix"
  "on_its_way t (ix\<lparr>li_playlist_refs := l\<rparr>) = on_its_way t ix"
  by (simp_all add: on_its_way_def index_simps)

lemma merge_item_absorbs:
  assumes "index_ok ix"
  shows "absorbed (merge_item it ix) it"
proof -
  have ok: "saved_ok (li_track_positions ix) (li_saved_tracks ix)" "saved_ok (li_album_positions ix) (li_saved_albums ix)"
    using assms by (simp_all add: index_ok_def lists_ok_def)
  show ?thesis
  proof (cases it)
    case (ItemTrack t added)
    obtain pos es where m: "merge_saved (tr_id t) added (li_track_positions ix, li_saved_tracks ix) = (pos, es)" by fastforce
    show ?thesis using ItemTrack m merge_saved_settles [OF ok(1) m] by simp
  next
    case (ItemAlbum a added)
    obtain pos es where m: "merge_saved (al_id a) added (li_album_positions ix, li_saved_albums ix) = (pos, es)" by fastforce
    show ?thesis using ItemAlbum m merge_saved_settles [OF ok(2) m] by simp
  qed simp_all
qed

lemma absorbed_fields:
  assumes "li_track_positions ix' = li_track_positions ix" "li_saved_tracks ix' = li_saved_tracks ix"
    "li_album_positions ix' = li_album_positions ix" "li_saved_albums ix' = li_saved_albums ix"
    "li_artist_set ix \<subseteq> li_artist_set ix'" "li_playlist_set ix \<subseteq> li_playlist_set ix'"
    "\<And>p. key_of it = PlaylistKey p \<Longrightarrow> map_of (li_playlist_refs ix') p = map_of (li_playlist_refs ix) p"
    "\<And>t. on_its_way t ix \<Longrightarrow> on_its_way t ix'"
  shows "absorbed ix it \<Longrightarrow> absorbed ix' it"
  using assms by (cases it) auto

lemma merge_item_keeps_absorbed:
  assumes "index_ok ix" "absorbed ix it" "key_of it' \<noteq> key_of it"
  shows "absorbed (merge_item it' ix) it"
proof -
  have ok: "saved_ok (li_track_positions ix) (li_saved_tracks ix)" "saved_ok (li_album_positions ix) (li_saved_albums ix)"
    using assms(1) by (simp_all add: index_ok_def lists_ok_def)
  show ?thesis
  proof (cases it')
    case (ItemTrack t added)
    obtain pos es where m: "merge_saved (tr_id t) added (li_track_positions ix, li_saved_tracks ix) = (pos, es)" by fastforce
    note k = merge_saved_keeps_settled [OF ok(1) m]
    show ?thesis using assms(2,3) ItemTrack m k by (cases it) (auto intro: on_its_way_enqueue)
  next
    case (ItemAlbum a added)
    obtain pos es where m: "merge_saved (al_id a) added (li_album_positions ix, li_saved_albums ix) = (pos, es)" by fastforce
    note k = merge_saved_keeps_settled [OF ok(2) m]
    show ?thesis using assms(2,3) ItemAlbum m k by (cases it) (auto intro: on_its_way_enqueue)
  next
    case (ItemArtist a)
    show ?thesis using assms(2) ItemArtist
      by (cases it) (auto intro!: on_its_way_enqueue split: if_splits)
  next
    case (ItemPlaylist p)
    show ?thesis using assms(2,3) ItemPlaylist by (cases it) (auto simp: Let_def)
  qed
qed

lemma fold_merge_absorbs:
  "index_ok ix \<Longrightarrow> distinct (map key_of its) \<Longrightarrow> it \<in> set its \<Longrightarrow> absorbed (fold merge_item its ix) it"
proof (induction its rule: rev_induct)
  case (snoc x its)
  have ok: "index_ok (fold merge_item its ix)"
    using snoc.prems(1) fold_keeps [of index_ok merge_item] merge_item_ok by blast
  show ?case
  proof (cases "it = x")
    case True
    then show ?thesis using merge_item_absorbs [OF ok, of x] by simp
  next
    case False
    then have "it \<in> set its" using snoc.prems(3) by simp
    then have "absorbed (fold merge_item its ix) it" "key_of x \<noteq> key_of it"
      using snoc by (auto simp: image_iff)
    then show ?thesis using merge_item_keeps_absorbed [OF ok] by simp
  qed
qed simp

lemma fold_absorbed: "list_all (absorbed ix) its \<Longrightarrow> fold merge_item its ix = ix"
  by (induction its) (auto simp: merge_absorbed)

lemma absorbed_meta: "absorbed (ix\<lparr>li_meta := m\<rparr>) = absorbed ix"
proof
  show "absorbed (ix\<lparr>li_meta := m\<rparr>) it = absorbed ix it" for it
    by (cases it) (simp_all add: on_its_way_def index_simps)
qed

text \<open>
  Synchronising again what the index already has changes nothing: merging a page that names no
  entry twice is idempotent, for the lists, the dates, the references and the hydration queue.
\<close>

lemma resync_changes_nothing:
  assumes "index_ok ix" and "distinct (map key_of (lp_items page))"
  shows "merge_page page (merge_page page ix) = merge_page page ix"
proof -
  let ?ix = "fold merge_item (lp_items page) ix"
  have "list_all (absorbed ?ix) (lp_items page)"
    using fold_merge_absorbs [OF assms] by (simp add: list_all_iff)
  then have "list_all (absorbed (merge_page page ix)) (lp_items page)"
    by (simp add: merge_page_def Let_def absorbed_meta split: option.split)
  then have f: "fold merge_item (lp_items page) (merge_page page ix) = merge_page page ix" by (rule fold_absorbed)
  show ?thesis
    unfolding merge_page_def [of page "merge_page page ix"] f Let_def
    by (simp add: merge_page_def Let_def split: option.split)
qed

lemma resync_changes_nothing_witness:
  "merge_page (a_page [''a'', ''b'']) (merge_page (a_page [''a'', ''b'']) index_new) = merge_page (a_page [''a'', ''b'']) index_new"
  by (rule resync_changes_nothing) (simp_all add: a_page_def a_track_def track_ref_new_def utf_def)

section \<open>Where the code leaves its contract\<close>

text \<open>The artist waits for ever: pending, but not queued, so no request names it.\<close>

definition stuck_artist :: "artist_id \<Rightarrow> library_index \<Rightarrow> bool" where
  "stuck_artist a ix \<longleftrightarrow> TargetArtist a \<in> li_pending ix \<and> TargetArtist a \<notin> set (li_queue ix)"

lemma enqueue_stuck: "stuck_artist a ix \<Longrightarrow> stuck_artist a (enqueue_hydration t ix)"
  by (auto simp: stuck_artist_def enqueue_hydration_def)

lemma stuck_simps [simp]:
  "stuck_artist a (ix\<lparr>li_track_positions := c, li_saved_tracks := d\<rparr>) = stuck_artist a ix"
  "stuck_artist a (ix\<lparr>li_album_positions := e, li_saved_albums := f\<rparr>) = stuck_artist a ix"
  "stuck_artist a (ix\<lparr>li_artist_set := g, li_followed_artists := h\<rparr>) = stuck_artist a ix"
  "stuck_artist a (ix\<lparr>li_playlist_set := j, li_playlists := k, li_playlist_refs := l\<rparr>) = stuck_artist a ix"
  "stuck_artist a (ix\<lparr>li_playlist_set := j, li_playlists := k\<rparr>) = stuck_artist a ix"
  "stuck_artist a (ix\<lparr>li_playlist_refs := l\<rparr>) = stuck_artist a ix"
  "stuck_artist a (ix\<lparr>li_track_lists := m\<rparr>) = stuck_artist a ix"
  "stuck_artist a (ix\<lparr>li_meta := n\<rparr>) = stuck_artist a ix"
  by (simp_all add: stuck_artist_def)

lemma merge_item_stuck: "stuck_artist a ix \<Longrightarrow> stuck_artist a (merge_item it ix)"
proof (cases it)
  case (ItemTrack t added)
  assume "stuck_artist a ix"
  then show ?thesis using ItemTrack
    by (cases "merge_saved (tr_id t) added (li_track_positions ix, li_saved_tracks ix)") (simp add: enqueue_stuck)
next
  case (ItemAlbum b added)
  assume "stuck_artist a ix"
  then show ?thesis using ItemAlbum
    by (cases "merge_saved (al_id b) added (li_album_positions ix, li_saved_albums ix)") (simp add: enqueue_stuck)
qed (auto simp: Let_def enqueue_stuck)

lemma merge_page_stuck: "stuck_artist a ix \<Longrightarrow> stuck_artist a (merge_page page ix)"
proof -
  assume "stuck_artist a ix"
  then have "stuck_artist a (fold merge_item (lp_items page) ix)"
    using fold_keeps [of "stuck_artist a" merge_item] merge_item_stuck by blast
  then show ?thesis by (simp add: merge_page_def Let_def split: option.split)
qed

lemma prioritize_stuck: "stuck_artist a ix \<Longrightarrow> stuck_artist a (prioritize_hydration ids ix)"
  unfolding prioritize_hydration_def
proof (rule fold_keeps [of "stuck_artist a"])
  show "stuck_artist a ix \<Longrightarrow> stuck_artist a (prioritize_one i ix)" for i ix
    using set_remove_nth_subset [of _ "li_queue ix"]
    by (auto simp: prioritize_one_def Let_def stuck_artist_def split: option.split)
qed

lemma hydrate_stuck:
  "stuck_artist a ix \<Longrightarrow> stuck_artist a (hydrate_track t ix)"
  "stuck_artist a ix \<Longrightarrow> stuck_artist a (hydrate_album b ix)"
  "stuck_artist a ix \<Longrightarrow> at_id c \<noteq> a \<Longrightarrow> stuck_artist a (hydrate_artist c ix)"
  by (auto simp: stuck_artist_def)

lemma album_or_no_artist: "album_id_new uri = None \<Longrightarrow> artist_id_new uri = None"
  by (simp add: album_id_new_def artist_id_new_def split: if_splits)

lemma clear_missing_stuck: "stuck_artist a ix \<Longrightarrow> stuck_artist a (clear_missing uri ix)"
  using album_or_no_artist [of uri]
  by (cases "album_id_new uri") (auto simp: clear_missing_def stuck_artist_def)

lemma apply_hydrated_stuck:
  assumes "stuck_artist a ix" "a \<notin> at_id ` set ars"
  shows "stuck_artist a (apply_hydrated ts als ars miss ix)"
proof -
  have "stuck_artist a (resolve_missing uri ix)" if "stuck_artist a ix" for uri ix
    using that by (auto simp: resolve_missing_eq hydrate_stuck clear_missing_stuck split: option.split)
  moreover have "stuck_artist a (fold hydrate_artist ars ix)" if "stuck_artist a ix" for ix
    using that assms(2) by (induction ars arbitrary: ix) (auto simp: hydrate_stuck)
  moreover have "stuck_artist a (fold hydrate_album als (fold hydrate_track ts ix))"
    using assms(1) by (intro fold_keeps [of "stuck_artist a"] hydrate_stuck)
  ultimately show ?thesis
    unfolding apply_hydrated_def by (simp add: fold_keeps [of "stuck_artist a" resolve_missing])
qed

lemma merge_track_list_stuck: "stuck_artist a ix \<Longrightarrow> stuck_artist a (merge_track_list l ix)"
  by (simp add: merge_track_list_def Let_def fold_keeps [of "stuck_artist a"] hydrate_stuck)

definition asks_for :: "artist_id \<Rightarrow> library_command \<Rightarrow> bool" where
  "asks_for a c \<longleftrightarrow> (case c of HydrateRefs _ b \<Rightarrow> a \<in> set (hb_artists b) | _ \<Rightarrow> False)"

text \<open>
  The calls after which the artist is still unknown: no sign-out, no stored index that arrives, and no
  reply that has the artist.
\<close>

fun leaves_artist :: "artist_id \<Rightarrow> desk_call \<Rightarrow> bool" where
  "leaves_artist a DeskSignOut \<longleftrightarrow> False"
| "leaves_artist a (DeskLoad (LoadDone _)) \<longleftrightarrow> False"
| "leaves_artist a (DeskHydrated _ _ ars _) \<longleftrightarrow> a \<notin> at_id ` set ars"
| "leaves_artist a _ \<longleftrightarrow> True"

lemma sync_commands: "\<not> asks_for a c" if "c \<in> set (fst (issue_current now s))"
  using that by (auto simp: issue_current_def asks_for_def split: option.splits)

lemma sync_commands2:
  "\<not> list_ex (asks_for a) (fst (sync_trigger now s))"
  "\<not> list_ex (asks_for a) (fst (sync_tick now online s))"
  "\<not> list_ex (asks_for a) (snd (fst (sync_apply_reply now r result s)))"
  using sync_commands [of _ now _ a]
  by (auto simp: list_ex_iff sync_trigger_def start_cycle_def sync_tick_def sync_apply_reply_def Let_def split_def
      advance_to_next_set_def split: scheduler_state.splits option.splits if_splits sum.splits catalog_error.splits)

lemma sweep_stuck:
  assumes "stuck_artist a (ld_index d)"
  shows "stuck_artist a (ld_index (maybe_sweep_hydration now d)) \<and>
    (\<exists>new. ld_sent (maybe_sweep_hydration now d) = ld_sent d @ new \<and> \<not> list_ex (asks_for a) new)"
proof -
  have "a \<notin> set (hb_artists (fst (drain_hydration_batch HYDRATE_BATCH (ld_index d))))"
    using drained_targets [of HYDRATE_BATCH "ld_index d"] assms
    by (auto simp: batch_targets_def stuck_artist_def dest: in_set_takeD)
  moreover have "stuck_artist a ((ld_index d)\<lparr>li_queue := drop n (li_queue (ld_index d))\<rparr>)" for n
    using assms by (auto simp: stuck_artist_def dest: in_set_dropD)
  ultimately show ?thesis using assms
    by (auto simp: maybe_sweep_hydration_def Let_def split_def asks_for_def)
qed

lemma desk_apply_stuck:
  assumes st: "stuck_artist a (ld_index d)" and l: "leaves_artist a c"
  shows "stuck_artist a (ld_index (desk_apply c d)) \<and>
    (\<exists>new. ld_sent (desk_apply c d) = ld_sent d @ new \<and> \<not> list_ex (asks_for a) new)"
proof (cases c)
  case (DeskRetry now)
  then show ?thesis using st sync_commands2(1) [of a now "ld_sync d"]
    by (auto simp: library_retry_sync_def Let_def split_def)
next
  case (DeskTrackList src)
  then show ?thesis using st by (auto simp: library_track_list_def asks_for_def split: option.split)
next
  case (DeskTick now online)
  let ?r = "if online \<and> \<not> ld_was_online d then sync_trigger now (ld_sync d) else sync_tick now online (ld_sync d)"
  let ?d = "send_all (fst ?r) (d\<lparr>ld_was_online := online, ld_sync := snd ?r\<rparr>)"
  have t: "desk_apply c d = maybe_sweep_hydration now ?d"
    using DeskTick by (simp add: tick_library_def Let_def split_def)
  have "\<not> list_ex (asks_for a) (fst ?r)" using sync_commands2(1,2) [of a now] by simp
  moreover have "stuck_artist a (ld_index ?d)" using st by simp
  moreover have "ld_sent ?d = ld_sent d @ fst ?r" by simp
  ultimately show ?thesis unfolding t using sweep_stuck [of a ?d now] by fastforce
next
  case (DeskPage now now_ms r result)
  obtain m cmds s where m: "sync_apply_reply now r result (ld_sync d) = ((m, cmds), s)" by (metis prod.exhaust)
  have "stuck_artist a (record_outcome n oc ix) = stuck_artist a ix" for n oc ix by (simp add: record_outcome_def)
  then show ?thesis using DeskPage st sync_commands2(3) [of a now r result "ld_sync d"] m
    by (simp add: route_page_parts [OF m] merge_page_stuck split: option.split)
next
  case (DeskListReply r result)
  then show ?thesis using st by (auto simp: route_track_list_def Let_def merge_track_list_stuck split: sum.split)
next
  case (DeskLoad poll)
  then show ?thesis using st l by (cases poll) (auto simp: drain_library_load_def)
qed (use assms in \<open>auto simp: library_hydrate_visible_def prioritize_stuck route_hydrated_def apply_hydrated_stuck\<close>)

text \<open>
  C32. An artist whose hydration request went out and whose uri comes back as missing is never resolved:
  as long as no reply has the artist itself, nobody signs out and no stored index arrives, it stays
  marked as pending, its row stays empty, and no later request names it.
\<close>

theorem missing_artist_never_resolved:
  assumes "stuck_artist a (ld_index d)" and "list_all (leaves_artist a) cs"
  shows "TargetArtist a \<in> li_pending (ld_index (fold desk_apply cs d)) \<and>
    has_pending_hydration (ld_index (fold desk_apply cs d)) \<and>
    \<not> list_ex (asks_for a) (drop (length (ld_sent d)) (ld_sent (fold desk_apply cs d)))"
proof -
  have "stuck_artist a (ld_index (fold desk_apply cs d)) \<and>
      (\<exists>new. ld_sent (fold desk_apply cs d) = ld_sent d @ new \<and> \<not> list_ex (asks_for a) new)"
    using assms
  proof (induction cs arbitrary: d)
    case (Cons c cs)
    have c: "stuck_artist a (ld_index (desk_apply c d))" "leaves_artist a c" "list_all (leaves_artist a) cs"
      using desk_apply_stuck Cons.prems by simp_all
    obtain n1 where "ld_sent (desk_apply c d) = ld_sent d @ n1" "\<not> list_ex (asks_for a) n1"
      using desk_apply_stuck [OF Cons.prems(1) c(2)] by blast
    then show ?case using Cons.IH [OF c(1,3)] by fastforce
  qed simp
  then show ?thesis by (auto simp: stuck_artist_def has_pending_hydration_def)
qed

definition an_artist :: artist_ref where
  "an_artist = \<lparr>at_id = ArtistId (utf ''x''), at_name = utf ''x'', at_artwork_url = None\<rparr>"

definition artist_desk :: library_desk where
  "artist_desk = maybe_sweep_hydration 0 ((desk_start False)\<lparr>ld_index := merge_item (ItemArtist an_artist) index_new\<rparr>)"

lemma missing_artist_never_resolved_witness:
  "TargetArtist (ArtistId (utf ''x'')) \<in> li_pending (ld_index (fold desk_apply
     [DeskHydrated [] [] [] [utf ''x''], DeskVisible [], DeskTick 1000 True] artist_desk))"
proof -
  have "stuck_artist (ArtistId (utf ''x'')) (ld_index artist_desk)"
    by (simp add: artist_desk_def maybe_sweep_hydration_def desk_start_def stuck_artist_def an_artist_def
        enqueue_hydration_def is_hydrated_def index_new_def has_pending_hydration_def drain_hydration_batch_def
        HYDRATE_BATCH_def batch_empty_def batch_push_def batch_is_empty_def numeral_eq_Suc Let_def)
  then show ?thesis
    using missing_artist_never_resolved [of "ArtistId (utf ''x'')" artist_desk
        "[DeskHydrated [] [] [] [utf ''x''], DeskVisible [], DeskTick 1000 True]"] by simp
qed

text \<open>
  C37. A sign-out starts the identifiers of requests over: the reply to the first request of the account
  that signed out is taken as the reply to the first request of the next one, and its page goes into the
  new account's library.
\<close>

theorem late_reply_after_sign_out:
  assumes "sr_in_flight (ld_sync d) = Some 0"
  shows "ld_index (route_library_page later ms 0 (Inr page) (tick_library now True (library_sign_out d))) =
    merge_page page index_new"
proof -
  let ?d = "tick_library now True (library_sign_out d)"
  have s: "ld_sync ?d = snd (sync_trigger now scheduler_new)"
    by (simp add: tick_parts(2) library_sign_out_def)
  have i: "ld_index ?d = index_new"
    using tick_parts(1) [of now True "library_sign_out d"] by (auto simp: library_sign_out_def index_new_def)
  have r: "sr_last_outcome (snd (sync_apply_reply later 0 (Inr page) (ld_sync ?d))) = None"
    "fst (fst (sync_apply_reply later 0 (Inr page) (ld_sync ?d))) = Some page"
    unfolding s
    by (auto simp: sync_trigger_def start_cycle_def issue_current_def scheduler_new_def SET_ORDER_def sync_apply_reply_def
        advance_to_next_set_def Let_def split_def)
  obtain m cmds s' where m: "sync_apply_reply later 0 (Inr page) (ld_sync ?d) = ((m, cmds), s')" by (metis prod.exhaust)
  show ?thesis using r i by (simp add: route_page_parts [OF m] m)
qed

lemma late_reply_after_sign_out_witness:
  "map sv_id (li_saved_tracks (ld_index (route_library_page 2 2 0 (Inr (a_page [''a'']))
     (tick_library 1 True (library_sign_out (tick_library 0 True (desk_start False))))))) = [TrackId (utf ''a'')]"
proof -
  have "sr_in_flight (ld_sync (tick_library 0 True (desk_start False))) = Some 0"
    by (simp add: tick_parts(2) desk_start_def sync_trigger_def start_cycle_def issue_current_def scheduler_new_def)
  from late_reply_after_sign_out [OF this, of 2 2 "a_page [''a'']" 1] show ?thesis
    by (simp add: merge_page_def a_page_def a_track_def track_ref_new_def index_new_def merge_saved_def
        enqueue_hydration_def is_hydrated_def)
qed

text \<open>A load that ends after the sign-out brings the library of the account back.\<close>

lemma load_after_sign_out:
  "ld_awaits_load d \<Longrightarrow> ld_index (drain_library_load (LoadDone ix) (library_sign_out d)) = ix"
  by (simp add: drain_library_load_def library_sign_out_def)

text \<open>What is loaded is queued for no hydration, even if its references are not stored.\<close>

lemma loaded_rows_not_queued:
  "li_queue (index_from_file f) = [] \<and> \<not> has_pending_hydration (index_from_file f)"
  by (simp add: index_from_file_def index_from_parts_def has_pending_hydration_def)

text \<open>A page merged before the load ends is lost.\<close>

lemma load_discards_pages:
  "ld_awaits_load d \<Longrightarrow>
     ld_index (drain_library_load (LoadDone ix) (d\<lparr>ld_index := merge_page page (ld_index d)\<rparr>)) = ix"
  by (simp add: drain_library_load_def)

end
