(* ===== verification/Actions_Chord.thy ===== *)
theory Actions_Chord
  imports Marker_Store
begin

text \<open>
  Key combinations: \<^verbatim>\<open>crates/modplayer-core/src/actions/chord.rs\<close>. The closed list of key
  names, the grammar \<^verbatim>\<open>[Primary+][Shift+][Alt+]<KeyName>\<close> read and written, and the labels shown
  for a chord on the two families of platforms. A \<open>key_name\<close> holds one of the static names; a text
  that comes from a file is a list of Unicode scalar values.
\<close>

section \<open>Text\<close>

fun join_on :: "nat \<Rightarrow> ustring list \<Rightarrow> ustring" where
  "join_on c [] = []"
| "join_on c [w] = w"
| "join_on c (w # v # ws) = w @ c # join_on c (v # ws)"

lemma utf_simps [simp]: "utf [] = []" "utf (x # xs) = of_char x # utf xs" "utf (xs @ ys) = utf xs @ utf ys"
  by (simp_all add: utf_def)

lemma utf_inject [simp]: "utf s = utf t \<longleftrightarrow> s = t"
  by (simp add: utf_def inj_map_eq_map inj_def)

lemma utf_eq_Nil [simp]: "utf s = [] \<longleftrightarrow> s = []"
  by (simp add: utf_def)

lemma split_on_not_Nil [simp]: "split_on c s \<noteq> []"
  by (induction s) (auto split: list.splits)

lemma split_on_append: "c \<notin> set w \<Longrightarrow> split_on c (w @ c # s) = w # split_on c s"
  by (induction w) auto

lemma split_on_word: "c \<notin> set w \<Longrightarrow> split_on c w = [w]"
  by (induction w) auto

lemma join_on_Cons: "ws \<noteq> [] \<Longrightarrow> join_on c (w # ws) = w @ c # join_on c ws"
  by (cases ws) auto

lemma join_split: "join_on c (split_on c s) = s"
proof (induction s)
  case (Cons x s)
  show ?case
  proof (cases "x = c")
    case True
    with Cons show ?thesis by (simp add: join_on_Cons)
  next
    case False
    obtain w ws where ws: "split_on c s = w # ws" by (cases "split_on c s") auto
    with False Cons show ?thesis by (cases ws) auto
  qed
qed simp

lemma join_on_append: "ws \<noteq> [] \<Longrightarrow> join_on c (us @ ws) = concat (map (\<lambda>u. u @ [c]) us) @ join_on c ws"
  by (induction us) (auto simp: join_on_Cons)

section \<open>Key names\<close>

datatype key_name = KeyName (key_str: string)

definition KEY_NAMES :: "string list" where
  "KEY_NAMES =
     [
      ''Down'', ''Left'', ''Right'', ''Up'', ''Escape'', ''Tab'', ''Backspace'', ''Enter'',
      ''Insert'', ''Delete'', ''Home'', ''End'', ''PageUp'', ''PageDown'', ''Copy'', ''Cut'',
      ''Paste'', ''Space'', ''Colon'', ''Comma'', ''Minus'', ''Period'', ''Plus'', ''Equals'',
      ''Semicolon'', ''Backslash'', ''Slash'', ''Pipe'', ''Questionmark'', ''Exclamationmark'',
      ''OpenBracket'', ''CloseBracket'', ''OpenCurlyBracket'', ''CloseCurlyBracket'', ''Backtick'',
      ''Quote''] @
     map (\<lambda>c. [c]) ''0123456789ABCDEFGHIJKLMNOPQRSTUVWXYZ'' @
     [''F1'', ''F2'',
      ''F3'', ''F4'', ''F5'', ''F6'', ''F7'', ''F8'', ''F9'', ''F10'', ''F11'', ''F12'', ''F13'',
      ''F14'', ''F15'', ''F16'', ''F17'', ''F18'', ''F19'', ''F20'', ''F21'', ''F22'', ''F23'',
      ''F24'', ''F25'', ''F26'', ''F27'', ''F28'', ''F29'', ''F30'', ''F31'', ''F32'', ''F33'',
      ''F34'', ''F35'', ''BrowserBack'', ''ShiftLeft'', ''ShiftRight'', ''ControlLeft'',
      ''ControlRight'', ''AltLeft'', ''AltRight'', ''SuperLeft'', ''SuperRight'', ''IntlBackslash'']"

definition key_name_parse :: "ustring \<Rightarrow> key_name option" where
  "key_name_parse s = map_option KeyName (find (\<lambda>name. utf name = s) KEY_NAMES)"

definition key_ok :: "key_name \<Rightarrow> bool" where
  "key_ok k \<longleftrightarrow> key_str k \<in> set KEY_NAMES"

section \<open>Chords\<close>

record mods =
  mo_primary :: bool
  mo_shift :: bool
  mo_alt :: bool

definition mods_none :: mods where
  "mods_none = \<lparr>mo_primary = False, mo_shift = False, mo_alt = False\<rparr>"

definition mods_is_none :: "mods \<Rightarrow> bool" where
  "mods_is_none m \<longleftrightarrow> \<not> mo_primary m \<and> \<not> mo_shift m \<and> \<not> mo_alt m"

record chord =
  ch_mods :: mods
  ch_key :: key_name

definition chord_ok :: "chord \<Rightarrow> bool" where
  "chord_ok c \<longleftrightarrow> key_ok (ch_key c)"

datatype chord_parse_error = EmptyChord | UnknownModifier ustring | DuplicateModifier | UnknownKey ustring

definition modifier_rank :: "ustring \<Rightarrow> nat option" where
  "modifier_rank token =
     (if token = utf ''Primary'' then Some 0
      else if token = utf ''Shift'' then Some 1
      else if token = utf ''Alt'' then Some 2
      else None)"

definition already_seen :: "nat \<Rightarrow> mods \<Rightarrow> bool" where
  "already_seen rank m = (if rank = 0 then mo_primary m else if rank = 1 then mo_shift m else mo_alt m)"

definition hold_modifier :: "nat \<Rightarrow> mods \<Rightarrow> mods" where
  "hold_modifier rank m =
     (if rank = 0 then m\<lparr>mo_primary := True\<rparr> else if rank = 1 then m\<lparr>mo_shift := True\<rparr>
      else m\<lparr>mo_alt := True\<rparr>)"

text \<open>The loop over the modifier tokens: the modifiers read, and the tokens from the first one that
  is out of order.\<close>

fun take_mods :: "mods \<Rightarrow> nat \<Rightarrow> ustring list \<Rightarrow> chord_parse_error + (mods \<times> ustring list)" where
  "take_mods m least [] = Inr (m, [])"
| "take_mods m least (token # tokens) =
     (case modifier_rank token of
        None \<Rightarrow> Inl (UnknownModifier token)
      | Some rank \<Rightarrow>
          if already_seen rank m then Inl DuplicateModifier
          else if rank < least then Inr (m, token # tokens)
          else take_mods (hold_modifier rank m) (rank + 1) tokens)"

definition chord_parse :: "ustring \<Rightarrow> chord_parse_error + chord" where
  "chord_parse s =
     (if s = [] then Inl EmptyChord
      else let tokens = split_on 43 s
           in case take_mods mods_none 0 (butlast tokens) of
                Inl e \<Rightarrow> Inl e
              | Inr (m, left) \<Rightarrow>
                  (let key_candidate = join_on 43 (left @ [last tokens])
                   in case key_name_parse key_candidate of
                        Some key \<Rightarrow> Inr \<lparr>ch_mods = m, ch_key = key\<rparr>
                      | None \<Rightarrow> Inl (UnknownKey key_candidate)))"

definition chord_encode :: "chord \<Rightarrow> ustring" where
  "chord_encode c =
     (if mo_primary (ch_mods c) then utf ''Primary+'' else []) @
     (if mo_shift (ch_mods c) then utf ''Shift+'' else []) @
     (if mo_alt (ch_mods c) then utf ''Alt+'' else []) @
     utf (key_str (ch_key c))"

section \<open>Labels\<close>

datatype platform = Mac | OtherPlatform

datatype key_word =
  WSpace | WReturn | WEnter | WEsc | WTab | WBackspace | WDelete | WInsert | WHome | WEnd |
  WPageUp | WPageDown | WCopy | WCut | WPaste | WArrowLeft | WArrowRight | WArrowUp | WArrowDown
  | WCtrl | WShift | WAlt | WBrowserBack | WShiftLeft | WShiftRight | WControlLeft |
  WControlRight | WAltLeft | WAltRight | WSuperLeft | WSuperRight | WIntlBackslash

fun fluent_key :: "key_word \<Rightarrow> string" where
  "fluent_key WSpace = ''key-word-space''"
| "fluent_key WReturn = ''key-word-return''"
| "fluent_key WEnter = ''key-word-enter''"
| "fluent_key WEsc = ''key-word-esc''"
| "fluent_key WTab = ''key-word-tab''"
| "fluent_key WBackspace = ''key-word-backspace''"
| "fluent_key WDelete = ''key-word-delete''"
| "fluent_key WInsert = ''key-word-insert''"
| "fluent_key WHome = ''key-word-home''"
| "fluent_key WEnd = ''key-word-end''"
| "fluent_key WPageUp = ''key-word-page-up''"
| "fluent_key WPageDown = ''key-word-page-down''"
| "fluent_key WCopy = ''key-word-copy''"
| "fluent_key WCut = ''key-word-cut''"
| "fluent_key WPaste = ''key-word-paste''"
| "fluent_key WArrowLeft = ''key-word-left''"
| "fluent_key WArrowRight = ''key-word-right''"
| "fluent_key WArrowUp = ''key-word-up''"
| "fluent_key WArrowDown = ''key-word-down''"
| "fluent_key WCtrl = ''key-word-ctrl''"
| "fluent_key WShift = ''key-word-shift''"
| "fluent_key WAlt = ''key-word-alt''"
| "fluent_key WBrowserBack = ''key-word-browser-back''"
| "fluent_key WShiftLeft = ''key-word-shift-left''"
| "fluent_key WShiftRight = ''key-word-shift-right''"
| "fluent_key WControlLeft = ''key-word-control-left''"
| "fluent_key WControlRight = ''key-word-control-right''"
| "fluent_key WAltLeft = ''key-word-alt-left''"
| "fluent_key WAltRight = ''key-word-alt-right''"
| "fluent_key WSuperLeft = ''key-word-super-left''"
| "fluent_key WSuperRight = ''key-word-super-right''"
| "fluent_key WIntlBackslash = ''key-word-intl-backslash''"

fun en_us :: "key_word \<Rightarrow> string" where
  "en_us WSpace = ''Space''"
| "en_us WReturn = ''Return''"
| "en_us WEnter = ''Enter''"
| "en_us WEsc = ''Esc''"
| "en_us WTab = ''Tab''"
| "en_us WBackspace = ''Backspace''"
| "en_us WDelete = ''Delete''"
| "en_us WInsert = ''Insert''"
| "en_us WHome = ''Home''"
| "en_us WEnd = ''End''"
| "en_us WPageUp = ''Page Up''"
| "en_us WPageDown = ''Page Down''"
| "en_us WCopy = ''Copy''"
| "en_us WCut = ''Cut''"
| "en_us WPaste = ''Paste''"
| "en_us WArrowLeft = ''Left''"
| "en_us WArrowRight = ''Right''"
| "en_us WArrowUp = ''Up''"
| "en_us WArrowDown = ''Down''"
| "en_us WCtrl = ''Ctrl''"
| "en_us WShift = ''Shift''"
| "en_us WAlt = ''Alt''"
| "en_us WBrowserBack = ''Browser Back''"
| "en_us WShiftLeft = ''Left Shift''"
| "en_us WShiftRight = ''Right Shift''"
| "en_us WControlLeft = ''Left Ctrl''"
| "en_us WControlRight = ''Right Ctrl''"
| "en_us WAltLeft = ''Left Alt''"
| "en_us WAltRight = ''Right Alt''"
| "en_us WSuperLeft = ''Left Super''"
| "en_us WSuperRight = ''Right Super''"
| "en_us WIntlBackslash = ''Intl Backslash''"

datatype key_token = Symbol ustring | Word key_word

definition spoken_key :: "key_word \<Rightarrow> string" where
  "spoken_key w = fluent_key w"

definition key_token_of :: "key_name \<Rightarrow> platform \<Rightarrow> key_token" where
  "key_token_of k platform =
     (let mac = (platform = Mac); s = key_str k in
      if s = ''Space'' then Word WSpace
      else if s = ''Enter'' then (if mac then Word WReturn else Word WEnter)
      else if s = ''Escape'' then Word WEsc
      else if s = ''Tab'' then Word WTab
      else if s = ''Left'' then (if mac then Symbol [8592] else Word WArrowLeft)
      else if s = ''Right'' then (if mac then Symbol [8594] else Word WArrowRight)
      else if s = ''Up'' then (if mac then Symbol [8593] else Word WArrowUp)
      else if s = ''Down'' then (if mac then Symbol [8595] else Word WArrowDown)
      else if s = ''PageUp'' then Word WPageUp
      else if s = ''PageDown'' then Word WPageDown
      else if s = ''Backspace'' then Word WBackspace
      else if s = ''Delete'' then Word WDelete
      else if s = ''Insert'' then Word WInsert
      else if s = ''Home'' then Word WHome
      else if s = ''End'' then Word WEnd
      else if s = ''Copy'' then Word WCopy
      else if s = ''Cut'' then Word WCut
      else if s = ''Paste'' then Word WPaste
      else if s = ''Colon'' then Symbol [58]
      else if s = ''Comma'' then Symbol [44]
      else if s = ''Minus'' then Symbol [45]
      else if s = ''Period'' then Symbol [46]
      else if s = ''Plus'' then Symbol [43]
      else if s = ''Equals'' then Symbol [61]
      else if s = ''Semicolon'' then Symbol [59]
      else if s = ''Backslash'' then Symbol [92]
      else if s = ''Slash'' then Symbol [47]
      else if s = ''Pipe'' then Symbol [124]
      else if s = ''Questionmark'' then Symbol [63]
      else if s = ''Exclamationmark'' then Symbol [33]
      else if s = ''OpenBracket'' then Symbol [91]
      else if s = ''CloseBracket'' then Symbol [93]
      else if s = ''OpenCurlyBracket'' then Symbol [123]
      else if s = ''CloseCurlyBracket'' then Symbol [125]
      else if s = ''Backtick'' then Symbol [96]
      else if s = ''Quote'' then Symbol [39]
      else if s = ''BrowserBack'' then Word WBrowserBack
      else if s = ''ShiftLeft'' then Word WShiftLeft
      else if s = ''ShiftRight'' then Word WShiftRight
      else if s = ''ControlLeft'' then Word WControlLeft
      else if s = ''ControlRight'' then Word WControlRight
      else if s = ''AltLeft'' then Word WAltLeft
      else if s = ''AltRight'' then Word WAltRight
      else if s = ''SuperLeft'' then Word WSuperLeft
      else if s = ''SuperRight'' then Word WSuperRight
      else if s = ''IntlBackslash'' then Word WIntlBackslash
      else Symbol (utf s))"

record display_parts =
  dp_mods :: "key_token list"
  dp_key :: key_token
  dp_platform :: platform

definition display_parts_of :: "chord \<Rightarrow> platform \<Rightarrow> display_parts" where
  "display_parts_of c platform =
     (let m = ch_mods c; held = (\<lambda>b token. if b then [token] else [])
      in \<lparr>dp_mods =
            (case platform of
               Mac \<Rightarrow> held (mo_primary m) (Symbol [8984]) @ held (mo_shift m) (Symbol [8679]) @
                      held (mo_alt m) (Symbol [8997])
             | OtherPlatform \<Rightarrow> held (mo_primary m) (Word WCtrl) @ held (mo_shift m) (Word WShift) @
                      held (mo_alt m) (Word WAlt)),
          dp_key = key_token_of (ch_key c) platform, dp_platform = platform\<rparr>)"

definition parts_tokens :: "display_parts \<Rightarrow> key_token list" where
  "parts_tokens p = dp_mods p @ [dp_key p]"

definition parts_separator :: "display_parts \<Rightarrow> ustring" where
  "parts_separator p = (case dp_platform p of Mac \<Rightarrow> [] | OtherPlatform \<Rightarrow> [43])"

fun token_text :: "key_token \<Rightarrow> ustring" where
  "token_text (Symbol s) = s"
| "token_text (Word w) = utf (en_us w)"

fun join_with :: "ustring \<Rightarrow> ustring list \<Rightarrow> ustring" where
  "join_with sep [] = []"
| "join_with sep [w] = w"
| "join_with sep (w # v # ws) = w @ sep @ join_with sep (v # ws)"

definition to_en_string :: "display_parts \<Rightarrow> ustring" where
  "to_en_string p = join_with (parts_separator p) (map token_text (parts_tokens p))"

definition chord_display :: "chord \<Rightarrow> platform \<Rightarrow> ustring" where
  "chord_display c platform = to_en_string (display_parts_of c platform)"

section \<open>Which chords cannot be captured\<close>

definition is_modifier_only_key :: "string \<Rightarrow> bool" where
  "is_modifier_only_key name \<longleftrightarrow>
     name \<in> set [''ShiftLeft'', ''ShiftRight'', ''ControlLeft'', ''ControlRight'', ''AltLeft'', ''AltRight'',
       ''SuperLeft'', ''SuperRight'']"

definition capture_would_reject :: "chord \<Rightarrow> bool" where
  "capture_would_reject c \<longleftrightarrow>
     is_modifier_only_key (key_str (ch_key c)) \<or> key_str (ch_key c) = ''Tab'' \<or>
     (key_str (ch_key c) = ''Escape'' \<and> mods_is_none (ch_mods c))"

section \<open>Reading and writing\<close>

lemma key_names_distinct: "distinct KEY_NAMES"
  by code_simp

lemma key_names_plain: "name \<in> set KEY_NAMES \<Longrightarrow> 43 \<notin> set (utf name)"
proof -
  have "list_all (\<lambda>name. 43 \<notin> set (utf name)) KEY_NAMES" by code_simp
  then show "name \<in> set KEY_NAMES \<Longrightarrow> 43 \<notin> set (utf name)" by (auto simp: list_all_iff)
qed

lemma key_name_parse_utf: "key_ok k \<Longrightarrow> key_name_parse (utf (key_str k)) = Some k"
proof -
  assume "key_ok k"
  then have "find (\<lambda>name. name = key_str k) KEY_NAMES = Some (key_str k)"
    using find_key [of id KEY_NAMES "key_str k"] key_names_distinct by (simp add: key_ok_def)
  then show ?thesis by (simp add: key_name_parse_def)
qed

lemma key_name_parse_SomeD: "key_name_parse s = Some k \<Longrightarrow> key_ok k \<and> s = utf (key_str k)"
  by (auto simp: key_name_parse_def key_ok_def dest: find_SomeD)

text \<open>The text of the modifiers of rank \<open>least\<close> and above.\<close>

definition mods_text :: "nat \<Rightarrow> mods \<Rightarrow> ustring" where
  "mods_text least m =
     (if least \<le> 0 \<and> mo_primary m then utf ''Primary+'' else []) @
     (if least \<le> 1 \<and> mo_shift m then utf ''Shift+'' else []) @
     (if least \<le> 2 \<and> mo_alt m then utf ''Alt+'' else [])"

definition fresh_from :: "nat \<Rightarrow> mods \<Rightarrow> bool" where
  "fresh_from least m \<longleftrightarrow> (least \<le> 0 \<longrightarrow> \<not> mo_primary m) \<and> (least \<le> 1 \<longrightarrow> \<not> mo_shift m) \<and> (least \<le> 2 \<longrightarrow> \<not> mo_alt m)"

definition same_below :: "nat \<Rightarrow> mods \<Rightarrow> mods \<Rightarrow> bool" where
  "same_below least m m' \<longleftrightarrow>
     (0 < least \<longrightarrow> mo_primary m = mo_primary m') \<and> (1 < least \<longrightarrow> mo_shift m = mo_shift m') \<and>
     (2 < least \<longrightarrow> mo_alt m = mo_alt m')"

lemma modifier_rank_cases:
  assumes "modifier_rank token = Some rank"
  obtains "rank = 0" "token = utf ''Primary''" | "rank = 1" "token = utf ''Shift''" | "rank = 2" "token = utf ''Alt''"
  using assms by (auto simp: modifier_rank_def split: if_splits)

lemma take_mods_all_text:
  "take_mods m least tokens = Inr (m', []) \<Longrightarrow> fresh_from least m \<Longrightarrow>
   concat (map (\<lambda>t. t @ [43]) tokens) = mods_text least m' \<and> same_below least m m'"
proof (induction m least tokens rule: take_mods.induct)
  case (1 m least)
  then show ?case by (auto simp: mods_text_def fresh_from_def same_below_def)
next
  case (2 m least token tokens)
  from 2(2) obtain rank where rank: "modifier_rank token = Some rank"
    by (auto split: option.splits)
  from 2(2) rank have seen: "\<not> already_seen rank m" and le: "\<not> rank < least"
    and rest: "take_mods (hold_modifier rank m) (rank + 1) tokens = Inr (m', [])"
    by (auto split: if_splits)
  have "fresh_from (rank + 1) (hold_modifier rank m)"
    using 2(3) rank le by (auto simp: fresh_from_def hold_modifier_def elim!: modifier_rank_cases)
  from 2(1) [OF rank seen le rest this]
  have IH: "concat (map (\<lambda>t. t @ [43]) tokens) = mods_text (rank + 1) m'"
    "same_below (rank + 1) (hold_modifier rank m) m'" by simp_all
  from rank show ?case
    by (rule modifier_rank_cases)
      (use IH 2(3) le in \<open>auto simp: mods_text_def fresh_from_def same_below_def hold_modifier_def\<close>)
qed

lemma take_mods_encoded:
  "take_mods mods_none 0 ((if mo_primary m then [utf ''Primary''] else []) @
     (if mo_shift m then [utf ''Shift''] else []) @ (if mo_alt m then [utf ''Alt''] else [])) = Inr (m, [])"
  by (cases m) (auto simp: modifier_rank_def already_seen_def hold_modifier_def mods_none_def)

lemma split_encoded:
  assumes "chord_ok c"
  shows "split_on 43 (chord_encode c) =
    ((if mo_primary (ch_mods c) then [utf ''Primary''] else []) @ (if mo_shift (ch_mods c) then [utf ''Shift''] else []) @
     (if mo_alt (ch_mods c) then [utf ''Alt''] else [])) @ [utf (key_str (ch_key c))]"
proof -
  have key: "43 \<notin> set (utf (key_str (ch_key c)))"
    using assms by (auto simp: chord_ok_def key_ok_def dest: key_names_plain)
  have "split_on 43 (utf ''Primary+'' @ s) = utf ''Primary'' # split_on 43 s"
    "split_on 43 (utf ''Shift+'' @ s) = utf ''Shift'' # split_on 43 s"
    "split_on 43 (utf ''Alt+'' @ s) = utf ''Alt'' # split_on 43 s" for s
    by simp_all
  with key show ?thesis by (simp add: chord_encode_def split_on_word del: utf_simps)
qed

lemma encode_not_Nil: "chord_ok c \<Longrightarrow> chord_encode c \<noteq> []"
  using split_encoded [of c] by (auto simp: chord_ok_def key_ok_def KEY_NAMES_def chord_encode_def)

lemma parse_encode:
  assumes "chord_ok c"
  shows "chord_parse (chord_encode c) = Inr c"
proof -
  let ?ms = "(if mo_primary (ch_mods c) then [utf ''Primary''] else []) @
    (if mo_shift (ch_mods c) then [utf ''Shift''] else []) @ (if mo_alt (ch_mods c) then [utf ''Alt''] else [])"
  have ts: "butlast (split_on 43 (chord_encode c)) = ?ms" "last (split_on 43 (chord_encode c)) = utf (key_str (ch_key c))"
    unfolding split_encoded [OF assms] by (rule butlast_snoc, rule last_snoc)
  have key: "key_name_parse (utf (key_str (ch_key c))) = Some (ch_key c)"
    using assms by (simp add: chord_ok_def key_name_parse_utf)
  show ?thesis
    unfolding chord_parse_def Let_def ts take_mods_encoded using encode_not_Nil [OF assms] key by simp
qed

lemma parse_SomeD:
  assumes "chord_parse s = Inr c"
  shows "chord_ok c \<and> s = chord_encode c"
proof -
  let ?ts = "split_on 43 s"
  from assms obtain m left key where nonempty: "s \<noteq> []"
    and taken: "take_mods mods_none 0 (butlast ?ts) = Inr (m, left)"
    and key: "key_name_parse (join_on 43 (left @ [last ?ts])) = Some key"
    and c: "c = \<lparr>ch_mods = m, ch_key = key\<rparr>"
    by (auto simp: chord_parse_def Let_def split: if_splits sum.splits option.splits prod.splits)
  from key_name_parse_SomeD [OF key] have ok: "key_ok key"
    and spelled: "join_on 43 (left @ [last ?ts]) = utf (key_str key)" by simp_all
  have plain: "43 \<notin> set (join_on 43 (left @ [last ?ts]))"
    using spelled key_names_plain ok by (simp add: key_ok_def)
  have left: "left = []"
    using plain join_on_append [of "[last (split_on 43 s)]" 43 left]
    by (cases left) auto
  have "concat (map (\<lambda>t. t @ [43]) (butlast ?ts)) = mods_text 0 m"
    using take_mods_all_text [OF taken [unfolded left]] by (simp add: fresh_from_def mods_none_def)
  moreover have "s = concat (map (\<lambda>t. t @ [43]) (butlast ?ts)) @ last ?ts"
    using join_on_append [of "[last ?ts]" 43 "butlast ?ts"] by (simp add: join_split)
  ultimately have "s = mods_text 0 m @ utf (key_str key)"
    using spelled by (simp add: left)
  then show ?thesis
    using ok by (simp add: c chord_ok_def chord_encode_def mods_text_def)
qed

text \<open>Labels: two chords with the same label on a platform are the same chord.\<close>

definition key_label :: "platform \<Rightarrow> string \<Rightarrow> ustring" where
  "key_label platform name = token_text (key_token_of (KeyName name) platform)"

lemma key_labels_distinct: "distinct (map (key_label platform) KEY_NAMES)"
  by (cases platform) (simp_all add: KEY_NAMES_def key_label_def key_token_of_def)

definition label_plain :: "platform \<Rightarrow> ustring \<Rightarrow> bool" where
  "label_plain platform l =
     (l \<noteq> [] \<and> (case platform of
        Mac \<Rightarrow> hd l \<noteq> 8984 \<and> hd l \<noteq> 8679 \<and> hd l \<noteq> 8997
      | OtherPlatform \<Rightarrow> take 5 l \<noteq> utf ''Ctrl+'' \<and> take 6 l \<noteq> utf ''Shift+'' \<and> take 4 l \<noteq> utf ''Alt+''))"

lemma key_labels_plain: "list_all (label_plain platform) (map (key_label platform) KEY_NAMES)"
  by (cases platform) (simp_all add: KEY_NAMES_def key_label_def key_token_of_def label_plain_def)

lemma label_of: "chord_ok c \<Longrightarrow> label_plain platform (token_text (key_token_of (ch_key c) platform))"
  using key_labels_plain [of platform] by (auto simp: list_all_iff key_label_def chord_ok_def key_ok_def)

lemma label_inject:
  assumes "chord_ok c" "chord_ok d" "token_text (key_token_of (ch_key c) p) = token_text (key_token_of (ch_key d) p)"
  shows "ch_key c = ch_key d"
proof -
  have "inj_on (key_label p) (set KEY_NAMES)"
    using key_labels_distinct [of p] by (simp add: distinct_map)
  with assms have "key_str (ch_key c) = key_str (ch_key d)"
    by (auto simp: inj_on_def key_label_def chord_ok_def key_ok_def)
  then show ?thesis by (simp add: key_name.expand)
qed

definition mods_label :: "platform \<Rightarrow> mods \<Rightarrow> ustring" where
  "mods_label p m =
     (case p of
        Mac \<Rightarrow> (if mo_primary m then [8984] else []) @ (if mo_shift m then [8679] else []) @
               (if mo_alt m then [8997] else [])
      | OtherPlatform \<Rightarrow> (if mo_primary m then utf ''Ctrl+'' else []) @ (if mo_shift m then utf ''Shift+'' else []) @
               (if mo_alt m then utf ''Alt+'' else []))"

lemma display_split: "chord_display c p = mods_label p (ch_mods c) @ token_text (key_token_of (ch_key c) p)"
  by (cases p) (simp_all add: chord_display_def to_en_string_def display_parts_of_def parts_tokens_def parts_separator_def
      mods_label_def Let_def)

lemma mods_label_inject:
  assumes "label_plain p k" "label_plain p l" "mods_label p m @ k = mods_label p n @ l"
  shows "m = n \<and> k = l"
proof (cases p)
  case Mac
  with assms show ?thesis
    by (cases m; cases n; cases k; cases l) (auto simp: mods_label_def label_plain_def split: if_splits)
next
  case OtherPlatform
  with assms show ?thesis
    by (cases m; cases n) (auto simp: mods_label_def label_plain_def split: if_splits)
qed

lemma display_inject:
  assumes "chord_ok c" "chord_ok d" "chord_display c p = chord_display d p"
  shows "c = d"
proof -
  have "ch_mods c = ch_mods d \<and> token_text (key_token_of (ch_key c) p) = token_text (key_token_of (ch_key d) p)"
    using mods_label_inject [OF label_of [OF assms(1)] label_of [OF assms(2)]] assms(3) by (simp add: display_split)
  with label_inject [OF assms(1,2)] show ?thesis by (intro chord.equality) auto
qed

end
