(* ===== verification/Actions_Catalog.thy ===== *)
theory Actions_Catalog
  imports Actions_Chord "HOL-Library.Product_Lexorder"
begin

text \<open>
  The actions of the player: \<^verbatim>\<open>crates/modplayer-core/src/actions/mod.rs\<close> (categories, scopes,
  owners, identifiers of plugin actions) and \<^verbatim>\<open>actions/catalog.rs\<close> (the 46 host actions, their
  persisted identifiers and the shipped catalog). A \<^verbatim>\<open>CueSlot\<close> is 1 to 8 by construction; the
  type of the model is wider, and \<open>host_action_ok\<close> says which of its values exist.
\<close>

section \<open>Categories, kinds, owners and scopes\<close>

datatype action_category = CatTransport | CatMarkers | CatLoop | CatCues | CatNavigation | CatEffects

fun category_label_key :: "action_category \<Rightarrow> string" where
  "category_label_key CatTransport = ''action-cat-transport''"
| "category_label_key CatMarkers = ''action-cat-markers''"
| "category_label_key CatLoop = ''action-cat-loop''"
| "category_label_key CatCues = ''action-cat-cues''"
| "category_label_key CatNavigation = ''action-cat-navigation''"
| "category_label_key CatEffects = ''action-cat-effects''"

datatype action_kind = TriggerAction | ContinuousAction

datatype owner_tier = Community | Bundled | HostTier

fun tier_rank :: "owner_tier \<Rightarrow> nat" where
  "tier_rank Community = 0"
| "tier_rank Bundled = 1"
| "tier_rank HostTier = 2"

lemma tier_rank_inject [simp]: "tier_rank a = tier_rank b \<longleftrightarrow> a = b"
  by (cases a; cases b) auto

instantiation owner_tier :: linorder
begin

definition less_eq_owner_tier :: "owner_tier \<Rightarrow> owner_tier \<Rightarrow> bool" where
  "a \<le> b \<longleftrightarrow> tier_rank a \<le> tier_rank b"

definition less_owner_tier :: "owner_tier \<Rightarrow> owner_tier \<Rightarrow> bool" where
  "a < b \<longleftrightarrow> tier_rank a < tier_rank b"

instance
  by standard (auto simp: less_eq_owner_tier_def less_owner_tier_def)

end

datatype action_owner = OwnedByHost | OwnedByPlugin u16 owner_tier

datatype scope = AppScope | NowPlayingScope | MarkerFocusedScope

record scope_state =
  now_playing_shown :: bool
  marker_focused :: bool

fun is_live :: "scope \<Rightarrow> scope_state \<Rightarrow> bool" where
  "is_live AppScope state = True"
| "is_live NowPlayingScope state = now_playing_shown state"
| "is_live MarkerFocusedScope state = marker_focused state"

definition can_coexist :: "scope \<Rightarrow> scope \<Rightarrow> bool" where
  "can_coexist a b \<longleftrightarrow>
     (a, b) \<in> set [(AppScope, AppScope), (AppScope, NowPlayingScope), (AppScope, MarkerFocusedScope),
       (NowPlayingScope, AppScope), (NowPlayingScope, NowPlayingScope), (NowPlayingScope, MarkerFocusedScope),
       (MarkerFocusedScope, AppScope), (MarkerFocusedScope, NowPlayingScope),
       (MarkerFocusedScope, MarkerFocusedScope)]"

lemma can_coexist_all [simp]: "can_coexist a b"
  by (cases a; cases b) (simp_all add: can_coexist_def)

section \<open>Host actions\<close>

datatype host_action =
    ActPlay | ActPause | ActTogglePlayPause | ActStop | ActNextTrack | ActPreviousTrack
  | ActSeekForwardStep | ActSeekBackwardStep | ActVolumeUp | ActVolumeDown
  | ActAddPointMarker | ActSetA | ActSetB | ActNudgeEarlier | ActNudgeLater
  | ActNudgeEarlierX10 | ActNudgeLaterX10 | ActClearAllMarkers | ActToggleLoop
  | ActSetCue cue_slot | ActJumpToCue cue_slot | ActNavLibrary | ActNavSearch
  | ActNavNowPlaying | ActNavPlugins | ActNavSettings | ActToggleQueue | ActFocusSearch
  | ActTempoStepUp | ActTempoStepDown | ActToggleEffectChain | ActToggleTransportPanel

definition host_action_ok :: "host_action \<Rightarrow> bool" where
  "host_action_ok a \<longleftrightarrow>
     (case a of
        ActSetCue (CueSlot n) \<Rightarrow> 1 \<le> n \<and> n \<le> 8
      | ActJumpToCue (CueSlot n) \<Rightarrow> 1 \<le> n \<and> n \<le> 8
      | _ \<Rightarrow> True)"

fun action_rank :: "host_action \<Rightarrow> nat \<times> nat" where
  "action_rank ActPlay = (0, 0)"
| "action_rank ActPause = (1, 0)"
| "action_rank ActTogglePlayPause = (2, 0)"
| "action_rank ActStop = (3, 0)"
| "action_rank ActNextTrack = (4, 0)"
| "action_rank ActPreviousTrack = (5, 0)"
| "action_rank ActSeekForwardStep = (6, 0)"
| "action_rank ActSeekBackwardStep = (7, 0)"
| "action_rank ActVolumeUp = (8, 0)"
| "action_rank ActVolumeDown = (9, 0)"
| "action_rank ActAddPointMarker = (10, 0)"
| "action_rank ActSetA = (11, 0)"
| "action_rank ActSetB = (12, 0)"
| "action_rank ActNudgeEarlier = (13, 0)"
| "action_rank ActNudgeLater = (14, 0)"
| "action_rank ActNudgeEarlierX10 = (15, 0)"
| "action_rank ActNudgeLaterX10 = (16, 0)"
| "action_rank ActClearAllMarkers = (17, 0)"
| "action_rank ActToggleLoop = (18, 0)"
| "action_rank (ActSetCue (CueSlot n)) = (19, n)"
| "action_rank (ActJumpToCue (CueSlot n)) = (20, n)"
| "action_rank ActNavLibrary = (21, 0)"
| "action_rank ActNavSearch = (22, 0)"
| "action_rank ActNavNowPlaying = (23, 0)"
| "action_rank ActNavPlugins = (24, 0)"
| "action_rank ActNavSettings = (25, 0)"
| "action_rank ActToggleQueue = (26, 0)"
| "action_rank ActFocusSearch = (27, 0)"
| "action_rank ActTempoStepUp = (28, 0)"
| "action_rank ActTempoStepDown = (29, 0)"
| "action_rank ActToggleEffectChain = (30, 0)"
| "action_rank ActToggleTransportPanel = (31, 0)"

lemma action_rank_inject [simp]: "action_rank a = action_rank b \<longleftrightarrow> a = b"
  by (cases a rule: action_rank.cases; cases b rule: action_rank.cases) simp_all

instantiation host_action :: linorder
begin

definition less_eq_host_action :: "host_action \<Rightarrow> host_action \<Rightarrow> bool" where
  "a \<le> b \<longleftrightarrow> action_rank a \<le> action_rank b"

definition less_host_action :: "host_action \<Rightarrow> host_action \<Rightarrow> bool" where
  "a < b \<longleftrightarrow> action_rank a < action_rank b"

instance
  by standard (auto simp: less_eq_host_action_def less_host_action_def order.strict_iff_order)

end

definition ALL_ACTIONS :: "host_action list" where
  "ALL_ACTIONS =
     [ActPlay, ActPause, ActTogglePlayPause, ActStop, ActNextTrack, ActPreviousTrack,
      ActSeekForwardStep, ActSeekBackwardStep, ActVolumeUp, ActVolumeDown, ActAddPointMarker,
      ActSetA, ActSetB, ActNudgeEarlier, ActNudgeLater, ActNudgeEarlierX10, ActNudgeLaterX10,
      ActClearAllMarkers, ActToggleLoop, ActSetCue (CueSlot 1), ActSetCue (CueSlot 2),
      ActSetCue (CueSlot 3), ActSetCue (CueSlot 4), ActSetCue (CueSlot 5),
      ActSetCue (CueSlot 6), ActSetCue (CueSlot 7), ActSetCue (CueSlot 8),
      ActJumpToCue (CueSlot 1), ActJumpToCue (CueSlot 2), ActJumpToCue (CueSlot 3),
      ActJumpToCue (CueSlot 4), ActJumpToCue (CueSlot 5), ActJumpToCue (CueSlot 6),
      ActJumpToCue (CueSlot 7), ActJumpToCue (CueSlot 8), ActNavLibrary, ActNavSearch,
      ActNavNowPlaying, ActNavPlugins, ActNavSettings, ActToggleQueue, ActFocusSearch,
      ActTempoStepUp, ActTempoStepDown, ActToggleEffectChain, ActToggleTransportPanel]"

fun host_action_id :: "host_action \<Rightarrow> string" where
  "host_action_id ActPlay = ''host.transport.play''"
| "host_action_id ActPause = ''host.transport.pause''"
| "host_action_id ActTogglePlayPause = ''host.transport.toggle''"
| "host_action_id ActStop = ''host.transport.stop''"
| "host_action_id ActNextTrack = ''host.transport.next''"
| "host_action_id ActPreviousTrack = ''host.transport.previous''"
| "host_action_id ActSeekForwardStep = ''host.transport.seek_forward_step''"
| "host_action_id ActSeekBackwardStep = ''host.transport.seek_backward_step''"
| "host_action_id ActVolumeUp = ''host.transport.volume_up''"
| "host_action_id ActVolumeDown = ''host.transport.volume_down''"
| "host_action_id ActAddPointMarker = ''host.markers.add_point''"
| "host_action_id ActSetA = ''host.markers.set_a''"
| "host_action_id ActSetB = ''host.markers.set_b''"
| "host_action_id ActNudgeEarlier = ''host.markers.nudge_earlier''"
| "host_action_id ActNudgeLater = ''host.markers.nudge_later''"
| "host_action_id ActNudgeEarlierX10 = ''host.markers.nudge_earlier_x10''"
| "host_action_id ActNudgeLaterX10 = ''host.markers.nudge_later_x10''"
| "host_action_id ActClearAllMarkers = ''host.markers.clear_all''"
| "host_action_id ActToggleLoop = ''host.loop.toggle''"
| "host_action_id (ActSetCue (CueSlot n)) =
       (if n = 1 then ''host.cues.set_1''
        else if n = 2 then ''host.cues.set_2''
        else if n = 3 then ''host.cues.set_3''
        else if n = 4 then ''host.cues.set_4''
        else if n = 5 then ''host.cues.set_5''
        else if n = 6 then ''host.cues.set_6''
        else if n = 7 then ''host.cues.set_7''
        else ''host.cues.set_8'')"
| "host_action_id (ActJumpToCue (CueSlot n)) =
       (if n = 1 then ''host.cues.jump_1''
        else if n = 2 then ''host.cues.jump_2''
        else if n = 3 then ''host.cues.jump_3''
        else if n = 4 then ''host.cues.jump_4''
        else if n = 5 then ''host.cues.jump_5''
        else if n = 6 then ''host.cues.jump_6''
        else if n = 7 then ''host.cues.jump_7''
        else ''host.cues.jump_8'')"
| "host_action_id ActNavLibrary = ''host.nav.library''"
| "host_action_id ActNavSearch = ''host.nav.search''"
| "host_action_id ActNavNowPlaying = ''host.nav.now_playing''"
| "host_action_id ActNavPlugins = ''host.nav.plugins''"
| "host_action_id ActNavSettings = ''host.nav.settings''"
| "host_action_id ActToggleQueue = ''host.nav.toggle_queue''"
| "host_action_id ActFocusSearch = ''host.nav.focus_search''"
| "host_action_id ActTempoStepUp = ''host.effects.tempo_step_up''"
| "host_action_id ActTempoStepDown = ''host.effects.tempo_step_down''"
| "host_action_id ActToggleEffectChain = ''host.nav.toggle_effect_chain''"
| "host_action_id ActToggleTransportPanel = ''host.nav.toggle_transport_panel''"

definition host_action_parse :: "ustring \<Rightarrow> host_action option" where
  "host_action_parse s = find (\<lambda>a. utf (host_action_id a) = s) ALL_ACTIONS"

fun action_label_key :: "host_action \<Rightarrow> string" where
  "action_label_key ActPlay = ''action-transport-play''"
| "action_label_key ActPause = ''action-transport-pause''"
| "action_label_key ActTogglePlayPause = ''action-transport-toggle''"
| "action_label_key ActStop = ''action-transport-stop''"
| "action_label_key ActNextTrack = ''action-transport-next''"
| "action_label_key ActPreviousTrack = ''action-transport-previous''"
| "action_label_key ActSeekForwardStep = ''action-transport-seek-forward-step''"
| "action_label_key ActSeekBackwardStep = ''action-transport-seek-backward-step''"
| "action_label_key ActVolumeUp = ''action-transport-volume-up''"
| "action_label_key ActVolumeDown = ''action-transport-volume-down''"
| "action_label_key ActAddPointMarker = ''action-markers-add-point''"
| "action_label_key ActSetA = ''action-markers-set-a''"
| "action_label_key ActSetB = ''action-markers-set-b''"
| "action_label_key ActNudgeEarlier = ''action-markers-nudge-earlier''"
| "action_label_key ActNudgeLater = ''action-markers-nudge-later''"
| "action_label_key ActNudgeEarlierX10 = ''action-markers-nudge-earlier-x10''"
| "action_label_key ActNudgeLaterX10 = ''action-markers-nudge-later-x10''"
| "action_label_key ActClearAllMarkers = ''action-markers-clear-all''"
| "action_label_key ActToggleLoop = ''action-loop-toggle''"
| "action_label_key (ActSetCue (CueSlot n)) =
       (if n = 1 then ''action-cues-set-1''
        else if n = 2 then ''action-cues-set-2''
        else if n = 3 then ''action-cues-set-3''
        else if n = 4 then ''action-cues-set-4''
        else if n = 5 then ''action-cues-set-5''
        else if n = 6 then ''action-cues-set-6''
        else if n = 7 then ''action-cues-set-7''
        else ''action-cues-set-8'')"
| "action_label_key (ActJumpToCue (CueSlot n)) =
       (if n = 1 then ''action-cues-jump-1''
        else if n = 2 then ''action-cues-jump-2''
        else if n = 3 then ''action-cues-jump-3''
        else if n = 4 then ''action-cues-jump-4''
        else if n = 5 then ''action-cues-jump-5''
        else if n = 6 then ''action-cues-jump-6''
        else if n = 7 then ''action-cues-jump-7''
        else ''action-cues-jump-8'')"
| "action_label_key ActNavLibrary = ''action-nav-library''"
| "action_label_key ActNavSearch = ''action-nav-search''"
| "action_label_key ActNavNowPlaying = ''action-nav-now-playing''"
| "action_label_key ActNavPlugins = ''action-nav-plugins''"
| "action_label_key ActNavSettings = ''action-nav-settings''"
| "action_label_key ActToggleQueue = ''action-nav-toggle-queue''"
| "action_label_key ActFocusSearch = ''action-nav-focus-search''"
| "action_label_key ActTempoStepUp = ''action-effects-tempo-step-up''"
| "action_label_key ActTempoStepDown = ''action-effects-tempo-step-down''"
| "action_label_key ActToggleEffectChain = ''action-nav-toggle-effect-chain''"
| "action_label_key ActToggleTransportPanel = ''action-nav-toggle-transport-panel''"

fun action_category_of :: "host_action \<Rightarrow> action_category" where
  "action_category_of ActPlay = CatTransport"
| "action_category_of ActPause = CatTransport"
| "action_category_of ActTogglePlayPause = CatTransport"
| "action_category_of ActStop = CatTransport"
| "action_category_of ActNextTrack = CatTransport"
| "action_category_of ActPreviousTrack = CatTransport"
| "action_category_of ActSeekForwardStep = CatTransport"
| "action_category_of ActSeekBackwardStep = CatTransport"
| "action_category_of ActVolumeUp = CatTransport"
| "action_category_of ActVolumeDown = CatTransport"
| "action_category_of ActAddPointMarker = CatMarkers"
| "action_category_of ActSetA = CatMarkers"
| "action_category_of ActSetB = CatMarkers"
| "action_category_of ActNudgeEarlier = CatMarkers"
| "action_category_of ActNudgeLater = CatMarkers"
| "action_category_of ActNudgeEarlierX10 = CatMarkers"
| "action_category_of ActNudgeLaterX10 = CatMarkers"
| "action_category_of ActClearAllMarkers = CatMarkers"
| "action_category_of ActToggleLoop = CatLoop"
| "action_category_of (ActSetCue _) = CatCues"
| "action_category_of (ActJumpToCue _) = CatCues"
| "action_category_of ActNavLibrary = CatNavigation"
| "action_category_of ActNavSearch = CatNavigation"
| "action_category_of ActNavNowPlaying = CatNavigation"
| "action_category_of ActNavPlugins = CatNavigation"
| "action_category_of ActNavSettings = CatNavigation"
| "action_category_of ActToggleQueue = CatNavigation"
| "action_category_of ActFocusSearch = CatNavigation"
| "action_category_of ActTempoStepUp = CatEffects"
| "action_category_of ActTempoStepDown = CatEffects"
| "action_category_of ActToggleEffectChain = CatNavigation"
| "action_category_of ActToggleTransportPanel = CatNavigation"

section \<open>The shipped catalog\<close>

record action_def =
  af_action :: host_action
  af_category :: action_category
  af_label_key :: string
  af_kind :: action_kind
  af_owner :: action_owner
  af_scope :: scope
  af_repeats_while_held :: bool
  af_enabled_by_default :: bool
  af_default_bindings :: "string list"

text \<open>The macro \<^verbatim>\<open>def!\<close>.\<close>

definition entry :: "host_action \<Rightarrow> scope \<Rightarrow> bool \<Rightarrow> bool \<Rightarrow> string list \<Rightarrow> action_def" where
  "entry action scp repeats enabled bindings =
     \<lparr>af_action = action, af_category = action_category_of action, af_label_key = action_label_key action,
      af_kind = TriggerAction, af_owner = OwnedByHost, af_scope = scp, af_repeats_while_held = repeats,
      af_enabled_by_default = enabled, af_default_bindings = bindings\<rparr>"

definition CATALOG :: "action_def list" where
  "CATALOG =
     [entry ActPlay AppScope False True [],
      entry ActPause AppScope False True [],
      entry ActTogglePlayPause AppScope False True [''Space''],
      entry ActStop AppScope False True [''Shift+Space''],
      entry ActNextTrack AppScope False True [''Primary+Right''],
      entry ActPreviousTrack AppScope False True [''Primary+Left''],
      entry ActSeekForwardStep AppScope True True [''Primary+Shift+Right''],
      entry ActSeekBackwardStep AppScope True True [''Primary+Shift+Left''],
      entry ActVolumeUp AppScope True True [''Primary+Up''],
      entry ActVolumeDown AppScope True True [''Primary+Down''],
      entry ActAddPointMarker NowPlayingScope False True [''M''],
      entry ActSetA NowPlayingScope False True [''I''],
      entry ActSetB NowPlayingScope False True [''O''],
      entry ActNudgeEarlier MarkerFocusedScope True True [''Left''],
      entry ActNudgeLater MarkerFocusedScope True True [''Right''],
      entry ActNudgeEarlierX10 MarkerFocusedScope True True [''Shift+Left''],
      entry ActNudgeLaterX10 MarkerFocusedScope True True [''Shift+Right''],
      entry ActClearAllMarkers NowPlayingScope False True [],
      entry ActToggleLoop NowPlayingScope False True [''L''],
      entry (ActSetCue (CueSlot 1)) NowPlayingScope False True [''Shift+1''],
      entry (ActSetCue (CueSlot 2)) NowPlayingScope False True [''Shift+2''],
      entry (ActSetCue (CueSlot 3)) NowPlayingScope False True [''Shift+3''],
      entry (ActSetCue (CueSlot 4)) NowPlayingScope False True [''Shift+4''],
      entry (ActSetCue (CueSlot 5)) NowPlayingScope False True [''Shift+5''],
      entry (ActSetCue (CueSlot 6)) NowPlayingScope False True [''Shift+6''],
      entry (ActSetCue (CueSlot 7)) NowPlayingScope False True [''Shift+7''],
      entry (ActSetCue (CueSlot 8)) NowPlayingScope False True [''Shift+8''],
      entry (ActJumpToCue (CueSlot 1)) NowPlayingScope False True [''1''],
      entry (ActJumpToCue (CueSlot 2)) NowPlayingScope False True [''2''],
      entry (ActJumpToCue (CueSlot 3)) NowPlayingScope False True [''3''],
      entry (ActJumpToCue (CueSlot 4)) NowPlayingScope False True [''4''],
      entry (ActJumpToCue (CueSlot 5)) NowPlayingScope False True [''5''],
      entry (ActJumpToCue (CueSlot 6)) NowPlayingScope False True [''6''],
      entry (ActJumpToCue (CueSlot 7)) NowPlayingScope False True [''7''],
      entry (ActJumpToCue (CueSlot 8)) NowPlayingScope False True [''8''],
      entry ActNavLibrary AppScope False True [''Primary+1''],
      entry ActNavSearch AppScope False True [''Primary+2''],
      entry ActNavNowPlaying AppScope False True [''Primary+3''],
      entry ActNavPlugins AppScope False True [''Primary+4''],
      entry ActNavSettings AppScope False True [''Primary+5''],
      entry ActToggleQueue NowPlayingScope False True [''Q''],
      entry ActFocusSearch AppScope False True [''Primary+F'', ''Slash''],
      entry ActTempoStepUp NowPlayingScope True True [''Equals'', ''Plus''],
      entry ActTempoStepDown NowPlayingScope True True [''Minus''],
      entry ActToggleEffectChain NowPlayingScope False True [''E''],
      entry ActToggleTransportPanel NowPlayingScope False True [''T'']]"

definition catalog_position :: "host_action \<Rightarrow> nat" where
  "catalog_position action = (case position (\<lambda>a. a = action) ALL_ACTIONS of Some i \<Rightarrow> i | None \<Rightarrow> 0)"

definition action_def_of :: "host_action \<Rightarrow> action_def" where
  "action_def_of action = CATALOG ! catalog_position action"

section \<open>Identifiers of plugin actions\<close>

definition matches_grammar :: "ustring \<Rightarrow> nat \<Rightarrow> bool" where
  "matches_grammar s max_len \<longleftrightarrow>
     (case s of
        [] \<Rightarrow> False
      | b # bs \<Rightarrow> length s \<le> max_len \<and> (97 \<le> b \<and> b \<le> 122) \<and>
          list_all (\<lambda>c. (97 \<le> c \<and> c \<le> 122) \<or> (48 \<le> c \<and> c \<le> 57) \<or> c = 95) bs)"

definition MAX_ID_CHARS :: nat where "MAX_ID_CHARS = 64"
definition MAX_ACTIONS_PER_PLUGIN :: nat where "MAX_ACTIONS_PER_PLUGIN = 64"

definition matches_id_grammar :: "ustring \<Rightarrow> bool" where
  "matches_id_grammar s \<longleftrightarrow> matches_grammar s MAX_ID_CHARS"

datatype plugin_action_id = PluginActionId (act_plugin: ustring) (act_name: ustring)

instantiation plugin_action_id :: linorder
begin

definition less_eq_plugin_action_id :: "plugin_action_id \<Rightarrow> plugin_action_id \<Rightarrow> bool" where
  "a \<le> b \<longleftrightarrow> (act_plugin a, act_name a) \<le> (act_plugin b, act_name b)"

definition less_plugin_action_id :: "plugin_action_id \<Rightarrow> plugin_action_id \<Rightarrow> bool" where
  "a < b \<longleftrightarrow> (act_plugin a, act_name a) < (act_plugin b, act_name b)"

instance
proof
  fix a b :: plugin_action_id
  assume "a \<le> b" "b \<le> a"
  then have "(act_plugin a, act_name a) = (act_plugin b, act_name b)"
    unfolding less_eq_plugin_action_id_def by (rule antisym)
  then show "a = b" by (simp add: plugin_action_id.expand)
qed (auto simp: less_eq_plugin_action_id_def less_plugin_action_id_def)

end

definition plugin_action_key :: "plugin_action_id \<Rightarrow> ustring" where
  "plugin_action_key p = act_plugin p @ 46 # act_name p"

definition rsplit_once :: "nat \<Rightarrow> ustring \<Rightarrow> (ustring \<times> ustring) option" where
  "rsplit_once c s =
     (case dropWhile (\<lambda>x. x \<noteq> c) (rev s) of
        [] \<Rightarrow> None
      | _ # before \<Rightarrow> Some (rev before, rev (takeWhile (\<lambda>x. x \<noteq> c) (rev s))))"

definition starts_with :: "ustring \<Rightarrow> ustring \<Rightarrow> bool" where
  "starts_with prefix s \<longleftrightarrow> take (length prefix) s = prefix"

lemma starts_with_iff: "starts_with p s \<longleftrightarrow> (\<exists>t. s = p @ t)"
  unfolding starts_with_def by (metis append_eq_conv_conj append_take_drop_id)

definition plugin_action_parse :: "ustring \<Rightarrow> plugin_action_id option" where
  "plugin_action_parse s =
     (case rsplit_once 46 s of
        None \<Rightarrow> None
      | Some (plugin, name) \<Rightarrow>
          if plugin = utf ''host'' \<or> starts_with (utf ''host.'') plugin then None
          else if \<not> matches_id_grammar name then None
          else map_option (\<lambda>p. PluginActionId p name) (plugin_identifier_parse plugin))"

datatype action_id = HostActionId host_action | PluginActionRef plugin_action_id

datatype binding_error = DuplicateBinding

section \<open>Facts\<close>

lemma all_actions_length: "length ALL_ACTIONS = 46"
  by (simp add: ALL_ACTIONS_def)

lemma catalog_actions: "map af_action CATALOG = ALL_ACTIONS"
  by (simp add: CATALOG_def ALL_ACTIONS_def entry_def)

lemma action_ids_distinct: "distinct (map host_action_id ALL_ACTIONS)"
  by (simp add: ALL_ACTIONS_def)

lemma all_actions_distinct: "distinct ALL_ACTIONS"
  using action_ids_distinct by (simp add: distinct_map)

lemma all_actions_ok: "a \<in> set ALL_ACTIONS \<longleftrightarrow> host_action_ok a"
proof
  assume "host_action_ok a"
  then show "a \<in> set ALL_ACTIONS"
    by (cases a rule: action_rank.cases) (auto simp: host_action_ok_def ALL_ACTIONS_def le_Suc_eq numeral_eq_Suc)
qed (auto simp: host_action_ok_def ALL_ACTIONS_def)

lemma host_action_roundtrip: "host_action_ok a \<Longrightarrow> host_action_parse (utf (host_action_id a)) = Some a"
  using find_key [OF action_ids_distinct, of a] by (simp add: host_action_parse_def all_actions_ok)

lemma host_action_parse_SomeD: "host_action_parse s = Some a \<Longrightarrow> host_action_ok a \<and> s = utf (host_action_id a)"
  by (auto simp: host_action_parse_def all_actions_ok dest: find_SomeD)

lemma host_action_id_prefix: "host_action_ok a \<Longrightarrow> starts_with (utf ''host.'') (utf (host_action_id a))"
proof -
  have "list_all (\<lambda>a. take 5 (host_action_id a) = ''host.'') ALL_ACTIONS" by (simp add: ALL_ACTIONS_def)
  moreover assume "host_action_ok a"
  ultimately have "take 5 (host_action_id a) = ''host.''" by (auto simp: list_all_iff all_actions_ok)
  then have "host_action_id a = ''host.'' @ drop 5 (host_action_id a)" by (metis append_take_drop_id)
  then have "utf (host_action_id a) = utf ''host.'' @ utf (drop 5 (host_action_id a))" by (metis utf_simps(3))
  then show ?thesis by (auto simp: starts_with_iff simp del: utf_simps)
qed

lemma catalog_position_less: "catalog_position a < 46"
  using position_less [of "\<lambda>x. x = a" ALL_ACTIONS]
  by (auto simp: catalog_position_def all_actions_length split: option.split simp del: position_None_iff)

lemma catalog_position_nth: "host_action_ok a \<Longrightarrow> ALL_ACTIONS ! catalog_position a = a"
  using position_Some_ex [of a ALL_ACTIONS "\<lambda>x. x = a"] position_SomeD [of "\<lambda>x. x = a" ALL_ACTIONS]
  by (auto simp: catalog_position_def all_actions_ok split: option.split simp del: position_None_iff)

lemma action_def_of_action: "host_action_ok a \<Longrightarrow> af_action (action_def_of a) = a"
proof -
  have "length CATALOG = 46" using catalog_actions all_actions_length by (metis length_map)
  then have "af_action (CATALOG ! catalog_position a) = ALL_ACTIONS ! catalog_position a"
    using catalog_position_less [of a] by (simp flip: catalog_actions)
  then show "host_action_ok a \<Longrightarrow> ?thesis" by (simp add: action_def_of_def catalog_position_nth)
qed

lemma id_grammar_plain: "matches_id_grammar s \<Longrightarrow> 46 \<notin> set s"
  by (auto simp: matches_id_grammar_def matches_grammar_def list_all_iff split: list.splits)

definition plugin_action_ok :: "plugin_action_id \<Rightarrow> bool" where
  "plugin_action_ok p \<longleftrightarrow> plugin_action_parse (plugin_action_key p) = Some p"

lemma rsplit_key: "46 \<notin> set name \<Longrightarrow> rsplit_once 46 (plugin @ 46 # name) = Some (plugin, name)"
proof -
  assume "46 \<notin> set name"
  then have "dropWhile (\<lambda>x. x \<noteq> 46) (rev name @ 46 # rev plugin) = 46 # rev plugin"
    "takeWhile (\<lambda>x. x \<noteq> 46) (rev name @ 46 # rev plugin) = rev name"
    by (subst dropWhile_append2 takeWhile_append2; auto)+
  then show ?thesis by (simp add: rsplit_once_def)
qed

lemma rsplit_SomeD: "rsplit_once c s = Some (a, b) \<Longrightarrow> s = a @ c # b"
proof -
  assume split: "rsplit_once c s = Some (a, b)"
  then obtain x xs where drop: "dropWhile (\<lambda>x. x \<noteq> c) (rev s) = x # xs" and a: "a = rev xs"
    and b: "b = rev (takeWhile (\<lambda>x. x \<noteq> c) (rev s))"
    by (auto simp: rsplit_once_def split: list.splits)
  from drop have x: "x = c" using hd_dropWhile [of "\<lambda>x. x \<noteq> c" "rev s"] by auto
  have "rev s = takeWhile (\<lambda>x. x \<noteq> c) (rev s) @ c # xs"
    using takeWhile_dropWhile_id [of "\<lambda>x. x \<noteq> c" "rev s"] drop x by simp
  then have "rev (rev s) = rev xs @ c # rev (takeWhile (\<lambda>x. x \<noteq> c) (rev s))"
    by (metis append.assoc append_Cons append_Nil rev.simps(2) rev_append)
  with a b show ?thesis by simp
qed

lemma plugin_action_parse_SomeD:
  assumes "plugin_action_parse s = Some p"
  shows "s = plugin_action_key p \<and> plugin_action_ok p"
proof -
  from assms obtain plugin name q where split: "rsplit_once 46 s = Some (plugin, name)"
    and q: "plugin_identifier_parse plugin = Some q" and p: "p = PluginActionId q name"
    by (auto simp: plugin_action_parse_def split: option.splits if_splits prod.splits)
  from q have "q = plugin" by (auto simp: plugin_identifier_parse_def Let_def split: if_splits)
  with rsplit_SomeD [OF split] p have "s = plugin_action_key p" by (simp add: plugin_action_key_def)
  with assms show ?thesis by (simp add: plugin_action_ok_def)
qed

lemma plugin_action_key_inject: "plugin_action_ok p \<Longrightarrow> plugin_action_ok q \<Longrightarrow> plugin_action_key p = plugin_action_key q \<Longrightarrow> p = q"
  by (simp add: plugin_action_ok_def)

lemma plugin_action_not_host: 
  assumes "plugin_action_ok p"
  shows "\<not> starts_with (utf ''host.'') (plugin_action_key p)"
proof
  assume host: "starts_with (utf ''host.'') (plugin_action_key p)"
  from assms obtain plugin name where split: "rsplit_once 46 (plugin_action_key p) = Some (plugin, name)"
    and "plugin \<noteq> utf ''host''" "\<not> starts_with (utf ''host.'') plugin"
    by (auto simp: plugin_action_ok_def plugin_action_parse_def split: option.splits if_splits prod.splits)
  from host rsplit_SomeD [OF split] obtain t where "plugin @ 46 # name = [104, 111, 115, 116, 46] @ t"
    by (auto simp: starts_with_iff)
  then consider us where "plugin = [104, 111, 115, 116, 46] @ us"
    | us where "plugin @ us = [104, 111, 115, 116, 46]" "46 # name = us @ t"
    unfolding append_eq_append_conv2 by blast
  then show False
  proof cases
    case 1
    with \<open>\<not> starts_with (utf ''host.'') plugin\<close> show False by (auto simp: starts_with_iff)
  next
    case (2 us)
    show False
    proof (cases us)
      case Nil
      with 2 \<open>\<not> starts_with (utf ''host.'') plugin\<close> show False by (auto simp: starts_with_iff)
    next
      case (Cons x xs)
      with 2 have "plugin @ 46 # xs = [104, 111, 115, 116, 46]" by simp
      then have "plugin = [104, 111, 115, 116]" by (auto simp: append_eq_Cons_conv)
      with \<open>plugin \<noteq> utf ''host''\<close> show False by simp
    qed
  qed
qed

end
