(* ===== verification/Ordered_Map.thy ===== *)
theory Ordered_Map
  imports Main
begin

text \<open>
  A \<^verbatim>\<open>BTreeMap\<close>: the list of its entries in the order of the keys, which is the order
  \<^verbatim>\<open>iter()\<close> yields them in. The contract of a map with a canonical form is the locale
  \<open>keyed_map\<close>; its lemmas are about taking an entry out and putting it back.
\<close>

section \<open>The contract\<close>

locale keyed_map =
  fixes lookup :: "'m \<Rightarrow> 'k \<Rightarrow> 'v option"
    and put_entry :: "'k \<Rightarrow> 'v \<Rightarrow> 'm \<Rightarrow> 'm"
    and drop_entry :: "'k \<Rightarrow> 'm \<Rightarrow> 'm"
    and good :: "'m \<Rightarrow> bool"
  assumes lookup_put: "good m \<Longrightarrow> lookup (put_entry k v m) = (lookup m)(k \<mapsto> v)"
    and lookup_drop: "good m \<Longrightarrow> lookup (drop_entry k m) = (lookup m)(k := None)"
    and good_put: "good m \<Longrightarrow> good (put_entry k v m)"
    and good_drop: "good m \<Longrightarrow> good (drop_entry k m)"
    and canonical: "good m \<Longrightarrow> good n \<Longrightarrow> lookup m = lookup n \<Longrightarrow> m = n"
begin

lemma put_back: "good m \<Longrightarrow> lookup m k = Some v \<Longrightarrow> put_entry k v (drop_entry k m) = m"
  by (rule canonical) (auto simp: lookup_put lookup_drop good_put good_drop)

lemma drop_absent: "good m \<Longrightarrow> lookup m k = None \<Longrightarrow> drop_entry k m = m"
  by (rule canonical) (auto simp: lookup_drop good_drop)

lemma put_same: "good m \<Longrightarrow> lookup m k = Some v \<Longrightarrow> put_entry k v m = m"
  by (rule canonical) (auto simp: lookup_put good_put)

lemma drop_put: "good m \<Longrightarrow> drop_entry k (put_entry k v m) = drop_entry k m"
  by (rule canonical) (auto simp: lookup_put lookup_drop good_put good_drop)

lemma put_swap: "good m \<Longrightarrow> k \<noteq> l \<Longrightarrow> put_entry k v (put_entry l w m) = put_entry l w (put_entry k v m)"
  by (rule canonical) (auto simp: lookup_put good_put fun_upd_twist)

end

section \<open>Entries in the order of the keys\<close>

definition tree_insert :: "'k::linorder \<Rightarrow> 'v \<Rightarrow> ('k \<times> 'v) list \<Rightarrow> ('k \<times> 'v) list" where
  "tree_insert k v m = filter (\<lambda>e. fst e < k) m @ (k, v) # filter (\<lambda>e. k < fst e) m"

definition tree_remove :: "'k \<Rightarrow> ('k \<times> 'v) list \<Rightarrow> ('k \<times> 'v) list" where
  "tree_remove k m = filter (\<lambda>e. fst e \<noteq> k) m"

definition tree_ok :: "('k::linorder \<times> 'v) list \<Rightarrow> bool" where
  "tree_ok m \<longleftrightarrow> sorted_wrt (<) (map fst m)"

lemma map_of_filter_fst: "map_of (filter (\<lambda>e. P (fst e)) m) k = (if P k then map_of m k else None)"
  by (induction m) auto

lemma map_of_tree_insert [simp]: "map_of (tree_insert k v m) = (map_of m)(k \<mapsto> v)"
proof
  fix x
  show "map_of (tree_insert k v m) x = ((map_of m)(k \<mapsto> v)) x"
    using map_of_filter_fst [of "\<lambda>x. x < k" m] map_of_filter_fst [of "\<lambda>x. k < x" m]
    by (auto simp: tree_insert_def map_add_def split: option.split)
qed

lemma map_of_tree_remove [simp]: "map_of (tree_remove k m) = (map_of m)(k := None)"
  using map_of_filter_fst [of "\<lambda>x. x \<noteq> k" m] by (auto simp: tree_remove_def)

lemma tree_ok_filter [simp]: "tree_ok m \<Longrightarrow> tree_ok (filter P m)"
  by (auto simp: tree_ok_def sorted_wrt_map intro: sorted_wrt_filter)

lemma tree_ok_insert [simp]: "tree_ok m \<Longrightarrow> tree_ok (tree_insert k v m)"
  by (auto simp: tree_ok_def tree_insert_def sorted_wrt_map sorted_wrt_append intro!: sorted_wrt_filter)

lemma tree_ok_remove [simp]: "tree_ok m \<Longrightarrow> tree_ok (tree_remove k m)"
  by (simp add: tree_remove_def)

lemma tree_ok_Nil [simp]: "tree_ok []"
  by (simp add: tree_ok_def)

lemma tree_ok_distinct: "tree_ok m \<Longrightarrow> distinct (map fst m)"
  by (simp add: tree_ok_def strict_sorted_iff)

lemma tree_ok_lookup: "tree_ok m \<Longrightarrow> (k, v) \<in> set m \<longleftrightarrow> map_of m k = Some v"
  by (metis map_of_eq_Some_iff tree_ok_distinct)

lemma tree_canonical:
  assumes "tree_ok m" "tree_ok n" "map_of m = map_of n"
  shows "m = n"
proof -
  have keys: "map fst m = map fst n"
    using assms by (intro sorted_distinct_set_unique) (auto simp: tree_ok_def strict_sorted_iff simp flip: dom_map_of_conv_image_fst)
  have "map snd l = map (\<lambda>k. the (map_of l k)) (map fst l)" if "tree_ok l" for l :: "('a \<times> 'b) list"
    using that by (auto simp: tree_ok_lookup)
  with assms keys have "map snd m = map snd n" by metis
  with keys show ?thesis by (metis zip_map_fst_snd)
qed

interpretation tree: keyed_map map_of tree_insert tree_remove tree_ok
  by unfold_locales (simp_all add: tree_canonical)

lemma set_tree_insert: "set (tree_insert k v m) \<subseteq> insert (k, v) (set m)"
  by (auto simp: tree_insert_def)

lemma set_tree_remove: "set (tree_remove k m) \<subseteq> set m"
  by (auto simp: tree_remove_def)

end
