(* ===== verification/Actions_Keymap.thy ===== *)
theory Actions_Keymap
  imports Actions_Catalog Ordered_Map
begin

text \<open>
  \<^verbatim>\<open>crates/modplayer-core/src/actions/keymap.rs\<close>: the bindings a user changed. Host actions and
  the actions of running plugins have their own maps; an entry of the settings file whose plugin
  is not running waits in \<open>ko_dormant\<close> under its text.
\<close>

section \<open>State\<close>

record keymap_overrides =
  ko_host :: "(host_action \<times> chord list) list"
  ko_plugin :: "(plugin_action_id \<times> chord list) list"
  ko_dormant :: "(ustring \<times> chord list) list"

definition overrides_default :: keymap_overrides where
  "overrides_default = \<lparr>ko_host = [], ko_plugin = [], ko_dormant = []\<rparr>"

section \<open>Operations\<close>

definition dedup :: "chord list \<Rightarrow> chord list" where
  "dedup chords = fold (\<lambda>chord acc. if chord \<in> set acc then acc else acc @ [chord]) chords []"

definition default_chords :: "host_action \<Rightarrow> chord list" where
  "default_chords action =
     concat (map (\<lambda>s. case chord_parse (utf s) of Inr c \<Rightarrow> [c] | Inl _ \<Rightarrow> [])
       (af_default_bindings (action_def_of action)))"

definition chord_sets_equal :: "chord list \<Rightarrow> chord list \<Rightarrow> bool" where
  "chord_sets_equal a b \<longleftrightarrow> set a = set b"

definition overrides_get :: "host_action \<Rightarrow> keymap_overrides \<Rightarrow> chord list option" where
  "overrides_get action o1 = map_of (ko_host o1) action"

definition overrides_set :: "host_action \<Rightarrow> chord list \<Rightarrow> keymap_overrides \<Rightarrow> keymap_overrides" where
  "overrides_set action chords o1 =
     (let deduped = dedup chords
      in if chord_sets_equal deduped (default_chords action)
         then o1\<lparr>ko_host := tree_remove action (ko_host o1)\<rparr>
         else o1\<lparr>ko_host := tree_insert action deduped (ko_host o1)\<rparr>)"

definition overrides_remove :: "host_action \<Rightarrow> keymap_overrides \<Rightarrow> keymap_overrides" where
  "overrides_remove action o1 = o1\<lparr>ko_host := tree_remove action (ko_host o1)\<rparr>"

definition overrides_is_empty :: "keymap_overrides \<Rightarrow> bool" where
  "overrides_is_empty o1 \<longleftrightarrow> ko_host o1 = [] \<and> ko_plugin o1 = []"

definition get_plugin :: "plugin_action_id \<Rightarrow> keymap_overrides \<Rightarrow> chord list option" where
  "get_plugin p o1 = map_of (ko_plugin o1) p"

definition set_plugin :: "plugin_action_id \<Rightarrow> chord list \<Rightarrow> chord option \<Rightarrow> keymap_overrides \<Rightarrow> keymap_overrides" where
  "set_plugin p chords dflt o1 =
     (let deduped = dedup chords; default_set = (case dflt of Some c \<Rightarrow> [c] | None \<Rightarrow> [])
      in if chord_sets_equal deduped default_set
         then o1\<lparr>ko_plugin := tree_remove p (ko_plugin o1)\<rparr>
         else o1\<lparr>ko_plugin := tree_insert p deduped (ko_plugin o1)\<rparr>)"

definition overrides_remove_plugin :: "plugin_action_id \<Rightarrow> keymap_overrides \<Rightarrow> keymap_overrides" where
  "overrides_remove_plugin p o1 = o1\<lparr>ko_plugin := tree_remove p (ko_plugin o1)\<rparr>"

definition set_dormant :: "ustring \<Rightarrow> chord list \<Rightarrow> keymap_overrides \<Rightarrow> keymap_overrides" where
  "set_dormant key chords o1 = o1\<lparr>ko_dormant := tree_insert key chords (ko_dormant o1)\<rparr>"

definition adopt_dormant :: "plugin_action_id \<Rightarrow> keymap_overrides \<Rightarrow> keymap_overrides" where
  "adopt_dormant p o1 =
     (case map_of (ko_dormant o1) (plugin_action_key p) of
        None \<Rightarrow> o1
      | Some chords \<Rightarrow>
          o1\<lparr>ko_dormant := tree_remove (plugin_action_key p) (ko_dormant o1),
             ko_plugin := tree_insert p chords (ko_plugin o1)\<rparr>)"

definition park :: "plugin_action_id \<Rightarrow> keymap_overrides \<Rightarrow> keymap_overrides" where
  "park p o1 =
     (case map_of (ko_plugin o1) p of
        None \<Rightarrow> o1
      | Some chords \<Rightarrow>
          o1\<lparr>ko_plugin := tree_remove p (ko_plugin o1),
             ko_dormant := tree_insert (plugin_action_key p) chords (ko_dormant o1)\<rparr>)"

section \<open>Lists without duplicates\<close>

lemma fold_dedup:
  "distinct acc \<Longrightarrow>
   distinct (fold (\<lambda>chord acc. if chord \<in> set acc then acc else acc @ [chord]) chords acc) \<and>
   set (fold (\<lambda>chord acc. if chord \<in> set acc then acc else acc @ [chord]) chords acc) = set acc \<union> set chords"
  by (induction chords arbitrary: acc) auto

lemma dedup_distinct [simp]: "distinct (dedup chords)"
  using fold_dedup [of "[]" chords] by (simp add: dedup_def)

lemma dedup_set [simp]: "set (dedup chords) = set chords"
  using fold_dedup [of "[]" chords] by (simp add: dedup_def)

lemma fold_dedup_id:
  "distinct (acc @ chords) \<Longrightarrow>
   fold (\<lambda>chord acc. if chord \<in> set acc then acc else acc @ [chord]) chords acc = acc @ chords"
  by (induction chords arbitrary: acc) auto

lemma dedup_id [simp]: "distinct chords \<Longrightarrow> dedup chords = chords"
  using fold_dedup_id [of "[]" chords] by (simp add: dedup_def)

section \<open>The invariant\<close>

definition chords_ok :: "chord list \<Rightarrow> bool" where
  "chords_ok cs \<longleftrightarrow> distinct cs \<and> list_all chord_ok cs"

definition overrides_ok :: "keymap_overrides \<Rightarrow> bool" where
  "overrides_ok o1 \<longleftrightarrow>
     tree_ok (ko_host o1) \<and> tree_ok (ko_plugin o1) \<and> tree_ok (ko_dormant o1) \<and>
     list_all (\<lambda>(a, cs). host_action_ok a \<and> chords_ok cs \<and> \<not> chord_sets_equal cs (default_chords a)) (ko_host o1) \<and>
     list_all (\<lambda>(p, cs). plugin_action_ok p \<and> chords_ok cs) (ko_plugin o1) \<and>
     list_all (\<lambda>(key, cs). \<not> starts_with (utf ''host.'') key \<and> chords_ok cs) (ko_dormant o1)"

lemma list_all_tree_insert: "list_all P m \<Longrightarrow> P (k, v) \<Longrightarrow> list_all P (tree_insert k v m)"
  using set_tree_insert [of k v m] by (auto simp: list_all_iff)

lemma list_all_tree_remove: "list_all P m \<Longrightarrow> list_all P (tree_remove k m)"
  using set_tree_remove [of k m] by (auto simp: list_all_iff)

lemmas list_all_tree = list_all_tree_insert list_all_tree_remove

lemma overrides_ok_default [simp]: "overrides_ok overrides_default"
  by (simp add: overrides_ok_def overrides_default_def)

lemma chords_ok_dedup: "list_all chord_ok cs \<Longrightarrow> chords_ok (dedup cs)"
  by (simp add: chords_ok_def list_all_iff)

lemma overrides_set_ok:
  "overrides_ok o1 \<Longrightarrow> host_action_ok a \<Longrightarrow> list_all chord_ok cs \<Longrightarrow> overrides_ok (overrides_set a cs o1)"
  by (auto simp: overrides_ok_def overrides_set_def Let_def chords_ok_dedup intro!: list_all_tree)

lemma overrides_remove_ok: "overrides_ok o1 \<Longrightarrow> overrides_ok (overrides_remove a o1)"
  by (auto simp: overrides_ok_def overrides_remove_def intro!: list_all_tree)

lemma set_plugin_ok:
  "overrides_ok o1 \<Longrightarrow> plugin_action_ok p \<Longrightarrow> list_all chord_ok cs \<Longrightarrow> overrides_ok (set_plugin p cs d o1)"
  by (auto simp: overrides_ok_def set_plugin_def Let_def chords_ok_dedup intro!: list_all_tree)

lemma overrides_remove_plugin_ok: "overrides_ok o1 \<Longrightarrow> overrides_ok (overrides_remove_plugin p o1)"
  by (auto simp: overrides_ok_def overrides_remove_plugin_def intro!: list_all_tree)

lemma set_dormant_ok:
  "overrides_ok o1 \<Longrightarrow> \<not> starts_with (utf ''host.'') key \<Longrightarrow> chords_ok cs \<Longrightarrow> overrides_ok (set_dormant key cs o1)"
  by (auto simp: overrides_ok_def set_dormant_def intro!: list_all_tree)

lemma list_all_map_of: "list_all P m \<Longrightarrow> map_of m k = Some v \<Longrightarrow> P (k, v)"
  by (auto simp: list_all_iff dest: map_of_SomeD)

lemma adopt_dormant_ok: 
  assumes "overrides_ok o1" "plugin_action_ok p"
  shows "overrides_ok (adopt_dormant p o1)"
proof (cases "map_of (ko_dormant o1) (plugin_action_key p)")
  case (Some cs)
  with assms have "chords_ok cs" by (auto simp: overrides_ok_def dest: list_all_map_of)
  with Some assms show ?thesis by (auto simp: overrides_ok_def adopt_dormant_def intro!: list_all_tree)
qed (simp add: assms adopt_dormant_def)

lemma park_ok:
  assumes "overrides_ok o1"
  shows "overrides_ok (park p o1)"
proof (cases "map_of (ko_plugin o1) p")
  case (Some cs)
  with assms have "plugin_action_ok p" "chords_ok cs" by (auto simp: overrides_ok_def dest: list_all_map_of)
  moreover have "\<not> starts_with (utf ''host.'') (plugin_action_key p)"
    using \<open>plugin_action_ok p\<close> by (rule plugin_action_not_host)
  ultimately show ?thesis
    using Some assms by (auto simp: overrides_ok_def park_def simp del: utf_simps intro!: list_all_tree)
qed (simp add: assms park_def)

section \<open>The shipped bindings\<close>

definition shipped :: "bool \<Rightarrow> bool \<Rightarrow> string \<Rightarrow> chord" where
  "shipped primary shift name = \<lparr>ch_mods = \<lparr>mo_primary = primary, mo_shift = shift, mo_alt = False\<rparr>, ch_key = KeyName name\<rparr>"

text \<open>Every default of the catalog is one of these texts, so it parses; none appears twice.\<close>

definition shipped_texts :: "(string \<times> chord) list" where
  "shipped_texts =
     map (\<lambda>n. (n, shipped False False n))
       ([''Space'', ''M'', ''I'', ''O'', ''Left'', ''Right'', ''L'', ''Q'', ''Slash'', ''Equals'', ''Plus'', ''Minus'', ''E'', ''T''] @
        [''1'', ''2'', ''3'', ''4'', ''5'', ''6'', ''7'', ''8'']) @
     map (\<lambda>n. (''Shift+'' @ n, shipped False True n))
       [''Space'', ''Left'', ''Right'', ''1'', ''2'', ''3'', ''4'', ''5'', ''6'', ''7'', ''8''] @
     map (\<lambda>n. (''Primary+'' @ n, shipped True False n)) [''Right'', ''Left'', ''Up'', ''Down'', ''1'', ''2'', ''3'', ''4'', ''5'', ''F''] @
     map (\<lambda>n. (''Primary+Shift+'' @ n, shipped True True n)) [''Right'', ''Left'']"

lemma shipped_texts_encoded: "list_all (\<lambda>(s, c). utf s = chord_encode c) shipped_texts"
  by (simp add: shipped_texts_def shipped_def chord_encode_def)

lemma shipped_texts_ok: "list_all (\<lambda>(s, c). chord_ok c) shipped_texts"
  by (simp add: shipped_texts_def shipped_def chord_ok_def key_ok_def KEY_NAMES_def)

lemma shipped_parse: "(s, c) \<in> set shipped_texts \<Longrightarrow> chord_parse (utf s) = Inr c"
  using shipped_texts_encoded shipped_texts_ok parse_encode by (fastforce simp: list_all_iff)

lemma shipped_texts_distinct: "distinct (map fst shipped_texts)" "distinct (map snd shipped_texts)"
  by (simp_all add: shipped_texts_def shipped_def)

lemma catalog_texts: "list_all (\<lambda>s. s \<in> fst ` set shipped_texts) (concat (map af_default_bindings CATALOG))"
  by (simp add: CATALOG_def entry_def shipped_texts_def)

lemma catalog_texts_distinct: "distinct (concat (map af_default_bindings CATALOG))"
  by (simp add: CATALOG_def entry_def)

definition shipped_chord :: "string \<Rightarrow> chord" where
  "shipped_chord s = the (map_of shipped_texts s)"

lemma shipped_text:
  assumes "s \<in> fst ` set shipped_texts"
  shows "(s, shipped_chord s) \<in> set shipped_texts"
proof -
  from assms obtain c where "(s, c) \<in> set shipped_texts" by auto
  moreover then have "map_of shipped_texts s = Some c"
    using shipped_texts_distinct(1) by simp
  ultimately show ?thesis by (simp add: shipped_chord_def)
qed

lemma default_texts:
  assumes "s \<in> set (af_default_bindings (action_def_of a))"
  shows "(s, shipped_chord s) \<in> set shipped_texts"
proof (rule shipped_text)
  have "length CATALOG = 46" using catalog_actions all_actions_length by (metis length_map)
  then have "action_def_of a \<in> set CATALOG" using catalog_position_less [of a] by (simp add: action_def_of_def)
  with assms catalog_texts show "s \<in> fst ` set shipped_texts" by (auto simp: list_all_iff)
qed

lemma default_chords_shipped: "default_chords a = map shipped_chord (af_default_bindings (action_def_of a))"
proof -
  have "chord_parse (utf s) = Inr (shipped_chord s)" if "s \<in> set (af_default_bindings (action_def_of a))" for s
    using default_texts [OF that] by (rule shipped_parse)
  then show ?thesis
    by (simp add: default_chords_def cong: map_cong)
qed

lemma shipped_chord_inj: "inj_on shipped_chord (fst ` set shipped_texts)"
proof (rule inj_onI)
  fix s t
  assume "s \<in> fst ` set shipped_texts" "t \<in> fst ` set shipped_texts" "shipped_chord s = shipped_chord t"
  then have "(s, shipped_chord s) \<in> set shipped_texts" "(t, shipped_chord s) \<in> set shipped_texts"
    using shipped_text by metis+
  then show "s = t"
    using shipped_texts_distinct(2) inj_onD [of snd "set shipped_texts" "(s, shipped_chord s)" "(t, shipped_chord s)"]
    by (simp add: distinct_map)
qed

lemma defs_of_actions: "map action_def_of ALL_ACTIONS = CATALOG"
proof (rule nth_equalityI)
  have len: "length CATALOG = 46" using catalog_actions all_actions_length by (metis length_map)
  then show "length (map action_def_of ALL_ACTIONS) = length CATALOG" by (simp add: all_actions_length)
  fix i
  assume "i < length (map action_def_of ALL_ACTIONS)"
  then have "i < length ALL_ACTIONS" by simp
  then have "catalog_position (ALL_ACTIONS ! i) = i"
    using position_key_nth [of id ALL_ACTIONS i] all_actions_distinct by (simp add: catalog_position_def)
  then show "map action_def_of ALL_ACTIONS ! i = CATALOG ! i"
    using \<open>i < length ALL_ACTIONS\<close> by (simp add: action_def_of_def)
qed

lemma defaults_distinct: "distinct (concat (map default_chords ALL_ACTIONS))"
proof -
  let ?ts = "concat (map (\<lambda>a. af_default_bindings (action_def_of a)) ALL_ACTIONS)"
  have cat: "?ts = concat (map af_default_bindings CATALOG)"
    by (simp flip: defs_of_actions add: comp_def)
  have "concat (map default_chords ALL_ACTIONS) = map shipped_chord ?ts"
    by (simp add: default_chords_shipped [abs_def] map_concat comp_def)
  moreover have "inj_on shipped_chord (set ?ts)"
    using catalog_texts unfolding cat by (intro inj_on_subset [OF shipped_chord_inj]) (auto simp: list_all_iff)
  ultimately show ?thesis
    using catalog_texts_distinct unfolding cat by (simp add: distinct_map)
qed

lemma default_chords_ok [simp]: "chords_ok (default_chords a)"
proof -
  have "length CATALOG = 46" using catalog_actions all_actions_length by (metis length_map)
  then have "action_def_of a \<in> set CATALOG" using catalog_position_less [of a] by (simp add: action_def_of_def)
  then have "action_def_of a \<in> set (map action_def_of ALL_ACTIONS)" by (simp add: defs_of_actions)
  then obtain b where "b \<in> set ALL_ACTIONS" "action_def_of a = action_def_of b" by auto
  then have "default_chords a \<in> set (map default_chords ALL_ACTIONS)" by (auto simp: default_chords_shipped)
  then have "distinct (default_chords a)" using defaults_distinct by (simp add: distinct_concat_iff)
  moreover have "list_all chord_ok (default_chords a)"
    using default_texts [of _ a] shipped_texts_ok by (fastforce simp: default_chords_shipped list_all_iff)
  ultimately show ?thesis by (simp add: chords_ok_def)
qed

lemma defaults_disjoint:
  assumes "host_action_ok a" "host_action_ok b" "a \<noteq> b"
  shows "set (default_chords a) \<inter> set (default_chords b) = {}"
proof -
  obtain xs ys zs where "ALL_ACTIONS = xs @ a # ys @ b # zs \<or> ALL_ACTIONS = xs @ b # ys @ a # zs"
  proof -
    from assms(1) obtain us vs where a: "ALL_ACTIONS = us @ a # vs"
      by (auto simp: in_set_conv_decomp simp flip: all_actions_ok)
    from assms(2) have "b \<in> set ALL_ACTIONS" by (simp add: all_actions_ok)
    then have "b \<in> set us \<or> b \<in> set vs" using assms(3) unfolding a by auto
    then show thesis
    proof
      assume "b \<in> set us"
      then obtain ys zs where "us = ys @ b # zs" by (auto simp: in_set_conv_decomp)
      with a show thesis using that [of ys zs vs] by simp
    next
      assume "b \<in> set vs"
      then obtain ys zs where "vs = ys @ b # zs" by (auto simp: in_set_conv_decomp)
      with a show thesis using that [of us ys zs] by simp
    qed
  qed
  then have "distinct (concat (map default_chords (xs @ a # ys @ b # zs))) \<or>
      distinct (concat (map default_chords (xs @ b # ys @ a # zs)))"
    using defaults_distinct by presburger
  then show ?thesis by auto
qed

end
