(* ===== verification/Actions_Registry.thy ===== *)
theory Actions_Registry
  imports Actions_Keymap "HOL-Library.AList"
begin

text \<open>
  \<^verbatim>\<open>crates/modplayer-core/src/actions/registry.rs\<close>: which chord fires which action. The
  registry keeps the overrides and derives everything else from them in \<open>rebuild\<close>: the effective
  bindings, the index from chords to actions and the set of bindings in conflict. With it, the
  registration of a plugin's action by the controller
  (\<^verbatim>\<open>controller.rs\<close>, \<^verbatim>\<open>register_plugin_action\<close>, \<^verbatim>\<open>invoke_plugin_action\<close>).
  \<^verbatim>\<open>HashMap\<close> iteration only feeds a set here, so its order does not matter.
\<close>

section \<open>State\<close>

record plugin_action_def =
  px_id :: plugin_action_id
  px_owner :: u16
  px_tier :: owner_tier
  px_name :: ustring
  px_label :: ustring
  px_kind :: action_kind
  px_repeats_while_held :: bool
  px_default_binding :: "chord option"

record action_registry =
  rg_overrides :: keymap_overrides
  rg_enabled :: "bool list"
  rg_plugin_defs :: "(plugin_action_id \<times> plugin_action_def) list"
  rg_plugin_enabled :: "(plugin_action_id \<times> bool) list"
  rg_plugin_effective :: "(plugin_action_id \<times> chord list) list"
  rg_effective :: "chord list list"
  rg_index :: "(chord \<times> action_id list) list"
  rg_conflicts :: "(action_id \<times> chord) set"

datatype action_limit = ActionLimit

section \<open>Queries on one action\<close>

definition effective_of :: "action_registry \<Rightarrow> action_id \<Rightarrow> chord list" where
  "effective_of r i =
     (case i of
        HostActionId a \<Rightarrow> rg_effective r ! catalog_position a
      | PluginActionRef p \<Rightarrow> (case map_of (rg_plugin_effective r) p of Some cs \<Rightarrow> cs | None \<Rightarrow> []))"

definition enabled_of :: "action_registry \<Rightarrow> action_id \<Rightarrow> bool" where
  "enabled_of r i =
     (case i of
        HostActionId a \<Rightarrow> rg_enabled r ! catalog_position a
      | PluginActionRef p \<Rightarrow> (case map_of (rg_plugin_enabled r) p of Some b \<Rightarrow> b | None \<Rightarrow> False))"

definition tier_of :: "action_registry \<Rightarrow> action_id \<Rightarrow> owner_tier" where
  "tier_of r i =
     (case i of
        HostActionId _ \<Rightarrow> HostTier
      | PluginActionRef p \<Rightarrow> (case map_of (rg_plugin_defs r) p of Some d \<Rightarrow> px_tier d | None \<Rightarrow> Community))"

definition scope_of :: "action_id \<Rightarrow> scope" where
  "scope_of i = (case i of HostActionId a \<Rightarrow> af_scope (action_def_of a) | PluginActionRef _ \<Rightarrow> AppScope)"

section \<open>Rebuilding\<close>

definition host_effective :: "keymap_overrides \<Rightarrow> chord list list" where
  "host_effective o1 =
     map (\<lambda>a. case overrides_get a o1 of Some cs \<Rightarrow> cs | None \<Rightarrow> default_chords a) ALL_ACTIONS"

definition plugin_effective ::
  "keymap_overrides \<Rightarrow> (plugin_action_id \<times> plugin_action_def) list \<Rightarrow> (plugin_action_id \<times> chord list) list" where
  "plugin_effective o1 defs =
     map (\<lambda>(p, d). (p, case get_plugin p o1 of
                        Some cs \<Rightarrow> cs
                      | None \<Rightarrow> (case px_default_binding d of Some c \<Rightarrow> [c] | None \<Rightarrow> []))) defs"

definition index_push :: "action_id \<times> chord \<Rightarrow> (chord \<times> action_id list) list \<Rightarrow> (chord \<times> action_id list) list" where
  "index_push e ix =
     AList.update (snd e) ((case map_of ix (snd e) of Some ids \<Rightarrow> ids | None \<Rightarrow> []) @ [fst e]) ix"

definition host_entries :: "bool list \<Rightarrow> chord list list \<Rightarrow> (action_id \<times> chord) list" where
  "host_entries enabled effective =
     concat (map (\<lambda>(i, a). if \<not> enabled ! i then [] else map (\<lambda>c. (HostActionId a, c)) (effective ! i))
       (enumerate 0 ALL_ACTIONS))"

definition plugin_entries ::
  "(plugin_action_id \<times> bool) list \<Rightarrow> (plugin_action_id \<times> chord list) list \<Rightarrow> (action_id \<times> chord) list" where
  "plugin_entries enabled effective =
     concat (map (\<lambda>(p, cs).
         if \<not> (case map_of enabled p of Some b \<Rightarrow> b | None \<Rightarrow> False) then []
         else map (\<lambda>c. (PluginActionRef p, c)) cs) effective)"

definition contenders :: "action_id list \<Rightarrow> action_id list" where
  "contenders ids =
     filter (\<lambda>i. list_ex (\<lambda>other. other \<noteq> i \<and> can_coexist (scope_of i) (scope_of other)) ids) ids"

definition conflicts_on :: "(action_id \<Rightarrow> owner_tier) \<Rightarrow> chord \<times> action_id list \<Rightarrow> (action_id \<times> chord) set" where
  "conflicts_on tier e =
     (let ids = snd e; rivals = contenders ids
      in if length ids < 2 \<or> length rivals < 2 then {}
         else let top = Max (set (map tier rivals));
                  top_count = length (filter (\<lambda>i. tier i = top) rivals)
              in set (map (\<lambda>i. (i, fst e)) (filter (\<lambda>i. 2 \<le> top_count \<or> tier i \<noteq> top) rivals)))"

definition rebuild :: "action_registry \<Rightarrow> action_registry" where
  "rebuild r =
     (let effective = host_effective (rg_overrides r);
          effective' = plugin_effective (rg_overrides r) (rg_plugin_defs r);
          index = fold index_push
            (host_entries (rg_enabled r) effective @ plugin_entries (rg_plugin_enabled r) effective') []
      in r\<lparr>rg_effective := effective, rg_plugin_effective := effective', rg_index := index,
           rg_conflicts := \<Union> (set (map (conflicts_on (tier_of r)) index))\<rparr>)"

definition registry_new :: "keymap_overrides \<Rightarrow> action_registry" where
  "registry_new o1 =
     rebuild \<lparr>rg_overrides = o1, rg_enabled = map (\<lambda>a. af_enabled_by_default (action_def_of a)) ALL_ACTIONS,
       rg_plugin_defs = [], rg_plugin_enabled = [], rg_plugin_effective = [], rg_effective = [],
       rg_index = [], rg_conflicts = {}\<rparr>"

section \<open>Operations\<close>

definition registry_set_enabled :: "host_action \<Rightarrow> bool \<Rightarrow> action_registry \<Rightarrow> action_registry" where
  "registry_set_enabled a b r = rebuild (r\<lparr>rg_enabled := (rg_enabled r)[catalog_position a := b]\<rparr>)"

definition set_effective :: "action_id \<Rightarrow> chord list \<Rightarrow> action_registry \<Rightarrow> action_registry" where
  "set_effective i chords r =
     (case i of
        HostActionId a \<Rightarrow> r\<lparr>rg_overrides := overrides_set a chords (rg_overrides r)\<rparr>
      | PluginActionRef p \<Rightarrow>
          (let dflt = (case map_of (rg_plugin_defs r) p of Some d \<Rightarrow> px_default_binding d | None \<Rightarrow> None)
           in r\<lparr>rg_overrides := set_plugin p chords dflt (rg_overrides r)\<rparr>))"

definition add_binding :: "action_id \<Rightarrow> chord \<Rightarrow> action_registry \<Rightarrow> binding_error + action_registry" where
  "add_binding i chord r =
     (let current = effective_of r i
      in if chord \<in> set current then Inl DuplicateBinding
         else Inr (rebuild (set_effective i (current @ [chord]) r)))"

definition remove_binding :: "action_id \<Rightarrow> chord \<Rightarrow> action_registry \<Rightarrow> action_registry" where
  "remove_binding i chord r =
     (let current = effective_of r i
      in if chord \<notin> set current then r
         else rebuild (set_effective i (filter (\<lambda>c. c \<noteq> chord) current) r))"

definition reset_binding :: "action_id \<Rightarrow> action_registry \<Rightarrow> action_registry" where
  "reset_binding i r =
     rebuild (r\<lparr>rg_overrides :=
       (case i of
          HostActionId a \<Rightarrow> overrides_remove a (rg_overrides r)
        | PluginActionRef p \<Rightarrow> overrides_remove_plugin p (rg_overrides r))\<rparr>)"

definition reset_all :: "action_registry \<Rightarrow> action_registry" where
  "reset_all r =
     rebuild (r\<lparr>rg_overrides :=
       fold (\<lambda>(p, chords). set_plugin p chords
               (case map_of (rg_plugin_defs r) p of Some d \<Rightarrow> px_default_binding d | None \<Rightarrow> None))
         (ko_plugin (rg_overrides r)) overrides_default\<rparr>)"

definition is_conflicting :: "action_registry \<Rightarrow> action_id \<Rightarrow> chord \<Rightarrow> bool" where
  "is_conflicting r i chord \<longleftrightarrow> (i, chord) \<in> rg_conflicts r"

definition conflict_partner :: "action_registry \<Rightarrow> action_id \<Rightarrow> chord \<Rightarrow> action_id option" where
  "conflict_partner r i chord =
     (if \<not> is_conflicting r i chord then None
      else case map_of (rg_index r) chord of
             None \<Rightarrow> None
           | Some ids \<Rightarrow> find (\<lambda>other. other \<noteq> i) ids)"

definition resolve :: "action_registry \<Rightarrow> chord \<Rightarrow> scope_state \<Rightarrow> action_id option" where
  "resolve r chord state =
     (case map_of (rg_index r) chord of
        None \<Rightarrow> None
      | Some candidates \<Rightarrow> find (\<lambda>i. is_live (scope_of i) state \<and> (i, chord) \<notin> rg_conflicts r) candidates)"

definition plugin_action_registered :: "action_registry \<Rightarrow> plugin_action_id \<Rightarrow> bool" where
  "plugin_action_registered r p \<longleftrightarrow> map_of (rg_plugin_defs r) p \<noteq> None"

definition plugin_action_def_of :: "action_registry \<Rightarrow> plugin_action_id \<Rightarrow> plugin_action_def option" where
  "plugin_action_def_of r p = map_of (rg_plugin_defs r) p"

definition action_repeats :: "action_registry \<Rightarrow> action_id \<Rightarrow> bool" where
  "action_repeats r i =
     (case i of
        HostActionId a \<Rightarrow> af_repeats_while_held (action_def_of a)
      | PluginActionRef p \<Rightarrow>
          (case map_of (rg_plugin_defs r) p of Some d \<Rightarrow> px_repeats_while_held d | None \<Rightarrow> False))"

definition is_invocable :: "action_registry \<Rightarrow> action_id \<Rightarrow> bool" where
  "is_invocable r i \<longleftrightarrow> enabled_of r i \<and> \<not> list_ex (\<lambda>c. (i, c) \<in> rg_conflicts r) (effective_of r i)"

definition owned_ids :: "u16 \<Rightarrow> action_registry \<Rightarrow> plugin_action_id list" where
  "owned_ids owner r = map fst (filter (\<lambda>(_, d). px_owner d = owner) (rg_plugin_defs r))"

definition register_action :: "plugin_action_def \<Rightarrow> action_registry \<Rightarrow> action_limit + action_registry" where
  "register_action d r =
     (if map_of (rg_plugin_defs r) (px_id d) = None
      then if length (owned_ids (px_owner d) r) \<ge> MAX_ACTIONS_PER_PLUGIN then Inl ActionLimit
           else Inr (rebuild (r\<lparr>rg_overrides := adopt_dormant (px_id d) (rg_overrides r),
                       rg_plugin_enabled := tree_insert (px_id d) True (rg_plugin_enabled r),
                       rg_plugin_defs := tree_insert (px_id d) d (rg_plugin_defs r)\<rparr>))
      else Inr (rebuild (r\<lparr>rg_plugin_defs := tree_insert (px_id d) d (rg_plugin_defs r)\<rparr>)))"

definition unregister_one :: "plugin_action_id \<Rightarrow> action_registry \<Rightarrow> action_registry" where
  "unregister_one p r =
     r\<lparr>rg_plugin_defs := tree_remove p (rg_plugin_defs r),
       rg_plugin_enabled := tree_remove p (rg_plugin_enabled r),
       rg_overrides := park p (rg_overrides r)\<rparr>"

definition unregister_plugin_actions :: "u16 \<Rightarrow> action_registry \<Rightarrow> action_registry" where
  "unregister_plugin_actions owner r = rebuild (fold unregister_one (owned_ids owner r) r)"

definition set_plugin_enabled :: "u16 \<Rightarrow> bool \<Rightarrow> action_registry \<Rightarrow> action_registry" where
  "set_plugin_enabled owner enabled r =
     (let ids = owned_ids owner r
      in if ids = [] then r
         else rebuild (r\<lparr>rg_plugin_enabled := fold (\<lambda>p. tree_insert p enabled) ids (rg_plugin_enabled r)\<rparr>))"

section \<open>The rows of the shortcut map\<close>

datatype row_label = FluentLabel string | LiteralLabel ustring
datatype row_category = HostCategory action_category | PluginCategory ustring

record action_row =
  aw_id :: action_id
  aw_label :: row_label
  aw_category :: row_category
  aw_kind :: action_kind
  aw_owner_tier :: owner_tier
  aw_enabled :: bool
  aw_bindings :: "chord list"
  aw_conflicts :: "chord list"

definition host_row :: "action_registry \<Rightarrow> nat \<times> host_action \<Rightarrow> action_row" where
  "host_row r e =
     (let i = fst e; a = snd e; bindings = rg_effective r ! i
      in \<lparr>aw_id = HostActionId a, aw_label = FluentLabel (af_label_key (action_def_of a)),
          aw_category = HostCategory (af_category (action_def_of a)), aw_kind = af_kind (action_def_of a),
          aw_owner_tier = HostTier, aw_enabled = rg_enabled r ! i, aw_bindings = bindings,
          aw_conflicts = filter (\<lambda>c. (HostActionId a, c) \<in> rg_conflicts r) bindings\<rparr>)"

definition plugin_row :: "action_registry \<Rightarrow> plugin_action_def \<Rightarrow> action_row" where
  "plugin_row r d =
     (let i = PluginActionRef (px_id d); bindings = effective_of r i
      in \<lparr>aw_id = i, aw_label = LiteralLabel (px_label d), aw_category = PluginCategory (px_name d),
          aw_kind = px_kind d, aw_owner_tier = px_tier d, aw_enabled = enabled_of r i, aw_bindings = bindings,
          aw_conflicts = filter (\<lambda>c. (i, c) \<in> rg_conflicts r) bindings\<rparr>)"

definition row_owners :: "action_registry \<Rightarrow> (u16 \<times> ustring) list" where
  "row_owners r =
     sort_key snd
       (fold (\<lambda>(_, d) owners.
           if px_owner d \<in> set (map fst owners) then owners else owners @ [(px_owner d, px_name d)])
         (rg_plugin_defs r) [])"

definition rows :: "action_registry \<Rightarrow> action_row list" where
  "rows r =
     map (host_row r) (enumerate 0 ALL_ACTIONS) @
     concat (map (\<lambda>(owner, _).
         map (plugin_row r)
           (sort_key px_label (filter (\<lambda>d. px_owner d = owner) (map snd (rg_plugin_defs r)))))
       (row_owners r))"

section \<open>The controller's side\<close>

record action_spec =
  sp_id :: ustring
  sp_label :: ustring
  sp_kind :: action_kind
  sp_repeats_while_held :: bool
  sp_default_binding :: "ustring option"

datatype action_refusal = RefusedInvalidLabel | RefusedUnknownPlugin | RefusedInvalidId | RefusedActionLimit

text \<open>\<open>sp_id\<close> is a \<^verbatim>\<open>UiId\<close>: what \<open>ui_id_parse\<close> accepts.\<close>

definition ui_id_parse :: "ustring \<Rightarrow> ustring option" where
  "ui_id_parse s = (if matches_id_grammar s then Some s else None)"

definition MAX_LABEL_CHARS :: nat where "MAX_LABEL_CHARS = 256"

definition validate_action :: "action_spec \<Rightarrow> bool" where
  "validate_action spec \<longleftrightarrow> \<not> (trim (sp_label spec) = [] \<or> length (sp_label spec) > MAX_LABEL_CHARS)"

text \<open>The binding an action is registered with, and whether the console gets the warning that the
  text given cannot be bound.\<close>

definition bindable_default :: "ustring option \<Rightarrow> chord option \<times> bool" where
  "bindable_default raw =
     (case raw of
        None \<Rightarrow> (None, False)
      | Some s \<Rightarrow>
          (case chord_parse s of
             Inr c \<Rightarrow> if capture_would_reject c then (None, True) else (Some c, False)
           | Inl _ \<Rightarrow> (None, True)))"

text \<open>The warning goes to the console before the registry is asked, so it is part of every answer.\<close>

definition controller_register_action ::
  "ustring option \<Rightarrow> ustring \<Rightarrow> u16 \<Rightarrow> action_spec \<Rightarrow> action_registry \<Rightarrow>
   bool \<times> (action_refusal + action_registry)" where
  "controller_register_action identifier name plugin spec r =
     (case identifier of
        None \<Rightarrow> (False, Inl RefusedUnknownPlugin)
      | Some ident \<Rightarrow>
          (case plugin_action_parse (ident @ 46 # sp_id spec) of
             None \<Rightarrow> (False, Inl RefusedInvalidId)
           | Some i \<Rightarrow>
               (let (dflt, warned) = bindable_default (sp_default_binding spec);
                    d = \<lparr>px_id = i, px_owner = plugin, px_tier = Bundled, px_name = name, px_label = sp_label spec,
                         px_kind = sp_kind spec, px_repeats_while_held = sp_repeats_while_held spec,
                         px_default_binding = dflt\<rparr>
                in (warned,
                    case register_action d r of
                      Inl ActionLimit \<Rightarrow> Inl RefusedActionLimit
                    | Inr r' \<Rightarrow> Inr r'))))"

text \<open>The \<^verbatim>\<open>RegisterAction\<close> arm of \<^verbatim>\<open>plugins/apply.rs\<close>, its label already resolved against the
  manifest.\<close>

definition dispatch_register_action ::
  "ustring option \<Rightarrow> ustring \<Rightarrow> u16 \<Rightarrow> action_spec \<Rightarrow> action_registry \<Rightarrow>
   bool \<times> (action_refusal + action_registry)" where
  "dispatch_register_action identifier name plugin spec r =
     (if \<not> validate_action spec then (False, Inl RefusedInvalidLabel)
      else controller_register_action identifier name plugin spec r)"

text \<open>\<^verbatim>\<open>invoke_plugin_action\<close>: the owner the event goes to, the action's text and the value, for
  a plugin with a running handle.\<close>

definition invoke_plugin_action :: "(u16 \<Rightarrow> bool) \<Rightarrow> plugin_action_id \<Rightarrow> action_registry \<Rightarrow> (u16 \<times> ustring \<times> bool) option" where
  "invoke_plugin_action has_handle p r =
     (if \<not> is_invocable r (PluginActionRef p) then None
      else case map_of (rg_plugin_defs r) p of
             None \<Rightarrow> None
           | Some d \<Rightarrow>
               if has_handle (px_owner d)
               then Some (px_owner d, plugin_action_key p, px_kind d = ContinuousAction) else None)"

section \<open>What the index holds\<close>

definition ids_at :: "action_registry \<Rightarrow> chord \<Rightarrow> action_id list" where
  "ids_at r c = (case map_of (rg_index r) c of Some ids \<Rightarrow> ids | None \<Rightarrow> [])"

lemma index_push_lookup:
  "map_of (index_push e ix) =
     (map_of ix)(snd e \<mapsto> (case map_of ix (snd e) of Some ids \<Rightarrow> ids | None \<Rightarrow> []) @ [fst e])"
  by (simp add: index_push_def update_conv')

lemma index_fold_lookup:
  "(case map_of (fold index_push es ix) c of Some ids \<Rightarrow> ids | None \<Rightarrow> []) =
   (case map_of ix c of Some ids \<Rightarrow> ids | None \<Rightarrow> []) @ map fst (filter (\<lambda>e. snd e = c) es)"
  by (induction es arbitrary: ix) (auto simp: index_push_lookup)

lemma index_fold_keys:
  "distinct (map fst ix) \<Longrightarrow> distinct (map fst (fold index_push es ix))"
  by (induction es arbitrary: ix) (auto simp: index_push_def distinct_update)

lemma index_fold_nonempty:
  "(\<And>c ids. map_of ix c = Some ids \<Longrightarrow> ids \<noteq> []) \<Longrightarrow> map_of (fold index_push es ix) c = Some ids \<Longrightarrow> ids \<noteq> []"
proof (induction es arbitrary: ix)
  case (Cons e es)
  show ?case
    by (rule Cons.IH [of "index_push e ix"]) (use Cons.prems in \<open>auto simp: index_push_lookup split: if_splits\<close>)
qed simp

definition entries_of :: "action_registry \<Rightarrow> (action_id \<times> chord) list" where
  "entries_of r =
     host_entries (rg_enabled r) (host_effective (rg_overrides r)) @
     plugin_entries (rg_plugin_enabled r) (plugin_effective (rg_overrides r) (rg_plugin_defs r))"

lemma rebuild_fields [simp]:
  "rg_overrides (rebuild r) = rg_overrides r" "rg_enabled (rebuild r) = rg_enabled r"
  "rg_plugin_defs (rebuild r) = rg_plugin_defs r" "rg_plugin_enabled (rebuild r) = rg_plugin_enabled r"
  "rg_effective (rebuild r) = host_effective (rg_overrides r)"
  "rg_plugin_effective (rebuild r) = plugin_effective (rg_overrides r) (rg_plugin_defs r)"
  "rg_index (rebuild r) = fold index_push (entries_of r) []"
  "rg_conflicts (rebuild r) = \<Union> (set (map (conflicts_on (tier_of r)) (fold index_push (entries_of r) [])))"
  by (simp_all add: rebuild_def Let_def entries_of_def)

definition coherent :: "action_registry \<Rightarrow> bool" where
  "coherent r \<longleftrightarrow> rebuild r = r"

lemma tier_of_cong: "rg_plugin_defs r = rg_plugin_defs s \<Longrightarrow> tier_of r = tier_of s"
  by (auto simp: tier_of_def fun_eq_iff split: action_id.split)

lemma rebuild_cong:
  assumes "rg_overrides r = rg_overrides s" "rg_enabled r = rg_enabled s" "rg_plugin_defs r = rg_plugin_defs s"
    "rg_plugin_enabled r = rg_plugin_enabled s"
  shows "rebuild r = rebuild s"
  by (rule action_registry.equality) (use assms tier_of_cong [of r s] in \<open>simp_all add: entries_of_def\<close>)

lemma coherent_rebuild [simp]: "coherent (rebuild r)"
  unfolding coherent_def by (rule rebuild_cong) simp_all

lemma coherent_eqI:
  assumes "coherent r" "coherent s" "rg_overrides r = rg_overrides s" "rg_enabled r = rg_enabled s"
    "rg_plugin_defs r = rg_plugin_defs s" "rg_plugin_enabled r = rg_plugin_enabled s"
  shows "r = s"
  using rebuild_cong [of r s] assms by (simp add: coherent_def)

lemma ids_at_entries:
  assumes "coherent r"
  shows "ids_at r c = map fst (filter (\<lambda>e. snd e = c) (entries_of r))"
proof -
  have "rg_index r = fold index_push (entries_of r) []"
    using assms rebuild_fields(7) [of r] by (simp add: coherent_def)
  then show ?thesis using index_fold_lookup [of "entries_of r" "[]" c] by (simp add: ids_at_def)
qed

lemma find_ids_at:
  assumes "coherent r"
  shows "resolve r c st = find (\<lambda>i. is_live (scope_of i) st \<and> (i, c) \<notin> rg_conflicts r) (ids_at r c)"
  by (simp add: resolve_def ids_at_def split: option.split)

lemma conflicts_at:
  assumes "coherent r"
  shows "(i, c) \<in> rg_conflicts r \<longleftrightarrow> (i, c) \<in> conflicts_on (tier_of r) (c, ids_at r c)"
proof -
  let ?ix = "fold index_push (entries_of r) []"
  have ix: "rg_index r = ?ix" "rg_conflicts r = \<Union> (set (map (conflicts_on (tier_of r)) ?ix))"
    using assms rebuild_fields(7,8) [of r] by (simp_all add: coherent_def)
  have keys: "distinct (map fst ?ix)" by (rule index_fold_keys) simp
  have key: "d = c" if "(i, c) \<in> conflicts_on (tier_of r) (d, ids)" for d ids
    using that by (auto simp: conflicts_on_def Let_def split: if_splits)
  show ?thesis
  proof
    assume "(i, c) \<in> rg_conflicts r"
    then obtain d ids where at: "(d, ids) \<in> set ?ix" "(i, c) \<in> conflicts_on (tier_of r) (d, ids)"
      by (auto simp: ix(2))
    then have "d = c" by (blast dest: key)
    with at keys have "map_of ?ix c = Some ids" by simp
    with at \<open>d = c\<close> show "(i, c) \<in> conflicts_on (tier_of r) (c, ids_at r c)"
      by (simp add: ids_at_def ix(1))
  next
    assume at: "(i, c) \<in> conflicts_on (tier_of r) (c, ids_at r c)"
    then have "ids_at r c \<noteq> []" by (auto simp: conflicts_on_def Let_def)
    then have "(c, ids_at r c) \<in> set ?ix"
      by (auto simp: ids_at_def ix(1) split: option.splits dest: map_of_SomeD)
    with at show "(i, c) \<in> rg_conflicts r" by (force simp: ix(2))
  qed
qed

end
