(* ===== verification/Actions_Invariant.thy ===== *)
theory Actions_Invariant
  imports Actions_Registry
begin

text \<open>
  What the registry maintains. \<open>registry_ok\<close> is its invariant: the derived fields are those of
  \<open>rebuild\<close>, the tables are sorted, an action has one definition and at most 64 belong to a plugin.
  Under it a chord fires the action of the highest tier that holds it, if there is only one such.
\<close>

section \<open>Holding a chord\<close>

definition action_exists :: "action_id \<Rightarrow> bool" where
  "action_exists i = (case i of HostActionId a \<Rightarrow> host_action_ok a | PluginActionRef _ \<Rightarrow> True)"

definition holds :: "action_registry \<Rightarrow> chord \<Rightarrow> action_id \<Rightarrow> bool" where
  "holds r c i \<longleftrightarrow> action_exists i \<and> enabled_of r i \<and> c \<in> set (effective_of r i)"

definition plugin_def_ok :: "plugin_action_id \<Rightarrow> plugin_action_def \<Rightarrow> bool" where
  "plugin_def_ok p d \<longleftrightarrow> px_id d = p \<and> plugin_action_ok p \<and> px_tier d \<noteq> HostTier \<and>
     (case px_default_binding d of Some c \<Rightarrow> chord_ok c | None \<Rightarrow> True)"

definition registry_ok :: "action_registry \<Rightarrow> bool" where
  "registry_ok r \<longleftrightarrow>
     coherent r \<and> overrides_ok (rg_overrides r) \<and> length (rg_enabled r) = 46 \<and>
     tree_ok (rg_plugin_defs r) \<and> tree_ok (rg_plugin_enabled r) \<and>
     map fst (rg_plugin_enabled r) = map fst (rg_plugin_defs r) \<and>
     list_all (\<lambda>(p, d). plugin_def_ok p d \<and> map_of (ko_dormant (rg_overrides r)) (plugin_action_key p) = None)
       (rg_plugin_defs r) \<and>
     (\<forall>owner. length (owned_ids owner r) \<le> MAX_ACTIONS_PER_PLUGIN)"

lemma registry_okD:
  assumes "registry_ok r"
  shows "coherent r" "overrides_ok (rg_overrides r)" "length (rg_enabled r) = 46" "tree_ok (rg_plugin_defs r)"
    "tree_ok (rg_plugin_enabled r)" "map fst (rg_plugin_enabled r) = map fst (rg_plugin_defs r)"
  using assms by (simp_all add: registry_ok_def)

lemma coherent_fields:
  assumes "coherent r"
  shows "rg_effective r = host_effective (rg_overrides r)"
    "rg_plugin_effective r = plugin_effective (rg_overrides r) (rg_plugin_defs r)"
  using assms rebuild_fields(5,6) [of r] by (simp_all add: coherent_def)

lemma effective_host:
  assumes "coherent r" "host_action_ok a"
  shows "effective_of r (HostActionId a) =
    (case overrides_get a (rg_overrides r) of Some cs \<Rightarrow> cs | None \<Rightarrow> default_chords a)"
  using catalog_position_less [of a] catalog_position_nth [OF assms(2)]
  by (simp add: effective_of_def coherent_fields [OF assms(1)] host_effective_def all_actions_length
      split: option.split)

lemma effective_plugin:
  assumes "coherent r"
  shows "effective_of r (PluginActionRef p) =
    (case map_of (rg_plugin_defs r) p of
       None \<Rightarrow> []
     | Some d \<Rightarrow> (case get_plugin p (rg_overrides r) of
                    Some cs \<Rightarrow> cs
                  | None \<Rightarrow> (case px_default_binding d of Some c \<Rightarrow> [c] | None \<Rightarrow> [])))"
proof -
  have "map_of (map (\<lambda>(k, v). (k, f k v)) m) p = map_option (f p) (map_of m p)"
    for f :: "plugin_action_id \<Rightarrow> plugin_action_def \<Rightarrow> chord list" and m
    by (induction m) auto
  then show ?thesis
    by (simp add: effective_of_def coherent_fields [OF assms] plugin_effective_def split: option.split)
qed

lemma effective_ok:
  assumes "registry_ok r" "action_exists i"
  shows "chords_ok (effective_of r i)"
proof (cases i)
  case (HostActionId a)
  with assms registry_okD [OF assms(1)] show ?thesis
    by (auto simp: action_exists_def effective_host overrides_get_def overrides_ok_def split: option.split
        dest: list_all_map_of)
next
  case (PluginActionRef p)
  have "chords_ok (case px_default_binding d of Some c \<Rightarrow> [c] | None \<Rightarrow> [])"
    if "map_of (rg_plugin_defs r) p = Some d" for d
    using assms(1) that by (auto simp: registry_ok_def plugin_def_ok_def chords_ok_def split: option.split
        dest!: list_all_map_of)
  moreover have "chords_ok cs" if "map_of (ko_plugin (rg_overrides r)) p = Some cs" for cs
    using registry_okD(2) [OF assms(1)] that by (auto simp: overrides_ok_def dest: list_all_map_of)
  ultimately show ?thesis
    using PluginActionRef registry_okD(1) [OF assms(1)]
    by (auto simp: effective_plugin get_plugin_def chords_ok_def split: option.split)
qed

section \<open>The candidates of a chord\<close>

lemma host_entries_iff:
  "(i, c) \<in> set (host_entries enabled eff) \<longleftrightarrow>
   (\<exists>a. i = HostActionId a \<and> host_action_ok a \<and> enabled ! catalog_position a \<and> c \<in> set (eff ! catalog_position a))"
  (is "?L \<longleftrightarrow> ?R")
proof
  assume ?L
  then obtain n where n: "n < length ALL_ACTIONS" "enabled ! n" "i = HostActionId (ALL_ACTIONS ! n)" "c \<in> set (eff ! n)"
    by (auto simp: host_entries_def in_set_enumerate_eq split: if_splits)
  then have "catalog_position (ALL_ACTIONS ! n) = n"
    using position_key_nth [of id ALL_ACTIONS n] all_actions_distinct by (simp add: catalog_position_def)
  with n show ?R by (auto simp flip: all_actions_ok)
next
  assume ?R
  then obtain a where a: "i = HostActionId a" "host_action_ok a" "enabled ! catalog_position a"
    "c \<in> set (eff ! catalog_position a)" by blast
  then have "(catalog_position a, a) \<in> set (enumerate 0 ALL_ACTIONS)"
    using catalog_position_nth [of a] catalog_position_less [of a]
    by (simp add: in_set_enumerate_eq all_actions_length)
  with a show ?L by (force simp: host_entries_def)
qed

lemma plugin_entries_iff:
  "(i, c) \<in> set (plugin_entries enabled eff) \<longleftrightarrow>
   (\<exists>p cs. i = PluginActionRef p \<and> (p, cs) \<in> set eff \<and> map_of enabled p = Some True \<and> c \<in> set cs)"
  by (force simp: plugin_entries_def split: if_splits option.splits)

lemma candidates:
  assumes "registry_ok r"
  shows "i \<in> set (ids_at r c) \<longleftrightarrow> holds r c i"
proof -
  note ok = registry_okD [OF assms]
  have "i \<in> set (ids_at r c) \<longleftrightarrow> (i, c) \<in> set (entries_of r)"
    by (force simp: ids_at_entries [OF ok(1)])
  also have "\<dots> \<longleftrightarrow> holds r c i"
  proof (cases i)
    case (HostActionId a)
    then show ?thesis
      by (auto simp: entries_of_def host_entries_iff plugin_entries_iff holds_def action_exists_def enabled_of_def
          effective_of_def coherent_fields [OF ok(1)])
  next
    case (PluginActionRef p)
    have "distinct (map fst (plugin_effective (rg_overrides r) (rg_plugin_defs r)))"
      using tree_ok_distinct [OF ok(4)] by (simp add: plugin_effective_def comp_def case_prod_unfold)
    with PluginActionRef show ?thesis
      by (auto simp: entries_of_def host_entries_iff plugin_entries_iff holds_def action_exists_def enabled_of_def
          effective_of_def coherent_fields [OF ok(1)] split: option.splits)
  qed
  finally show ?thesis .
qed

lemma distinct_blocks:
  "distinct (map key xs) \<Longrightarrow> (\<And>x. x \<in> set xs \<Longrightarrow> distinct (g x) \<and> (\<forall>e\<in>set (g x). fst e = key x)) \<Longrightarrow>
   distinct (concat (map g xs))"
proof (induction xs)
  case (Cons x xs)
  have "set (g x) \<inter> set (concat (map g xs)) = {}"
  proof (rule ccontr)
    assume "set (g x) \<inter> set (concat (map g xs)) \<noteq> {}"
    then obtain e y where "e \<in> set (g x)" "y \<in> set xs" "e \<in> set (g y)" by auto
    with Cons.prems(2) [of x] Cons.prems(2) [of y] have "key x = key y" by auto
    with Cons.prems(1) \<open>y \<in> set xs\<close> show False by force
  qed
  with Cons show ?case by simp
qed simp

lemma candidates_distinct:
  assumes "registry_ok r"
  shows "distinct (ids_at r c)"
proof -
  note ok = registry_okD [OF assms]
  have host: "distinct (host_entries (rg_enabled r) (host_effective (rg_overrides r)))"
    unfolding host_entries_def
  proof (rule distinct_blocks [where key = "HostActionId \<circ> snd"])
    show "distinct (map (HostActionId \<circ> snd) (enumerate 0 ALL_ACTIONS))"
      using all_actions_distinct by (simp add: distinct_map inj_on_def flip: map_map)
    fix x assume "x \<in> set (enumerate 0 ALL_ACTIONS)"
    then have "x = (fst x, ALL_ACTIONS ! fst x)" "fst x < 46"
      by (simp_all add: in_set_enumerate_eq all_actions_length)
    then obtain n where x: "x = (n, ALL_ACTIONS ! n)" "n < 46" by blast
    then have "host_action_ok (ALL_ACTIONS ! n)"
      by (simp add: all_actions_length flip: all_actions_ok)
    moreover have "catalog_position (ALL_ACTIONS ! n) = n"
      using position_key_nth [of id ALL_ACTIONS n] all_actions_distinct x(2)
      by (simp add: catalog_position_def all_actions_length)
    ultimately have "chords_ok (host_effective (rg_overrides r) ! n)"
      using effective_ok [OF assms, of "HostActionId (ALL_ACTIONS ! n)"]
      by (simp add: action_exists_def effective_of_def coherent_fields [OF ok(1)])
    then show "distinct (case x of (i, a) \<Rightarrow> if \<not> rg_enabled r ! i then []
        else map (\<lambda>c. (HostActionId a, c)) (host_effective (rg_overrides r) ! i)) \<and>
      (\<forall>e\<in>set (case x of (i, a) \<Rightarrow> if \<not> rg_enabled r ! i then []
        else map (\<lambda>c. (HostActionId a, c)) (host_effective (rg_overrides r) ! i)). fst e = (HostActionId \<circ> snd) x)"
      by (auto simp: x(1) distinct_map inj_on_def chords_ok_def)
  qed
  have plugin: "distinct (plugin_entries (rg_plugin_enabled r) (plugin_effective (rg_overrides r) (rg_plugin_defs r)))"
    unfolding plugin_entries_def
  proof (rule distinct_blocks [where key = "PluginActionRef \<circ> fst"])
    have keys: "distinct (map fst (plugin_effective (rg_overrides r) (rg_plugin_defs r)))"
      using tree_ok_distinct [OF ok(4)] by (simp add: plugin_effective_def comp_def case_prod_unfold)
    then show "distinct (map (PluginActionRef \<circ> fst) (plugin_effective (rg_overrides r) (rg_plugin_defs r)))"
      by (simp add: distinct_map inj_on_def flip: map_map)
    fix x assume x: "x \<in> set (plugin_effective (rg_overrides r) (rg_plugin_defs r))"
    then have "map_of (rg_plugin_effective r) (fst x) = Some (snd x)"
      using keys by (simp add: coherent_fields [OF ok(1)])
    then have "effective_of r (PluginActionRef (fst x)) = snd x" by (simp add: effective_of_def)
    then have "chords_ok (snd x)"
      using effective_ok [OF assms, of "PluginActionRef (fst x)"] by (simp add: action_exists_def)
    then show "distinct (case x of (p, cs) \<Rightarrow>
        if \<not> (case map_of (rg_plugin_enabled r) p of Some b \<Rightarrow> b | None \<Rightarrow> False) then []
        else map (\<lambda>c. (PluginActionRef p, c)) cs) \<and>
      (\<forall>e\<in>set (case x of (p, cs) \<Rightarrow>
        if \<not> (case map_of (rg_plugin_enabled r) p of Some b \<Rightarrow> b | None \<Rightarrow> False) then []
        else map (\<lambda>c. (PluginActionRef p, c)) cs). fst e = (PluginActionRef \<circ> fst) x)"
      by (cases x) (auto simp: distinct_map inj_on_def chords_ok_def)
  qed
  have "distinct (entries_of r)"
    using host plugin by (auto simp: entries_of_def host_entries_iff plugin_entries_iff)
  then have "distinct (filter (\<lambda>e. snd e = c) (entries_of r))" by simp
  moreover have "inj_on fst (set (filter (\<lambda>e. snd e = c) (entries_of r)))"
    by (auto simp: inj_on_def prod_eq_iff)
  ultimately show ?thesis by (simp add: ids_at_entries [OF ok(1)] distinct_map)
qed

section \<open>Conflicts\<close>

lemma two_elements: "distinct xs \<Longrightarrow> a \<in> set xs \<Longrightarrow> b \<in> set xs \<Longrightarrow> a \<noteq> b \<Longrightarrow> 2 \<le> length xs"
  by (cases xs; cases "tl xs") auto

lemma other_element: "distinct xs \<Longrightarrow> 2 \<le> length xs \<Longrightarrow> \<exists>b\<in>set xs. b \<noteq> a"
  by (cases xs; cases "tl xs") auto

lemma contenders_all: "distinct ids \<Longrightarrow> 2 \<le> length ids \<Longrightarrow> contenders ids = ids"
  using other_element by (fastforce simp: contenders_def list_ex_iff intro!: filter_True)

lemma conflicts_on_iff:
  assumes "distinct ids"
  shows "(i, c) \<in> conflicts_on tier (c, ids) \<longleftrightarrow>
    i \<in> set ids \<and> (\<exists>other\<in>set ids. other \<noteq> i \<and> tier i \<le> tier other)"
proof (cases "2 \<le> length ids")
  case False
  then show ?thesis using two_elements [OF assms] by (auto simp: conflicts_on_def Let_def)
next
  case True
  let ?top = "Max (tier ` set ids)"
  let ?tops = "filter (\<lambda>i. tier i = ?top) ids"
  have ids: "ids \<noteq> []" using True by auto
  have le: "j \<in> set ids \<Longrightarrow> tier j \<le> ?top" for j by simp
  have "?top \<in> tier ` set ids" using ids by (intro Max_in) auto
  then obtain m where m: "m \<in> set ids" "tier m = ?top" by auto
  have "(2 \<le> length ?tops \<or> tier i \<noteq> ?top) \<longleftrightarrow> (\<exists>other\<in>set ids. other \<noteq> i \<and> tier i \<le> tier other)"
    if i: "i \<in> set ids"
  proof (cases "tier i = ?top")
    case False
    with i m le show ?thesis by (metis)
  next
    case top: True
    have dist: "distinct ?tops" using assms by simp
    show ?thesis
    proof
      assume "2 \<le> length ?tops \<or> tier i \<noteq> ?top"
      with top have "2 \<le> length ?tops" by simp
      from other_element [OF dist this, of i] top
      show "\<exists>other\<in>set ids. other \<noteq> i \<and> tier i \<le> tier other" by auto
    next
      assume "\<exists>other\<in>set ids. other \<noteq> i \<and> tier i \<le> tier other"
      then obtain other where other: "other \<in> set ids" "other \<noteq> i" "tier i \<le> tier other" by blast
      with le [OF other(1)] top have "tier other = ?top" by (metis antisym)
      with other i top show "2 \<le> length ?tops \<or> tier i \<noteq> ?top"
        using two_elements [OF dist, of i other] by simp
    qed
  qed
  then show ?thesis
    using True contenders_all [OF assms True] by (auto simp: conflicts_on_def Let_def)
qed

lemma conflict_iff:
  assumes "registry_ok r"
  shows "is_conflicting r i c \<longleftrightarrow> holds r c i \<and> (\<exists>other. other \<noteq> i \<and> holds r c other \<and> tier_of r i \<le> tier_of r other)"
  using conflicts_at [OF registry_okD(1) [OF assms], of i c] conflicts_on_iff [OF candidates_distinct [OF assms]]
  by (auto simp: is_conflicting_def candidates [OF assms])

section \<open>Resolution\<close>

lemma find_unique: "(\<And>x y. x \<in> set xs \<Longrightarrow> y \<in> set xs \<Longrightarrow> P x \<Longrightarrow> P y \<Longrightarrow> x = y) \<Longrightarrow>
  find P xs = Some x \<longleftrightarrow> x \<in> set xs \<and> P x"
  by (induction xs) auto

lemma resolve_iff:
  assumes "registry_ok r"
  shows "resolve r c st = Some i \<longleftrightarrow>
    holds r c i \<and> is_live (scope_of i) st \<and> (\<forall>other. other \<noteq> i \<and> holds r c other \<longrightarrow> tier_of r other < tier_of r i)"
proof -
  let ?P = "\<lambda>i. is_live (scope_of i) st \<and> (i, c) \<notin> rg_conflicts r"
  have free: "(i, c) \<notin> rg_conflicts r \<longleftrightarrow> (\<forall>other. other \<noteq> i \<and> holds r c other \<longrightarrow> tier_of r other < tier_of r i)"
    if "holds r c i" for i
    using conflict_iff [OF assms, of i c] that by (auto simp: is_conflicting_def not_le)
  have "find ?P (ids_at r c) = Some i \<longleftrightarrow> i \<in> set (ids_at r c) \<and> ?P i"
  proof (rule find_unique)
    fix x y
    assume "x \<in> set (ids_at r c)" "y \<in> set (ids_at r c)" "?P x" "?P y"
    then have "holds r c x" "holds r c y" "x \<noteq> y \<Longrightarrow> tier_of r y < tier_of r x" "x \<noteq> y \<Longrightarrow> tier_of r x < tier_of r y"
      using free [of x] free [of y] by (auto simp: candidates [OF assms])
    then show "x = y" using order.asym by blast
  qed
  then show ?thesis
    using free by (auto simp: find_ids_at [OF registry_okD(1) [OF assms]] candidates [OF assms])
qed

end
