(* ===== verification/Actions_Machine.thy ===== *)
theory Actions_Machine
  imports Actions_Invariant
begin

text \<open>
  Every call on the registry keeps its invariant, and what a plugin's actions go through when it
  stops and starts again: taken out of the registry with \<open>unregister_plugin_actions\<close>, its bindings
  parked, and put back by registering the same definitions.
\<close>

section \<open>The invariant without the derived fields\<close>

definition registry_base :: "action_registry \<Rightarrow> bool" where
  "registry_base r \<longleftrightarrow>
     overrides_ok (rg_overrides r) \<and> length (rg_enabled r) = 46 \<and>
     tree_ok (rg_plugin_defs r) \<and> tree_ok (rg_plugin_enabled r) \<and>
     map fst (rg_plugin_enabled r) = map fst (rg_plugin_defs r) \<and>
     list_all (\<lambda>(p, d). plugin_def_ok p d \<and> map_of (ko_dormant (rg_overrides r)) (plugin_action_key p) = None)
       (rg_plugin_defs r) \<and>
     (\<forall>owner. length (owned_ids owner r) \<le> MAX_ACTIONS_PER_PLUGIN)"

lemma registry_ok_base: "registry_ok r \<longleftrightarrow> coherent r \<and> registry_base r"
  by (simp add: registry_ok_def registry_base_def)

lemma owned_ids_cong: "rg_plugin_defs r = rg_plugin_defs s \<Longrightarrow> owned_ids owner r = owned_ids owner s"
  by (simp add: owned_ids_def)

lemma owned_ids_frames [simp]:
  "owned_ids owner (rebuild r) = owned_ids owner r" "owned_ids owner (r\<lparr>rg_overrides := o1\<rparr>) = owned_ids owner r"
  "owned_ids owner (r\<lparr>rg_enabled := bs\<rparr>) = owned_ids owner r"
  "owned_ids owner (r\<lparr>rg_plugin_enabled := e\<rparr>) = owned_ids owner r"
  by (simp_all add: owned_ids_def)

lemma registry_base_rebuild [simp]: "registry_base (rebuild r) \<longleftrightarrow> registry_base r"
  by (simp add: registry_base_def owned_ids_cong [of "rebuild r" r])

lemma registry_ok_rebuild [simp]: "registry_ok (rebuild r) \<longleftrightarrow> registry_base r"
  by (simp add: registry_ok_base)

lemma registry_base_def_ok:
  assumes "registry_base r" "map_of (rg_plugin_defs r) p = Some d"
  shows "plugin_def_ok p d" "map_of (ko_dormant (rg_overrides r)) (plugin_action_key p) = None"
  using assms list_all_map_of by (fastforce simp: registry_base_def)+

lemma owned_ids_iff:
  assumes "tree_ok (rg_plugin_defs r)"
  shows "p \<in> set (owned_ids owner r) \<longleftrightarrow> (\<exists>d. map_of (rg_plugin_defs r) p = Some d \<and> px_owner d = owner)"
  using tree_ok_lookup [OF assms] by (force simp: owned_ids_def)

lemma owned_ids_distinct: "tree_ok (rg_plugin_defs r) \<Longrightarrow> distinct (owned_ids owner r)"
  using tree_ok_distinct [of "rg_plugin_defs r"] by (auto simp: owned_ids_def distinct_map inj_on_filter_key_eq intro: inj_on_subset)

lemma tree_insert_keys:
  "map fst (tree_insert k v m) = filter (\<lambda>x. x < k) (map fst m) @ k # filter (\<lambda>x. k < x) (map fst m)"
  by (simp add: tree_insert_def filter_map comp_def)

lemma tree_remove_keys: "map fst (tree_remove k m) = filter (\<lambda>x. x \<noteq> k) (map fst m)"
  by (simp add: tree_remove_def filter_map comp_def)

lemma tree_insert_present:
  assumes "tree_ok m" "k \<in> set (map fst m)"
  shows "map fst (tree_insert k v m) = map fst m"
proof (rule sorted_distinct_set_unique)
  show "sorted (map fst (tree_insert k v m))" "distinct (map fst (tree_insert k v m))"
    using tree_ok_insert [OF assms(1)] by (simp_all add: tree_ok_def strict_sorted_iff)
  show "sorted (map fst m)" "distinct (map fst m)" using assms(1) by (simp_all add: tree_ok_def strict_sorted_iff)
  show "set (map fst (tree_insert k v m)) = set (map fst m)"
    using assms(2) by (auto simp: tree_insert_keys)
qed

section \<open>Calls on bindings\<close>

lemma registry_base_enabled:
  "registry_base r \<Longrightarrow> length bs = 46 \<Longrightarrow> registry_base (r\<lparr>rg_enabled := bs\<rparr>)"
  by (simp add: registry_base_def owned_ids_def)

lemma set_enabled_keeps: "registry_ok r \<Longrightarrow> registry_ok (registry_set_enabled a b r)"
  unfolding registry_set_enabled_def registry_ok_rebuild
  by (rule registry_base_enabled) (simp_all add: registry_ok_base registry_base_def)

lemma registry_base_overrides:
  "registry_base r \<Longrightarrow> overrides_ok o1 \<Longrightarrow>
   (\<And>key. map_of (ko_dormant (rg_overrides r)) key = None \<Longrightarrow> map_of (ko_dormant o1) key = None) \<Longrightarrow>
   registry_base (r\<lparr>rg_overrides := o1\<rparr>)"
  by (auto simp: registry_base_def owned_ids_def list_all_iff)

lemma dormant_frames [simp]:
  "ko_dormant (overrides_set a cs o1) = ko_dormant o1" "ko_dormant (overrides_remove a o1) = ko_dormant o1"
  "ko_dormant (set_plugin p cs d o1) = ko_dormant o1" "ko_dormant (overrides_remove_plugin p o1) = ko_dormant o1"
  by (simp_all add: overrides_set_def overrides_remove_def set_plugin_def overrides_remove_plugin_def Let_def)

definition action_id_ok :: "action_id \<Rightarrow> bool" where
  "action_id_ok i = (case i of HostActionId a \<Rightarrow> host_action_ok a | PluginActionRef p \<Rightarrow> plugin_action_ok p)"

lemma action_id_ok_exists: "action_id_ok i \<Longrightarrow> action_exists i"
  by (auto simp: action_id_ok_def action_exists_def split: action_id.splits)

lemma set_effective_base:
  assumes "registry_base r" "action_id_ok i" "list_all chord_ok cs"
  shows "registry_base (set_effective i cs r)"
proof (cases i)
  case (HostActionId a)
  with assms show ?thesis
    by (auto simp: set_effective_def action_id_ok_def registry_base_def overrides_set_ok intro!: registry_base_overrides)
next
  case (PluginActionRef p)
  with assms show ?thesis
    by (auto simp: set_effective_def Let_def action_id_ok_def registry_base_def set_plugin_ok intro!: registry_base_overrides)
qed

lemma effective_chords: "registry_ok r \<Longrightarrow> action_id_ok i \<Longrightarrow> list_all chord_ok (effective_of r i)"
  using effective_ok [of r i] by (simp add: action_id_ok_exists chords_ok_def)

lemma add_binding_keeps:
  "registry_ok r \<Longrightarrow> action_id_ok i \<Longrightarrow> chord_ok c \<Longrightarrow> add_binding i c r = Inr r' \<Longrightarrow> registry_ok r'"
  using effective_chords [of r i]
  by (auto simp: add_binding_def Let_def registry_ok_base split: if_splits intro!: set_effective_base)

lemma remove_binding_keeps: "registry_ok r \<Longrightarrow> action_id_ok i \<Longrightarrow> registry_ok (remove_binding i c r)"
  using effective_chords [of r i]
  by (auto simp: remove_binding_def Let_def registry_ok_base list_all_iff intro!: set_effective_base)

lemma reset_binding_keeps: "registry_ok r \<Longrightarrow> registry_ok (reset_binding i r)"
  by (auto simp: reset_binding_def registry_ok_base registry_base_def overrides_remove_ok overrides_remove_plugin_ok
      split: action_id.split intro!: registry_base_overrides)

section \<open>Resetting everything\<close>

definition plugin_defaults :: "action_registry \<Rightarrow> plugin_action_id \<times> chord list \<Rightarrow> keymap_overrides \<Rightarrow> keymap_overrides" where
  "plugin_defaults r = (\<lambda>(p, chords). set_plugin p chords
      (case map_of (rg_plugin_defs r) p of Some d \<Rightarrow> px_default_binding d | None \<Rightarrow> None))"

lemma reset_all_alt:
  "reset_all r = rebuild (r\<lparr>rg_overrides := fold (plugin_defaults r) (ko_plugin (rg_overrides r)) overrides_default\<rparr>)"
  by (simp add: reset_all_def plugin_defaults_def)

lemma plugin_defaults_frames [simp]:
  "ko_dormant (fold (plugin_defaults r) es o1) = ko_dormant o1" "ko_host (fold (plugin_defaults r) es o1) = ko_host o1"
  by (induction es arbitrary: o1) (auto simp: plugin_defaults_def set_plugin_def Let_def)

lemma plugin_defaults_ok:
  "overrides_ok o1 \<Longrightarrow> list_all (\<lambda>(p, cs). plugin_action_ok p \<and> chords_ok cs) es \<Longrightarrow>
   overrides_ok (fold (plugin_defaults r) es o1)"
  by (induction es arbitrary: o1) (auto simp: plugin_defaults_def set_plugin_ok chords_ok_def)

lemma plugin_defaults_other:
  "p \<notin> set (map fst es) \<Longrightarrow> map_of (ko_plugin (fold (plugin_defaults r) es o1)) p = map_of (ko_plugin o1) p"
  by (induction es arbitrary: o1) (auto simp: plugin_defaults_def set_plugin_def Let_def)

lemma reset_all_keeps:
  assumes "registry_ok r"
  shows "registry_ok (reset_all r)"
  unfolding reset_all_alt registry_ok_rebuild
proof (rule registry_base_overrides)
  show "registry_base r" using assms by (simp add: registry_ok_base)
  then show "overrides_ok (fold (plugin_defaults r) (ko_plugin (rg_overrides r)) overrides_default)"
    by (intro plugin_defaults_ok) (auto simp: registry_base_def overrides_ok_def overrides_default_def)
qed (simp add: overrides_default_def)

section \<open>Registering and unregistering\<close>

text \<open>A plugin identifier belongs to one plugin, so the actions of an identifier have one owner.\<close>

definition owners_ok :: "(u16 \<Rightarrow> ustring option) \<Rightarrow> action_registry \<Rightarrow> bool" where
  "owners_ok ident r \<longleftrightarrow> list_all (\<lambda>(p, d). ident (px_owner d) = Some (act_plugin p)) (rg_plugin_defs r)"

definition idents_ok :: "(u16 \<Rightarrow> ustring option) \<Rightarrow> bool" where
  "idents_ok ident \<longleftrightarrow> (\<forall>p q s. ident p = Some s \<longrightarrow> ident q = Some s \<longrightarrow> p = q)"

lemma adopt_dormant_lookup:
  "map_of (ko_dormant (adopt_dormant p o1)) = (map_of (ko_dormant o1))(plugin_action_key p := None)"
  "map_of (ko_plugin (adopt_dormant p o1)) =
     (case map_of (ko_dormant o1) (plugin_action_key p) of
        None \<Rightarrow> map_of (ko_plugin o1) | Some cs \<Rightarrow> (map_of (ko_plugin o1))(p \<mapsto> cs))"
  "ko_host (adopt_dormant p o1) = ko_host o1"
  by (auto simp: adopt_dormant_def fun_eq_iff split: option.split)

lemma park_lookup:
  "map_of (ko_plugin (park p o1)) = (map_of (ko_plugin o1))(p := None)"
  "map_of (ko_dormant (park p o1)) =
     (case map_of (ko_plugin o1) p of
        None \<Rightarrow> map_of (ko_dormant o1) | Some cs \<Rightarrow> (map_of (ko_dormant o1))(plugin_action_key p \<mapsto> cs))"
  "ko_host (park p o1) = ko_host o1"
  by (auto simp: park_def fun_eq_iff split: option.split)

lemma owned_after_insert:
  "set (owned_ids owner (r\<lparr>rg_plugin_defs := tree_insert p d (rg_plugin_defs r), rg_overrides := o1, rg_plugin_enabled := e\<rparr>)) \<subseteq>
   (if px_owner d = owner then insert p (set (owned_ids owner r)) else set (owned_ids owner r))"
  by (auto simp: owned_ids_def tree_insert_def)

lemma owned_length_le:
  assumes "tree_ok (rg_plugin_defs r)" "set (owned_ids owner r) \<subseteq> S" "finite S" "card S \<le> n"
  shows "length (owned_ids owner r) \<le> n"
  using assms card_mono [OF assms(3,2)] distinct_card [OF owned_ids_distinct [OF assms(1), of owner]] by simp

lemma register_new_base:
  assumes base: "registry_base r" and d: "plugin_def_ok (px_id d) d"
    and new: "map_of (rg_plugin_defs r) (px_id d) = None"
    and room: "length (owned_ids (px_owner d) r) < MAX_ACTIONS_PER_PLUGIN"
  shows "registry_base (r\<lparr>rg_overrides := adopt_dormant (px_id d) (rg_overrides r),
      rg_plugin_enabled := tree_insert (px_id d) True (rg_plugin_enabled r),
      rg_plugin_defs := tree_insert (px_id d) d (rg_plugin_defs r)\<rparr>)" (is "registry_base ?r")
proof -
  have "length (owned_ids owner ?r) \<le> MAX_ACTIONS_PER_PLUGIN" for owner
  proof (rule owned_length_le)
    show "tree_ok (rg_plugin_defs ?r)" using base by (simp add: registry_base_def)
    let ?S = "if px_owner d = owner then insert (px_id d) (set (owned_ids owner r)) else set (owned_ids owner r)"
    show "set (owned_ids owner ?r) \<subseteq> ?S" by (auto simp: owned_ids_def tree_insert_def)
    show "finite ?S" by simp
    have "card (set (owned_ids owner r)) \<le> length (owned_ids owner r)" by (rule card_length)
    then show "card ?S \<le> MAX_ACTIONS_PER_PLUGIN"
      using room base le_trans [OF card_insert_le_m1] by (auto simp: registry_base_def card_insert_if intro: le_trans)
  qed
  moreover have "list_all (\<lambda>(p, d). plugin_def_ok p d \<and>
      map_of (ko_dormant (rg_overrides ?r)) (plugin_action_key p) = None) (rg_plugin_defs ?r)"
  proof -
    have "list_all (\<lambda>(p, d). plugin_def_ok p d \<and>
        map_of (ko_dormant (rg_overrides ?r)) (plugin_action_key p) = None) (rg_plugin_defs r)"
      using base by (auto simp: registry_base_def list_all_iff adopt_dormant_lookup)
    then have "list_all (\<lambda>(p, d). plugin_def_ok p d \<and>
        map_of (ko_dormant (rg_overrides ?r)) (plugin_action_key p) = None)
        (tree_insert (px_id d) d (rg_plugin_defs r))"
      using d by (intro list_all_tree_insert) (auto simp: adopt_dormant_lookup)
    then show ?thesis by simp
  qed
  moreover have "overrides_ok (adopt_dormant (px_id d) (rg_overrides r))"
    using base d by (auto simp: registry_base_def plugin_def_ok_def intro!: adopt_dormant_ok)
  ultimately show ?thesis using base by (auto simp: registry_base_def tree_insert_keys)
qed

lemma register_again_base:
  assumes base: "registry_base r" and d: "plugin_def_ok (px_id d) d"
    and old: "map_of (rg_plugin_defs r) (px_id d) = Some d0" "px_owner d = px_owner d0"
  shows "registry_base (r\<lparr>rg_plugin_defs := tree_insert (px_id d) d (rg_plugin_defs r)\<rparr>)" (is "registry_base ?r")
proof -
  have tree: "tree_ok (rg_plugin_defs r)" using base by (simp add: registry_base_def)
  have "set (owned_ids owner ?r) = set (owned_ids owner r)" for owner
    using old tree by (auto simp: owned_ids_iff split: if_splits)
  then have "length (owned_ids owner ?r) = length (owned_ids owner r)" for owner
    using owned_ids_distinct [OF tree, of owner] owned_ids_distinct [of ?r owner] tree
    by (simp flip: distinct_card)
  moreover have "map fst (tree_insert (px_id d) d (rg_plugin_defs r)) = map fst (rg_plugin_defs r)"
    using old(1) by (intro tree_insert_present [OF tree]) (force dest: map_of_SomeD)
  moreover have "list_all (\<lambda>(p, d). plugin_def_ok p d \<and>
      map_of (ko_dormant (rg_overrides r)) (plugin_action_key p) = None) (tree_insert (px_id d) d (rg_plugin_defs r))"
    using base d registry_base_def_ok(2) [OF base old(1)] by (intro list_all_tree_insert) (auto simp: registry_base_def)
  ultimately show ?thesis using base by (simp add: registry_base_def)
qed

lemma register_keeps:
  assumes "registry_ok r" "owners_ok ident r" "idents_ok ident" "plugin_def_ok (px_id d) d"
    "ident (px_owner d) = Some (act_plugin (px_id d))" "register_action d r = Inr r'"
  shows "registry_ok r' \<and> owners_ok ident r'"
proof (cases "map_of (rg_plugin_defs r) (px_id d)")
  case None
  with assms have r': "r' = rebuild (r\<lparr>rg_overrides := adopt_dormant (px_id d) (rg_overrides r),
      rg_plugin_enabled := tree_insert (px_id d) True (rg_plugin_enabled r),
      rg_plugin_defs := tree_insert (px_id d) d (rg_plugin_defs r)\<rparr>)"
    and room: "length (owned_ids (px_owner d) r) < MAX_ACTIONS_PER_PLUGIN"
    by (auto simp: register_action_def split: if_splits)
  have "registry_base r" using assms(1) by (simp add: registry_ok_base)
  from register_new_base [OF this assms(4) None room] show ?thesis
    using assms(2,5) by (auto simp: r' owners_ok_def intro!: list_all_tree_insert)
next
  case (Some d0)
  with assms(2) have "ident (px_owner d0) = Some (act_plugin (px_id d))"
    by (auto simp: owners_ok_def dest: list_all_map_of)
  with assms(3,5) have owner: "px_owner d = px_owner d0" by (auto simp: idents_ok_def)
  from Some assms(6) have r': "r' = rebuild (r\<lparr>rg_plugin_defs := tree_insert (px_id d) d (rg_plugin_defs r)\<rparr>)"
    by (simp add: register_action_def)
  have "registry_base r" using assms(1) by (simp add: registry_ok_base)
  from register_again_base [OF this assms(4) Some owner] show ?thesis
    using assms(2,5) by (auto simp: r' owners_ok_def intro!: list_all_tree_insert)
qed

lemma list_all_filter_keys: "list_all P m \<Longrightarrow> list_all P (filter Q m)"
  by (auto simp: list_all_iff)

lemma unregister_one_base:
  assumes base: "registry_base r" and p: "plugin_action_ok p"
  shows "registry_base (unregister_one p r)"
proof -
  let ?r = "unregister_one p r"
  have tree: "tree_ok (rg_plugin_defs r)" using base by (simp add: registry_base_def)
  have "length (owned_ids owner ?r) \<le> MAX_ACTIONS_PER_PLUGIN" for owner
  proof (rule owned_length_le)
    show "tree_ok (rg_plugin_defs ?r)" using tree by (simp add: unregister_one_def)
    show "set (owned_ids owner ?r) \<subseteq> set (owned_ids owner r)"
      by (auto simp: owned_ids_def unregister_one_def tree_remove_def)
    show "card (set (owned_ids owner r)) \<le> MAX_ACTIONS_PER_PLUGIN"
      using base card_length [of "owned_ids owner r"] by (auto simp: registry_base_def intro: le_trans)
  qed simp
  moreover have "list_all (\<lambda>(q, d). plugin_def_ok q d \<and>
      map_of (ko_dormant (rg_overrides ?r)) (plugin_action_key q) = None) (rg_plugin_defs ?r)"
  proof -
    have "plugin_action_key q \<noteq> plugin_action_key p" if "plugin_def_ok q d" "q \<noteq> p" for q d
      using that p by (auto simp: plugin_def_ok_def dest: plugin_action_key_inject)
    with base have "list_all (\<lambda>(q, d). q \<noteq> p \<longrightarrow> plugin_def_ok q d \<and>
        map_of (ko_dormant (park p (rg_overrides r))) (plugin_action_key q) = None) (rg_plugin_defs r)"
      by (fastforce simp: registry_base_def list_all_iff park_lookup split: option.split)
    then show ?thesis by (auto simp: unregister_one_def tree_remove_def list_all_iff)
  qed
  ultimately show ?thesis
    using base by (simp add: registry_base_def unregister_one_def park_ok tree_remove_keys)
qed

lemma unregister_fold_base:
  "registry_base r \<Longrightarrow> list_all plugin_action_ok ps \<Longrightarrow> registry_base (fold unregister_one ps r)"
  by (induction ps arbitrary: r) (auto intro: unregister_one_base)

lemma owned_ids_ok: "registry_base r \<Longrightarrow> list_all plugin_action_ok (owned_ids owner r)"
  by (auto simp: registry_base_def owned_ids_def plugin_def_ok_def list_all_iff)

lemma unregister_keeps: "registry_ok r \<Longrightarrow> registry_ok (unregister_plugin_actions owner r)"
  unfolding unregister_plugin_actions_def registry_ok_rebuild
  by (rule unregister_fold_base) (simp_all add: registry_ok_base owned_ids_ok)

lemma unregister_fold_owners: "owners_ok ident r \<Longrightarrow> owners_ok ident (fold unregister_one ps r)"
proof (induction ps arbitrary: r)
  case (Cons p ps)
  have "owners_ok ident (unregister_one p r)"
    using Cons.prems by (auto simp: owners_ok_def unregister_one_def tree_remove_def list_all_iff)
  with Cons.IH show ?case by simp
qed simp

lemma owners_ok_rebuild [simp]: "owners_ok ident (rebuild r) \<longleftrightarrow> owners_ok ident r"
  by (simp add: owners_ok_def)

lemma fold_insert_present:
  "tree_ok m \<Longrightarrow> list_all (\<lambda>k. k \<in> set (map fst m)) ks \<Longrightarrow>
   tree_ok (fold (\<lambda>k. tree_insert k v) ks m) \<and> map fst (fold (\<lambda>k. tree_insert k v) ks m) = map fst m"
proof (induction ks arbitrary: m)
  case (Cons k ks)
  then have "map fst (tree_insert k v m) = map fst m" by (intro tree_insert_present) auto
  with Cons.IH [of "tree_insert k v m"] Cons.prems show ?case by (auto simp: list_all_iff)
qed simp

lemma set_plugin_enabled_keeps:
  assumes "registry_ok r"
  shows "registry_ok (set_plugin_enabled owner b r)"
proof -
  have base: "registry_base r" using assms by (simp add: registry_ok_base)
  then have keys: "map fst (rg_plugin_enabled r) = map fst (rg_plugin_defs r)" "tree_ok (rg_plugin_enabled r)"
    by (simp_all add: registry_base_def)
  have "list_all (\<lambda>k. k \<in> set (map fst (rg_plugin_enabled r))) (owned_ids owner r)"
    unfolding keys by (auto simp: owned_ids_def list_all_iff)
  note this keys(2)
  with fold_insert_present [of "rg_plugin_enabled r" "owned_ids owner r" b] have
    "tree_ok (fold (\<lambda>k. tree_insert k b) (owned_ids owner r) (rg_plugin_enabled r))"
    "map fst (fold (\<lambda>k. tree_insert k b) (owned_ids owner r) (rg_plugin_enabled r)) = map fst (rg_plugin_enabled r)"
    by blast+
  with base have "registry_base (r\<lparr>rg_plugin_enabled := fold (\<lambda>k. tree_insert k b) (owned_ids owner r) (rg_plugin_enabled r)\<rparr>)"
    by (simp add: registry_base_def)
  with assms show ?thesis by (simp add: set_plugin_enabled_def Let_def)
qed

section \<open>The registry as a machine\<close>

datatype registry_call =
    CallSetEnabled host_action bool
  | CallAddBinding action_id chord
  | CallRemoveBinding action_id chord
  | CallReset action_id
  | CallResetAll
  | CallRegister u16 ustring action_spec
  | CallUnregister u16
  | CallSetPluginEnabled u16 bool

fun registry_call_ok :: "registry_call \<Rightarrow> bool" where
  "registry_call_ok (CallSetEnabled a b) = host_action_ok a"
| "registry_call_ok (CallAddBinding i c) = (action_id_ok i \<and> chord_ok c)"
| "registry_call_ok (CallRemoveBinding i c) = action_id_ok i"
| "registry_call_ok (CallReset i) = action_id_ok i"
| "registry_call_ok (CallRegister plugin name spec) = matches_id_grammar (sp_id spec)"
| "registry_call_ok _ = True"

text \<open>What a call leaves; a refused call leaves the registry as it is.\<close>

fun perform_call :: "(u16 \<Rightarrow> ustring option) \<Rightarrow> registry_call \<Rightarrow> action_registry \<Rightarrow> action_registry" where
  "perform_call ident (CallSetEnabled a b) r = registry_set_enabled a b r"
| "perform_call ident (CallAddBinding i c) r = (case add_binding i c r of Inl _ \<Rightarrow> r | Inr r' \<Rightarrow> r')"
| "perform_call ident (CallRemoveBinding i c) r = remove_binding i c r"
| "perform_call ident (CallReset i) r = reset_binding i r"
| "perform_call ident CallResetAll r = reset_all r"
| "perform_call ident (CallRegister plugin name spec) r =
     (case snd (dispatch_register_action (ident plugin) name plugin spec r) of Inl _ \<Rightarrow> r | Inr r' \<Rightarrow> r')"
| "perform_call ident (CallUnregister owner) r = unregister_plugin_actions owner r"
| "perform_call ident (CallSetPluginEnabled owner b) r = set_plugin_enabled owner b r"

definition registry_start :: "action_registry \<Rightarrow> bool" where
  "registry_start r \<longleftrightarrow> (\<exists>o1. overrides_ok o1 \<and> r = registry_new o1)"

definition registry_step :: "(u16 \<Rightarrow> ustring option) \<Rightarrow> action_registry \<Rightarrow> action_registry \<Rightarrow> bool" where
  "registry_step ident r r' \<longleftrightarrow> (\<exists>call. registry_call_ok call \<and> r' = perform_call ident call r)"

lemma registry_new_ok: "overrides_ok o1 \<Longrightarrow> registry_ok (registry_new o1)"
  by (simp add: registry_new_def registry_base_def owned_ids_def all_actions_length)

lemma bindable_default_ok: "bindable_default raw = (Some c, warned) \<Longrightarrow> chord_ok c"
  by (auto simp: bindable_default_def split: option.splits sum.splits if_splits dest: parse_SomeD)

lemma controller_registers:
  assumes "controller_register_action (ident plugin) name plugin spec r = (warned, Inr r')"
    and id: "matches_id_grammar (sp_id spec)"
  obtains d where "plugin_def_ok (px_id d) d" "ident (px_owner d) = Some (act_plugin (px_id d))" "register_action d r = Inr r'"
proof -
  from assms obtain s i dflt w where s: "ident plugin = Some s" and i: "plugin_action_parse (s @ 46 # sp_id spec) = Some i"
    and dflt: "bindable_default (sp_default_binding spec) = (dflt, w)"
    and reg: "register_action \<lparr>px_id = i, px_owner = plugin, px_tier = Bundled, px_name = name, px_label = sp_label spec,
      px_kind = sp_kind spec, px_repeats_while_held = sp_repeats_while_held spec, px_default_binding = dflt\<rparr> r = Inr r'"
    by (auto simp: controller_register_action_def Let_def split: option.splits prod.splits sum.splits action_limit.splits)
  from plugin_action_parse_SomeD [OF i] have ok: "plugin_action_ok i" by simp
  have "rsplit_once 46 (s @ 46 # sp_id spec) = Some (s, sp_id spec)"
    using id by (intro rsplit_key id_grammar_plain)
  with i have "act_plugin i = s"
    by (auto simp: plugin_action_parse_def plugin_identifier_parse_def Let_def split: option.splits if_splits)
  moreover have "case dflt of Some c \<Rightarrow> chord_ok c | None \<Rightarrow> True"
    using dflt by (auto split: option.split dest: bindable_default_ok)
  ultimately show thesis
    using ok s reg that [of "\<lparr>px_id = i, px_owner = plugin, px_tier = Bundled, px_name = name, px_label = sp_label spec,
      px_kind = sp_kind spec, px_repeats_while_held = sp_repeats_while_held spec, px_default_binding = dflt\<rparr>"]
    by (simp add: plugin_def_ok_def)
qed

lemma set_effective_defs: "rg_plugin_defs (set_effective i cs r) = rg_plugin_defs r"
  by (simp add: set_effective_def Let_def split: action_id.split)

lemma defs_frames:
  "rg_plugin_defs (registry_set_enabled a b r) = rg_plugin_defs r"
  "rg_plugin_defs (remove_binding i c r) = rg_plugin_defs r"
  "rg_plugin_defs (reset_binding i r) = rg_plugin_defs r"
  "rg_plugin_defs (reset_all r) = rg_plugin_defs r"
  "rg_plugin_defs (set_plugin_enabled owner b r) = rg_plugin_defs r"
  "add_binding i c r = Inr r' \<Longrightarrow> rg_plugin_defs r' = rg_plugin_defs r"
  by (auto simp: registry_set_enabled_def remove_binding_def reset_binding_def reset_all_def
      set_plugin_enabled_def add_binding_def set_effective_defs Let_def split: if_splits)

lemma owners_ok_frames:
  "owners_ok ident (registry_set_enabled a b r) = owners_ok ident r"
  "owners_ok ident (remove_binding i c r) = owners_ok ident r"
  "owners_ok ident (reset_binding i r) = owners_ok ident r"
  "owners_ok ident (reset_all r) = owners_ok ident r"
  "owners_ok ident (set_plugin_enabled owner b r) = owners_ok ident r"
  "add_binding i c r = Inr r' \<Longrightarrow> owners_ok ident r' = owners_ok ident r"
  by (simp_all add: owners_ok_def defs_frames)

definition calls_inv :: "(u16 \<Rightarrow> ustring option) \<Rightarrow> action_registry \<Rightarrow> bool" where
  "calls_inv ident r \<longleftrightarrow> idents_ok ident \<longrightarrow> registry_ok r \<and> owners_ok ident r"

lemma perform_call_keeps:
  assumes "idents_ok ident" "registry_ok r" "owners_ok ident r" "registry_call_ok call"
  shows "registry_ok (perform_call ident call r) \<and> owners_ok ident (perform_call ident call r)"
proof (cases call)
  case (CallAddBinding i c)
  with assms show ?thesis
    by (auto simp: owners_ok_frames split: sum.split intro: add_binding_keeps)
next
  case (CallRegister plugin name spec)
  show ?thesis
  proof (cases "snd (dispatch_register_action (ident plugin) name plugin spec r)")
    case (Inl e)
    with CallRegister assms show ?thesis by simp
  next
    case (Inr r')
    then have "controller_register_action (ident plugin) name plugin spec r =
        (fst (controller_register_action (ident plugin) name plugin spec r), Inr r')"
      by (auto simp: dispatch_register_action_def prod_eq_iff split: if_splits)
    moreover have "matches_id_grammar (sp_id spec)" using CallRegister assms(4) by simp
    ultimately obtain d where "plugin_def_ok (px_id d) d" "ident (px_owner d) = Some (act_plugin (px_id d))"
      "register_action d r = Inr r'"
      by (rule controller_registers)
    with register_keeps [OF assms(2,3,1)] Inr CallRegister show ?thesis by simp
  qed
next
  case (CallUnregister owner)
  with assms show ?thesis
    by (simp add: unregister_keeps) (simp add: unregister_plugin_actions_def unregister_fold_owners)
qed (use assms in \<open>auto simp: owners_ok_frames set_enabled_keeps remove_binding_keeps reset_binding_keeps
    reset_all_keeps set_plugin_enabled_keeps\<close>)

interpretation registry: machine registry_start "registry_step ident" "calls_inv ident" for ident
proof unfold_locales
  fix r assume "registry_start r"
  then show "calls_inv ident r"
    by (auto simp: registry_start_def calls_inv_def registry_new_ok) (simp add: owners_ok_def registry_new_def)
next
  fix r r' assume "calls_inv ident r" "registry_step ident r r'"
  then show "calls_inv ident r'"
    using perform_call_keeps by (auto simp: calls_inv_def registry_step_def)
qed

end
