(* ===== verification/Actions_Restart.thy ===== *)
theory Actions_Restart
  imports Actions_Machine
begin

text \<open>
  A plugin stops and starts: its actions leave the registry and come back.
  \<open>absent S r r'\<close> says that \<open>r'\<close> is \<open>r\<close> with the actions \<open>S\<close> taken out and their overrides
  parked. Unregistering establishes it, each registration shrinks \<open>S\<close>, and with \<open>S\<close> empty it is
  equality, because the tables have a canonical form.
\<close>

section \<open>Actions taken out\<close>

definition absent_base :: "plugin_action_id set \<Rightarrow> action_registry \<Rightarrow> action_registry \<Rightarrow> bool" where
  "absent_base S r r' \<longleftrightarrow>
     registry_base r' \<and> rg_enabled r' = rg_enabled r \<and>
     map_of (rg_plugin_defs r') = (\<lambda>p. if p \<in> S then None else map_of (rg_plugin_defs r) p) \<and>
     map_of (rg_plugin_enabled r') = (\<lambda>p. if p \<in> S then None else map_of (rg_plugin_enabled r) p) \<and>
     ko_host (rg_overrides r') = ko_host (rg_overrides r) \<and>
     map_of (ko_plugin (rg_overrides r')) = (\<lambda>p. if p \<in> S then None else map_of (ko_plugin (rg_overrides r)) p) \<and>
     (\<forall>p\<in>S. map_of (ko_dormant (rg_overrides r')) (plugin_action_key p) = map_of (ko_plugin (rg_overrides r)) p) \<and>
     (\<forall>key. key \<notin> plugin_action_key ` S \<longrightarrow>
        map_of (ko_dormant (rg_overrides r')) key = map_of (ko_dormant (rg_overrides r)) key)"

definition absent :: "plugin_action_id set \<Rightarrow> action_registry \<Rightarrow> action_registry \<Rightarrow> bool" where
  "absent S r r' \<longleftrightarrow> coherent r' \<and> absent_base S r r'"

lemma absent_base_rebuild [simp]: "absent_base S r (rebuild r') \<longleftrightarrow> absent_base S r r'"
  by (simp add: absent_base_def)

lemma registry_base_trees:
  assumes "registry_base r"
  shows "tree_ok (rg_plugin_defs r)" "tree_ok (rg_plugin_enabled r)" "tree_ok (ko_host (rg_overrides r))"
    "tree_ok (ko_plugin (rg_overrides r))" "tree_ok (ko_dormant (rg_overrides r))"
  using assms by (auto simp: registry_base_def overrides_ok_def)

lemma absent_empty:
  assumes "registry_ok r" "absent {} r r'"
  shows "r' = r"
proof -
  have base: "registry_base r" "registry_base r'" and coh: "coherent r" "coherent r'"
    using assms by (auto simp: registry_ok_base absent_def absent_base_def)
  note trees = registry_base_trees [OF base(1)] registry_base_trees [OF base(2)]
  have same: "rg_plugin_defs r' = rg_plugin_defs r" "rg_plugin_enabled r' = rg_plugin_enabled r"
    "ko_plugin (rg_overrides r') = ko_plugin (rg_overrides r)"
    "ko_dormant (rg_overrides r') = ko_dormant (rg_overrides r)"
    by (rule tree_canonical; use assms(2) trees in \<open>auto simp: absent_def absent_base_def\<close>)+
  moreover have "ko_host (rg_overrides r') = ko_host (rg_overrides r)" "rg_enabled r' = rg_enabled r"
    using assms(2) by (auto simp: absent_def absent_base_def)
  ultimately show ?thesis
    using coh by (intro coherent_eqI) (auto intro: keymap_overrides.equality)
qed

lemma unregister_one_absent:
  assumes absent: "absent_base S r r'" and r: "registry_base r"
    and S: "\<forall>q\<in>S. plugin_action_ok q" and p: "plugin_action_ok p" "p \<notin> S"
    and reg: "map_of (rg_plugin_defs r) p = Some d"
  shows "absent_base (insert p S) r (unregister_one p r')"
proof -
  have base: "registry_base (unregister_one p r')"
    using absent p by (intro unregister_one_base) (auto simp: absent_base_def)
  have keys: "plugin_action_key q \<noteq> plugin_action_key p" if "q \<in> S" for q
    using that S p by (auto dest: plugin_action_key_inject)
  have none: "map_of (ko_dormant (rg_overrides r)) (plugin_action_key p) = None"
    using registry_base_def_ok(2) [OF r reg] .
  have "plugin_action_key p \<notin> plugin_action_key ` S" using keys by force
  then have none': "map_of (ko_dormant (rg_overrides r')) (plugin_action_key p) = None"
    using absent none by (simp add: absent_base_def)
  have plugin: "map_of (ko_plugin (rg_overrides r')) p = map_of (ko_plugin (rg_overrides r)) p"
    using absent p(2) by (simp add: absent_base_def)
  show ?thesis
    using absent base keys none' plugin p(2)
    by (auto simp: absent_base_def unregister_one_def park_lookup fun_eq_iff split: option.split)
qed

lemma unregister_fold_absent:
  "absent_base S r r' \<Longrightarrow> registry_base r \<Longrightarrow> \<forall>q\<in>S. plugin_action_ok q \<Longrightarrow> distinct ps \<Longrightarrow> set ps \<inter> S = {} \<Longrightarrow>
   list_all (\<lambda>p. plugin_action_ok p \<and> map_of (rg_plugin_defs r) p \<noteq> None) ps \<Longrightarrow>
   absent_base (set ps \<union> S) r (fold unregister_one ps r')"
proof (induction ps arbitrary: S r')
  case (Cons p ps)
  from Cons.prems obtain d where "map_of (rg_plugin_defs r) p = Some d" by auto
  with Cons.prems have "absent_base (insert p S) r (unregister_one p r')"
    by (intro unregister_one_absent) auto
  from Cons.IH [OF this] Cons.prems show ?case by auto
qed simp

lemma unregister_absent:
  assumes "registry_ok r"
  shows "absent (set (owned_ids owner r)) r (unregister_plugin_actions owner r)"
proof -
  have base: "registry_base r" using assms by (simp add: registry_ok_base)
  note trees = registry_base_trees [OF base]
  have "absent_base (set (owned_ids owner r) \<union> {}) r (fold unregister_one (owned_ids owner r) r)"
  proof (rule unregister_fold_absent)
    show "absent_base {} r r" using base by (simp add: absent_base_def)
    show "distinct (owned_ids owner r)" by (rule owned_ids_distinct [OF trees(1)])
    show "list_all (\<lambda>p. plugin_action_ok p \<and> map_of (rg_plugin_defs r) p \<noteq> None) (owned_ids owner r)"
      using owned_ids_ok [OF base, of owner] owned_ids_iff [OF trees(1)] by (auto simp: list_all_iff)
  qed (use base in auto)
  then show ?thesis by (simp add: absent_def unregister_plugin_actions_def)
qed

section \<open>Actions put back\<close>

lemma register_back:
  assumes absent: "absent S r r'" and ok: "registry_ok r" and S: "\<forall>q\<in>S. plugin_action_ok q"
    and p: "px_id d \<in> S" and reg: "map_of (rg_plugin_defs r) (px_id d) = Some d"
    and live: "map_of (rg_plugin_enabled r) (px_id d) = Some True"
  shows "\<exists>r''. register_action d r' = Inr r'' \<and> absent (S - {px_id d}) r r''"
proof -
  let ?p = "px_id d"
  let ?r = "r'\<lparr>rg_overrides := adopt_dormant ?p (rg_overrides r'),
      rg_plugin_enabled := tree_insert ?p True (rg_plugin_enabled r'),
      rg_plugin_defs := tree_insert ?p d (rg_plugin_defs r')\<rparr>"
  have base: "registry_base r" "registry_base r'"
    using ok absent by (auto simp: registry_ok_base absent_def absent_base_def)
  note tree = registry_base_trees(1) [OF base(1)] and tree' = registry_base_trees(1) [OF base(2)]
  have new: "map_of (rg_plugin_defs r') ?p = None"
    using absent p by (simp add: absent_def absent_base_def)
  have "set (owned_ids (px_owner d) r') \<subset> set (owned_ids (px_owner d) r)"
    using absent new reg unfolding psubset_eq
    by (auto simp: owned_ids_iff [OF tree] owned_ids_iff [OF tree'] absent_def absent_base_def split: if_splits)
  then have "length (owned_ids (px_owner d) r') < length (owned_ids (px_owner d) r)"
    using psubset_card_mono distinct_card [OF owned_ids_distinct [OF tree]] distinct_card [OF owned_ids_distinct [OF tree']]
    by (metis List.finite_set)
  moreover have "length (owned_ids (px_owner d) r) \<le> MAX_ACTIONS_PER_PLUGIN"
    using base(1) by (simp add: registry_base_def)
  ultimately have room: "length (owned_ids (px_owner d) r') < MAX_ACTIONS_PER_PLUGIN" by simp
  have dok: "plugin_def_ok ?p d" using registry_base_def_ok(1) [OF base(1) reg] .
  have "registry_base ?r" by (rule register_new_base [OF base(2) dok new room])
  moreover have dormant: "map_of (ko_dormant (rg_overrides r')) (plugin_action_key ?p) = map_of (ko_plugin (rg_overrides r)) ?p"
    using absent p by (simp add: absent_def absent_base_def)
  moreover have "map_of (ko_dormant (rg_overrides r)) (plugin_action_key ?p) = None"
    using registry_base_def_ok(2) [OF base(1) reg] .
  moreover have "plugin_action_key q \<noteq> plugin_action_key ?p" if "q \<in> S" "q \<noteq> ?p" for q
    using that S p by (auto dest: plugin_action_key_inject)
  ultimately have "absent_base (S - {?p}) r ?r"
    using absent reg live p unfolding absent_def absent_base_def
    by (auto simp: adopt_dormant_lookup fun_eq_iff image_iff split: option.split)
  then have "absent (S - {?p}) r (rebuild ?r)" by (simp add: absent_def)
  moreover have "register_action d r' = Inr (rebuild ?r)"
    using new room by (simp add: register_action_def)
  ultimately show ?thesis by blast
qed

fun register_each :: "plugin_action_def list \<Rightarrow> action_registry \<Rightarrow> action_limit + action_registry" where
  "register_each [] r = Inr r"
| "register_each (d # ds) r = (case register_action d r of Inl e \<Rightarrow> Inl e | Inr r' \<Rightarrow> register_each ds r')"

definition owned_defs :: "u16 \<Rightarrow> action_registry \<Rightarrow> plugin_action_def list" where
  "owned_defs owner r = filter (\<lambda>d. px_owner d = owner) (map snd (rg_plugin_defs r))"

lemma register_each_back:
  "absent S r r' \<Longrightarrow> registry_ok r \<Longrightarrow> \<forall>q\<in>S. plugin_action_ok q \<Longrightarrow> S = px_id ` set ds \<Longrightarrow> distinct (map px_id ds) \<Longrightarrow>
   list_all (\<lambda>d. map_of (rg_plugin_defs r) (px_id d) = Some d \<and> map_of (rg_plugin_enabled r) (px_id d) = Some True) ds \<Longrightarrow>
   register_each ds r' = Inr r"
proof (induction ds arbitrary: S r')
  case Nil
  then show ?case using absent_empty by auto
next
  case (Cons d ds)
  then obtain r'' where r'': "register_action d r' = Inr r''" "absent (S - {px_id d}) r r''"
    using register_back [of S r r' d] by auto
  have "register_each ds r'' = Inr r"
    by (rule Cons.IH [OF r''(2)]) (use Cons.prems in auto)
  with r''(1) show ?case by simp
qed

lemma owned_defs_ids:
  assumes "registry_base r"
  shows "map px_id (owned_defs owner r) = owned_ids owner r"
proof -
  have "map px_id (filter (\<lambda>d. px_owner d = owner) (map snd m)) = map fst (filter (\<lambda>(_, d). px_owner d = owner) m)"
    if "list_all (\<lambda>(p, d). px_id d = p) m" for m :: "(plugin_action_id \<times> plugin_action_def) list"
    using that
  proof (induction m)
    case (Cons e m)
    then show ?case by (cases e) simp
  qed simp
  moreover have "list_all (\<lambda>(p, d). px_id d = p) (rg_plugin_defs r)"
    using assms by (auto simp: registry_base_def plugin_def_ok_def list_all_iff)
  ultimately show ?thesis by (simp add: owned_defs_def owned_ids_def)
qed

lemma restart_restores:
  assumes ok: "registry_ok r" and live: "list_all (\<lambda>p. map_of (rg_plugin_enabled r) p = Some True) (owned_ids owner r)"
    and ds: "mset ds = mset (owned_defs owner r)"
  shows "register_each ds (unregister_plugin_actions owner r) = Inr r"
proof (rule register_each_back [OF unregister_absent [OF ok] ok])
  have base: "registry_base r" using ok by (simp add: registry_ok_base)
  note trees = registry_base_trees [OF base]
  show "\<forall>q\<in>set (owned_ids owner r). plugin_action_ok q"
    using owned_ids_ok [OF base] by (simp add: list_all_iff)
  have set: "set ds = set (owned_defs owner r)" using ds by (metis set_mset_mset)
  show "set (owned_ids owner r) = px_id ` set ds"
    unfolding set owned_defs_ids [OF base, symmetric] by simp
  have "mset (map px_id ds) = mset (map px_id (owned_defs owner r))"
    using ds by (simp only: mset_map)
  then show "distinct (map px_id ds)"
    using owned_ids_distinct [OF trees(1), of owner] mset_eq_imp_distinct_iff
    unfolding owned_defs_ids [OF base] by blast
  have "map_of (rg_plugin_defs r) (px_id d) = Some d \<and> map_of (rg_plugin_enabled r) (px_id d) = Some True"
    if "d \<in> set (owned_defs owner r)" for d
  proof -
    from that obtain p where p: "(p, d) \<in> set (rg_plugin_defs r)" by (auto simp: owned_defs_def)
    then have "map_of (rg_plugin_defs r) p = Some d" using tree_ok_lookup [OF trees(1)] by simp
    moreover from registry_base_def_ok(1) [OF base this] have "px_id d = p" by (simp add: plugin_def_ok_def)
    moreover have "px_id d \<in> set (owned_ids owner r)"
      using that unfolding owned_defs_ids [OF base, symmetric] by simp
    ultimately show ?thesis using live by (auto simp: list_all_iff)
  qed
  then show "list_all (\<lambda>d. map_of (rg_plugin_defs r) (px_id d) = Some d \<and>
      map_of (rg_plugin_enabled r) (px_id d) = Some True) ds"
    by (simp add: list_all_iff set)
qed

section \<open>Resetting while a plugin is stopped\<close>

lemma reset_forgets_parked:
  assumes ok: "registry_ok r" and reg: "map_of (rg_plugin_defs r) p = Some d"
  shows "\<exists>r'. register_action d (reset_all (unregister_plugin_actions (px_owner d) r)) = Inr r' \<and>
     effective_of r' (PluginActionRef p) = (case px_default_binding d of Some c \<Rightarrow> [c] | None \<Rightarrow> [])"
proof -
  let ?u = "unregister_plugin_actions (px_owner d) r"
  let ?z = "reset_all ?u"
  have base: "registry_base r" using ok by (simp add: registry_ok_base)
  note trees = registry_base_trees [OF base]
  have absent: "absent_base (set (owned_ids (px_owner d) r)) r ?u"
    using unregister_absent [OF ok] by (simp add: absent_def)
  have id: "px_id d = p" using registry_base_def_ok(1) [OF base reg] by (simp add: plugin_def_ok_def)
  have mem: "p \<in> set (owned_ids (px_owner d) r)" using reg by (auto simp: owned_ids_iff [OF trees(1)])
  have u_defs: "map_of (rg_plugin_defs ?u) p = None" and u_plugin: "map_of (ko_plugin (rg_overrides ?u)) p = None"
    using absent mem by (auto simp: absent_base_def)
  have z_ok: "registry_ok ?z" using ok by (intro reset_all_keeps unregister_keeps)
  then have z_base: "registry_base ?z" by (simp add: registry_ok_base)
  have z_defs: "rg_plugin_defs ?z = rg_plugin_defs ?u" by (simp add: defs_frames)
  have new: "map_of (rg_plugin_defs ?z) (px_id d) = None" using u_defs by (simp add: z_defs id)
  have "set (owned_ids (px_owner d) ?u) = {}"
  proof -
    have "tree_ok (rg_plugin_defs ?u)" using absent by (auto simp: absent_base_def registry_base_def)
    then have "q \<notin> set (owned_ids (px_owner d) ?u)" for q
      using absent by (auto simp: owned_ids_iff [of ?u] owned_ids_iff [OF trees(1)] absent_base_def simp del: set_empty)
    then show ?thesis by (intro equals0I) blast
  qed
  moreover have "owned_ids (px_owner d) ?z = owned_ids (px_owner d) ?u" by (simp add: owned_ids_def z_defs)
  ultimately have room: "owned_ids (px_owner d) ?z = []" by (simp only: set_empty)
  have z_over: "rg_overrides ?z = fold (plugin_defaults ?u) (ko_plugin (rg_overrides ?u)) overrides_default"
    by (simp add: reset_all_alt)
  have "p \<notin> set (map fst (ko_plugin (rg_overrides ?u)))"
    using u_plugin by (simp add: map_of_eq_None_iff)
  from plugin_defaults_other [OF this, of ?u overrides_default]
  have none: "map_of (ko_plugin (rg_overrides ?z)) p = None" "ko_dormant (rg_overrides ?z) = []"
    unfolding z_over by (simp_all add: overrides_default_def)
  let ?r = "?z\<lparr>rg_overrides := adopt_dormant p (rg_overrides ?z),
      rg_plugin_enabled := tree_insert p True (rg_plugin_enabled ?z),
      rg_plugin_defs := tree_insert p d (rg_plugin_defs ?z)\<rparr>"
  have "register_action d ?z = Inr (rebuild ?r)"
    using new room by (simp add: register_action_def id MAX_ACTIONS_PER_PLUGIN_def)
  moreover have "effective_of (rebuild ?r) (PluginActionRef p) =
      (case px_default_binding d of Some c \<Rightarrow> [c] | None \<Rightarrow> [])"
    using none by (simp add: effective_plugin get_plugin_def adopt_dormant_lookup)
  ultimately show ?thesis by blast
qed

section \<open>The shipped bindings do not conflict\<close>

lemma reset_all_host_defaults:
  assumes "registry_ok r" "host_action_ok a"
  shows "effective_of (reset_all r) (HostActionId a) = default_chords a"
  using reset_all_keeps [OF assms(1)] assms(2)
  by (simp add: effective_host registry_ok_base overrides_get_def reset_all_alt overrides_default_def)

lemma tier_of_other:
  assumes "registry_ok r" "HostTier \<le> tier_of r i"
  obtains a where "i = HostActionId a"
proof (cases i)
  case (PluginActionRef p)
  have "tier_of r i \<noteq> HostTier"
  proof (cases "map_of (rg_plugin_defs r) p")
    case (Some d)
    have "registry_base r" using assms(1) by (simp add: registry_ok_base)
    from registry_base_def_ok(1) [OF this Some] Some PluginActionRef show ?thesis
      by (simp add: tier_of_def plugin_def_ok_def)
  qed (simp add: PluginActionRef tier_of_def)
  with assms(2) have False by (cases "tier_of r i") (auto simp: less_eq_owner_tier_def)
  then show thesis ..
qed (use that in blast)

lemma reset_all_host_free:
  assumes "registry_ok r"
  shows "\<not> is_conflicting (reset_all r) (HostActionId a) c"
proof
  assume "is_conflicting (reset_all r) (HostActionId a) c"
  with conflict_iff [OF reset_all_keeps [OF assms]] obtain other where
    held: "holds (reset_all r) c (HostActionId a)" "other \<noteq> HostActionId a" "holds (reset_all r) c other"
      "tier_of (reset_all r) (HostActionId a) \<le> tier_of (reset_all r) other" by blast
  then have "HostTier \<le> tier_of (reset_all r) other" by (simp add: tier_of_def)
  with tier_of_other [OF reset_all_keeps [OF assms]] obtain b where b: "other = HostActionId b" by blast
  with held have "host_action_ok a" "host_action_ok b" "a \<noteq> b" "c \<in> set (default_chords a)" "c \<in> set (default_chords b)"
    by (auto simp: holds_def action_exists_def reset_all_host_defaults [OF assms])
  with defaults_disjoint show False by blast
qed

end
