(* ===== verification/Settings_Model.thy ===== *)
theory Settings_Model
  imports Actions_Restart Effect_Catalog Focus
begin

text \<open>
  The settings file: \<^verbatim>\<open>crates/modplayer-core/src/settings/model.rs\<close>, \<^verbatim>\<open>window.rs\<close> and
  \<^verbatim>\<open>store.rs\<close>, over the value types of \<^verbatim>\<open>crates/modplayer-engine/src/types.rs\<close> and the
  limiter they configure. The TOML text is the business of \<^verbatim>\<open>toml\<close>: the model stops at the raw
  records it reads and writes, and the reading of a time stamp is a parameter. A \<^verbatim>\<open>f64\<close> of the
  file is a \<^typ>\<open>f32\<close> of the model: a rational, an infinity or NaN; the cast to 32 bits keeps the
  rational and turns what is out of range into an infinity. Rounding is not modelled.
\<close>

section \<open>Numbers\<close>

text \<open>The least magnitude that rounds to an infinity.\<close>

definition F32_OVERFLOW :: rat where
  "F32_OVERFLOW = (2 - 1 / 2 ^ 24) * 2 ^ 127"

fun as_f32 :: "f32 \<Rightarrow> f32" where
  "as_f32 (Finite x) = (if F32_OVERFLOW \<le> x then PosInf else if x \<le> - F32_OVERFLOW then NegInf else Finite x)"
| "as_f32 v = v"

text \<open>\<^verbatim>\<open>f32::clamp\<close>: NaN stays NaN.\<close>

fun f32_clamp :: "rat \<Rightarrow> rat \<Rightarrow> f32 \<Rightarrow> f32" where
  "f32_clamp lo hi NaN = NaN"
| "f32_clamp lo hi v = Finite (saturate lo hi v)"

fun f32_map :: "(rat \<Rightarrow> rat) \<Rightarrow> f32 \<Rightarrow> f32" where
  "f32_map f (Finite x) = Finite (f x)"
| "f32_map f v = v"

section \<open>Value types of the engine\<close>

datatype buffer_preset = PresetPerformance | PresetBalanced | PresetSafe

fun requested_frames :: "buffer_preset \<Rightarrow> nat" where
  "requested_frames PresetPerformance = 128"
| "requested_frames PresetBalanced = 256"
| "requested_frames PresetSafe = 1024"

definition CEILING_MIN :: rat where "CEILING_MIN = -6"
definition CEILING_MAX :: rat where "CEILING_MAX = - (1 / 10)"
definition CEILING_STEP :: rat where "CEILING_STEP = 1 / 10"

datatype ceiling_db = CeilingDb (ceiling_value: f32)

definition ceiling_new :: "f32 \<Rightarrow> ceiling_db" where
  "ceiling_new db =
     (let clamped = f32_clamp CEILING_MIN CEILING_MAX db;
          stepped = f32_map (\<lambda>n. n * CEILING_STEP) (f32_round (f32_map (\<lambda>x. x / CEILING_STEP) clamped))
      in CeilingDb (f32_clamp CEILING_MIN CEILING_MAX stepped))"

definition ceiling_from_f64 :: "f32 \<Rightarrow> ceiling_db" where
  "ceiling_from_f64 db = ceiling_new (as_f32 db)"

definition ceiling_default :: ceiling_db where
  "ceiling_default = ceiling_new (Finite (-1))"

definition volume_from_i64 :: "int \<Rightarrow> nat" where
  "volume_from_i64 pct = nat (min 100 (max 0 pct))"

record safe_volume =
  sv_enabled :: bool
  sv_cap :: nat

definition safe_volume_default :: safe_volume where
  "safe_volume_default = \<lparr>sv_enabled = True, sv_cap = 50\<rparr>"

definition safe_volume_apply :: "safe_volume \<Rightarrow> nat \<Rightarrow> nat" where
  "safe_volume_apply sv stored =
     (if sv_enabled sv then volume_percent_new (min stored (sv_cap sv)) else stored)"

datatype theme = ThemeSystem | ThemeLight | ThemeDark

definition device_id_new :: "ustring \<Rightarrow> ustring option" where
  "device_id_new s = (if s = [] then None else Some s)"

section \<open>The limiter\<close>

text \<open>\<open>to_linear\<close> is \<^verbatim>\<open>10f32.powf(db / 20.0)\<close>. A sample is clamped between the negated ceiling
  and the ceiling; \<^verbatim>\<open>f32::clamp\<close> panics when a bound is NaN or the bounds are out of order.\<close>

record limiter =
  lm_ceiling_lin :: f32

definition limiter_new :: "(f32 \<Rightarrow> f32) \<Rightarrow> ceiling_db \<Rightarrow> limiter" where
  "limiter_new to_linear c = \<lparr>lm_ceiling_lin = to_linear (ceiling_value c)\<rparr>"

definition limiter_set_ceiling :: "(f32 \<Rightarrow> f32) \<Rightarrow> ceiling_db \<Rightarrow> limiter \<Rightarrow> limiter" where
  "limiter_set_ceiling to_linear c l =
     l\<lparr>lm_ceiling_lin := to_linear (ceiling_value (ceiling_new (ceiling_value c)))\<rparr>"

definition limit_sample :: "f32 \<Rightarrow> f32 \<Rightarrow> f32 option" where
  "limit_sample lin x =
     (case lin of
        NaN \<Rightarrow> None
      | NegInf \<Rightarrow> None
      | Finite c \<Rightarrow> if - c \<le> c then Some (f32_clamp (- c) c x) else None
      | PosInf \<Rightarrow> Some x)"

text \<open>\<open>None\<close>: the call panics.\<close>

fun limiter_process :: "limiter \<Rightarrow> f32 list \<Rightarrow> f32 list option" where
  "limiter_process l [] = Some []"
| "limiter_process l (x # xs) =
     (case limit_sample (lm_ceiling_lin l) x of
        None \<Rightarrow> None
      | Some y \<Rightarrow> map_option (\<lambda>ys. y # ys) (limiter_process l xs))"

section \<open>The settings\<close>

datatype panel_placement = Docked | Floated

fun placement_wire_name :: "panel_placement \<Rightarrow> string" where
  "placement_wire_name Docked = ''docked''"
| "placement_wire_name Floated = ''floated''"

definition placement_parse :: "ustring \<Rightarrow> panel_placement option" where
  "placement_parse s =
     (if s = utf ''docked'' then Some Docked else if s = utf ''floated'' then Some Floated else None)"

record panel_persisted =
  pz_placement :: panel_placement
  pz_x :: "f32 option"
  pz_y :: "f32 option"
  pz_w :: "f32 option"
  pz_h :: "f32 option"
  pz_disabled :: bool

definition SETTINGS_SCHEMA_VERSION :: nat where "SETTINGS_SCHEMA_VERSION = 1"

record disclosure_ack =
  da_version :: nat
  da_at :: int

record now_playing_panels =
  np_effect_chain :: bool
  np_transport :: bool
  np_queue :: bool
  np_markers :: bool

definition panels_default :: now_playing_panels where
  "panels_default = \<lparr>np_effect_chain = False, np_transport = False, np_queue = False, np_markers = True\<rparr>"

definition DEFAULT_INNER_WIDTH :: rat where "DEFAULT_INNER_WIDTH = 1200"
definition DEFAULT_INNER_HEIGHT :: rat where "DEFAULT_INNER_HEIGHT = 820"
definition MIN_INNER_WIDTH :: rat where "MIN_INNER_WIDTH = 960"
definition MIN_INNER_HEIGHT :: rat where "MIN_INNER_HEIGHT = 640"
definition DOCK_WIDTH_DEFAULT :: rat where "DOCK_WIDTH_DEFAULT = 280"
definition DOCK_WIDTH_MIN :: rat where "DOCK_WIDTH_MIN = 240"
definition DOCK_WIDTH_MAX :: rat where "DOCK_WIDTH_MAX = 480"

record window_settings =
  ws_inner_width :: rat
  ws_inner_height :: rat
  ws_dock_width :: rat

definition window_default :: window_settings where
  "window_default =
     \<lparr>ws_inner_width = DEFAULT_INNER_WIDTH, ws_inner_height = DEFAULT_INNER_HEIGHT, ws_dock_width = DOCK_WIDTH_DEFAULT\<rparr>"

fun focus_wire_name :: "focus_policy \<Rightarrow> string" where
  "focus_wire_name Manual = ''manual''"
| "focus_wire_name AutoOnInteraction = ''auto_on_interaction''"
| "focus_wire_name FirstRequestWins = ''first_request_wins''"

definition focus_parse :: "ustring \<Rightarrow> focus_policy option" where
  "focus_parse s =
     (if s = utf ''manual'' then Some Manual
      else if s = utf ''auto_on_interaction'' then Some AutoOnInteraction
      else if s = utf ''first_request_wins'' then Some FirstRequestWins else None)"

record audio_settings =
  au_output_device :: "ustring option"
  au_output_device_name :: "ustring option"
  au_device_confirmed :: bool
  au_buffer_preset :: buffer_preset
  au_limiter_ceiling_db :: ceiling_db
  au_safe_volume :: safe_volume
  au_master_volume :: nat
  au_theme :: theme
  au_high_contrast :: bool
  au_disclosure :: "disclosure_ack option"
  au_device_name :: "ustring option"
  au_connect_device_id :: "ustring option"
  au_nudge_step_ms :: nat
  au_keybinding_overrides :: keymap_overrides
  au_focus_policy :: focus_policy
  au_plugin_panels :: "(ustring \<times> panel_persisted) list"
  au_getting_started_dismissed :: bool
  au_now_playing_panels :: now_playing_panels
  au_window :: window_settings
  au_schema_version :: nat

definition DEFAULT_NUDGE_STEP_MS :: nat where "DEFAULT_NUDGE_STEP_MS = 10"

definition audio_settings_default :: audio_settings where
  "audio_settings_default =
     \<lparr>au_output_device = None, au_output_device_name = None, au_device_confirmed = False,
      au_buffer_preset = PresetBalanced, au_limiter_ceiling_db = ceiling_default,
      au_safe_volume = safe_volume_default, au_master_volume = volume_percent_new 80, au_theme = ThemeSystem,
      au_high_contrast = False, au_disclosure = None, au_device_name = None, au_connect_device_id = None,
      au_nudge_step_ms = DEFAULT_NUDGE_STEP_MS, au_keybinding_overrides = overrides_default,
      au_focus_policy = AutoOnInteraction, au_plugin_panels = [], au_getting_started_dismissed = False,
      au_now_playing_panels = panels_default, au_window = window_default,
      au_schema_version = SETTINGS_SCHEMA_VERSION\<rparr>"

definition clamp_nudge_step_ms :: "int \<Rightarrow> nat" where
  "clamp_nudge_step_ms raw = nat (min 1000 (max 1 raw))"

datatype invalid_field =
    InvalidBufferPreset | InvalidTheme | InvalidHighContrast | InvalidDeviceName | InvalidFocusPolicy
  | InvalidPluginPanel ustring

fun invalid_field_name :: "invalid_field \<Rightarrow> string" where
  "invalid_field_name InvalidBufferPreset = ''audio.buffer_preset''"
| "invalid_field_name InvalidTheme = ''appearance.theme''"
| "invalid_field_name InvalidHighContrast = ''appearance.high_contrast''"
| "invalid_field_name InvalidDeviceName = ''playback.device_name''"
| "invalid_field_name InvalidFocusPolicy = ''transport.focus_policy''"
| "invalid_field_name (InvalidPluginPanel _) = ''plugin_panels''"

definition DEVICE_NAME_MAX_LEN :: nat where "DEVICE_NAME_MAX_LEN = 64"

text \<open>\<open>None\<close>: too long. \<open>Some None\<close>: empty, the default name.\<close>

definition device_name_parse :: "ustring \<Rightarrow> ustring option option" where
  "device_name_parse input =
     (let trimmed = trim input
      in if trimmed = [] then Some None
         else if length trimmed > DEVICE_NAME_MAX_LEN then None
         else Some (Some trimmed))"

definition is_hex_digit :: "nat \<Rightarrow> bool" where
  "is_hex_digit c \<longleftrightarrow> (48 \<le> c \<and> c \<le> 57) \<or> (65 \<le> c \<and> c \<le> 70) \<or> (97 \<le> c \<and> c \<le> 102)"

definition is_valid_connect_device_id :: "ustring \<Rightarrow> bool" where
  "is_valid_connect_device_id s \<longleftrightarrow> length s = 32 \<and> list_all is_hex_digit s"

section \<open>The raw file\<close>

datatype toml_value =
    TomlString ustring | TomlInteger int | TomlFloat f32 | TomlBool bool | TomlArray "toml_value list" | TomlOther

record raw_panel =
  rp_placement :: ustring
  rp_x :: "f32 option"
  rp_y :: "f32 option"
  rp_w :: "f32 option"
  rp_h :: "f32 option"
  rp_disabled :: bool

record raw_audio =
  ru_output_device :: "ustring option"
  ru_output_device_name :: "ustring option"
  ru_device_confirmed :: bool
  ru_buffer_preset :: ustring
  ru_limiter_ceiling_db :: f32
  ru_master_volume :: int
  ru_safe_enabled :: bool
  ru_safe_cap :: int

record raw_settings =
  rw_schema_version :: nat
  rw_audio :: raw_audio
  rw_theme :: ustring
  rw_high_contrast :: toml_value
  rw_acknowledged_version :: nat
  rw_acknowledged_at :: "ustring option"
  rw_device_name :: "ustring option"
  rw_connect_device_id :: "ustring option"
  rw_nudge_step_ms :: int
  rw_focus_policy :: ustring
  rw_keybindings :: "(ustring \<times> toml_value) list"
  rw_plugin_panels :: "(ustring \<times> raw_panel) list"
  rw_getting_started_dismissed :: bool
  rw_now_playing_panels :: now_playing_panels
  rw_inner_width :: "toml_value option"
  rw_inner_height :: "toml_value option"
  rw_dock_width :: "toml_value option"

section \<open>Writing\<close>

definition encode_chords :: "chord list \<Rightarrow> toml_value" where
  "encode_chords chords = TomlArray (map (\<lambda>c. TomlString (chord_encode c)) chords)"

fun preset_wire :: "buffer_preset \<Rightarrow> string" where
  "preset_wire PresetPerformance = ''performance''"
| "preset_wire PresetBalanced = ''balanced''"
| "preset_wire PresetSafe = ''safe''"

fun theme_wire :: "theme \<Rightarrow> string" where
  "theme_wire ThemeSystem = ''system''"
| "theme_wire ThemeLight = ''light''"
| "theme_wire ThemeDark = ''dark''"

text \<open>The host overrides are collected first, plugin entries and then dormant ones inserted over them.\<close>

definition keybindings_of :: "keymap_overrides \<Rightarrow> (ustring \<times> toml_value) list" where
  "keybindings_of o1 =
     (let host = fold (\<lambda>(a, cs). tree_insert (utf (host_action_id a)) (encode_chords cs)) (ko_host o1) [];
          plugin = fold (\<lambda>(p, cs). tree_insert (plugin_action_key p) (encode_chords cs)) (ko_plugin o1) host
      in fold (\<lambda>(key, cs). tree_insert key (encode_chords cs)) (ko_dormant o1) plugin)"

definition panel_to_raw :: "panel_persisted \<Rightarrow> raw_panel" where
  "panel_to_raw p =
     \<lparr>rp_placement = utf (placement_wire_name (pz_placement p)), rp_x = pz_x p, rp_y = pz_y p, rp_w = pz_w p,
      rp_h = pz_h p, rp_disabled = pz_disabled p\<rparr>"

definition audio_to_raw :: "audio_settings \<Rightarrow> raw_audio" where
  "audio_to_raw s =
     \<lparr>ru_output_device = au_output_device s, ru_output_device_name = au_output_device_name s,
      ru_device_confirmed = au_device_confirmed s, ru_buffer_preset = utf (preset_wire (au_buffer_preset s)),
      ru_limiter_ceiling_db = ceiling_value (au_limiter_ceiling_db s), ru_master_volume = int (au_master_volume s),
      ru_safe_enabled = sv_enabled (au_safe_volume s), ru_safe_cap = int (sv_cap (au_safe_volume s))\<rparr>"

text \<open>\<open>format_time\<close> is \<^verbatim>\<open>OffsetDateTime::format(&Rfc3339).ok()\<close>.\<close>

definition from_settings :: "(int \<Rightarrow> ustring option) \<Rightarrow> audio_settings \<Rightarrow> raw_settings" where
  "from_settings format_time s =
     \<lparr>rw_schema_version = au_schema_version s, rw_audio = audio_to_raw s, rw_theme = utf (theme_wire (au_theme s)),
      rw_high_contrast = TomlBool (au_high_contrast s),
      rw_acknowledged_version = (case au_disclosure s of Some a \<Rightarrow> da_version a | None \<Rightarrow> 0),
      rw_acknowledged_at = (case au_disclosure s of Some a \<Rightarrow> format_time (da_at a) | None \<Rightarrow> None),
      rw_device_name = au_device_name s, rw_connect_device_id = au_connect_device_id s,
      rw_nudge_step_ms = int (au_nudge_step_ms s), rw_focus_policy = utf (focus_wire_name (au_focus_policy s)),
      rw_keybindings = keybindings_of (au_keybinding_overrides s),
      rw_plugin_panels = map (\<lambda>(key, p). (key, panel_to_raw p)) (au_plugin_panels s),
      rw_getting_started_dismissed = au_getting_started_dismissed s,
      rw_now_playing_panels = au_now_playing_panels s,
      rw_inner_width = Some (TomlFloat (Finite (ws_inner_width (au_window s)))),
      rw_inner_height = Some (TomlFloat (Finite (ws_inner_height (au_window s)))),
      rw_dock_width = Some (TomlFloat (Finite (ws_dock_width (au_window s))))\<rparr>"

section \<open>Reading\<close>

text \<open>The loop over the items of one entry; \<open>None\<close> drops the entry.\<close>

fun decode_chord_items :: "toml_value list \<Rightarrow> chord list \<Rightarrow> chord list option" where
  "decode_chord_items [] chords = Some chords"
| "decode_chord_items (item # items) chords =
     (case item of
        TomlString raw \<Rightarrow>
          (case chord_parse raw of
             Inl _ \<Rightarrow> None
           | Inr c \<Rightarrow> decode_chord_items items (if c \<in> set chords then chords else chords @ [c]))
      | _ \<Rightarrow> None)"

definition decode_keybinding_entry :: "toml_value \<Rightarrow> chord list option" where
  "decode_keybinding_entry v = (case v of TomlArray items \<Rightarrow> decode_chord_items items [] | _ \<Rightarrow> None)"

definition read_keybinding ::
  "ustring \<times> toml_value \<Rightarrow> keymap_overrides \<times> ustring list \<Rightarrow> keymap_overrides \<times> ustring list" where
  "read_keybinding e acc =
     (let (key, value) = e; (o1, dropped) = acc
      in if starts_with (utf ''host.'') key
         then case decode_keybinding_entry value of
                Some chords \<Rightarrow>
                  (case host_action_parse key of
                     Some a \<Rightarrow> (overrides_set a chords o1, dropped)
                   | None \<Rightarrow> (o1, dropped @ [key]))
              | None \<Rightarrow> (o1, dropped @ [key])
         else case decode_keybinding_entry value of
                Some chords \<Rightarrow> (set_dormant key chords o1, dropped)
              | None \<Rightarrow> (o1, dropped))"

definition preset_read :: "ustring \<Rightarrow> buffer_preset option" where
  "preset_read s =
     (if s = utf ''performance'' then Some PresetPerformance
      else if s = utf ''balanced'' then Some PresetBalanced
      else if s = utf ''safe'' then Some PresetSafe else None)"

definition theme_read :: "ustring \<Rightarrow> theme option" where
  "theme_read s =
     (if s = utf ''system'' then Some ThemeSystem
      else if s = utf ''light'' then Some ThemeLight
      else if s = utf ''dark'' then Some ThemeDark else None)"

fun positive_finite :: "toml_value option \<Rightarrow> rat option" where
  "positive_finite (Some (TomlFloat (Finite x))) = (if 0 < x then Some x else None)"
| "positive_finite (Some (TomlInteger i)) = (if 0 < i then Some (of_int i) else None)"
| "positive_finite _ = None"

definition sanitize_inner :: "rat \<Rightarrow> rat \<Rightarrow> toml_value option \<Rightarrow> rat" where
  "sanitize_inner least dflt value =
     (case map_option (\<lambda>x. as_f32 (Finite x)) (positive_finite value) of
        Some (Finite v) \<Rightarrow> max v least
      | _ \<Rightarrow> dflt)"

definition sanitize_dock_width :: "toml_value option \<Rightarrow> rat" where
  "sanitize_dock_width value =
     (case positive_finite value of
        None \<Rightarrow> DOCK_WIDTH_DEFAULT
      | Some x \<Rightarrow> saturate DOCK_WIDTH_MIN DOCK_WIDTH_MAX (as_f32 (Finite x)))"

definition read_panel ::
  "ustring \<times> raw_panel \<Rightarrow> (ustring \<times> panel_persisted) list \<times> invalid_field list \<Rightarrow>
   (ustring \<times> panel_persisted) list \<times> invalid_field list" where
  "read_panel e acc =
     (let (key, raw) = e; (panels, invalid) = acc
      in case placement_parse (rp_placement raw) of
           Some placement \<Rightarrow>
             (tree_insert key
                \<lparr>pz_placement = placement, pz_x = rp_x raw, pz_y = rp_y raw, pz_w = rp_w raw, pz_h = rp_h raw,
                 pz_disabled = rp_disabled raw\<rparr> panels, invalid)
         | None \<Rightarrow> (panels, invalid @ [InvalidPluginPanel key]))"

text \<open>A field read with \<open>read\<close>, or its default and a complaint.\<close>

definition field_or :: "'a \<Rightarrow> invalid_field \<Rightarrow> 'a option \<Rightarrow> 'a \<times> invalid_field list" where
  "field_or dflt complaint v = (case v of Some x \<Rightarrow> (x, []) | None \<Rightarrow> (dflt, [complaint]))"

definition not_blank :: "ustring option \<Rightarrow> ustring option" where
  "not_blank v = (case v of Some s \<Rightarrow> if trim s = [] then None else Some s | None \<Rightarrow> None)"

text \<open>\<open>parse_time\<close> is \<^verbatim>\<open>OffsetDateTime::parse(_, &Rfc3339).ok()\<close>; the epoch is 0.\<close>

definition read_disclosure :: "(ustring \<Rightarrow> int option) \<Rightarrow> nat \<Rightarrow> ustring option \<Rightarrow> disclosure_ack option" where
  "read_disclosure parse_time version stamp =
     (if 0 < version
      then Some \<lparr>da_version = version,
                 da_at = (case Option.bind stamp parse_time of Some t \<Rightarrow> t | None \<Rightarrow> 0)\<rparr>
      else None)"

definition read_device_name :: "ustring option \<Rightarrow> ustring option \<times> invalid_field list" where
  "read_device_name raw =
     (case raw of
        None \<Rightarrow> (None, [])
      | Some s \<Rightarrow> (case device_name_parse s of Some name \<Rightarrow> (name, []) | None \<Rightarrow> (None, [InvalidDeviceName])))"

definition into_settings ::
  "(ustring \<Rightarrow> int option) \<Rightarrow> raw_settings \<Rightarrow> audio_settings \<times> invalid_field list \<times> ustring list" where
  "into_settings parse_time raw =
     (let (overrides, dropped) = fold read_keybinding (rw_keybindings raw) (overrides_default, []);
          (preset, bad1) = field_or PresetBalanced InvalidBufferPreset (preset_read (ru_buffer_preset (rw_audio raw)));
          (thm1, bad2) = field_or ThemeSystem InvalidTheme (theme_read (rw_theme raw));
          (contrast, bad3) = field_or False InvalidHighContrast
            (case rw_high_contrast raw of TomlBool b \<Rightarrow> Some b | _ \<Rightarrow> None);
          (policy, bad4) = field_or AutoOnInteraction InvalidFocusPolicy (focus_parse (rw_focus_policy raw));
          (name, bad5) = read_device_name (rw_device_name raw);
          (panels, invalid) = fold read_panel (rw_plugin_panels raw) ([], bad1 @ bad2 @ bad3 @ bad4 @ bad5)
      in (\<lparr>au_output_device = Option.bind (ru_output_device (rw_audio raw)) device_id_new,
           au_output_device_name = not_blank (ru_output_device_name (rw_audio raw)),
           au_device_confirmed = ru_device_confirmed (rw_audio raw), au_buffer_preset = preset,
           au_limiter_ceiling_db = ceiling_from_f64 (ru_limiter_ceiling_db (rw_audio raw)),
           au_safe_volume = \<lparr>sv_enabled = ru_safe_enabled (rw_audio raw),
             sv_cap = volume_from_i64 (ru_safe_cap (rw_audio raw))\<rparr>,
           au_master_volume = volume_from_i64 (ru_master_volume (rw_audio raw)), au_theme = thm1,
           au_high_contrast = contrast,
           au_disclosure = read_disclosure parse_time (rw_acknowledged_version raw) (rw_acknowledged_at raw),
           au_device_name = name,
           au_connect_device_id =
             (case rw_connect_device_id raw of
                Some s \<Rightarrow> if is_valid_connect_device_id s then Some s else None | None \<Rightarrow> None),
           au_nudge_step_ms = clamp_nudge_step_ms (rw_nudge_step_ms raw), au_keybinding_overrides = overrides,
           au_focus_policy = policy, au_plugin_panels = panels,
           au_getting_started_dismissed = rw_getting_started_dismissed raw,
           au_now_playing_panels = rw_now_playing_panels raw,
           au_window = \<lparr>ws_inner_width = sanitize_inner MIN_INNER_WIDTH DEFAULT_INNER_WIDTH (rw_inner_width raw),
             ws_inner_height = sanitize_inner MIN_INNER_HEIGHT DEFAULT_INNER_HEIGHT (rw_inner_height raw),
             ws_dock_width = sanitize_dock_width (rw_dock_width raw)\<rparr>,
           au_schema_version = rw_schema_version raw\<rparr>, invalid, dropped))"

section \<open>The store\<close>

datatype settings_warning =
  SettingsUnreadable | SettingsNewerVersion | SettingsInvalidValue "invalid_field list" | SettingsInvalidKeybindings "ustring list"

fun settings_message_key :: "settings_warning \<Rightarrow> string" where
  "settings_message_key SettingsUnreadable = ''settings-unreadable''"
| "settings_message_key SettingsNewerVersion = ''settings-newer-version''"
| "settings_message_key (SettingsInvalidValue _) = ''settings-invalid-value''"
| "settings_message_key (SettingsInvalidKeybindings _) = ''keybindings-invalid-entries''"

text \<open>What the disk holds: nothing, something that is not the raw file, or the raw file.\<close>

datatype settings_disk = NoSettings | BadSettings | RawFile raw_settings

definition settings_load ::
  "(ustring \<Rightarrow> int option) \<Rightarrow> settings_disk \<Rightarrow> audio_settings \<times> settings_warning list" where
  "settings_load parse_time disk =
     (case disk of
        NoSettings \<Rightarrow> (audio_settings_default, [])
      | BadSettings \<Rightarrow> (audio_settings_default, [SettingsUnreadable])
      | RawFile raw \<Rightarrow>
          if rw_schema_version raw > SETTINGS_SCHEMA_VERSION then (audio_settings_default, [SettingsNewerVersion])
          else let (s, invalid, dropped) = into_settings parse_time raw
               in (s, (if invalid = [] then [] else [SettingsInvalidValue invalid]) @
                      (if dropped = [] then [] else [SettingsInvalidKeybindings dropped])))"

text \<open>\<open>write_ok\<close>: the whole of serialising, writing the temporary file and renaming it works. A
  failure leaves the old file.\<close>

definition settings_save :: "(int \<Rightarrow> ustring option) \<Rightarrow> bool \<Rightarrow> audio_settings \<Rightarrow> settings_disk \<Rightarrow> settings_disk \<times> bool" where
  "settings_save format_time write_ok s disk =
     (if write_ok then (RawFile (from_settings format_time s), True) else (disk, False))"

text \<open>The controller's \<open>persist_settings\<close>: read, change, write; \<open>True\<close> raises
  \<^verbatim>\<open>settings-save-failed\<close>.\<close>

definition persist_settings ::
  "(int \<Rightarrow> ustring option) \<Rightarrow> (ustring \<Rightarrow> int option) \<Rightarrow> bool \<Rightarrow> (audio_settings \<Rightarrow> audio_settings) \<Rightarrow>
   settings_disk \<Rightarrow> settings_disk \<times> bool" where
  "persist_settings format_time parse_time write_ok mutate disk =
     (let (disk', ok) = settings_save format_time write_ok (mutate (fst (settings_load parse_time disk))) disk
      in (disk', \<not> ok))"

definition persist_actions ::
  "(int \<Rightarrow> ustring option) \<Rightarrow> (ustring \<Rightarrow> int option) \<Rightarrow> bool \<Rightarrow> action_registry \<Rightarrow> settings_disk \<Rightarrow> settings_disk \<times> bool" where
  "persist_actions format_time parse_time write_ok r =
     persist_settings format_time parse_time write_ok (\<lambda>s. s\<lparr>au_keybinding_overrides := rg_overrides r\<rparr>)"

end
