(* ===== verification/Settings_Roundtrip.thy ===== *)
theory Settings_Roundtrip
  imports Settings_Model
begin

text \<open>
  What the settings file gives back. \<open>settings_ok\<close> is what the value types guarantee; every file
  that is read yields it, except that a ceiling that is not a number stays one. Settings that were
  written are read back whole, with the bindings of plugin actions waiting as dormant entries.
\<close>

section \<open>The values\<close>

definition ceiling_ok :: "ceiling_db \<Rightarrow> bool" where
  "ceiling_ok c \<longleftrightarrow>
     (case ceiling_value c of
        Finite x \<Rightarrow> CEILING_MIN \<le> x \<and> x \<le> CEILING_MAX \<and> (10 * x = of_int \<lfloor>10 * x\<rfloor>)
      | _ \<Rightarrow> False)"

definition window_ok :: "window_settings \<Rightarrow> bool" where
  "window_ok w \<longleftrightarrow>
     MIN_INNER_WIDTH \<le> ws_inner_width w \<and> ws_inner_width w < F32_OVERFLOW \<and>
     MIN_INNER_HEIGHT \<le> ws_inner_height w \<and> ws_inner_height w < F32_OVERFLOW \<and>
     DOCK_WIDTH_MIN \<le> ws_dock_width w \<and> ws_dock_width w \<le> DOCK_WIDTH_MAX"

definition opt_ok :: "('a \<Rightarrow> bool) \<Rightarrow> 'a option \<Rightarrow> bool" where
  "opt_ok P v \<longleftrightarrow> (case v of None \<Rightarrow> True | Some x \<Rightarrow> P x)"

lemma opt_ok_simps [simp]: "opt_ok P None" "opt_ok P (Some x) \<longleftrightarrow> P x"
  by (simp_all add: opt_ok_def)

definition device_name_ok :: "ustring \<Rightarrow> bool" where
  "device_name_ok s \<longleftrightarrow> s \<noteq> [] \<and> trim s = s \<and> length s \<le> DEVICE_NAME_MAX_LEN"

text \<open>Everything but the ceiling.\<close>

definition settings_fields_ok :: "audio_settings \<Rightarrow> bool" where
  "settings_fields_ok s \<longleftrightarrow>
     opt_ok (\<lambda>d. d \<noteq> []) (au_output_device s) \<and> opt_ok (\<lambda>d. trim d \<noteq> []) (au_output_device_name s) \<and>
     sv_cap (au_safe_volume s) \<le> 100 \<and> au_master_volume s \<le> 100 \<and>
     opt_ok (\<lambda>a. 0 < da_version a) (au_disclosure s) \<and> opt_ok device_name_ok (au_device_name s) \<and>
     opt_ok is_valid_connect_device_id (au_connect_device_id s) \<and>
     1 \<le> au_nudge_step_ms s \<and> au_nudge_step_ms s \<le> 1000 \<and>
     overrides_ok (au_keybinding_overrides s) \<and> tree_ok (au_plugin_panels s) \<and> window_ok (au_window s)"

definition settings_ok :: "audio_settings \<Rightarrow> bool" where
  "settings_ok s \<longleftrightarrow> settings_fields_ok s \<and> ceiling_ok (au_limiter_ceiling_db s)"

section \<open>The ceiling\<close>

lemma ten_steps: "x / CEILING_STEP = 10 * x" "n * CEILING_STEP = n / 10"
  by (simp_all add: CEILING_STEP_def)

lemma ceiling_bounds: "CEILING_MIN \<le> CEILING_MAX"
  by (simp add: CEILING_MIN_def CEILING_MAX_def)

lemma saturate_id: "lo \<le> x \<Longrightarrow> x \<le> hi \<Longrightarrow> saturate lo hi (Finite x) = x"
  by simp

lemma round_int: "round_half_away (of_int n) = (of_int n :: rat)"
  by (auto simp: round_half_away_def floor_eq_iff)

lemma round_half_away_int: "\<exists>n. round_half_away x = of_int n"
  by (auto simp: round_half_away_def intro: exI [of _ "- \<lfloor>1 / 2 - x\<rfloor>"])

lemma round_half_away_mono_bounds:
  assumes "of_int lo \<le> x" "x \<le> of_int hi" "hi < 0"
  shows "of_int lo \<le> round_half_away x" "round_half_away x \<le> of_int hi"
proof -
  have neg: "x < 0" using assms(2,3) by (meson le_less_trans of_int_less_0_iff)
  have "\<lfloor>1 / 2 - x\<rfloor> \<le> - lo" using assms(1) by (simp add: floor_le_iff)
  then show "of_int lo \<le> round_half_away x" using neg by (simp add: round_half_away_def)
  have "- hi \<le> \<lfloor>1 / 2 - x\<rfloor>" using assms(2) by (simp add: le_floor_iff)
  then have "of_int (- hi) \<le> (of_int \<lfloor>1 / 2 - x\<rfloor> :: rat)" by (simp only: of_int_le_iff)
  then show "round_half_away x \<le> of_int hi" using neg by (simp add: round_half_away_def)
qed

lemma ceiling_new_ok:
  assumes "v \<noteq> NaN"
  shows "ceiling_ok (ceiling_new v)"
proof -
  obtain x where x: "f32_clamp CEILING_MIN CEILING_MAX v = Finite x" "CEILING_MIN \<le> x" "x \<le> CEILING_MAX"
    using assms saturate_bounds [OF ceiling_bounds, of v] by (cases v) auto
  have lo: "of_int (- 60) \<le> 10 * x" and hi: "10 * x \<le> of_int (- 1)"
    using x(2,3) by (simp_all add: CEILING_MIN_def CEILING_MAX_def)
  obtain n where n: "round_half_away (10 * x) = of_int n" using round_half_away_int by blast
  have "of_int (- 60) \<le> (of_int n :: rat)" "(of_int n :: rat) \<le> of_int (- 1)"
    using round_half_away_mono_bounds [OF lo hi] n by simp_all
  then have range: "CEILING_MIN \<le> of_int n / 10" "of_int n / 10 \<le> CEILING_MAX"
    by (simp_all add: CEILING_MIN_def CEILING_MAX_def)
  have "ceiling_new v = CeilingDb (Finite (of_int n / 10))"
    using range by (simp add: ceiling_new_def Let_def x(1) ten_steps n)
  then show ?thesis using range by (simp add: ceiling_ok_def)
qed

lemma ceiling_new_id:
  assumes "ceiling_ok c"
  shows "ceiling_new (ceiling_value c) = c"
proof -
  from assms obtain x where x: "ceiling_value c = Finite x" "CEILING_MIN \<le> x" "x \<le> CEILING_MAX"
    and int: "10 * x = of_int \<lfloor>10 * x\<rfloor>"
    by (auto simp: ceiling_ok_def split: f32.splits)
  have "round_half_away (10 * x) = 10 * x" by (subst int, subst round_int) (simp flip: int)
  then have "ceiling_new (ceiling_value c) = CeilingDb (Finite x)"
    using x by (simp add: ceiling_new_def Let_def ten_steps)
  with x(1) show ?thesis by (cases c) simp
qed

lemma as_f32_small: "\<bar>x\<bar> < F32_OVERFLOW \<Longrightarrow> as_f32 (Finite x) = Finite x"
  by (auto simp: abs_less_iff)

lemma overflow_large: "1000 < F32_OVERFLOW"
  by (simp add: F32_OVERFLOW_def)

lemma as_f32_nan [simp]: "as_f32 v = NaN \<longleftrightarrow> v = NaN"
  by (cases v) auto

lemma ceiling_from_f64_ok: "ceiling_ok (ceiling_from_f64 v) \<longleftrightarrow> v \<noteq> NaN"
proof (cases "v = NaN")
  case True
  then show ?thesis by (simp add: ceiling_from_f64_def ceiling_new_def ceiling_ok_def)
next
  case False
  then show ?thesis by (simp add: ceiling_from_f64_def ceiling_new_ok)
qed

lemma ceiling_reread: "ceiling_ok c \<Longrightarrow> ceiling_from_f64 (ceiling_value c) = c"
proof -
  assume ok: "ceiling_ok c"
  then obtain x where x: "ceiling_value c = Finite x" "- 6 \<le> x" "x \<le> 0"
    by (auto simp: ceiling_ok_def CEILING_MIN_def CEILING_MAX_def split: f32.splits)
  then have "\<bar>x\<bar> < F32_OVERFLOW" using overflow_large by (auto simp: abs_less_iff)
  with x(1) have "as_f32 (ceiling_value c) = ceiling_value c" by (simp only: as_f32_small)
  with ceiling_new_id [OF ok] show ?thesis by (simp add: ceiling_from_f64_def)
qed

section \<open>Text fields\<close>

lemma dropWhile_trimmed: "dropWhile P (dropWhile P xs) = dropWhile P xs"
  by (induction xs) auto

lemma trim_trim [simp]: "trim (trim s) = trim s"
proof (cases "dropWhile is_whitespace s")
  case Nil
  then show ?thesis unfolding trim_def Nil by simp
next
  case (Cons x xs)
  then have x: "\<not> is_whitespace x" using hd_dropWhile [of is_whitespace s] by auto
  have "dropWhile is_whitespace (rev (dropWhile is_whitespace (rev (x # xs)))) = rev (dropWhile is_whitespace (rev (x # xs)))"
  proof -
    have "dropWhile is_whitespace (rev (x # xs)) = dropWhile is_whitespace (rev xs) @ [x]"
      using x by (simp add: dropWhile_append)
    then show ?thesis using x by simp
  qed
  then show ?thesis by (simp add: trim_def Cons dropWhile_trimmed)
qed

lemma device_name_parse_ok: "device_name_parse s = Some (Some name) \<Longrightarrow> device_name_ok name"
  by (auto simp: device_name_parse_def device_name_ok_def Let_def split: if_splits)

lemma device_name_reread: "device_name_ok s \<Longrightarrow> device_name_parse s = Some (Some s)"
  by (simp add: device_name_parse_def device_name_ok_def)

lemma volume_range: "volume_from_i64 v \<le> 100"
  by (simp add: volume_from_i64_def nat_le_iff)

lemma volume_reread: "n \<le> 100 \<Longrightarrow> volume_from_i64 (int n) = n"
  by (simp add: volume_from_i64_def)

lemma nudge_range: "1 \<le> clamp_nudge_step_ms v" "clamp_nudge_step_ms v \<le> 1000"
  by (auto simp: clamp_nudge_step_ms_def nat_le_iff le_nat_iff)

lemma nudge_reread: "1 \<le> n \<Longrightarrow> n \<le> 1000 \<Longrightarrow> clamp_nudge_step_ms (int n) = n"
  by (simp add: clamp_nudge_step_ms_def)

section \<open>The window\<close>

lemma sanitize_inner_ok:
  assumes "least \<le> dflt" "dflt < F32_OVERFLOW"
  shows "least \<le> sanitize_inner least dflt v \<and> sanitize_inner least dflt v < F32_OVERFLOW"
proof (cases "map_option (\<lambda>x. as_f32 (Finite x)) (positive_finite v)")
  case None
  with assms show ?thesis by (simp add: sanitize_inner_def)
next
  case (Some y)
  then have "y = Finite z \<Longrightarrow> z < F32_OVERFLOW" for z by (auto split: if_splits)
  with assms Some show ?thesis by (cases y) (auto simp: sanitize_inner_def)
qed

lemma sanitize_inner_reread:
  "0 < least \<Longrightarrow> least \<le> x \<Longrightarrow> x < F32_OVERFLOW \<Longrightarrow> sanitize_inner least dflt (Some (TomlFloat (Finite x))) = x"
  by (auto simp: sanitize_inner_def)

lemma sanitize_dock_ok: "DOCK_WIDTH_MIN \<le> sanitize_dock_width v \<and> sanitize_dock_width v \<le> DOCK_WIDTH_MAX"
proof -
  have "DOCK_WIDTH_MIN \<le> DOCK_WIDTH_MAX" by (simp add: DOCK_WIDTH_MIN_def DOCK_WIDTH_MAX_def)
  from saturate_bounds [OF this] show ?thesis
    by (auto simp: sanitize_dock_width_def DOCK_WIDTH_MIN_def DOCK_WIDTH_MAX_def DOCK_WIDTH_DEFAULT_def
        split: option.split simp del: saturate.simps)
qed

lemma sanitize_dock_reread:
  "DOCK_WIDTH_MIN \<le> x \<Longrightarrow> x \<le> DOCK_WIDTH_MAX \<Longrightarrow> sanitize_dock_width (Some (TomlFloat (Finite x))) = x"
  using overflow_large by (auto simp: sanitize_dock_width_def DOCK_WIDTH_MIN_def DOCK_WIDTH_MAX_def)

section \<open>The bindings\<close>

lemma decode_items_encoded:
  "list_all chord_ok cs \<Longrightarrow> distinct (acc @ cs) \<Longrightarrow>
   decode_chord_items (map (\<lambda>c. TomlString (chord_encode c)) cs) acc = Some (acc @ cs)"
  by (induction cs arbitrary: acc) (auto simp: parse_encode)

lemma decode_encoded: "chords_ok cs \<Longrightarrow> decode_keybinding_entry (encode_chords cs) = Some cs"
  using decode_items_encoded [of cs "[]"] by (simp add: decode_keybinding_entry_def encode_chords_def chords_ok_def)

lemma decode_items_ok:
  "decode_chord_items items acc = Some cs \<Longrightarrow> chords_ok acc \<Longrightarrow> chords_ok cs"
proof (induction items acc rule: decode_chord_items.induct)
  case (2 item items chords)
  show ?case
  proof (cases item)
    case (TomlString raw)
    with 2(2) obtain c where c: "chord_parse raw = Inr c"
      and rest: "decode_chord_items items (if c \<in> set chords then chords else chords @ [c]) = Some cs"
      by (auto split: sum.splits)
    have "chords_ok (if c \<in> set chords then chords else chords @ [c])"
      using 2(3) parse_SomeD [OF c] by (simp add: chords_ok_def)
    with 2(1) [OF TomlString c rest] show ?thesis by blast
  qed (use 2 in simp_all)
qed simp

lemma decode_ok: "decode_keybinding_entry v = Some cs \<Longrightarrow> chords_ok cs"
  by (auto simp: decode_keybinding_entry_def chords_ok_def split: toml_value.splits
      dest!: decode_items_ok [of _ "[]", unfolded chords_ok_def])

lemma read_keybinding_ok:
  "overrides_ok (fst acc) \<Longrightarrow> overrides_ok (fst (read_keybinding e acc))"
  by (auto simp: read_keybinding_def Let_def split: prod.splits option.splits
      intro!: overrides_set_ok set_dormant_ok dest: host_action_parse_SomeD decode_ok [unfolded chords_ok_def] simp: decode_ok)

lemma read_keybindings_ok: "overrides_ok (fst acc) \<Longrightarrow> overrides_ok (fst (fold read_keybinding es acc))"
proof (induction es arbitrary: acc)
  case (Cons e es)
  then show ?case using Cons.IH [OF read_keybinding_ok [OF Cons.prems, of e]] by simp
qed simp

definition entry_good :: "ustring \<times> toml_value \<Rightarrow> bool" where
  "entry_good e \<longleftrightarrow>
     (\<exists>cs. snd e = encode_chords cs \<and> chords_ok cs \<and>
        (starts_with (utf ''host.'') (fst e) \<longrightarrow>
           (\<exists>a. host_action_ok a \<and> fst e = utf (host_action_id a) \<and> \<not> chord_sets_equal cs (default_chords a))))"

definition decoded :: "toml_value \<Rightarrow> chord list" where
  "decoded v = the (decode_keybinding_entry v)"

lemma decoded_encoded [simp]: "chords_ok cs \<Longrightarrow> decoded (encode_chords cs) = cs"
  by (simp add: decoded_def decode_encoded)

text \<open>What reading one entry, or a list of them, does to the overrides.\<close>

definition reads_to :: "(ustring \<Rightarrow> toml_value option) \<Rightarrow> keymap_overrides \<Rightarrow> keymap_overrides \<Rightarrow> bool" where
  "reads_to file o1 o2 \<longleftrightarrow>
     overrides_ok o2 \<and> ko_plugin o2 = ko_plugin o1 \<and>
     (\<forall>a. host_action_ok a \<longrightarrow> map_of (ko_host o2) a =
        (case file (utf (host_action_id a)) of Some v \<Rightarrow> Some (decoded v) | None \<Rightarrow> map_of (ko_host o1) a)) \<and>
     (\<forall>key. \<not> starts_with (utf ''host.'') key \<longrightarrow> map_of (ko_dormant o2) key =
        (case file key of Some v \<Rightarrow> Some (decoded v) | None \<Rightarrow> map_of (ko_dormant o1) key))"

lemma read_good:
  assumes "entry_good e" "overrides_ok o1"
  shows "\<exists>o2. read_keybinding e (o1, dropped) = (o2, dropped) \<and> reads_to [fst e \<mapsto> snd e] o1 o2"
proof (cases "starts_with (utf ''host.'') (fst e)")
  case True
  with assms(1) obtain cs a where e: "snd e = encode_chords cs" "chords_ok cs" "host_action_ok a"
    "fst e = utf (host_action_id a)" "\<not> chord_sets_equal cs (default_chords a)"
    by (auto simp: entry_good_def)
  have inj: "utf (host_action_id b) = fst e \<longleftrightarrow> b = a" if "host_action_ok b" for b
    using host_action_roundtrip [OF that] host_action_roundtrip [OF e(3)] e(4) by (metis option.inject)
  have "read_keybinding e (o1, dropped) = (overrides_set a cs o1, dropped)"
    using True e host_action_roundtrip [OF e(3)]
    by (simp add: read_keybinding_def Let_def case_prod_unfold decode_encoded del: utf_simps)
  moreover have set: "overrides_set a cs o1 = o1\<lparr>ko_host := tree_insert a cs (ko_host o1)\<rparr>"
    using e(2,5) by (simp add: overrides_set_def Let_def chords_ok_def)
  moreover have "overrides_ok (overrides_set a cs o1)"
    using e assms(2) by (intro overrides_set_ok) (auto simp: chords_ok_def)
  moreover have "fst e \<noteq> key" if "\<not> starts_with (utf ''host.'') key" for key
    using that True by blast
  ultimately show ?thesis
    using inj e(1,2) True by (auto simp: reads_to_def simp del: utf_simps)
next
  case False
  with assms(1) obtain cs where e: "snd e = encode_chords cs" "chords_ok cs" by (auto simp: entry_good_def)
  have "read_keybinding e (o1, dropped) = (set_dormant (fst e) cs o1, dropped)"
    using False e by (simp add: read_keybinding_def Let_def case_prod_unfold decode_encoded del: utf_simps)
  moreover have "overrides_ok (set_dormant (fst e) cs o1)"
    using False e assms(2) by (intro set_dormant_ok) auto
  moreover have "utf (host_action_id a) \<noteq> fst e" if "host_action_ok a" for a
    using host_action_id_prefix [OF that] False by auto
  ultimately show ?thesis
    using e by (simp add: reads_to_def set_dormant_def del: utf_simps)
qed

lemma reads_to_trans:
  assumes "reads_to f o1 o2" "reads_to g o2 o3" "\<And>k. g k \<noteq> None \<Longrightarrow> f k = None"
  shows "reads_to (f ++ g) o1 o3"
proof -
  have "(case (f ++ g) k of Some v \<Rightarrow> Some (decoded v) | None \<Rightarrow> x) =
      (case g k of Some v \<Rightarrow> Some (decoded v) | None \<Rightarrow> (case f k of Some v \<Rightarrow> Some (decoded v) | None \<Rightarrow> x))" for k x
    by (simp add: map_add_def split: option.split)
  note both = this
  show ?thesis
    unfolding reads_to_def both
    using assms(1) [unfolded reads_to_def] assms(2) [unfolded reads_to_def] by presburger
qed

lemma read_all_good:
  "list_all entry_good es \<Longrightarrow> distinct (map fst es) \<Longrightarrow> overrides_ok o1 \<Longrightarrow>
   \<exists>o2. fold read_keybinding es (o1, dropped) = (o2, dropped) \<and> reads_to (map_of es) o1 o2"
proof (induction es arbitrary: o1)
  case Nil
  then show ?case by (simp add: reads_to_def)
next
  case (Cons e es)
  from Cons.prems have "entry_good e" "overrides_ok o1" by simp_all
  from read_good [OF this, of dropped] obtain o2 where o2: "read_keybinding e (o1, dropped) = (o2, dropped)"
    "reads_to [fst e \<mapsto> snd e] o1 o2" by blast
  then have "overrides_ok o2" by (simp add: reads_to_def)
  with Cons obtain o3 where o3: "fold read_keybinding es (o2, dropped) = (o3, dropped)" "reads_to (map_of es) o2 o3"
    by auto
  have "map_of es (fst e) = None" using Cons.prems(2) by (simp add: map_of_eq_None_iff)
  then have eq: "[fst e \<mapsto> snd e] ++ map_of es = map_of (e # es)"
    and other: "\<And>k. map_of es k \<noteq> None \<Longrightarrow> [fst e \<mapsto> snd e] k = None"
    by (cases e, auto simp: fun_eq_iff map_add_def split: option.split)
  have "reads_to (map_of (e # es)) o1 o3" by (rule reads_to_trans [OF o2(2) o3(2) other, unfolded eq])
  moreover have "fold read_keybinding (e # es) (o1, dropped) = (o3, dropped)" using o2(1) o3(1) by simp
  ultimately show ?case by blast
qed

section \<open>What is written\<close>

definition dormant_of :: "keymap_overrides \<Rightarrow> (ustring \<times> chord list) list" where
  "dormant_of o1 =
     fold (\<lambda>(key, cs). tree_insert key cs) (ko_dormant o1)
       (fold (\<lambda>(p, cs). tree_insert (plugin_action_key p) cs) (ko_plugin o1) [])"

definition parked :: "keymap_overrides \<Rightarrow> keymap_overrides" where
  "parked o1 = \<lparr>ko_host = ko_host o1, ko_plugin = [], ko_dormant = dormant_of o1\<rparr>"

lemma fold_tree_ok: "(\<And>e b. tree_ok b \<Longrightarrow> tree_ok (h e b)) \<Longrightarrow> tree_ok b \<Longrightarrow> tree_ok (fold h m b)"
  by (induction m arbitrary: b) auto

lemma fold_insert_other:
  "x \<notin> f ` fst ` set m \<Longrightarrow> map_of (fold (\<lambda>(k, v). tree_insert (f k) (g v)) m b) x = map_of b x"
  by (induction m arbitrary: b) auto

lemma fold_insert_lookup:
  "distinct (map fst m) \<Longrightarrow> inj_on f (fst ` set m) \<Longrightarrow> (k, v) \<in> set m \<Longrightarrow>
   map_of (fold (\<lambda>(k, v). tree_insert (f k) (g v)) m b) (f k) = Some (g v)"
proof (induction m arbitrary: b)
  case (Cons e m)
  show ?case
  proof (cases "e = (k, v)")
    case True
    with Cons.prems have "f k \<notin> f ` fst ` set m" by (force simp: inj_on_def)
    with True show ?thesis by (simp add: fold_insert_other)
  next
    case False
    with Cons show ?thesis by (auto simp: inj_on_def split: prod.split)
  qed
qed simp

lemma fold_insert_map:
  "map_of b1 key = map_option g (map_of b2 key) \<Longrightarrow>
   map_of (fold (\<lambda>(k, v). tree_insert (f k) (g v)) m b1) key =
   map_option g (map_of (fold (\<lambda>(k, v). tree_insert (f k) v) m b2) key)"
  by (induction m arbitrary: b1 b2) auto

lemma fold_insert_entries:
  "list_all P b \<Longrightarrow> list_all (\<lambda>(k, v). P (f k, g v)) m \<Longrightarrow> list_all P (fold (\<lambda>(k, v). tree_insert (f k) (g v)) m b)"
  by (induction m arbitrary: b) (auto intro: list_all_tree_insert)

lemma keybindings_tree: "tree_ok (keybindings_of o1)"
  unfolding keybindings_of_def Let_def by (intro fold_tree_ok) (auto split: prod.split)

lemma entry_good_host:
  "host_action_ok a \<Longrightarrow> chords_ok cs \<Longrightarrow> \<not> chord_sets_equal cs (default_chords a) \<Longrightarrow>
   entry_good (utf (host_action_id a), encode_chords cs)"
  unfolding entry_good_def fst_conv snd_conv by blast

lemma entry_good_other:
  "\<not> starts_with (utf ''host.'') key \<Longrightarrow> chords_ok cs \<Longrightarrow> entry_good (key, encode_chords cs)"
  unfolding entry_good_def fst_conv snd_conv by blast

lemma keybindings_good:
  assumes "overrides_ok o1"
  shows "list_all entry_good (keybindings_of o1)"
proof -
  note ok = assms [unfolded overrides_ok_def]
  have host: "list_all (\<lambda>(a, cs). entry_good (utf (host_action_id a), encode_chords cs)) (ko_host o1)"
    using ok by (auto simp: list_all_iff intro!: entry_good_host)
  have plugin: "list_all (\<lambda>(p, cs). entry_good (plugin_action_key p, encode_chords cs)) (ko_plugin o1)"
    using ok plugin_action_not_host by (auto simp: list_all_iff simp del: utf_simps intro!: entry_good_other)
  have dormant: "list_all (\<lambda>(key, cs). entry_good (id key, encode_chords cs)) (ko_dormant o1)"
    using ok by (auto simp: list_all_iff simp del: utf_simps intro!: entry_good_other)
  show ?thesis
    unfolding keybindings_of_def Let_def
    using fold_insert_entries [OF fold_insert_entries [OF fold_insert_entries [OF _ host] plugin] dormant] by simp
qed

lemma host_id_inject:
  assumes "host_action_ok a" "host_action_ok b" "utf (host_action_id a) = utf (host_action_id b)"
  shows "a = b"
proof -
  have "Some a = host_action_parse (utf (host_action_id a))" by (rule host_action_roundtrip [OF assms(1), symmetric])
  also have "\<dots> = host_action_parse (utf (host_action_id b))" by (simp only: assms(3))
  also have "\<dots> = Some b" by (rule host_action_roundtrip [OF assms(2)])
  finally show ?thesis by (rule option.inject [THEN iffD1])
qed

lemma keybindings_host:
  assumes ok: "overrides_ok o1" and a: "host_action_ok a"
  shows "map_of (keybindings_of o1) (utf (host_action_id a)) = map_option encode_chords (map_of (ko_host o1) a)"
proof -
  note trees = ok [unfolded overrides_ok_def]
  let ?k = "utf (host_action_id a)"
  have prefix: "starts_with (utf ''host.'') ?k" by (rule host_action_id_prefix [OF a])
  have plugin: "?k \<notin> plugin_action_key ` fst ` set (ko_plugin o1)"
  proof
    assume "?k \<in> plugin_action_key ` fst ` set (ko_plugin o1)"
    then obtain p where "?k = plugin_action_key p" "plugin_action_ok p" using trees by (auto simp: list_all_iff)
    with prefix plugin_action_not_host show False by metis
  qed
  have dormant: "?k \<notin> id ` fst ` set (ko_dormant o1)"
  proof
    assume "?k \<in> id ` fst ` set (ko_dormant o1)"
    then have "\<not> starts_with (utf ''host.'') ?k" using trees by (auto simp: list_all_iff simp del: utf_simps)
    with prefix show False by blast
  qed
  let ?host = "fold (\<lambda>(a, cs). tree_insert (utf (host_action_id a)) (encode_chords cs)) (ko_host o1) []"
  have "map_of (keybindings_of o1) ?k = map_of ?host ?k"
    unfolding keybindings_of_def Let_def
    using fold_insert_other [OF dormant, of encode_chords] fold_insert_other [OF plugin, of encode_chords] by simp
  also have "\<dots> = map_option encode_chords (map_of (ko_host o1) a)"
  proof (cases "map_of (ko_host o1) a")
    case None
    have "?k \<noteq> utf (host_action_id b)" if "b \<in> fst ` set (ko_host o1)" for b
    proof
      assume "?k = utf (host_action_id b)"
      moreover from that trees have "host_action_ok b" by (auto simp: list_all_iff)
      ultimately have "a = b" by (intro host_id_inject a)
      with that None show False by (simp add: map_of_eq_None_iff)
    qed
    then have "?k \<notin> (\<lambda>a. utf (host_action_id a)) ` fst ` set (ko_host o1)" by (metis (no_types, lifting) imageE)
    from fold_insert_other [OF this, of encode_chords "[]"] None show ?thesis by simp
  next
    case (Some cs)
    have "inj_on (\<lambda>a. utf (host_action_id a)) (fst ` set (ko_host o1))"
    proof (rule inj_onI)
      fix b c assume "b \<in> fst ` set (ko_host o1)" "c \<in> fst ` set (ko_host o1)"
        "utf (host_action_id b) = utf (host_action_id c)"
      moreover then have "host_action_ok b" "host_action_ok c" using trees by (auto simp: list_all_iff)
      ultimately show "b = c" by (intro host_id_inject)
    qed
    moreover have "distinct (map fst (ko_host o1))" using trees by (intro tree_ok_distinct) blast
    ultimately have "map_of ?host ?k = Some (encode_chords cs)"
      using map_of_SomeD [OF Some] by (intro fold_insert_lookup)
    with Some show ?thesis by (simp only: option.map)
  qed
  finally show ?thesis .
qed

lemma keybindings_other:
  assumes ok: "overrides_ok o1" and key: "\<not> starts_with (utf ''host.'') key"
  shows "map_of (keybindings_of o1) key = map_option encode_chords (map_of (dormant_of o1) key)"
proof -
  let ?host = "fold (\<lambda>(a, cs). tree_insert (utf (host_action_id a)) (encode_chords cs)) (ko_host o1) []"
  have "key \<notin> (\<lambda>a. utf (host_action_id a)) ` fst ` set (ko_host o1)"
    using ok key host_action_id_prefix by (auto simp: overrides_ok_def list_all_iff simp del: utf_simps)
  from fold_insert_other [OF this, of encode_chords "[]"] have "map_of ?host key = map_option encode_chords (map_of [] key)"
    by simp
  from fold_insert_map [OF fold_insert_map [OF this, of plugin_action_key "ko_plugin o1"], of id "ko_dormant o1"]
  show ?thesis by (simp add: keybindings_of_def dormant_of_def Let_def)
qed

lemma dormant_of_tree: "tree_ok (dormant_of o1)"
  unfolding dormant_of_def by (intro fold_tree_ok) (auto split: prod.split)

lemma dormant_of_ok:
  assumes "overrides_ok o1"
  shows "list_all (\<lambda>(key, cs). \<not> starts_with (utf ''host.'') key \<and> chords_ok cs) (dormant_of o1)"
proof -
  note ok = assms [unfolded overrides_ok_def]
  have "list_all (\<lambda>(p, cs). case (plugin_action_key p, id cs) of (key, cs) \<Rightarrow>
      \<not> starts_with (utf ''host.'') key \<and> chords_ok cs) (ko_plugin o1)"
    using ok plugin_action_not_host by (auto simp: list_all_iff simp del: utf_simps)
  moreover have "list_all (\<lambda>(k, cs). case (id k, id cs) of (key, cs) \<Rightarrow>
      \<not> starts_with (utf ''host.'') key \<and> chords_ok cs) (ko_dormant o1)"
    using ok by (auto simp: list_all_iff simp del: utf_simps)
  ultimately have "list_all (\<lambda>(key, cs). \<not> starts_with (utf ''host.'') key \<and> chords_ok cs)
      (fold (\<lambda>(k, v). tree_insert (id k) (id v)) (ko_dormant o1)
        (fold (\<lambda>(k, v). tree_insert (plugin_action_key k) (id v)) (ko_plugin o1) []))"
    by (intro fold_insert_entries) auto
  then show ?thesis by (simp add: dormant_of_def del: utf_simps)
qed

lemma parked_ok: "overrides_ok o1 \<Longrightarrow> overrides_ok (parked o1)"
  using dormant_of_ok [of o1] dormant_of_tree [of o1] by (simp add: overrides_ok_def parked_def del: utf_simps)

lemma bindings_reread:
  assumes ok: "overrides_ok o1"
  shows "fold read_keybinding (keybindings_of o1) (overrides_default, []) = (parked o1, [])"
proof -
  have distinct: "distinct (map fst (keybindings_of o1))" by (rule tree_ok_distinct [OF keybindings_tree])
  obtain o2 where fold: "fold read_keybinding (keybindings_of o1) (overrides_default, []) = (o2, [])"
    and to: "reads_to (map_of (keybindings_of o1)) overrides_default o2"
    using read_all_good [OF keybindings_good [OF ok] distinct overrides_ok_default, of "[]"] by blast
  note o2 = fold to [unfolded reads_to_def, THEN conjunct1] to [unfolded reads_to_def, THEN conjunct2, THEN conjunct1]
    to [unfolded reads_to_def, THEN conjunct2, THEN conjunct2, THEN conjunct1, rule_format]
    to [unfolded reads_to_def, THEN conjunct2, THEN conjunct2, THEN conjunct2, rule_format]
  have hosts: "map_of (ko_host ox) a = None" if "overrides_ok ox" "\<not> host_action_ok a" for ox a
    using that by (cases "map_of (ko_host ox) a") (auto simp: overrides_ok_def dest: list_all_map_of)
  have chords: "chords_ok cs" if "map_of (ko_host o1) a = Some cs" for a cs
    using that ok by (auto simp: overrides_ok_def dest: list_all_map_of)
  have "map_of (ko_host o2) a = map_of (ko_host o1) a" for a
  proof (cases "host_action_ok a")
    case True
    then show ?thesis
      using o2(4) keybindings_host [OF ok True] chords [of a]
      by (cases "map_of (ko_host o1) a") (simp_all add: overrides_default_def)
  qed (simp add: hosts ok o2(2))
  then have host: "ko_host o2 = ko_host o1"
    using ok o2(2) by (intro tree_canonical) (auto simp: overrides_ok_def)
  have dormant_chords: "chords_ok cs" "\<not> starts_with (utf ''host.'') key" if "map_of (dormant_of o1) key = Some cs" for key cs
    using list_all_map_of [OF dormant_of_ok [OF ok] that] by (simp_all del: utf_simps)
  have dormant2: "\<not> starts_with (utf ''host.'') key" if "map_of (ko_dormant o2) key = Some cs" for key cs
    using o2(2) that by (auto simp: overrides_ok_def simp del: utf_simps dest: list_all_map_of)
  have "map_of (ko_dormant o2) key = map_of (dormant_of o1) key" for key
  proof (cases "starts_with (utf ''host.'') key")
    case True
    then have "map_of (ko_dormant o2) key = None" "map_of (dormant_of o1) key = None"
      using dormant2 dormant_chords(2) by (meson not_None_eq)+
    then show ?thesis by simp
  next
    case False
    then show ?thesis
      using o2(5) keybindings_other [OF ok False] dormant_chords(1) [of key]
      by (cases "map_of (dormant_of o1) key") (simp_all add: overrides_default_def del: utf_simps)
  qed
  then have dormant: "ko_dormant o2 = dormant_of o1"
    using o2(2) dormant_of_tree by (intro tree_canonical) (auto simp: overrides_ok_def)
  have "o2 = parked o1"
    using host dormant o2(3) by (simp add: parked_def overrides_default_def)
  with o2(1) show ?thesis by simp
qed

end
