(* ===== verification/Settings_Theorems.thy ===== *)
theory Settings_Theorems
  imports Settings_Roundtrip
begin

text \<open>
  The properties of the settings file: what is loaded is in range, what is written is read back,
  one change leaves the rest alone, and what a ceiling that is not a number does to the limiter.
\<close>

section \<open>The panels\<close>

lemma read_panels_encoded:
  "fold read_panel (map (\<lambda>(k, p). (k, panel_to_raw p)) m) (acc, bad) =
   (fold (\<lambda>(k, p). tree_insert k p) m acc, bad)"
proof (induction m arbitrary: acc)
  case (Cons e m)
  obtain k p where e: "e = (k, p)" by (cases e)
  have "placement_parse (utf (placement_wire_name (pz_placement p))) = Some (pz_placement p)"
    by (cases "pz_placement p") (simp_all add: placement_parse_def)
  then have "read_panel (k, panel_to_raw p) (acc, bad) = (tree_insert k p acc, bad)"
    by (cases p) (simp add: read_panel_def panel_to_raw_def)
  with Cons show ?case by (simp add: e)
qed simp

lemma fold_insert_id: "tree_ok m \<Longrightarrow> fold (\<lambda>(k, p). tree_insert k p) m [] = m"
proof (rule tree_canonical)
  assume m: "tree_ok m"
  show "tree_ok (fold (\<lambda>(k, p). tree_insert k p) m [])" by (rule fold_tree_ok) (auto split: prod.split)
  show "map_of (fold (\<lambda>(k, p). tree_insert k p) m []) = map_of m"
  proof
    fix k
    show "map_of (fold (\<lambda>(k, p). tree_insert k p) m []) k = map_of m k"
    proof (cases "map_of m k")
      case None
      then have "k \<notin> id ` fst ` set m" by (simp add: map_of_eq_None_iff)
      from fold_insert_other [OF this, of id "[]"] None show ?thesis by simp
    next
      case (Some v)
      have "inj_on id (fst ` set m)" by simp
      from fold_insert_lookup [OF tree_ok_distinct [OF m] this map_of_SomeD [OF Some], of id "[]"] Some
      show ?thesis by simp
    qed
  qed
qed

lemma panels_reread:
  "tree_ok m \<Longrightarrow> fold read_panel (map (\<lambda>(k, p). (k, panel_to_raw p)) m) ([], bad) = (m, bad)"
  by (simp add: read_panels_encoded fold_insert_id)

lemma read_panel_tree: "tree_ok (fst acc) \<Longrightarrow> tree_ok (fst (read_panel e acc))"
  by (auto simp: read_panel_def Let_def split: prod.splits option.splits)

lemma read_panels_tree: "tree_ok (fst acc) \<Longrightarrow> tree_ok (fst (fold read_panel es acc))"
proof (induction es arbitrary: acc)
  case (Cons e es)
  then show ?case using Cons.IH [OF read_panel_tree [OF Cons.prems, of e]] by simp
qed simp

section \<open>Loading\<close>

lemma window_sanitized:
  "window_ok \<lparr>ws_inner_width = sanitize_inner MIN_INNER_WIDTH DEFAULT_INNER_WIDTH w,
     ws_inner_height = sanitize_inner MIN_INNER_HEIGHT DEFAULT_INNER_HEIGHT h, ws_dock_width = sanitize_dock_width d\<rparr>"
  using sanitize_inner_ok [of MIN_INNER_WIDTH DEFAULT_INNER_WIDTH w]
    sanitize_inner_ok [of MIN_INNER_HEIGHT DEFAULT_INNER_HEIGHT h] sanitize_dock_ok [of d] overflow_large
  by (auto simp: window_ok_def MIN_INNER_WIDTH_def DEFAULT_INNER_WIDTH_def MIN_INNER_HEIGHT_def
      DEFAULT_INNER_HEIGHT_def F32_OVERFLOW_def)

lemma read_device_name_ok: "opt_ok device_name_ok (fst (read_device_name raw))"
  by (auto simp: read_device_name_def opt_ok_def split: option.split dest: device_name_parse_ok)

lemma read_fields_ok:
  "opt_ok (\<lambda>d. d \<noteq> []) (Option.bind v device_id_new)" "opt_ok (\<lambda>d. trim d \<noteq> []) (not_blank v)"
  "opt_ok (\<lambda>a. 0 < da_version a) (read_disclosure parse_time n stamp)"
  "opt_ok is_valid_connect_device_id
     (case v of Some s \<Rightarrow> if is_valid_connect_device_id s then Some s else None | None \<Rightarrow> None)"
  by (cases v; simp add: device_id_new_def not_blank_def read_disclosure_def)+

lemma into_settings_fields_ok: "settings_fields_ok (fst (into_settings parse_time raw))"
proof -
  have "overrides_ok (fst (fold read_keybinding (rw_keybindings raw) (overrides_default, [])))"
    by (rule read_keybindings_ok) simp
  moreover have "tree_ok (fst (fold read_panel (rw_plugin_panels raw) ([], bad)))" for bad
    by (rule read_panels_tree) simp
  ultimately show ?thesis
    using window_sanitized read_device_name_ok [of "rw_device_name raw"]
    by (simp add: into_settings_def settings_fields_ok_def Let_def case_prod_unfold volume_range
        nudge_range [unfolded One_nat_def] read_fields_ok)
qed

lemma into_settings_ceiling:
  "au_limiter_ceiling_db (fst (into_settings parse_time raw)) = ceiling_from_f64 (ru_limiter_ceiling_db (rw_audio raw))"
  by (simp add: into_settings_def Let_def case_prod_unfold)

lemma default_settings_ok: "settings_ok audio_settings_default"
  using window_sanitized [of None None None] ceiling_new_ok [of "Finite (-1)"]
  by (simp add: settings_ok_def settings_fields_ok_def audio_settings_default_def safe_volume_default_def
      volume_percent_new_def DEFAULT_NUDGE_STEP_MS_def ceiling_default_def window_default_def
      sanitize_inner_def sanitize_dock_width_def)

lemma settings_load_cases:
  obtains (defaults) ws where "settings_load parse_time disk = (audio_settings_default, ws)"
      "\<And>raw. disk = RawFile raw \<Longrightarrow> SETTINGS_SCHEMA_VERSION < rw_schema_version raw"
    | (read) raw where "disk = RawFile raw" "rw_schema_version raw \<le> SETTINGS_SCHEMA_VERSION"
      "fst (settings_load parse_time disk) = fst (into_settings parse_time raw)"
proof (cases disk)
  case (RawFile raw)
  show ?thesis
  proof (cases "SETTINGS_SCHEMA_VERSION < rw_schema_version raw")
    case True
    with RawFile show ?thesis by (intro defaults) (auto simp: settings_load_def)
  next
    case False
    with RawFile show ?thesis
      by (intro read) (auto simp: settings_load_def Let_def case_prod_unfold)
  qed
qed (auto simp: settings_load_def intro: defaults)

text \<open>C11. Whatever is on the disk, the settings that are loaded hold only values in range: volumes
  up to 100, the nudge step from 1 to 1000, the window no smaller than its minimum, the dock within
  its limits, every binding a legal chord in canonical order with no duplicates. The one exception
  is exact: the limiter ceiling is out of range if and only if the file could be read and says
  \<^verbatim>\<open>limiter_ceiling_db = nan\<close>.\<close>

theorem loaded_settings_in_range:
  "settings_fields_ok (fst (settings_load parse_time disk)) \<and>
   (settings_ok (fst (settings_load parse_time disk)) \<longleftrightarrow>
      (case disk of
         RawFile raw \<Rightarrow> \<not> (rw_schema_version raw \<le> SETTINGS_SCHEMA_VERSION \<and> ru_limiter_ceiling_db (rw_audio raw) = NaN)
       | _ \<Rightarrow> True))"
proof (cases rule: settings_load_cases [of parse_time disk])
  case (defaults ws)
  then show ?thesis
    using default_settings_ok by (cases disk) (auto simp: settings_ok_def simp flip: not_le)
next
  case (read raw)
  then show ?thesis
    using into_settings_fields_ok [of parse_time raw]
    by (simp add: settings_ok_def into_settings_ceiling ceiling_from_f64_ok)
qed

section \<open>Saving and loading\<close>

text \<open>A time stamp that is written can be read.\<close>

definition stamp_ok :: "(int \<Rightarrow> ustring option) \<Rightarrow> (ustring \<Rightarrow> int option) \<Rightarrow> audio_settings \<Rightarrow> bool" where
  "stamp_ok format_time parse_time s \<longleftrightarrow>
     opt_ok (\<lambda>a. Option.bind (format_time (da_at a)) parse_time = Some (da_at a)) (au_disclosure s)"

lemma preset_reread [simp]: "preset_read (utf (preset_wire p)) = Some p"
  by (cases p) (simp_all add: preset_read_def)

lemma theme_reread [simp]: "theme_read (utf (theme_wire t)) = Some t"
  by (cases t) (simp_all add: theme_read_def)

lemma policy_reread [simp]: "focus_parse (utf (focus_wire_name f)) = Some f"
  by (cases f) (simp_all add: focus_parse_def)

lemma opt_fields_reread:
  "opt_ok (\<lambda>d. d \<noteq> []) v \<Longrightarrow> Option.bind v device_id_new = v"
  "opt_ok (\<lambda>d. trim d \<noteq> []) v \<Longrightarrow> not_blank v = v"
  "opt_ok device_name_ok v \<Longrightarrow> read_device_name v = (v, [])"
  "opt_ok is_valid_connect_device_id v \<Longrightarrow>
     (case v of Some s \<Rightarrow> if is_valid_connect_device_id s then Some s else None | None \<Rightarrow> None) = v"
  by (cases v; simp add: device_id_new_def not_blank_def read_device_name_def device_name_reread)+

lemma disclosure_reread:
  assumes "stamp_ok format_time parse_time s" "opt_ok (\<lambda>a. 0 < da_version a) (au_disclosure s)"
  shows "read_disclosure parse_time (case au_disclosure s of Some a \<Rightarrow> da_version a | None \<Rightarrow> 0)
      (case au_disclosure s of Some a \<Rightarrow> format_time (da_at a) | None \<Rightarrow> None) = au_disclosure s"
  using assms by (cases "au_disclosure s") (auto simp: stamp_ok_def read_disclosure_def)

lemma window_reread:
  assumes "window_ok w"
  shows "\<lparr>ws_inner_width = sanitize_inner MIN_INNER_WIDTH DEFAULT_INNER_WIDTH (Some (TomlFloat (Finite (ws_inner_width w)))),
     ws_inner_height = sanitize_inner MIN_INNER_HEIGHT DEFAULT_INNER_HEIGHT (Some (TomlFloat (Finite (ws_inner_height w)))),
     ws_dock_width = sanitize_dock_width (Some (TomlFloat (Finite (ws_dock_width w))))\<rparr> = w"
  using assms by (simp add: window_ok_def sanitize_inner_reread sanitize_dock_reread MIN_INNER_WIDTH_def MIN_INNER_HEIGHT_def)

lemma into_from_settings:
  assumes ok: "settings_ok s" and stamp: "stamp_ok format_time parse_time s"
  shows "into_settings parse_time (from_settings format_time s) =
    (s\<lparr>au_keybinding_overrides := parked (au_keybinding_overrides s)\<rparr>, [], [])"
proof -
  note fields = ok [unfolded settings_ok_def settings_fields_ok_def]
  have win: "window_ok (au_window s)" and over: "overrides_ok (au_keybinding_overrides s)" and
    tree: "tree_ok (au_plugin_panels s)" and disc: "opt_ok (\<lambda>a. 0 < da_version a) (au_disclosure s)"
    using fields by blast+
  show ?thesis
    unfolding into_settings_def from_settings_def audio_to_raw_def
    using fields
    by (simp add: Let_def bindings_reread [OF over] panels_reread [OF tree] field_or_def opt_fields_reread
        ceiling_reread volume_reread nudge_reread disclosure_reread [OF stamp disc] window_reread [OF win])
qed

text \<open>C12. Settings that are saved are loaded again with no warning and no change, except that the
  bindings of plugin actions come back as dormant entries, waiting for their plugins. The time stamp
  of the acknowledgement has to survive its own text.\<close>

theorem settings_save_load:
  assumes "settings_ok s" "stamp_ok format_time parse_time s" "au_schema_version s \<le> SETTINGS_SCHEMA_VERSION"
  shows "settings_load parse_time (fst (settings_save format_time True s disk)) =
    (s\<lparr>au_keybinding_overrides := parked (au_keybinding_overrides s)\<rparr>, [])"
proof -
  have "rw_schema_version (from_settings format_time s) = au_schema_version s" by (simp add: from_settings_def)
  then show ?thesis
    using assms by (simp add: settings_save_def settings_load_def into_from_settings)
qed


lemma settings_save_load_witness:
  "settings_load (\<lambda>txt. Some (int (hd txt)))
     (fst (settings_save (\<lambda>t. Some [nat t]) True
        (audio_settings_default\<lparr>au_disclosure := Some \<lparr>da_version = 1, da_at = 5\<rparr>\<rparr>) NoSettings)) =
   (audio_settings_default\<lparr>au_disclosure := Some \<lparr>da_version = 1, da_at = 5\<rparr>,
      au_keybinding_overrides := parked overrides_default\<rparr>, [])"
proof -
  let ?s = "audio_settings_default\<lparr>au_disclosure := Some \<lparr>da_version = 1, da_at = 5\<rparr>\<rparr>"
  have "settings_ok ?s" using default_settings_ok by (simp add: settings_ok_def settings_fields_ok_def)
  moreover have "stamp_ok (\<lambda>t. Some [nat t]) (\<lambda>txt. Some (int (hd txt))) ?s" by (simp add: stamp_ok_def)
  moreover have "au_schema_version ?s \<le> SETTINGS_SCHEMA_VERSION" by (simp add: audio_settings_default_def)
  ultimately show ?thesis
    using settings_save_load [of ?s "\<lambda>t. Some [nat t]" "\<lambda>txt. Some (int (hd txt))" NoSettings]
    by (simp add: audio_settings_default_def)
qed

section \<open>One change\<close>

lemma loaded_version: "au_schema_version (fst (settings_load parse_time disk)) \<le> SETTINGS_SCHEMA_VERSION"
proof (cases rule: settings_load_cases [of parse_time disk])
  case (read raw)
  then show ?thesis by (simp add: into_settings_def Let_def case_prod_unfold)
qed (simp add: audio_settings_default_def)

lemma persist_reload:
  assumes "settings_ok (fst (settings_load parse_time disk))" "overrides_ok (rg_overrides r)"
    "stamp_ok format_time parse_time (fst (settings_load parse_time disk))"
  shows "settings_load parse_time (fst (persist_actions format_time parse_time True r disk)) =
    ((fst (settings_load parse_time disk))\<lparr>au_keybinding_overrides := parked (rg_overrides r)\<rparr>, [])"
proof -
  let ?s = "fst (settings_load parse_time disk)"
  let ?t = "?s\<lparr>au_keybinding_overrides := rg_overrides r\<rparr>"
  have "settings_ok ?t" using assms(1,2) by (simp add: settings_ok_def settings_fields_ok_def)
  moreover have "stamp_ok format_time parse_time ?t" using assms(3) by (simp add: stamp_ok_def)
  ultimately have t: "into_settings parse_time (from_settings format_time ?t) =
      (?t\<lparr>au_keybinding_overrides := parked (au_keybinding_overrides ?t)\<rparr>, [], [])"
    by (rule into_from_settings)
  have "rw_schema_version (from_settings format_time ?t) = au_schema_version ?s" by (simp add: from_settings_def)
  with t loaded_version [of parse_time disk]
  have "settings_load parse_time (RawFile (from_settings format_time ?t)) =
      (?s\<lparr>au_keybinding_overrides := parked (rg_overrides r)\<rparr>, [])"
    by (simp add: settings_load_def)
  then show ?thesis by (simp add: persist_actions_def persist_settings_def settings_save_def Let_def)
qed

text \<open>A change of the bindings that is written leaves every other setting as it was loaded,
  and gives back the bindings of the registry; a change that cannot be written leaves the file alone
  and raises the warning. A settings file that is unreadable or of a newer version is replaced by the
  defaults with that change.\<close>

lemma persist_changes_only_bindings:
  assumes "settings_ok (fst (settings_load parse_time disk))" "overrides_ok (rg_overrides r)"
    "stamp_ok format_time parse_time (fst (settings_load parse_time disk))"
    "persist_actions format_time parse_time write_ok r disk = (disk', failed)"
  shows "failed = (\<not> write_ok) \<and>
    (if write_ok
     then settings_load parse_time disk' =
       ((fst (settings_load parse_time disk))\<lparr>au_keybinding_overrides := parked (rg_overrides r)\<rparr>, [])
     else disk' = disk)"
proof (cases write_ok)
  case True
  with assms(4) have "fst (persist_actions format_time parse_time True r disk) = disk'" "\<not> failed"
    by (auto simp: persist_actions_def persist_settings_def settings_save_def Let_def)
  with True persist_reload [OF assms(1-3)] show ?thesis by simp
next
  case False
  with assms(4) show ?thesis
    by (auto simp: persist_actions_def persist_settings_def settings_save_def Let_def)
qed

lemma persist_changes_only_bindings_witness:
  "settings_load (\<lambda>_. None) (fst (persist_actions (\<lambda>_. None) (\<lambda>_. None) True (registry_new overrides_default) BadSettings)) =
   (audio_settings_default\<lparr>au_keybinding_overrides := parked overrides_default\<rparr>, [])"
proof -
  obtain disk' failed where e:
    "persist_actions (\<lambda>_. None) (\<lambda>_. None) True (registry_new overrides_default) BadSettings = (disk', failed)"
    by fastforce
  have d: "fst (settings_load (\<lambda>_. None) BadSettings) = audio_settings_default" by (simp add: settings_load_def)
  have r: "rg_overrides (registry_new overrides_default) = overrides_default" by (simp add: registry_new_def)
  have t: "stamp_ok (\<lambda>_. None) (\<lambda>_. None) audio_settings_default" by (simp add: stamp_ok_def audio_settings_default_def)
  show ?thesis
    using persist_changes_only_bindings [OF _ _ _ e] default_settings_ok t unfolding e d r by simp
qed

section \<open>The limiter\<close>

lemma limit_sample_nan: "limiter_process l (x # xs) = None" if "lm_ceiling_lin l = NaN"
  using that by (simp add: limit_sample_def)

text \<open>What a clamp to \<open>[- c, c]\<close> makes of a sample: NaN stays, a number is brought into the range and
  left alone if it is there already.\<close>

definition limited_sample :: "rat \<Rightarrow> f32 \<Rightarrow> f32 \<Rightarrow> bool" where
  "limited_sample c x y \<longleftrightarrow>
     (if x = NaN then y = NaN
      else \<exists>v. y = Finite v \<and> - c \<le> v \<and> v \<le> c \<and> (\<forall>u. x = Finite u \<longrightarrow> - c \<le> u \<longrightarrow> u \<le> c \<longrightarrow> v = u))"

lemma limited_clamp: "0 \<le> c \<Longrightarrow> limited_sample c x (f32_clamp (- c) c x)"
proof -
  assume "0 \<le> c"
  then have "- c \<le> c" by simp
  from saturate_bounds [OF this, of x] show ?thesis
    by (cases x) (auto simp: limited_sample_def)
qed

lemma limiter_total:
  assumes "lm_ceiling_lin l = Finite c" "0 \<le> c"
  shows "\<exists>ys. limiter_process l xs = Some ys \<and> list_all2 (limited_sample c) xs ys"
proof (induction xs)
  case (Cons x xs)
  have "- c \<le> c" using assms(2) by simp
  then have "limit_sample (lm_ceiling_lin l) x = Some (f32_clamp (- c) c x)"
    using assms(1) by (simp add: limit_sample_def)
  with Cons limited_clamp [OF assms(2), of x] show ?case by auto
qed simp

text \<open>C13. With the ceiling that the settings file gives it, the limiter of the audio callback brings
  every sample that is a number into the ceiling and changes none that is already there; a sample that
  is NaN passes through it. The exception is a file that says \<^verbatim>\<open>limiter_ceiling_db = nan\<close>: then
  the first sample panics. The decibel conversion is any function that gives a positive number on the
  ceilings and keeps NaN.\<close>

theorem nan_ceiling_panics:
  assumes "to_linear NaN = NaN"
    "\<And>x. CEILING_MIN \<le> x \<Longrightarrow> x \<le> CEILING_MAX \<Longrightarrow> \<exists>y>0. to_linear (Finite x) = Finite y"
    "rw_schema_version raw \<le> SETTINGS_SCHEMA_VERSION"
  shows "let l = limiter_new to_linear (au_limiter_ceiling_db (fst (settings_load parse_time (RawFile raw))))
    in if ru_limiter_ceiling_db (rw_audio raw) = NaN then limiter_process l (x # xs) = None
       else \<exists>c ys. lm_ceiling_lin l = Finite c \<and> 0 < c \<and> limiter_process l (x # xs) = Some ys \<and>
              list_all2 (limited_sample c) (x # xs) ys"
proof -
  let ?v = "ru_limiter_ceiling_db (rw_audio raw)"
  let ?l = "limiter_new to_linear (ceiling_from_f64 ?v)"
  have "fst (settings_load parse_time (RawFile raw)) = fst (into_settings parse_time raw)"
    using assms(3) by (simp add: settings_load_def Let_def case_prod_unfold)
  then have l: "limiter_new to_linear (au_limiter_ceiling_db (fst (settings_load parse_time (RawFile raw)))) = ?l"
    by (simp add: into_settings_ceiling)
  show ?thesis
  proof (cases "?v = NaN")
    case True
    then have "lm_ceiling_lin ?l = NaN"
      using assms(1) by (simp add: limiter_new_def ceiling_from_f64_def ceiling_new_def)
    from limit_sample_nan [OF this] True show ?thesis unfolding Let_def l by simp
  next
    case False
    then have "ceiling_ok (ceiling_from_f64 ?v)" by (simp add: ceiling_from_f64_ok)
    then obtain z where z: "ceiling_value (ceiling_from_f64 ?v) = Finite z" "CEILING_MIN \<le> z" "z \<le> CEILING_MAX"
      by (auto simp: ceiling_ok_def split: f32.splits)
    from assms(2) [OF z(2,3)] obtain c where c: "0 < c" "to_linear (Finite z) = Finite c" by blast
    with z(1) have "lm_ceiling_lin ?l = Finite c" by (simp add: limiter_new_def)
    with limiter_total [OF this, of "x # xs"] c(1) False show ?thesis unfolding Let_def l by auto
  qed
qed

lemma nan_ceiling_panics_witness:
  "limiter_process
     (limiter_new (f32_map (\<lambda>x. 1 + x / 10)) (au_limiter_ceiling_db (fst (settings_load (\<lambda>_. None)
        (RawFile (from_settings (\<lambda>_. None) (audio_settings_default\<lparr>au_limiter_ceiling_db := CeilingDb NaN\<rparr>))))))) [Finite 0] = None"
proof -
  let ?raw = "from_settings (\<lambda>_. None) (audio_settings_default\<lparr>au_limiter_ceiling_db := CeilingDb NaN\<rparr>)"
  have "\<exists>y>0. f32_map (\<lambda>x. 1 + x / 10) (Finite x) = Finite y" if "CEILING_MIN \<le> x" for x
    using that by (simp add: CEILING_MIN_def)
  then show ?thesis
    using nan_ceiling_panics [of "f32_map (\<lambda>x. 1 + x / 10)" ?raw "\<lambda>_. None" "Finite 0" "[]"]
    by (simp add: from_settings_def audio_to_raw_def audio_settings_default_def del: limiter_process.simps)
qed

end
