(* ===== verification/Actions_Theorems.thy ===== *)
theory Actions_Theorems
  imports Settings_Theorems
begin

text \<open>
  The properties of the actions: the text of a chord, which action a chord fires, the registry under
  every sequence of calls, and what happens to the bindings when a plugin or the application stops
  and starts again.
\<close>

section \<open>Chords as text\<close>

text \<open>C10. The chord parser accepts exactly the texts that the encoder writes, and reads each as the
  chord it was written from: modifiers in their canonical order, each once, a key of the table. So the
  settings file has one spelling for every chord.\<close>

theorem chord_parse_canonical: "chord_parse s = Inr c \<longleftrightarrow> chord_ok c \<and> s = chord_encode c"
  using parse_encode parse_SomeD by auto

section \<open>The registry under its calls\<close>

text \<open>C7. Whatever sequence of calls the host and the plugins make, the registry keeps its invariant:
  the index, the effective bindings and the conflicts are those that its tables give, no two
  definitions share an action, a registered action has no parked bindings, and no plugin owns more
  than 64 actions, each of which carries the plugin's own identifier. Plugins have distinct
  identifiers.\<close>

theorem registry_invariant:
  assumes "idents_ok ident" "registry_start r0" "(registry_step ident)\<^sup>*\<^sup>* r0 r"
  shows "registry_ok r \<and> owners_ok ident r"
  using registry.reachable_inv [OF assms(2,3)] assms(1) by (simp add: calls_inv_def)

text \<open>Two plugins, the first of which registers an action.\<close>

definition demo_ident :: "u16 \<Rightarrow> ustring option" where
  "demo_ident p = (if p = 1 then Some (utf ''a.one'') else if p = 2 then Some (utf ''a.two'') else None)"

definition demo_spec :: action_spec where
  "demo_spec = \<lparr>sp_id = utf ''go'', sp_label = utf ''Go'', sp_kind = TriggerAction, sp_repeats_while_held = False,
     sp_default_binding = Some (utf ''Primary+KeyJ'')\<rparr>"

lemma demo_idents: "idents_ok demo_ident"
  by (auto simp: idents_ok_def demo_ident_def split: if_splits)

lemma demo_start: "registry_start (registry_new overrides_default)"
  unfolding registry_start_def by (rule exI [of _ overrides_default]) simp

lemma demo_registers:
  "(registry_step demo_ident)\<^sup>*\<^sup>* (registry_new overrides_default)
     (perform_call demo_ident (CallRegister 1 (utf ''One'') demo_spec) (registry_new overrides_default))"
proof -
  have "registry_call_ok (CallRegister 1 (utf ''One'') demo_spec)"
    by (simp only: registry_call_ok.simps) code_simp
  then have "registry_step demo_ident (registry_new overrides_default)
      (perform_call demo_ident (CallRegister 1 (utf ''One'') demo_spec) (registry_new overrides_default))"
    unfolding registry_step_def by blast
  then show ?thesis by (rule r_into_rtranclp)
qed

definition demo_def :: plugin_action_def where
  "demo_def = \<lparr>px_id = PluginActionId (utf ''a.one'') (utf ''go''), px_owner = 1, px_tier = Bundled, px_name = utf ''One'',
     px_label = utf ''Go'', px_kind = TriggerAction, px_repeats_while_held = False, px_default_binding = None\<rparr>"

definition demo_registry :: action_registry where
  "demo_registry =
     (let r = registry_new overrides_default; p = px_id demo_def
      in rebuild (r\<lparr>rg_overrides := adopt_dormant p (rg_overrides r),
           rg_plugin_enabled := tree_insert p True (rg_plugin_enabled r),
           rg_plugin_defs := tree_insert p demo_def (rg_plugin_defs r)\<rparr>))"

lemma demo_def_ok: "plugin_def_ok (px_id demo_def) demo_def"
proof -
  have "plugin_action_ok (px_id demo_def)" by code_simp
  then show ?thesis by (simp add: plugin_def_ok_def) (simp add: demo_def_def)
qed

lemma demo_registry_ok: "registry_ok demo_registry"
proof -
  have "registry_base (registry_new overrides_default)"
    using registry_new_ok [OF overrides_ok_default] by (simp add: registry_ok_base)
  moreover have "rg_plugin_defs (registry_new overrides_default) = []" by (simp add: registry_new_def)
  ultimately show ?thesis
    unfolding demo_registry_def Let_def registry_ok_rebuild
    by (intro register_new_base demo_def_ok) (simp_all add: owned_ids_def MAX_ACTIONS_PER_PLUGIN_def)
qed

lemma demo_registry_fields:
  "rg_plugin_defs demo_registry = [(px_id demo_def, demo_def)]" "rg_plugin_enabled demo_registry = [(px_id demo_def, True)]"
  "rg_overrides demo_registry = overrides_default"
  by (simp_all add: demo_registry_def Let_def registry_new_def tree_insert_def adopt_dormant_def overrides_default_def)

lemma demo_owned: "owned_ids 1 demo_registry = [px_id demo_def]" "owned_defs 1 demo_registry = [demo_def]"
  by (simp_all add: owned_ids_def owned_defs_def demo_registry_fields) (simp_all add: demo_def_def)

lemma registry_invariant_witness:
  "owners_ok demo_ident (perform_call demo_ident (CallRegister 1 (utf ''One'') demo_spec) (registry_new overrides_default))"
  using registry_invariant [OF demo_idents demo_start demo_registers] by (rule conjunct2)

section \<open>What a chord fires\<close>

text \<open>C6. In every state the registry can reach, a chord fires an action exactly when the action is
  enabled and holds the chord, its scope is live, and every other action that holds the chord, live or
  not, is of a lower tier: an equal or a higher rival silences it.\<close>

theorem chord_fires_highest_tier:
  assumes "idents_ok ident" "registry_start r0" "(registry_step ident)\<^sup>*\<^sup>* r0 r"
  shows "resolve r c st = Some i \<longleftrightarrow>
    holds r c i \<and> is_live (scope_of i) st \<and> (\<forall>other. other \<noteq> i \<and> holds r c other \<longrightarrow> tier_of r other < tier_of r i)"
  using registry.reachable_inv [OF assms(2,3)] assms(1) by (simp add: calls_inv_def resolve_iff)

lemma new_plugin [simp]: "effective_of (registry_new o1) (PluginActionRef p) = []"
  by (simp add: effective_of_def registry_new_def plugin_effective_def)

lemma new_host: "host_action_ok a \<Longrightarrow> effective_of (registry_new overrides_default) (HostActionId a) = default_chords a"
  using registry_okD(1) [OF registry_new_ok [OF overrides_ok_default]]
  by (simp add: effective_host overrides_get_def) (simp add: registry_new_def overrides_default_def)

lemma toggle_ok: "host_action_ok ActTogglePlayPause"
  by (simp add: host_action_ok_def)

lemma toggle_at: "catalog_position ActTogglePlayPause = 2"
  by (simp add: catalog_position_def ALL_ACTIONS_def)

lemma toggle_entry: "af_enabled_by_default (action_def_of ActTogglePlayPause)" "af_scope (action_def_of ActTogglePlayPause) = AppScope"
  by (simp_all add: action_def_of_def toggle_at CATALOG_def entry_def Let_def)

lemma toggle_shipped: "default_chords ActTogglePlayPause \<noteq> []"
  by (simp add: default_chords_shipped action_def_of_def toggle_at CATALOG_def entry_def Let_def)

lemma toggle_held:
  "holds (registry_new overrides_default) (hd (default_chords ActTogglePlayPause)) (HostActionId ActTogglePlayPause)"
proof -
  have "enabled_of (registry_new overrides_default) (HostActionId ActTogglePlayPause)"
    using catalog_position_less [of ActTogglePlayPause] catalog_position_nth [OF toggle_ok] toggle_entry
    by (simp add: enabled_of_def registry_new_def all_actions_length)
  then show ?thesis using toggle_shipped by (simp add: holds_def action_exists_def new_host toggle_ok)
qed

lemma toggle_only:
  assumes "holds (registry_new overrides_default) (hd (default_chords ActTogglePlayPause)) i"
  shows "i = HostActionId ActTogglePlayPause"
proof (cases i)
  case (HostActionId a)
  with assms have a: "host_action_ok a" "hd (default_chords ActTogglePlayPause) \<in> set (default_chords a)"
    by (auto simp: holds_def action_exists_def new_host)
  have "hd (default_chords ActTogglePlayPause) \<in> set (default_chords ActTogglePlayPause)"
    using toggle_shipped by simp
  with a defaults_disjoint [OF a(1) toggle_ok] HostActionId show ?thesis by blast
qed (use assms in \<open>simp add: holds_def\<close>)

lemma chord_fires_highest_tier_witness:
  "resolve (registry_new overrides_default) (hd (default_chords ActTogglePlayPause))
     \<lparr>now_playing_shown = False, marker_focused = False\<rparr> = Some (HostActionId ActTogglePlayPause)"
proof -
  have "is_live (scope_of (HostActionId ActTogglePlayPause)) \<lparr>now_playing_shown = False, marker_focused = False\<rparr>"
    by (simp add: scope_of_def toggle_entry)
  with toggle_held toggle_only show ?thesis
    using chord_fires_highest_tier [OF demo_idents demo_start rtranclp.rtrancl_refl] by blast
qed

section \<open>A plugin restarts\<close>

text \<open>C8. A plugin that stops and then registers the same actions again, in any order, finds the
  registry exactly as it left it: its own bindings, the index and the conflicts, if its actions were
  enabled.\<close>

theorem plugin_restart_restores:
  assumes "registry_ok r" "list_all (\<lambda>p. map_of (rg_plugin_enabled r) p = Some True) (owned_ids owner r)"
    "mset ds = mset (owned_defs owner r)"
  shows "register_each ds (unregister_plugin_actions owner r) = Inr r"
  by (rule restart_restores [OF assms])

lemma plugin_restart_restores_witness:
  "register_each [demo_def] (unregister_plugin_actions 1 demo_registry) = Inr demo_registry"
  by (rule plugin_restart_restores [OF demo_registry_ok]) (simp_all add: demo_owned demo_registry_fields)

text \<open>C9. A reset of all shortcuts, which is meant for the host's actions and copies the bindings of
  the plugins' actions over, throws away the bindings that are parked for a stopped plugin: when the
  plugin comes back, its action has its default binding only.\<close>

theorem reset_all_forgets_parked:
  assumes "registry_ok r" "map_of (rg_plugin_defs r) p = Some d"
  shows "\<exists>r'. register_action d (reset_all (unregister_plugin_actions (px_owner d) r)) = Inr r' \<and>
     effective_of r' (PluginActionRef p) = (case px_default_binding d of Some c \<Rightarrow> [c] | None \<Rightarrow> [])"
  by (rule reset_forgets_parked [OF assms])

lemma reset_all_forgets_parked_witness:
  "\<exists>r'. register_action demo_def (reset_all (unregister_plugin_actions (px_owner demo_def) demo_registry)) = Inr r' \<and>
     effective_of r' (PluginActionRef (px_id demo_def)) = []"
  using reset_all_forgets_parked [OF demo_registry_ok, of "px_id demo_def" demo_def]
  by (simp add: demo_registry_fields) (simp add: demo_def_def)

text \<open>After a reset of all shortcuts every host action has its shipped binding, and none of them is
  in conflict, whatever the plugins bind.\<close>

lemma reset_all_shipped:
  assumes "registry_ok r" "host_action_ok a"
  shows "effective_of (reset_all r) (HostActionId a) = default_chords a \<and>
    list_all (\<lambda>c. \<not> is_conflicting (reset_all r) (HostActionId a) c) (default_chords a)"
  using reset_all_host_defaults [OF assms] reset_all_host_free [OF assms(1)] by (simp add: list_all_iff)

lemma reset_all_shipped_witness:
  "effective_of (reset_all demo_registry) (HostActionId ActTogglePlayPause) = default_chords ActTogglePlayPause"
  using reset_all_shipped [OF demo_registry_ok toggle_ok] by (rule conjunct1)

section \<open>The application restarts\<close>

text \<open>A registry with the host actions enabled as shipped.\<close>

definition as_shipped :: "action_registry \<Rightarrow> action_registry" where
  "as_shipped r = rebuild (r\<lparr>rg_enabled := map (\<lambda>a. af_enabled_by_default (action_def_of a)) ALL_ACTIONS\<rparr>)"

definition only_registered :: "action_registry \<Rightarrow> bool" where
  "only_registered r \<longleftrightarrow> list_all (\<lambda>(p, _). map_of (rg_plugin_defs r) p \<noteq> None) (ko_plugin (rg_overrides r))"

lemma as_shipped_ok: "registry_ok r \<Longrightarrow> registry_ok (as_shipped r)"
  unfolding as_shipped_def registry_ok_rebuild
  by (rule registry_base_enabled) (simp_all add: registry_ok_base all_actions_length)

lemma as_shipped_fields [simp]:
  "rg_overrides (as_shipped r) = rg_overrides r" "rg_plugin_defs (as_shipped r) = rg_plugin_defs r"
  "rg_plugin_enabled (as_shipped r) = rg_plugin_enabled r"
  "rg_enabled (as_shipped r) = map (\<lambda>a. af_enabled_by_default (action_def_of a)) ALL_ACTIONS"
  by (simp_all add: as_shipped_def)

lemma as_shipped_effective: "registry_ok r \<Longrightarrow> effective_of (as_shipped r) i = effective_of r i"
  by (cases i) (simp_all add: as_shipped_def effective_of_def registry_okD(1) coherent_fields)

lemma dormant_of_registered:
  assumes ok: "registry_ok r" and p: "map_of (rg_plugin_defs r) p = Some d"
  shows "map_of (dormant_of (rg_overrides r)) (plugin_action_key p) = map_of (ko_plugin (rg_overrides r)) p"
proof -
  have base: "registry_base r" using ok by (simp add: registry_ok_base)
  have over: "overrides_ok (rg_overrides r)" by (rule registry_okD(2) [OF ok])
  have pok: "plugin_action_ok p" using registry_base_def_ok(1) [OF base p] by (simp add: plugin_def_ok_def)
  have oks: "q \<in> fst ` set (ko_plugin (rg_overrides r)) \<Longrightarrow> plugin_action_ok q" for q
    using over by (auto simp: overrides_ok_def list_all_iff)
  let ?plugin = "fold (\<lambda>(p, cs). tree_insert (plugin_action_key p) (id cs)) (ko_plugin (rg_overrides r)) []"
  have "plugin_action_key p \<notin> id ` fst ` set (ko_dormant (rg_overrides r))"
    using registry_base_def_ok(2) [OF base p] by (simp add: map_of_eq_None_iff)
  from fold_insert_other [OF this, of id ?plugin]
  have "map_of (dormant_of (rg_overrides r)) (plugin_action_key p) = map_of ?plugin (plugin_action_key p)"
    by (simp add: dormant_of_def)
  also have "\<dots> = map_of (ko_plugin (rg_overrides r)) p"
  proof (cases "map_of (ko_plugin (rg_overrides r)) p")
    case None
    have "plugin_action_key p \<notin> plugin_action_key ` fst ` set (ko_plugin (rg_overrides r))"
    proof
      assume "plugin_action_key p \<in> plugin_action_key ` fst ` set (ko_plugin (rg_overrides r))"
      then obtain q where q: "q \<in> fst ` set (ko_plugin (rg_overrides r))" "plugin_action_key p = plugin_action_key q" by blast
      then have "p = q" using plugin_action_key_inject [OF pok oks [OF q(1)]] by blast
      with q(1) None show False by (simp add: map_of_eq_None_iff)
    qed
    from fold_insert_other [OF this, of id "[]"] None show ?thesis by simp
  next
    case (Some cs)
    have "inj_on plugin_action_key (fst ` set (ko_plugin (rg_overrides r)))"
      using oks plugin_action_key_inject by (intro inj_onI) blast
    moreover have "distinct (map fst (ko_plugin (rg_overrides r)))"
      using over by (intro tree_ok_distinct) (simp add: overrides_ok_def)
    ultimately have "map_of ?plugin (plugin_action_key p) = Some (id cs)"
      using map_of_SomeD [OF Some] by (intro fold_insert_lookup)
    with Some show ?thesis by simp
  qed
  finally show ?thesis .
qed

lemma started_absent:
  assumes ok: "registry_ok r" and only: "only_registered r"
  shows "absent (set (map fst (rg_plugin_defs r))) (as_shipped r) (registry_new (parked (rg_overrides r)))"
proof -
  have over: "overrides_ok (rg_overrides r)" by (rule registry_okD(2) [OF ok])
  define n where "n = registry_new (parked (rg_overrides r))"
  have n: "registry_ok n" unfolding n_def by (rule registry_new_ok [OF parked_ok [OF over]])
  have new: "rg_plugin_defs n = []" "rg_plugin_enabled n = []" "rg_overrides n = parked (rg_overrides r)"
    "rg_enabled n = map (\<lambda>a. af_enabled_by_default (action_def_of a)) ALL_ACTIONS"
    by (simp_all add: n_def registry_new_def)
  have defs: "p \<in> set (map fst (rg_plugin_defs r)) \<longleftrightarrow> map_of (rg_plugin_defs r) p \<noteq> None" for p
    by (simp add: map_of_eq_None_iff)
  have enabled: "map_of (rg_plugin_enabled r) p = None" if "map_of (rg_plugin_defs r) p = None" for p
    using that registry_okD(6) [OF ok] by (metis map_of_eq_None_iff list.set_map)
  have plugin: "map_of (rg_plugin_defs r) p \<noteq> None" if "p \<in> fst ` set (ko_plugin (rg_overrides r))" for p
    using only that by (auto simp: only_registered_def list_all_iff)
  have other: "map_of (dormant_of (rg_overrides r)) key = map_of (ko_dormant (rg_overrides r)) key"
    if "key \<notin> plugin_action_key ` set (map fst (rg_plugin_defs r))" for key
  proof -
    have "key \<notin> plugin_action_key ` fst ` set (ko_plugin (rg_overrides r))"
      using that plugin defs by blast
    from fold_insert_other [OF this, of id "[]"]
    have "map_of (fold (\<lambda>(p, cs). tree_insert (plugin_action_key p) (id cs)) (ko_plugin (rg_overrides r)) []) key = map_option id (map_of [] key)"
      by simp
    from fold_insert_map [where f = id, OF this, of "ko_dormant (rg_overrides r)"] fold_insert_id [of "ko_dormant (rg_overrides r)"] over
    show ?thesis by (simp add: dormant_of_def overrides_ok_def option.map_id)
  qed
  have "map_of (ko_plugin (rg_overrides r)) p = None" if "map_of (rg_plugin_defs r) p = None" for p
    using that plugin [of p] unfolding map_of_eq_None_iff by blast
  moreover have "map_of (dormant_of (rg_overrides r)) (plugin_action_key p) = map_of (ko_plugin (rg_overrides r)) p"
    if "(p, d) \<in> set (rg_plugin_defs r)" for p d
    using that dormant_of_registered [OF ok] tree_ok_lookup [OF registry_okD(4) [OF ok]] by blast
  ultimately have "absent_base (set (map fst (rg_plugin_defs r))) (as_shipped r) n"
    using n registry_ok_base enabled other defs
    by (auto simp: absent_base_def new parked_def fun_eq_iff)
  then show ?thesis
    using n by (simp add: absent_def registry_ok_base flip: n_def)
qed

lemma restart_application:
  assumes ok: "registry_ok r" and only: "only_registered r"
    and live: "list_all (\<lambda>(_, b). b) (rg_plugin_enabled r)" and ds: "mset ds = mset (map snd (rg_plugin_defs r))"
  shows "register_each ds (registry_new (parked (rg_overrides r))) = Inr (as_shipped r)"
proof (rule register_each_back [OF started_absent [OF ok only] as_shipped_ok [OF ok]])
  have base: "registry_base r" using ok by (simp add: registry_ok_base)
  note trees = registry_base_trees [OF base]
  have def: "map_of (rg_plugin_defs r) p = Some d \<and> plugin_def_ok p d" if "(p, d) \<in> set (rg_plugin_defs r)" for p d
    using that tree_ok_lookup [OF trees(1)] registry_base_def_ok(1) [OF base] by blast
  have ids: "map px_id (map snd (rg_plugin_defs r)) = map fst (rg_plugin_defs r)"
    using def by (auto simp: plugin_def_ok_def)
  show "\<forall>q\<in>set (map fst (rg_plugin_defs r)). plugin_action_ok q"
    using def by (auto simp: plugin_def_ok_def)
  have set: "set ds = snd ` set (rg_plugin_defs r)" using ds by (metis set_mset_mset set_map)
  show "set (map fst (rg_plugin_defs r)) = px_id ` set ds"
    unfolding set ids [symmetric] by (simp add: image_image)
  have "mset (map px_id ds) = mset (map fst (rg_plugin_defs r))"
    using ds unfolding ids [symmetric] by (simp only: mset_map)
  then show "distinct (map px_id ds)"
    using tree_ok_distinct [OF trees(1)] mset_eq_imp_distinct_iff by blast
  have on: "map_of (rg_plugin_enabled r) p = Some True" if "map_of (rg_plugin_defs r) p \<noteq> None" for p
  proof -
    from that have "map_of (rg_plugin_enabled r) p \<noteq> None"
      using registry_okD(6) [OF ok] by (metis map_of_eq_None_iff list.set_map)
    then obtain b where "map_of (rg_plugin_enabled r) p = Some b" by blast
    with live show ?thesis by (auto simp: list_all_iff dest: map_of_SomeD)
  qed
  have "map_of (rg_plugin_defs r) (px_id d) = Some d \<and> map_of (rg_plugin_enabled r) (px_id d) = Some True"
    if "d \<in> set ds" for d
  proof -
    from that obtain p where "(p, d) \<in> set (rg_plugin_defs r)" by (auto simp: set)
    with def have "map_of (rg_plugin_defs r) p = Some d" "px_id d = p" by (auto simp: plugin_def_ok_def)
    with on show ?thesis by simp
  qed
  then show "list_all (\<lambda>d. map_of (rg_plugin_defs (as_shipped r)) (px_id d) = Some d \<and>
      map_of (rg_plugin_enabled (as_shipped r)) (px_id d) = Some True) ds"
    by (simp add: list_all_iff)
qed

text \<open>C5. The user's shortcuts survive a restart of the application. The bindings are written to the
  settings file, the file is read at the next start, the plugins register their actions again in any
  order: every action, of the host or of a plugin, has the bindings it had. The plugins were enabled
  and no binding belongs to an action that was not registered.\<close>

theorem application_restart:
  assumes "registry_ok r" "only_registered r" "list_all (\<lambda>(_, b). b) (rg_plugin_enabled r)"
    "mset ds = mset (map snd (rg_plugin_defs r))"
    "settings_ok (fst (settings_load parse_time disk))" "stamp_ok format_time parse_time (fst (settings_load parse_time disk))"
    "fst (settings_load parse_time (fst (persist_actions format_time parse_time True r disk))) = s"
  shows "\<exists>r'. register_each ds (registry_new (au_keybinding_overrides s)) = Inr r' \<and>
    effective_of r' = effective_of r"
proof -
  have "au_keybinding_overrides s = parked (rg_overrides r)"
    using persist_reload [OF assms(5) registry_okD(2) [OF assms(1)] assms(6)] assms(7) by auto
  with restart_application [OF assms(1-4)] have
    "register_each ds (registry_new (au_keybinding_overrides s)) = Inr (as_shipped r)" by simp
  moreover have "effective_of (as_shipped r) = effective_of r"
    using as_shipped_effective [OF assms(1)] by blast
  ultimately show ?thesis by blast
qed

lemma application_restart_witness:
  "\<exists>r'. register_each [demo_def]
     (registry_new (au_keybinding_overrides (fst (settings_load (\<lambda>_. None)
        (fst (persist_actions (\<lambda>_. None) (\<lambda>_. None) True demo_registry NoSettings)))))) = Inr r' \<and>
     effective_of r' = effective_of demo_registry"
proof (rule application_restart [OF demo_registry_ok])
  show "settings_ok (fst (settings_load (\<lambda>_. None) NoSettings))"
    using default_settings_ok by (simp add: settings_load_def)
  show "stamp_ok (\<lambda>_. None) (\<lambda>_. None) (fst (settings_load (\<lambda>_. None) NoSettings))"
    by (simp add: settings_load_def stamp_ok_def audio_settings_default_def)
qed (simp_all add: only_registered_def demo_registry_fields overrides_default_def)

end
