(* ===== verification/Spec2Isabelle.thy ===== *)
theory Spec2Isabelle
  imports Queue_Theorems Link_Theorems Session_Markers Markers_Theorems Marker_Store_Theorems
    Gateway_Theorems Search_Theorems Timers_Theorems Notifications_Theorems
    Chain_Faults Library_Rows Actions_Theorems
begin

text \<open>
  A verification of the core of ModPlayer, a desktop music player written in Rust (a workspace of
  crates under \<^verbatim>\<open>crates/\<close>). The user interface sends commands to the
  \<^verbatim>\<open>PlaybackController\<close> of \<^verbatim>\<open>modplayer-core\<close>, which owns the play queue,
  the transport state, the markers of the current track, catalog search and the notifications, and
  which drives an audio source (a streaming client) and the real-time engine. Plugins run in a
  scripting runtime; every request of theirs passes a capability gateway. This development models
  the parts that decide, as Isabelle functions translated from the source, and proves what makes
  them correct. Times are numbers in the unit each theory names; \<^verbatim>\<open>Instant::now()\<close> is
  an argument everywhere. Identifiers that the code keeps in \<^verbatim>\<open>u32\<close> or
  \<^verbatim>\<open>u64\<close> counters are natural numbers where only their order and freshness matter
  (so the overflow of such a counter is outside the model), and machine words where the code computes
  with their bits.

  \<^bold>\<open>Prelude\<close> holds the outcomes of a call (a value, a panic, no return), the index operations
  of vectors, and the two contracts that nearly all components fulfil, as locales: \<open>machine\<close> (an
  invariant that holds initially and is kept by every step holds in every reachable state) and
  \<open>id_allocator\<close> (identifiers come from a counter that only grows, so none is handed out twice).
  Each component interprets them on its own states and steps. \<^bold>\<open>Source_Types\<close> has the value
  types of \<^verbatim>\<open>modplayer-audio-source\<close> and the packing of request identifiers.

  \<^bold>\<open>The play queue\<close> (\<^verbatim>\<open>modplayer-core/src/queue.rs\<close>). \<open>Play_Queue\<close>
  translates every operation of \<^verbatim>\<open>Queue\<close>: the context with its cursor, the play-next
  block, the shuffle order and the history; a call that can panic returns an outcome. The random
  generator is a parameter (a function from a state to a number and a next state), instantiated by
  the code's own xorshift generator. \<open>Queue_Invariants\<close> proves well-formedness for each
  operation, \<open>Queue_Machine\<close> for every sequence of calls, \<open>Queue_Order\<close> what each operation
  does to the upcoming list. \<open>Queue_Walk\<close> is the controller's loop over unavailable items
  (\<^verbatim>\<open>apply_queue_op\<close> in \<^verbatim>\<open>controller.rs\<close>), a partial function: when it
  returns is a theorem. \<open>Queue_Theorems\<close> states the properties. Those about the order of playback are
  about queues reached without reordering or moving an item while shuffle is on (\<open>ordered_step\<close>): such
  a call duplicates the upcoming items that stand in the played part of the context, which is
  characterised there too (\<open>reorder_duplicates_iff\<close>).

  \<^bold>\<open>Transport and session\<close>. \<open>Transport\<close> is the reducer of
  \<^verbatim>\<open>transport.rs\<close>, one definition per rule; \<open>Link\<close> adds what the controller keeps
  beside it: the reconnect and transfer deadlines and the notices of the stream (the user's dismissal of
  a notice is not among its steps); \<open>Session\<close> and
  \<open>Session_Steps\<close> compose queue, transport, programs sent to the source and the debounced program
  of the queue panel, with \<^verbatim>\<open>dispatch\<close>, its effects and what it does afterwards for the current
  track (\<open>track_parts\<close>): the hooks of the focus, the play log, the attachment of analysis and markers,
  the length that a started track brings, and the debounced write of the markers. What the store gives
  and the answers of the plugins' inboxes are part of the surroundings; the events that are fanned out
  to the plugins and the logging are left out. A dispatch can dispatch again
  (an effect that replays a pending command); the model bounds the nesting by fuel 3, and that this
  is enough for every state is the theorem \<open>dispatch_depth\<close>. \<open>Link_Theorems\<close> and
  \<open>Session_Theorems\<close> state the properties; \<open>Session_Markers\<close> follows the markers of a track from a
  skip to the write of the file.

  \<^bold>\<open>Markers\<close> (\<^verbatim>\<open>markers/model.rs\<close>, \<^verbatim>\<open>markers/store.rs\<close>).
  \<open>Markers\<close> translates all of \<^verbatim>\<open>TrackMarkers\<close>: points, cues, loop regions with
  two endpoints, arming. \<open>Markers_Invariants\<close> and \<open>Markers_Machine\<close> prove the documented
  invariants for each operation and every sequence of them. \<open>Marker_Store\<close> is persistence: file
  names, the stored records, the repairs of a loaded file; the JSON parser is a parameter. Its
  theorems are the round trips of \<open>Marker_Store_Theorems\<close>.

  \<^bold>\<open>Plugins\<close>. \<open>Gateway\<close> (\<^verbatim>\<open>modplayer-capability-gateway\<close>) is the one path
  of every request: grants, focus, rate limits. The permissions and request kinds are generated by
  the build from a file, so they are type parameters and the record \<open>api\<close> says what the code asks
  of them. The locale \<open>rolling_window\<close> is the contract of the limiter, interpreted for each
  category. \<open>Focus\<close> (\<^verbatim>\<open>plugins/focus.rs\<close>, \<^verbatim>\<open>plugins/host.rs\<close>) is the
  arbiter of transport focus and the publication of its decisions, step by step, as the threads of the
  plugins see them: the token the gateways read, then each event, which arrives or is dropped, and the
  threads that start and end; the controller's second check (\<^verbatim>\<open>plugins/apply.rs\<close>) is there too. \<open>Gateway_Theorems\<close> has the properties of both and of their
  composition. \<open>Timers\<close> (\<^verbatim>\<open>modplayer-plugin-runtime/src/timers.rs\<close>) are the timers
  of a plugin; \<open>Timers_Theorems\<close> proves that draining refines a map from handles to deadlines.

  \<^bold>\<open>Search and notifications\<close>. \<open>Search\<close> translates \<^verbatim>\<open>search.rs\<close> and
  \<^verbatim>\<open>backoff.rs\<close>: the debounced query, the combined request, further pages, retries;
  \<open>Search_Invariant\<close> proves that requests, retries and groups agree, for replies that answer what
  was asked; \<open>Search_Theorems\<close> that every answered search settles, with the case in which the code
  breaks that. The generation in a request identifier has 56 bits: the theorems about replies say so.
  \<open>Notifications\<close> and \<open>Notifications_Theorems\<close> are the notification centre.

  \<^bold>\<open>The effect chain\<close> (\<^verbatim>\<open>modplayer-effects\<close>,
  \<^verbatim>\<open>modplayer-core/src/effects/model.rs\<close>). \<open>Effect_Catalog\<close> has the kinds of
  nodes, their parameters, the clamping of values and the rule of the automatic quality mode;
  \<open>Chain_Model\<close> the controller's chain, whose operations return the commands for the engine;
  \<open>Chain_Rt\<close> the engine's copy: the sixteen slots, commands, fades, the two phases of a move, the
  plan of a render, measured costs and the automatic bypass. Values are rationals, so rounding of
  \<^verbatim>\<open>f32\<close> is outside the model (a request may still be infinite or not a number); the fixed
  arrays are functions of the index; samples are not modelled, and what the time stretching stage asks
  for and what the clock measures are arguments of a render. \<open>Chain_Invariant\<close> proves the
  invariant of the controller's chain, \<open>Chain_Render\<close> what renders keep, \<open>Chain_Refinement\<close> and
  \<open>Chain_Commands\<close> relate the two copies command by command, \<open>Chain_Lockstep\<close> and
  \<open>Chain_Replay\<close> compose them: after every operation, its commands and enough renders (twice a
  fade and one more) the engine agrees with the controller, and so over every sequence of such operations,
  renders, measurements and rebuilds (\<open>Effects_Theorems\<close>). The refinement is about one operation at a
  time, each with the renders it needs, and about the operations of \<open>on_engine\<close>: it excludes the removal
  of a node that is faded out and a value that is not a number. \<open>Chain_Faults\<close> has the two classes of
  operations that the code loses outside of this.

  \<^bold>\<open>The library\<close> (\<^verbatim>\<open>modplayer-core/src/library\<close>). \<open>Library_Index\<close> is the mirror
  of the account's library: the saved lists, the references that are hydrated later, the queue of what
  is to be hydrated; a hash map that is iterated is an association list whose order stands for any
  order. \<open>Library_Sync\<close> is the scheduler that fetches the four sets page by page, \<open>Library_Desk\<close>
  the part of the controller that drives both and routes the replies, \<open>Play_Log\<close> the log of plays and
  \<open>Library_Store\<close> the stored form of both. \<open>Library_Invariant\<close> has the invariant of the index,
  \<open>Library_Cycle\<close> runs a whole cycle against a source that answers after any refusals;
  \<open>Library_Theorems\<close> and \<open>Library_Rows\<close> state the properties: that a cycle ends, that every row
  is hydrated in the end, but for those a loaded index brings bare, that storing keeps everything, and
  where an artist or a sign-out is lost.

  \<^bold>\<open>Shortcuts\<close> (\<^verbatim>\<open>modplayer-core/src/actions\<close>). \<open>Actions_Chord\<close> is the grammar of key
  combinations, its encoder and the labels of each platform; \<open>Actions_Catalog\<close> the 46 actions of the
  host and the identifiers of the plugins' actions; \<open>Actions_Keymap\<close> the user's overrides, with the
  dormant ones of actions that are not registered; \<open>Actions_Registry\<close> the registry, which derives
  effective bindings, the index and the conflicts after every call, and the calls of the controller on
  it. A \<^verbatim>\<open>BTreeMap\<close> is a sorted association list (\<open>Ordered_Map\<close>, whose locale \<open>keyed_map\<close> is
  interpreted on it), a \<^verbatim>\<open>HashMap\<close> an association list that is only looked up.
  \<open>Actions_Invariant\<close> proves which action a chord fires, \<open>Actions_Machine\<close> that every call keeps the
  invariant, \<open>Actions_Restart\<close> what a plugin's stop and start do; \<open>Actions_Theorems\<close> states the
  properties, up to the restart of the application through the settings file.

  \<^bold>\<open>Settings\<close> (\<^verbatim>\<open>modplayer-core/src/settings\<close>). \<open>Settings_Model\<close> has the value types of the
  engine that settings hold, with the limiter they configure, the raw records of the file and both
  conversions, load and save and the change of one setting by the controller. \<open>Settings_Roundtrip\<close>
  proves field by field what is read back, \<open>Settings_Theorems\<close> states the properties. The text of
  the file and of its time stamp are parameters.

  \<^bold>\<open>Where the code leaves its contract\<close>, a theorem or lemma says so on a concrete input or
  for a class of states: see the sections of that name and the lemmas on the queue, the session, the
  markers, the stored markers and search.

  \<^bold>\<open>Not modelled\<close>: the user interface (\<^verbatim>\<open>modplayer-ui\<close>: drawing and widgets), the
  rest of the real-time engine (\<^verbatim>\<open>modplayer-engine\<close>) and the signal processing of the effect
  nodes (floating-point arithmetic and lock-free buffers), audio
  devices (\<^verbatim>\<open>modplayer-audio-io\<close>), the network client of the streaming service and the
  synthetic source, sign-in, key storage and the account service, waveform analysis, the scripting
  runtime's bindings and scheduler, and within the controller
  what only forwards to such parts. Threads and channels are modelled by the order of the calls they
  deliver; a file that is written or read is a value.
\<close>

end
